(* ===== verification/Rooms.thy ===== *)
theory Rooms
  imports Prelude
begin

text \<open>
  The in-memory room registry of the WebSocket server (\<open>server/room-registry.ts\<close>): a
  bidirectional index between room names and sockets. Sockets are object identities. The
  abstract contract is a binary subscription relation, stated as the locale
  \<open>subscription_registry\<close>; the registry is its interpretation.
\<close>

type_synonym socket = nat

record room_registry =
  rooms :: "(string, socket list) jsmap"
  socketRooms :: "(socket, string list) jsmap"

definition new_registry :: room_registry where
  "new_registry = \<lparr> rooms = [], socketRooms = [] \<rparr>"

section \<open>Operations\<close>

definition set_of :: "('k, 'v list) jsmap \<Rightarrow> 'k \<Rightarrow> 'v list" where
  "set_of m k = (case map_of m k of None \<Rightarrow> [] | Some s \<Rightarrow> s)"

definition join :: "socket \<Rightarrow> string \<Rightarrow> room_registry \<Rightarrow> room_registry" where
  "join ws room r =
     r\<lparr> rooms := jm_set room (js_add ws (set_of (rooms r) room)) (rooms r),
        socketRooms := jm_set ws (js_add room (set_of (socketRooms r) ws)) (socketRooms r) \<rparr>"

text \<open>Deletes one element of a set stored in a map and drops the set once it is empty.\<close>

definition drop_member :: "'k \<Rightarrow> 'v \<Rightarrow> ('k, 'v list) jsmap \<Rightarrow> ('k, 'v list) jsmap" where
  "drop_member k v m =
     (case map_of m k of
        None \<Rightarrow> m
      | Some s \<Rightarrow> let s' = js_remove v s in if s' = [] then jm_delete k m else jm_set k s' m)"

definition leave :: "socket \<Rightarrow> string \<Rightarrow> room_registry \<Rightarrow> room_registry" where
  "leave ws room r =
     r\<lparr> rooms := drop_member room ws (rooms r),
        socketRooms := drop_member ws room (socketRooms r) \<rparr>"

definition leaveAll :: "socket \<Rightarrow> room_registry \<Rightarrow> room_registry" where
  "leaveAll ws r =
     (case map_of (socketRooms r) ws of
        None \<Rightarrow> r
      | Some joined \<Rightarrow>
          r\<lparr> rooms := fold (\<lambda>room m. drop_member room ws m) joined (rooms r),
             socketRooms := jm_delete ws (socketRooms r) \<rparr>)"

text \<open>The frames \<open>broadcast\<close> hands to the sockets, in the order they are sent.\<close>

definition broadcast ::
    "(socket \<Rightarrow> bool) \<Rightarrow> string \<Rightarrow> 'd \<Rightarrow> socket option \<Rightarrow> room_registry \<Rightarrow> (socket \<times> 'd) list" where
  "broadcast is_open room data exclude r =
     (case map_of (rooms r) room of
        None \<Rightarrow> []
      | Some members \<Rightarrow> [(ws, data). ws \<leftarrow> members, Some ws \<noteq> exclude, is_open ws])"

definition has_member :: "socket \<Rightarrow> string \<Rightarrow> room_registry \<Rightarrow> bool" where
  "has_member ws room r = (case map_of (rooms r) room of None \<Rightarrow> False | Some s \<Rightarrow> ws \<in> set s)"

definition getRoomSize :: "string \<Rightarrow> room_registry \<Rightarrow> nat" where
  "getRoomSize room r = (case map_of (rooms r) room of None \<Rightarrow> 0 | Some s \<Rightarrow> length s)"

section \<open>Invariant\<close>

definition index_wf :: "('k, 'v list) jsmap \<Rightarrow> bool" where
  "index_wf m \<longleftrightarrow> jm_wf m \<and> (\<forall>(k, s) \<in> set m. s \<noteq> [] \<and> distinct s)"

definition registry_inv :: "room_registry \<Rightarrow> bool" where
  "registry_inv r \<longleftrightarrow>
     index_wf (rooms r) \<and> index_wf (socketRooms r) \<and>
     (\<forall>ws room. ws \<in> set (set_of (rooms r) room) \<longleftrightarrow> room \<in> set (set_of (socketRooms r) ws))"

lemma index_wf_iff:
  "index_wf m \<longleftrightarrow> jm_wf m \<and> (\<forall>k s. map_of m k = Some s \<longrightarrow> s \<noteq> [] \<and> distinct s)"
  by (fastforce simp: index_wf_def jm_wf_lookup)

lemma index_wf_add: "index_wf m \<Longrightarrow> index_wf (jm_set k (js_add v (set_of m k)) m)"
  by (auto simp: index_wf_iff set_of_def split: option.splits)

lemma set_of_add [simp]:
  "set_of (jm_set k (js_add v (set_of m k)) m) k' =
     (if k' = k then js_add v (set_of m k) else set_of m k')"
  by (simp add: set_of_def)

lemma index_wf_drop: "index_wf m \<Longrightarrow> index_wf (drop_member k v m)"
  by (auto simp: index_wf_iff drop_member_def Let_def split: option.splits if_splits)

lemma set_of_drop:
  "set (set_of (drop_member k v m) k') =
     (if k' = k then set (set_of m k) - {v} else set (set_of m k'))"
  by (auto simp: set_of_def drop_member_def Let_def js_remove_Nil_iff split: option.splits)

lemma fold_drop_wf: "index_wf m \<Longrightarrow> index_wf (fold (\<lambda>k m. drop_member k v m) ks m)"
  by (induction ks arbitrary: m) (auto simp: index_wf_drop)

lemma set_of_fold_drop:
  "set (set_of (fold (\<lambda>k m. drop_member k v m) ks m) k') =
     (if k' \<in> set ks then set (set_of m k') - {v} else set (set_of m k'))"
  by (induction ks arbitrary: m) (auto simp: set_of_drop)

lemma index_wf_delete: "index_wf m \<Longrightarrow> index_wf (jm_delete k m)"
  by (auto simp: index_wf_iff split: if_splits)

lemma set_of_delete: "set_of (jm_delete k m) k' = (if k' = k then [] else set_of m k')"
  by (simp add: set_of_def)

lemma has_member_iff: "has_member ws room r \<longleftrightarrow> ws \<in> set (set_of (rooms r) room)"
  by (simp add: has_member_def set_of_def split: option.splits)

lemma registry_inv_new: "registry_inv new_registry"
  by (simp add: registry_inv_def new_registry_def index_wf_def set_of_def)

lemma registry_inv_join: "registry_inv r \<Longrightarrow> registry_inv (join ws room r)"
  by (auto simp: registry_inv_def join_def index_wf_add)

lemma registry_inv_leave: "registry_inv r \<Longrightarrow> registry_inv (leave ws room r)"
  by (auto simp: registry_inv_def leave_def index_wf_drop set_of_drop)

lemma registry_inv_leaveAll:
  assumes "registry_inv r"
  shows "registry_inv (leaveAll ws r)"
proof (cases "map_of (socketRooms r) ws")
  case None
  then show ?thesis using assms by (simp add: leaveAll_def)
next
  case (Some joined)
  then have "set_of (socketRooms r) ws = joined" by (simp add: set_of_def)
  then show ?thesis using assms Some
    by (auto simp: registry_inv_def leaveAll_def fold_drop_wf index_wf_delete set_of_fold_drop
        set_of_delete)
qed

section \<open>The subscription relation\<close>

definition subs :: "room_registry \<Rightarrow> (socket \<times> string) set" where
  "subs r = {(ws, room). has_member ws room r}"

locale subscription_registry =
  fixes empty :: 'r
    and add :: "'c \<Rightarrow> 'k \<Rightarrow> 'r \<Rightarrow> 'r"
    and del :: "'c \<Rightarrow> 'k \<Rightarrow> 'r \<Rightarrow> 'r"
    and del_all :: "'c \<Rightarrow> 'r \<Rightarrow> 'r"
    and rel :: "'r \<Rightarrow> ('c \<times> 'k) set"
    and inv :: "'r \<Rightarrow> bool"
  assumes inv_empty: "inv empty"
    and inv_add: "inv r \<Longrightarrow> inv (add c k r)"
    and inv_del: "inv r \<Longrightarrow> inv (del c k r)"
    and inv_del_all: "inv r \<Longrightarrow> inv (del_all c r)"
    and rel_empty: "rel empty = {}"
    and rel_add: "inv r \<Longrightarrow> rel (add c k r) = insert (c, k) (rel r)"
    and rel_del: "inv r \<Longrightarrow> rel (del c k r) = rel r - {(c, k)}"
    and rel_del_all: "inv r \<Longrightarrow> rel (del_all c r) = {p \<in> rel r. fst p \<noteq> c}"
begin

lemma inv_fold_add: "inv r \<Longrightarrow> inv (fold (add c) ks r)"
  by (induction ks arbitrary: r) (auto simp: inv_add)

lemma rel_fold_add: "inv r \<Longrightarrow> rel (fold (add c) ks r) = rel r \<union> {c} \<times> set ks"
  by (induction ks arbitrary: r) (auto simp: inv_add rel_add)

lemma inv_fold_del: "inv r \<Longrightarrow> inv (fold (del c) ks r)"
  by (induction ks arbitrary: r) (auto simp: inv_del)

lemma rel_fold_del: "inv r \<Longrightarrow> rel (fold (del c) ks r) = rel r - {c} \<times> set ks"
  by (induction ks arbitrary: r) (auto simp: inv_del rel_del)

lemma del_all_no_trace: "inv r \<Longrightarrow> (c, k) \<notin> rel (del_all c r)"
  by (simp add: rel_del_all)

lemma add_del: "inv r \<Longrightarrow> (c, k) \<notin> rel r \<Longrightarrow> rel (del c k (add c k r)) = rel r"
  by (auto simp: inv_add rel_add rel_del)

end

interpretation room_reg: subscription_registry new_registry join leave leaveAll subs registry_inv
proof
  show "registry_inv new_registry" by (rule registry_inv_new)
  show "subs new_registry = {}"
    by (simp add: subs_def new_registry_def has_member_def)
  fix r c k
  assume inv: "registry_inv r"
  show "registry_inv (join c k r)" using inv by (rule registry_inv_join)
  show "registry_inv (leave c k r)" using inv by (rule registry_inv_leave)
  show "registry_inv (leaveAll c r)" using inv by (rule registry_inv_leaveAll)
  show "subs (join c k r) = insert (c, k) (subs r)"
    by (auto simp: subs_def has_member_iff join_def split: if_splits)
  show "subs (leave c k r) = subs r - {(c, k)}"
    by (auto simp: subs_def has_member_iff leave_def set_of_drop)
  show "subs (leaveAll c r) = {p \<in> subs r. fst p \<noteq> c}"
  proof (cases "map_of (socketRooms r) c")
    case None
    then have "\<forall>room. c \<notin> set (set_of (rooms r) room)"
      using inv by (simp add: registry_inv_def set_of_def)
    then show ?thesis using None by (auto simp: leaveAll_def subs_def has_member_iff)
  next
    case (Some joined)
    then have "\<forall>room. c \<in> set (set_of (rooms r) room) \<longleftrightarrow> room \<in> set joined"
      using inv by (simp add: registry_inv_def set_of_def)
    then show ?thesis using Some
      by (auto simp: leaveAll_def subs_def has_member_iff set_of_fold_drop)
  qed
qed

section \<open>Properties\<close>

inductive registry_reachable :: "room_registry \<Rightarrow> bool" where
  start: "registry_reachable new_registry"
| join: "registry_reachable r \<Longrightarrow> registry_reachable (join ws room r)"
| leave: "registry_reachable r \<Longrightarrow> registry_reachable (leave ws room r)"
| leaveAll: "registry_reachable r \<Longrightarrow> registry_reachable (leaveAll ws r)"

lemma reachable_registry_inv: "registry_reachable r \<Longrightarrow> registry_inv r"
  by (induction rule: registry_reachable.induct)
    (simp_all add: room_reg.inv_empty room_reg.inv_add room_reg.inv_del room_reg.inv_del_all)

lemma broadcast_members:
  "broadcast is_open room data exclude r =
     map (\<lambda>ws. (ws, data)) (filter (\<lambda>ws. Some ws \<noteq> exclude \<and> is_open ws) (set_of (rooms r) room))"
proof -
  have "[(ws, data). ws \<leftarrow> members, Some ws \<noteq> exclude, is_open ws] =
      map (\<lambda>ws. (ws, data)) (filter (\<lambda>ws. Some ws \<noteq> exclude \<and> is_open ws) members)" for members
    by (induction members) auto
  then show ?thesis by (simp add: broadcast_def set_of_def split: option.splits)
qed

lemma broadcast_iff:
  "(ws, d) \<in> set (broadcast is_open room data exclude r) \<longleftrightarrow>
     d = data \<and> (ws, room) \<in> subs r \<and> is_open ws \<and> exclude \<noteq> Some ws"
  by (auto simp: broadcast_members subs_def has_member_iff)

lemma broadcast_distinct:
  assumes "registry_inv r"
  shows "distinct (map fst (broadcast is_open room data exclude r))"
proof -
  have "index_wf (rooms r)" using assms by (simp add: registry_inv_def)
  then have "distinct (set_of (rooms r) room)"
    by (auto simp: index_wf_iff set_of_def split: option.splits)
  then show ?thesis by (simp add: broadcast_members comp_def)
qed

text \<open>
  C5: Exactly-once room delivery. In every registry the server can reach by joining, leaving and
  disconnecting sockets, a broadcast to a room sends one frame to each open socket that is
  subscribed to the room and is not the excluded originator, and to no other socket.
\<close>

theorem broadcast_exactly_once:
  assumes "registry_reachable r"
  shows "distinct (map fst (broadcast is_open room data exclude r)) \<and>
    set (broadcast is_open room data exclude r) =
      {(ws, data) |ws. (ws, room) \<in> subs r \<and> is_open ws \<and> exclude \<noteq> Some ws}"
proof
  show "distinct (map fst (broadcast is_open room data exclude r))"
    using assms by (intro broadcast_distinct reachable_registry_inv)
  show "set (broadcast is_open room data exclude r) =
      {(ws, data) |ws. (ws, room) \<in> subs r \<and> is_open ws \<and> exclude \<noteq> Some ws}"
    by (auto simp: broadcast_iff)
qed

theorem broadcast_exactly_once_witness:
  "registry_reachable (join 2 ''r'' (join 1 ''r'' new_registry)) \<and>
   broadcast (\<lambda>_. True) ''r'' ''hi'' (Some 1) (join 2 ''r'' (join 1 ''r'' new_registry)) = [(2, ''hi'')] \<and>
   distinct (map fst (broadcast (\<lambda>_. True) ''r'' ''hi'' (Some 1) (join 2 ''r'' (join 1 ''r'' new_registry))))"
proof -
  have h: "registry_reachable (join 2 ''r'' (join 1 ''r'' new_registry))"
    by (intro registry_reachable.intros)
  then show ?thesis
    using broadcast_exactly_once [OF h, of "\<lambda>_. True" "''r''" "''hi''" "Some 1"]
    by (simp add: broadcast_def join_def new_registry_def set_of_def js_add_def)
qed

text \<open>
  C15: The two indexes of the registry agree and hold no garbage in every reachable state, and
  the operations implement the subscription relation: joining adds the pair, leaving removes it,
  and disconnecting a socket removes exactly the socket's subscriptions.
\<close>

theorem registry_refines_relation:
  assumes "registry_reachable r"
  shows "registry_inv r \<and>
    subs (join ws room r) = insert (ws, room) (subs r) \<and>
    subs (leave ws room r) = subs r - {(ws, room)} \<and>
    subs (leaveAll ws r) = {p \<in> subs r. fst p \<noteq> ws}"
  using reachable_registry_inv [OF assms]
  by (simp add: room_reg.rel_add room_reg.rel_del room_reg.rel_del_all)

theorem registry_refines_relation_witness:
  "registry_reachable (join 1 ''a'' new_registry) \<and>
   registry_inv (join 1 ''a'' new_registry) \<and>
   subs (leaveAll 1 (join 1 ''a'' new_registry)) = {}"
proof -
  have h: "registry_reachable (join 1 ''a'' new_registry)"
    by (intro registry_reachable.intros)
  have "subs (join 1 ''a'' new_registry) = {(1, ''a'')}"
    by (auto simp: subs_def has_member_def join_def new_registry_def set_of_def js_add_def)
  then show ?thesis using h registry_refines_relation [OF h, of 1] by auto
qed

end
