(* ===== verification/JsValue.thy ===== *)
theory JsValue
  imports Complex_Main Prelude "HOL-Library.Word" "HOL-Library.Char_ord" "HOL-Library.List_Lexorder"
begin

text \<open>
  JavaScript data values as the modelled code sees them, and the object helpers of
  \<open>utils/lodash.ts\<close> and \<open>ejson/utils.ts\<close>.

  Numbers are IEEE doubles read as their exact value: a finite number is the rational it denotes,
  besides the two infinities and NaN; \<open>-0\<close> and \<open>0\<close> are one value, as \<open>===\<close> has it. Strings are
  lists of code units below 256. An object is the list of its own enumerable properties in the
  order \<open>Object.entries\<close> reports them: integer-like keys ascending, then the other keys in the
  order they were created. Instances of \<open>Date\<close>, \<open>RegExp\<close>, \<open>Uint8Array\<close> and the BSON
  \<open>ObjectId\<close> are constructors of their own. Functions, symbols, big integers and class instances
  are not data of the model.
\<close>

datatype jsnum = NaN | Infinity | NegInfinity | Fin rat

datatype jsval =
    JUndef
  | JNull
  | JBool bool
  | JNum jsnum
  | JStr string
  | JDate jsnum
  | JRegExp string string
  | JBinary "8 word list"
  | JObjectId string
  | JArr "jsval list"
  | JObj "(string \<times> jsval) list"

type_synonym jsobj = "(string \<times> jsval) list"

datatype js_error =
    Error string
  | TypeError string
  | SyntaxError string
  | LocalQueryError string
  | LocalCollectionError string "string option"
  | PublicError string
  | SchemaValidationError string "string list"

type_synonym 'a js = "(js_error, 'a) result"

section \<open>Numbers\<close>

abbreviation jint :: "int \<Rightarrow> jsval" where
  "jint i \<equiv> JNum (Fin (of_int i))"

fun num_less :: "jsnum \<Rightarrow> jsnum \<Rightarrow> bool" where
  "num_less (Fin a) (Fin b) = (a < b)"
| "num_less NegInfinity (Fin b) = True"
| "num_less NegInfinity Infinity = True"
| "num_less (Fin a) Infinity = True"
| "num_less _ _ = False"

fun num_strict_eq :: "jsnum \<Rightarrow> jsnum \<Rightarrow> bool" where
  "num_strict_eq NaN _ = False"
| "num_strict_eq _ NaN = False"
| "num_strict_eq a b = (a = b)"

lemma num_strict_eq_iff: "num_strict_eq a b \<longleftrightarrow> a = b \<and> a \<noteq> NaN"
  by (cases a; cases b) auto

lemma num_less_trichotomy:
  "a \<noteq> NaN \<Longrightarrow> b \<noteq> NaN \<Longrightarrow> num_less a b \<or> a = b \<or> num_less b a"
  by (cases a; cases b) auto

lemma num_less_asym: "num_less a b \<Longrightarrow> \<not> num_less b a"
  by (cases a; cases b) auto

lemma num_less_trans: "num_less a b \<Longrightarrow> num_less b c \<Longrightarrow> num_less a c"
  by (cases a; cases b; cases c) auto

lemma num_less_irrefl [simp]: "\<not> num_less a a"
  by (cases a) auto

text \<open>\<open>Number.isInteger\<close> and \<open>Number.isSafeInteger\<close>.\<close>

fun is_integer :: "jsnum \<Rightarrow> bool" where
  "is_integer (Fin q) = (of_int \<lfloor>q\<rfloor> = q)"
| "is_integer _ = False"

definition max_safe_integer :: int where
  "max_safe_integer = 9007199254740991"

fun is_safe_integer :: "jsnum \<Rightarrow> bool" where
  "is_safe_integer (Fin q) = (of_int \<lfloor>q\<rfloor> = q \<and> \<bar>q\<bar> \<le> of_int max_safe_integer)"
| "is_safe_integer _ = False"

definition isInfOrNaN :: "jsval \<Rightarrow> bool" where
  "isInfOrNaN v = (v \<in> {JNum NaN, JNum Infinity, JNum NegInfinity})"

section \<open>Type tests\<close>

fun js_typeof :: "jsval \<Rightarrow> string" where
  "js_typeof JUndef = ''undefined''"
| "js_typeof (JBool _) = ''boolean''"
| "js_typeof (JNum _) = ''number''"
| "js_typeof (JStr _) = ''string''"
| "js_typeof _ = ''object''"

definition isObject :: "jsval \<Rightarrow> bool" where
  "isObject v = (js_typeof v = ''object'')"

definition isObjectRecord :: "jsval \<Rightarrow> bool" where
  "isObjectRecord v = (v \<noteq> JNull \<and> js_typeof v = ''object'')"

fun isArray :: "jsval \<Rightarrow> bool" where
  "isArray (JArr _) = True"
| "isArray _ = False"

text \<open>\<open>Object.getPrototypeOf\<close> is \<open>Object.prototype\<close> exactly for the object constructor.\<close>

fun isPlainObject :: "jsval \<Rightarrow> bool" where
  "isPlainObject (JObj _) = True"
| "isPlainObject _ = False"

fun truthy :: "jsval \<Rightarrow> bool" where
  "truthy JUndef = False"
| "truthy JNull = False"
| "truthy (JBool b) = b"
| "truthy (JNum n) = (n \<noteq> NaN \<and> n \<noteq> Fin 0)"
| "truthy (JStr s) = (s \<noteq> [])"
| "truthy _ = True"

section \<open>Property keys\<close>

definition is_digit :: "char \<Rightarrow> bool" where
  "is_digit c = (CHR ''0'' \<le> c \<and> c \<le> CHR ''9'')"

fun digits_val :: "nat \<Rightarrow> string \<Rightarrow> nat" where
  "digits_val n [] = n"
| "digits_val n (c # cs) = digits_val (10 * n + (of_char c - 48)) cs"

definition array_index :: "string \<Rightarrow> nat option" where
  "array_index s =
     (if s \<noteq> [] \<and> list_all is_digit s \<and> (s = ''0'' \<or> hd s \<noteq> CHR ''0'') \<and> digits_val 0 s < 4294967295
      then Some (digits_val 0 s) else None)"

fun nat_digits :: "nat \<Rightarrow> string" where
  "nat_digits n =
     (if n < 10 then [char_of (n + 48)] else nat_digits (n div 10) @ [char_of (n mod 10 + 48)])"

declare nat_digits.simps [simp del]

text \<open>Where a new key goes in the enumeration order.\<close>

fun obj_insert :: "string \<Rightarrow> jsval \<Rightarrow> jsobj \<Rightarrow> jsobj" where
  "obj_insert k v [] = [(k, v)]"
| "obj_insert k v ((k', v') # kvs) =
     (case array_index k of
        None \<Rightarrow> (k', v') # obj_insert k v kvs
      | Some i \<Rightarrow>
          (case array_index k' of
             Some j \<Rightarrow> if j < i then (k', v') # obj_insert k v kvs else (k, v) # (k', v') # kvs
           | None \<Rightarrow> (k, v) # (k', v') # kvs))"

definition obj_set :: "string \<Rightarrow> jsval \<Rightarrow> jsobj \<Rightarrow> jsobj" where
  "obj_set k v kvs = (if jm_has kvs k then jm_set k v kvs else obj_insert k v kvs)"

abbreviation obj_delete :: "string \<Rightarrow> jsobj \<Rightarrow> jsobj" where
  "obj_delete \<equiv> AList.delete"

definition obj_get :: "jsobj \<Rightarrow> string \<Rightarrow> jsval" where
  "obj_get kvs k = (case map_of kvs k of None \<Rightarrow> JUndef | Some v \<Rightarrow> v)"

lemma map_of_obj_insert:
  "k \<notin> fst ` set kvs \<Longrightarrow> map_of (obj_insert k v kvs) k' = (if k' = k then Some v else map_of kvs k')"
  by (induction kvs) (auto split: option.splits)

lemma map_of_obj_set [simp]: "map_of (obj_set k v kvs) k' = (if k' = k then Some v else map_of kvs k')"
  by (simp add: obj_set_def jm_has_iff map_of_obj_insert)

lemma obj_get_set [simp]: "obj_get (obj_set k v kvs) k' = (if k' = k then v else obj_get kvs k')"
  by (simp add: obj_get_def)

lemma obj_get_delete [simp]: "obj_get (obj_delete k kvs) k' = (if k' = k then JUndef else obj_get kvs k')"
  by (simp add: obj_get_def)

lemma keys_obj_insert [simp]: "fst ` set (obj_insert k v kvs) = insert k (fst ` set kvs)"
  by (induction k v kvs rule: obj_insert.induct) (simp_all add: insert_commute split: option.split)

lemma keys_obj_set [simp]: "fst ` set (obj_set k v kvs) = insert k (fst ` set kvs)"
  by (auto simp: obj_set_def jm_has_iff dom_update)

lemma distinct_obj_insert:
  "distinct (map fst kvs) \<Longrightarrow> k \<notin> fst ` set kvs \<Longrightarrow> distinct (map fst (obj_insert k v kvs))"
  by (induction kvs) (auto split: option.splits)

lemma jm_wf_obj_set [simp]: "jm_wf kvs \<Longrightarrow> jm_wf (obj_set k v kvs)"
  by (auto simp: obj_set_def jm_has_iff jm_wf_def distinct_obj_insert distinct_update)

section \<open>Well-formed values: distinct keys everywhere\<close>

fun js_wf :: "jsval \<Rightarrow> bool" where
  "js_wf (JArr xs) = list_all js_wf xs"
| "js_wf (JObj kvs) = (distinct (map fst kvs) \<and> list_all (\<lambda>(k, v). js_wf v) kvs)"
| "js_wf _ = True"

text \<open>Nesting depth, the measure of every recursion over values.\<close>

fun depth :: "jsval \<Rightarrow> nat" where
  "depth (JArr xs) = Suc (foldr (\<lambda>v n. max (depth v) n) xs 0)"
| "depth (JObj kvs) = Suc (foldr (\<lambda>(k, v) n. max (depth v) n) kvs 0)"
| "depth _ = 0"

lemma depth_elem: "v \<in> set xs \<Longrightarrow> depth v < depth (JArr xs)"
proof -
  have "v \<in> set xs \<Longrightarrow> depth v \<le> foldr (\<lambda>v n. max (depth v) n) xs 0"
    by (induction xs) auto
  then show "v \<in> set xs \<Longrightarrow> depth v < depth (JArr xs)" by simp
qed

lemma depth_prop: "(k, v) \<in> set kvs \<Longrightarrow> depth v < depth (JObj kvs)"
proof -
  have "(k, v) \<in> set kvs \<Longrightarrow> depth v \<le> foldr (\<lambda>(k, v) n. max (depth v) n) kvs 0"
    by (induction kvs) auto
  then show "(k, v) \<in> set kvs \<Longrightarrow> depth v < depth (JObj kvs)" by simp
qed

lemma foldr_max_le:
  "(\<And>x. x \<in> set xs \<Longrightarrow> f x \<le> b) \<Longrightarrow> foldr (\<lambda>v n. max (f v) n) xs 0 \<le> (b :: nat)"
  by (induction xs) auto

lemma foldr_max_le2:
  "(\<And>k v. (k, v) \<in> set xs \<Longrightarrow> f v \<le> b) \<Longrightarrow> foldr (\<lambda>(k, v) n. max (f v) n) xs 0 \<le> (b :: nat)"
  by (induction xs) fastforce+

lemma depth_get: "map_of kvs k = Some v \<Longrightarrow> depth v < depth (JObj kvs)"
  by (meson depth_prop map_of_SomeD)

section \<open>lodash replacements\<close>

definition isEmpty :: "jsval \<Rightarrow> bool" where
  "isEmpty v =
     (case v of
        JUndef \<Rightarrow> True
      | JNull \<Rightarrow> True
      | JStr s \<Rightarrow> s = []
      | JArr xs \<Rightarrow> xs = []
      | JObj kvs \<Rightarrow> kvs = []
      | JBinary bs \<Rightarrow> bs = []
      | JDate _ \<Rightarrow> True
      | JRegExp _ _ \<Rightarrow> True
      | _ \<Rightarrow> False)"

function merge1 :: "jsobj \<Rightarrow> jsobj \<Rightarrow> jsobj" where
  "merge1 target [] = target"
| "merge1 target ((key, val) # source) =
     (if val = JUndef then merge1 target source
      else (case (obj_get target key, val) of
              (JObj t, JObj s) \<Rightarrow> merge1 (obj_set key (JObj (merge1 t s)) target) source
            | _ \<Rightarrow> merge1 (obj_set key val target) source))"
  by pat_completeness auto
termination
  by (relation "measure (\<lambda>(t, s). size_list (size_prod (\<lambda>_. 0) size) s)") auto

definition merge :: "jsobj \<Rightarrow> jsobj list \<Rightarrow> jsobj" where
  "merge target sources = foldl merge1 target sources"

definition range_list :: "int \<Rightarrow> int option \<Rightarrow> int list" where
  "range_list start stop =
     (case stop of
        None \<Rightarrow> map int [0..<nat start]
      | Some e \<Rightarrow> map (\<lambda>i. start + int i) [0..<nat (e - start)])"

definition omit :: "jsobj \<Rightarrow> string list \<Rightarrow> jsobj" where
  "omit obj keys = filter (\<lambda>(k, _). k \<notin> set keys) obj"

definition pick :: "jsobj \<Rightarrow> string list \<Rightarrow> jsobj" where
  "pick obj keys = foldl (\<lambda>o' k. if jm_has obj k then obj_set k (obj_get obj k) o' else o') [] keys"

end
