(* ===== verification/Base64.thy ===== *)
theory Base64
  imports JsValue
begin

text \<open>
  The base64 codec of the EJSON binary form (\<open>ejson/base64.ts\<close>). Bytes are \<^typ>\<open>8 word\<close>, the
  24-bit chunks are kept in the 32-bit integers JavaScript's bitwise operators work on. The
  decoder is modelled with its own length arithmetic: it allocates a zero-filled buffer of the
  computed length and writes into it, writes past the end being ignored.
\<close>

unbundle bit_operations_syntax

definition BASE64_ALPHABET :: string where
  "BASE64_ALPHABET = ''ABCDEFGHIJKLMNOPQRSTUVWXYZabcdefghijklmnopqrstuvwxyz0123456789+/''"

definition INVALID_CHAR :: nat where
  "INVALID_CHAR = 255"

fun index_from :: "nat \<Rightarrow> char \<Rightarrow> string \<Rightarrow> nat" where
  "index_from n c [] = INVALID_CHAR"
| "index_from n c (x # xs) = (if x = c then n else index_from (Suc n) c xs)"

definition BASE64_LOOKUP :: "char \<Rightarrow> nat" where
  "BASE64_LOOKUP c =
     (if c = CHR ''-'' then 62 else if c = CHR ''_'' then 63 else index_from 0 c BASE64_ALPHABET)"

definition chunk_of :: "8 word \<Rightarrow> 8 word \<Rightarrow> 8 word \<Rightarrow> 32 word" where
  "chunk_of b0 b1 b2 = (push_bit 16 (ucast b0) OR push_bit 8 (ucast b1)) OR ucast b2"

definition alphabet_at :: "32 word \<Rightarrow> char" where
  "alphabet_at w = BASE64_ALPHABET ! unat (w AND 63)"

fun encodeBase64 :: "8 word list \<Rightarrow> string" where
  "encodeBase64 [] = []"
| "encodeBase64 (byte0 # rest) =
     (let byte1 = (case rest of [] \<Rightarrow> 0 | b # _ \<Rightarrow> b);
          byte2 = (case rest of _ # b # _ \<Rightarrow> b | _ \<Rightarrow> 0);
          chunk = chunk_of byte0 byte1 byte2;
          remaining = length (byte0 # rest)
      in [alphabet_at (drop_bit 18 chunk), alphabet_at (drop_bit 12 chunk),
          (if remaining > 1 then alphabet_at (drop_bit 6 chunk) else CHR ''=''),
          (if remaining > 2 then alphabet_at chunk else CHR ''='')]
         @ encodeBase64 (drop 2 rest))"

definition index_of :: "char \<Rightarrow> string \<Rightarrow> nat option" where
  "index_of c s = (let n = length (takeWhile (\<lambda>x. x \<noteq> c) s) in if n = length s then None else Some n)"

definition getBase64Lengths :: "string \<Rightarrow> (nat \<times> nat) js" where
  "getBase64Lengths value =
     (if length value mod 4 \<noteq> 0 then Inl (Error ''Invalid base64 string length'')
      else let normalizedValidLength = (case index_of (CHR ''='') value of None \<Rightarrow> length value | Some n \<Rightarrow> n);
               placeholderLength = (if normalizedValidLength = length value then 0
                                    else 4 - normalizedValidLength mod 4)
           in Inr (normalizedValidLength, placeholderLength))"

definition readBase64Char :: "string \<Rightarrow> nat \<Rightarrow> 32 word js" where
  "readBase64Char value index =
     (let decoded = (if index < length value then BASE64_LOOKUP (value ! index) else INVALID_CHAR)
      in if decoded = INVALID_CHAR then Inl (Error ''Invalid base64 character'')
         else Inr (of_nat decoded))"

definition group3 :: "32 word \<Rightarrow> 8 word list" where
  "group3 chunk = [ucast (drop_bit 16 chunk AND 255), ucast (drop_bit 8 chunk AND 255), ucast (chunk AND 255)]"

text \<open>The group loop: returns the index after the last group and the bytes written so far.\<close>

function decode_loop :: "string \<Rightarrow> nat \<Rightarrow> int \<Rightarrow> 8 word list \<Rightarrow> (nat \<times> 8 word list) js" where
  "decode_loop value index stop written =
     (if int index < stop then
        rbind (readBase64Char value index) (\<lambda>c0.
        rbind (readBase64Char value (index + 1)) (\<lambda>c1.
        rbind (readBase64Char value (index + 2)) (\<lambda>c2.
        rbind (readBase64Char value (index + 3)) (\<lambda>c3.
          decode_loop value (index + 4) stop
            (written @ group3 (((push_bit 18 c0 OR push_bit 12 c1) OR push_bit 6 c2) OR c3))))))
      else Inr (index, written))"
  by pat_completeness auto
termination
  by (relation "measure (\<lambda>(value, index, stop, written). nat (stop - int index))") auto

declare decode_loop.simps [simp del]

definition decode_tail :: "string \<Rightarrow> nat \<Rightarrow> nat \<Rightarrow> 8 word list \<Rightarrow> (8 word list) js" where
  "decode_tail value placeholderLength index written =
     rbind (if placeholderLength = 2 then
              rbind (readBase64Char value index) (\<lambda>c0.
              rbind (readBase64Char value (index + 1)) (\<lambda>c1.
                Inr (written @ [ucast ((push_bit 2 c0 OR drop_bit 4 c1) AND 255)])))
            else Inr written) (\<lambda>written'.
       if placeholderLength = 1 then
         rbind (readBase64Char value index) (\<lambda>c0.
         rbind (readBase64Char value (index + 1)) (\<lambda>c1.
         rbind (readBase64Char value (index + 2)) (\<lambda>c2.
           let chunk = (push_bit 10 c0 OR push_bit 4 c1) OR drop_bit 2 c2
           in Inr (written' @ [ucast (drop_bit 8 chunk AND 255), ucast (chunk AND 255)]))))
       else Inr written')"

definition decodeBase64 :: "string \<Rightarrow> (8 word list) js" where
  "decodeBase64 value =
     rbind (getBase64Lengths value) (\<lambda>(validLength, placeholderLength).
       let outputLength = int ((validLength + placeholderLength) * 3 div 4) - int placeholderLength;
           stop = (if placeholderLength > 0 then int validLength - 4 else int validLength)
       in if outputLength < 0 then Inl (Error ''RangeError: Invalid array buffer length'')
          else rbind (decode_loop value 0 stop []) (\<lambda>(index, written).
               rbind (decode_tail value placeholderLength index written) (\<lambda>written'.
                 Inr (take (nat outputLength) (written' @ replicate (nat outputLength) 0)))))"

section \<open>The alphabet\<close>

lemma BASE64_LOOKUP_alphabet_all:
  "list_all (\<lambda>i. BASE64_LOOKUP (BASE64_ALPHABET ! i) = i) [0..<64]"
  by code_simp

lemma BASE64_LOOKUP_alphabet: "i < 64 \<Longrightarrow> BASE64_LOOKUP (BASE64_ALPHABET ! i) = i"
  using BASE64_LOOKUP_alphabet_all by (simp add: list_all_iff)

lemma length_alphabet: "length BASE64_ALPHABET = 64"
  by (simp add: BASE64_ALPHABET_def)

lemma pad_not_in_alphabet: "CHR ''='' \<notin> set BASE64_ALPHABET"
  by (simp add: BASE64_ALPHABET_def)

lemma unat_and_63: "unat (w AND 63 :: 32 word) < 64"
proof -
  have "unat (w AND 63 :: 32 word) \<le> unat (63 :: 32 word)"
    by (rule word_and_le1 [THEN word_le_nat_alt [THEN iffD1]])
  then show ?thesis by simp
qed

lemma alphabet_at_not_pad [simp]: "alphabet_at w \<noteq> CHR ''=''"
  using pad_not_in_alphabet unat_and_63 [of w] length_alphabet
  by (metis alphabet_at_def nth_mem)

lemma readBase64Char_alphabet:
  assumes "index < length value" and "value ! index = alphabet_at w"
  shows "readBase64Char value index = Inr (w AND 63)"
  using assms unat_and_63 [of w]
  by (simp add: readBase64Char_def alphabet_at_def BASE64_LOOKUP_alphabet INVALID_CHAR_def)

section \<open>Bit-level inversion of one group\<close>

lemma six_bits: "bit (w AND 63 :: 32 word) n \<longleftrightarrow> n < 6 \<and> bit w n"
  by (auto simp: bit_and_iff bit_simps mask_eq_decr_exp [of 6, simplified, symmetric])

lemma eight_bits: "bit (w AND 255 :: 32 word) n \<longleftrightarrow> n < 8 \<and> bit w n"
  by (auto simp: bit_and_iff bit_simps mask_eq_decr_exp [of 8, simplified, symmetric])

definition sextet :: "nat \<Rightarrow> 32 word \<Rightarrow> 32 word" where
  "sextet k w = drop_bit k w AND 63"

lemma bit_sextet: "bit (sextet k w) n \<longleftrightarrow> n < 6 \<and> bit w (k + n)"
  by (simp add: sextet_def six_bits bit_drop_bit_eq)

lemma chunk_bit:
  "bit (chunk_of b0 b1 b2) n \<longleftrightarrow>
     (16 \<le> n \<and> n < 24 \<and> bit b0 (n - 16)) \<or> (8 \<le> n \<and> n < 16 \<and> bit b1 (n - 8)) \<or> (n < 8 \<and> bit b2 n)"
proof -
  have "bit b m \<Longrightarrow> m < 8" for b :: "8 word" and m using bit_imp_le_length by fastforce
  then show ?thesis
    by (auto simp: chunk_of_def bit_or_iff bit_push_bit_iff bit_ucast_iff) (fastforce dest: bit_imp_le_length)+
qed

lemma byte_at: "(\<And>n. n < 8 \<Longrightarrow> bit w (k + n) \<longleftrightarrow> bit b n) \<Longrightarrow> ucast (drop_bit k w AND 255 :: 32 word) = (b :: 8 word)"
  by (rule bit_word_eqI) (auto simp: bit_ucast_iff eight_bits bit_drop_bit_eq)

lemma byte_at_0: "(\<And>n. n < 8 \<Longrightarrow> bit w n \<longleftrightarrow> bit b n) \<Longrightarrow> ucast (w AND 255 :: 32 word) = (b :: 8 word)"
  using byte_at [of w 0 b] by simp

lemma bit_push_sextet:
  "j \<le> k \<Longrightarrow> j + 6 \<le> 32 \<Longrightarrow>
     bit (push_bit j (sextet k w)) n \<longleftrightarrow> j \<le> n \<and> n < j + 6 \<and> bit w (n + (k - j))"
  by (auto simp: bit_push_bit_iff bit_sextet algebra_simps)

lemma bit_drop_sextet: "bit (drop_bit j (sextet k w)) n \<longleftrightarrow> n + j < 6 \<and> bit w (n + j + k)"
  by (auto simp: bit_drop_bit_eq bit_sextet algebra_simps)

lemma joined_bit:
  "bit (((push_bit 18 (sextet 18 w) OR push_bit 12 (sextet 12 w)) OR push_bit 6 (sextet 6 w)) OR sextet 0 w :: 32 word) n
     \<longleftrightarrow> n < 24 \<and> bit w n"
  by (auto simp: bit_or_iff bit_push_sextet bit_sextet)

lemma tail1_bit:
  "bit (push_bit 2 (sextet 18 w) OR drop_bit 4 (sextet 12 w) :: 32 word) n \<longleftrightarrow> n < 8 \<and> bit w (n + 16)"
  by (auto simp: bit_or_iff bit_push_sextet bit_drop_sextet add.commute [of n])

lemma tail2_bit:
  "bit ((push_bit 10 (sextet 18 w) OR push_bit 4 (sextet 12 w)) OR drop_bit 2 (sextet 6 w) :: 32 word) n
     \<longleftrightarrow> n < 16 \<and> bit w (n + 8)"
  by (auto simp: bit_or_iff bit_push_sextet bit_drop_sextet add.commute [of n])

lemma group3_chunk:
  "group3 (((push_bit 18 (sextet 18 (chunk_of b0 b1 b2)) OR push_bit 12 (sextet 12 (chunk_of b0 b1 b2)))
      OR push_bit 6 (sextet 6 (chunk_of b0 b1 b2))) OR sextet 0 (chunk_of b0 b1 b2)) = [b0, b1, b2]"
  unfolding group3_def
  by (subst byte_at [where b = b0], simp add: joined_bit chunk_bit,
      subst byte_at [where b = b1], simp add: joined_bit chunk_bit,
      subst byte_at_0 [where b = b2], simp add: joined_bit chunk_bit, simp)

lemma tail1_chunk:
  "ucast ((push_bit 2 (sextet 18 (chunk_of b0 0 0)) OR drop_bit 4 (sextet 12 (chunk_of b0 0 0))) AND 255) = b0"
  by (rule byte_at_0) (simp add: tail1_bit chunk_bit)

lemma tail2_chunk:
  fixes b0 b1 :: "8 word"
  defines "w \<equiv> (push_bit 10 (sextet 18 (chunk_of b0 b1 0)) OR push_bit 4 (sextet 12 (chunk_of b0 b1 0)))
     OR drop_bit 2 (sextet 6 (chunk_of b0 b1 0))"
  shows "ucast (drop_bit 8 w AND 255) = b0" "ucast (w AND 255) = b1"
  unfolding w_def
  by (rule byte_at, simp add: tail2_bit chunk_bit, rule byte_at_0, simp add: tail2_bit chunk_bit)

lemma encode_one:
  "encodeBase64 [b0] = [alphabet_at (drop_bit 18 (chunk_of b0 0 0)), alphabet_at (drop_bit 12 (chunk_of b0 0 0)), CHR ''='', CHR ''='']"
  by (simp add: Let_def)

lemma encode_two:
  "encodeBase64 [b0, b1] = [alphabet_at (drop_bit 18 (chunk_of b0 b1 0)), alphabet_at (drop_bit 12 (chunk_of b0 b1 0)),
     alphabet_at (drop_bit 6 (chunk_of b0 b1 0)), CHR ''='']"
  by (simp add: Let_def)

lemma encode_three:
  "encodeBase64 (b0 # b1 # b2 # bs) = [alphabet_at (drop_bit 18 (chunk_of b0 b1 b2)), alphabet_at (drop_bit 12 (chunk_of b0 b1 b2)),
     alphabet_at (drop_bit 6 (chunk_of b0 b1 b2)), alphabet_at (chunk_of b0 b1 b2)] @ encodeBase64 bs"
  by (simp add: Let_def numeral_2_eq_2)

lemma bytes_induct [case_names Nil one two three]:
  assumes "P []" "\<And>a. P [a]" "\<And>a b. P [a, b]" "\<And>a b c bs. P bs \<Longrightarrow> P (a # b # c # bs)"
  shows "P (bs :: 8 word list)"
proof (induction bs rule: length_induct)
  case (1 bs)
  consider "bs = []" | a where "bs = [a]" | a b where "bs = [a, b]" | a b c cs where "bs = a # b # c # cs"
    by (metis list.exhaust)
  then show ?case using 1 assms by cases auto
qed

declare encodeBase64.simps(2) [simp del]
lemmas encode_simps = encodeBase64.simps(1) encode_one encode_two encode_three

lemma div3_step: "(5 + n) div 3 = Suc ((2 + n) div (3 :: nat))"
  by presburger

lemma length_encode: "length (encodeBase64 bs) = 4 * ((2 + length bs) div 3)"
  by (induction bs rule: bytes_induct) (simp_all add: encode_simps div3_step [simplified])

lemma take_drop_groups:
  "take (3 + n) (a # b # c # xs) = a # b # c # take n xs"
  "drop (3 + n) (a # b # c # xs) = drop n xs"
  "drop (4 + n) (a # b # c # d # xs) = drop n xs"
  by (simp_all add: eval_nat_numeral)

lemma mod4_pad: "a + p = 4 * X \<Longrightarrow> p = 0 \<or> p = 1 \<or> p = 2 \<Longrightarrow> a mod 4 = (4 - p) mod (4 :: nat)"
proof (cases X)
  case (Suc Y)
  assume "a + p = 4 * X" "p = 0 \<or> p = 1 \<or> p = 2"
  then have "a = (4 - p) + 4 * Y" using Suc by auto
  then show ?thesis by simp
qed simp

text \<open>The text is a pad-free body followed by the padding the length asks for.\<close>

definition pad_count :: "8 word list \<Rightarrow> nat" where
  "pad_count bs = (if length bs mod 3 = 0 then 0 else 3 - length bs mod 3)"

lemma encode_split:
  "\<exists>body. encodeBase64 bs = body @ replicate (pad_count bs) (CHR ''='') \<and> CHR ''='' \<notin> set body"
proof (induction bs rule: bytes_induct)
  case (three a b c bs)
  then obtain body where "encodeBase64 bs = body @ replicate (pad_count bs) (CHR ''='')" "CHR ''='' \<notin> set body"
    by blast
  moreover have "pad_count (a # b # c # bs) = pad_count bs"
    by (simp add: pad_count_def)
  ultimately show ?case
    by (intro exI [of _ "take 4 (encodeBase64 (a # b # c # bs)) @ body"])
      (simp add: encode_three alphabet_at_not_pad [THEN not_sym])
qed (auto simp: encode_simps pad_count_def numeral_2_eq_2 alphabet_at_not_pad [THEN not_sym]
    intro: exI [of _ "[x, y]" for x y] exI [of _ "[x, y, z]" for x y z])

lemma pad_count_range: "pad_count bs \<in> {0, 1, 2}"
  unfolding pad_count_def by auto

lemma takeWhile_pad: "c \<notin> set body \<Longrightarrow> takeWhile (\<lambda>x. x \<noteq> c) (body @ replicate n c) = body"
  by (induction body) (cases n; auto)+

lemma getBase64Lengths_encode:
  "getBase64Lengths (encodeBase64 bs) = Inr (length (encodeBase64 bs) - pad_count bs, pad_count bs)"
proof -
  obtain body where body: "encodeBase64 bs = body @ replicate (pad_count bs) (CHR ''='')" "CHR ''='' \<notin> set body"
    using encode_split by blast
  have len: "length body + pad_count bs = 4 * ((2 + length bs) div 3)"
    using length_encode [of bs] body by simp
  have idx: "index_of (CHR ''='') (encodeBase64 bs) = (if pad_count bs = 0 then None else Some (length body))"
    using body by (simp add: index_of_def takeWhile_pad)
  have "length body mod 4 = (4 - pad_count bs) mod 4"
    using mod4_pad [OF len] pad_count_range [of bs] by simp
  then show ?thesis
    using body(1) len idx pad_count_range [of bs]
    by (auto simp: getBase64Lengths_def Let_def)
qed

lemma drop_four:
  assumes "drop i xs = a # b # c # d # r"
  shows "i + 3 < length xs" "xs ! i = a" "xs ! (i + 1) = b" "xs ! (i + 2) = c" "xs ! (i + 3) = d" "drop (i + 4) xs = r"
proof -
  have "xs = take i xs @ a # b # c # d # r" "i < length xs"
    using assms by (metis append_take_drop_id) (metis assms drop_all list.distinct(1) not_less)
  then obtain ys where "xs = ys @ a # b # c # d # r" "length ys = i" by (metis length_take min.absorb4)
  then show "i + 3 < length xs" "xs ! i = a" "xs ! (i + 1) = b" "xs ! (i + 2) = c" "xs ! (i + 3) = d" "drop (i + 4) xs = r"
    by (auto simp: nth_append)
qed

lemma read_sextets:
  assumes "index < length value"
  shows "value ! index = alphabet_at (drop_bit k w) \<Longrightarrow> readBase64Char value index = Inr (sextet k w)"
    and "value ! index = alphabet_at w \<Longrightarrow> readBase64Char value index = Inr (sextet 0 w)"
  using assms readBase64Char_alphabet by (auto simp: sextet_def)

lemma decode_loop_encode:
  assumes "drop i value = encodeBase64 bs" and "0 \<le> d" "d < 4"
  shows "decode_loop value i (int i + 4 * int (length bs div 3) - d) acc =
    Inr (i + 4 * (length bs div 3), acc @ take (3 * (length bs div 3)) bs)"
  using assms(1)
proof (induction bs arbitrary: i acc rule: bytes_induct)
  case (three a b c bs)
  note dr = drop_four [OF three.prems [unfolded encode_three append.simps]]
  let ?k = "length bs div 3"
  have step: "int i < int i + 4 * int (Suc ?k) - d" using assms(3) by simp
  have IH: "decode_loop value (i + 4) (int (i + 4) + 4 * int ?k - d) (acc @ [a, b, c]) =
      Inr (i + 4 + 4 * ?k, (acc @ [a, b, c]) @ take (3 * ?k) bs)"
    by (rule three.IH [OF dr(6)])
  have stop: "int i + 4 * int (Suc ?k) - d = int (i + 4) + 4 * int ?k - d" by simp
  have "decode_loop value i (int i + 4 * int (Suc ?k) - d) acc =
      decode_loop value (i + 4) (int i + 4 * int (Suc ?k) - d) (acc @ [a, b, c])"
    using dr step by (subst decode_loop.simps) (simp add: read_sextets group3_chunk)
  also have "\<dots> = Inr (i + 4 + 4 * ?k, (acc @ [a, b, c]) @ take (3 * ?k) bs)"
    unfolding stop by (rule IH)
  finally show ?case by (simp add: take_drop_groups)
qed (use assms(2) in \<open>simp_all add: decode_loop.simps\<close>)

lemma drop_full_groups:
  "drop (4 * (length bs div 3)) (encodeBase64 bs) = encodeBase64 (drop (3 * (length bs div 3)) bs)"
  by (induction bs rule: bytes_induct) (simp_all add: encode_three take_drop_groups)

lemma decode_tail_encode:
  assumes "drop i value = encodeBase64 rest" and "length rest < 3"
  shows "decode_tail value (pad_count rest) i acc = Inr (acc @ rest)"
proof -
  consider "rest = []" | a where "rest = [a]" | a b where "rest = [a, b]"
    using assms(2) by (cases rest; cases "tl rest"; cases "tl (tl rest)") auto
  then show ?thesis
  proof cases
    case 1
    then show ?thesis by (simp add: decode_tail_def pad_count_def)
  next
    case 2
    note dr = drop_four [OF assms(1) [unfolded 2 encode_one]]
    have "pad_count rest = 2" using 2 by (simp add: pad_count_def)
    then show ?thesis using dr 2 by (simp add: decode_tail_def read_sextets tail1_chunk)
  next
    case 3
    note dr = drop_four [OF assms(1) [unfolded 3 encode_two]]
    have "pad_count rest = 1" using 3 by (simp add: pad_count_def)
    then show ?thesis using dr 3
      by (simp add: decode_tail_def read_sextets Let_def tail2_chunk del: drop_bit_or)
  qed
qed

lemma decode_encode: "decodeBase64 (encodeBase64 bs) = Inr bs"
proof -
  let ?v = "encodeBase64 bs" and ?k = "length bs div 3" and ?p = "pad_count bs"
  let ?rest = "drop (3 * ?k) bs"
  have pad: "pad_count ?rest = ?p" "length ?rest < 3"
    by (simp_all add: pad_count_def minus_mult_div_eq_mod)
  have len: "length ?v = 4 * ((2 + length bs) div 3)" by (rule length_encode)
  have k: "(2 + length bs) div 3 = ?k + (if ?p = 0 then 0 else 1)" "length bs + ?p = 3 * ((2 + length bs) div 3)"
    unfolding pad_count_def by presburger+
  have le: "?p \<le> length ?v" using len k pad_count_range [of bs] by auto
  have out: "int ((length ?v - ?p + ?p) * 3 div 4) - int ?p = int (length bs)"
    using len k le by simp
  let ?stop = "if ?p > 0 then int (length ?v - ?p) - 4 else int (length ?v - ?p)"
  obtain d where d: "?stop = int 0 + 4 * int ?k - d" "0 \<le> d" "d < 4"
  proof (cases "?p = 0")
    case True
    then show ?thesis using len k that [of 0] by simp
  next
    case False
    then show ?thesis using len k le pad_count_range [of bs] that [of "int ?p"] by auto
  qed
  have loop: "decode_loop ?v 0 ?stop [] = Inr (4 * ?k, take (3 * ?k) bs)"
    unfolding d(1) using decode_loop_encode [of 0 ?v bs d "[]"] d(2,3) by simp
  have tail: "decode_tail ?v ?p (4 * ?k) (take (3 * ?k) bs) = Inr bs"
    using decode_tail_encode [OF drop_full_groups pad(2)] pad(1) by simp
  show ?thesis
    unfolding decodeBase64_def getBase64Lengths_encode rbind_simps prod.case Let_def out loop tail
    by (simp add: loop [simplified] tail)
qed

text \<open>
  C17: Every byte sequence survives the base64 codec: decoding the encoder's text succeeds and
  gives back the same bytes, whatever their length modulo three.
\<close>

theorem base64_roundtrip: "decodeBase64 (encodeBase64 bs) = Inr bs"
  by (rule decode_encode)

text \<open>
  The length arithmetic trusts the position of the first pad character. With four pad characters
  after a complete group the group is not decoded and the buffer stays zero-filled.
\<close>

lemma decode_four_pads: "decodeBase64 ''QUJD===='' = Inr [0, 0]"
  by code_simp

lemma decode_three_pads: "decodeBase64 ''A==='' = Inr []"
  by code_simp

end
