(* ===== verification/Ejson.thy ===== *)
theory Ejson
  imports Base64
begin

text \<open>
  The EJSON layer (\<open>src/ejson/\<close>): the built-in converters, \<open>toJSONValue\<close>/\<open>fromJSONValue\<close> with
  their in-place adjustment passes, \<open>clone\<close>, \<open>equals\<close>, canonical key sorting, and
  \<open>stringify\<close>/\<open>parse\<close>.

  JSON text is represented by the JSON value it denotes: \<open>json_norm\<close> is the value
  \<open>JSON.parse(JSON.stringify(v))\<close> denotes. The few host functions whose text conventions do not
  matter here (number parsing and printing, date printing, regular-expression syntax) are the
  fields of the record \<open>host\<close>. The registered custom types are the parameter \<open>customTypes\<close>.
  In-place adjustment is modelled by the adjusted value. Values are trees: an object that occurs
  twice is treated by the theory of \<open>clone\<close> on shared references. The key \<open>__proto__\<close> is not used.
\<close>

record host =
  str_to_num :: "string \<Rightarrow> jsnum"
  num_to_str :: "jsnum \<Rightarrow> string"
  date_to_str :: "jsnum \<Rightarrow> string"
  date_to_iso :: "jsnum \<Rightarrow> string"
  regexp_valid :: "string \<Rightarrow> string \<Rightarrow> bool"
  regexp_source :: "string \<Rightarrow> string"

type_synonym custom_types = "string \<Rightarrow> (jsval \<Rightarrow> jsval js) option"

section \<open>Language conversions\<close>

fun join_with :: "string \<Rightarrow> string list \<Rightarrow> string" where
  "join_with sep [] = []"
| "join_with sep [x] = x"
| "join_with sep (x # xs) = x @ sep @ join_with sep xs"

text \<open>\<open>String(v)\<close>; inside an array \<open>null\<close> and \<open>undefined\<close> print as nothing.\<close>

fun js_string :: "host \<Rightarrow> jsval \<Rightarrow> string" where
  "js_string h JUndef = ''undefined''"
| "js_string h JNull = ''null''"
| "js_string h (JBool b) = (if b then ''true'' else ''false'')"
| "js_string h (JNum n) = num_to_str h n"
| "js_string h (JStr s) = s"
| "js_string h (JDate t) = date_to_str h t"
| "js_string h (JRegExp s f) = ''/'' @ s @ ''/'' @ f"
| "js_string h (JBinary bs) = join_with '','' (map (\<lambda>b. nat_digits (unat b)) bs)"
| "js_string h (JObjectId hex) = hex"
| "js_string h (JArr xs) =
     join_with '','' (map (\<lambda>x. if x = JUndef \<or> x = JNull then [] else js_string h x) xs)"
| "js_string h (JObj kvs) = ''[object Object]''"

definition to_number :: "host \<Rightarrow> jsval \<Rightarrow> jsnum" where
  "to_number h v =
     (case v of
        JUndef \<Rightarrow> NaN
      | JNull \<Rightarrow> Fin 0
      | JBool b \<Rightarrow> (if b then Fin 1 else Fin 0)
      | JNum n \<Rightarrow> n
      | JDate t \<Rightarrow> t
      | _ \<Rightarrow> str_to_num h (js_string h v))"

definition trunc_int :: "rat \<Rightarrow> int" where
  "trunc_int q = (if 0 \<le> q then \<lfloor>q\<rfloor> else \<lceil>q\<rceil>)"

fun time_clip :: "jsnum \<Rightarrow> jsnum" where
  "time_clip (Fin q) = (if \<bar>q\<bar> \<le> 8640000000000000 then Fin (of_int (trunc_int q)) else NaN)"
| "time_clip _ = NaN"

text \<open>Division by zero, as the \<open>$InfNaN\<close> decoder uses it.\<close>

fun div_zero :: "jsnum \<Rightarrow> jsnum" where
  "div_zero (Fin q) = (if q > 0 then Infinity else if q < 0 then NegInfinity else NaN)"
| "div_zero NaN = NaN"
| "div_zero Infinity = Infinity"
| "div_zero NegInfinity = NegInfinity"

text \<open>\<open>Object.entries\<close> of any object.\<close>

fun own_entries :: "jsval \<Rightarrow> jsobj" where
  "own_entries (JObj kvs) = kvs"
| "own_entries (JArr xs) = map (\<lambda>(i, x). (nat_digits i, x)) (zip [0..<length xs] xs)"
| "own_entries (JBinary bs) =
     map (\<lambda>(i, b). (nat_digits i, jint (uint b))) (zip [0..<length bs] bs)"
| "own_entries _ = []"

definition keysOf :: "jsval \<Rightarrow> string list" where
  "keysOf v = map fst (own_entries v)"

definition lengthOf :: "jsval \<Rightarrow> nat" where
  "lengthOf v = length (keysOf v)"

text \<open>\<open>hasOwnProperty\<close>; an array also owns its \<open>length\<close>, a regular expression its \<open>lastIndex\<close>.\<close>

fun hasOwn :: "jsval \<Rightarrow> string \<Rightarrow> bool" where
  "hasOwn (JArr xs) k = (k = ''length'' \<or> k \<in> set (keysOf (JArr xs)))"
| "hasOwn (JRegExp _ _) k = (k = ''lastIndex'')"
| "hasOwn v k = (k \<in> set (keysOf v))"

fun get_prop :: "jsval \<Rightarrow> string \<Rightarrow> jsval" where
  "get_prop (JObj kvs) k = obj_get kvs k"
| "get_prop v k = (case map_of (own_entries v) k of None \<Rightarrow> JUndef | Some w \<Rightarrow> w)"

section \<open>Clone\<close>

definition isArguments :: "jsobj \<Rightarrow> bool" where
  "isArguments kvs = jm_has kvs ''callee''"

definition to_length :: "host \<Rightarrow> jsval \<Rightarrow> nat" where
  "to_length h v =
     (case to_number h v of
        Fin q \<Rightarrow> nat (min (trunc_int q) max_safe_integer)
      | Infinity \<Rightarrow> nat max_safe_integer
      | _ \<Rightarrow> 0)"

definition array_from :: "host \<Rightarrow> jsobj \<Rightarrow> jsval list" where
  "array_from h kvs = map (\<lambda>i. obj_get kvs (nat_digits i)) [0..<to_length h (obj_get kvs ''length'')]"

definition bson_object_id :: "jsobj \<Rightarrow> bool" where
  "bson_object_id kvs \<longleftrightarrow>
     map_of kvs ''_bsontype'' = Some (JStr ''ObjectId'') \<and> \<not> jm_has kvs ''toString''"

definition model_document :: "jsobj \<Rightarrow> bool" where
  "model_document kvs \<longleftrightarrow>
     (get_prop (obj_get kvs ''constructor'') ''name'' = JStr ''model'' \<or> isObjectRecord (obj_get kvs ''$__''))
     \<and> isObjectRecord (obj_get kvs ''_doc'')"

lemma depth_obj_get: "obj_get kvs k \<noteq> JUndef \<Longrightarrow> depth (obj_get kvs k) < depth (JObj kvs)"
  unfolding obj_get_def by (auto split: option.splits intro: depth_get simp del: depth.simps)

lemma depth_obj_get_le: "depth (obj_get kvs k) < depth (JObj kvs)"
  using depth_obj_get [of kvs k] by (cases "obj_get kvs k = JUndef") auto

function (sequential) ejson_clone :: "host \<Rightarrow> jsval \<Rightarrow> jsval" where
  "ejson_clone h (JObjectId hex) = JStr hex"
| "ejson_clone h (JArr xs) = JArr (filter (\<lambda>x. x \<noteq> JUndef) (map (ejson_clone h) xs))"
| "ejson_clone h (JObj kvs) =
     (if bson_object_id kvs then JStr ''[object Object]''
      else if model_document kvs then ejson_clone h (obj_get kvs ''_doc'')
      else if isArguments kvs
        then JArr (filter (\<lambda>x. x \<noteq> JUndef) (map (ejson_clone h) (array_from h kvs)))
      else JObj (map (\<lambda>(k, v). (k, ejson_clone h v)) kvs))"
| "ejson_clone h v = v"
  by pat_completeness auto
termination
  by (relation "measure (\<lambda>(h, v). depth v)")
    (auto simp: array_from_def simp del: depth.simps intro: depth_elem depth_prop depth_obj_get_le)

lemma depth_clone_le: "depth (ejson_clone h v) \<le> depth v"
proof (induction h v rule: ejson_clone.induct)
  case (2 h xs)
  have "foldr (\<lambda>v n. max (depth v) n) (filter (\<lambda>x. x \<noteq> JUndef) (map (ejson_clone h) xs)) 0
      \<le> foldr (\<lambda>v n. max (depth v) n) xs 0"
  proof (rule foldr_max_le)
    fix x assume "x \<in> set (filter (\<lambda>x. x \<noteq> JUndef) (map (ejson_clone h) xs))"
    then obtain y where "y \<in> set xs" "x = ejson_clone h y" by auto
    then show "depth x \<le> foldr (\<lambda>v n. max (depth v) n) xs 0"
      using 2 [of y] depth_elem [of y xs] by simp
  qed
  then show ?case by simp
next
  case (3 h kvs)
  consider "bson_object_id kvs" | "\<not> bson_object_id kvs" "model_document kvs"
    | "\<not> bson_object_id kvs" "\<not> model_document kvs" "isArguments kvs"
    | "\<not> bson_object_id kvs" "\<not> model_document kvs" "\<not> isArguments kvs" by blast
  then show ?case
  proof cases
    case 2
    then show ?thesis using 3(1) depth_obj_get_le [of kvs "''_doc''"] by (simp del: depth.simps)
  next
    case 3
    have "depth x < depth (JObj kvs)" if "x \<in> set (array_from h kvs)" for x
      using that depth_obj_get_le by (auto simp: array_from_def simp del: depth.simps)
    then have "foldr (\<lambda>v n. max (depth v) n)
        (filter (\<lambda>x. x \<noteq> JUndef) (map (ejson_clone h) (array_from h kvs))) 0
        \<le> foldr (\<lambda>(k, v) n. max (depth v) n) kvs 0"
      using "3.IH"(2) 3 by (intro foldr_max_le) (fastforce simp: less_Suc_eq_le intro: order_trans)
    then show ?thesis using 3 by simp
  next
    case 4
    have "foldr (\<lambda>(k, v) n. max (depth v) n) (map (\<lambda>(k, v). (k, ejson_clone h v)) kvs) 0
        \<le> foldr (\<lambda>(k, v) n. max (depth v) n) kvs 0"
    proof (rule foldr_max_le2)
      fix k x assume "(k, x) \<in> set (map (\<lambda>(k, v). (k, ejson_clone h v)) kvs)"
      then obtain y where "(k, y) \<in> set kvs" "x = ejson_clone h y" by auto
      then show "depth x \<le> foldr (\<lambda>(k, v) n. max (depth v) n) kvs 0"
        using "3.IH"(3) 4 depth_prop [of k y kvs] by fastforce
    qed
    then show ?thesis using 4 by simp
  qed simp
qed simp_all

section \<open>Converters\<close>

datatype converter =
  dateConverter | regexpConverter | infNaNConverter | binaryConverter | escapeConverter | customConverter

definition builtinConverters :: "converter list" where
  "builtinConverters =
     [dateConverter, regexpConverter, infNaNConverter, binaryConverter, escapeConverter, customConverter]"

definition requireRecord :: "jsval \<Rightarrow> jsval js" where
  "requireRecord v =
     (if isObjectRecord v then Inr v else Inl (TypeError ''Invalid EJSON converter input''))"

definition requireString :: "jsval \<Rightarrow> string js" where
  "requireString v = (case v of JStr s \<Rightarrow> Inr s | _ \<Rightarrow> Inl (TypeError ''Invalid EJSON string value''))"

fun matchJSONValue :: "converter \<Rightarrow> jsval \<Rightarrow> bool" where
  "matchJSONValue dateConverter v = (isObjectRecord v \<and> hasOwn v ''$date'' \<and> lengthOf v = 1)"
| "matchJSONValue regexpConverter v =
     (isObjectRecord v \<and> hasOwn v ''$regexp'' \<and> hasOwn v ''$flags'' \<and> lengthOf v = 2)"
| "matchJSONValue infNaNConverter v = (isObjectRecord v \<and> hasOwn v ''$InfNaN'' \<and> lengthOf v = 1)"
| "matchJSONValue binaryConverter v = (isObjectRecord v \<and> hasOwn v ''$binary'' \<and> lengthOf v = 1)"
| "matchJSONValue escapeConverter v = (isObjectRecord v \<and> hasOwn v ''$escape'' \<and> lengthOf v = 1)"
| "matchJSONValue customConverter v =
     (isObjectRecord v \<and> hasOwn v ''$type'' \<and> hasOwn v ''$value'' \<and> lengthOf v = 2)"

text \<open>No value of the model is an instance of a registered class, so the custom converter matches none.\<close>

fun matchObject :: "converter \<Rightarrow> jsval \<Rightarrow> bool" where
  "matchObject dateConverter v = (case v of JDate _ \<Rightarrow> True | _ \<Rightarrow> False)"
| "matchObject regexpConverter v = (case v of JRegExp _ _ \<Rightarrow> True | _ \<Rightarrow> False)"
| "matchObject infNaNConverter v = isInfOrNaN v"
| "matchObject binaryConverter v = (case v of JBinary _ \<Rightarrow> True | _ \<Rightarrow> False)"
| "matchObject escapeConverter v =
     (isObjectRecord v \<and> (lengthOf v = 1 \<or> lengthOf v = 2) \<and>
      list_ex (\<lambda>c. matchJSONValue c v) builtinConverters)"
| "matchObject customConverter v = False"

lemma own_entries_depth: "(k, w) \<in> set (own_entries v) \<Longrightarrow> depth w \<le> depth v"
proof (cases v)
  case (JArr xs)
  assume "(k, w) \<in> set (own_entries v)"
  then have "w \<in> set xs" using JArr by (auto dest: set_zip_rightD)
  then show ?thesis using JArr depth_elem [of w xs] by simp
next
  case (JObj kvs)
  assume "(k, w) \<in> set (own_entries v)"
  then show ?thesis using JObj depth_prop [of k w kvs] by simp
qed auto

lemma get_prop_depth: "isObjectRecord (get_prop v k) \<Longrightarrow> depth (get_prop v k) < depth v"
proof (cases v)
  case (JObj kvs)
  then show ?thesis using depth_obj_get_le [of kvs k] by (simp del: depth.simps)
next
  case (JArr xs)
  assume "isObjectRecord (get_prop v k)"
  then obtain w where "(k, w) \<in> set (own_entries (JArr xs))" "get_prop v k = w"
    using JArr by (auto simp: isObjectRecord_def split: option.splits dest: map_of_SomeD)
  then have "w \<in> set xs" by (auto dest: set_zip_rightD)
  then show ?thesis using JArr \<open>get_prop v k = w\<close> depth_elem [of w xs] by (simp del: depth.simps)
next
  case (JBinary bs)
  assume "isObjectRecord (get_prop v k)"
  then obtain w where "(k, w) \<in> set (own_entries (JBinary bs))" "isObjectRecord w"
    using JBinary by (auto simp: isObjectRecord_def split: option.splits dest: map_of_SomeD)
  then show ?thesis by (auto simp: isObjectRecord_def)
qed (auto simp: isObjectRecord_def)

section \<open>Encoding\<close>

text \<open>
  \<open>EJSON.toJSONValue\<close>, the converters' \<open>toJSONValue\<close> behind \<open>toJSONValueHelper\<close> (\<open>Inr None\<close> when
  no converter applies) and the in-place pass \<open>adjustTypesToJSONValue\<close>, whose own replacement of
  the root is discarded by its caller.
\<close>

function toJSONValue :: "host \<Rightarrow> jsval \<Rightarrow> jsval js"
  and toJSONValueHelper :: "host \<Rightarrow> jsval \<Rightarrow> jsval option js"
  and adjustTypesToJSONValue :: "host \<Rightarrow> jsval \<Rightarrow> jsval js"
where
  "toJSONValue h item =
     rbind (toJSONValueHelper h item) (\<lambda>changed.
       case changed of
         Some j \<Rightarrow> Inr j
       | None \<Rightarrow> if isObject item then adjustTypesToJSONValue h (ejson_clone h item) else Inr item)"
| "toJSONValueHelper h item =
     (case find (\<lambda>c. matchObject c item) builtinConverters of
        None \<Rightarrow> Inr None
      | Some dateConverter \<Rightarrow>
          (case item of
             JDate t \<Rightarrow> Inr (Some (JObj [(''$date'', JNum t)]))
           | _ \<Rightarrow> Inl (TypeError ''Expected Date''))
      | Some regexpConverter \<Rightarrow>
          (case item of
             JRegExp source flags \<Rightarrow> Inr (Some (JObj [(''$regexp'', JStr source), (''$flags'', JStr flags)]))
           | _ \<Rightarrow> Inl (TypeError ''Expected RegExp''))
      | Some infNaNConverter \<Rightarrow>
          Inr (Some (JObj [(''$InfNaN'',
            if item = JNum NaN then jint 0 else if item = JNum Infinity then jint 1 else jint (-1))]))
      | Some binaryConverter \<Rightarrow>
          (case item of
             JBinary bs \<Rightarrow> Inr (Some (JObj [(''$binary'', JStr (encodeBase64 bs))]))
           | _ \<Rightarrow> Inl (TypeError ''Expected EJSON binary''))
      | Some escapeConverter \<Rightarrow>
          (case item of
             JObj kvs \<Rightarrow>
               rbind (rtraverse (\<lambda>(k, v). rbind (toJSONValue h v) (\<lambda>j. Inr (k, j))) kvs)
                 (\<lambda>escaped. Inr (Some (JObj [(''$escape'', JObj escaped)])))
           | _ \<Rightarrow> Inl (TypeError ''Invalid EJSON converter input''))
      | Some customConverter \<Rightarrow> Inl (TypeError ''typeName is not a function''))"
| "adjustTypesToJSONValue h obj =
     (if obj = JNull then Inr JNull
      else rbind (toJSONValueHelper h obj) (\<lambda>maybeChanged.
        if maybeChanged \<noteq> None then Inr obj
        else
          (case obj of
             JArr xs \<Rightarrow>
               rbind (rtraverse (\<lambda>value.
                   if \<not> isObject value \<and> value \<noteq> JUndef \<and> \<not> isInfOrNaN value then Inr value
                   else rbind (toJSONValueHelper h value) (\<lambda>changed.
                     case changed of Some c \<Rightarrow> Inr c | None \<Rightarrow> adjustTypesToJSONValue h value)) xs)
                 (\<lambda>ys. Inr (JArr ys))
           | JObj kvs \<Rightarrow>
               rbind (rtraverse (\<lambda>(key, value).
                   if \<not> isObject value \<and> value \<noteq> JUndef \<and> \<not> isInfOrNaN value then Inr (key, value)
                   else rbind (toJSONValueHelper h value) (\<lambda>changed.
                     case changed of
                       Some c \<Rightarrow> Inr (key, c)
                     | None \<Rightarrow> rbind (adjustTypesToJSONValue h value) (\<lambda>c. Inr (key, c)))) kvs)
                 (\<lambda>ys. Inr (JObj ys))
           | _ \<Rightarrow> Inr obj)))"
  by pat_completeness auto
termination
  by (relation "measures [\<lambda>x. case x of Inl (h, v) \<Rightarrow> depth v | Inr (Inl (h, v)) \<Rightarrow> depth v | Inr (Inr (h, v)) \<Rightarrow> depth v,
        \<lambda>x. case x of Inl _ \<Rightarrow> 2 | Inr (Inl _) \<Rightarrow> 0 | Inr (Inr _) \<Rightarrow> 1]")
    (auto simp del: depth.simps simp: order_le_less [symmetric] depth_clone_le
      intro: depth_elem depth_prop less_imp_le [OF depth_elem] less_imp_le [OF depth_prop])

declare toJSONValue.simps [simp del] toJSONValueHelper.simps [simp del] adjustTypesToJSONValue.simps [simp del]

section \<open>Decoding\<close>

lemma escaped_depth:
  assumes "requireRecord (get_prop r k) = Inr e" "requireRecord w = Inr r" "(k', v) \<in> set (own_entries e)"
  shows "depth v < depth w"
proof -
  have "e = get_prop r k" "isObjectRecord (get_prop r k)" "r = w"
    using assms(1,2) by (auto simp: requireRecord_def split: if_splits)
  then show ?thesis using get_prop_depth [of w k] own_entries_depth [OF assms(3)] by simp
qed

definition allowed_flags :: string where
  "allowed_flags = ''gimuy''"

definition sanitize_flags :: "string \<Rightarrow> string" where
  "sanitize_flags flags = remdups (filter (\<lambda>c. c \<in> set allowed_flags) (take 50 flags))"

text \<open>\<open>new RegExp(pattern, flags)\<close>: its \<open>flags\<close> are reported in the language's fixed order.\<close>

definition new_regexp :: "host \<Rightarrow> string \<Rightarrow> string \<Rightarrow> jsval js" where
  "new_regexp h pattern flags =
     (if regexp_valid h pattern flags
      then Inr (JRegExp (regexp_source h pattern) (filter (\<lambda>c. c \<in> set flags) ''dgimsuvy''))
      else Inl (SyntaxError ''Invalid regular expression''))"

definition tagged_candidate :: "jsval \<Rightarrow> bool" where
  "tagged_candidate v \<longleftrightarrow>
     isObjectRecord v \<and> length (keysOf v) \<le> 2 \<and> list_all (\<lambda>k. take 1 k = ''$'') (keysOf v)"

function fromJSONValue :: "host \<Rightarrow> custom_types \<Rightarrow> jsval \<Rightarrow> jsval js"
  and fromJSONValueHelper :: "host \<Rightarrow> custom_types \<Rightarrow> jsval \<Rightarrow> jsval option js"
  and adjustTypesFromJSONValue :: "host \<Rightarrow> custom_types \<Rightarrow> jsval \<Rightarrow> jsval js"
where
  "fromJSONValue h ct item =
     rbind (fromJSONValueHelper h ct item) (\<lambda>changed.
       case changed of
         Some v \<Rightarrow> Inr v
       | None \<Rightarrow> if isObject item then adjustTypesFromJSONValue h ct (ejson_clone h item) else Inr item)"
| "fromJSONValueHelper h ct value =
     (if \<not> tagged_candidate value then Inr None
      else case find (\<lambda>c. matchJSONValue c value) builtinConverters of
        None \<Rightarrow> Inr None
      | Some dateConverter \<Rightarrow>
          rbind (requireRecord value) (\<lambda>r. Inr (Some (JDate (time_clip (to_number h (get_prop r ''$date''))))))
      | Some regexpConverter \<Rightarrow>
          rbind (requireRecord value) (\<lambda>r.
          rbind (requireString (get_prop r ''$regexp'')) (\<lambda>pattern.
          rbind (requireString (get_prop r ''$flags'')) (\<lambda>flags.
          rbind (new_regexp h pattern (sanitize_flags flags)) (\<lambda>re. Inr (Some re)))))
      | Some infNaNConverter \<Rightarrow>
          rbind (requireRecord value) (\<lambda>r. Inr (Some (JNum (div_zero (to_number h (get_prop r ''$InfNaN''))))))
      | Some binaryConverter \<Rightarrow>
          rbind (requireRecord value) (\<lambda>r.
          rbind (requireString (get_prop r ''$binary'')) (\<lambda>s.
          rbind (decodeBase64 s) (\<lambda>bs. Inr (Some (JBinary bs)))))
      | Some escapeConverter \<Rightarrow>
          rbind (requireRecord value) (\<lambda>r.
          rbind (requireRecord (get_prop r ''$escape'')) (\<lambda>escaped.
          rbind (rtraverse (\<lambda>(k, v). rbind (fromJSONValue h ct v) (\<lambda>w. Inr (k, w))) (own_entries escaped))
            (\<lambda>kvs. Inr (Some (JObj kvs)))))
      | Some customConverter \<Rightarrow>
          rbind (requireRecord value) (\<lambda>r.
          rbind (requireString (get_prop r ''$type'')) (\<lambda>typeName.
            case ct typeName of
              None \<Rightarrow> Inl (Error (''Custom EJSON type '' @ typeName @ '' is not defined''))
            | Some factory \<Rightarrow> rbind (factory (get_prop r ''$value'')) (\<lambda>v. Inr (Some v)))))"
| "adjustTypesFromJSONValue h ct obj =
     (if obj = JNull then Inr JNull
      else rbind (fromJSONValueHelper h ct obj) (\<lambda>maybeChanged.
        if maybeChanged \<noteq> None then Inr obj
        else
          (case obj of
             JArr xs \<Rightarrow>
               rbind (rtraverse (\<lambda>value.
                   if \<not> isObject value then Inr value
                   else rbind (fromJSONValueHelper h ct value) (\<lambda>changed.
                     case changed of Some c \<Rightarrow> Inr c | None \<Rightarrow> adjustTypesFromJSONValue h ct value)) xs)
                 (\<lambda>ys. Inr (JArr ys))
           | JObj kvs \<Rightarrow>
               rbind (rtraverse (\<lambda>(key, value).
                   if \<not> isObject value then Inr (key, value)
                   else rbind (fromJSONValueHelper h ct value) (\<lambda>changed.
                     case changed of
                       Some c \<Rightarrow> Inr (key, c)
                     | None \<Rightarrow> rbind (adjustTypesFromJSONValue h ct value) (\<lambda>c. Inr (key, c)))) kvs)
                 (\<lambda>ys. Inr (JObj ys))
           | _ \<Rightarrow> Inr obj)))"
  by pat_completeness auto
termination
  by (relation "measures [\<lambda>x. case x of Inl (h, ct, v) \<Rightarrow> depth v | Inr (Inl (h, ct, v)) \<Rightarrow> depth v | Inr (Inr (h, ct, v)) \<Rightarrow> depth v,
        \<lambda>x. case x of Inl _ \<Rightarrow> 2 | Inr (Inl _) \<Rightarrow> 0 | Inr (Inr _) \<Rightarrow> 1]")
    (auto simp del: depth.simps simp: order_le_less [symmetric] depth_clone_le
      dest: escaped_depth
      intro: depth_elem depth_prop less_imp_le [OF depth_elem] less_imp_le [OF depth_prop])

declare fromJSONValue.simps [simp del] fromJSONValueHelper.simps [simp del] adjustTypesFromJSONValue.simps [simp del]

section \<open>Text\<close>

function (sequential) json_norm :: "host \<Rightarrow> jsval \<Rightarrow> jsval option" where
  "json_norm h JUndef = None"
| "json_norm h (JNum n) = Some (case n of Fin q \<Rightarrow> JNum (Fin q) | _ \<Rightarrow> JNull)"
| "json_norm h (JDate t) = Some (case t of Fin q \<Rightarrow> JStr (date_to_iso h t) | _ \<Rightarrow> JNull)"
| "json_norm h (JRegExp _ _) = Some (JObj [])"
| "json_norm h (JBinary bs) = Some (JObj (own_entries (JBinary bs)))"
| "json_norm h (JObjectId hex) = Some (JStr hex)"
| "json_norm h (JArr xs) = Some (JArr (map (\<lambda>x. case json_norm h x of None \<Rightarrow> JNull | Some j \<Rightarrow> j) xs))"
| "json_norm h (JObj kvs) =
     Some (JObj (concat (map (\<lambda>(k, v). case json_norm h v of None \<Rightarrow> [] | Some j \<Rightarrow> [(k, j)]) kvs)))"
| "json_norm h v = Some v"
  by pat_completeness auto
termination
  by (relation "measure (\<lambda>(h, v). depth v)") (auto simp del: depth.simps intro: depth_elem depth_prop)

text \<open>Key sorting of the canonical mode (\<open>Array.prototype.sort\<close> compares code units).\<close>

function (sequential) sortJsonValue :: "jsval \<Rightarrow> jsval" where
  "sortJsonValue (JArr xs) = JArr (map sortJsonValue xs)"
| "sortJsonValue (JObj kvs) =
     JObj (foldl (\<lambda>accumulator (k, v). obj_set k v accumulator) []
       (sort_key fst (filter (\<lambda>(k, v). v \<noteq> JUndef) (map (\<lambda>(k, v). (k, sortJsonValue v)) kvs))))"
| "sortJsonValue (JBinary bs) =
     JObj (foldl (\<lambda>accumulator (k, v). obj_set k v accumulator) [] (sort_key fst (own_entries (JBinary bs))))"
| "sortJsonValue (JDate _) = JObj []"
| "sortJsonValue (JRegExp _ _) = JObj []"
| "sortJsonValue v = v"
  by pat_completeness auto
termination
  by (relation "measure depth") (auto simp del: depth.simps intro: depth_elem depth_prop)

definition ejson_stringify :: "host \<Rightarrow> bool \<Rightarrow> jsval \<Rightarrow> jsval option js" where
  "ejson_stringify h canonical item =
     rbind (toJSONValue h item) (\<lambda>json.
       Inr (json_norm h (if canonical then sortJsonValue json else json)))"

definition ejson_parse :: "host \<Rightarrow> custom_types \<Rightarrow> jsval option \<Rightarrow> jsval js" where
  "ejson_parse h ct text =
     (case text of
        None \<Rightarrow> Inl (Error ''EJSON.parse argument should be a string'')
      | Some json \<Rightarrow> fromJSONValue h ct json)"

end
