(* ===== verification/Equality.thy ===== *)
theory Equality
  imports Ejson
begin

text \<open>
  \<open>EJSON.equals\<close> (\<open>src/ejson/equals.ts\<close>) on two values that are not the same object. An
  \<open>ObjectId\<close> brings its own \<open>equals\<close> method, which is the parameter \<open>oid\<close>; no other value of the
  model has one, and none is of a registered custom type. \<open>keyOrderSensitive\<close> is the option of that name.
\<close>

section \<open>The comparison\<close>

fun strict_eq :: "jsval \<Rightarrow> jsval \<Rightarrow> bool" where
  "strict_eq JUndef JUndef = True"
| "strict_eq JNull JNull = True"
| "strict_eq (JBool a) (JBool b) = (a = b)"
| "strict_eq (JNum a) (JNum b) = num_strict_eq a b"
| "strict_eq (JStr a) (JStr b) = (a = b)"
| "strict_eq _ _ = False"

definition areBothNaN :: "jsval \<Rightarrow> jsval \<Rightarrow> bool" where
  "areBothNaN a b \<longleftrightarrow> a = JNum NaN \<and> b = JNum NaN"

definition areDatesEqual :: "jsnum \<Rightarrow> jsnum \<Rightarrow> bool" where
  "areDatesEqual a b = num_strict_eq a b"

fun areBinaryEqual :: "8 word list \<Rightarrow> 8 word list \<Rightarrow> bool" where
  "areBinaryEqual a b = (length a = length b \<and> list_all (\<lambda>i. a ! i = b ! i) [0..<length a])"

definition handlePrimitiveChecks :: "jsval \<Rightarrow> jsval \<Rightarrow> bool option" where
  "handlePrimitiveChecks a b =
     (if strict_eq a b then Some True
      else if areBothNaN a b then Some True
      else if \<not> truthy a \<or> \<not> truthy b then Some False
      else if \<not> (isObject a \<and> isObject b) then Some False
      else None)"

definition handleSpecialTypes :: "(string \<Rightarrow> jsval \<Rightarrow> bool) \<Rightarrow> jsval \<Rightarrow> jsval \<Rightarrow> bool option" where
  "handleSpecialTypes oid a b =
     (case (a, b) of
        (JDate s, JDate t) \<Rightarrow> Some (areDatesEqual s t)
      | (JBinary s, JBinary t) \<Rightarrow> Some (areBinaryEqual s t)
      | (JObjectId hex, _) \<Rightarrow> Some (oid hex b)
      | (_, JObjectId hex) \<Rightarrow> Some (oid hex a)
      | _ \<Rightarrow> None)"

definition compareKeysOrderSensitive :: "(jsval \<Rightarrow> jsval \<Rightarrow> bool) \<Rightarrow> jsval \<Rightarrow> jsval \<Rightarrow> bool" where
  "compareKeysOrderSensitive eq a b =
     (let bKeys = keysOf b in
      list_all (\<lambda>((key, v), i). i < length bKeys \<and> key = bKeys ! i \<and> eq v (get_prop b (bKeys ! i)))
        (zip (own_entries a) [0..<length (own_entries a)])
      \<and> length (own_entries a) = length bKeys)"

definition compareKeysUnordered :: "(jsval \<Rightarrow> jsval \<Rightarrow> bool) \<Rightarrow> jsval \<Rightarrow> jsval \<Rightarrow> bool" where
  "compareKeysUnordered eq a b \<longleftrightarrow>
     list_all (\<lambda>(key, v). hasOwn b key \<and> eq v (get_prop b key)) (own_entries a)
     \<and> length (own_entries a) = length (keysOf b)"

definition eq_measure :: "jsval \<Rightarrow> nat" where
  "eq_measure v = 2 * depth v + (if isObject v then 1 else 0)"

lemma eq_measure_elem: "x \<in> set xs \<Longrightarrow> eq_measure x < eq_measure (JArr xs)"
  using depth_elem [of x xs] by (simp add: eq_measure_def isObject_def del: depth.simps)

lemma eq_measure_entry: "isObject a \<Longrightarrow> (k, v) \<in> set (own_entries a) \<Longrightarrow> eq_measure v < eq_measure a"
proof (cases a)
  case (JArr xs)
  assume "(k, v) \<in> set (own_entries a)"
  then have "v \<in> set xs" using JArr by (auto dest: set_zip_rightD)
  then show ?thesis using JArr eq_measure_elem by simp
next
  case (JObj kvs)
  assume "(k, v) \<in> set (own_entries a)"
  then show ?thesis using JObj depth_prop [of k v kvs] by (simp add: eq_measure_def isObject_def del: depth.simps)
qed (auto simp: eq_measure_def isObject_def)

lemma compareKeysOrderSensitive_cong [fundef_cong]:
  assumes "a = a'" "b = b'" "\<And>k v w. (k, v) \<in> set (own_entries a') \<Longrightarrow> eq v w = eq' v w"
  shows "compareKeysOrderSensitive eq a b = compareKeysOrderSensitive eq' a' b'"
  using assms unfolding compareKeysOrderSensitive_def Let_def
  by (intro conj_cong list.pred_cong) (auto dest!: set_zip_leftD)

lemma compareKeysUnordered_cong [fundef_cong]:
  assumes "a = a'" "b = b'" "\<And>k v w. (k, v) \<in> set (own_entries a') \<Longrightarrow> eq v w = eq' v w"
  shows "compareKeysUnordered eq a b = compareKeysUnordered eq' a' b'"
  using assms unfolding compareKeysUnordered_def
  by (intro conj_cong list.pred_cong) auto

function equals :: "(string \<Rightarrow> jsval \<Rightarrow> bool) \<Rightarrow> bool \<Rightarrow> jsval \<Rightarrow> jsval \<Rightarrow> bool" where
  "equals oid keyOrderSensitive a b =
     (case handlePrimitiveChecks a b of
        Some r \<Rightarrow> r
      | None \<Rightarrow>
         (case handleSpecialTypes oid a b of
            Some r \<Rightarrow> r
          | None \<Rightarrow>
             (case a of
                JArr xs \<Rightarrow>
                  (case b of
                     JArr ys \<Rightarrow> length xs = length ys \<and> list_all (\<lambda>(x, y). equals oid keyOrderSensitive x y) (zip xs ys)
                   | _ \<Rightarrow> False)
              | _ \<Rightarrow>
                 (if isArray b then False
                  else if \<not> isObjectRecord a \<or> \<not> isObjectRecord b then False
                  else if keyOrderSensitive
                    then compareKeysOrderSensitive (\<lambda>v w. equals oid keyOrderSensitive v w) a b
                    else compareKeysUnordered (\<lambda>v w. equals oid keyOrderSensitive v w) a b))))"
  by pat_completeness auto
termination
  by (relation "measure (\<lambda>(oid, kos, a, b). eq_measure a)")
    (auto dest: set_zip_leftD intro: eq_measure_elem eq_measure_entry simp: handlePrimitiveChecks_def isObjectRecord_def isObject_def
       simp del: own_entries.simps split: if_splits)

declare equals.simps [simp del]

section \<open>Behaviour by shape\<close>

lemma areBinaryEqual_iff: "areBinaryEqual a b \<longleftrightarrow> a = b"
  by (auto simp: list_all_iff intro: nth_equalityI)

definition noid :: "string \<Rightarrow> jsval \<Rightarrow> bool" where
  "noid hex v = False"

lemma equals_arr:
  "equals oid kos (JArr xs) (JArr ys) \<longleftrightarrow> list_all2 (equals oid kos) xs ys"
  by (subst equals.simps)
    (auto simp: handlePrimitiveChecks_def handleSpecialTypes_def areBothNaN_def isObject_def list_all2_iff list_all_iff)

lemma equals_obj:
  assumes "distinct (map fst xs)" "distinct (map fst ys)"
  shows "equals oid False (JObj xs) (JObj ys) \<longleftrightarrow>
     fst ` set xs = fst ` set ys \<and> (\<forall>k v w. map_of xs k = Some v \<longrightarrow> map_of ys k = Some w \<longrightarrow> equals oid False v w)"
    (is "?L \<longleftrightarrow> ?R")
proof -
  have "?L \<longleftrightarrow> (\<forall>(k, v) \<in> set xs. k \<in> fst ` set ys \<and> equals oid False v (obj_get ys k)) \<and> length xs = length ys"
    by (subst equals.simps)
      (simp add: handlePrimitiveChecks_def handleSpecialTypes_def areBothNaN_def isObject_def isObjectRecord_def
        compareKeysUnordered_def list_all_iff keysOf_def)
  also have "\<dots> \<longleftrightarrow> fst ` set xs \<subseteq> fst ` set ys \<and> length xs = length ys \<and>
      (\<forall>k v. map_of xs k = Some v \<longrightarrow> equals oid False v (obj_get ys k))"
  proof -
    have "(\<forall>(k, v) \<in> set xs. k \<in> K \<and> Q k v) \<longleftrightarrow> fst ` set xs \<subseteq> K \<and> (\<forall>k v. (k, v) \<in> set xs \<longrightarrow> Q k v)" for K Q
      by fastforce
    then show ?thesis using assms(1) by (simp, blast)
  qed
  also have "\<dots> \<longleftrightarrow> fst ` set xs = fst ` set ys \<and>
      (\<forall>k v. map_of xs k = Some v \<longrightarrow> equals oid False v (obj_get ys k))"
  proof -
    have "card (fst ` set xs) = length xs" "card (fst ` set ys) = length ys"
      using assms by (metis distinct_card length_map list.set_map)+
    then show ?thesis by (metis List.finite_set card_subset_eq finite_imageI subset_refl)
  qed
  also have "\<dots> \<longleftrightarrow> ?R"
  proof (rule conj_cong [OF refl])
    assume "fst ` set xs = fst ` set ys"
    then have "\<exists>w. map_of ys k = Some w" if "map_of xs k = Some v" for k v
      using that by (metis domD domI dom_map_of_conv_image_fst)
    then show "(\<forall>k v. map_of xs k = Some v \<longrightarrow> equals oid False v (obj_get ys k)) \<longleftrightarrow>
        (\<forall>k v w. map_of xs k = Some v \<longrightarrow> map_of ys k = Some w \<longrightarrow> equals oid False v w)"
      by (fastforce simp: obj_get_def)
  qed
  finally show ?thesis .
qed

lemma equals_date: "equals oid kos (JDate s) (JDate t) \<longleftrightarrow> s = t \<and> s \<noteq> NaN"
  by (subst equals.simps)
    (simp add: handlePrimitiveChecks_def handleSpecialTypes_def areBothNaN_def isObject_def areDatesEqual_def num_strict_eq_iff)


lemma equals_atom:
  assumes "\<not> isObjectRecord a \<or> \<not> isObjectRecord b"
  shows "equals oid kos a b \<longleftrightarrow> a = b"
  using assms
  by (subst equals.simps, cases a; cases b)
    (auto simp: handlePrimitiveChecks_def areBothNaN_def isObject_def isObjectRecord_def num_strict_eq_iff)

section \<open>Equality is an equivalence on ordinary documents\<close>

text \<open>
  Values without the shapes \<open>equals\<close> confuses: regular expressions and binaries against key-less
  objects, dates against empty objects, invalid dates against themselves.
\<close>

fun diff_safe :: "jsval \<Rightarrow> bool" where
  "diff_safe (JDate t) = (t \<noteq> NaN)"
| "diff_safe (JRegExp _ _) = False"
| "diff_safe (JBinary _) = False"
| "diff_safe (JObjectId _) = False"
| "diff_safe (JArr xs) = (\<forall>x \<in> set xs. diff_safe x)"
| "diff_safe (JObj kvs) = (kvs \<noteq> [] \<and> distinct (map fst kvs) \<and> (\<forall>(k, v) \<in> set kvs. diff_safe v))"
| "diff_safe _ = True"

lemma diff_safe_get: "diff_safe (JObj kvs) \<Longrightarrow> map_of kvs k = Some v \<Longrightarrow> diff_safe v"
  by (auto dest: map_of_SomeD)

lemma equals_shape:
  assumes "diff_safe a" "diff_safe b" "isObjectRecord a" "isObjectRecord b" "equals oid kos a b"
  obtains s t where "a = JDate s" "b = JDate t"
  | xs ys where "a = JArr xs" "b = JArr ys"
  | xs ys where "a = JObj xs" "b = JObj ys"
  using assms(5)
  by (subst (asm) equals.simps, insert assms(1-4), cases a; cases b)
    (auto simp: handlePrimitiveChecks_def handleSpecialTypes_def areBothNaN_def isObject_def isObjectRecord_def
      compareKeysOrderSensitive_def compareKeysUnordered_def keysOf_def split: if_splits)

lemma equals_refl: "diff_safe a \<Longrightarrow> equals oid False a a"
proof (induction a rule: measure_induct_rule [where f = depth])
  case (less a)
  show ?case
  proof (cases a)
    case (JArr xs)
    then have "list_all2 (equals oid False) xs xs"
      using less depth_elem by (auto simp: list_all2_conv_all_nth simp del: depth.simps)
    then show ?thesis using JArr by (simp add: equals_arr)
  next
    case (JObj kvs)
    then have "equals oid False v v" if "map_of kvs k = Some v" for k v
      using less that depth_get diff_safe_get by blast
    then show ?thesis using JObj less.prems by (auto simp: equals_obj)
  qed (use less.prems in \<open>auto simp: equals_date equals_atom isObjectRecord_def\<close>)
qed

lemma equals_sym: "diff_safe a \<Longrightarrow> diff_safe b \<Longrightarrow> equals oid False a b \<Longrightarrow> equals oid False b a"
proof (induction a arbitrary: b rule: measure_induct_rule [where f = depth])
  case (less a)
  show ?case
  proof (cases "isObjectRecord a \<and> isObjectRecord b")
    case True
    then have rec: "isObjectRecord a" "isObjectRecord b" by simp_all
    from less.prems(1,2) rec less.prems(3) show ?thesis
    proof (cases rule: equals_shape)
      case (2 xs ys)
      then show ?thesis using less depth_elem
        by (auto simp: equals_arr list_all2_conv_all_nth simp del: depth.simps)
    next
      case (3 xs ys)
      then show ?thesis using less depth_get diff_safe_get by (auto simp: equals_obj simp del: depth.simps)
    next
      case (1 s t)
      then show ?thesis using less.prems(3) by (auto simp: equals_date)
    qed
  next
    case False
    then have "a = b" using less.prems(3) equals_atom [of a b oid False] by simp
    then show ?thesis using less.prems(3) by simp
  qed
qed


lemma equals_trans:
  "diff_safe a \<Longrightarrow> diff_safe b \<Longrightarrow> diff_safe c \<Longrightarrow> equals oid False a b \<Longrightarrow> equals oid False b c
   \<Longrightarrow> equals oid False a c"
proof (induction a arbitrary: b c rule: measure_induct_rule [where f = depth])
  case (less a)
  show ?case
  proof (cases "isObjectRecord a \<and> isObjectRecord b \<and> isObjectRecord c")
    case True
    then have rec: "isObjectRecord a" "isObjectRecord b" "isObjectRecord c" by simp_all
    from less.prems(1,2) rec(1,2) less.prems(4) show ?thesis
    proof (cases rule: equals_shape)
      case (1 s t)
      from less.prems(2,3) rec(2,3) less.prems(5) show ?thesis
        using 1 less.prems by (cases rule: equals_shape) (auto simp: equals_date)
    next
      case (2 xs ys)
      from less.prems(2,3) rec(2,3) less.prems(5) obtain zs where c: "c = JArr zs"
        using 2 by (cases rule: equals_shape) auto
      have "equals oid False (xs ! i) (zs ! i)" if "i < length xs" for i
        using less.IH [of "xs ! i" "ys ! i" "zs ! i"] less.prems 2 c that depth_elem [of "xs ! i" xs]
        by (auto simp: equals_arr list_all2_conv_all_nth simp del: depth.simps)
      then show ?thesis using less.prems 2 c by (auto simp: equals_arr list_all2_conv_all_nth)
    next
      case (3 xs ys)
      from less.prems(2,3) rec(2,3) less.prems(5) obtain zs where c: "c = JObj zs"
        using 3 by (cases rule: equals_shape) auto
      have wf: "distinct (map fst xs)" "distinct (map fst ys)" "distinct (map fst zs)"
        using less.prems 3 c by auto
      have ab: "fst ` set xs = fst ` set ys" "\<And>k v w. map_of xs k = Some v \<Longrightarrow> map_of ys k = Some w \<Longrightarrow> equals oid False v w"
        using less.prems(4) 3 wf by (auto simp: equals_obj)
      have bc: "fst ` set ys = fst ` set zs" "\<And>k v w. map_of ys k = Some v \<Longrightarrow> map_of zs k = Some w \<Longrightarrow> equals oid False v w"
        using less.prems(5) 3 c wf by (auto simp: equals_obj)
      have "equals oid False v w" if vw: "map_of xs k = Some v" "map_of zs k = Some w" for k v w
      proof -
        obtain u where u: "map_of ys k = Some u" using vw(1) ab(1) by (metis domD domI dom_map_of_conv_image_fst)
        show ?thesis
        proof (rule less.IH [of v u w])
          show "depth v < depth a" using vw(1) 3 depth_get by blast
          show "diff_safe v" "diff_safe u" "diff_safe w"
            using diff_safe_get less.prems(1-3) 3 c vw u by blast+
          show "equals oid False v u" "equals oid False u w" using ab(2) bc(2) vw u by blast+
        qed
      qed
      then show ?thesis using 3 c wf ab(1) bc(1) by (simp add: equals_obj)
    qed
  next
    case False
    then have "a = b \<or> b = c"
      using less.prems(4,5) equals_atom [of a b oid False] equals_atom [of b c oid False] by blast
    then show ?thesis using less.prems(4,5) by auto
  qed
qed

section \<open>Properties\<close>

text \<open>
  C32: \<open>EJSON.equals\<close> is an equivalence relation on documents made of JSON values, non-finite
  numbers, valid dates and non-empty objects, so that comparing against the last published revision
  is as good as comparing against any earlier equal one.
\<close>

theorem equals_equivalence:
  assumes "diff_safe a" "diff_safe b" "diff_safe c"
  shows "equals oid False a a \<and> (equals oid False a b \<longrightarrow> equals oid False b a) \<and>
     (equals oid False a b \<longrightarrow> equals oid False b c \<longrightarrow> equals oid False a c)"
  using equals_refl equals_sym equals_trans assms by blast

theorem equals_equivalence_witness:
  "equals noid False (JObj [(''a'', JNum NaN), (''b'', JDate (Fin 1))]) (JObj [(''b'', JDate (Fin 1)), (''a'', JNum NaN)])"
  (is "equals noid False ?x ?y")
proof -
  have "diff_safe ?x" "diff_safe ?y" by simp_all
  moreover have "equals noid False ?y ?x"
    by (subst equals_obj) (auto simp: equals_date equals_atom isObjectRecord_def split: if_splits)
  ultimately show ?thesis using equals_equivalence [of ?y ?x ?x noid] by blast
qed

text \<open>
  The comparison does not tell two regular expressions apart, nor a date from an empty object,
  and therefore is not transitive in general: two different dates are both equal to the empty object.
\<close>

theorem equals_confuses_keyless_objects:
  "equals oid kos (JRegExp s f) (JRegExp s' f') \<and> equals oid kos (JDate t) (JObj []) \<and>
   equals oid kos (JObj []) (JDate t') \<and> (equals oid kos (JDate t) (JDate t') \<longleftrightarrow> t = t' \<and> t \<noteq> NaN)"
  by (simp add: equals_date equals.simps handlePrimitiveChecks_def handleSpecialTypes_def areBothNaN_def isObject_def
      isObjectRecord_def compareKeysUnordered_def compareKeysOrderSensitive_def keysOf_def areDatesEqual_def num_strict_eq_iff)

end
