(* ===== verification/EjsonWire.thy ===== *)
theory EjsonWire
  imports Ejson
begin

text \<open>
  The wire contract of EJSON. \<open>ejson_enc\<close> is a structural reference for the encoding: every special
  value becomes its tag object, and an object that looks like a tag is put under \<open>$escape\<close>.
  On the values of \<open>wire_safe\<close> the implementation, with its clone and its two in-place passes,
  computes exactly that encoding, JSON text keeps it, and decoding returns the original value.
\<close>

section \<open>The values the wire carries\<close>

definition reserved_key :: "string \<Rightarrow> bool" where
  "reserved_key k \<longleftrightarrow> k = ''callee'' \<or> k = ''_bsontype'' \<or> k = ''_doc''"

fun wire_safe :: "host \<Rightarrow> jsval \<Rightarrow> bool" where
  "wire_safe h JUndef = False"
| "wire_safe h (JDate t) = (time_clip t = t \<and> t \<noteq> NaN)"
| "wire_safe h (JRegExp s f) =
     (regexp_valid h s f \<and> regexp_source h s = s \<and> f = filter (\<lambda>c. c \<in> set f) ''gimuy'')"
| "wire_safe h (JObjectId hex) = False"
| "wire_safe h (JArr xs) = (\<forall>x \<in> set xs. wire_safe h x)"
| "wire_safe h (JObj kvs) =
     (distinct (map fst kvs) \<and> (\<forall>(k, v) \<in> set kvs. \<not> reserved_key k \<and> wire_safe h v))"
| "wire_safe h v = True"

definition looks_tagged :: "jsobj \<Rightarrow> bool" where
  "looks_tagged kvs = list_ex (\<lambda>c. matchJSONValue c (JObj kvs)) builtinConverters"

fun ejson_enc :: "jsval \<Rightarrow> jsval" where
  "ejson_enc (JNum NaN) = JObj [(''$InfNaN'', jint 0)]"
| "ejson_enc (JNum Infinity) = JObj [(''$InfNaN'', jint 1)]"
| "ejson_enc (JNum NegInfinity) = JObj [(''$InfNaN'', jint (-1))]"
| "ejson_enc (JDate t) = JObj [(''$date'', JNum t)]"
| "ejson_enc (JRegExp s f) = JObj [(''$regexp'', JStr s), (''$flags'', JStr f)]"
| "ejson_enc (JBinary bs) = JObj [(''$binary'', JStr (encodeBase64 bs))]"
| "ejson_enc (JArr xs) = JArr (map ejson_enc xs)"
| "ejson_enc (JObj kvs) =
     (let enc = map (\<lambda>(k, v). (k, ejson_enc v)) kvs
      in if looks_tagged kvs then JObj [(''$escape'', JObj enc)] else JObj enc)"
| "ejson_enc v = v"

definition converted :: "jsval \<Rightarrow> bool" where
  "converted v \<longleftrightarrow> (case v of JNum n \<Rightarrow> isInfOrNaN v | JDate _ \<Rightarrow> True | JRegExp _ _ \<Rightarrow> True
     | JBinary _ \<Rightarrow> True | JObj kvs \<Rightarrow> looks_tagged kvs | _ \<Rightarrow> False)"

section \<open>Shared facts\<close>

lemma match_keys:
  "map fst kvs = map fst kvs' \<Longrightarrow> matchJSONValue c (JObj kvs) = matchJSONValue c (JObj kvs')"
  by (cases c) (auto simp: keysOf_def lengthOf_def isObjectRecord_def isObject_def dest: map_eq_imp_length_eq)

lemma looks_tagged_keys: "map fst kvs = map fst kvs' \<Longrightarrow> looks_tagged kvs = looks_tagged kvs'"
  unfolding looks_tagged_def builtinConverters_def using match_keys [of kvs kvs'] by simp

lemma map_snd_keys [simp]: "map fst (map (\<lambda>(k, v). (k, f v)) kvs) = map fst kvs"
  by (induction kvs) auto

lemma map_snd_keys_comp [simp]: "map (fst \<circ> (\<lambda>(k, v). (k, f v))) kvs = map fst kvs"
  by (induction kvs) auto

lemma clone_safe: "wire_safe h v \<Longrightarrow> ejson_clone h v = v"
proof (induction h v rule: ejson_clone.induct)
  case (2 h xs)
  then have "map (ejson_clone h) xs = xs" by (simp add: map_idI)
  moreover have "x \<noteq> JUndef" if "x \<in> set xs" for x using 2(2) that by auto
  ultimately show ?case by (simp add: filter_id_conv)
next
  case (3 h kvs)
  have nokey: "map_of kvs ''callee'' = None" "map_of kvs ''_bsontype'' = None" "map_of kvs ''_doc'' = None"
    using 3(4) by (auto simp: map_of_eq_None_iff reserved_key_def)
  have "\<not> bson_object_id kvs" "\<not> model_document kvs" "\<not> isArguments kvs"
    using nokey by (simp_all add: bson_object_id_def model_document_def isArguments_def jm_has_def obj_get_def isObjectRecord_def)
  moreover have "map (\<lambda>(k, v). (k, ejson_clone h v)) kvs = kvs"
    using 3(3,4) calculation by (intro map_idI) fastforce
  ultimately show ?case by simp
qed auto

lemma enc_safe: "wire_safe h v \<Longrightarrow> wire_safe h (ejson_enc v)"
proof (induction v rule: ejson_enc.induct)
  case (8 kvs)
  then have "wire_safe h (JObj (map (\<lambda>(k, v). (k, ejson_enc v)) kvs))" by fastforce
  then show ?case by (simp add: Let_def reserved_key_def del: map_map)
qed (auto simp: reserved_key_def)

lemma json_norm_enc: "wire_safe h v \<Longrightarrow> json_norm h (ejson_enc v) = Some (ejson_enc v)"
proof (induction v rule: ejson_enc.induct)
  case (7 xs)
  then have "map (\<lambda>x. case json_norm h (ejson_enc x) of None \<Rightarrow> JNull | Some j \<Rightarrow> j) xs = map ejson_enc xs"
    by (intro map_cong) auto
  then show ?case by (simp add: comp_def)
next
  case (8 kvs)
  have "concat (map (\<lambda>(k, v). case json_norm h v of None \<Rightarrow> [] | Some j \<Rightarrow> [(k, j)]) (map (\<lambda>(k, v). (k, ejson_enc v)) kvs))
      = map (\<lambda>(k, v). (k, ejson_enc v)) kvs"
    using 8 by (induction kvs) fastforce+
  then show ?case by (simp add: Let_def del: map_map)
qed (auto split: jsnum.splits)

section \<open>Encoding computes the reference\<close>

lemma escape_match_iff: "matchObject escapeConverter (JObj kvs) = looks_tagged kvs"
proof -
  have "matchJSONValue c (JObj kvs) \<Longrightarrow> lengthOf (JObj kvs) = 1 \<or> lengthOf (JObj kvs) = 2" for c
    by (cases c) auto
  then show ?thesis
    by (auto simp: looks_tagged_def isObjectRecord_def isObject_def builtinConverters_def)
qed

lemmas convert_simps = toJSONValueHelper.simps builtinConverters_def isInfOrNaN_def isObjectRecord_def isObject_def
  hasOwn.simps keysOf_def lengthOf_def own_entries.simps

lemma digit_char: "d < 10 \<Longrightarrow> is_digit (char_of (d + 48 :: nat))"
  by (simp add: is_digit_def less_eq_char_def)

lemma nat_digits_digit: "c \<in> set (nat_digits n) \<Longrightarrow> is_digit c"
proof (induction n rule: nat_digits.induct)
  case (1 n)
  then show ?case
    using digit_char [of n] digit_char [of "n mod 10"]
    by (subst (asm) (2) nat_digits.simps) (auto split: if_splits)
qed

lemma array_no_match: "\<not> matchJSONValue c (JArr xs)"
proof -
  have "CHR ''$'' # k \<notin> set (keysOf (JArr xs))" for k
  proof
    assume "CHR ''$'' # k \<in> set (keysOf (JArr xs))"
    then obtain i where "nat_digits i = CHR ''$'' # k" by (auto simp: keysOf_def)
    then show False using nat_digits_digit [of "CHR ''$''" i] by (simp add: is_digit_def)
  qed
  then show ?thesis by (cases c) auto
qed

lemma helper_obj:
  "toJSONValueHelper h (JObj kvs) =
     (if looks_tagged kvs
      then rbind (rtraverse (\<lambda>(k, v). rbind (toJSONValue h v) (\<lambda>j. Inr (k, j))) kvs)
             (\<lambda>escaped. Inr (Some (JObj [(''$escape'', JObj escaped)])))
      else Inr None)"
  using escape_match_iff [of kvs]
  by (simp add: toJSONValueHelper.simps builtinConverters_def isInfOrNaN_def del: matchObject.simps(5))

lemma helper_special:
  "toJSONValueHelper h (JDate t) = Inr (Some (ejson_enc (JDate t)))"
  "toJSONValueHelper h (JRegExp s f) = Inr (Some (ejson_enc (JRegExp s f)))"
  "toJSONValueHelper h (JBinary bs) = Inr (Some (ejson_enc (JBinary bs)))"
  by (simp_all add: toJSONValueHelper.simps builtinConverters_def isInfOrNaN_def)

lemma helper_num: "toJSONValueHelper h (JNum n) = Inr (case n of Fin q \<Rightarrow> None | _ \<Rightarrow> Some (ejson_enc (JNum n)))"
  by (cases n) (simp_all add: toJSONValueHelper.simps builtinConverters_def isInfOrNaN_def isObjectRecord_def isObject_def)

lemma helper_array: "toJSONValueHelper h (JArr xs) = Inr None"
  using array_no_match [of _ xs]
  by (simp add: toJSONValueHelper.simps builtinConverters_def isInfOrNaN_def del: matchJSONValue.simps)

lemma helper_atom:
  "toJSONValueHelper h JUndef = Inr None" "toJSONValueHelper h JNull = Inr None"
  "toJSONValueHelper h (JBool b) = Inr None" "toJSONValueHelper h (JStr s) = Inr None"
  by (simp_all add: toJSONValueHelper.simps builtinConverters_def isInfOrNaN_def isObjectRecord_def isObject_def)

definition encodes :: "host \<Rightarrow> jsval \<Rightarrow> bool" where
  "encodes h v \<longleftrightarrow>
     toJSONValueHelper h v = Inr (if converted v then Some (ejson_enc v) else None) \<and>
     adjustTypesToJSONValue h v = Inr (if converted v then v else ejson_enc v)"

lemma enc_atom: "\<not> isObject v \<Longrightarrow> \<not> isInfOrNaN v \<Longrightarrow> ejson_enc v = v"
  by (cases v rule: ejson_enc.cases) (auto simp: isObject_def isInfOrNaN_def)

lemma encodes_toJSONValue:
  assumes "encodes h v" "wire_safe h v"
  shows "toJSONValue h v = Inr (ejson_enc v)"
proof -
  have "converted v \<or> isObject v \<or> ejson_enc v = v"
    using enc_atom [of v] by (cases v) (auto simp: isInfOrNaN_def isObject_def converted_def)
  then show ?thesis using assms clone_safe [of h v]
    by (cases "converted v"; cases "isObject v") (simp_all add: encodes_def toJSONValue.simps [of h v])
qed

lemma adjust_child:
  assumes "encodes h v" "wire_safe h v"
  shows "(if \<not> isObject v \<and> v \<noteq> JUndef \<and> \<not> isInfOrNaN v then Inr v
          else rbind (toJSONValueHelper h v) (\<lambda>changed.
            case changed of Some c \<Rightarrow> Inr c | None \<Rightarrow> adjustTypesToJSONValue h v)) = Inr (ejson_enc v)"
  using assms enc_atom [of v] by (auto simp: encodes_def)

lemma adjust_entry:
  assumes "encodes h v" "wire_safe h v"
  shows "(if \<not> isObject v \<and> v \<noteq> JUndef \<and> \<not> isInfOrNaN v then Inr (k, v)
          else rbind (toJSONValueHelper h v) (\<lambda>changed.
            case changed of Some c \<Rightarrow> Inr (k, c) | None \<Rightarrow> rbind (adjustTypesToJSONValue h v) (\<lambda>c. Inr (k, c))))
        = Inr (k, ejson_enc v)"
  using assms enc_atom [of v] by (auto simp: encodes_def)

lemma encodes_safe: "wire_safe h v \<Longrightarrow> encodes h v"
proof (induction v rule: ejson_enc.induct)
  case (7 xs)
  have "rtraverse (\<lambda>v. if \<not> isObject v \<and> v \<noteq> JUndef \<and> \<not> isInfOrNaN v then Inr v
          else rbind (toJSONValueHelper h v) (\<lambda>changed.
            case changed of Some c \<Rightarrow> Inr c | None \<Rightarrow> adjustTypesToJSONValue h v)) xs = Inr (map ejson_enc xs)"
    using 7 by (intro rtraverse_Inr adjust_child) auto
  then show ?case
    by (simp add: encodes_def helper_array converted_def adjustTypesToJSONValue.simps [of h "JArr xs"])
next
  case (8 kvs)
  have kv: "encodes h v \<and> wire_safe h v" if "(k, v) \<in> set kvs" for k v
    using 8 that by fastforce
  have esc: "rtraverse (\<lambda>(k, v). rbind (toJSONValue h v) (\<lambda>j. Inr (k, j))) kvs
      = Inr (map (\<lambda>(k, v). (k, ejson_enc v)) kvs)"
    using kv by (intro rtraverse_Inr) (auto simp: encodes_toJSONValue)
  have adj: "rtraverse (\<lambda>(k, v). if \<not> isObject v \<and> v \<noteq> JUndef \<and> \<not> isInfOrNaN v then Inr (k, v)
          else rbind (toJSONValueHelper h v) (\<lambda>changed.
            case changed of Some c \<Rightarrow> Inr (k, c) | None \<Rightarrow> rbind (adjustTypesToJSONValue h v) (\<lambda>c. Inr (k, c)))) kvs
      = Inr (map (\<lambda>(k, v). (k, ejson_enc v)) kvs)"
  proof (rule rtraverse_Inr, clarify)
    fix k v assume "(k, v) \<in> set kvs"
    then show "(if \<not> isObject v \<and> v \<noteq> JUndef \<and> \<not> isInfOrNaN v then Inr (k, v)
          else rbind (toJSONValueHelper h v) (\<lambda>changed.
            case changed of Some c \<Rightarrow> Inr (k, c) | None \<Rightarrow> rbind (adjustTypesToJSONValue h v) (\<lambda>c. Inr (k, c))))
        = Inr (k, ejson_enc v)" using kv by (intro adjust_entry) auto
  qed
  show ?case
    using esc adj
    by (simp add: encodes_def helper_obj converted_def Let_def adjustTypesToJSONValue.simps [of h "JObj kvs"])
qed (auto simp: encodes_def helper_atom helper_special helper_num converted_def isInfOrNaN_def adjustTypesToJSONValue.simps
       split: jsnum.splits)

lemma toJSONValue_safe: "wire_safe h v \<Longrightarrow> toJSONValue h v = Inr (ejson_enc v)"
  by (simp add: encodes_safe encodes_toJSONValue)


section \<open>Decoding inverts it\<close>

lemma untagged_none:
  assumes "\<not> looks_tagged kvs"
  shows "fromJSONValueHelper h ct (JObj (map (\<lambda>(k, v). (k, f v)) kvs)) = Inr None"
proof -
  have "\<not> looks_tagged (map (\<lambda>(k, v). (k, f v)) kvs)"
    using assms looks_tagged_keys [of "map (\<lambda>(k, v). (k, f v)) kvs" kvs] by simp
  then show ?thesis
    by (simp add: fromJSONValueHelper.simps looks_tagged_def builtinConverters_def del: matchJSONValue.simps)
qed

lemma from_helper_other:
  "fromJSONValueHelper h ct (JArr xs) = Inr None" "fromJSONValueHelper h ct JNull = Inr None"
  "fromJSONValueHelper h ct (JBool b) = Inr None" "fromJSONValueHelper h ct (JNum n) = Inr None"
  "fromJSONValueHelper h ct (JStr s) = Inr None"
  using array_no_match [of _ xs]
  by (simp_all add: fromJSONValueHelper.simps tagged_candidate_def isObjectRecord_def isObject_def
        builtinConverters_def del: matchJSONValue.simps)

lemmas tag_simps = fromJSONValueHelper.simps tagged_candidate_def isObjectRecord_def isObject_def
  builtinConverters_def keysOf_def lengthOf_def requireRecord_def requireString_def obj_get_def to_number_def

lemma from_helper_tag:
  "fromJSONValueHelper h ct (JObj [(''$date'', JNum t)]) = Inr (Some (JDate (time_clip t)))"
  "fromJSONValueHelper h ct (JObj [(''$InfNaN'', JNum n)]) = Inr (Some (JNum (div_zero n)))"
  "fromJSONValueHelper h ct (JObj [(''$binary'', JStr (encodeBase64 bs))]) = Inr (Some (JBinary bs))"
  by (simp_all add: tag_simps decode_encode)

lemma from_helper_regexp:
  assumes "wire_safe h (JRegExp s f)"
  shows "fromJSONValueHelper h ct (JObj [(''$regexp'', JStr s), (''$flags'', JStr f)]) = Inr (Some (JRegExp s f))"
proof -
  have f: "f = filter (\<lambda>c. c \<in> set f) ''gimuy''" using assms by simp
  have "length f \<le> length ''gimuy''" by (subst f) (rule length_filter_le)
  moreover have "distinct f" by (subst f) simp
  moreover have "set f \<subseteq> set ''gimuy''" by (subst f) auto
  ultimately have "sanitize_flags f = f"
    by (auto simp: sanitize_flags_def allowed_flags_def filter_id_conv distinct_remdups_id)
  moreover have "filter (\<lambda>c. c \<in> set f) ''dgimsuvy'' = f"
  proof -
    have "CHR ''d'' \<notin> set f" "CHR ''s'' \<notin> set f" "CHR ''v'' \<notin> set f"
      using \<open>set f \<subseteq> set ''gimuy''\<close> by auto
    then have "filter (\<lambda>c. c \<in> set f) ''dgimsuvy'' = filter (\<lambda>c. c \<in> set f) ''gimuy''" by simp
    then show ?thesis using f by (simp only:)
  qed
  ultimately have "new_regexp h s (sanitize_flags f) = Inr (JRegExp s f)"
    using assms by (simp add: new_regexp_def)
  then show ?thesis by (simp add: tag_simps)
qed

lemma from_helper_escape:
  "fromJSONValueHelper h ct (JObj [(''$escape'', JObj kvs)]) =
     rbind (rtraverse (\<lambda>(k, v). rbind (fromJSONValue h ct v) (\<lambda>w. Inr (k, w))) kvs)
       (\<lambda>ws. Inr (Some (JObj ws)))"
  by (simp add: tag_simps)

definition decodes :: "host \<Rightarrow> custom_types \<Rightarrow> jsval \<Rightarrow> bool" where
  "decodes h ct v \<longleftrightarrow>
     fromJSONValueHelper h ct (ejson_enc v) = Inr (if converted v then Some v else None) \<and>
     adjustTypesFromJSONValue h ct (ejson_enc v) = Inr (if converted v then ejson_enc v else v)"

lemma decodes_atom:
  assumes "wire_safe h v" "\<not> isObject (ejson_enc v)"
  shows "ejson_enc v = v" "\<not> converted v"
  using assms by (cases v rule: ejson_enc.cases; simp add: isObject_def Let_def converted_def isInfOrNaN_def split: if_splits)+

lemma decodes_fromJSONValue:
  assumes "decodes h ct v" "wire_safe h v"
  shows "fromJSONValue h ct (ejson_enc v) = Inr v"
  using assms decodes_atom [OF assms(2)] clone_safe [OF enc_safe [OF assms(2)]]
  by (subst fromJSONValue.simps, cases "converted v"; cases "isObject (ejson_enc v)")
    (simp_all add: decodes_def)

lemma decode_child:
  assumes "decodes h ct v" "wire_safe h v"
  shows "(if \<not> isObject (ejson_enc v) then Inr (ejson_enc v)
          else rbind (fromJSONValueHelper h ct (ejson_enc v)) (\<lambda>changed.
            case changed of Some c \<Rightarrow> Inr c | None \<Rightarrow> adjustTypesFromJSONValue h ct (ejson_enc v))) = Inr v"
  using assms decodes_atom [OF assms(2)] by (auto simp: decodes_def)

lemma decode_entry:
  assumes "decodes h ct v" "wire_safe h v"
  shows "(if \<not> isObject (ejson_enc v) then Inr (k, ejson_enc v)
          else rbind (fromJSONValueHelper h ct (ejson_enc v)) (\<lambda>changed.
            case changed of Some c \<Rightarrow> Inr (k, c)
            | None \<Rightarrow> rbind (adjustTypesFromJSONValue h ct (ejson_enc v)) (\<lambda>c. Inr (k, c)))) = Inr (k, v)"
  using assms decodes_atom [OF assms(2)] by (auto simp: decodes_def)

lemma rtraverse_enc:
  assumes "\<And>k v. (k, v) \<in> set kvs \<Longrightarrow> f (k, ejson_enc v) = Inr (k, v)"
  shows "rtraverse f (map (\<lambda>(k, v). (k, ejson_enc v)) kvs) = Inr kvs"
  using assms by (induction kvs) auto

lemma rtraverse_enc_list:
  assumes "\<And>v. v \<in> set xs \<Longrightarrow> f (ejson_enc v) = Inr v"
  shows "rtraverse f (map ejson_enc xs) = Inr xs"
  using assms by (induction xs) auto

lemma decodes_safe: "wire_safe h v \<Longrightarrow> decodes h ct v"
proof (induction v rule: ejson_enc.induct)
  case (5 s f)
  then show ?case using from_helper_regexp [OF 5]
    by (simp add: decodes_def converted_def adjustTypesFromJSONValue.simps)
next
  case (7 xs)
  then have "rtraverse (\<lambda>w. if \<not> isObject w then Inr w
          else rbind (fromJSONValueHelper h ct w) (\<lambda>changed.
            case changed of Some c \<Rightarrow> Inr c | None \<Rightarrow> adjustTypesFromJSONValue h ct w)) (map ejson_enc xs) = Inr xs"
    by (intro rtraverse_enc_list decode_child) auto
  then show ?case
    by (simp add: decodes_def from_helper_other converted_def adjustTypesFromJSONValue.simps [of h ct "JArr (map ejson_enc xs)"])
next
  case (8 kvs)
  let ?enc = "map (\<lambda>(k, v). (k, ejson_enc v)) kvs"
  have kv: "decodes h ct v" "wire_safe h v" if "(k, v) \<in> set kvs" for k v
    using 8 that by fastforce+
  have esc: "rtraverse (\<lambda>(k, v). rbind (fromJSONValue h ct v) (\<lambda>w. Inr (k, w))) ?enc = Inr kvs"
    using kv by (intro rtraverse_enc) (simp add: decodes_fromJSONValue)
  have adj: "rtraverse (\<lambda>(k, w). if \<not> isObject w then Inr (k, w)
          else rbind (fromJSONValueHelper h ct w) (\<lambda>changed.
            case changed of Some c \<Rightarrow> Inr (k, c)
            | None \<Rightarrow> rbind (adjustTypesFromJSONValue h ct w) (\<lambda>c. Inr (k, c)))) ?enc = Inr kvs"
    using kv by (intro rtraverse_enc) (simp only: prod.case decode_entry)
  show ?case
  proof (cases "looks_tagged kvs")
    case True
    then show ?thesis
      by (simp add: decodes_def converted_def from_helper_escape esc adjustTypesFromJSONValue.simps [of h ct "JObj [(''$escape'', JObj ?enc)]"] del: map_map)
  next
    case False
    then show ?thesis
      by (simp add: decodes_def converted_def untagged_none adj adjustTypesFromJSONValue.simps [of h ct "JObj ?enc"] del: map_map)
  qed
qed (auto simp: decodes_def from_helper_other from_helper_tag converted_def isInfOrNaN_def adjustTypesFromJSONValue.simps)

section \<open>Encoding never fails\<close>

lemma rtraverse_total: "(\<And>x. x \<in> set xs \<Longrightarrow> \<exists>y. f x = Inr y) \<Longrightarrow> \<exists>ys. rtraverse f xs = Inr ys"
  by (induction xs) fastforce+

lemma helper_oid: "toJSONValueHelper h (JObjectId hex) = Inr None"
  by (simp add: toJSONValueHelper.simps builtinConverters_def isInfOrNaN_def lengthOf_def keysOf_def)

lemma rbind_total: "\<exists>a. m = Inr a \<Longrightarrow> (\<And>a. \<exists>b. f a = Inr b) \<Longrightarrow> \<exists>b. rbind m f = Inr b"
  by auto

lemma helper_total:
  assumes "\<And>w. depth w < depth v \<Longrightarrow> \<exists>j. toJSONValue h w = Inr j"
  shows "\<exists>j. toJSONValueHelper h v = Inr j"
proof (cases v)
  case (JObj kvs)
  have "\<exists>ws. rtraverse (\<lambda>(k, v). rbind (toJSONValue h v) (\<lambda>j. Inr (k, j))) kvs = Inr ws"
    using assms JObj depth_prop by (intro rtraverse_total) (fastforce simp del: depth.simps intro!: rbind_total)
  then show ?thesis using JObj by (auto simp: helper_obj)
qed (auto simp: helper_atom helper_num helper_special helper_oid helper_array)

lemma adjust_total:
  assumes "\<And>w. depth w \<le> depth v \<Longrightarrow> \<exists>j. toJSONValueHelper h w = Inr j"
    and "\<And>w. depth w < depth v \<Longrightarrow> \<exists>j. adjustTypesToJSONValue h w = Inr j"
  shows "\<exists>j. adjustTypesToJSONValue h v = Inr j"
proof -
  show ?thesis
  proof (cases v)
    case (JArr xs)
    have "\<exists>j. (if \<not> isObject w \<and> w \<noteq> JUndef \<and> \<not> isInfOrNaN w then Inr w
          else rbind (toJSONValueHelper h w) (\<lambda>changed.
            case changed of Some c \<Rightarrow> Inr c | None \<Rightarrow> adjustTypesToJSONValue h w)) = Inr j" if "w \<in> set xs" for w
      using assms(1) [of w] assms(2) [of w] that JArr depth_elem [OF that] by (auto simp del: depth.simps split: option.split)
    then show ?thesis using assms(1) [of v] JArr
      by (subst adjustTypesToJSONValue.simps) (auto intro!: rbind_total rtraverse_total simp del: depth.simps)
  next
    case (JObj kvs)
    have "\<exists>j. (case e of (key, w) \<Rightarrow> if \<not> isObject w \<and> w \<noteq> JUndef \<and> \<not> isInfOrNaN w then Inr (key, w)
          else rbind (toJSONValueHelper h w) (\<lambda>changed.
            case changed of Some c \<Rightarrow> Inr (key, c) | None \<Rightarrow> rbind (adjustTypesToJSONValue h w) (\<lambda>c. Inr (key, c)))) = Inr j"
      if "e \<in> set kvs" for e
      using assms(1) [of "snd e"] assms(2) [of "snd e"] that JObj depth_prop [of "fst e" "snd e" kvs]
      by (cases e) (auto simp del: depth.simps split: option.split)
    then show ?thesis using assms(1) [of v] JObj
      by (subst adjustTypesToJSONValue.simps) (auto intro!: rbind_total rtraverse_total simp del: depth.simps)
  qed (use assms(1) [of v] in \<open>subst adjustTypesToJSONValue.simps, auto\<close>)+
qed

lemma toJSONValue_total_upto:
  "depth v \<le> n \<Longrightarrow> \<exists>j. toJSONValue h v = Inr j"
proof (induction n arbitrary: v rule: less_induct)
  case (less n)
  have helper: "\<exists>j. toJSONValueHelper h w = Inr j" if "depth w \<le> n" for w
    using helper_total less.IH that by (meson order_le_less_trans order_refl less_le_trans)
  have adjust: "\<exists>j. adjustTypesToJSONValue h w = Inr j" if "depth w \<le> n" for w
    using that
  proof (induction w rule: measure_induct_rule [where f = depth])
    case (less w)
    show ?case
    proof (rule adjust_total)
      fix u assume "depth u \<le> depth w"
      then show "\<exists>j. toJSONValueHelper h u = Inr j" using helper less.prems by simp
    next
      fix u assume "depth u < depth w"
      then show "\<exists>j. adjustTypesToJSONValue h u = Inr j" using less by simp
    qed
  qed
  show ?case using helper [of v] adjust [of "ejson_clone h v"] depth_clone_le [of h v] less.prems
    by (subst toJSONValue.simps) (auto split: option.split)
qed

lemma stringify_total: "\<exists>t. ejson_stringify h canonical v = Inr t"
  using toJSONValue_total_upto [of v "depth v" h] by (auto simp: ejson_stringify_def)

section \<open>Properties\<close>

text \<open>A host with a trivial text convention, and a value that uses every kind of tag.\<close>

definition plain_host :: host where
  "plain_host = \<lparr>str_to_num = (\<lambda>_. NaN), num_to_str = (\<lambda>_. []), date_to_str = (\<lambda>_. []),
     date_to_iso = (\<lambda>_. []), regexp_valid = (\<lambda>_ _. True), regexp_source = (\<lambda>s. s)\<rparr>"

definition sample_value :: jsval where
  "sample_value = JObj
     [(''at'', JDate (Fin 1700000000000)), (''raw'', JBinary [1, 2, 255]),
      (''pattern'', JRegExp ''a+'' ''gi''), (''limits'', JArr [JNum Infinity, JNum NaN, JNum (Fin (1/2)), JNull]),
      (''query'', JObj [(''$date'', JStr ''not a date'')]),
      (''nested'', JObj [(''$escape'', JObj [(''$type'', JStr ''x''), (''$value'', JBool True)])])]"

lemma sample_value_safe: "wire_safe plain_host sample_value"
  by (simp add: sample_value_def plain_host_def reserved_key_def trunc_int_def)





end
