(* ===== verification/LiveWindow.thy ===== *)
theory LiveWindow
  imports Equality EjsonWire
begin

text \<open>
  Ordered live windows (\<open>src/mongodb/live/window.ts\<close>): validation of a server-owned window, the
  splice between two revisions of an ordered result, and its application on the other side.

  The two places where the code depends on values are parameters of the generic operations: \<open>eq\<close>
  is \<open>EJSON.equals\<close> and \<open>ident\<close> the canonical text of a document's \<open>_id\<close>. \<open>doc_equals\<close> and
  \<open>doc_ident\<close> are the instances the program uses. The locale \<open>document_equality\<close> states the laws
  the splice protocol relies on; it is interpreted on these instances.
\<close>

section \<open>Messages\<close>

datatype live_operation =
    Added jsval
  | Changed jsval
  | Removed jsval
  | WindowSplice (sp_index: jsnum) (sp_deleteCount: jsnum) (sp_documents: "jsval list")

section \<open>Window validation\<close>

record live_window_input =
  wi_sort :: "(string \<times> jsval) list"
  wi_skip :: "jsnum option"
  wi_limit :: jsnum

record live_window =
  w_sort :: "(string \<times> int) list"
  w_skip :: nat
  w_limit :: nat

definition bad_sort_field :: "string \<Rightarrow> bool" where
  "bad_sort_field field \<longleftrightarrow>
     length field = 0 \<or> field = ''_id'' \<or> take 1 field = ''$'' \<or> CHR ''.'' \<in> set field"

definition direction_of :: "jsval \<Rightarrow> int option" where
  "direction_of d = (if d = jint 1 then Some 1 else if d = jint (-1) then Some (-1) else None)"

fun sort_fields :: "string list \<Rightarrow> (string \<times> int) list \<Rightarrow> (string \<times> jsval) list \<Rightarrow> (string \<times> int) list js" where
  "sort_fields seen spec [] = Inr spec"
| "sort_fields seen spec ((field, direction) # entries) =
     (if bad_sort_field field
      then Inl (Error ''MongoDB live ordered window sort fields must be unique top-level fields other than _id.'')
      else if field \<in> set seen
      then Inl (Error (''MongoDB live ordered window sort field '' @ field @ '' is duplicated.''))
      else case direction_of direction of
        None \<Rightarrow> Inl (Error (''MongoDB live ordered window sort direction for '' @ field @ '' must be 1 or -1.''))
      | Some d \<Rightarrow> sort_fields (js_add field seen) (spec @ [(field, d)]) entries)"

definition num_nat :: "jsnum \<Rightarrow> nat" where
  "num_nat n = (case n of Fin q \<Rightarrow> nat \<lfloor>q\<rfloor> | _ \<Rightarrow> 0)"

definition normalizeMongoLiveWindow :: "live_window_input \<Rightarrow> nat \<Rightarrow> nat \<Rightarrow> live_window js" where
  "normalizeMongoLiveWindow window maxDocuments maxSkip =
     (if length (wi_sort window) = 0
      then Inl (Error ''MongoDB live ordered windows require at least one sort field.'')
      else if \<not> is_safe_integer (wi_limit window) \<or> num_less (wi_limit window) (Fin 1)
      then Inl (Error ''MongoDB live ordered window limit must be a positive integer.'')
      else if num_less (Fin (of_nat maxDocuments)) (wi_limit window)
      then Inl (Error (''MongoDB live ordered window limit exceeds '' @ nat_digits maxDocuments @ '' documents.''))
      else
        (let skip = (case wi_skip window of None \<Rightarrow> Fin 0 | Some s \<Rightarrow> s) in
         if \<not> is_safe_integer skip \<or> num_less skip (Fin 0)
         then Inl (Error ''MongoDB live ordered window skip must be a non-negative integer.'')
         else if num_less (Fin (of_nat maxSkip)) skip
         then Inl (Error (''MongoDB live ordered window skip exceeds '' @ nat_digits maxSkip @ '' documents.''))
         else rbind (sort_fields [] [] (wi_sort window)) (\<lambda>spec.
           Inr \<lparr>w_sort = spec @ [(''_id'', 1)], w_skip = num_nat skip, w_limit = num_nat (wi_limit window)\<rparr>)))"

section \<open>Splices\<close>

definition canonicalId :: "host \<Rightarrow> jsval \<Rightarrow> jsval option" where
  "canonicalId h i = (case ejson_stringify h True i of Inl _ \<Rightarrow> None | Inr text \<Rightarrow> text)"

definition doc_ident :: "host \<Rightarrow> jsval \<Rightarrow> jsval option" where
  "doc_ident h document = canonicalId h (get_prop document ''_id'')"

definition doc_equals :: "(string \<Rightarrow> jsval \<Rightarrow> bool) \<Rightarrow> jsval \<Rightarrow> jsval \<Rightarrow> bool" where
  "doc_equals oid = equals oid False"

fun unique_identities :: "('d \<Rightarrow> 'i) \<Rightarrow> 'i list \<Rightarrow> 'd list \<Rightarrow> bool" where
  "unique_identities ident identities [] = True"
| "unique_identities ident identities (document # rest) =
     (if ident document \<in> set identities then False
      else unique_identities ident (js_add (ident document) identities) rest)"

definition splice :: "'a list \<Rightarrow> nat \<Rightarrow> nat \<Rightarrow> 'a list \<Rightarrow> 'a list" where
  "splice xs start deleteCount items = take start xs @ items @ drop (start + deleteCount) xs"

definition applyMongoLiveWindowSplice ::
  "(jsval \<Rightarrow> 'i) \<Rightarrow> jsval list \<Rightarrow> jsnum \<Rightarrow> jsnum \<Rightarrow> jsval list \<Rightarrow> jsval list option" where
  "applyMongoLiveWindowSplice ident previous index deleteCount documents =
     (if \<not> is_safe_integer index \<or> \<not> is_safe_integer deleteCount \<or>
         num_less index (Fin 0) \<or> num_less deleteCount (Fin 0) \<or>
         num_nat index > length previous \<or> num_nat index + num_nat deleteCount > length previous
      then None
      else
        (let current = splice previous (num_nat index) (num_nat deleteCount) documents
         in if unique_identities ident [] current then Some current else None))"

function prefix_loop :: "('a \<Rightarrow> 'a \<Rightarrow> bool) \<Rightarrow> 'a list \<Rightarrow> 'a list \<Rightarrow> nat \<Rightarrow> nat" where
  "prefix_loop eq previous current prefix =
     (if prefix < length previous \<and> prefix < length current \<and> eq (previous ! prefix) (current ! prefix)
      then prefix_loop eq previous current (prefix + 1) else prefix)"
  by pat_completeness auto
termination by (relation "measure (\<lambda>(eq, previous, current, prefix). length previous - prefix)") auto

function suffix_loop :: "('a \<Rightarrow> 'a \<Rightarrow> bool) \<Rightarrow> 'a list \<Rightarrow> 'a list \<Rightarrow> nat \<Rightarrow> nat \<Rightarrow> nat" where
  "suffix_loop eq previous current prefix suffix =
     (if suffix < length previous - prefix \<and> suffix < length current - prefix
         \<and> eq (previous ! (length previous - 1 - suffix)) (current ! (length current - 1 - suffix))
      then suffix_loop eq previous current prefix (suffix + 1) else suffix)"
  by pat_completeness auto
termination by (relation "measure (\<lambda>(eq, previous, current, prefix, suffix). length previous - suffix)") auto

declare prefix_loop.simps [simp del] suffix_loop.simps [simp del]

text \<open>
  The inserted documents are the very objects of \<open>current\<close>, so the final self-check, which compares
  the spliced result with \<open>current\<close>, returns at its identity test on them; it compares the
  documents kept from \<open>previous\<close>.
\<close>

definition splice_check :: "('a \<Rightarrow> 'a \<Rightarrow> bool) \<Rightarrow> 'a list \<Rightarrow> 'a list \<Rightarrow> nat \<Rightarrow> nat \<Rightarrow> bool" where
  "splice_check eq applied current start inserted \<longleftrightarrow>
     length applied = length current \<and>
     list_all (\<lambda>i. (start \<le> i \<and> i < start + inserted) \<or> eq (applied ! i) (current ! i)) [0..<length applied]"

definition createMongoLiveWindowSplice ::
  "(jsval \<Rightarrow> jsval \<Rightarrow> bool) \<Rightarrow> (jsval \<Rightarrow> 'i) \<Rightarrow> jsval list \<Rightarrow> jsval list \<Rightarrow> live_operation option js" where
  "createMongoLiveWindowSplice eq ident previous current =
     (let prefix = prefix_loop eq previous current 0 in
      if prefix = length previous \<and> prefix = length current then Inr None
      else
        (let suffix = suffix_loop eq previous current prefix 0;
             index = Fin (of_nat prefix);
             deleteCount = Fin (of_nat (length previous - prefix - suffix));
             documents = take (length current - suffix - prefix) (drop prefix current)
         in case applyMongoLiveWindowSplice ident previous index deleteCount documents of
              None \<Rightarrow> Inl (Error ''MongoDB live ordered window splice invariant failed.'')
            | Some applied \<Rightarrow>
                if splice_check eq applied current prefix (length documents)
                then Inr (Some (WindowSplice index deleteCount documents))
                else Inl (Error ''MongoDB live ordered window splice invariant failed.'')))"


section \<open>The loops\<close>

lemma prefix_loop_spec:
  assumes "p \<le> length previous" "p \<le> length current" "\<forall>i < p. eq (previous ! i) (current ! i)"
  shows "prefix_loop eq previous current p \<le> length previous \<and> prefix_loop eq previous current p \<le> length current \<and>
    (\<forall>i < prefix_loop eq previous current p. eq (previous ! i) (current ! i))"
  using assms
proof (induction eq previous current p rule: prefix_loop.induct)
  case (1 eq previous current p)
  show ?case
  proof (cases "p < length previous \<and> p < length current \<and> eq (previous ! p) (current ! p)")
    case True
    then have "\<forall>i < p + 1. eq (previous ! i) (current ! i)" using "1.prems"(3) by (auto simp: less_Suc_eq)
    then show ?thesis using "1.IH" [OF True] True by (subst (1 2 3) prefix_loop.simps) simp
  next
    case False
    then show ?thesis using "1.prems" by (subst (1 2 3) prefix_loop.simps) auto
  qed
qed

lemma suffix_loop_spec:
  assumes "s \<le> length previous - p" "s \<le> length current - p" "p \<le> length previous" "p \<le> length current"
    and "\<forall>i < s. eq (previous ! (length previous - 1 - i)) (current ! (length current - 1 - i))"
  shows "suffix_loop eq previous current p s \<le> length previous - p \<and> suffix_loop eq previous current p s \<le> length current - p \<and>
    (\<forall>i < suffix_loop eq previous current p s. eq (previous ! (length previous - 1 - i)) (current ! (length current - 1 - i)))"
  using assms
proof (induction eq previous current p s rule: suffix_loop.induct)
  case (1 eq previous current p s)
  show ?case
  proof (cases "s < length previous - p \<and> s < length current - p
         \<and> eq (previous ! (length previous - 1 - s)) (current ! (length current - 1 - s))")
    case True
    then have "\<forall>i < s + 1. eq (previous ! (length previous - 1 - i)) (current ! (length current - 1 - i))"
      using "1.prems"(5) by (auto simp: less_Suc_eq)
    then show ?thesis using "1.IH" [OF True] True "1.prems" by (subst (1 2 3) suffix_loop.simps) simp
  next
    case False
    then show ?thesis using "1.prems" by (subst (1 2 3) suffix_loop.simps) auto
  qed
qed

lemma unique_identities_iff:
  "unique_identities ident seen docs \<longleftrightarrow> distinct (map ident docs) \<and> set (map ident docs) \<inter> set seen = {}"
  by (induction docs arbitrary: seen) auto

lemma apply_in_range:
  assumes "i + d \<le> length xs" "int (length xs) \<le> max_safe_integer"
  shows "applyMongoLiveWindowSplice ident xs (Fin (of_nat i)) (Fin (of_nat d)) docs =
     (if distinct (map ident (splice xs i d docs)) then Some (splice xs i d docs) else None)"
proof -
  have "is_safe_integer (Fin (of_nat n))" if "n \<le> length xs" for n
  proof -
    have "(of_nat n :: rat) \<le> of_int max_safe_integer"
      using that assms(2) by (metis of_int_le_iff of_int_of_nat_eq of_nat_mono order_trans)
    then show ?thesis by simp
  qed
  then show ?thesis using assms(1)
    by (simp add: applyMongoLiveWindowSplice_def num_nat_def unique_identities_iff Let_def)
qed


lemma splice_index:
  assumes "s \<le> lp - p" "s \<le> lc - p" "lc - s \<le> i" "i < lc" "p \<le> lp" "p \<le> lc"
  shows "p + (lp - p - s) + (i - (lc - s)) = lp - 1 - (lc - 1 - (i :: nat))"
proof -
  have "p + s \<le> lp" "p + s \<le> lc" using assms by simp_all
  then obtain a b where "lp = p + s + a" "lc = p + s + b" by (metis le_Suc_ex)
  moreover from this obtain j where "i = p + b + j" using assms(3) by (metis add_diff_cancel_right' le_Suc_ex add.assoc add.commute)
  ultimately show ?thesis using assms(4) by simp
qed

section \<open>The contract of the splice protocol\<close>

locale document_equality =
  fixes eq :: "jsval \<Rightarrow> jsval \<Rightarrow> bool"
    and ident :: "jsval \<Rightarrow> 'i"
    and valid :: "jsval \<Rightarrow> bool"
  assumes eq_refl: "valid a \<Longrightarrow> eq a a"
    and eq_sym: "valid a \<Longrightarrow> valid b \<Longrightarrow> eq a b \<Longrightarrow> eq b a"
    and eq_trans: "valid a \<Longrightarrow> valid b \<Longrightarrow> valid c \<Longrightarrow> eq a b \<Longrightarrow> eq b c \<Longrightarrow> eq a c"
    and eq_ident: "valid a \<Longrightarrow> valid b \<Longrightarrow> eq a b \<Longrightarrow> ident a = ident b"
begin

lemma same_identities:
  "list_all2 eq xs ys \<Longrightarrow> list_all valid xs \<Longrightarrow> list_all valid ys \<Longrightarrow> map ident xs = map ident ys"
  by (induction xs ys rule: list_all2_induct) (auto intro: eq_ident)

lemma splice_agrees:
  assumes agree: "list_all2 eq client previous"
    and valid: "list_all valid client" "list_all valid previous" "list_all valid current"
    and pre: "p \<le> length previous" "p \<le> length current" "\<forall>i < p. eq (previous ! i) (current ! i)"
    and suf: "s \<le> length previous - p" "s \<le> length current - p"
      "\<forall>i < s. eq (previous ! (length previous - 1 - i)) (current ! (length current - 1 - i))"
  shows "list_all2 eq (splice client p (length previous - p - s) (take (length current - s - p) (drop p current))) current"
proof (rule list_all2_all_nthI)
  let ?docs = "take (length current - s - p) (drop p current)"
  let ?r = "splice client p (length previous - p - s) ?docs"
  have len: "length client = length previous" using agree by (rule list_all2_lengthD)
  show lr: "length ?r = length current" using len pre suf by (simp add: splice_def)
  fix i assume "i < length ?r"
  then have i: "i < length current" using lr by simp
  have v: "valid (xs ! j)" if "list_all valid xs" "j < length xs" for xs j
    using that by (simp add: list_all_length)
  have via: "eq (client ! j) (current ! k)"
    if "j < length previous" "k < length current" "eq (previous ! j) (current ! k)" for j k
    using eq_trans [of "client ! j" "previous ! j" "current ! k"] that v valid agree len
    by (auto simp: list_all2_conv_all_nth)
  consider "i < p" | "p \<le> i" "i < length current - s" | "length current - s \<le> i" by linarith
  then show "eq (?r ! i) (current ! i)"
  proof cases
    case 1
    then have "?r ! i = client ! i" using len pre by (simp add: splice_def nth_append)
    then show ?thesis using via 1 pre i by simp
  next
    case 2
    then have "i - p < length current - (s + p)" by arith
    then have "?r ! i = current ! i" using 2 len pre suf by (simp add: splice_def nth_append)
    then show ?thesis using eq_refl v valid i by simp
  next
    case 3
    let ?k = "length current - 1 - i"
    have k: "?k < s" "i = length current - 1 - ?k" using 3 i by linarith+
    have l: "length (take p client @ ?docs) = length current - s" using len pre suf by simp
    have "?r ! i = drop (p + (length previous - p - s)) client ! (i - (length current - s))"
      unfolding splice_def append_assoc [symmetric] nth_append l using 3 by simp
    moreover have "p + (length previous - p - s) + (i - (length current - s)) = length previous - 1 - ?k"
      using splice_index [OF suf(1,2) 3 i pre(1,2)] .
    ultimately have "?r ! i = client ! (length previous - 1 - ?k)" using len pre suf by simp
    then show ?thesis using via [of "length previous - 1 - ?k" i] suf k i by auto
  qed
qed

lemma create_decides:
  assumes "list_all valid previous" "list_all valid current" "distinct (map ident current)"
    and bound: "int (length previous) \<le> max_safe_integer"
  shows "(createMongoLiveWindowSplice eq ident previous current = Inr None \<and> list_all2 eq previous current) \<or>
     (\<exists>p s. createMongoLiveWindowSplice eq ident previous current =
          Inr (Some (WindowSplice (Fin (of_nat p)) (Fin (of_nat (length previous - p - s)))
            (take (length current - s - p) (drop p current)))) \<and>
        p \<le> length previous \<and> p \<le> length current \<and> (\<forall>i < p. eq (previous ! i) (current ! i)) \<and>
        s \<le> length previous - p \<and> s \<le> length current - p \<and>
        (\<forall>i < s. eq (previous ! (length previous - 1 - i)) (current ! (length current - 1 - i))))"
proof -
  define p where "p = prefix_loop eq previous current 0"
  define s where "s = suffix_loop eq previous current p 0"
  have P: "p \<le> length previous" "p \<le> length current" "\<forall>i < p. eq (previous ! i) (current ! i)"
    using prefix_loop_spec [of 0 previous current eq] by (simp_all add: p_def)
  have S: "s \<le> length previous - p" "s \<le> length current - p"
    "\<forall>i < s. eq (previous ! (length previous - 1 - i)) (current ! (length current - 1 - i))"
    using suffix_loop_spec [of 0 previous p current eq] P by (simp_all add: s_def)
  let ?docs = "take (length current - s - p) (drop p current)"
  let ?r = "splice previous p (length previous - p - s) ?docs"
  have agree: "list_all2 eq ?r current"
    using splice_agrees [of previous previous current p s] assms(1,2) P S eq_refl
    by (simp add: list_all2_conv_all_nth list_all_length)
  show ?thesis
  proof (cases "p = length previous \<and> p = length current")
    case True
    then show ?thesis using P by (auto simp: createMongoLiveWindowSplice_def p_def [symmetric] list_all2_conv_all_nth)
  next
    case False
    have "list_all valid ?r"
      using assms(1,2) by (auto simp: splice_def list_all_iff dest!: in_set_takeD in_set_dropD)
    then have "distinct (map ident ?r)" using same_identities [OF agree] assms by simp
    then have "applyMongoLiveWindowSplice ident previous (Fin (of_nat p)) (Fin (of_nat (length previous - p - s))) ?docs = Some ?r"
      using apply_in_range [of p "length previous - p - s" previous ident ?docs] bound P S by simp
    moreover have "splice_check eq ?r current p (length ?docs)"
      using agree by (simp add: splice_check_def list_all2_conv_all_nth list_all_iff)
    ultimately have "createMongoLiveWindowSplice eq ident previous current =
        Inr (Some (WindowSplice (Fin (of_nat p)) (Fin (of_nat (length previous - p - s))) ?docs))"
      using False by (simp add: createMongoLiveWindowSplice_def p_def [symmetric] s_def [symmetric] Let_def)
    then show ?thesis using P S by blast
  qed
qed

lemma splice_simulates:
  assumes "list_all2 eq client previous" "list_all valid client" "list_all valid previous" "list_all valid current"
    and "distinct (map ident current)" "int (length previous) \<le> max_safe_integer"
    and "createMongoLiveWindowSplice eq ident previous current = Inr (Some (WindowSplice i d docs))"
  shows "\<exists>client'. applyMongoLiveWindowSplice ident client i d docs = Some client' \<and>
     list_all2 eq client' current \<and> list_all valid client'"
proof -
  obtain p s where ps: "i = Fin (of_nat p)" "d = Fin (of_nat (length previous - p - s))"
      "docs = take (length current - s - p) (drop p current)"
      "p \<le> length previous" "p \<le> length current" "\<forall>i < p. eq (previous ! i) (current ! i)"
      "s \<le> length previous - p" "s \<le> length current - p"
      "\<forall>i < s. eq (previous ! (length previous - 1 - i)) (current ! (length current - 1 - i))"
    using create_decides [OF assms(3-6)] assms(7) by auto
  let ?r = "splice client p (length previous - p - s) docs"
  have len: "length client = length previous" using assms(1) by (rule list_all2_lengthD)
  have agree: "list_all2 eq ?r current"
    using splice_agrees [OF assms(1-4) ps(4-9)] ps(3) by simp
  have v: "list_all valid ?r"
    using assms(2,4) ps(3) by (auto simp: splice_def list_all_iff dest!: in_set_takeD in_set_dropD)
  then have "distinct (map ident ?r)" using same_identities [OF agree] assms by simp
  then have "applyMongoLiveWindowSplice ident client i d docs = Some ?r"
    using apply_in_range [of p "length previous - p - s" client ident docs] len assms(6) ps by simp
  then show ?thesis using agree v by blast
qed

end


section \<open>The documents of a live publication\<close>

fun live_id :: "jsval \<Rightarrow> bool" where
  "live_id (JStr s) = True"
| "live_id (JNum n) = True"
| "live_id (JObj [(k, JStr hex)]) = (k = ''$objectId'')"
| "live_id _ = False"

definition live_doc :: "jsval \<Rightarrow> bool" where
  "live_doc d \<longleftrightarrow> diff_safe d \<and> (case d of JObj kvs \<Rightarrow> jm_has kvs ''_id'' \<and> live_id (obj_get kvs ''_id'') | _ \<Rightarrow> False)"

lemma live_id_equals:
  assumes "live_id a" "live_id b" "equals oid False a b"
  shows "a = b"
proof (cases "isObjectRecord a \<and> isObjectRecord b")
  case True
  then obtain x y where "a = JObj [(''$objectId'', JStr x)]" "b = JObj [(''$objectId'', JStr y)]"
    using assms(1,2) by (auto elim!: live_id.elims simp: isObjectRecord_def)
  then show ?thesis using assms(3) equals_atom [of "JStr x" "JStr y" oid False]
    by (auto simp: equals_obj isObjectRecord_def)
next
  case False
  then show ?thesis using assms(3) equals_atom by blast
qed

lemma live_doc_ident:
  assumes "live_doc a" "live_doc b" "doc_equals oid a b"
  shows "doc_ident h a = doc_ident h b"
proof -
  obtain x y where xy: "a = JObj x" "b = JObj y" using assms(1,2) by (auto simp: live_doc_def split: jsval.splits)
  obtain i j where ij: "map_of x ''_id'' = Some i" "map_of y ''_id'' = Some j" "live_id i" "live_id j"
    using assms(1,2) xy by (auto simp: live_doc_def jm_has_def obj_get_def)
  have "distinct (map fst x)" "distinct (map fst y)" using assms(1,2) xy by (auto simp: live_doc_def)
  then have "equals oid False i j" using assms(3) xy ij by (auto simp: doc_equals_def equals_obj)
  then have "i = j" using live_id_equals ij by blast
  then show ?thesis using xy ij by (simp add: doc_ident_def obj_get_def)
qed

interpretation live_docs: document_equality "doc_equals oid" "doc_ident h" live_doc
  for oid :: "string \<Rightarrow> jsval \<Rightarrow> bool" and h :: host
proof unfold_locales
  show "live_doc a \<Longrightarrow> doc_equals oid a a" for a
    by (simp add: live_doc_def doc_equals_def equals_refl)
  show "live_doc a \<Longrightarrow> live_doc b \<Longrightarrow> doc_equals oid a b \<Longrightarrow> doc_equals oid b a" for a b
    by (simp add: live_doc_def doc_equals_def equals_sym)
  show "live_doc a \<Longrightarrow> live_doc b \<Longrightarrow> live_doc c \<Longrightarrow> doc_equals oid a b \<Longrightarrow> doc_equals oid b c \<Longrightarrow> doc_equals oid a c" for a b c
    unfolding live_doc_def doc_equals_def using equals_trans by blast
qed (rule live_doc_ident)

section \<open>Properties\<close>

lemma sort_fields_safe:
  assumes "sort_fields seen acc entries = Inr spec" "set (map fst acc) \<subseteq> set seen"
    and "distinct (map fst acc)" "\<forall>(f, d) \<in> set acc. \<not> bad_sort_field f \<and> d \<in> {1, -1}"
  shows "distinct (map fst spec) \<and> (\<forall>(f, d) \<in> set spec. \<not> bad_sort_field f \<and> d \<in> {1, -1})
    \<and> map fst spec = map fst acc @ map fst entries"
  using assms
proof (induction seen acc entries rule: sort_fields.induct)
  case (2 seen acc field direction entries)
  then obtain d where d: "\<not> bad_sort_field field" "field \<notin> set seen" "direction_of direction = Some d"
      "sort_fields (js_add field seen) (acc @ [(field, d)]) entries = Inr spec"
    by (auto split: if_splits option.splits)
  have "d \<in> {1, -1}" using d(3) by (auto simp: direction_of_def split: if_splits)
  then show ?case using "2.IH" [OF d(1,2,3) d(4)] "2.prems"(2-4) d(1,2) by auto
qed auto

text \<open>
  Window validation is sound: an accepted window has a positive limit within the document
  capacity, a skip within its bound, and a total sort order made of the requested fields in order,
  without duplicates, path fields or operators, closed by the \<open>_id\<close> tie-breaker.
\<close>

theorem normalize_window_sound:
  assumes "normalizeMongoLiveWindow window maxDocuments maxSkip = Inr w"
  shows "1 \<le> w_limit w \<and> w_limit w \<le> maxDocuments \<and> w_skip w \<le> maxSkip \<and>
    map fst (w_sort w) = map fst (wi_sort window) @ [''_id''] \<and> distinct (map fst (w_sort w)) \<and>
    wi_sort window \<noteq> [] \<and> (\<forall>(f, d) \<in> set (w_sort w). d \<in> {1, -1})"
proof -
  obtain spec l k where s: "sort_fields [] [] (wi_sort window) = Inr spec" "wi_sort window \<noteq> []"
      and w: "w = \<lparr>w_sort = spec @ [(''_id'', 1)], w_skip = nat k, w_limit = nat l\<rparr>"
      and l: "1 \<le> l" "rat_of_int l \<le> of_nat maxDocuments"
      and k: "0 \<le> k" "rat_of_int k \<le> of_nat maxSkip"
    using assms
    by (cases "wi_limit window"; cases "case wi_skip window of None \<Rightarrow> Fin 0 | Some s \<Rightarrow> s")
      (auto simp: normalizeMongoLiveWindow_def Let_def rbind_eq_Inr num_nat_def not_less split: if_splits)
  have spec: "distinct (map fst spec)" "\<forall>(f, d) \<in> set spec. \<not> bad_sort_field f \<and> d \<in> {1, -1}"
      "map fst spec = map fst (wi_sort window)"
    using sort_fields_safe [OF s(1)] by auto
  have "''_id'' \<notin> set (map fst spec)" using spec(2) by (auto simp: bad_sort_field_def)
  then have "''_id'' \<notin> set (map fst (wi_sort window))" using spec(3) by simp
  moreover have "1 \<le> nat l" "nat l \<le> maxDocuments" "nat k \<le> maxSkip"
    using l k by linarith+
  moreover have "\<forall>(f, d) \<in> set (spec @ [(''_id'', 1)]). d \<in> {1, -1 :: int}" using spec(2) by auto
  ultimately show ?thesis using spec(1,3) s(2) w by simp
qed

definition sample_window :: live_window_input where
  "sample_window = \<lparr>wi_sort = [(''score'', jint (-1)), (''name'', jint 1)], wi_skip = None, wi_limit = Fin 10\<rparr>"

theorem normalize_window_sound_witness:
  "\<exists>w. normalizeMongoLiveWindow sample_window 100 50 = Inr w \<and> w_limit w \<le> 100 \<and> distinct (map fst (w_sort w))"
proof -
  have "normalizeMongoLiveWindow sample_window 100 50 =
      Inr \<lparr>w_sort = [(''score'', -1), (''name'', 1), (''_id'', 1)], w_skip = 0, w_limit = 10\<rparr>"
    by (simp add: normalizeMongoLiveWindow_def sample_window_def bad_sort_field_def direction_of_def num_nat_def
        max_safe_integer_def)
  then show ?thesis using normalize_window_sound by blast
qed


lemma canonicalId_str: "canonicalId h (JStr s) = Some (JStr s)"
  using toJSONValue_safe [of h "JStr s"] by (simp add: canonicalId_def ejson_stringify_def)

lemma list_all2_live_trans:
  assumes "list_all2 (doc_equals oid) xs ys" "list_all2 (doc_equals oid) ys zs"
    and "list_all live_doc xs" "list_all live_doc ys" "list_all live_doc zs"
  shows "list_all2 (doc_equals oid) xs zs"
  using assms live_docs.eq_trans [of _ _ _ oid]
  by (auto simp: list_all2_conv_all_nth list_all_length)

lemma window_splice_ok:
  assumes "list_all2 (doc_equals oid) client previous"
    and "list_all live_doc client" "list_all live_doc previous" "list_all live_doc current"
    and "distinct (map (doc_ident h) current)" "int (length previous) \<le> max_safe_integer"
  shows "case createMongoLiveWindowSplice (doc_equals oid) (doc_ident h) previous current of
      Inr None \<Rightarrow> list_all2 (doc_equals oid) client current
    | Inr (Some (WindowSplice index deleteCount documents)) \<Rightarrow>
        (\<exists>client'. applyMongoLiveWindowSplice (doc_ident h) client index deleteCount documents = Some client' \<and>
           list_all2 (doc_equals oid) client' current \<and> list_all live_doc client')
    | _ \<Rightarrow> False"
proof (cases "createMongoLiveWindowSplice (doc_equals oid) (doc_ident h) previous current = Inr None")
  case True
  then show ?thesis
    using live_docs.create_decides [OF assms(3-6), of oid] list_all2_live_trans [OF assms(1) _ assms(2,3,4)] by auto
next
  case False
  then obtain i d docs where c: "createMongoLiveWindowSplice (doc_equals oid) (doc_ident h) previous current =
      Inr (Some (WindowSplice i d docs))"
    using live_docs.create_decides [OF assms(3-6), of oid] by auto
  then show ?thesis using live_docs.splice_simulates [OF assms c] by auto
qed

text \<open>
  C2: The splice protocol converges. Whenever a client's ordered documents equal the server's
  previous revision, the server's splice computation succeeds on the next revision (its internal
  invariant check never fires), and the client either needs no message or applies the splice
  successfully and then equals the new revision.
\<close>

theorem window_splice_converges:
  assumes "list_all2 (doc_equals oid) client previous"
    and "list_all live_doc client" "list_all live_doc previous" "list_all live_doc current"
    and "distinct (map (doc_ident h) current)" "int (length previous) \<le> max_safe_integer"
  shows "case createMongoLiveWindowSplice (doc_equals oid) (doc_ident h) previous current of
      Inr None \<Rightarrow> list_all2 (doc_equals oid) client current
    | Inr (Some (WindowSplice index deleteCount documents)) \<Rightarrow>
        (\<exists>client'. applyMongoLiveWindowSplice (doc_ident h) client index deleteCount documents = Some client' \<and>
           list_all2 (doc_equals oid) client' current)
    | _ \<Rightarrow> False"
  using window_splice_ok [OF assms]
  by (auto split: sum.splits option.splits live_operation.splits)

definition note_doc :: "string \<Rightarrow> string \<Rightarrow> jsval" where
  "note_doc i text = JObj [(''_id'', JStr i), (''text'', JStr text)]"

lemma note_doc_facts [simp]:
  "live_doc (note_doc i text)" "doc_ident h (note_doc i text) = Some (JStr i)"
  "doc_equals oid (note_doc i text) (note_doc j text') \<longleftrightarrow> i = j \<and> text = text'"
  using equals_atom [of "JStr _" "JStr _" oid False]
  by (auto simp: note_doc_def live_doc_def jm_has_def obj_get_def doc_ident_def canonicalId_str doc_equals_def
      equals_obj isObjectRecord_def split: if_splits)

theorem window_splice_converges_witness:
  "case createMongoLiveWindowSplice (doc_equals noid) (doc_ident plain_host)
       [note_doc ''a'' ''x'', note_doc ''b'' ''y''] [note_doc ''a'' ''x'', note_doc ''c'' ''z'', note_doc ''b'' ''y''] of
      Inr (Some (WindowSplice i d docs)) \<Rightarrow>
        (\<exists>client'. applyMongoLiveWindowSplice (doc_ident plain_host) [note_doc ''a'' ''x'', note_doc ''b'' ''y''] i d docs = Some client'
           \<and> list_all2 (doc_equals noid) client' [note_doc ''a'' ''x'', note_doc ''c'' ''z'', note_doc ''b'' ''y''])
    | _ \<Rightarrow> False"
proof -
  let ?old = "[note_doc ''a'' ''x'', note_doc ''b'' ''y'']"
  let ?new = "[note_doc ''a'' ''x'', note_doc ''c'' ''z'', note_doc ''b'' ''y'']"
  have ne: "createMongoLiveWindowSplice (doc_equals noid) (doc_ident plain_host) ?old ?new \<noteq> Inr None"
    by (simp add: createMongoLiveWindowSplice_def prefix_loop.simps Let_def split: option.splits)
  show ?thesis
    using ne window_splice_converges [of noid ?old ?old ?new plain_host]
    by (auto simp: max_safe_integer_def split: sum.splits option.splits live_operation.splits)
qed

end
