(* ===== verification/LiveClient.thy ===== *)
theory LiveClient
  imports LiveWindow
begin

text \<open>
  The client side of a live query (\<open>src/mongodb/live/client.ts\<close>): \<open>MongoLiveView\<close> as a record and
  its methods as functions on it. A method that talks to the server returns the remote calls it
  issues beside the new view. Promises are numbers: \<open>startPromise\<close> and \<open>resyncPromise\<close> hold the
  pending call, a reply is a step of its own (\<open>subscribe_reply\<close>, \<open>resync_reply\<close>), and so is the
  \<open>finally\<close> handler that clears the field (\<open>settle_start\<close>, \<open>settle_resync\<close>).
\<close>

section \<open>State\<close>

record live_delta =
  d_subscriptionId :: string
  d_generation :: string
  d_sequence :: nat
  d_operations :: "live_operation list"

datatype live_event = LiveDelta live_delta | ResyncRequired string string

record live_snapshot =
  s_subscriptionId :: string
  s_generation :: string
  s_sequence :: nat
  s_ordered :: "bool option"
  s_documents :: "jsval list"

datatype view_status = Connecting | Ready | Resyncing | Stopped | Failed string

datatype live_call =
    CallSubscribe nat nat
  | CallResync nat nat string
  | CallUnsubscribe

record live_view =
  v_subscriptionId :: string
  v_documents :: "(jsval option, jsval) jsmap"
  v_listeners :: "nat list"
  v_notified :: nat
  v_bufferedDeltas :: "live_delta list"
  v_generation :: "string option"
  v_sequence :: nat
  v_stopped :: bool
  v_startPromise :: "nat option"
  v_resyncPromise :: "nat option"
  v_resyncAfter :: "nat list"
  v_nextCall :: nat
  v_connectionEpoch :: nat
  v_ordered :: bool
  v_orderedDocuments :: "jsval list"
  v_status :: view_status
  v_visible :: "jsval list"

definition MAX_EARLY_DELTAS :: nat where
  "MAX_EARLY_DELTAS = 1000"

definition new_view :: "string \<Rightarrow> live_view" where
  "new_view sid = \<lparr>v_subscriptionId = sid, v_documents = [], v_listeners = [], v_notified = 0,
     v_bufferedDeltas = [], v_generation = None, v_sequence = 0, v_stopped = False,
     v_startPromise = None, v_resyncPromise = None, v_resyncAfter = [], v_nextCall = 0,
     v_connectionEpoch = 0, v_ordered = False, v_orderedDocuments = [], v_status = Connecting, v_visible = []\<rparr>"

text \<open>\<open>!this.generation\<close> holds of \<open>null\<close> and of the empty string.\<close>

definition no_generation :: "live_view \<Rightarrow> bool" where
  "no_generation v \<longleftrightarrow> v_generation v = None \<or> v_generation v = Some []"

section \<open>Snapshots and listeners\<close>

definition currentDocuments :: "live_view \<Rightarrow> jsval list" where
  "currentDocuments v = (if v_ordered v then v_orderedDocuments v else jm_values (v_documents v))"

definition notify :: "live_view \<Rightarrow> live_view" where
  "notify v = v\<lparr>v_notified := v_notified v + length (v_listeners v)\<rparr>"

definition updateSnapshot :: "view_status \<Rightarrow> live_view \<Rightarrow> live_view" where
  "updateSnapshot status v = notify (v\<lparr>v_status := status, v_visible := currentDocuments v\<rparr>)"

definition fail :: "string \<Rightarrow> live_view \<Rightarrow> live_view" where
  "fail error v = notify (v\<lparr>v_status := Failed error, v_visible := currentDocuments v\<rparr>)"

definition subscribe_listener :: "nat \<Rightarrow> live_view \<Rightarrow> live_view" where
  "subscribe_listener l v = v\<lparr>v_listeners := js_add l (v_listeners v)\<rparr>"

definition unsubscribe_listener :: "nat \<Rightarrow> live_view \<Rightarrow> live_view" where
  "unsubscribe_listener l v = v\<lparr>v_listeners := js_remove l (v_listeners v)\<rparr>"

section \<open>Starting and resynchronizing\<close>

definition start_view :: "live_view \<Rightarrow> live_view \<times> live_call list" where
  "start_view v =
     (if v_stopped v then (v, [])
      else if v_startPromise v = None
        then (let c = v_nextCall v; v' = updateSnapshot Connecting v
              in (v'\<lparr>v_startPromise := Some c, v_nextCall := c + 1\<rparr>, [CallSubscribe c (v_connectionEpoch v)]))
      else (v, []))"

definition resync_view :: "live_view \<Rightarrow> live_view \<times> live_call list" where
  "resync_view v =
     (if v_stopped v then (v, [])
      else if no_generation v then start_view v
      else if v_resyncPromise v = None
        then (let c = v_nextCall v; v' = updateSnapshot Resyncing v
              in (v'\<lparr>v_resyncPromise := Some c, v_nextCall := c + 1\<rparr>,
                  [CallResync c (v_connectionEpoch v) (case v_generation v of Some g \<Rightarrow> g | None \<Rightarrow> [])]))
      else (v, []))"

definition stop_view :: "bool \<Rightarrow> live_view \<Rightarrow> live_view \<times> live_call list" where
  "stop_view socketReady v =
     (if v_stopped v then (v, [])
      else (updateSnapshot Stopped
              (v\<lparr>v_stopped := True, v_documents := [], v_orderedDocuments := [], v_bufferedDeltas := []\<rparr>),
            if socketReady then [CallUnsubscribe] else []))"

section \<open>Applying data\<close>

fun apply_operation :: "host \<Rightarrow> live_operation \<Rightarrow> live_view \<Rightarrow> live_view \<times> bool" where
  "apply_operation h (WindowSplice index deleteCount documents) v =
     (if \<not> v_ordered v then (v, False)
      else case applyMongoLiveWindowSplice (doc_ident h) (v_orderedDocuments v) index deleteCount documents of
        None \<Rightarrow> (v, False)
      | Some applied \<Rightarrow> (v\<lparr>v_orderedDocuments := applied\<rparr>, True))"
| "apply_operation h (Removed i) v =
     (if v_ordered v then (v, False)
      else (v\<lparr>v_documents := jm_delete (canonicalId h i) (v_documents v)\<rparr>, True))"
| "apply_operation h (Added document) v =
     (if v_ordered v then (v, False)
      else (v\<lparr>v_documents := jm_set (doc_ident h document) document (v_documents v)\<rparr>, True))"
| "apply_operation h (Changed document) v =
     (if v_ordered v then (v, False)
      else (v\<lparr>v_documents := jm_set (doc_ident h document) document (v_documents v)\<rparr>, True))"

fun apply_operations :: "host \<Rightarrow> live_operation list \<Rightarrow> live_view \<Rightarrow> live_view \<times> bool" where
  "apply_operations h [] v = (v, True)"
| "apply_operations h (operation # rest) v =
     (let (v', ok) = apply_operation h operation v
      in if ok then apply_operations h rest v' else (v', False))"

definition applyDelta :: "host \<Rightarrow> live_delta \<Rightarrow> live_view \<Rightarrow> live_view \<times> bool" where
  "applyDelta h delta v =
     (if d_sequence delta \<noteq> v_sequence v + 1 then (v, False)
      else
        (let (v', ok) = apply_operations h (d_operations delta) v
         in if \<not> ok then (v', False)
            else (updateSnapshot Ready (v'\<lparr>v_sequence := d_sequence delta\<rparr>), True)))"

text \<open>The loop over the deltas that arrived before the snapshot; \<open>False\<close> when one does not apply.\<close>

fun replay_buffered :: "host \<Rightarrow> live_delta list \<Rightarrow> live_view \<Rightarrow> live_view \<times> bool" where
  "replay_buffered h [] v = (v, True)"
| "replay_buffered h (delta # rest) v =
     (if Some (d_generation delta) \<noteq> v_generation v then replay_buffered h rest v
      else if d_sequence delta \<le> v_sequence v then replay_buffered h rest v
      else (let (v', ok) = applyDelta h delta v
            in if ok then replay_buffered h rest v' else (v', False)))"

definition load_snapshot :: "host \<Rightarrow> live_snapshot \<Rightarrow> live_view \<Rightarrow> live_view" where
  "load_snapshot h snapshot v =
     (let ordered = (case s_ordered snapshot of None \<Rightarrow> False | Some b \<Rightarrow> b) in
      v\<lparr>v_ordered := ordered,
        v_orderedDocuments := (if ordered then s_documents snapshot else []),
        v_documents := (if ordered then []
          else foldl (\<lambda>m document. jm_set (doc_ident h document) document m) [] (s_documents snapshot)),
        v_generation := Some (s_generation snapshot),
        v_sequence := s_sequence snapshot\<rparr>)"

definition applySnapshot :: "host \<Rightarrow> live_snapshot \<Rightarrow> live_view \<Rightarrow> live_view \<times> live_call list" where
  "applySnapshot h snapshot v =
     (if v_stopped v then (v, [])
      else
        (let buffered = v_bufferedDeltas v;
             (v', ok) = replay_buffered h buffered ((load_snapshot h snapshot v)\<lparr>v_bufferedDeltas := []\<rparr>)
         in if ok then (updateSnapshot Ready v', [])
            else case v_resyncPromise v' of
              Some c \<Rightarrow> (v'\<lparr>v_resyncAfter := c # v_resyncAfter v'\<rparr>, [])
            | None \<Rightarrow> resync_view v'))"

section \<open>Events\<close>

definition handleEvent :: "host \<Rightarrow> live_event \<Rightarrow> live_view \<Rightarrow> live_view \<times> live_call list" where
  "handleEvent h event v =
     (case event of
        ResyncRequired sid staleGeneration \<Rightarrow>
          if v_stopped v \<or> sid \<noteq> v_subscriptionId v then (v, [])
          else if no_generation v \<or> Some staleGeneration = v_generation v then resync_view v
          else (v, [])
      | LiveDelta delta \<Rightarrow>
          if v_stopped v \<or> d_subscriptionId delta \<noteq> v_subscriptionId v then (v, [])
          else if v_status v \<noteq> Ready \<or> no_generation v then
            (if length (v_bufferedDeltas v) \<ge> MAX_EARLY_DELTAS
             then (let v' = v\<lparr>v_bufferedDeltas := []\<rparr> in if no_generation v then (v', []) else resync_view v')
             else (v\<lparr>v_bufferedDeltas := v_bufferedDeltas v @ [delta]\<rparr>, []))
          else if Some (d_generation delta) \<noteq> v_generation v then resync_view v
          else if d_sequence delta \<le> v_sequence v then (v, [])
          else (let (v', ok) = applyDelta h delta v in if ok then (v', []) else resync_view v'))"

definition handleInitialized :: "live_view \<Rightarrow> live_view \<times> live_call list" where
  "handleInitialized v = (if v_stopped v then (v, []) else start_view v)"

definition handleClosed :: "live_view \<Rightarrow> live_view" where
  "handleClosed v =
     (if v_stopped v then v
      else updateSnapshot Connecting
        (v\<lparr>v_connectionEpoch := v_connectionEpoch v + 1, v_startPromise := None, v_resyncPromise := None,
           v_generation := None, v_sequence := 0, v_bufferedDeltas := []\<rparr>))"

section \<open>Replies\<close>

definition call_reply ::
  "host \<Rightarrow> nat \<Rightarrow> string + live_snapshot \<Rightarrow> live_view \<Rightarrow> live_view \<times> live_call list" where
  "call_reply h epoch outcome v =
     (if epoch \<noteq> v_connectionEpoch v then (v, [])
      else case outcome of
        Inl error \<Rightarrow> (fail error v, [])
      | Inr snapshot \<Rightarrow> applySnapshot h snapshot v)"

definition settle_start :: "nat \<Rightarrow> live_view \<Rightarrow> live_view" where
  "settle_start c v = (if v_startPromise v = Some c then v\<lparr>v_startPromise := None\<rparr> else v)"

definition settle_resync :: "nat \<Rightarrow> live_view \<Rightarrow> live_view \<times> live_call list" where
  "settle_resync c v =
     (let v' = (if v_resyncPromise v = Some c then v\<lparr>v_resyncPromise := None\<rparr> else v)
      in if c \<in> set (v_resyncAfter v')
         then resync_view (v'\<lparr>v_resyncAfter := js_remove c (v_resyncAfter v')\<rparr>)
         else (v', []))"

end
