(* ===== verification/LiveObserver.thy ===== *)
theory LiveObserver
  imports LiveClient
begin

text \<open>
  The server side of a live query: the membership observer of one subscription
  (\<open>src/mongodb/live/observer.ts\<close>) and the helpers of \<open>src/mongodb/live/source.ts\<close> it uses.

  MongoDB is a parameter: \<open>mongo_read\<close> is what a majority read returns at the moment of a step, the
  documents that match the filter, the driver's sort, or a failure. The publication's projector is
  a field of the options. The promise chain \<open>work\<close> is the queue \<open>o_work\<close>, and each of its steps is
  a function: a queued notice runs atomically; an ordered refresh is a begin step, a finish step at
  which the read returns and the loop condition is tested, and the \<open>finally\<close> step, because source
  notices can arrive in between.
\<close>

section \<open>Identifiers\<close>

definition readLiveId :: "jsval \<Rightarrow> jsval option" where
  "readLiveId v = (case v of JStr _ \<Rightarrow> Some v | JNum _ \<Rightarrow> Some v | JObjectId _ \<Rightarrow> Some v | _ \<Rightarrow> None)"

definition toClientId :: "bool \<Rightarrow> jsval \<Rightarrow> jsval" where
  "toClientId typedObjectIds i =
     (case i of
        JObjectId hex \<Rightarrow> if typedObjectIds then JObj [(''$objectId'', JStr hex)] else JStr hex
      | _ \<Rightarrow> i)"

section \<open>State\<close>

datatype source_notice =
    Change (n_sequence: nat) (n_id: jsval) (n_deleted: bool)
  | Reset (n_sequence: nat) (n_reason: string)

record mongo_read =
  mr_matching :: "jsval list"
  mr_sort :: "(string \<times> int) list \<Rightarrow> jsval list \<Rightarrow> jsval list"
  mr_failure :: "js_error option"

record observer_options =
  oo_subscriptionId :: string
  oo_generation :: string
  oo_window :: "live_window option"
  oo_typedObjectIds :: bool
  oo_project :: "jsval \<Rightarrow> jsobj js"
  oo_maxSnapshotDocuments :: nat

datatype observer_output = OnDelta live_delta | OnStale

datatype work_item = NoticeWork source_notice | RefreshQueued | RefreshReading | RefreshSettling

record observer =
  o_documents :: "(jsval option, jsval) jsmap"
  o_orderedDocuments :: "jsval list"
  o_bufferedNotices :: "source_notice list"
  o_subscribed :: bool
  o_initializing :: bool
  o_initializationInvalidated :: bool
  o_stopped :: bool
  o_sequence :: nat
  o_work :: "work_item list"
  o_orderedRefreshRunning :: bool
  o_orderedRefreshPending :: bool

definition MAX_HANDOFF_NOTICES :: nat where
  "MAX_HANDOFF_NOTICES = 10000"

definition new_observer :: observer where
  "new_observer = \<lparr>o_documents = [], o_orderedDocuments = [], o_bufferedNotices = [], o_subscribed = False,
     o_initializing = True, o_initializationInvalidated = False, o_stopped = False, o_sequence = 0,
     o_work = [], o_orderedRefreshRunning = False, o_orderedRefreshPending = False\<rparr>"

section \<open>Reading and projecting\<close>

definition readSnapshotDocuments :: "observer_options \<Rightarrow> mongo_read \<Rightarrow> jsval list js" where
  "readSnapshotDocuments opts db =
     (case mr_failure db of
        Some e \<Rightarrow> Inl e
      | None \<Rightarrow>
          (case oo_window opts of
             Some w \<Rightarrow> Inr (take (w_limit w) (drop (w_skip w) (mr_sort db (w_sort w) (mr_matching db))))
           | None \<Rightarrow> Inr (take (oo_maxSnapshotDocuments opts + 1) (mr_matching db))))"

definition findOne :: "mongo_read \<Rightarrow> jsval \<Rightarrow> jsval option js" where
  "findOne db i =
     (case mr_failure db of
        Some e \<Rightarrow> Inl e
      | None \<Rightarrow> Inr (find (\<lambda>d. get_prop d ''_id'' = i) (mr_matching db)))"

definition project_document :: "observer_options \<Rightarrow> jsval \<Rightarrow> jsval js" where
  "project_document opts document =
     (case readLiveId (get_prop document ''_id'') of
        None \<Rightarrow> Inl (Error ''MongoDB live publications require ObjectId, string, or number _id.'')
      | Some sourceId \<Rightarrow>
          rbind (oo_project opts document) (\<lambda>props.
            if jm_has props ''_id'' then Inl (Error ''MongoDB live projectors must not return _id.'')
            else Inr (JObj (foldl (\<lambda>target (k, v). obj_set k v target)
                       [(''_id'', toClientId (oo_typedObjectIds opts) sourceId)] props))))"

section \<open>Processing a notice\<close>

definition delta_of :: "observer_options \<Rightarrow> nat \<Rightarrow> live_operation \<Rightarrow> live_delta" where
  "delta_of opts seq operation =
     \<lparr>d_subscriptionId = oo_subscriptionId opts, d_generation = oo_generation opts,
      d_sequence = seq, d_operations = [operation]\<rparr>"

definition emit_operation ::
  "observer_options \<Rightarrow> bool \<Rightarrow> live_operation option \<Rightarrow> observer \<Rightarrow> observer \<times> observer_output list" where
  "emit_operation opts emit operation s =
     (case operation of
        Some op \<Rightarrow>
          if emit then (s\<lparr>o_sequence := o_sequence s + 1\<rparr>, [OnDelta (delta_of opts (o_sequence s + 1) op)])
          else (s, [])
      | None \<Rightarrow> (s, []))"

definition refreshOrderedWindow ::
  "host \<Rightarrow> (string \<Rightarrow> jsval \<Rightarrow> bool) \<Rightarrow> observer_options \<Rightarrow> mongo_read \<Rightarrow> bool \<Rightarrow> observer
   \<Rightarrow> (observer \<times> observer_output list) js" where
  "refreshOrderedWindow h oid opts db emit s =
     rbind (readSnapshotDocuments opts db) (\<lambda>stored.
     rbind (rtraverse (project_document opts) stored) (\<lambda>current.
       if o_stopped s then Inr (s, [])
       else rbind (createMongoLiveWindowSplice (doc_equals oid) (doc_ident h) (o_orderedDocuments s) current)
         (\<lambda>operation. Inr (emit_operation opts emit operation (s\<lparr>o_orderedDocuments := current\<rparr>)))))"

definition applyNotice ::
  "host \<Rightarrow> (string \<Rightarrow> jsval \<Rightarrow> bool) \<Rightarrow> observer_options \<Rightarrow> mongo_read \<Rightarrow> bool \<Rightarrow> source_notice \<Rightarrow> observer
   \<Rightarrow> (observer \<times> observer_output list) js" where
  "applyNotice h oid opts db emit notice s =
     (if o_stopped s then Inr (s, [])
      else case notice of
        Reset _ _ \<Rightarrow> Inr (s, if emit then [OnStale] else [])
      | Change _ i deleted \<Rightarrow>
          if oo_window opts \<noteq> None then refreshOrderedWindow h oid opts db emit s
          else
            (let clientId = toClientId (oo_typedObjectIds opts) i;
                 key = canonicalId h clientId;
                 previous = jm_get (o_documents s) key
             in if deleted then
                  (case previous of
                     Some _ \<Rightarrow> Inr (emit_operation opts emit (Some (Removed clientId))
                                 (s\<lparr>o_documents := jm_delete key (o_documents s)\<rparr>))
                   | None \<Rightarrow> Inr (s, []))
                else rbind (findOne db i) (\<lambda>current.
                  case current of
                    None \<Rightarrow>
                      (case previous of
                         Some _ \<Rightarrow> Inr (emit_operation opts emit (Some (Removed clientId))
                                     (s\<lparr>o_documents := jm_delete key (o_documents s)\<rparr>))
                       | None \<Rightarrow> Inr (s, []))
                  | Some document \<Rightarrow>
                      rbind (project_document opts document) (\<lambda>projected.
                        Inr (emit_operation opts emit
                          (case previous of
                             None \<Rightarrow> Some (Added projected)
                           | Some old \<Rightarrow> if doc_equals oid old projected then None else Some (Changed projected))
                          (s\<lparr>o_documents := jm_set key projected (o_documents s)\<rparr>))))))"

section \<open>Lifecycle\<close>

definition stop_observer :: "observer \<Rightarrow> observer" where
  "stop_observer s =
     (if o_stopped s then s else s\<lparr>o_stopped := True, o_subscribed := False, o_bufferedNotices := []\<rparr>)"

definition enqueueOrderedRefresh :: "observer \<Rightarrow> observer" where
  "enqueueOrderedRefresh s =
     (if o_orderedRefreshRunning s then s\<lparr>o_orderedRefreshPending := True\<rparr>
      else s\<lparr>o_orderedRefreshRunning := True, o_work := o_work s @ [RefreshQueued]\<rparr>)"

definition on_notice :: "observer_options \<Rightarrow> source_notice \<Rightarrow> observer \<Rightarrow> observer \<times> observer_output list" where
  "on_notice opts notice s =
     (if \<not> o_subscribed s then (s, [])
      else if o_initializing s then
        (case notice of
           Reset _ _ \<Rightarrow> (s\<lparr>o_initializationInvalidated := True\<rparr>, [])
         | Change _ _ _ \<Rightarrow>
             if length (o_bufferedNotices s) \<ge> MAX_HANDOFF_NOTICES
             then (s\<lparr>o_initializationInvalidated := True\<rparr>, [])
             else (s\<lparr>o_bufferedNotices := o_bufferedNotices s @ [notice]\<rparr>, []))
      else
        (case notice of
           Reset _ _ \<Rightarrow> (stop_observer s, [OnStale])
         | Change _ _ _ \<Rightarrow>
             if oo_window opts \<noteq> None then (enqueueOrderedRefresh s, [])
             else (s\<lparr>o_work := o_work s @ [NoticeWork notice]\<rparr>, [])))"

definition start_subscribe :: "observer \<Rightarrow> observer" where
  "start_subscribe s = s\<lparr>o_subscribed := True\<rparr>"

definition init_error :: js_error where
  "init_error = Error ''MongoDB live source reset while the initial snapshot was being built.''"

definition start_load :: "host \<Rightarrow> observer_options \<Rightarrow> mongo_read \<Rightarrow> observer \<Rightarrow> observer js" where
  "start_load h opts db s =
     rbind (readSnapshotDocuments opts db) (\<lambda>stored.
       if o_initializationInvalidated s then Inl init_error
       else if oo_window opts = None \<and> length stored > oo_maxSnapshotDocuments opts
       then Inl (Error (''MongoDB live snapshot exceeds '' @ nat_digits (oo_maxSnapshotDocuments opts) @ '' documents.''))
       else rbind (rtraverse (project_document opts) stored) (\<lambda>projected.
         if oo_window opts \<noteq> None then Inr (s\<lparr>o_orderedDocuments := projected\<rparr>)
         else Inr (s\<lparr>o_documents :=
           foldl (\<lambda>m p. jm_set (doc_ident h p) p m) (o_documents s) projected\<rparr>)))"

definition start_drain ::
  "host \<Rightarrow> (string \<Rightarrow> jsval \<Rightarrow> bool) \<Rightarrow> observer_options \<Rightarrow> mongo_read \<Rightarrow> observer \<Rightarrow> observer js" where
  "start_drain h oid opts db s =
     (if o_initializationInvalidated s then Inl init_error
      else case o_bufferedNotices s of
        [] \<Rightarrow> Inr s
      | notice # rest \<Rightarrow>
          rbind (applyNotice h oid opts db False notice (s\<lparr>o_bufferedNotices := rest\<rparr>)) (\<lambda>(s', _). Inr s'))"

definition start_complete :: "observer_options \<Rightarrow> observer \<Rightarrow> (observer \<times> live_snapshot) js" where
  "start_complete opts s =
     (if o_initializationInvalidated s then Inl init_error
      else Inr (s\<lparr>o_initializing := False\<rparr>,
        \<lparr>s_subscriptionId = oo_subscriptionId opts, s_generation = oo_generation opts, s_sequence = o_sequence s,
         s_ordered = Some (oo_window opts \<noteq> None),
         s_documents = (if oo_window opts \<noteq> None then o_orderedDocuments s else jm_values (o_documents s))\<rparr>))"

text \<open>One step of the promise chain, with the read the step performs.\<close>

definition on_reject :: "observer \<Rightarrow> observer_output list" where
  "on_reject s = (if o_stopped s then [] else [OnStale])"

definition run_work ::
  "host \<Rightarrow> (string \<Rightarrow> jsval \<Rightarrow> bool) \<Rightarrow> observer_options \<Rightarrow> mongo_read \<Rightarrow> observer \<Rightarrow> observer \<times> observer_output list" where
  "run_work h oid opts db s =
     (case o_work s of
        [] \<Rightarrow> (s, [])
      | NoticeWork notice # rest \<Rightarrow>
          (case applyNotice h oid opts db True notice (s\<lparr>o_work := rest\<rparr>) of
             Inl _ \<Rightarrow> (s\<lparr>o_work := rest\<rparr>, on_reject s)
           | Inr r \<Rightarrow> r)
      | RefreshQueued # rest \<Rightarrow> (s\<lparr>o_orderedRefreshPending := False, o_work := RefreshReading # rest\<rparr>, [])
      | RefreshReading # rest \<Rightarrow>
          (case refreshOrderedWindow h oid opts db True s of
             Inl _ \<Rightarrow> (s\<lparr>o_work := RefreshSettling # rest\<rparr>, on_reject s)
           | Inr (s', out) \<Rightarrow>
               if o_orderedRefreshPending s' \<and> \<not> o_stopped s'
               then (s'\<lparr>o_orderedRefreshPending := False\<rparr>, out)
               else (s'\<lparr>o_work := RefreshSettling # rest\<rparr>, out))
      | RefreshSettling # rest \<Rightarrow>
          (s\<lparr>o_orderedRefreshRunning := False, o_orderedRefreshPending := False, o_work := rest\<rparr>, []))"

end
