(* ===== verification/LiveSync.thy ===== *)
theory LiveSync
  imports LiveObserver "HOL-Library.Multiset"
begin

text \<open>
  The live query end to end: a server observer stepped through any interleaving of source notices
  and promise steps, and a client view that receives the deltas in order, hold the same documents.
\<close>

section \<open>Identity keys\<close>

lemma live_id_safe: "live_id i \<Longrightarrow> wire_safe h i"
  by (auto elim!: live_id.elims simp: reserved_key_def)

lemma live_id_cases:
  assumes "live_id i"
  obtains s where "i = JStr s" | n where "i = JNum n" | hex where "i = JObj [(''$objectId'', JStr hex)]"
  using assms by (auto elim!: live_id.elims)

lemma canonicalId_enc:
  assumes "live_id i"
  shows "canonicalId h i = Some (ejson_enc i)"
proof -
  have w: "wire_safe h i" using assms by (rule live_id_safe)
  have "sortJsonValue (ejson_enc i) = ejson_enc i"
    using assms
  proof (cases rule: live_id_cases)
    case (2 n)
    then show ?thesis by (cases n) (simp_all add: obj_set_def jm_has_def)
  qed (simp_all add: obj_set_def jm_has_def looks_tagged_def builtinConverters_def keysOf_def lengthOf_def)
  then show ?thesis
    using toJSONValue_safe [OF w] json_norm_enc [OF w] by (simp add: canonicalId_def ejson_stringify_def)
qed

lemma enc_inj:
  assumes "wire_safe h a" "wire_safe h b" "ejson_enc a = ejson_enc b"
  shows "a = b"
proof -
  have "fromJSONValue h (\<lambda>_. None) (ejson_enc v) = Inr v" if "wire_safe h v" for v
    using decodes_fromJSONValue [OF decodes_safe [OF that] that] .
  from this [OF assms(1)] this [OF assms(2)] show ?thesis unfolding assms(3) by simp
qed

lemma canonicalId_inj:
  assumes "live_id a" "live_id b" "canonicalId h a = canonicalId h b"
  shows "a = b"
proof (rule enc_inj)
  show "wire_safe h a" "wire_safe h b" by (rule live_id_safe [OF assms(1)], rule live_id_safe [OF assms(2)])
  show "ejson_enc a = ejson_enc b"
    using assms(3) unfolding canonicalId_enc [OF assms(1)] canonicalId_enc [OF assms(2)] by (rule option.inject [THEN iffD1])
qed

lemma toClientId_live: "readLiveId i = Some j \<Longrightarrow> j = i \<and> live_id (toClientId typed i)"
  by (auto simp: readLiveId_def toClientId_def split: jsval.splits)

lemma toClientId_inj:
  "readLiveId a = Some a' \<Longrightarrow> readLiveId b = Some b' \<Longrightarrow> toClientId True a = toClientId True b \<Longrightarrow> a = b"
  by (auto simp: readLiveId_def toClientId_def split: jsval.splits)

section \<open>Projected documents\<close>

lemma assign_keeps_id:
  "\<not> jm_has props k \<Longrightarrow> map_of (foldl (\<lambda>target (k, v). obj_set k v target) target props) k = map_of target k"
  by (induction props arbitrary: target) (auto simp: jm_has_def split: if_splits)

lemma project_document_id:
  assumes "project_document opts d = Inr p"
  shows "\<exists>kvs. p = JObj kvs \<and> map_of kvs ''_id'' = Some (toClientId (oo_typedObjectIds opts) (get_prop d ''_id''))"
    and "readLiveId (get_prop d ''_id'') \<noteq> None"
proof -
  obtain i props where i: "readLiveId (get_prop d ''_id'') = Some i" "\<not> jm_has props ''_id''"
      "p = JObj (foldl (\<lambda>target (k, v). obj_set k v target) [(''_id'', toClientId (oo_typedObjectIds opts) i)] props)"
    using assms by (auto simp: project_document_def rbind_eq_Inr split: option.splits if_splits)
  then show "\<exists>kvs. p = JObj kvs \<and> map_of kvs ''_id'' = Some (toClientId (oo_typedObjectIds opts) (get_prop d ''_id''))"
    using assign_keeps_id [OF i(2)] toClientId_live [OF i(1)] by simp
  show "readLiveId (get_prop d ''_id'') \<noteq> None" using i(1) by simp
qed

lemma project_document_ident:
  assumes "project_document opts d = Inr p"
  shows "doc_ident h p = canonicalId h (toClientId (oo_typedObjectIds opts) (get_prop d ''_id''))"
  using project_document_id(1) [OF assms] by (auto simp: doc_ident_def obj_get_def)

lemma rtraverse_project:
  "rtraverse (project_document opts) stored = Inr ps \<Longrightarrow> list_all2 (\<lambda>d p. project_document opts d = Inr p) stored ps"
  by (induction stored arbitrary: ps) (auto simp: rbind_eq_Inr)

lemma project_distinct:
  assumes "list_all2 (\<lambda>d p. project_document opts d = Inr p) stored ps" "oo_typedObjectIds opts"
    and "distinct (map (\<lambda>d. get_prop d ''_id'') stored)"
  shows "distinct (map (doc_ident h) ps)"
  using assms
proof (induction stored ps rule: list_all2_induct)
  case (Cons d stored p ps)
  have "doc_ident h p \<noteq> doc_ident h q" if "q \<in> set ps" for q
  proof
    assume eq: "doc_ident h p = doc_ident h q"
    obtain e where e: "e \<in> set stored" "project_document opts e = Inr q"
      using list_all2_rightD [OF Cons.hyps(2) \<open>q \<in> set ps\<close>] by blast
    obtain i j where ij: "readLiveId (get_prop d ''_id'') = Some i" "readLiveId (get_prop e ''_id'') = Some j"
      using project_document_id(2) Cons.hyps(1) e(2) by blast
    have "canonicalId h (toClientId True (get_prop d ''_id'')) = canonicalId h (toClientId True (get_prop e ''_id''))"
      using eq project_document_ident [OF Cons.hyps(1), of h] project_document_ident [OF e(2), of h] Cons.prems(1) by simp
    then have "toClientId True (get_prop d ''_id'') = toClientId True (get_prop e ''_id'')"
      using canonicalId_inj toClientId_live [OF ij(1), of True] toClientId_live [OF ij(2), of True] by blast
    then have "get_prop d ''_id'' = get_prop e ''_id''" using toClientId_inj ij by blast
    then show False using Cons.prems(2) e(1) by (auto simp: image_iff)
  qed
  then show ?case using Cons by fastforce
qed simp


section \<open>Agreement of server and client\<close>

definition mongo_ok :: "mongo_read \<Rightarrow> bool" where
  "mongo_ok db \<longleftrightarrow> distinct (map (\<lambda>d. get_prop d ''_id'') (mr_matching db)) \<and>
     (\<forall>spec xs. mset (mr_sort db spec xs) = mset xs)"

definition session_ok :: "observer_options \<Rightarrow> bool" where
  "session_ok opts \<longleftrightarrow> oo_generation opts \<noteq> [] \<and>
     (\<forall>d p. project_document opts d = Inr p \<longrightarrow> live_doc p) \<and>
     (\<forall>w. oo_window opts = Some w \<longrightarrow> oo_typedObjectIds opts \<and> int (w_limit w) \<le> max_safe_integer)"

definition entry_agrees :: "(string \<Rightarrow> jsval \<Rightarrow> bool) \<Rightarrow> (jsval option \<times> jsval) \<Rightarrow> (jsval option \<times> jsval) \<Rightarrow> bool" where
  "entry_agrees oid c s \<longleftrightarrow> fst c = fst s \<and> doc_equals oid (snd c) (snd s) \<and> live_doc (snd c) \<and> live_doc (snd s)"

definition doc_agrees :: "(string \<Rightarrow> jsval \<Rightarrow> bool) \<Rightarrow> jsval \<Rightarrow> jsval \<Rightarrow> bool" where
  "doc_agrees oid c s \<longleftrightarrow> doc_equals oid c s \<and> live_doc c \<and> live_doc s"

definition agrees :: "host \<Rightarrow> (string \<Rightarrow> jsval \<Rightarrow> bool) \<Rightarrow> observer_options \<Rightarrow> observer \<Rightarrow> live_view \<Rightarrow> bool" where
  "agrees h oid opts s v \<longleftrightarrow>
     \<not> v_stopped v \<and> v_subscriptionId v = oo_subscriptionId opts \<and>
     v_generation v = Some (oo_generation opts) \<and> v_sequence v = o_sequence s \<and>
     v_ordered v = (oo_window opts \<noteq> None) \<and>
     int (length (o_orderedDocuments s)) \<le> max_safe_integer \<and>
     (if oo_window opts \<noteq> None then list_all2 (doc_agrees oid) (v_orderedDocuments v) (o_orderedDocuments s)
      else list_all2 (entry_agrees oid) (v_documents v) (o_documents s))"

lemma entry_agrees_pair: "entry_agrees oid (k, c) (k', d) \<longleftrightarrow> k = k' \<and> doc_equals oid c d \<and> live_doc c \<and> live_doc d"
  by (simp add: entry_agrees_def)

lemma doc_agrees_split:
  "list_all2 (doc_agrees oid) xs ys \<longleftrightarrow> list_all2 (doc_equals oid) xs ys \<and> list_all live_doc xs \<and> list_all live_doc ys"
  by (auto simp: doc_agrees_def list_all2_conv_all_nth list_all_length)

lemma agree_get_None:
  "list_all2 (entry_agrees oid) xs ys \<Longrightarrow> map_of xs k = None \<longleftrightarrow> map_of ys k = None"
  by (induction xs ys rule: list_all2_induct) (auto simp: entry_agrees_pair)

lemma agree_set:
  assumes "list_all2 (entry_agrees oid) xs ys" "live_doc c" "live_doc d" "doc_equals oid c d"
  shows "list_all2 (entry_agrees oid) (jm_set k c xs) (jm_set k d ys)"
  using assms(1) by (induction xs ys rule: list_all2_induct) (use assms in \<open>auto simp: entry_agrees_pair\<close>)

lemma agree_delete:
  "list_all2 (entry_agrees oid) xs ys \<Longrightarrow> list_all2 (entry_agrees oid) (jm_delete k xs) (jm_delete k ys)"
  by (induction xs ys rule: list_all2_induct) (auto simp: entry_agrees_pair)

lemma agree_set_right:
  assumes "list_all2 (entry_agrees oid) xs ys" "map_of ys k = Some old" "live_doc d" "doc_equals oid old d"
  shows "list_all2 (entry_agrees oid) xs (jm_set k d ys)"
  using assms
proof (induction xs ys rule: list_all2_induct)
  case (Cons x xs y ys)
  then show ?case
    using live_docs.eq_trans [of "snd x" "snd y" d oid]
    by (cases x; cases y) (auto simp: entry_agrees_pair split: if_splits)
qed simp


section \<open>Every step keeps the agreement\<close>

definition advances ::
  "host \<Rightarrow> (string \<Rightarrow> jsval \<Rightarrow> bool) \<Rightarrow> observer_options \<Rightarrow> live_view \<Rightarrow> observer \<times> observer_output list \<Rightarrow> bool" where
  "advances h oid opts v r \<longleftrightarrow>
     OnStale \<in> set (snd r) \<or>
     (snd r = [] \<and> agrees h oid opts (fst r) v) \<or>
     (\<exists>d v'. snd r = [OnDelta d] \<and> d_subscriptionId d = oo_subscriptionId opts \<and>
        d_generation d = oo_generation opts \<and> d_sequence d = v_sequence v + 1 \<and>
        applyDelta h d v = (v', True) \<and> agrees h oid opts (fst r) v' \<and>
        v_status v' = Ready \<and> v_visible v' = currentDocuments v')"

lemma agrees_cong:
  "o_orderedDocuments s' = o_orderedDocuments s \<Longrightarrow> o_documents s' = o_documents s \<Longrightarrow> o_sequence s' = o_sequence s
   \<Longrightarrow> agrees h oid opts s' v = agrees h oid opts s v"
  by (simp add: agrees_def)

lemma updateSnapshot_fields:
  "v_status (updateSnapshot st v) = st" "v_visible (updateSnapshot st v) = currentDocuments (updateSnapshot st v)"
  "v_bufferedDeltas (updateSnapshot st v) = v_bufferedDeltas v"
  "agrees h oid opts s (updateSnapshot st v) = agrees h oid opts s v"
  by (simp_all add: updateSnapshot_def notify_def currentDocuments_def agrees_def)

lemma applyDelta_single:
  assumes "apply_operation h op v = (vn, True)" "v_sequence v = n"
  shows "applyDelta h (delta_of opts (n + 1) op) v = (updateSnapshot Ready (vn\<lparr>v_sequence := n + 1\<rparr>), True)"
  using assms by (simp add: applyDelta_def delta_of_def)

lemma emit_advances:
  assumes "v_sequence v = o_sequence s" "apply_operation h op v = (vn, True)"
    and "agrees h oid opts (s\<lparr>o_sequence := o_sequence s + 1\<rparr>) (vn\<lparr>v_sequence := o_sequence s + 1\<rparr>)"
  shows "advances h oid opts v (emit_operation opts True (Some op) s)"
  using applyDelta_single [OF assms(2,1)] assms(1,3)
  by (auto simp: advances_def emit_operation_def delta_of_def updateSnapshot_fields)

lemma unchanged_advances: "agrees h oid opts s v \<Longrightarrow> advances h oid opts v (s, [])"
  by (simp add: advances_def)

lemma stale_advances: "advances h oid opts v (s, [OnStale])"
  by (simp add: advances_def)

lemma removed_advances:
  assumes "agrees h oid opts s v" "oo_window opts = None"
  shows "advances h oid opts v (emit_operation opts True (Some (Removed i))
     (s\<lparr>o_documents := jm_delete (canonicalId h i) (o_documents s)\<rparr>))"
  using assms agree_delete [of oid "v_documents v" "o_documents s"]
  by (intro emit_advances [where vn = "v\<lparr>v_documents := jm_delete (canonicalId h i) (v_documents v)\<rparr>"])
    (auto simp: agrees_def)

lemma stored_advances:
  assumes "agrees h oid opts s v" "oo_window opts = None" "live_doc p" "doc_ident h p = key"
    and "op = Added p \<or> op = Changed p"
  shows "advances h oid opts v (emit_operation opts True (Some op) (s\<lparr>o_documents := jm_set key p (o_documents s)\<rparr>))"
  using assms agree_set [of oid "v_documents v" "o_documents s" p p key] live_docs.eq_refl [of p oid]
  by (intro emit_advances [where vn = "v\<lparr>v_documents := jm_set key p (v_documents v)\<rparr>"])
    (auto simp: agrees_def)

lemma equal_advances:
  assumes "agrees h oid opts s v" "map_of (o_documents s) key = Some old" "live_doc p" "doc_equals oid old p"
  shows "advances h oid opts v (s\<lparr>o_documents := jm_set key p (o_documents s)\<rparr>, [])"
  using assms agree_set_right [of oid "v_documents v" "o_documents s" key old p]
  by (intro unchanged_advances) (auto simp: agrees_def)

lemma refresh_advances:
  assumes "agrees h oid opts s v" "session_ok opts" "mongo_ok db" "oo_window opts = Some w"
    and "refreshOrderedWindow h oid opts db True s = Inr r"
  shows "advances h oid opts v r"
proof (cases "o_stopped s")
  case True
  then show ?thesis using assms(1,5) by (auto simp: refreshOrderedWindow_def rbind_eq_Inr unchanged_advances)
next
  case False
  then obtain stored current operation where
      r: "readSnapshotDocuments opts db = Inr stored" "rtraverse (project_document opts) stored = Inr current"
        "createMongoLiveWindowSplice (doc_equals oid) (doc_ident h) (o_orderedDocuments s) current = Inr operation"
        "r = emit_operation opts True operation (s\<lparr>o_orderedDocuments := current\<rparr>)"
    using assms(5) by (auto simp: refreshOrderedWindow_def rbind_eq_Inr)
  have proj: "list_all2 (\<lambda>d p. project_document opts d = Inr p) stored current"
    using r(2) by (rule rtraverse_project)
  have live: "list_all live_doc current"
    using assms(2) list_all2_rightD [OF proj] by (auto simp: session_ok_def list_all_iff)
  have sorted: "mset (mr_sort db (w_sort w) (mr_matching db)) = mset (mr_matching db)"
    using assms(3) by (simp add: mongo_ok_def)
  have "distinct (map (\<lambda>d. get_prop d ''_id'') (mr_sort db (w_sort w) (mr_matching db)))"
    using assms(3) sorted by (metis mongo_ok_def mset_eq_imp_distinct_iff mset_map)
  then have "distinct (map (\<lambda>d. get_prop d ''_id'') stored)"
    using r(1) assms(4) by (auto simp: readSnapshotDocuments_def distinct_map take_map drop_map
        intro: inj_on_subset dest: in_set_takeD in_set_dropD split: option.splits)
  then have dist: "distinct (map (doc_ident h) current)"
    using project_distinct [OF proj] assms(2,4) by (simp add: session_ok_def)
  have "length current = length stored" using proj list_all2_lengthD by metis
  then have len: "int (length current) \<le> max_safe_integer"
    using r(1) assms(2,4) by (auto simp: readSnapshotDocuments_def session_ok_def split: option.splits)
  have agree: "list_all2 (doc_equals oid) (v_orderedDocuments v) (o_orderedDocuments s)"
      "list_all live_doc (v_orderedDocuments v)" "list_all live_doc (o_orderedDocuments s)"
      "int (length (o_orderedDocuments s)) \<le> max_safe_integer" "v_ordered v" "v_sequence v = o_sequence s"
    using assms(1,4) by (auto simp: agrees_def doc_agrees_split)
  note conv = window_splice_ok [OF agree(1-3) live dist agree(4)]
  show ?thesis
  proof (cases operation)
    case None
    then have "list_all2 (doc_equals oid) (v_orderedDocuments v) current" using conv r(3) by simp
    then show ?thesis using None r(4) assms(1) agree live len
      by (auto simp: emit_operation_def agrees_def doc_agrees_split intro!: unchanged_advances)
  next
    case (Some op)
    then obtain i d docs client' where op: "op = WindowSplice i d docs"
        "applyMongoLiveWindowSplice (doc_ident h) (v_orderedDocuments v) i d docs = Some client'"
        "list_all2 (doc_equals oid) client' current" "list_all live_doc client'"
      using conv r(3) by (cases op) auto
    show ?thesis unfolding r(4) Some
      using assms(1) agree op live len
      by (intro emit_advances [where vn = "v\<lparr>v_orderedDocuments := client'\<rparr>"])
        (auto simp: agrees_def doc_agrees_split)
  qed
qed


lemma applyNotice_advances:
  assumes "agrees h oid opts s v" "session_ok opts" "mongo_ok db"
    and "applyNotice h oid opts db True notice s = Inr r"
  shows "advances h oid opts v r"
proof (cases "o_stopped s \<or> oo_window opts \<noteq> None \<or> (\<exists>n x. notice = Reset n x)")
  case True
  then show ?thesis
    using assms refresh_advances [OF assms(1,2,3)]
    by (cases notice; cases r) (auto simp: applyNotice_def unchanged_advances stale_advances split: if_splits)
next
  case False
  then obtain n i deleted where n: "notice = Change n i deleted" "\<not> o_stopped s" "oo_window opts = None"
    by (cases notice) auto
  let ?c = "toClientId (oo_typedObjectIds opts) i"
  let ?key = "canonicalId h ?c"
  show ?thesis
  proof (cases "\<exists>d p. \<not> deleted \<and> findOne db i = Inr (Some d) \<and> project_document opts d = Inr p")
    case True
    then obtain d p where dp: "\<not> deleted" "findOne db i = Inr (Some d)" "project_document opts d = Inr p" by blast
    have "get_prop d ''_id'' = i"
      using dp(2) by (auto simp: findOne_def find_Some_iff split: option.splits)
    then have key: "doc_ident h p = ?key" using project_document_ident [OF dp(3)] by simp
    have live: "live_doc p" using assms(2) dp(3) by (simp add: session_ok_def)
    show ?thesis
    proof (cases "map_of (o_documents s) ?key")
      case None
      then have "r = emit_operation opts True (Some (Added p)) (s\<lparr>o_documents := jm_set ?key p (o_documents s)\<rparr>)"
        using assms(4) n dp by (simp add: applyNotice_def Let_def)
      then show ?thesis using stored_advances [OF assms(1) n(3) live key] by blast
    next
      case (Some old)
      then have r: "r = emit_operation opts True (if doc_equals oid old p then None else Some (Changed p))
          (s\<lparr>o_documents := jm_set ?key p (o_documents s)\<rparr>)"
        using assms(4) n dp by (simp add: applyNotice_def Let_def)
      show ?thesis
      proof (cases "doc_equals oid old p")
        case True
        then show ?thesis using r equal_advances [OF assms(1) Some live True] by (simp add: emit_operation_def)
      next
        case False
        then show ?thesis using r stored_advances [OF assms(1) n(3) live key] by simp
      qed
    qed
  next
    case False
    then have "r = (s, []) \<or> r = emit_operation opts True (Some (Removed ?c)) (s\<lparr>o_documents := jm_delete ?key (o_documents s)\<rparr>)"
      using assms(4) n by (auto simp: applyNotice_def Let_def rbind_eq_Inr split: if_splits option.splits)
    then show ?thesis using removed_advances [OF assms(1) n(3)] unchanged_advances [OF assms(1)] by blast
  qed
qed

datatype observer_input = SourceNotice source_notice | PromiseStep mongo_read

fun server_step ::
  "host \<Rightarrow> (string \<Rightarrow> jsval \<Rightarrow> bool) \<Rightarrow> observer_options \<Rightarrow> observer_input \<Rightarrow> observer \<Rightarrow> observer \<times> observer_output list" where
  "server_step h oid opts (SourceNotice notice) s = on_notice opts notice s"
| "server_step h oid opts (PromiseStep db) s = run_work h oid opts db s"

lemma advances_cong:
  assumes "advances h oid opts v (s, out)"
    and "o_orderedDocuments s' = o_orderedDocuments s" "o_documents s' = o_documents s" "o_sequence s' = o_sequence s"
  shows "advances h oid opts v (s', out)"
  using assms agrees_cong [OF assms(2-4)] by (simp add: advances_def)

definition work_ok :: "observer_options \<Rightarrow> observer \<Rightarrow> bool" where
  "work_ok opts s \<longleftrightarrow> (\<forall>x \<in> set (o_work s). (\<exists>n. x = NoticeWork n) \<longleftrightarrow> oo_window opts = None)"

lemma step_advances:
  assumes "agrees h oid opts s v" "session_ok opts" "work_ok opts s"
    and "\<And>db. e = PromiseStep db \<Longrightarrow> mongo_ok db"
  shows "advances h oid opts v (server_step h oid opts e s)"
proof (cases e)
  case (SourceNotice notice)
  then show ?thesis using assms(1)
    by (cases notice) (auto simp: on_notice_def enqueueOrderedRefresh_def advances_def agrees_def)
next
  case (PromiseStep db)
  note ok = assms(4) [OF PromiseStep]
  show ?thesis
  proof (cases "o_work s")
    case Nil
    then show ?thesis using PromiseStep assms(1) by (simp add: run_work_def unchanged_advances)
  next
    case (Cons x rest)
    have rej: "advances h oid opts v (s', on_reject s)" if "agrees h oid opts s' v" for s'
      using that by (simp add: on_reject_def advances_def)
    show ?thesis
    proof (cases x)
      case (NoticeWork notice)
      have a: "agrees h oid opts (s\<lparr>o_work := rest\<rparr>) v" using assms(1) by (simp add: agrees_def)
      show ?thesis
        using applyNotice_advances [OF a assms(2) ok] rej [OF a] Cons NoticeWork PromiseStep
        by (auto simp: run_work_def split: sum.splits)
    next
      case RefreshReading
      then obtain w where w: "oo_window opts = Some w" using assms(3) Cons by (auto simp: work_ok_def)
      show ?thesis
      proof (cases "refreshOrderedWindow h oid opts db True s")
        case (Inl err)
        then show ?thesis using Cons RefreshReading PromiseStep assms(1)
          by (auto simp: run_work_def agrees_def intro!: rej)
      next
        case (Inr r)
        then have "advances h oid opts v (fst r, snd r)" using refresh_advances [OF assms(1,2) ok w] by simp
        then show ?thesis using Cons RefreshReading PromiseStep Inr
          by (cases r) (auto simp: run_work_def intro: advances_cong)
      qed
    qed (use Cons PromiseStep assms(1) in \<open>auto simp: run_work_def agrees_def intro!: unchanged_advances\<close>)
  qed
qed

lemma emit_operation_work: "o_work (fst (emit_operation opts emit op s)) = o_work s"
  by (simp add: emit_operation_def split: option.split)

lemma refresh_work: "refreshOrderedWindow h oid opts db emit s = Inr r \<Longrightarrow> o_work (fst r) = o_work s"
  by (auto simp: refreshOrderedWindow_def rbind_eq_Inr emit_operation_work split: if_splits)

lemma applyNotice_work: "applyNotice h oid opts db emit notice s = Inr r \<Longrightarrow> o_work (fst r) = o_work s"
  by (auto simp: applyNotice_def rbind_eq_Inr emit_operation_work refresh_work Let_def
      split: if_splits source_notice.splits option.splits)

lemma step_work_ok: "work_ok opts s \<Longrightarrow> work_ok opts (fst (server_step h oid opts e s))"
proof (cases e)
  case (SourceNotice notice)
  then show "work_ok opts s \<Longrightarrow> ?thesis"
    by (cases notice) (auto simp: on_notice_def work_ok_def enqueueOrderedRefresh_def stop_observer_def)
next
  case (PromiseStep db)
  then show "work_ok opts s \<Longrightarrow> ?thesis"
    by (auto simp: run_work_def work_ok_def split: list.splits work_item.splits sum.splits if_splits
        dest!: applyNotice_work refresh_work)
qed


section \<open>Runs\<close>

fun server_run ::
  "host \<Rightarrow> (string \<Rightarrow> jsval \<Rightarrow> bool) \<Rightarrow> observer_options \<Rightarrow> observer_input list \<Rightarrow> observer \<Rightarrow> observer \<times> observer_output list" where
  "server_run h oid opts [] s = (s, [])"
| "server_run h oid opts (e # es) s =
     (let (s', out) = server_step h oid opts e s; (s'', out') = server_run h oid opts es s' in (s'', out @ out'))"

fun receive_all :: "host \<Rightarrow> observer_output list \<Rightarrow> live_view \<Rightarrow> live_view \<times> live_call list" where
  "receive_all h [] v = (v, [])"
| "receive_all h (OnDelta d # out) v =
     (let (v', calls) = handleEvent h (LiveDelta d) v; (v'', calls') = receive_all h out v' in (v'', calls @ calls'))"
| "receive_all h (OnStale # out) v = receive_all h out v"

definition in_sync :: "host \<Rightarrow> (string \<Rightarrow> jsval \<Rightarrow> bool) \<Rightarrow> observer_options \<Rightarrow> observer \<Rightarrow> live_view \<Rightarrow> bool" where
  "in_sync h oid opts s v \<longleftrightarrow> agrees h oid opts s v \<and> v_status v = Ready \<and> v_visible v = currentDocuments v"

definition good_events :: "observer_input list \<Rightarrow> bool" where
  "good_events es = list_all (\<lambda>e. case e of PromiseStep db \<Rightarrow> mongo_ok db | _ \<Rightarrow> True) es"

lemma handleEvent_delta:
  assumes "agrees h oid opts s v" "v_status v = Ready" "oo_generation opts \<noteq> []"
    and "d_subscriptionId d = oo_subscriptionId opts" "d_generation d = oo_generation opts"
    and "d_sequence d = v_sequence v + 1" "applyDelta h d v = (v', True)"
  shows "handleEvent h (LiveDelta d) v = (v', [])"
  using assms by (simp add: handleEvent_def agrees_def no_generation_def)

lemma run_in_sync:
  assumes "session_ok opts" "good_events es" "work_ok opts s" "in_sync h oid opts s v"
    and "server_run h oid opts es s = (s', out)" "OnStale \<notin> set out"
  shows "\<exists>v'. receive_all h out v = (v', []) \<and> in_sync h oid opts s' v'"
  using assms
proof (induction es arbitrary: s v out)
  case Nil
  then show ?case by simp
next
  case (Cons e es)
  obtain t o1 o2 where st: "server_step h oid opts e s = (t, o1)" "server_run h oid opts es t = (s', o2)" "out = o1 @ o2"
    using Cons.prems(5) by (auto simp: Let_def split: prod.splits)
  have ag: "agrees h oid opts s v" "v_status v = Ready" using Cons.prems(4) by (simp_all add: in_sync_def)
  have adv: "advances h oid opts v (t, o1)"
    using step_advances [OF ag(1) Cons.prems(1,3), of e] Cons.prems(2) st(1) by (cases e) (auto simp: good_events_def)
  have wk: "work_ok opts t" using step_work_ok [OF Cons.prems(3), of h oid e] st(1) by simp
  have "\<exists>v1. receive_all h o1 v = (v1, []) \<and> in_sync h oid opts t v1 \<and> (o1 = [] \<or> (\<exists>d. o1 = [OnDelta d]))"
  proof (cases "o1 = []")
    case True
    then show ?thesis using adv Cons.prems(4) by (auto simp: advances_def in_sync_def)
  next
    case False
    then obtain d v' where d: "o1 = [OnDelta d]" "d_subscriptionId d = oo_subscriptionId opts"
        "d_generation d = oo_generation opts" "d_sequence d = v_sequence v + 1" "applyDelta h d v = (v', True)"
        "agrees h oid opts t v'" "v_status v' = Ready" "v_visible v' = currentDocuments v'"
      using adv Cons.prems(6) st(3) by (auto simp: advances_def)
    then show ?thesis using handleEvent_delta [OF ag _ d(2-5)] Cons.prems(1) by (auto simp: in_sync_def session_ok_def)
  qed
  then obtain v1 where v1: "receive_all h o1 v = (v1, [])" "in_sync h oid opts t v1" "o1 = [] \<or> (\<exists>d. o1 = [OnDelta d])"
    by blast
  have "\<exists>v'. receive_all h o2 v1 = (v', []) \<and> in_sync h oid opts s' v'"
    using Cons.IH [OF Cons.prems(1) _ wk v1(2) st(2)] Cons.prems(2,6) st(3) by (auto simp: good_events_def)
  then show ?case using v1(1,3) st(3) by (auto simp: Let_def split: prod.splits)
qed


lemma run_work_ok: "work_ok opts s \<Longrightarrow> work_ok opts (fst (server_run h oid opts es s))"
proof (induction es arbitrary: s)
  case (Cons e es)
  then show ?case using Cons.IH [OF step_work_ok [OF Cons.prems, of h oid e]] by (simp add: Let_def case_prod_beta)
qed simp

section \<open>The observer's own invariant\<close>

definition obs_ok :: "host \<Rightarrow> observer_options \<Rightarrow> observer \<Rightarrow> bool" where
  "obs_ok h opts s \<longleftrightarrow>
     distinct (map fst (o_documents s)) \<and> (\<forall>(k, d) \<in> set (o_documents s). k = doc_ident h d \<and> live_doc d) \<and>
     list_all live_doc (o_orderedDocuments s) \<and> int (length (o_orderedDocuments s)) \<le> max_safe_integer \<and>
     work_ok opts s"

inductive observer_reachable ::
  "host \<Rightarrow> (string \<Rightarrow> jsval \<Rightarrow> bool) \<Rightarrow> observer_options \<Rightarrow> observer \<Rightarrow> bool" for h oid opts where
  reach_new: "observer_reachable h oid opts (start_subscribe new_observer)"
| reach_notice: "observer_reachable h oid opts s \<Longrightarrow> observer_reachable h oid opts (fst (on_notice opts n s))"
| reach_load: "observer_reachable h oid opts s \<Longrightarrow> mongo_ok db \<Longrightarrow> start_load h opts db s = Inr s' \<Longrightarrow>
    observer_reachable h oid opts s'"
| reach_drain: "observer_reachable h oid opts s \<Longrightarrow> mongo_ok db \<Longrightarrow> start_drain h oid opts db s = Inr s' \<Longrightarrow>
    observer_reachable h oid opts s'"
| reach_complete: "observer_reachable h oid opts s \<Longrightarrow> start_complete opts s = Inr (s', snap) \<Longrightarrow>
    observer_reachable h oid opts s'"
| reach_work: "observer_reachable h oid opts s \<Longrightarrow> mongo_ok db \<Longrightarrow>
    observer_reachable h oid opts (fst (run_work h oid opts db s))"
| reach_stop: "observer_reachable h oid opts s \<Longrightarrow> observer_reachable h oid opts (stop_observer s)"

lemma obs_ok_cong:
  "o_documents s' = o_documents s \<Longrightarrow> o_orderedDocuments s' = o_orderedDocuments s \<Longrightarrow> o_work s' = o_work s \<Longrightarrow>
   obs_ok h opts s' = obs_ok h opts s"
  by (simp add: obs_ok_def work_ok_def)

lemma obs_ok_docs:
  "obs_ok h opts s \<Longrightarrow> live_doc p \<Longrightarrow> doc_ident h p = key \<Longrightarrow> obs_ok h opts (s\<lparr>o_documents := jm_set key p (o_documents s)\<rparr>)"
  by (auto simp: obs_ok_def work_ok_def distinct_update jm_set_entries)

lemma obs_ok_delete: "obs_ok h opts s \<Longrightarrow> obs_ok h opts (s\<lparr>o_documents := jm_delete key (o_documents s)\<rparr>)"
  by (auto simp: obs_ok_def work_ok_def distinct_delete jm_delete_set)

lemma obs_ok_emit: "obs_ok h opts (fst (emit_operation opts emit op s)) = obs_ok h opts s"
  by (cases op) (auto simp: emit_operation_def obs_ok_def work_ok_def)

lemma stored_length:
  assumes "session_ok opts" "oo_window opts = Some w" "readSnapshotDocuments opts db = Inr stored"
    and "rtraverse (project_document opts) stored = Inr current"
  shows "int (length current) \<le> max_safe_integer"
  using assms rtraverse_length [OF assms(4)]
  by (auto simp: readSnapshotDocuments_def session_ok_def split: option.splits)

lemma projected_live:
  assumes "session_ok opts" "rtraverse (project_document opts) stored = Inr current"
  shows "list_all live_doc current"
  using assms list_all2_rightD [OF rtraverse_project [OF assms(2)]]
  by (auto simp: session_ok_def list_all_iff)

lemma refresh_obs_ok:
  assumes "obs_ok h opts s" "session_ok opts" "oo_window opts = Some w"
    and "refreshOrderedWindow h oid opts db emit s = Inr r"
  shows "obs_ok h opts (fst r)"
proof (cases "o_stopped s")
  case False
  then obtain stored current operation where
      r: "readSnapshotDocuments opts db = Inr stored" "rtraverse (project_document opts) stored = Inr current"
        "r = emit_operation opts emit operation (s\<lparr>o_orderedDocuments := current\<rparr>)"
    using assms(4) by (auto simp: refreshOrderedWindow_def rbind_eq_Inr)
  have "obs_ok h opts (s\<lparr>o_orderedDocuments := current\<rparr>)"
    using assms(1) stored_length [OF assms(2,3) r(1,2)] projected_live [OF assms(2) r(2)]
    by (simp add: obs_ok_def work_ok_def)
  then show ?thesis using r(3) obs_ok_emit by simp
qed (use assms in \<open>auto simp: refreshOrderedWindow_def rbind_eq_Inr\<close>)

lemma applyNotice_cases:
  assumes "applyNotice h oid opts db emit notice s = Inr r"
  obtains "fst r = s"
  | w where "oo_window opts = Some w" "refreshOrderedWindow h oid opts db emit s = Inr r"
  | op k where "r = emit_operation opts emit op (s\<lparr>o_documents := jm_delete k (o_documents s)\<rparr>)"
  | op i d p where "findOne db i = Inr (Some d)" "project_document opts d = Inr p"
      "r = emit_operation opts emit op
         (s\<lparr>o_documents := jm_set (canonicalId h (toClientId (oo_typedObjectIds opts) i)) p (o_documents s)\<rparr>)"
proof (cases notice)
  case (Change n i deleted)
  then show thesis
    using assms that unfolding applyNotice_def Let_def
    by (cases "o_stopped s"; cases "oo_window opts"; cases deleted; cases "findOne db i")
      (fastforce simp: rbind_eq_Inr split: option.splits)+
next
  case Reset
  then show thesis using assms that(1) by (auto simp: applyNotice_def split: if_splits)
qed

lemma applyNotice_obs_ok:
  assumes "obs_ok h opts s" "session_ok opts" "applyNotice h oid opts db emit notice s = Inr r"
  shows "obs_ok h opts (fst r)"
proof -
  have stored: "obs_ok h opts (s\<lparr>o_documents := jm_set (canonicalId h (toClientId (oo_typedObjectIds opts) i)) p (o_documents s)\<rparr>)"
    if "findOne db i = Inr (Some d)" "project_document opts d = Inr p" for i d p
  proof -
    have "get_prop d ''_id'' = i" using that(1) by (auto simp: findOne_def find_Some_iff split: option.splits)
    then show ?thesis using project_document_ident [OF that(2), of h] assms(2) that(2)
      by (intro obs_ok_docs [OF assms(1)]) (auto simp: session_ok_def)
  qed
  from assms(3) show ?thesis
  proof (cases rule: applyNotice_cases)
    case (2 w)
    then show ?thesis using refresh_obs_ok [OF assms(1,2)] by blast
  qed (use assms(1) stored in \<open>simp_all add: obs_ok_emit obs_ok_delete\<close>)
qed


lemma load_obs_ok:
  assumes "obs_ok h opts s" "session_ok opts" "start_load h opts db s = Inr s'"
  shows "obs_ok h opts s'"
proof -
  obtain stored projected where r: "readSnapshotDocuments opts db = Inr stored"
      "rtraverse (project_document opts) stored = Inr projected"
      "s' = (if oo_window opts \<noteq> None then s\<lparr>o_orderedDocuments := projected\<rparr>
        else s\<lparr>o_documents := foldl (\<lambda>m p. jm_set (doc_ident h p) p m) (o_documents s) projected\<rparr>)"
    using assms(3) by (auto simp: start_load_def rbind_eq_Inr split: if_splits)
  have live: "list_all live_doc projected" using assms(2) r(2) by (rule projected_live)
  show ?thesis
  proof (cases "oo_window opts")
    case None
    have "obs_ok h opts (s\<lparr>o_documents := foldl (\<lambda>m p. jm_set (doc_ident h p) p m) (o_documents s) ps\<rparr>)"
      if "list_all live_doc ps" for ps
      using that
    proof (induction ps rule: rev_induct)
      case (snoc p ps)
      then have "obs_ok h opts (s\<lparr>o_documents := foldl (\<lambda>m p. jm_set (doc_ident h p) p m) (o_documents s) ps\<rparr>)" by simp
      from obs_ok_docs [OF this, of p] show ?case using snoc.prems by simp
    qed (simp add: assms(1))
    then show ?thesis using r(3) None live by simp
  next
    case (Some w)
    then show ?thesis using r(3) assms(1) live stored_length [OF assms(2) Some r(1,2)]
      by (simp add: obs_ok_def work_ok_def)
  qed
qed

lemma run_work_obs_ok:
  assumes "obs_ok h opts s" "session_ok opts"
  shows "obs_ok h opts (fst (run_work h oid opts db s))"
proof (cases "o_work s")
  case Nil
  then show ?thesis using assms(1) by (simp add: run_work_def)
next
  case (Cons x rest)
  have wk: "work_ok opts (fst (run_work h oid opts db s))"
    using step_work_ok [of opts s h oid "PromiseStep db"] assms(1) by (simp add: obs_ok_def)
  have a: "obs_ok h opts (s\<lparr>o_work := rest\<rparr>)" using assms(1) Cons by (simp add: obs_ok_def work_ok_def)
  show ?thesis
  proof (cases x)
    case (NoticeWork n)
    then show ?thesis using Cons applyNotice_obs_ok [OF a assms(2)] a by (auto simp: run_work_def split: sum.splits)
  next
    case RefreshReading
    then obtain w where w: "oo_window opts = Some w" using assms(1) Cons by (auto simp: obs_ok_def work_ok_def)
    show ?thesis
      using wk assms(1) Cons RefreshReading refresh_obs_ok [OF assms w]
      by (auto simp: run_work_def obs_ok_def split: sum.splits)
  qed (use wk assms(1) Cons in \<open>auto simp: run_work_def obs_ok_def\<close>)
qed

lemma drain_obs_ok:
  assumes "obs_ok h opts s" "session_ok opts" "start_drain h oid opts db s = Inr s'"
  shows "obs_ok h opts s'"
proof (cases "o_bufferedNotices s")
  case Nil
  then show ?thesis using assms(1,3) by (simp add: start_drain_def split: if_splits)
next
  case (Cons notice rest)
  have ok: "obs_ok h opts (s\<lparr>o_bufferedNotices := rest\<rparr>)" using assms(1) by (simp add: obs_ok_def work_ok_def)
  obtain out where "applyNotice h oid opts db False notice (s\<lparr>o_bufferedNotices := rest\<rparr>) = Inr (s', out)"
    using assms(3) Cons by (auto simp: start_drain_def rbind_eq_Inr split: if_splits)
  from applyNotice_obs_ok [OF ok assms(2) this] show ?thesis by simp
qed

lemma on_notice_obs_ok: "obs_ok h opts s \<Longrightarrow> obs_ok h opts (fst (on_notice opts n s))"
  by (cases n) (auto simp: on_notice_def obs_ok_def enqueueOrderedRefresh_def stop_observer_def work_ok_def)

lemma reachable_obs_ok:
  assumes "observer_reachable h oid opts s" "session_ok opts"
  shows "obs_ok h opts s"
  using assms(1)
proof induction
  case reach_new
  show ?case by (simp add: obs_ok_def work_ok_def start_subscribe_def new_observer_def max_safe_integer_def)
next
  case (reach_drain s db s')
  then show ?case by (intro drain_obs_ok [OF reach_drain.IH assms(2)])
next
  case (reach_notice s n)
  then show ?case by (intro on_notice_obs_ok)
next
  case (reach_load s db s')
  then show ?case using load_obs_ok [OF reach_load.IH assms(2)] by blast
next
  case (reach_complete s s' snap)
  then show ?case by (auto simp: start_complete_def obs_ok_def work_ok_def split: if_splits)
next
  case (reach_work s db)
  then show ?case using run_work_obs_ok [OF reach_work.IH assms(2)] by blast
next
  case (reach_stop s)
  then show ?case by (simp add: stop_observer_def obs_ok_def work_ok_def)
qed


section \<open>The snapshot and the deltas that overtake it\<close>

lemma foldl_set_values:
  assumes "distinct (map fst xs)" "\<forall>(k, d) \<in> set xs. k = ident d"
  shows "foldl (\<lambda>m d. jm_set (ident d) d m) [] (map snd xs) = xs"
  using assms
proof (induction xs rule: rev_induct)
  case (snoc x xs)
  then show ?case by (cases x) (auto simp: jm_set_fresh)
qed simp

lemma load_agrees:
  assumes "obs_ok h opts s" "start_complete opts s = Inr (s', snap)"
    and "\<not> v_stopped v" "v_subscriptionId v = oo_subscriptionId opts"
  shows "agrees h oid opts s' ((load_snapshot h snap v)\<lparr>v_bufferedDeltas := []\<rparr>)"
proof -
  have s': "s' = s\<lparr>o_initializing := False\<rparr>" "snap = \<lparr>s_subscriptionId = oo_subscriptionId opts,
      s_generation = oo_generation opts, s_sequence = o_sequence s, s_ordered = Some (oo_window opts \<noteq> None),
      s_documents = (if oo_window opts \<noteq> None then o_orderedDocuments s else jm_values (o_documents s))\<rparr>"
    using assms(2) by (auto simp: start_complete_def split: if_splits)
  have docs: "foldl (\<lambda>m d. jm_set (doc_ident h d) d m) [] (jm_values (o_documents s)) = o_documents s"
    using assms(1) by (intro foldl_set_values) (auto simp: obs_ok_def)
  have "list_all2 (entry_agrees oid) (o_documents s) (o_documents s)"
    using assms(1) live_docs.eq_refl by (fastforce simp: obs_ok_def entry_agrees_def list_all2_same)
  moreover have "list_all2 (doc_agrees oid) (o_orderedDocuments s) (o_orderedDocuments s)"
    using assms(1) live_docs.eq_refl by (auto simp: obs_ok_def doc_agrees_def list_all2_same list_all_iff)
  ultimately show ?thesis
    using assms(1,3,4) docs by (auto simp: s' agrees_def load_snapshot_def obs_ok_def)
qed

lemma replay_run:
  assumes "session_ok opts" "good_events es" "work_ok opts s" "agrees h oid opts s v"
    and "server_run h oid opts es s = (s', map OnDelta early)"
  shows "\<exists>v'. replay_buffered h early v = (v', True) \<and> agrees h oid opts s' v'"
  using assms
proof (induction es arbitrary: s v early)
  case (Cons e es)
  obtain t o1 o2 where st: "server_step h oid opts e s = (t, o1)" "server_run h oid opts es t = (s', o2)"
      "map OnDelta early = o1 @ o2"
    using Cons.prems(5) by (auto simp: Let_def split: prod.splits)
  then obtain e1 e2 where e: "early = e1 @ e2" "o1 = map OnDelta e1" "o2 = map OnDelta e2"
    by (auto simp: map_eq_append_conv)
  have adv: "advances h oid opts v (t, o1)"
    using step_advances [OF Cons.prems(4,1,3), of e] Cons.prems(2) st(1) by (cases e) (auto simp: good_events_def)
  have wk: "work_ok opts t" using step_work_ok [OF Cons.prems(3), of h oid e] st(1) by simp
  have IH: "\<exists>v'. replay_buffered h e2 w = (v', True) \<and> agrees h oid opts s' v'" if "agrees h oid opts t w" for w
    using Cons.IH [OF Cons.prems(1) _ wk that] Cons.prems(2) st(2) e(3) by (auto simp: good_events_def)
  show ?case
  proof (cases e1)
    case Nil
    then show ?thesis using adv e IH by (auto simp: advances_def)
  next
    case (Cons d ds)
    then obtain v' where d: "e1 = [d]" "d_generation d = oo_generation opts" "d_sequence d = v_sequence v + 1"
        "applyDelta h d v = (v', True)" "agrees h oid opts t v'"
      using adv e by (auto simp: advances_def)
    then show ?thesis using IH [OF d(5)] e(1) \<open>agrees h oid opts s v\<close> by (auto simp: agrees_def)
  qed
qed simp

definition overtaken :: "live_snapshot \<Rightarrow> live_delta \<Rightarrow> bool" where
  "overtaken snap d \<longleftrightarrow> d_generation d \<noteq> s_generation snap \<or> d_sequence d \<le> s_sequence snap"

lemma replay_skips:
  assumes "list_all (\<lambda>d. Some (d_generation d) \<noteq> v_generation v \<or> d_sequence d \<le> v_sequence v) junk"
  shows "replay_buffered h (junk @ ds) v = replay_buffered h ds v"
  using assms by (induction junk) auto

lemma snapshot_in_sync:
  assumes "session_ok opts" "obs_ok h opts s" "start_complete opts s = Inr (t, snap)"
    and "good_events es" "server_run h oid opts es t = (s', map OnDelta early)"
    and "\<not> v_stopped v" "v_subscriptionId v = oo_subscriptionId opts"
    and "v_bufferedDeltas v = junk @ early" "list_all (overtaken snap) junk"
  shows "\<exists>v'. applySnapshot h snap v = (v', []) \<and> in_sync h oid opts s' v'"
proof -
  let ?v = "(load_snapshot h snap v)\<lparr>v_bufferedDeltas := []\<rparr>"
  have a: "agrees h oid opts t ?v" using load_agrees [OF assms(2,3,6,7)] .
  have wk: "work_ok opts t" using assms(2,3) by (auto simp: start_complete_def obs_ok_def work_ok_def split: if_splits)
  obtain v' where v': "replay_buffered h early ?v = (v', True)" "agrees h oid opts s' v'"
    using replay_run [OF assms(1,4) wk a assms(5)] by blast
  have "replay_buffered h (junk @ early) ?v = (v', True)"
    using assms(9) v'(1) by (subst replay_skips) (auto simp: load_snapshot_def Let_def overtaken_def list_all_iff)
  then have "applySnapshot h snap v = (updateSnapshot Ready v', [])"
    using assms(6,8) by (simp add: applySnapshot_def)
  then show ?thesis using v'(2) by (simp add: in_sync_def updateSnapshot_fields)
qed

section \<open>Properties\<close>

text \<open>
  C1: Live queries are correct end to end. Take any reachable observer whose initial snapshot
  completes, any interleaving of change notices and promise steps after it, and a client that
  buffers the deltas which overtake the snapshot reply (after any obsolete ones) and receives the
  rest in order. As long as the server does not declare the subscription stale, the client accepts
  every delta without a resync and ends in the ready state with the server's generation, sequence
  number and, up to \<open>EJSON.equals\<close>, exactly the server's documents in the server's order.
\<close>

theorem live_query_end_to_end:
  assumes "session_ok opts" "observer_reachable h oid opts s" "start_complete opts s = Inr (t, snap)"
    and "good_events es1" "server_run h oid opts es1 t = (s1, map OnDelta early)"
    and "good_events es2" "server_run h oid opts es2 s1 = (s2, late)" "OnStale \<notin> set late"
    and "\<not> v_stopped v" "v_subscriptionId v = oo_subscriptionId opts"
    and "v_bufferedDeltas v = junk @ early" "list_all (overtaken snap) junk"
  shows "\<exists>v1 v2. call_reply h (v_connectionEpoch v) (Inr snap) v = (v1, []) \<and> receive_all h late v1 = (v2, []) \<and>
     v_status v2 = Ready \<and> v_generation v2 = Some (oo_generation opts) \<and> v_sequence v2 = o_sequence s2 \<and>
     list_all2 (doc_equals oid) (v_visible v2)
       (if oo_window opts \<noteq> None then o_orderedDocuments s2 else jm_values (o_documents s2))"
proof -
  have ok: "obs_ok h opts s" using reachable_obs_ok [OF assms(2,1)] .
  obtain v1 where v1: "applySnapshot h snap v = (v1, [])" "in_sync h oid opts s1 v1"
    using snapshot_in_sync [OF assms(1) ok assms(3,4,5,9-12)] by blast
  have "work_ok opts t" using ok assms(3) by (auto simp: start_complete_def obs_ok_def work_ok_def split: if_splits)
  then have wk: "work_ok opts s1" using run_work_ok assms(5) by (metis fst_conv)
  obtain v2 where v2: "receive_all h late v1 = (v2, [])" "in_sync h oid opts s2 v2"
    using run_in_sync [OF assms(1,6) wk v1(2) assms(7,8)] by blast
  have "list_all2 (doc_equals oid) (v_visible v2)
       (if oo_window opts \<noteq> None then o_orderedDocuments s2 else jm_values (o_documents s2))"
    using v2(2) by (auto simp: in_sync_def agrees_def currentDocuments_def doc_agrees_split entry_agrees_def
        list_all2_map1 list_all2_map2 elim!: list_all2_mono)
  then show ?thesis using v1(1) v2 by (auto simp: call_reply_def in_sync_def agrees_def)
qed


definition sample_options :: observer_options where
  "sample_options = \<lparr>oo_subscriptionId = ''sub'', oo_generation = ''gen'', oo_window = None, oo_typedObjectIds = True,
     oo_project = (\<lambda>d. case get_prop d ''text'' of JStr t \<Rightarrow> Inr [(''text'', JStr t)] | _ \<Rightarrow> Inl (Error ''no text'')),
     oo_maxSnapshotDocuments = 10\<rparr>"

definition sample_db :: "jsval list \<Rightarrow> mongo_read" where
  "sample_db docs = \<lparr>mr_matching = docs, mr_sort = (\<lambda>_ xs. xs), mr_failure = None\<rparr>"

lemma sample_project [simp]: "project_document sample_options (note_doc i t) = Inr (note_doc i t)"
  by (simp add: project_document_def sample_options_def note_doc_def obj_get_def readLiveId_def toClientId_def jm_has_def
      obj_set_def array_index_def is_digit_def less_eq_char_def)

lemma live_id_diff_safe: "live_id i \<Longrightarrow> diff_safe i"
  by (auto elim!: live_id.elims)

lemma sample_fields [simp]:
  "oo_window sample_options = None" "oo_maxSnapshotDocuments sample_options = 10" "oo_typedObjectIds sample_options"
  "oo_subscriptionId sample_options = ''sub''" "oo_generation sample_options = ''gen''"
  by (simp_all add: sample_options_def)

lemma sample_session: "session_ok sample_options"
  by (auto simp: session_ok_def sample_options_def project_document_def live_doc_def jm_has_def obj_set_def obj_get_def
      array_index_def is_digit_def less_eq_char_def rbind_eq_Inr live_id_diff_safe dest!: toClientId_live
      split: option.splits jsval.splits if_splits)

definition sample_observer :: observer where
  "sample_observer = (start_subscribe new_observer)\<lparr>o_documents := [(Some (JStr ''a''), note_doc ''a'' ''x'')]\<rparr>"

lemma sample_reachable: "observer_reachable plain_host noid sample_options sample_observer"
proof (rule reach_load [OF reach_new])
  show "mongo_ok (sample_db [note_doc ''a'' ''x''])" by (simp add: mongo_ok_def sample_db_def)
  show "start_load plain_host sample_options (sample_db [note_doc ''a'' ''x'']) (start_subscribe new_observer) = Inr sample_observer"
    by (simp add: start_load_def readSnapshotDocuments_def sample_db_def sample_observer_def start_subscribe_def new_observer_def)
qed


definition sample_delta :: "nat \<Rightarrow> live_operation \<Rightarrow> live_delta" where
  "sample_delta n op = delta_of sample_options n op"

theorem live_query_end_to_end_witness:
  "\<exists>v1 v2. call_reply plain_host 0
       (Inr \<lparr>s_subscriptionId = ''sub'', s_generation = ''gen'', s_sequence = 0, s_ordered = Some False,
             s_documents = [note_doc ''a'' ''x'']\<rparr>)
       ((new_view ''sub'')\<lparr>v_bufferedDeltas := [sample_delta 1 (Added (note_doc ''b'' ''y''))]\<rparr>) = (v1, []) \<and>
     receive_all plain_host [OnDelta (sample_delta 2 (Removed (JStr ''a'')))] v1 = (v2, []) \<and>
     list_all2 (doc_equals noid) (v_visible v2) [note_doc ''b'' ''y'']"
proof -
  let ?v = "(new_view ''sub'')\<lparr>v_bufferedDeltas := [sample_delta 1 (Added (note_doc ''b'' ''y''))]\<rparr>"
  let ?t = "sample_observer\<lparr>o_initializing := False\<rparr>"
  let ?ab = "[(Some (JStr ''a''), note_doc ''a'' ''x''), (Some (JStr ''b''), note_doc ''b'' ''y'')]"
  let ?b = "[(Some (JStr ''b''), note_doc ''b'' ''y'')]"
  let ?snap = "\<lparr>s_subscriptionId = ''sub'', s_generation = ''gen'', s_sequence = 0, s_ordered = Some False,
             s_documents = [note_doc ''a'' ''x'']\<rparr>"
  let ?db1 = "sample_db [note_doc ''a'' ''x'', note_doc ''b'' ''y'']" and ?db2 = "sample_db [note_doc ''b'' ''y'']"
  let ?es1 = "[SourceNotice (Change 1 (JStr ''b'') False), PromiseStep ?db1]"
  let ?es2 = "[SourceNotice (Change 2 (JStr ''a'') True), PromiseStep ?db2]"
  have id: "get_prop (note_doc i t) ''_id'' = JStr i" for i t by (simp add: note_doc_def obj_get_def)
  have run: "server_run plain_host noid sample_options ?es1 ?t =
      (?t\<lparr>o_documents := ?ab, o_sequence := 1\<rparr>, [OnDelta (sample_delta 1 (Added (note_doc ''b'' ''y'')))])"
    "server_run plain_host noid sample_options ?es2 (?t\<lparr>o_documents := ?ab, o_sequence := 1\<rparr>) =
      (?t\<lparr>o_documents := ?b, o_sequence := 2\<rparr>, [OnDelta (sample_delta 2 (Removed (JStr ''a'')))])"
    by (simp_all add: sample_observer_def start_subscribe_def new_observer_def on_notice_def run_work_def applyNotice_def
        toClientId_def canonicalId_str findOne_def sample_db_def id emit_operation_def sample_delta_def numeral_2_eq_2)
  have start: "start_complete sample_options sample_observer = Inr (?t, ?snap)"
    by (simp add: start_complete_def sample_observer_def start_subscribe_def new_observer_def)
  show ?thesis
    using live_query_end_to_end [OF sample_session sample_reachable start, of ?es1 _ "[_]" ?es2 _ _ ?v "[]", OF _ _ _ run(2)]
      run(1)
    by (fastforce simp: good_events_def mongo_ok_def sample_db_def id new_view_def)
qed

end
