(* ===== verification/LiveProps.thy ===== *)
theory LiveProps
  imports LiveSync
begin

text \<open>
  Further properties of live queries: the client's delivery order, what the observer's documents
  mean with respect to the database, and which notices lead to a new read of an ordered window.
\<close>

section \<open>Delivery order\<close>

lemma resync_view_docs:
  "v_documents (fst (resync_view v)) = v_documents v" "v_orderedDocuments (fst (resync_view v)) = v_orderedDocuments v"
  "v_sequence (fst (resync_view v)) = v_sequence v"
  by (simp_all add: resync_view_def start_view_def updateSnapshot_def notify_def Let_def)

lemma resync_view_keeps:
  assumes "resync_view v = (v', calls)"
  shows "v_documents v' = v_documents v \<and> v_orderedDocuments v' = v_orderedDocuments v \<and> v_sequence v' = v_sequence v"
  using resync_view_docs [of v] assms by simp



section \<open>What the observer's documents mean\<close>

definition notice_key :: "host \<Rightarrow> observer_options \<Rightarrow> source_notice \<Rightarrow> jsval option" where
  "notice_key h opts n = canonicalId h (toClientId (oo_typedObjectIds opts) (n_id n))"

definition notice_view :: "observer_options \<Rightarrow> source_notice \<Rightarrow> mongo_read \<Rightarrow> jsval option" where
  "notice_view opts n db =
     (if n_deleted n then None
      else case findOne db (n_id n) of
        Inr (Some d) \<Rightarrow> (case project_document opts d of Inr p \<Rightarrow> Some p | Inl _ \<Rightarrow> None)
      | _ \<Rightarrow> None)"

fun last_read :: "host \<Rightarrow> observer_options \<Rightarrow> jsval option \<Rightarrow> (source_notice \<times> mongo_read) list \<Rightarrow> jsval option option" where
  "last_read h opts k [] = None"
| "last_read h opts k ((n, db) # rest) =
     (case last_read h opts k rest of
        Some r \<Rightarrow> Some r
      | None \<Rightarrow> if notice_key h opts n = k then Some (notice_view opts n db) else None)"

definition process ::
  "host \<Rightarrow> (string \<Rightarrow> jsval \<Rightarrow> bool) \<Rightarrow> observer_options \<Rightarrow> observer \<Rightarrow> (source_notice \<times> mongo_read) list \<Rightarrow> observer js" where
  "process h oid opts s reads =
     rfoldl (\<lambda>s (n, db). rbind (applyNotice h oid opts db True n s) (\<lambda>r. Inr (fst r))) s reads"

lemma emit_operation_docs:
  "o_documents (fst (emit_operation opts emit op s)) = o_documents s"
  "o_stopped (fst (emit_operation opts emit op s)) = o_stopped s"
  by (simp_all add: emit_operation_def split: option.split)

lemma applyNotice_tracks:
  assumes "applyNotice h oid opts db emit (Change m i del) s = Inr r" "oo_window opts = None" "\<not> o_stopped s"
  shows "map_of (o_documents (fst r)) k =
      (if notice_key h opts (Change m i del) = k then notice_view opts (Change m i del) db else map_of (o_documents s) k)"
    and "\<not> o_stopped (fst r)"
proof -
  let ?key = "canonicalId h (toClientId (oo_typedObjectIds opts) i)"
  have "map_of (o_documents (fst r)) k = (if ?key = k then notice_view opts (Change m i del) db else map_of (o_documents s) k)
      \<and> \<not> o_stopped (fst r)"
  proof (cases del)
    case True
    then show ?thesis using assms
      by (cases "map_of (o_documents s) ?key") (auto simp: applyNotice_def notice_view_def emit_operation_docs Let_def)
  next
    case False
    then obtain found where f: "findOne db i = Inr found"
      using assms by (auto simp: applyNotice_def Let_def rbind_eq_Inr)
    show ?thesis
    proof (cases found)
      case None
      then show ?thesis using assms False f
        by (cases "map_of (o_documents s) ?key") (auto simp: applyNotice_def notice_view_def emit_operation_docs Let_def)
    next
      case (Some d)
      then obtain p where "project_document opts d = Inr p"
        using assms False f by (auto simp: applyNotice_def Let_def rbind_eq_Inr)
      then show ?thesis using assms False f Some
        by (auto simp: applyNotice_def notice_view_def emit_operation_docs Let_def)
    qed
  qed
  then show "map_of (o_documents (fst r)) k =
      (if notice_key h opts (Change m i del) = k then notice_view opts (Change m i del) db else map_of (o_documents s) k)"
    "\<not> o_stopped (fst r)" by (simp_all add: notice_key_def)
qed

text \<open>
  C20: The observer tracks the database. Along any processed sequence of change notices, each with
  the read performed for it, an unordered observer holds under every identity key exactly the
  projection of the last read made for that key, or nothing when that read found no matching
  document or the notice was a deletion, and keeps its earlier entry for keys without a notice.
\<close>

theorem observer_tracks_last_read:
  assumes "process h oid opts s reads = Inr s'" "oo_window opts = None" "\<not> o_stopped s"
    and "list_all (\<lambda>(n, db). \<exists>m i del. n = Change m i del) reads"
  shows "map_of (o_documents s') k = (case last_read h opts k reads of None \<Rightarrow> map_of (o_documents s) k | Some r \<Rightarrow> r)"
  using assms
proof (induction reads arbitrary: s)
  case Nil
  then show ?case by (simp add: process_def)
next
  case (Cons e reads)
  obtain m i del db where e: "e = (Change m i del, db)" using Cons.prems(4) by (cases e) auto
  obtain r where r: "applyNotice h oid opts db True (Change m i del) s = Inr r" "process h oid opts (fst r) reads = Inr s'"
    using Cons.prems(1) e by (auto simp: process_def rbind_eq_Inr)
  show ?case
    using Cons.IH [OF r(2) Cons.prems(2)] applyNotice_tracks [OF r(1) Cons.prems(2,3)] Cons.prems(4) e
    by (auto split: option.splits)
qed

theorem observer_tracks_last_read_witness:
  "map_of (o_documents (sample_observer\<lparr>o_documents := [], o_sequence := 1\<rparr>)) (Some (JStr ''a'')) = None \<and>
   process plain_host noid sample_options sample_observer
     [(Change 1 (JStr ''a'') False, sample_db [])] = Inr (sample_observer\<lparr>o_documents := [], o_sequence := 1\<rparr>)"
proof -
  let ?reads = "[(Change 1 (JStr ''a'') False, sample_db [])]"
  have p: "process plain_host noid sample_options sample_observer ?reads = Inr (sample_observer\<lparr>o_documents := [], o_sequence := 1\<rparr>)"
    by (simp add: process_def applyNotice_def sample_observer_def start_subscribe_def new_observer_def toClientId_def
        canonicalId_str findOne_def sample_db_def emit_operation_def)
  have "map_of (o_documents (sample_observer\<lparr>o_documents := [], o_sequence := 1\<rparr>)) (Some (JStr ''a'')) =
      (case last_read plain_host sample_options (Some (JStr ''a'')) ?reads of
         None \<Rightarrow> map_of (o_documents sample_observer) (Some (JStr ''a'')) | Some r \<Rightarrow> r)"
  proof (rule observer_tracks_last_read [OF p])
    show "\<not> o_stopped sample_observer" by (simp add: sample_observer_def start_subscribe_def new_observer_def)
    show "list_all (\<lambda>(n, db). \<exists>m i del. n = Change m i del) ?reads" by auto
  qed simp
  then show ?thesis using p by simp
qed

section \<open>Ordered refreshes\<close>

definition refresh_item :: "work_item \<Rightarrow> bool" where
  "refresh_item x \<longleftrightarrow> x = RefreshQueued \<or> x = RefreshReading \<or> x = RefreshSettling"

definition refresh_inv :: "observer \<Rightarrow> bool" where
  "refresh_inv s \<longleftrightarrow> length (filter refresh_item (o_work s)) = (if o_orderedRefreshRunning s then 1 else 0)"

lemma emit_operation_refresh:
  "o_work (fst (emit_operation opts emit op s)) = o_work s"
  "o_orderedRefreshRunning (fst (emit_operation opts emit op s)) = o_orderedRefreshRunning s"
  by (simp_all add: emit_operation_def split: option.split)

lemma refresh_refresh:
  "refreshOrderedWindow h oid opts db emit s = Inr r \<Longrightarrow>
   o_work (fst r) = o_work s \<and> o_orderedRefreshRunning (fst r) = o_orderedRefreshRunning s"
  by (auto simp: refreshOrderedWindow_def rbind_eq_Inr emit_operation_refresh split: if_splits)

lemma applyNotice_refresh:
  assumes "applyNotice h oid opts db emit n s = Inr r"
  shows "o_work (fst r) = o_work s \<and> o_orderedRefreshRunning (fst r) = o_orderedRefreshRunning s"
  using assms by (cases rule: applyNotice_cases) (auto simp: emit_operation_refresh dest: refresh_refresh)

lemma reachable_refresh_inv: "observer_reachable h oid opts s \<Longrightarrow> refresh_inv s"
proof (induction rule: observer_reachable.induct)
  case (reach_notice s n)
  then show ?case
    by (cases n) (auto simp: on_notice_def enqueueOrderedRefresh_def stop_observer_def refresh_inv_def refresh_item_def)
next
  case (reach_load s db s')
  then show ?case by (auto simp: start_load_def rbind_eq_Inr refresh_inv_def split: if_splits)
next
  case (reach_drain s db s')
  then show ?case
    by (auto simp: start_drain_def rbind_eq_Inr refresh_inv_def dest!: applyNotice_refresh split: if_splits list.splits)
next
  case (reach_work s db)
  then show ?case
    by (auto simp: run_work_def refresh_inv_def refresh_item_def dest!: applyNotice_refresh refresh_refresh
        split: list.splits work_item.splits sum.splits if_splits)
qed (auto simp: start_subscribe_def new_observer_def refresh_inv_def start_complete_def stop_observer_def split: if_splits)

definition read_ahead :: "observer \<Rightarrow> bool" where
  "read_ahead s \<longleftrightarrow> RefreshQueued \<in> set (o_work s) \<or> (RefreshReading \<in> set (o_work s) \<and> o_orderedRefreshPending s)"

text \<open>
  C26: An ordered subscription re-reads its window after a change: when a change notice reaches an
  initialized ordered observer that is not between the end of a refresh and its \<open>finally\<close> handler,
  a read that has not started yet is scheduled, so it will see the change. In that one gap the
  notice is lost: the handler clears the pending flag and nothing is scheduled any more.
\<close>

theorem ordered_notice_schedules_read:
  assumes "observer_reachable h oid opts s" "oo_window opts \<noteq> None" "o_subscribed s" "\<not> o_initializing s"
  shows "if RefreshSettling \<in> set (o_work s)
     then o_work s = [RefreshSettling] \<longrightarrow>
       (let s' = fst (run_work h oid opts db (fst (on_notice opts (Change n i del) s)))
        in o_work s' = [] \<and> \<not> o_orderedRefreshPending s' \<and> \<not> o_orderedRefreshRunning s')
     else read_ahead (fst (on_notice opts (Change n i del) s))"
proof -
  have inv: "refresh_inv s" using assms(1) by (rule reachable_refresh_inv)
  show ?thesis
  proof (cases "o_orderedRefreshRunning s")
    case True
    then have "filter refresh_item (o_work s) \<noteq> []" using inv by (auto simp: refresh_inv_def)
    then obtain x where "x \<in> set (o_work s)" "refresh_item x" by (auto simp: filter_empty_conv)
    then show ?thesis using True assms(2-4)
      by (auto simp: on_notice_def enqueueOrderedRefresh_def read_ahead_def run_work_def refresh_item_def)
  next
    case False
    then have "filter refresh_item (o_work s) = []" using inv by (simp add: refresh_inv_def)
    then have "RefreshSettling \<notin> set (o_work s)" by (auto simp: filter_empty_conv refresh_item_def)
    then show ?thesis using False assms(2-4) by (auto simp: on_notice_def enqueueOrderedRefresh_def read_ahead_def)
  qed
qed

definition ordered_options :: observer_options where
  "ordered_options = sample_options\<lparr>oo_window := Some \<lparr>w_sort = [(''_id'', 1)], w_skip = 0, w_limit = 5\<rparr>\<rparr>"

definition ordered_observer :: observer where
  "ordered_observer = (start_subscribe new_observer)\<lparr>o_initializing := False\<rparr>"

theorem ordered_notice_schedules_read_witness:
  "read_ahead (fst (on_notice ordered_options (Change 1 (JStr ''a'') False) ordered_observer))"
proof -
  have r: "observer_reachable plain_host noid ordered_options ordered_observer"
    by (rule reach_complete [OF reach_new])
      (auto simp: start_complete_def ordered_observer_def start_subscribe_def new_observer_def)
  have f: "RefreshSettling \<notin> set (o_work ordered_observer)" "oo_window ordered_options \<noteq> None"
      "o_subscribed ordered_observer" "\<not> o_initializing ordered_observer"
    by (simp_all add: ordered_observer_def ordered_options_def start_subscribe_def new_observer_def)
  show ?thesis using ordered_notice_schedules_read [OF r f(2-4)] f(1) by (simp only: if_False)
qed

end
