(* ===== verification/LiveEngine.thy ===== *)
theory LiveEngine
  imports LiveObserver
begin

text \<open>
  The live engine (\<open>src/mongodb/live/engine.ts\<close>): subscriptions of connections to publications. Its
  methods are asynchronous; here each runs in segments, from one \<open>await\<close> to the next, and a task
  records where a connection's method is waiting. \<open>serialize\<close> runs one method per connection at a
  time. Between two segments anything may happen: requests of other connections, logout,
  disconnection, deliveries, the closing of the engine.

  Objects that are shared by reference are kept in heaps: the maps of subscriptions per
  connection, the subscriptions and the abort controllers are named by numbers, so that a task
  holds on to a map that the engine may have dropped meanwhile. Abort controllers are numbers,
  aborted when listed. The state of a connection is an input of every step. The publication's
  functions, the source, the observer's start and the identifier generator are outside: their
  results are inputs of the step that resumes the task. \<open>lp_window\<close> stands for the resolution of the
  collection followed by the publication's window function, and the outcome of opening the source
  for \<open>getSource\<close> followed by the publication's filter; either may throw.
\<close>

type_synonym node = nat

record node_state =
  ns_open :: bool
  ns_authenticated :: bool
  ns_supportsBufferedBytes :: bool
  ns_bufferedBytes :: nat

record live_options =
  lo_maxSubscriptionsPerConnection :: nat
  lo_maxSnapshotDocuments :: nat
  lo_maxWindowSkip :: nat
  lo_maxBufferedBytes :: nat
  lo_slowConsumerGraceMs :: nat

record live_publication =
  lp_protected :: bool
  lp_parseArgs :: "jsval \<Rightarrow> jsval js"
  lp_window :: "jsval \<Rightarrow> jsval \<Rightarrow> live_window_input option js"

record live_subscription =
  ls_id :: string
  ls_node :: node
  ls_publication :: live_publication
  ls_args :: jsval
  ls_authorization :: nat
  ls_supportsOrderedWindows :: bool
  ls_supportsTypedObjectIds :: bool
  ls_observing :: bool
  ls_generation :: string
  ls_stale :: bool
  ls_pressureTimer :: "nat option"

record subscribe_request =
  sr_subscriptionId :: string
  sr_publication :: string
  sr_args :: jsval
  sr_capabilities :: "string list"

datatype live_request =
    SubscribeRequest subscribe_request
  | ResyncRequest string string
  | UnsubscribeRequest string

section \<open>Configuration\<close>

definition quoted :: "string \<Rightarrow> string" where
  "quoted s = CHR 0x22 # s @ [CHR 0x22]"

definition assertPositiveCapacity :: "string \<Rightarrow> jsnum \<Rightarrow> nat js" where
  "assertPositiveCapacity name v =
     (if \<not> is_safe_integer v \<or> num_less v (Fin 1)
      then Inl (Error (''MongoDB live option '' @ quoted name @ '' must be a positive integer.''))
      else Inr (num_nat v))"

definition assertNonNegativeCapacity :: "string \<Rightarrow> jsnum \<Rightarrow> nat js" where
  "assertNonNegativeCapacity name v =
     (if \<not> is_safe_integer v \<or> num_less v (Fin 0)
      then Inl (Error (''MongoDB live option '' @ quoted name @ '' must be a non-negative integer.''))
      else Inr (num_nat v))"

record live_options_input =
  li_maxSubscriptionsPerConnection :: "jsnum option"
  li_maxSnapshotDocuments :: "jsnum option"
  li_maxWindowSkip :: "jsnum option"
  li_maxBufferedBytes :: "jsnum option"
  li_slowConsumerGraceMs :: "jsnum option"

definition or_default :: "jsnum option \<Rightarrow> jsnum \<Rightarrow> jsnum" where
  "or_default v d = (case v of None \<Rightarrow> d | Some n \<Rightarrow> n)"

definition MONGO_LIVE_MAX_SUBSCRIPTIONS_PER_CONNECTION :: jsnum where
  "MONGO_LIVE_MAX_SUBSCRIPTIONS_PER_CONNECTION = Fin 32"

definition MONGO_LIVE_MAX_SNAPSHOT_DOCUMENTS :: jsnum where
  "MONGO_LIVE_MAX_SNAPSHOT_DOCUMENTS = Fin 10000"

definition MONGO_LIVE_MAX_BUFFERED_BYTES :: jsnum where
  "MONGO_LIVE_MAX_BUFFERED_BYTES = Fin 2097152"

definition MONGO_LIVE_SLOW_CONSUMER_GRACE_MS :: jsnum where
  "MONGO_LIVE_SLOW_CONSUMER_GRACE_MS = Fin 30000"

definition MONGO_LIVE_MAX_WINDOW_SKIP :: jsnum where
  "MONGO_LIVE_MAX_WINDOW_SKIP = Fin 100000"

definition configure :: "live_options_input \<Rightarrow> live_options js" where
  "configure options =
     rbind (assertPositiveCapacity ''maxSubscriptionsPerConnection''
       (or_default (li_maxSubscriptionsPerConnection options) MONGO_LIVE_MAX_SUBSCRIPTIONS_PER_CONNECTION)) (\<lambda>subscriptions.
     rbind (assertPositiveCapacity ''maxSnapshotDocuments''
       (or_default (li_maxSnapshotDocuments options) MONGO_LIVE_MAX_SNAPSHOT_DOCUMENTS)) (\<lambda>documents.
     rbind (assertNonNegativeCapacity ''maxWindowSkip''
       (or_default (li_maxWindowSkip options) MONGO_LIVE_MAX_WINDOW_SKIP)) (\<lambda>skip.
     rbind (assertNonNegativeCapacity ''maxBufferedBytes''
       (or_default (li_maxBufferedBytes options) MONGO_LIVE_MAX_BUFFERED_BYTES)) (\<lambda>bytes.
     rbind (assertNonNegativeCapacity ''slowConsumerGraceMs''
       (or_default (li_slowConsumerGraceMs options) MONGO_LIVE_SLOW_CONSUMER_GRACE_MS)) (\<lambda>grace.
       Inr \<lparr>lo_maxSubscriptionsPerConnection = subscriptions, lo_maxSnapshotDocuments = documents,
            lo_maxWindowSkip = skip, lo_maxBufferedBytes = bytes, lo_slowConsumerGraceMs = grace\<rparr>)))))"

fun register_publications :: "(string \<times> live_publication) list \<Rightarrow> (string, live_publication) jsmap \<Rightarrow> (string, live_publication) jsmap js" where
  "register_publications [] registered = Inr registered"
| "register_publications ((name, publication) # rest) registered =
     (if jm_has registered name
      then Inl (Error (''MongoDB live publication '' @ quoted name @ '' is already registered.''))
      else register_publications rest (jm_set name publication registered))"

definition reserved_methods :: "string list" where
  "reserved_methods = [''mongo:live:subscribe'', ''mongo:live:resync'', ''mongo:live:unsubscribe'']"

definition MONGO_LIVE_EVENT :: string where
  "MONGO_LIVE_EVENT = ''mongo:live:delta''"

text \<open>The names of the server's methods and events after the engine has registered its own.\<close>

definition registerServerSurface :: "string list \<Rightarrow> string list \<Rightarrow> (string list \<times> string list) js" where
  "registerServerSurface methods events =
     (case List.find (\<lambda>name. name \<in> set methods) reserved_methods of
        Some name \<Rightarrow> Inl (Error (''TypeFerry method '' @ quoted name @ '' is already registered.''))
      | None \<Rightarrow>
          if MONGO_LIVE_EVENT \<in> set events
          then Inl (Error (''TypeFerry event '' @ quoted MONGO_LIVE_EVENT @ '' is already registered.''))
          else Inr (methods @ reserved_methods, events @ [MONGO_LIVE_EVENT]))"

section \<open>Requests\<close>

definition id_char :: "char \<Rightarrow> bool" where
  "id_char c \<longleftrightarrow> is_digit c \<or> (CHR ''a'' \<le> c \<and> c \<le> CHR ''z'') \<or> (CHR ''A'' \<le> c \<and> c \<le> CHR ''Z'') \<or> c = CHR ''-''"

definition subscriptionIdSchema :: "string \<Rightarrow> bool" where
  "subscriptionIdSchema s \<longleftrightarrow> 1 \<le> length s \<and> length s \<le> 64 \<and> list_all id_char s"

definition subscribeSchema :: "subscribe_request \<Rightarrow> bool" where
  "subscribeSchema r \<longleftrightarrow> subscriptionIdSchema (sr_subscriptionId r) \<and>
     1 \<le> length (sr_publication r) \<and> length (sr_publication r) \<le> 128 \<and>
     length (sr_capabilities r) \<le> 16 \<and> list_all (\<lambda>c. length c \<le> 64) (sr_capabilities r)"

fun request_valid :: "live_request \<Rightarrow> bool" where
  "request_valid (SubscribeRequest r) = subscribeSchema r"
| "request_valid (ResyncRequest subscriptionId staleGeneration) =
     (subscriptionIdSchema subscriptionId \<and> 1 \<le> length staleGeneration \<and> length staleGeneration \<le> 64)"
| "request_valid (UnsubscribeRequest subscriptionId) = subscriptionIdSchema subscriptionId"

section \<open>State\<close>

datatype purpose =
    ForSubscribe nat nat
  | ForResync nat nat string

record create_input =
  ci_id :: string
  ci_publication :: live_publication
  ci_args :: jsval
  ci_scope :: jsval
  ci_authorization :: nat
  ci_supportsOrderedWindows :: bool
  ci_supportsTypedObjectIds :: bool

datatype live_task =
    StoppingExisting subscribe_request live_publication nat
  | Authorizing subscribe_request live_publication nat nat jsval
  | OpeningSource create_input purpose
  | CreatedSubscription nat purpose
  | StartingObserver nat purpose
  | CleaningUp purpose js_error
  | ResyncAuthorizing nat nat string
  | ResyncStopping nat nat string jsval
  | Unsubscribing nat

datatype live_output =
    ReplySnapshot live_snapshot
  | ReplyBoolean bool
  | ReplyError js_error
  | SendEvent live_event
  | CloseSocket

record engine =
  en_options :: live_options
  en_publications :: "(string, live_publication) jsmap"
  en_subscriptions :: "(node, nat) jsmap"
  en_maps :: "(string, nat) jsmap list"
  en_subs :: "live_subscription list"
  en_controllers :: nat
  en_aborted :: "nat list"
  en_pending :: "(node, nat list) jsmap"
  en_resyncSnapshots :: "(node, (string, live_snapshot) jsmap) jsmap"
  en_tasks :: "(node, live_task) jsmap"
  en_queue :: "(node \<times> live_request) list"
  en_closed :: bool
  en_closeWaits :: "node list option"
  en_outbox :: "(node \<times> live_output) list"

definition new_engine :: "live_options \<Rightarrow> (string, live_publication) jsmap \<Rightarrow> engine" where
  "new_engine options publications =
     \<lparr>en_options = options, en_publications = publications, en_subscriptions = [], en_maps = [], en_subs = [],
      en_controllers = 0, en_aborted = [], en_pending = [], en_resyncSnapshots = [], en_tasks = [], en_queue = [],
      en_closed = False, en_closeWaits = None, en_outbox = []\<rparr>"

definition out :: "node \<Rightarrow> live_output \<Rightarrow> engine \<Rightarrow> engine" where
  "out n r e = e\<lparr>en_outbox := en_outbox e @ [(n, r)]\<rparr>"

definition await_task :: "node \<Rightarrow> live_task \<Rightarrow> engine \<Rightarrow> engine" where
  "await_task n t e = e\<lparr>en_tasks := jm_set n t (en_tasks e)\<rparr>"

definition settle :: "node \<Rightarrow> live_output \<Rightarrow> engine \<Rightarrow> engine" where
  "settle n r e = out n r (e\<lparr>en_tasks := jm_delete n (en_tasks e), en_closeWaits := map_option (remove1 n) (en_closeWaits e)\<rparr>)"

definition abort :: "nat \<Rightarrow> engine \<Rightarrow> engine" where
  "abort a e = e\<lparr>en_aborted := js_add a (en_aborted e)\<rparr>"

definition update_sub :: "nat \<Rightarrow> (live_subscription \<Rightarrow> live_subscription) \<Rightarrow> engine \<Rightarrow> engine" where
  "update_sub i f e = e\<lparr>en_subs := (en_subs e)[i := f (en_subs e ! i)]\<rparr>"

definition update_map :: "nat \<Rightarrow> ((string, nat) jsmap \<Rightarrow> (string, nat) jsmap) \<Rightarrow> engine \<Rightarrow> engine" where
  "update_map m f e = e\<lparr>en_maps := (en_maps e)[m := f (en_maps e ! m)]\<rparr>"

section \<open>Guards and bookkeeping\<close>

definition assertWebSocket :: "node_state \<Rightarrow> unit js" where
  "assertWebSocket ns =
     (if \<not> ns_open ns then Inl (Error ''MongoDB live methods require an active WebSocket.'')
      else if \<not> ns_supportsBufferedBytes ns then Inl (Error ''MongoDB live methods require WebSocket pressure reporting.'')
      else Inr ())"

definition assertActive :: "engine \<Rightarrow> node_state \<Rightarrow> nat \<Rightarrow> unit js" where
  "assertActive e ns authorization =
     rbind (assertWebSocket ns) (\<lambda>_.
       if en_closed e \<or> authorization \<in> set (en_aborted e)
       then Inl (Error ''MongoDB live subscription was cancelled.'') else Inr ())"

definition pending_of :: "node \<Rightarrow> engine \<Rightarrow> nat list" where
  "pending_of n e = (case jm_get (en_pending e) n of None \<Rightarrow> [] | Some p \<Rightarrow> p)"

definition trackPending :: "node \<Rightarrow> nat \<Rightarrow> engine \<Rightarrow> engine" where
  "trackPending n authorization e =
     e\<lparr>en_pending := jm_set n (js_add authorization (pending_of n e)) (en_pending e)\<rparr>"

definition untrackPending :: "node \<Rightarrow> nat \<Rightarrow> engine \<Rightarrow> engine" where
  "untrackPending n authorization e =
     (case jm_get (en_pending e) n of
        None \<Rightarrow> e
      | Some pending \<Rightarrow>
          (let pending' = js_remove authorization pending in
           e\<lparr>en_pending := (if pending' = [] then jm_delete n (en_pending e) else jm_set n pending' (en_pending e))\<rparr>))"

definition abortPending :: "node \<Rightarrow> engine \<Rightarrow> engine" where
  "abortPending n e = foldl (\<lambda>e a. abort a e) e (pending_of n e)"

definition stopSubscription :: "nat \<Rightarrow> engine \<Rightarrow> engine" where
  "stopSubscription i e =
     update_sub i (\<lambda>s. s\<lparr>ls_pressureTimer := None, ls_observing := False\<rparr>) (abort (ls_authorization (en_subs e ! i)) e)"

definition stopNode :: "node \<Rightarrow> engine \<Rightarrow> engine" where
  "stopNode n e =
     (case jm_get (en_subscriptions e) n of
        None \<Rightarrow> e
      | Some m \<Rightarrow>
          foldl (\<lambda>e i. stopSubscription i e)
            (e\<lparr>en_subscriptions := jm_delete n (en_subscriptions e),
               en_resyncSnapshots := jm_delete n (en_resyncSnapshots e)\<rparr>)
            (jm_values (en_maps e ! m)))"

section \<open>Creating a subscription\<close>

definition cancel_create :: "node \<Rightarrow> purpose \<Rightarrow> nat option \<Rightarrow> js_error \<Rightarrow> engine \<Rightarrow> engine" where
  "cancel_create n purpose sub err e =
     (let stopped = (case sub of None \<Rightarrow> e | Some i \<Rightarrow> update_sub i (\<lambda>s. s\<lparr>ls_observing := False\<rparr>) e) in
      case purpose of
        ForSubscribe m authorization \<Rightarrow> await_task n (CleaningUp purpose err) (abort authorization stopped)
      | ForResync m previous key \<Rightarrow>
          if sub = None then settle n (ReplyError err) e else await_task n (CleaningUp purpose err) stopped)"

definition create_begin :: "node \<Rightarrow> create_input \<Rightarrow> purpose \<Rightarrow> engine \<Rightarrow> engine" where
  "create_begin n input purpose e =
     (let window = rbind (lp_window (ci_publication input) (ci_scope input) (ci_args input)) (\<lambda>configured.
                      case configured of
                        None \<Rightarrow> Inr None
                      | Some c \<Rightarrow>
                          rbind (normalizeMongoLiveWindow c (lo_maxSnapshotDocuments (en_options e)) (lo_maxWindowSkip (en_options e)))
                            (\<lambda>w. Inr (Some w)))
      in case window of
           Inl err \<Rightarrow> cancel_create n purpose None err e
         | Inr w \<Rightarrow>
             if w \<noteq> None \<and> \<not> ci_supportsOrderedWindows input
             then cancel_create n purpose None (Error ''MongoDB ordered live windows require client capability negotiation.'') e
             else if w \<noteq> None \<and> \<not> ci_supportsTypedObjectIds input
             then cancel_create n purpose None (Error ''MongoDB ordered live windows require typed ObjectId capability negotiation.'') e
             else await_task n (OpeningSource input purpose) e)"

definition allocate_subscription :: "node \<Rightarrow> create_input \<Rightarrow> string \<Rightarrow> engine \<Rightarrow> engine" where
  "allocate_subscription n input generation e =
     e\<lparr>en_subs := en_subs e @
         [\<lparr>ls_id = ci_id input, ls_node = n, ls_publication = ci_publication input, ls_args = ci_args input,
           ls_authorization = ci_authorization input, ls_supportsOrderedWindows = ci_supportsOrderedWindows input,
           ls_supportsTypedObjectIds = ci_supportsTypedObjectIds input, ls_observing = False,
           ls_generation = generation, ls_stale = False, ls_pressureTimer = None\<rparr>]\<rparr>"

definition start_observer :: "node \<Rightarrow> nat \<Rightarrow> purpose \<Rightarrow> engine \<Rightarrow> engine" where
  "start_observer n i purpose e =
     await_task n (StartingObserver i purpose) (update_sub i (\<lambda>s. s\<lparr>ls_observing := True\<rparr>) e)"

section \<open>Subscribe\<close>

definition ORDERED_WINDOW_CAPABILITY :: string where
  "ORDERED_WINDOW_CAPABILITY = ''ordered-window-splice-v1''"

definition TYPED_OBJECT_ID_CAPABILITY :: string where
  "TYPED_OBJECT_ID_CAPABILITY = ''typed-object-id-v1''"

definition subscribe_capacity :: "node \<Rightarrow> subscribe_request \<Rightarrow> live_publication \<Rightarrow> nat \<Rightarrow> engine \<Rightarrow> engine" where
  "subscribe_capacity n request publication m e =
     (if length (en_maps e ! m) \<ge> lo_maxSubscriptionsPerConnection (en_options e)
      then settle n (ReplyError (Error ''MongoDB live subscription capacity exceeded.'')) e
      else
        (let authorization = en_controllers e;
             tracked = trackPending n authorization (e\<lparr>en_controllers := Suc authorization\<rparr>)
         in case lp_parseArgs publication (sr_args request) of
              Inl err \<Rightarrow> cancel_create n (ForSubscribe m authorization) None err tracked
            | Inr args \<Rightarrow> await_task n (Authorizing request publication m authorization args) tracked))"

definition node_map :: "node \<Rightarrow> engine \<Rightarrow> nat \<times> engine" where
  "node_map n e =
     (case jm_get (en_subscriptions e) n of
        Some m \<Rightarrow> (m, e)
      | None \<Rightarrow>
          (length (en_maps e),
           e\<lparr>en_maps := en_maps e @ [[]], en_subscriptions := jm_set n (length (en_maps e)) (en_subscriptions e)\<rparr>))"

definition subscribe :: "node_state \<Rightarrow> node \<Rightarrow> subscribe_request \<Rightarrow> engine \<Rightarrow> engine" where
  "subscribe ns n request e =
     (case assertWebSocket ns of
        Inl err \<Rightarrow> settle n (ReplyError err) e
      | Inr _ \<Rightarrow>
          if en_closed e then settle n (ReplyError (Error ''MongoDB live engine is closed.'')) e
          else
            (case jm_get (en_publications e) (sr_publication request) of
               None \<Rightarrow> settle n (ReplyError (Error ''MongoDB live publication not found.'')) e
             | Some publication \<Rightarrow>
                 if lp_protected publication \<and> \<not> ns_authenticated ns
                 then settle n (ReplyError (Error ''MongoDB live publication forbidden.'')) e
                 else
                   (let (m, e1) = node_map n e in
                    case jm_get (en_maps e1 ! m) (sr_subscriptionId request) of
                      Some existing \<Rightarrow> await_task n (StoppingExisting request publication m) (stopSubscription existing e1)
                    | None \<Rightarrow> subscribe_capacity n request publication m e1)))"

definition subscribe_stopped :: "node \<Rightarrow> subscribe_request \<Rightarrow> live_publication \<Rightarrow> nat \<Rightarrow> engine \<Rightarrow> engine" where
  "subscribe_stopped n request publication m e =
     subscribe_capacity n request publication m (update_map m (jm_delete (sr_subscriptionId request)) e)"

definition subscribe_authorized ::
  "node_state \<Rightarrow> node \<Rightarrow> subscribe_request \<Rightarrow> live_publication \<Rightarrow> nat \<Rightarrow> nat \<Rightarrow> jsval \<Rightarrow> jsval js \<Rightarrow> engine \<Rightarrow> engine" where
  "subscribe_authorized ns n request publication m authorization args result e =
     (case rbind result (\<lambda>scope. rbind (assertActive e ns authorization) (\<lambda>_. Inr scope)) of
        Inl err \<Rightarrow> cancel_create n (ForSubscribe m authorization) None err e
      | Inr scope \<Rightarrow>
          create_begin n
            \<lparr>ci_id = sr_subscriptionId request, ci_publication = publication, ci_args = args, ci_scope = scope,
             ci_authorization = authorization,
             ci_supportsOrderedWindows = (ORDERED_WINDOW_CAPABILITY \<in> set (sr_capabilities request)),
             ci_supportsTypedObjectIds = (TYPED_OBJECT_ID_CAPABILITY \<in> set (sr_capabilities request))\<rparr>
            (ForSubscribe m authorization) e)"

definition source_opened :: "node \<Rightarrow> create_input \<Rightarrow> purpose \<Rightarrow> string js \<Rightarrow> engine \<Rightarrow> engine" where
  "source_opened n input purpose result e =
     (case result of
        Inl err \<Rightarrow> cancel_create n purpose None err e
      | Inr generation \<Rightarrow>
          await_task n (CreatedSubscription (length (en_subs e)) purpose) (allocate_subscription n input generation e))"

definition subscription_created :: "node_state \<Rightarrow> node \<Rightarrow> nat \<Rightarrow> purpose \<Rightarrow> engine \<Rightarrow> engine" where
  "subscription_created ns n i purpose e =
     (case purpose of
        ForResync m previous key \<Rightarrow> start_observer n i purpose e
      | ForSubscribe m authorization \<Rightarrow>
          (case assertActive e ns authorization of
             Inl err \<Rightarrow> cancel_create n purpose (Some i) err e
           | Inr _ \<Rightarrow> start_observer n i purpose e))"

definition observer_started :: "node_state \<Rightarrow> node \<Rightarrow> nat \<Rightarrow> purpose \<Rightarrow> live_snapshot js \<Rightarrow> engine \<Rightarrow> engine" where
  "observer_started ns n i purpose result e =
     (case rbind result (\<lambda>snapshot. rbind (assertActive e ns (ls_authorization (en_subs e ! i))) (\<lambda>_. Inr snapshot)) of
        Inl err \<Rightarrow> cancel_create n purpose (Some i) err e
      | Inr snapshot \<Rightarrow>
          (case purpose of
             ForSubscribe m authorization \<Rightarrow>
               settle n (ReplySnapshot snapshot)
                 (untrackPending n authorization (update_map m (jm_set (ls_id (en_subs e ! i)) i) e))
           | ForResync m previous key \<Rightarrow>
               settle n (ReplySnapshot snapshot)
                 ((update_map m (jm_set (ls_id (en_subs e ! previous)) i) e)
                    \<lparr>en_resyncSnapshots := jm_set n [(key, snapshot)] (en_resyncSnapshots e)\<rparr>)))"

definition cleaned_up :: "node \<Rightarrow> purpose \<Rightarrow> js_error \<Rightarrow> engine \<Rightarrow> engine" where
  "cleaned_up n purpose err e =
     (case purpose of
        ForSubscribe m authorization \<Rightarrow>
          settle n (ReplyError err) (untrackPending n authorization
            (if en_maps e ! m = [] then e\<lparr>en_subscriptions := jm_delete n (en_subscriptions e)\<rparr> else e))
      | ForResync m previous key \<Rightarrow>
          settle n (ReplyError err) (update_map m (jm_delete (ls_id (en_subs e ! previous))) e))"

section \<open>Resync and unsubscribe\<close>

definition resync :: "node_state \<Rightarrow> node \<Rightarrow> string \<Rightarrow> string \<Rightarrow> engine \<Rightarrow> engine" where
  "resync ns n subscriptionId staleGeneration e =
     (case assertWebSocket ns of
        Inl err \<Rightarrow> settle n (ReplyError err) e
      | Inr _ \<Rightarrow>
          (case (case jm_get (en_subscriptions e) n of
                   None \<Rightarrow> None
                 | Some m \<Rightarrow> map_option (\<lambda>i. (m, i)) (jm_get (en_maps e ! m) subscriptionId)) of
             None \<Rightarrow> settle n (ReplyError (Error ''MongoDB live subscription not found.'')) e
           | Some (m, previous) \<Rightarrow>
               (let resyncKey = subscriptionId @ '':'' @ staleGeneration in
                case (case jm_get (en_resyncSnapshots e) n of None \<Rightarrow> None | Some snapshots \<Rightarrow> jm_get snapshots resyncKey) of
                  Some cached \<Rightarrow> settle n (ReplySnapshot cached) e
                | None \<Rightarrow>
                    if ls_generation (en_subs e ! previous) \<noteq> staleGeneration \<and> \<not> ls_stale (en_subs e ! previous)
                    then settle n (ReplyError (Error ''MongoDB live subscription generation is current.'')) e
                    else await_task n (ResyncAuthorizing m previous resyncKey) e)))"

definition resync_authorized :: "node \<Rightarrow> nat \<Rightarrow> nat \<Rightarrow> string \<Rightarrow> jsval js \<Rightarrow> engine \<Rightarrow> engine" where
  "resync_authorized n m previous key result e =
     (case result of
        Inl err \<Rightarrow> settle n (ReplyError err) e
      | Inr scope \<Rightarrow>
          await_task n (ResyncStopping m previous key scope) (update_sub previous (\<lambda>s. s\<lparr>ls_observing := False\<rparr>) e))"

definition resync_stopped :: "node \<Rightarrow> nat \<Rightarrow> nat \<Rightarrow> string \<Rightarrow> jsval \<Rightarrow> engine \<Rightarrow> engine" where
  "resync_stopped n m previous key scope e =
     (let p = en_subs e ! previous in
      create_begin n
        \<lparr>ci_id = ls_id p, ci_publication = ls_publication p, ci_args = ls_args p, ci_scope = scope,
         ci_authorization = ls_authorization p, ci_supportsOrderedWindows = ls_supportsOrderedWindows p,
         ci_supportsTypedObjectIds = ls_supportsTypedObjectIds p\<rparr>
        (ForResync m previous key) (update_sub previous (\<lambda>s. s\<lparr>ls_pressureTimer := None\<rparr>) e))"

definition unsubscribe :: "node_state \<Rightarrow> node \<Rightarrow> string \<Rightarrow> engine \<Rightarrow> engine" where
  "unsubscribe ns n subscriptionId e =
     (case assertWebSocket ns of
        Inl err \<Rightarrow> settle n (ReplyError err) e
      | Inr _ \<Rightarrow>
          (case (case jm_get (en_subscriptions e) n of
                   None \<Rightarrow> None
                 | Some m \<Rightarrow> map_option (\<lambda>i. (m, i)) (jm_get (en_maps e ! m) subscriptionId)) of
             None \<Rightarrow> settle n (ReplyBoolean False) e
           | Some (m, i) \<Rightarrow>
               await_task n (Unsubscribing m) (stopSubscription i (update_map m (jm_delete subscriptionId) e))))"

definition unsubscribed :: "node \<Rightarrow> nat \<Rightarrow> engine \<Rightarrow> engine" where
  "unsubscribed n m e =
     settle n (ReplyBoolean True)
       (if en_maps e ! m = [] then e\<lparr>en_subscriptions := jm_delete n (en_subscriptions e)\<rparr> else e)"

section \<open>Delivery and back pressure\<close>

text \<open>The result of sending one event: whether the socket accepted it and the bytes then buffered.\<close>

record send_state =
  sd_accepted :: bool
  sd_bufferedBytes :: nat

definition attemptControl :: "node_state \<Rightarrow> nat \<Rightarrow> nat \<Rightarrow> send_state \<Rightarrow> nat \<Rightarrow> engine \<Rightarrow> engine" where
  "attemptControl ns startedAt now sent i e =
     (let s = en_subs e ! i;
          limit = lo_maxBufferedBytes (en_options e);
          announce = (ns_bufferedBytes ns \<le> limit);
          e1 = (if announce then out (ls_node s) (SendEvent (ResyncRequired (ls_id s) (ls_generation s))) e else e)
      in if en_closed e \<or> \<not> ls_stale s then e
         else if announce \<and> sd_accepted sent \<and> sd_bufferedBytes sent \<le> limit
         then update_sub i (\<lambda>s. s\<lparr>ls_pressureTimer := None\<rparr>) e1
         else if int now - int startedAt \<ge> int (lo_slowConsumerGraceMs (en_options e))
         then update_sub i (\<lambda>s. s\<lparr>ls_pressureTimer := None\<rparr>) (if ns_open ns then out (ls_node s) CloseSocket e1 else e1)
         else update_sub i (\<lambda>s. s\<lparr>ls_pressureTimer := Some startedAt\<rparr>) e1)"

definition markStale :: "node_state \<Rightarrow> nat \<Rightarrow> send_state \<Rightarrow> nat \<Rightarrow> engine \<Rightarrow> engine" where
  "markStale ns now sent i e =
     (if ls_stale (en_subs e ! i) \<or> en_closed e then e
      else attemptControl ns now now sent i (update_sub i (\<lambda>s. s\<lparr>ls_stale := True, ls_observing := False\<rparr>) e))"

text \<open>
  \<open>first\<close> is the outcome of sending the delta, \<open>second\<close> that of the control message which follows when
  the delta could not be sent.
\<close>

definition deliver :: "node_state \<Rightarrow> nat \<Rightarrow> send_state \<Rightarrow> send_state \<Rightarrow> live_delta \<Rightarrow> nat \<Rightarrow> engine \<Rightarrow> engine" where
  "deliver ns now first second delta i e =
     (let s = en_subs e ! i; limit = lo_maxBufferedBytes (en_options e) in
      if ls_stale s \<or> en_closed e then e
      else if ns_bufferedBytes ns > limit then markStale ns now second i e
      else
        (let e1 = out (ls_node s) (SendEvent (LiveDelta delta)) e in
         if \<not> sd_accepted first \<or> sd_bufferedBytes first > limit
         then markStale (ns\<lparr>ns_bufferedBytes := sd_bufferedBytes first\<rparr>) now second i e1 else e1))"

section \<open>Steps\<close>

datatype outcome =
    Resolved
  | ScopeResult "jsval js"
  | GenerationResult "string js"
  | SnapshotResult "live_snapshot js"

datatype live_step =
    Arrive node live_request
  | Begin node
  | Resume node outcome
  | Deliver nat live_delta nat send_state send_state
  | ObserverStale nat nat send_state
  | PressureTick nat nat send_state
  | Disconnection node
  | Logout node
  | CloseEngine
  | CloseSettled

fun first_queued :: "node \<Rightarrow> (node \<times> live_request) list \<Rightarrow> (live_request \<times> (node \<times> live_request) list) option" where
  "first_queued n [] = None"
| "first_queued n ((n', r) # queue) =
     (if n' = n then Some (r, queue) else map_option (\<lambda>(r', rest). (r', (n', r) # rest)) (first_queued n queue))"

definition begin_request :: "node_state \<Rightarrow> node \<Rightarrow> live_request \<Rightarrow> engine \<Rightarrow> engine" where
  "begin_request ns n request e =
     (case request of
        SubscribeRequest r \<Rightarrow> subscribe ns n r e
      | ResyncRequest subscriptionId staleGeneration \<Rightarrow> resync ns n subscriptionId staleGeneration e
      | UnsubscribeRequest subscriptionId \<Rightarrow> unsubscribe ns n subscriptionId e)"

definition resume :: "node_state \<Rightarrow> node \<Rightarrow> live_task \<Rightarrow> outcome \<Rightarrow> engine \<Rightarrow> engine" where
  "resume ns n task outcome e =
     (case (task, outcome) of
        (StoppingExisting request publication m, Resolved) \<Rightarrow> subscribe_stopped n request publication m e
      | (Authorizing request publication m authorization args, ScopeResult result) \<Rightarrow>
          subscribe_authorized ns n request publication m authorization args result e
      | (OpeningSource input purpose, GenerationResult result) \<Rightarrow> source_opened n input purpose result e
      | (CreatedSubscription i purpose, Resolved) \<Rightarrow> subscription_created ns n i purpose e
      | (StartingObserver i purpose, SnapshotResult result) \<Rightarrow> observer_started ns n i purpose result e
      | (CleaningUp purpose err, Resolved) \<Rightarrow> cleaned_up n purpose err e
      | (ResyncAuthorizing m previous key, ScopeResult result) \<Rightarrow> resync_authorized n m previous key result e
      | (ResyncStopping m previous key scope, Resolved) \<Rightarrow> resync_stopped n m previous key scope e
      | (Unsubscribing m, Resolved) \<Rightarrow> unsubscribed n m e
      | _ \<Rightarrow> e)"

definition handleDisconnection :: "node \<Rightarrow> engine \<Rightarrow> engine" where
  "handleDisconnection n e = stopNode n (abortPending n e)"

definition handleLogout :: "node \<Rightarrow> engine \<Rightarrow> engine" where
  "handleLogout n e = stopNode n (abortPending n e)"

text \<open>
  Closing waits for the methods that were running or queued when it began, one entry of
  \<open>en_closeWaits\<close> for each; what arrives later is not waited for.
\<close>

definition close_engine :: "engine \<Rightarrow> engine" where
  "close_engine e =
     (if en_closed e then e
      else foldl (\<lambda>e a. abort a e)
             (e\<lparr>en_closed := True, en_closeWaits := Some (map fst (en_tasks e) @ map fst (en_queue e))\<rparr>)
             (concat (jm_values (en_pending e))))"

definition close_settled :: "engine \<Rightarrow> engine" where
  "close_settled e =
     (if en_closeWaits e \<noteq> Some [] then e
      else
        (foldl (\<lambda>e i. stopSubscription i e) e (concat (map (\<lambda>m. jm_values (en_maps e ! m)) (jm_values (en_subscriptions e)))))
          \<lparr>en_subscriptions := [], en_closeWaits := None\<rparr>)"

definition engine_step :: "(node \<Rightarrow> node_state) \<Rightarrow> live_step \<Rightarrow> engine \<Rightarrow> engine" where
  "engine_step nodes label e =
     (case label of
        Arrive n request \<Rightarrow> if request_valid request \<and> \<not> (en_closed e \<and> en_closeWaits e = None) then e\<lparr>en_queue := en_queue e @ [(n, request)]\<rparr> else e
      | Begin n \<Rightarrow>
          if jm_has (en_tasks e) n then e
          else (case first_queued n (en_queue e) of
                  None \<Rightarrow> e
                | Some (request, rest) \<Rightarrow> begin_request (nodes n) n request (e\<lparr>en_queue := rest\<rparr>))
      | Resume n outcome \<Rightarrow>
          (case jm_get (en_tasks e) n of None \<Rightarrow> e | Some task \<Rightarrow> resume (nodes n) n task outcome e)
      | Deliver i delta now first second \<Rightarrow>
          if i < length (en_subs e) \<and> ls_observing (en_subs e ! i)
          then deliver (nodes (ls_node (en_subs e ! i))) now first second delta i e else e
      | ObserverStale i now sent \<Rightarrow>
          if i < length (en_subs e) \<and> ls_observing (en_subs e ! i)
          then markStale (nodes (ls_node (en_subs e ! i))) now sent i e else e
      | PressureTick i now sent \<Rightarrow>
          if i < length (en_subs e)
          then (case ls_pressureTimer (en_subs e ! i) of
                  None \<Rightarrow> e
                | Some startedAt \<Rightarrow> attemptControl (nodes (ls_node (en_subs e ! i))) startedAt now sent i e)
          else e
      | Disconnection n \<Rightarrow> if en_closed e then e else handleDisconnection n e
      | Logout n \<Rightarrow> if en_closed e then e else handleLogout n e
      | CloseEngine \<Rightarrow> close_engine e
      | CloseSettled \<Rightarrow> close_settled e)"

inductive engine_reachable :: "live_options \<Rightarrow> (string, live_publication) jsmap \<Rightarrow> engine \<Rightarrow> bool"
  for options publications where
  created: "engine_reachable options publications (new_engine options publications)"
| step: "engine_reachable options publications e \<Longrightarrow> engine_reachable options publications (engine_step nodes label e)"

end
