(* ===== verification/LiveEngineProps.thy ===== *)
theory LiveEngineProps
  imports LiveEngine
begin

text \<open>
  Invariants of the live engine over every interleaving of its steps, and a run in which a
  subscription outlives the logout of its connection.
\<close>

section \<open>Ownership of maps\<close>

text \<open>
  \<open>owner\<close> assigns a connection to every map of the heap. A running method touches only a map of its
  own connection, and reserves a place in it before it adds a subscription.
\<close>

fun task_map :: "live_task \<Rightarrow> nat" where
  "task_map (StoppingExisting r p m) = m"
| "task_map (Authorizing r p m a args) = m"
| "task_map (OpeningSource input (ForSubscribe m a)) = m"
| "task_map (OpeningSource input (ForResync m p k)) = m"
| "task_map (CreatedSubscription i (ForSubscribe m a)) = m"
| "task_map (CreatedSubscription i (ForResync m p k)) = m"
| "task_map (StartingObserver i (ForSubscribe m a)) = m"
| "task_map (StartingObserver i (ForResync m p k)) = m"
| "task_map (CleaningUp (ForSubscribe m a) err) = m"
| "task_map (CleaningUp (ForResync m p k) err) = m"
| "task_map (ResyncAuthorizing m p k) = m"
| "task_map (ResyncStopping m p k scope) = m"
| "task_map (Unsubscribing m) = m"

abbreviation max_subs :: "engine \<Rightarrow> nat" where
  "max_subs e \<equiv> lo_maxSubscriptionsPerConnection (en_options e)"

definition room_in :: "engine \<Rightarrow> nat \<Rightarrow> bool" where
  "room_in e m \<longleftrightarrow> length (en_maps e ! m) < max_subs e"

definition known_in :: "engine \<Rightarrow> nat \<Rightarrow> nat \<Rightarrow> bool" where
  "known_in e m p \<longleftrightarrow> p < length (en_subs e) \<and> jm_has (en_maps e ! m) (ls_id (en_subs e ! p))"

fun purpose_ok :: "engine \<Rightarrow> string \<Rightarrow> purpose \<Rightarrow> bool" where
  "purpose_ok e sid (ForSubscribe m a) = room_in e m"
| "purpose_ok e sid (ForResync m p k) = (known_in e m p \<and> sid = ls_id (en_subs e ! p))"

fun task_detail :: "engine \<Rightarrow> live_task \<Rightarrow> bool" where
  "task_detail e (Authorizing r p m a args) = room_in e m"
| "task_detail e (OpeningSource input purpose) = purpose_ok e (ci_id input) purpose"
| "task_detail e (CreatedSubscription i purpose) = (i < length (en_subs e) \<and> purpose_ok e (ls_id (en_subs e ! i)) purpose)"
| "task_detail e (StartingObserver i purpose) = (i < length (en_subs e) \<and> purpose_ok e (ls_id (en_subs e ! i)) purpose)"
| "task_detail e (ResyncAuthorizing m p k) = known_in e m p"
| "task_detail e (ResyncStopping m p k scope) = known_in e m p"
| "task_detail e t = True"

definition task_ok :: "(nat \<Rightarrow> node) \<Rightarrow> engine \<Rightarrow> node \<Rightarrow> live_task \<Rightarrow> bool" where
  "task_ok owner e n t \<longleftrightarrow> task_map t < length (en_maps e) \<and> owner (task_map t) = n \<and> task_detail e t"

definition map_ok :: "engine \<Rightarrow> (string, nat) jsmap \<Rightarrow> bool" where
  "map_ok e kvs \<longleftrightarrow> jm_wf kvs \<and> length kvs \<le> max_subs e \<and>
     (\<forall>(k, i) \<in> set kvs. i < length (en_subs e) \<and> ls_id (en_subs e ! i) = k)"

text \<open>The invariant, with the task of the connections in \<open>X\<close> left open.\<close>

definition engine_ok :: "(nat \<Rightarrow> node) \<Rightarrow> node set \<Rightarrow> engine \<Rightarrow> bool" where
  "engine_ok owner X e \<longleftrightarrow>
     (\<forall>n m. jm_get (en_subscriptions e) n = Some m \<longrightarrow> m < length (en_maps e) \<and> owner m = n) \<and>
     (\<forall>n t. jm_get (en_tasks e) n = Some t \<longrightarrow> n \<notin> X \<longrightarrow> task_ok owner e n t) \<and>
     (\<forall>m < length (en_maps e). map_ok e (en_maps e ! m))"

text \<open>Steps that leave maps, identities and tasks alone.\<close>

definition frame :: "engine \<Rightarrow> engine \<Rightarrow> bool" where
  "frame e e' \<longleftrightarrow> en_maps e' = en_maps e \<and> en_options e' = en_options e \<and> en_tasks e' = en_tasks e \<and>
     map ls_id (en_subs e') = map ls_id (en_subs e) \<and>
     (\<forall>n m. jm_get (en_subscriptions e') n = Some m \<longrightarrow> jm_get (en_subscriptions e) n = Some m)"

lemma frame_refl [simp]: "frame e e"
  by (simp add: frame_def)

lemma frame_trans: "frame a b \<Longrightarrow> frame b c \<Longrightarrow> frame a c"
  by (simp add: frame_def)

lemma frame_subs: "frame e e' \<Longrightarrow> length (en_subs e') = length (en_subs e) \<and> (i < length (en_subs e) \<longrightarrow> ls_id (en_subs e' ! i) = ls_id (en_subs e ! i))"
  unfolding frame_def by (metis length_map nth_map)

lemma frame_details:
  assumes "frame e e'"
  shows "room_in e' m = room_in e m" "known_in e' m p = known_in e m p" "map_ok e' kvs = map_ok e kvs"
proof -
  have s: "length (en_subs e') = length (en_subs e)" "\<And>i. i < length (en_subs e) \<Longrightarrow> ls_id (en_subs e' ! i) = ls_id (en_subs e ! i)"
    using frame_subs [OF assms] by blast+
  have m: "en_maps e' = en_maps e" "en_options e' = en_options e" using assms by (auto simp: frame_def)
  show "room_in e' m = room_in e m" by (simp add: room_in_def m)
  show "known_in e' m p = known_in e m p" using s by (auto simp: known_in_def m)
  show "map_ok e' kvs = map_ok e kvs" using s by (auto simp: map_ok_def m)
qed

lemma frame_purpose: "frame e e' \<Longrightarrow> purpose_ok e sid pu \<Longrightarrow> purpose_ok e' sid pu"
  using frame_details [of e e'] frame_subs [of e e'] unfolding known_in_def by (cases pu) (auto simp: known_in_def frame_def)

lemma frame_task: "frame e e' \<Longrightarrow> task_ok owner e n t \<Longrightarrow> task_ok owner e' n t"
  using frame_details [of e e'] frame_subs [of e e'] frame_purpose [of e e']
  by (cases t) (auto simp: task_ok_def frame_def)

lemma ok_frame: "engine_ok owner X e \<Longrightarrow> frame e e' \<Longrightarrow> engine_ok owner X e'"
  using frame_details(3) [of e e'] frame_task [of e e'] unfolding engine_ok_def by (simp add: frame_def) blast

lemma frame_simple:
  "frame e (out n r e)" "frame e (abort a e)" "frame e (trackPending n a e)" "frame e (untrackPending n a e)"
  "frame e (e\<lparr>en_queue := q\<rparr>)" "frame e (e\<lparr>en_closed := c\<rparr>)" "frame e (e\<lparr>en_controllers := k\<rparr>)"
  "frame e (e\<lparr>en_resyncSnapshots := rs\<rparr>)" "frame e (e\<lparr>en_subscriptions := jm_delete n (en_subscriptions e)\<rparr>)"
  by (simp_all add: frame_def out_def abort_def trackPending_def untrackPending_def Let_def split: option.splits)

lemma frame_update_sub: "(\<And>s. ls_id (f s) = ls_id s) \<Longrightarrow> frame e (update_sub i f e)"
proof -
  assume "\<And>s. ls_id (f s) = ls_id s"
  then have "map ls_id ((en_subs e)[i := f (en_subs e ! i)]) = map ls_id (en_subs e)"
    by (cases "i < length (en_subs e)") (auto simp: map_update list_update_same_conv list_update_beyond)
  then show ?thesis by (simp add: frame_def update_sub_def)
qed

lemma frame_stop: "frame e (stopSubscription i e)"
  unfolding stopSubscription_def by (rule frame_trans [OF frame_simple(2) frame_update_sub]) simp

lemma frame_foldl: "(\<And>e x. frame e (f e x)) \<Longrightarrow> frame e (foldl f e xs)"
  by (induction xs arbitrary: e) (auto intro: frame_trans)

lemma frame_stopNode: "frame e (stopNode n e)"
proof (cases "jm_get (en_subscriptions e) n")
  case (Some m)
  have "frame e (e\<lparr>en_subscriptions := jm_delete n (en_subscriptions e), en_resyncSnapshots := jm_delete n (en_resyncSnapshots e)\<rparr>)"
    by (simp add: frame_def)
  then show ?thesis using Some frame_foldl [of "\<lambda>e i. stopSubscription i e", OF frame_stop]
    by (auto simp: stopNode_def intro: frame_trans)
qed (simp add: stopNode_def)

lemma frame_abortPending: "frame e (abortPending n e)"
  unfolding abortPending_def by (rule frame_foldl) (rule frame_simple)

lemma frame_attempt: "frame e (attemptControl ns startedAt now sent i e)"
  unfolding attemptControl_def Let_def
  by (auto intro: frame_trans [OF frame_simple(1) frame_update_sub] frame_trans [OF frame_trans [OF frame_simple(1) frame_simple(1)] frame_update_sub]
      frame_update_sub)

lemma frame_markStale: "frame e (markStale ns now sent i e)"
  unfolding markStale_def by (auto intro: frame_trans [OF frame_update_sub frame_attempt])

lemma frame_deliver: "frame e (deliver ns now f g delta i e)"
  unfolding deliver_def Let_def by (auto intro: frame_simple frame_markStale frame_trans [OF frame_simple(1) frame_markStale])

lemma frame_close: "frame e (close_engine e)"
proof -
  let ?e = "\<lambda>w. e\<lparr>en_closed := True, en_closeWaits := w\<rparr>"
  have "frame e (?e w)" for w by (simp add: frame_def)
  moreover have "frame (?e w) (foldl (\<lambda>e a. abort a e) (?e w) xs)" for w xs
    by (rule frame_foldl) (rule frame_simple)
  ultimately have "frame e (foldl (\<lambda>e a. abort a e) (?e w) xs)" for w xs by (rule frame_trans)
  then show ?thesis by (simp add: close_engine_def)
qed

lemma frame_close_settled: "frame e (close_settled e)"
proof -
  have "frame a (a\<lparr>en_subscriptions := [], en_closeWaits := None\<rparr>)" for a by (simp add: frame_def)
  then show ?thesis unfolding close_settled_def
    using frame_trans [OF frame_foldl [of "\<lambda>e i. stopSubscription i e", OF frame_stop]] by auto
qed

section \<open>Tasks\<close>

lemma task_ok_tasks: "task_ok owner (e\<lparr>en_tasks := ts\<rparr>) n t = task_ok owner e n t"
proof -
  have p: "purpose_ok (e\<lparr>en_tasks := ts\<rparr>) sid pu = purpose_ok e sid pu" for sid pu
    by (cases pu) (simp_all add: room_in_def known_in_def)
  show ?thesis by (cases t) (simp_all add: task_ok_def p room_in_def known_in_def)
qed

lemma ok_await: "engine_ok owner {n} e \<Longrightarrow> task_ok owner e n t \<Longrightarrow> engine_ok owner {} (await_task n t e)"
  by (auto simp: engine_ok_def await_task_def task_ok_tasks map_ok_def)

lemma ok_settle: "engine_ok owner {n} e \<Longrightarrow> engine_ok owner {} (settle n r e)"
proof -
  assume "engine_ok owner {n} e"
  then have "engine_ok owner {} (e\<lparr>en_tasks := jm_delete n (en_tasks e)\<rparr>)"
    by (auto simp: engine_ok_def task_ok_tasks map_ok_def)
  moreover have "frame a (a\<lparr>en_closeWaits := w\<rparr>)" for a w by (simp add: frame_def)
  ultimately show ?thesis unfolding settle_def by (blast intro: ok_frame frame_simple(1))
qed

lemma ok_open: "engine_ok owner {} e \<Longrightarrow> engine_ok owner {n} e"
  by (auto simp: engine_ok_def)

lemma update_map_fields [simp]:
  "en_subs (update_map m f e) = en_subs e" "en_options (update_map m f e) = en_options e"
  "en_tasks (update_map m f e) = en_tasks e" "en_subscriptions (update_map m f e) = en_subscriptions e"
  "length (en_maps (update_map m f e)) = length (en_maps e)" "k \<noteq> m \<Longrightarrow> en_maps (update_map m f e) ! k = en_maps e ! k"
  by (simp_all add: update_map_def)

lemma other_map:
  "k \<noteq> m \<Longrightarrow> room_in (update_map m f e) k = room_in e k" "k \<noteq> m \<Longrightarrow> known_in (update_map m f e) k p = known_in e k p"
  by (simp_all add: room_in_def known_in_def)

lemma task_other_map:
  assumes "task_ok owner e n' t" "owner m \<noteq> n'"
  shows "task_ok owner (update_map m f e) n' t"
proof -
  have "task_map t \<noteq> m" using assms by (auto simp: task_ok_def)
  then have "task_detail (update_map m f e) t = task_detail e t"
    by (induction t rule: task_map.induct) (simp_all add: other_map)
  then show ?thesis using assms(1) by (simp add: task_ok_def)
qed

lemma ok_update_map:
  assumes "engine_ok owner {n} e" "owner m = n" "m < length (en_maps e) \<Longrightarrow> map_ok e (f (en_maps e ! m))"
  shows "engine_ok owner {n} (update_map m f e)"
proof -
  have same: "map_ok (update_map m f e) kvs = map_ok e kvs" for kvs by (simp add: map_ok_def)
  have "map_ok e (en_maps (update_map m f e) ! k)" if "k < length (en_maps e)" for k
    using assms that by (cases "k = m") (auto simp: engine_ok_def update_map_def)
  then show ?thesis using assms(1,2) task_other_map [of owner e _ _ m f]
    unfolding engine_ok_def by (simp add: same)
qed

lemma map_ok_delete: "map_ok e kvs \<Longrightarrow> map_ok e (jm_delete k kvs)"
  using length_delete_le [of k kvs] by (auto simp: map_ok_def jm_delete_set)

lemma map_ok_set:
  assumes "map_ok e kvs" "i < length (en_subs e)" "ls_id (en_subs e ! i) = k" "jm_has kvs k \<or> length kvs < max_subs e"
  shows "map_ok e (jm_set k i kvs)"
proof -
  have "length (jm_set k i kvs) \<le> max_subs e"
  proof (cases "jm_has kvs k")
    case True
    then have "map fst (jm_set k i kvs) = map fst kvs" by (intro jm_set_same_keys) (simp add: jm_has_iff)
    then have "length (jm_set k i kvs) = length kvs" by (metis length_map)
    then show ?thesis using assms(1) by (simp add: map_ok_def)
  next
    case False
    then show ?thesis using assms(4) by (simp add: jm_has_iff jm_set_fresh)
  qed
  then show ?thesis using assms(1-3) by (auto simp: map_ok_def jm_set_entries jm_wf_def distinct_update)
qed

fun purpose_map :: "purpose \<Rightarrow> nat" where
  "purpose_map (ForSubscribe m a) = m"
| "purpose_map (ForResync m p k) = m"

definition owns :: "(nat \<Rightarrow> node) \<Rightarrow> engine \<Rightarrow> node \<Rightarrow> nat \<Rightarrow> bool" where
  "owns owner e n m \<longleftrightarrow> m < length (en_maps e) \<and> owner m = n"

lemma owns_frame: "frame e e' \<Longrightarrow> owns owner e' n m = owns owner e n m"
  by (simp add: owns_def frame_def)

lemma task_ok_purpose:
  "task_ok owner e n (OpeningSource input pu) \<longleftrightarrow> owns owner e n (purpose_map pu) \<and> purpose_ok e (ci_id input) pu"
  "task_ok owner e n (CreatedSubscription i pu) \<longleftrightarrow> owns owner e n (purpose_map pu) \<and> i < length (en_subs e) \<and> purpose_ok e (ls_id (en_subs e ! i)) pu"
  "task_ok owner e n (StartingObserver i pu) \<longleftrightarrow> owns owner e n (purpose_map pu) \<and> i < length (en_subs e) \<and> purpose_ok e (ls_id (en_subs e ! i)) pu"
  "task_ok owner e n (CleaningUp pu err) \<longleftrightarrow> owns owner e n (purpose_map pu)"
  by (cases pu; auto simp: task_ok_def owns_def)+

lemma cancel_ok:
  assumes "engine_ok owner {n} e" "owns owner e n (purpose_map pu)"
  shows "engine_ok owner {} (cancel_create n pu sub err e)"
proof -
  let ?e = "case sub of None \<Rightarrow> e | Some i \<Rightarrow> update_sub i (\<lambda>s. s\<lparr>ls_observing := False\<rparr>) e"
  have f: "frame e ?e" by (cases sub) (auto intro: frame_update_sub)
  have g: "frame e (abort a ?e)" for a by (rule frame_trans [OF f frame_simple(2)])
  have "engine_ok owner {} (await_task n (CleaningUp pu err) e')" if "frame e e'" for e'
    using ok_await [OF ok_frame [OF assms(1) that]] owns_frame [OF that] assms(2) by (simp add: task_ok_purpose)
  then show ?thesis using f g ok_settle [OF assms(1)] unfolding cancel_create_def Let_def by (cases pu) auto
qed

lemma create_ok:
  assumes "engine_ok owner {n} e" "owns owner e n (purpose_map pu)" "purpose_ok e (ci_id input) pu"
  shows "engine_ok owner {} (create_begin n input pu e)"
  using cancel_ok [OF assms(1,2)] ok_await [OF assms(1), of "OpeningSource input pu"] assms(2,3)
  unfolding create_begin_def Let_def by (auto simp: task_ok_purpose split: sum.splits)

lemma allocate_fields [simp]:
  "en_maps (allocate_subscription n input g e) = en_maps e" "en_options (allocate_subscription n input g e) = en_options e"
  "en_tasks (allocate_subscription n input g e) = en_tasks e" "en_subscriptions (allocate_subscription n input g e) = en_subscriptions e"
  "length (en_subs (allocate_subscription n input g e)) = Suc (length (en_subs e))"
  "i < length (en_subs e) \<Longrightarrow> en_subs (allocate_subscription n input g e) ! i = en_subs e ! i"
  "ls_id (en_subs (allocate_subscription n input g e) ! length (en_subs e)) = ci_id input"
  by (simp_all add: allocate_subscription_def nth_append)

lemma allocate_details:
  "room_in (allocate_subscription n input g e) m = room_in e m"
  "known_in e m p \<Longrightarrow> known_in (allocate_subscription n input g e) m p"
  "map_ok e kvs \<Longrightarrow> map_ok (allocate_subscription n input g e) kvs"
  by (auto simp: room_in_def known_in_def map_ok_def less_Suc_eq)

lemma allocate_purpose: "purpose_ok e sid pu \<Longrightarrow> purpose_ok (allocate_subscription n input g e) sid pu"
  by (cases pu) (auto simp: allocate_details known_in_def)

lemma ok_allocate:
  assumes "engine_ok owner X e"
  shows "engine_ok owner X (allocate_subscription n input g e)"
proof -
  have "task_ok owner e k t \<Longrightarrow> task_ok owner (allocate_subscription n input g e) k t" for k t
    using allocate_purpose allocate_details by (cases t) (auto simp: task_ok_def)
  then show ?thesis using assms allocate_details(3) unfolding engine_ok_def by simp
qed

lemma source_ok:
  assumes "engine_ok owner {n} e" "owns owner e n (purpose_map pu)" "purpose_ok e (ci_id input) pu"
  shows "engine_ok owner {} (source_opened n input pu result e)"
proof (cases result)
  case (Inr g)
  let ?e = "allocate_subscription n input g e"
  have "task_ok owner ?e n (CreatedSubscription (length (en_subs e)) pu)"
    using assms(2) allocate_purpose [OF assms(3)] by (simp add: task_ok_purpose owns_def)
  then show ?thesis using ok_await [OF ok_allocate [OF assms(1)]] Inr by (simp add: source_opened_def)
qed (use cancel_ok [OF assms(1,2)] in \<open>simp add: source_opened_def\<close>)

lemma start_ok:
  assumes "engine_ok owner {n} e" "task_ok owner e n (CreatedSubscription i pu)"
  shows "engine_ok owner {} (start_observer n i pu e)"
proof -
  let ?e = "update_sub i (\<lambda>s. s\<lparr>ls_observing := True\<rparr>) e"
  have f: "frame e ?e" by (rule frame_update_sub) simp
  have "task_ok owner ?e n (StartingObserver i pu)" using frame_task [OF f assms(2)] by (simp add: task_ok_purpose)
  then show ?thesis unfolding start_observer_def by (rule ok_await [OF ok_frame [OF assms(1) f]])
qed

lemma created_ok:
  assumes "engine_ok owner {n} e" "task_ok owner e n (CreatedSubscription i pu)"
  shows "engine_ok owner {} (subscription_created ns n i pu e)"
proof -
  have "owns owner e n (purpose_map pu)" using assms(2) by (simp add: task_ok_purpose)
  then show ?thesis using start_ok [OF assms] cancel_ok [OF assms(1)]
    unfolding subscription_created_def by (auto split: purpose.splits sum.splits)
qed

lemma started_ok:
  assumes "engine_ok owner {n} e" "task_ok owner e n (StartingObserver i pu)"
  shows "engine_ok owner {} (observer_started ns n i pu result e)"
proof -
  have own: "owns owner e n (purpose_map pu)" and i: "i < length (en_subs e)" and p: "purpose_ok e (ls_id (en_subs e ! i)) pu"
    using assms(2) by (auto simp: task_ok_purpose)
  have maps: "map_ok e (en_maps e ! purpose_map pu)" using assms(1) own by (auto simp: engine_ok_def owns_def)
  have ok: "engine_ok owner {n} (update_map m (jm_set (ls_id (en_subs e ! j)) i) e)"
    if "m = purpose_map pu" "ls_id (en_subs e ! j) = ls_id (en_subs e ! i)" "jm_has (en_maps e ! m) (ls_id (en_subs e ! i)) \<or> room_in e m" for m j
    using ok_update_map [OF assms(1), of m] own map_ok_set [OF maps i] that by (auto simp: owns_def room_in_def)
  show ?thesis
  proof (cases "rbind result (\<lambda>snapshot. rbind (assertActive e ns (ls_authorization (en_subs e ! i))) (\<lambda>_. Inr snapshot))")
    case (Inl err)
    then show ?thesis using cancel_ok [OF assms(1) own] by (simp add: observer_started_def)
  next
    case (Inr snapshot)
    show ?thesis
    proof (cases pu)
      case (ForSubscribe m a)
      then have "engine_ok owner {n} (untrackPending n a (update_map m (jm_set (ls_id (en_subs e ! i)) i) e))"
        using ok [of m i] p ok_frame [OF _ frame_simple(4)] by auto
      then show ?thesis using ok_settle Inr ForSubscribe by (simp add: observer_started_def)
    next
      case (ForResync m q key)
      then have "engine_ok owner {n} ((update_map m (jm_set (ls_id (en_subs e ! q)) i) e)\<lparr>en_resyncSnapshots := jm_set n [(key, snapshot)] (en_resyncSnapshots e)\<rparr>)"
        using ok [of m q] p ok_frame [OF _ frame_simple(8)] by (auto simp: known_in_def)
      then show ?thesis using ok_settle Inr ForResync by (simp add: observer_started_def)
    qed
  qed
qed

lemma map_ok_own: "engine_ok owner X e \<Longrightarrow> owns owner e n m \<Longrightarrow> map_ok e (en_maps e ! m)"
  by (auto simp: engine_ok_def owns_def)

lemma ok_map_delete:
  assumes "engine_ok owner {n} e" "owns owner e n m"
  shows "engine_ok owner {n} (update_map m (jm_delete k) e)"
  using ok_update_map [OF assms(1), of m] map_ok_delete [OF map_ok_own [OF assms]] assms(2) by (simp add: owns_def)

lemma cleaned_ok:
  assumes "engine_ok owner {n} e" "owns owner e n (purpose_map pu)"
  shows "engine_ok owner {} (cleaned_up n pu err e)"
proof (cases pu)
  case (ForSubscribe m a)
  have "frame e (untrackPending n a (if en_maps e ! m = [] then e\<lparr>en_subscriptions := jm_delete n (en_subscriptions e)\<rparr> else e))"
    by (auto intro: frame_trans [OF frame_simple(9) frame_simple(4)] frame_simple(4))
  then show ?thesis using ok_settle [OF ok_frame [OF assms(1)]] ForSubscribe by (simp add: cleaned_up_def)
next
  case (ForResync m q key)
  then show ?thesis using ok_settle [OF ok_map_delete [OF assms(1)]] assms(2) by (simp add: cleaned_up_def)
qed

lemma capacity_ok:
  assumes "engine_ok owner {n} e" "owns owner e n m"
  shows "engine_ok owner {} (subscribe_capacity n request publication m e)"
proof (cases "length (en_maps e ! m) \<ge> max_subs e")
  case False
  let ?a = "en_controllers e"
  let ?e = "trackPending n ?a (e\<lparr>en_controllers := Suc ?a\<rparr>)"
  have f: "frame e ?e" by (rule frame_trans [OF frame_simple(7) frame_simple(3)])
  have ok: "engine_ok owner {n} ?e" by (rule ok_frame [OF assms(1) f])
  have own: "owns owner ?e n m" using owns_frame [OF f] assms(2) by simp
  have "room_in ?e m" using False frame_details(1) [OF f] by (simp add: room_in_def)
  then have "task_ok owner ?e n (Authorizing request publication m ?a args)" for args
    using own by (simp add: task_ok_def owns_def)
  then show ?thesis using False cancel_ok [OF ok] own ok_await [OF ok]
    by (auto simp: subscribe_capacity_def Let_def split: sum.splits)
qed (use ok_settle [OF assms(1)] in \<open>simp add: subscribe_capacity_def\<close>)

lemma ok_new_map:
  assumes "engine_ok owner X e"
  shows "engine_ok (owner(length (en_maps e) := n)) X
    (e\<lparr>en_maps := en_maps e @ [[]], en_subscriptions := jm_set n (length (en_maps e)) (en_subscriptions e)\<rparr>)"
    (is "engine_ok ?owner X ?e")
proof -
  have old: "room_in ?e k = room_in e k" "known_in ?e k p = known_in e k p" if "k < length (en_maps e)" for k p
    using that by (simp_all add: room_in_def known_in_def nth_append)
  have "task_ok ?owner ?e k t" if t: "task_ok owner e k t" for k t
  proof -
    have m: "task_map t < length (en_maps e)" using t by (simp add: task_ok_def)
    then have "task_detail ?e t = task_detail e t" by (induction t rule: task_map.induct) (simp_all add: old)
    then show ?thesis using t m by (simp add: task_ok_def)
  qed
  moreover have "map_ok ?e kvs = map_ok e kvs" "map_ok e []" for kvs by (simp_all add: map_ok_def)
  ultimately show ?thesis using assms unfolding engine_ok_def by (auto simp: nth_append less_Suc_eq)
qed

lemma node_map_ok:
  assumes "engine_ok owner X e" "node_map n e = (m, e1)"
  shows "\<exists>owner'. engine_ok owner' X e1 \<and> owns owner' e1 n m \<and> en_tasks e1 = en_tasks e"
proof (cases "jm_get (en_subscriptions e) n")
  case None
  then have e1: "m = length (en_maps e)" "e1 = e\<lparr>en_maps := en_maps e @ [[]], en_subscriptions := jm_set n (length (en_maps e)) (en_subscriptions e)\<rparr>"
    using assms(2) by (auto simp: node_map_def)
  have "owns (owner(length (en_maps e) := n)) e1 n m" by (simp add: e1 owns_def)
  then show ?thesis using ok_new_map [OF assms(1), of n] unfolding e1 by auto
next
  case (Some k)
  then show ?thesis using assms by (auto simp: node_map_def owns_def engine_ok_def)
qed

lemma owns_stop: "owns owner e n m \<Longrightarrow> owns owner (stopSubscription i e) n m"
  by (simp add: owns_frame [OF frame_stop])

lemma task_ok_plain:
  "owns owner e n m \<Longrightarrow> task_ok owner e n (StoppingExisting r p m)"
  "owns owner e n m \<Longrightarrow> task_ok owner e n (Unsubscribing m)"
  by (simp_all add: task_ok_def owns_def)

lemma subscribe_ok:
  assumes "engine_ok owner {n} e"
  shows "\<exists>owner. engine_ok owner {} (subscribe ns n request e)"
proof -
  obtain m e1 where nm: "node_map n e = (m, e1)" by (cases "node_map n e")
  obtain owner' where ok: "engine_ok owner' {n} e1" and own: "owns owner' e1 n m" using node_map_ok [OF assms nm] by blast
  have "engine_ok owner' {} (await_task n (StoppingExisting request publication m) (stopSubscription i e1))" for publication i
    by (rule ok_await [OF ok_frame [OF ok frame_stop] task_ok_plain(1) [OF owns_stop [OF own]]])
  then have "\<exists>owner. engine_ok owner {} (case jm_get (en_maps e1 ! m) (sr_subscriptionId request) of
      Some existing \<Rightarrow> await_task n (StoppingExisting request publication m) (stopSubscription existing e1)
    | None \<Rightarrow> subscribe_capacity n request publication m e1)" for publication
    using capacity_ok [OF ok own] by (cases "jm_get (en_maps e1 ! m) (sr_subscriptionId request)") (auto intro!: exI [of _ owner'])
  then show ?thesis using ok_settle [OF assms] by (auto simp: subscribe_def nm split: sum.splits option.splits)
qed

lemma resync_ok:
  assumes "engine_ok owner {n} e"
  shows "engine_ok owner {} (resync ns n sid stale e)"
proof -
  have "engine_ok owner {} (await_task n (ResyncAuthorizing m p key) e)"
    if "jm_get (en_subscriptions e) n = Some m" "jm_get (en_maps e ! m) sid = Some p" for m p key
  proof -
    have own: "owns owner e n m" using assms that(1) by (auto simp: engine_ok_def owns_def)
    then have "p < length (en_subs e) \<and> ls_id (en_subs e ! p) = sid"
      using map_ok_own [OF assms own] that(2) by (fastforce simp: map_ok_def dest: map_of_SomeD)
    then have "known_in e m p" using that(2) by (simp add: known_in_def jm_has_def)
    then show ?thesis using ok_await [OF assms] own by (simp add: task_ok_def owns_def)
  qed
  then show ?thesis using ok_settle [OF assms] by (auto simp: resync_def Let_def split: sum.splits option.splits)
qed

lemma unsubscribe_ok:
  assumes "engine_ok owner {n} e"
  shows "engine_ok owner {} (unsubscribe ns n sid e)"
proof -
  have "engine_ok owner {} (await_task n (Unsubscribing m) (stopSubscription i (update_map m (jm_delete sid) e)))"
    if "jm_get (en_subscriptions e) n = Some m" for m i
  proof -
    have own: "owns owner e n m" using assms that by (auto simp: engine_ok_def owns_def)
    have "engine_ok owner {n} (stopSubscription i (update_map m (jm_delete sid) e))"
      by (rule ok_frame [OF ok_map_delete [OF assms own] frame_stop])
    moreover have "owns owner (update_map m (jm_delete sid) e) n m" using own by (simp add: owns_def)
    ultimately show ?thesis by (rule ok_await [OF _ task_ok_plain(2) [OF owns_stop]])
  qed
  then show ?thesis using ok_settle [OF assms] by (auto simp: unsubscribe_def split: sum.splits option.splits)
qed

lemma stopped_ok:
  assumes "engine_ok owner {n} e" "owns owner e n m"
  shows "engine_ok owner {} (subscribe_stopped n request publication m e)"
  unfolding subscribe_stopped_def
  by (rule capacity_ok [OF ok_map_delete [OF assms]]) (use assms(2) in \<open>simp add: owns_def\<close>)

lemma authorized_ok:
  assumes "engine_ok owner {n} e" "owns owner e n m" "room_in e m"
  shows "engine_ok owner {} (subscribe_authorized ns n request publication m a args result e)"
  using cancel_ok [OF assms(1), of "ForSubscribe m a"] create_ok [OF assms(1), of "ForSubscribe m a"] assms(2,3)
  unfolding subscribe_authorized_def by (auto split: sum.splits)

lemma resync_authorized_ok:
  assumes "engine_ok owner {n} e" "task_ok owner e n (ResyncAuthorizing m p key)"
  shows "engine_ok owner {} (resync_authorized n m p key result e)"
proof (cases result)
  case (Inr scope)
  let ?e = "update_sub p (\<lambda>s. s\<lparr>ls_observing := False\<rparr>) e"
  have f: "frame e ?e" by (rule frame_update_sub) simp
  have "task_ok owner e n (ResyncStopping m p key scope)" using assms(2) by (simp add: task_ok_def)
  then have "engine_ok owner {} (await_task n (ResyncStopping m p key scope) ?e)"
    by (intro ok_await [OF ok_frame [OF assms(1) f]] frame_task [OF f])
  then show ?thesis using Inr by (simp add: resync_authorized_def)
qed (use ok_settle [OF assms(1)] in \<open>simp add: resync_authorized_def\<close>)

lemma resync_stopped_ok:
  assumes "engine_ok owner {n} e" "task_ok owner e n (ResyncStopping m p key scope)"
  shows "engine_ok owner {} (resync_stopped n m p key scope e)"
proof -
  let ?e = "update_sub p (\<lambda>s. s\<lparr>ls_pressureTimer := None\<rparr>) e"
  have f: "frame e ?e" by (rule frame_update_sub) simp
  have known: "known_in e m p" and own: "owns owner ?e n m"
    using assms(2) by (simp_all add: task_ok_def owns_frame [OF f]) (simp add: owns_def)
  then have "ls_id (en_subs ?e ! p) = ls_id (en_subs e ! p)" using frame_subs [OF f] by (simp add: known_in_def)
  then have "purpose_ok ?e (ls_id (en_subs e ! p)) (ForResync m p key)" using known frame_details(2) [OF f] by simp
  then show ?thesis unfolding resync_stopped_def Let_def
    using create_ok [OF ok_frame [OF assms(1) f], of "ForResync m p key"] own by simp
qed

lemma unsubscribed_ok:
  assumes "engine_ok owner {n} e"
  shows "engine_ok owner {} (unsubscribed n m e)"
  unfolding unsubscribed_def by (rule ok_settle) (auto intro: ok_frame [OF assms frame_simple(9)] assms)

section \<open>Every interleaving\<close>

lemma resume_ok:
  assumes ok: "engine_ok owner {} e" and task: "jm_get (en_tasks e) n = Some t"
  shows "engine_ok owner {} (resume ns n t result e)"
proof -
  have t: "task_ok owner e n t" using assms by (simp add: engine_ok_def)
  note opened = ok_open [OF ok, of n]
  show ?thesis
  proof (cases t)
    case (StoppingExisting r p m)
    then show ?thesis using stopped_ok [OF opened] t ok by (cases result) (auto simp: resume_def task_ok_def owns_def)
  next
    case (Authorizing r p m a args)
    then show ?thesis using authorized_ok [OF opened] t ok by (cases result) (auto simp: resume_def task_ok_def owns_def)
  next
    case (OpeningSource input pu)
    then show ?thesis using source_ok [OF opened] t ok by (cases result) (auto simp: resume_def task_ok_purpose)
  next
    case (CreatedSubscription i pu)
    then show ?thesis using created_ok [OF opened] t ok by (cases result) (auto simp: resume_def)
  next
    case (StartingObserver i pu)
    then show ?thesis using started_ok [OF opened] t ok by (cases result) (auto simp: resume_def)
  next
    case (CleaningUp pu err)
    then show ?thesis using cleaned_ok [OF opened] t ok by (cases result) (auto simp: resume_def task_ok_purpose)
  next
    case (ResyncAuthorizing m p key)
    then show ?thesis using resync_authorized_ok [OF opened] t ok by (cases result) (auto simp: resume_def)
  next
    case (ResyncStopping m p key scope)
    then show ?thesis using resync_stopped_ok [OF opened] t ok by (cases result) (auto simp: resume_def)
  next
    case (Unsubscribing m)
    then show ?thesis using unsubscribed_ok [OF opened] ok by (cases result) (auto simp: resume_def)
  qed
qed

lemma begin_ok:
  assumes "engine_ok owner {n} e"
  shows "\<exists>owner. engine_ok owner {} (begin_request ns n request e)"
  using subscribe_ok [OF assms] resync_ok [OF assms] unsubscribe_ok [OF assms]
  unfolding begin_request_def by (cases request) (simp_all, blast+)

lemma frame_node: "frame e (handleDisconnection n e)" "frame e (handleLogout n e)"
  unfolding handleDisconnection_def handleLogout_def by (rule frame_trans [OF frame_abortPending frame_stopNode])+

lemma frame_observer:
  "frame e (engine_step nodes (Deliver i delta now f g) e)" "frame e (engine_step nodes (ObserverStale i now sent) e)"
  "frame e (engine_step nodes (PressureTick i now sent) e)" "frame e (engine_step nodes (Arrive n request) e)"
  "frame e (engine_step nodes (Disconnection n) e)" "frame e (engine_step nodes (Logout n) e)"
  by (auto simp: engine_step_def frame_attempt frame_deliver frame_markStale frame_simple frame_node split: option.splits)

lemma step_begin_ok:
  assumes "engine_ok owner {} e"
  shows "\<exists>owner. engine_ok owner {} (engine_step nodes (Begin n) e)"
proof (cases "\<not> jm_has (en_tasks e) n \<and> first_queued n (en_queue e) \<noteq> None")
  case True
  then obtain request q where "first_queued n (en_queue e) = Some (request, q)" by auto
  moreover have "engine_ok owner {n} (e\<lparr>en_queue := q\<rparr>)" by (rule ok_frame [OF ok_open [OF assms] frame_simple(5)])
  ultimately show ?thesis using True begin_ok by (simp add: engine_step_def)
next
  case False
  then have "engine_step nodes (Begin n) e = e" by (auto simp: engine_step_def split: option.splits)
  then show ?thesis using assms by auto
qed

lemma step_ok:
  assumes "engine_ok owner {} e"
  shows "\<exists>owner. engine_ok owner {} (engine_step nodes label e)"
proof (cases label)
  case (Begin n)
  then show ?thesis using step_begin_ok [OF assms] by simp
next
  case (Resume n result)
  show ?thesis
  proof (cases "jm_get (en_tasks e) n")
    case None
    then show ?thesis using assms Resume by (auto simp: engine_step_def)
  next
    case (Some t)
    then show ?thesis using resume_ok [OF assms Some] Resume by (auto simp: engine_step_def)
  qed
next
  case (Arrive n request)
  then show ?thesis using ok_frame [OF assms frame_observer(4)] by blast
next
  case (Deliver i delta now f g)
  then show ?thesis using ok_frame [OF assms frame_observer(1)] by blast
next
  case (ObserverStale i now sent)
  then show ?thesis using ok_frame [OF assms frame_observer(2)] by blast
next
  case (PressureTick i now sent)
  then show ?thesis using ok_frame [OF assms frame_observer(3)] by blast
next
  case (Disconnection n)
  then show ?thesis using ok_frame [OF assms frame_observer(5)] by blast
next
  case (Logout n)
  then show ?thesis using ok_frame [OF assms frame_observer(6)] by blast
next
  case CloseEngine
  then show ?thesis using ok_frame [OF assms frame_close] by (auto simp: engine_step_def)
next
  case CloseSettled
  then show ?thesis using ok_frame [OF assms frame_close_settled] by (auto simp: engine_step_def)
qed

lemma new_ok: "engine_ok owner {} (new_engine options publications)"
  by (simp add: engine_ok_def new_engine_def)

lemma reachable_ok: "engine_reachable options publications e \<Longrightarrow> \<exists>owner. engine_ok owner {} e"
proof (induction rule: engine_reachable.induct)
  case created
  then show ?case using new_ok by blast
next
  case (step e nodes label)
  then show ?case using step_ok by blast
qed

text \<open>No step changes the configuration.\<close>

lemma options_frame: "frame e e' \<Longrightarrow> en_options e' = en_options e"
  by (simp add: frame_def)

lemma options_simple [simp]:
  "en_options (out n r e) = en_options e" "en_options (await_task n t e) = en_options e"
  "en_options (settle n r e) = en_options e" "en_options (abort a e) = en_options e"
  "en_options (update_sub i f e) = en_options e" "en_options (trackPending n a e) = en_options e"
  "en_options (untrackPending n a e) = en_options e" "en_options (stopSubscription i e) = en_options e"
  by (simp_all add: out_def await_task_def settle_def abort_def update_sub_def trackPending_def untrackPending_def
      stopSubscription_def Let_def split: option.splits)

lemma options_create [simp]:
  "en_options (cancel_create n pu sub err e) = en_options e" "en_options (create_begin n input pu e) = en_options e"
  "en_options (source_opened n input pu r e) = en_options e" "en_options (subscription_created ns n i pu e) = en_options e"
  "en_options (observer_started ns n i pu s e) = en_options e" "en_options (cleaned_up n pu err e) = en_options e"
proof -
  show c: "en_options (cancel_create n pu sub err e) = en_options e" for n pu sub err e
    by (simp add: cancel_create_def Let_def split: purpose.splits option.splits)
  show "en_options (create_begin n input pu e) = en_options e" "en_options (source_opened n input pu r e) = en_options e"
    by (simp_all add: create_begin_def source_opened_def Let_def c split: sum.splits)
  show "en_options (subscription_created ns n i pu e) = en_options e" "en_options (observer_started ns n i pu s e) = en_options e"
    "en_options (cleaned_up n pu err e) = en_options e"
    by (simp_all add: subscription_created_def observer_started_def cleaned_up_def start_observer_def c split: purpose.splits sum.splits)
qed

lemma options_subscribe [simp]:
  "en_options (subscribe_capacity n r p m e) = en_options e" "en_options (subscribe ns n r e) = en_options e"
  "en_options (subscribe_stopped n r p m e) = en_options e"
  "en_options (subscribe_authorized ns n r p m a args s e) = en_options e"
proof -
  show c: "en_options (subscribe_capacity n r p m e) = en_options e" for n r p m e
    by (simp add: subscribe_capacity_def Let_def split: sum.splits)
  show "en_options (subscribe_stopped n r p m e) = en_options e" "en_options (subscribe_authorized ns n r p m a args s e) = en_options e"
    by (simp_all add: subscribe_stopped_def subscribe_authorized_def c split: sum.splits)
  show "en_options (subscribe ns n r e) = en_options e"
    by (simp add: subscribe_def node_map_def c split: sum.splits option.splits)
qed

lemma options_resync [simp]:
  "en_options (resync ns n sid stale e) = en_options e" "en_options (resync_authorized n m p key s e) = en_options e"
  "en_options (resync_stopped n m p key scope e) = en_options e"
  "en_options (unsubscribe ns n sid e) = en_options e" "en_options (unsubscribed n m e) = en_options e"
  by (simp_all add: resync_def resync_authorized_def resync_stopped_def unsubscribe_def unsubscribed_def Let_def
      split: sum.splits option.splits)

lemma options_step: "en_options (engine_step nodes label e) = en_options e"
  using options_frame [OF frame_deliver] options_frame [OF frame_markStale] options_frame [OF frame_attempt]
    options_frame [OF frame_node(1)] options_frame [OF frame_node(2)] options_frame [OF frame_close]
    options_frame [OF frame_close_settled]
  by (simp add: engine_step_def begin_request_def resume_def split: live_step.splits option.splits live_request.splits
      live_task.splits outcome.splits)

lemma options_reachable: "engine_reachable options publications e \<Longrightarrow> en_options e = options"
  by (induction rule: engine_reachable.induct) (simp_all add: new_engine_def options_step)

section \<open>Aborted authorizations\<close>

lemma stop_fields [simp]:
  "length (en_subs (stopSubscription i e)) = length (en_subs e)" "en_subscriptions (stopSubscription i e) = en_subscriptions e"
  "en_aborted (stopSubscription i e) = js_add (ls_authorization (en_subs e ! i)) (en_aborted e)"
  by (simp_all add: stopSubscription_def update_sub_def abort_def)

lemma stop_subs:
  "en_subs (stopSubscription i e) ! j =
     (if j = i \<and> i < length (en_subs e) then (en_subs e ! i)\<lparr>ls_pressureTimer := None, ls_observing := False\<rparr> else en_subs e ! j)"
  by (cases "i < length (en_subs e)") (simp_all add: stopSubscription_def update_sub_def abort_def nth_list_update list_update_beyond)

lemma stop_at:
  "i < length (en_subs e) \<Longrightarrow> \<not> ls_observing (en_subs (stopSubscription i e) ! i)"
  "ls_authorization (en_subs (stopSubscription i e) ! j) = ls_authorization (en_subs e ! j)"
  "\<not> ls_observing (en_subs e ! j) \<Longrightarrow> \<not> ls_observing (en_subs (stopSubscription i e) ! j)"
  by (simp_all add: stop_subs)

definition released :: "engine \<Rightarrow> nat \<Rightarrow> bool" where
  "released e i \<longleftrightarrow> \<not> ls_observing (en_subs e ! i) \<and> ls_authorization (en_subs e ! i) \<in> set (en_aborted e)"

lemma released_stop: "i < length (en_subs e) \<Longrightarrow> released (stopSubscription i e) i" "released e j \<Longrightarrow> released (stopSubscription i e) j"
  by (auto simp: released_def stop_at)

lemma released_all:
  assumes "\<forall>i \<in> set xs. i < length (en_subs e)" "\<forall>i \<in> A. released e i"
  shows "\<forall>i \<in> set xs \<union> A. released (foldl (\<lambda>e i. stopSubscription i e) e xs) i"
  using assms
proof (induction xs arbitrary: e A)
  case (Cons x xs)
  have "\<forall>i \<in> insert x A. released (stopSubscription x e) i" using Cons.prems released_stop by auto
  then show ?case using Cons.IH [of "stopSubscription x e" "insert x A"] Cons.prems(1) by auto
qed simp

lemma stop_all_subscriptions: "en_subscriptions (foldl (\<lambda>e i. stopSubscription i e) e xs) = en_subscriptions e"
  by (induction xs arbitrary: e) simp_all

lemma stop_all_aborted: "a \<in> set (en_aborted e) \<Longrightarrow> a \<in> set (en_aborted (foldl (\<lambda>e i. stopSubscription i e) e xs))"
  by (induction xs arbitrary: e) simp_all

lemma abort_all:
  "en_subscriptions (foldl (\<lambda>e a. abort a e) e xs) = en_subscriptions e" "en_maps (foldl (\<lambda>e a. abort a e) e xs) = en_maps e"
  "en_subs (foldl (\<lambda>e a. abort a e) e xs) = en_subs e"
  "set (en_aborted (foldl (\<lambda>e a. abort a e) e xs)) = set xs \<union> set (en_aborted e)"
  by (induction xs arbitrary: e) (auto simp: abort_def)

lemma logout_state:
  fixes e :: engine and n :: node
  defines "e' \<equiv> handleLogout n e"
  shows "jm_get (en_subscriptions e') n = None" "a \<in> set (pending_of n e) \<Longrightarrow> a \<in> set (en_aborted e')"
    "jm_get (en_subscriptions e) n = Some m \<Longrightarrow> \<forall>(k, i) \<in> set (en_maps e ! m). i < length (en_subs e) \<Longrightarrow>
       (k, i) \<in> set (en_maps e ! m) \<Longrightarrow> released e' i"
proof -
  let ?a = "abortPending n e"
  have a: "en_subscriptions ?a = en_subscriptions e" "en_maps ?a = en_maps e" "en_subs ?a = en_subs e"
    "set (en_aborted ?a) = set (pending_of n e) \<union> set (en_aborted e)"
    by (simp_all add: abortPending_def abort_all)
  let ?b = "?a\<lparr>en_subscriptions := jm_delete n (en_subscriptions ?a), en_resyncSnapshots := jm_delete n (en_resyncSnapshots ?a)\<rparr>"
  have e': "e' = (case jm_get (en_subscriptions e) n of None \<Rightarrow> ?a
      | Some m \<Rightarrow> foldl (\<lambda>e i. stopSubscription i e) ?b (jm_values (en_maps e ! m)))"
    by (simp add: e'_def handleLogout_def stopNode_def a cong: option.case_cong)
  show "jm_get (en_subscriptions e') n = None"
    by (cases "jm_get (en_subscriptions e) n") (simp_all add: e' a stop_all_subscriptions)
  show "a \<in> set (pending_of n e) \<Longrightarrow> a \<in> set (en_aborted e')"
    by (cases "jm_get (en_subscriptions e) n") (simp_all add: e' a stop_all_aborted)
  show "released e' i" if "jm_get (en_subscriptions e) n = Some m" "\<forall>(k, i) \<in> set (en_maps e ! m). i < length (en_subs e)"
    "(k, i) \<in> set (en_maps e ! m)"
    using that released_all [of "jm_values (en_maps e ! m)" ?b "{}"] by (force simp: e' a)
qed

section \<open>Every method settles\<close>

text \<open>The outcome a waiting method can receive, and how many segments it still has to run.\<close>

fun outcome_fits :: "live_task \<Rightarrow> outcome \<Rightarrow> bool" where
  "outcome_fits (Authorizing r p m a args) (ScopeResult s) = True"
| "outcome_fits (ResyncAuthorizing m p key) (ScopeResult s) = True"
| "outcome_fits (OpeningSource input pu) (GenerationResult g) = True"
| "outcome_fits (StartingObserver i pu) (SnapshotResult s) = True"
| "outcome_fits (StoppingExisting r p m) Resolved = True"
| "outcome_fits (CreatedSubscription i pu) Resolved = True"
| "outcome_fits (CleaningUp pu err) Resolved = True"
| "outcome_fits (ResyncStopping m p key scope) Resolved = True"
| "outcome_fits (Unsubscribing m) Resolved = True"
| "outcome_fits t r = False"

fun task_rank :: "live_task \<Rightarrow> nat" where
  "task_rank (StoppingExisting r p m) = 6"
| "task_rank (ResyncAuthorizing m p key) = 6"
| "task_rank (Authorizing r p m a args) = 5"
| "task_rank (ResyncStopping m p key scope) = 5"
| "task_rank (OpeningSource input pu) = 4"
| "task_rank (CreatedSubscription i pu) = 3"
| "task_rank (StartingObserver i pu) = 2"
| "task_rank (CleaningUp pu err) = 1"
| "task_rank (Unsubscribing m) = 1"

definition engine_rank :: "node \<Rightarrow> engine \<Rightarrow> nat" where
  "engine_rank n e = (case jm_get (en_tasks e) n of None \<Rightarrow> 0 | Some t \<Rightarrow> task_rank t)"

lemma rank_await [simp]: "engine_rank n (await_task n t e) = task_rank t"
  by (simp add: engine_rank_def await_task_def)

lemma rank_settle [simp]: "engine_rank n (settle n r e) = 0"
  by (simp add: engine_rank_def settle_def out_def)

lemma rank_create:
  "engine_rank n (cancel_create n pu sub err e) \<le> 1" "engine_rank n (create_begin n input pu e) \<le> 4"
proof -
  show c: "engine_rank n (cancel_create n pu sub err e) \<le> 1" for n pu sub err e
    by (simp add: cancel_create_def Let_def split: purpose.splits)
  then have "engine_rank n (cancel_create n pu sub err e) \<le> 4" for n pu sub err e using le_trans [OF c] by simp
  then show "engine_rank n (create_begin n input pu e) \<le> 4"
    by (simp add: create_begin_def Let_def split: sum.splits)
qed

lemma rank_subscribe:
  "engine_rank n (subscribe_capacity n r p m e) \<le> 5" "engine_rank n (subscribe_authorized ns n r p m a args s e) \<le> 4"
proof -
  have c: "engine_rank n (cancel_create n pu sub err e) \<le> k" if "1 \<le> k" for pu sub err e k
    using le_trans [OF rank_create(1) that] .
  show "engine_rank n (subscribe_capacity n r p m e) \<le> 5" by (simp add: subscribe_capacity_def Let_def c split: sum.splits)
  show "engine_rank n (subscribe_authorized ns n r p m a args s e) \<le> 4"
    by (simp add: subscribe_authorized_def rank_create(2) c split: sum.splits)
qed

lemma rank_observer:
  "engine_rank n (source_opened n input pu g e) \<le> 3" "engine_rank n (subscription_created ns n i pu e) \<le> 2"
  "engine_rank n (observer_started ns n i pu s e) \<le> 1" "engine_rank n (cleaned_up n pu err e) = 0"
proof -
  have c: "engine_rank n (cancel_create n pu sub err e) \<le> k" if "1 \<le> k" for pu sub err e k
    using le_trans [OF rank_create(1) that] .
  show "engine_rank n (source_opened n input pu g e) \<le> 3" "engine_rank n (subscription_created ns n i pu e) \<le> 2"
    "engine_rank n (observer_started ns n i pu s e) \<le> 1" "engine_rank n (cleaned_up n pu err e) = 0"
    by (simp_all add: source_opened_def subscription_created_def start_observer_def observer_started_def cleaned_up_def c
        split: sum.splits purpose.splits)
qed

lemma rank_resync:
  "engine_rank n (resync_authorized n m p key s e) \<le> 5" "engine_rank n (resync_stopped n m p key scope e) \<le> 4"
  "engine_rank n (unsubscribed n m e) = 0"
  using rank_create(2) by (simp_all add: resync_authorized_def resync_stopped_def unsubscribed_def Let_def split: sum.splits)

lemma resume_rank: "outcome_fits t r \<Longrightarrow> engine_rank n (resume ns n t r e) < task_rank t"
  by (cases "(t, r)" rule: outcome_fits.cases)
     (simp_all add: resume_def subscribe_stopped_def rank_observer(4) rank_resync(3) rank_subscribe [THEN le_less_trans]
        rank_observer(1-3) [THEN le_less_trans] rank_resync(1,2) [THEN le_less_trans])

lemma step_rank:
  assumes "\<And>t. jm_get (en_tasks e) n = Some t \<Longrightarrow> outcome_fits t r"
  shows "engine_rank n (engine_step nodes (Resume n r) e) \<le> engine_rank n e - 1"
proof (cases "jm_get (en_tasks e) n")
  case (Some t)
  then show ?thesis using resume_rank [OF assms [OF Some], of n "nodes n" e] by (simp add: engine_step_def engine_rank_def)
qed (simp add: engine_step_def engine_rank_def)

lemma steps_rank:
  assumes "\<And>e t. jm_get (en_tasks e) n = Some t \<Longrightarrow> outcome_fits t (answer e)"
  shows "engine_rank n (((\<lambda>e. engine_step nodes (Resume n (answer e)) e) ^^ k) e) \<le> engine_rank n e - k"
proof (induction k)
  case (Suc k)
  let ?e = "((\<lambda>e. engine_step nodes (Resume n (answer e)) e) ^^ k) e"
  have "engine_rank n (engine_step nodes (Resume n (answer ?e)) ?e) \<le> engine_rank n ?e - 1" by (rule step_rank) (rule assms)
  then show ?case using Suc by simp
qed simp

section \<open>Properties\<close>

definition sample_live_options :: live_options where
  "sample_live_options = \<lparr>lo_maxSubscriptionsPerConnection = 2, lo_maxSnapshotDocuments = 10, lo_maxWindowSkip = 10,
     lo_maxBufferedBytes = 100, lo_slowConsumerGraceMs = 50\<rparr>"

definition sample_publication :: live_publication where
  "sample_publication = \<lparr>lp_protected = True, lp_parseArgs = Inr, lp_window = (\<lambda>_ _. Inr None)\<rparr>"

definition sample_engine :: engine where
  "sample_engine = new_engine sample_live_options [(''tasks'', sample_publication)]"

definition logged_in :: "node \<Rightarrow> node_state" where
  "logged_in n = \<lparr>ns_open = True, ns_authenticated = True, ns_supportsBufferedBytes = True, ns_bufferedBytes = 0\<rparr>"

definition logged_out :: "node \<Rightarrow> node_state" where
  "logged_out n = (logged_in n)\<lparr>ns_authenticated := False\<rparr>"

definition engine_run :: "((node \<Rightarrow> node_state) \<times> live_step) list \<Rightarrow> engine \<Rightarrow> engine" where
  "engine_run labels e = foldl (\<lambda>e (nodes, label). engine_step nodes label e) e labels"

lemma run_reachable: "engine_reachable options publications e \<Longrightarrow> engine_reachable options publications (engine_run labels e)"
  by (induction labels arbitrary: e) (auto simp: engine_run_def intro: engine_reachable.step)

definition subscribe_steps :: "(node \<Rightarrow> node_state) \<Rightarrow> string \<Rightarrow> ((node \<Rightarrow> node_state) \<times> live_step) list" where
  "subscribe_steps nodes generation = map (Pair nodes)
     [Resume 0 (ScopeResult (Inr JNull)), Resume 0 (GenerationResult (Inr generation)), Resume 0 Resolved,
      Resume 0 (SnapshotResult (Inr \<lparr>s_subscriptionId = ''s1'', s_generation = generation, s_sequence = 0, s_ordered = None, s_documents = []\<rparr>))]"

definition request_steps :: "((node \<Rightarrow> node_state) \<times> live_step) list" where
  "request_steps = map (Pair logged_in)
     [Arrive 0 (SubscribeRequest \<lparr>sr_subscriptionId = ''s1'', sr_publication = ''tasks'', sr_args = JNull, sr_capabilities = []\<rparr>), Begin 0]"

definition subscribed_engine :: engine where
  "subscribed_engine = engine_run (request_steps @ subscribe_steps logged_in ''g1'') sample_engine"

lemma subscribed_reachable: "engine_reachable sample_live_options [(''tasks'', sample_publication)] subscribed_engine"
  unfolding subscribed_engine_def sample_engine_def by (rule run_reachable [OF created])

lemma ok_registered: "engine_ok owner X e \<Longrightarrow> jm_get (en_subscriptions e) n = Some m \<Longrightarrow> owner m = n \<and> map_ok e (en_maps e ! m)"
  by (simp add: engine_ok_def)

lemma subscribed_state:
  "en_subscriptions subscribed_engine = [(0, 0)]" "en_maps subscribed_engine = [[(''s1'', 0)]]"
  "length (en_subs subscribed_engine) = 1" "en_tasks subscribed_engine = []" "en_queue subscribed_engine = []"
  "ls_authorization (en_subs subscribed_engine ! 0) = 0" "en_pending subscribed_engine = []"
  by code_simp+






fun answer_task :: "live_task \<Rightarrow> outcome" where
  "answer_task (Authorizing r p m a args) = ScopeResult (Inr JNull)"
| "answer_task (ResyncAuthorizing m p key) = ScopeResult (Inr JNull)"
| "answer_task (OpeningSource input pu) = GenerationResult (Inr ''g1'')"
| "answer_task (StartingObserver i pu) = SnapshotResult (Inl (Error ''closed''))"
| "answer_task t = Resolved"

definition answer_node :: "node \<Rightarrow> engine \<Rightarrow> outcome" where
  "answer_node n e = (case jm_get (en_tasks e) n of None \<Rightarrow> Resolved | Some t \<Rightarrow> answer_task t)"


text \<open>
  A subscription can outlive its connection's logout. While a request that replaces an existing
  subscription waits for the old one to stop, it is not tracked as pending; a logout in that moment
  drops the connection's map, and the request goes on to file the new subscription in the dropped
  map. The subscription keeps observing a protected publication for a connection that is logged out, and the
  later disconnection does not stop it.
\<close>

theorem logout_during_resubscribe_leaks:
  "let e = engine_run (request_steps @ [(logged_out, Logout 0), (logged_out, Resume 0 Resolved)] @
             subscribe_steps logged_out ''g2'' @ [(logged_out, Disconnection 0)]) subscribed_engine
   in en_subscriptions e = [] \<and> en_tasks e = [] \<and> length (en_subs e) = 2 \<and> ls_observing (en_subs e ! 1) \<and>
      lp_protected (ls_publication (en_subs e ! 1)) \<and> ls_authorization (en_subs e ! 1) \<notin> set (en_aborted e)"
  by code_simp

end
