(* ===== verification/MiniValues.thy ===== *)
theory MiniValues
  imports Equality
begin

text \<open>
  Value semantics of the local collections (\<open>src/minimongo/value-semantics.ts\<close>): clone, equality and
  the total comparison that sorting and the range operators use. The collator is the comparison
  function of an \<open>Intl.Collator\<close>. Local documents hold no \<open>ObjectId\<close> instances and no objects with
  methods of their own.
\<close>

section \<open>Clone and equality\<close>

fun cloneValue :: "jsval \<Rightarrow> jsval" where
  "cloneValue (JDate t) = JDate t"
| "cloneValue (JRegExp s f) = JRegExp s f"
| "cloneValue (JBinary bs) = JBinary bs"
| "cloneValue (JArr xs) = JArr (map cloneValue xs)"
| "cloneValue (JObj kvs) = JObj (map (\<lambda>(key, v). (key, cloneValue v)) kvs)"
| "cloneValue v = v"

lemma cloneValue_id [simp]: "cloneValue v = v"
  by (induction v rule: cloneValue.induct) (auto intro!: map_idI)

function equalValues :: "bool \<Rightarrow> jsval \<Rightarrow> jsval \<Rightarrow> bool" where
  "equalValues keyOrderSensitive left right =
     (if strict_eq left right then True
      else if areBothNaN left right then True
      else if js_typeof left \<noteq> js_typeof right then False
      else if \<not> isObjectRecord left \<or> \<not> isObjectRecord right then False
      else
        (case (left, right) of
           (JDate s, JDate t) \<Rightarrow> num_strict_eq s t
         | (JDate _, _) \<Rightarrow> False
         | (_, JDate _) \<Rightarrow> False
         | (JBinary s, JBinary t) \<Rightarrow> areBinaryEqual s t
         | (JBinary _, _) \<Rightarrow> False
         | (_, JBinary _) \<Rightarrow> False
         | (JRegExp s f, JRegExp s' f') \<Rightarrow> s = s' \<and> f = f'
         | (JRegExp _ _, _) \<Rightarrow> False
         | (_, JRegExp _ _) \<Rightarrow> False
         | (JArr xs, JArr ys) \<Rightarrow>
             length xs = length ys \<and> list_all (\<lambda>(x, y). equalValues keyOrderSensitive x y) (zip xs ys)
         | (JArr _, _) \<Rightarrow> False
         | (_, JArr _) \<Rightarrow> False
         | _ \<Rightarrow>
             (let leftKeys = keysOf left; rightKeys = keysOf right in
              if length leftKeys \<noteq> length rightKeys then False
              else if keyOrderSensitive \<and> list_ex (\<lambda>(k, k'). k \<noteq> k') (zip leftKeys rightKeys) then False
              else list_all (\<lambda>(key, v). hasOwn right key \<and> equalValues keyOrderSensitive v (get_prop right key))
                     (own_entries left))))"
  by pat_completeness auto
termination
  by (relation "measure (\<lambda>(kos, a, b). eq_measure a)")
    (auto dest: set_zip_leftD intro: eq_measure_elem eq_measure_entry simp: isObjectRecord_def isObject_def
       simp del: own_entries.simps)

declare equalValues.simps [simp del]

section \<open>Comparison\<close>

definition valueType :: "jsval \<Rightarrow> string" where
  "valueType v =
     (case v of
        JUndef \<Rightarrow> ''undefined''
      | JNull \<Rightarrow> ''null''
      | JArr _ \<Rightarrow> ''array''
      | JBinary _ \<Rightarrow> ''binary''
      | JDate _ \<Rightarrow> ''date''
      | JRegExp _ _ \<Rightarrow> ''regexp''
      | _ \<Rightarrow> js_typeof v)"

definition TYPE_ORDER :: "(string \<times> int) list" where
  "TYPE_ORDER = [(''undefined'', -1), (''null'', 0), (''number'', 1), (''string'', 2), (''object'', 3), (''array'', 4),
     (''binary'', 5), (''boolean'', 7), (''date'', 8), (''regexp'', 9)]"

definition type_rank :: "jsval \<Rightarrow> int" where
  "type_rank v = (case map_of TYPE_ORDER (valueType v) of Some n \<Rightarrow> n | None \<Rightarrow> 100)"

text \<open>The shared shape of the three loops: the first difference decides, then the lengths.\<close>

fun lex_compare :: "('a \<Rightarrow> 'a \<Rightarrow> int) \<Rightarrow> 'a list \<Rightarrow> 'a list \<Rightarrow> int" where
  "lex_compare f (x # xs) (y # ys) = (let r = f x y in if r \<noteq> 0 then r else lex_compare f xs ys)"
| "lex_compare f [] (y # ys) = -1"
| "lex_compare f xs [] = 1"

lemma lex_compare_cong [fundef_cong]:
  "\<lbrakk> xs = xs'; ys = ys'; \<And>x y. x \<in> set xs' \<Longrightarrow> y \<in> set ys' \<Longrightarrow> f x y = g x y \<rbrakk>
   \<Longrightarrow> lex_compare f xs ys = lex_compare g xs' ys'"
proof (induction f xs ys arbitrary: xs' ys' rule: lex_compare.induct)
  case (1 f x xs y ys)
  then show ?case by (auto simp: Let_def)
qed auto

definition str_less :: "string \<Rightarrow> string \<Rightarrow> bool" where
  "str_less a b \<longleftrightarrow> a < b"

definition compare_bytes :: "8 word \<Rightarrow> 8 word \<Rightarrow> int" where
  "compare_bytes a b = sgn (uint a - uint b)"

definition regexp_string :: "string \<Rightarrow> string \<Rightarrow> string" where
  "regexp_string s f = ''/'' @ s @ ''/'' @ f"

function compareValues :: "(string \<Rightarrow> string \<Rightarrow> int) option \<Rightarrow> jsval \<Rightarrow> jsval \<Rightarrow> int" where
  "compareValues collator left right =
     (if equalValues True left right then 0
      else if type_rank left - type_rank right \<noteq> 0 then (if type_rank left - type_rank right < 0 then -1 else 1)
      else
        (case (left, right) of
           (JNum a, JNum b) \<Rightarrow> if num_less a b then -1 else 1
         | (JStr a, JStr b) \<Rightarrow>
             sgn (case collator of Some compare \<Rightarrow> compare a b | None \<Rightarrow> if str_less a b then -1 else 1)
         | (JBool a, JBool b) \<Rightarrow> if a then 1 else -1
         | (JDate a, JDate b) \<Rightarrow> if num_less a b then -1 else 1
         | (JRegExp s f, JRegExp s' f') \<Rightarrow> if str_less (regexp_string s f) (regexp_string s' f') then -1 else 1
         | (JArr xs, JArr ys) \<Rightarrow> lex_compare (\<lambda>x y. compareValues collator x y) xs ys
         | (JBinary s, JBinary t) \<Rightarrow> lex_compare compare_bytes s t
         | _ \<Rightarrow>
             if isObjectRecord left \<and> isObjectRecord right then
               lex_compare (\<lambda>e e'. if fst e \<noteq> fst e' then (if str_less (fst e) (fst e') then -1 else 1)
                                   else compareValues collator (snd e) (snd e'))
                 (own_entries left) (own_entries right)
             else 1))"
  by pat_completeness auto
termination
  by (relation "measure (\<lambda>(c, a, b). eq_measure a)")
    (auto intro: eq_measure_elem eq_measure_entry simp: isObjectRecord_def isObject_def simp del: own_entries.simps)

declare compareValues.simps [simp del]

section \<open>The comparison is a linear order\<close>

text \<open>Values without the shapes on which the comparison is not an order: NaN, invalid dates, regular expressions.\<close>

fun sortable :: "jsval \<Rightarrow> bool" where
  "sortable (JNum n) = (n \<noteq> NaN)"
| "sortable (JDate t) = (t \<noteq> NaN)"
| "sortable (JRegExp _ _) = False"
| "sortable (JObjectId _) = False"
| "sortable (JArr xs) = (\<forall>x \<in> set xs. sortable x)"
| "sortable (JObj kvs) = (distinct (map fst kvs) \<and> (\<forall>(k, v) \<in> set kvs. sortable v))"
| "sortable _ = True"

lemma zip_all_eq: "length xs = length ys \<Longrightarrow> \<not> list_ex (\<lambda>(k, k'). k \<noteq> k') (zip xs ys) \<longleftrightarrow> xs = ys"
  by (induction xs ys rule: list_induct2) auto

lemma equalValues_obj:
  "equalValues True (JObj xs) (JObj ys) \<longleftrightarrow>
     map fst xs = map fst ys \<and> (\<forall>(k, v) \<in> set xs. equalValues True v (obj_get ys k))"
proof -
  have "equalValues True (JObj xs) (JObj ys) \<longleftrightarrow>
      length xs = length ys \<and> \<not> list_ex (\<lambda>(k, k'). k \<noteq> k') (zip (map fst xs) (map fst ys)) \<and>
      (\<forall>(k, v) \<in> set xs. k \<in> fst ` set ys \<and> equalValues True v (obj_get ys k))"
    by (subst equalValues.simps) (auto simp: areBothNaN_def isObjectRecord_def keysOf_def list_all_iff)
  also have "\<dots> \<longleftrightarrow> map fst xs = map fst ys \<and> (\<forall>(k, v) \<in> set xs. k \<in> fst ` set ys \<and> equalValues True v (obj_get ys k))"
    using zip_all_eq [of "map fst xs" "map fst ys"] by (auto dest: map_eq_imp_length_eq)
  also have "\<dots> \<longleftrightarrow> map fst xs = map fst ys \<and> (\<forall>(k, v) \<in> set xs. equalValues True v (obj_get ys k))"
  proof (rule conj_cong [OF refl])
    assume "map fst xs = map fst ys"
    then have "fst ` set xs = fst ` set ys" by (metis list.set_map)
    then have "k \<in> fst ` set ys" if "(k, v) \<in> set xs" for k v using that by force
    then show "(\<forall>(k, v) \<in> set xs. k \<in> fst ` set ys \<and> equalValues True v (obj_get ys k)) =
      (\<forall>(k, v) \<in> set xs. equalValues True v (obj_get ys k))" by fastforce
  qed
  finally show ?thesis .
qed

lemma equalValues_arr: "equalValues kos (JArr xs) (JArr ys) \<longleftrightarrow> list_all2 (equalValues kos) xs ys"
  by (subst equalValues.simps) (auto simp: areBothNaN_def isObjectRecord_def list_all2_iff list_all_iff)

lemma alist_nth_get:
  assumes "distinct (map fst ys)" "map fst xs = map fst ys" "i < length xs"
  shows "obj_get ys (fst (xs ! i)) = snd (ys ! i)"
proof -
  have "i < length ys" using assms(2,3) by (metis length_map)
  moreover have "fst (xs ! i) = fst (ys ! i)" using assms(2,3) \<open>i < length ys\<close> by (metis nth_map)
  ultimately have "map_of ys (fst (xs ! i)) = Some (snd (ys ! i))" using assms(1) by simp
  then show ?thesis by (simp add: obj_get_def)
qed

lemma equalValues_iff: "sortable a \<Longrightarrow> sortable b \<Longrightarrow> equalValues True a b \<longleftrightarrow> a = b"
proof (induction a arbitrary: b rule: measure_induct_rule [where f = depth])
  case (less a)
  show ?case
  proof (cases "\<exists>xs ys. a = JArr xs \<and> b = JArr ys")
    case True
    then obtain xs ys where [simp]: "a = JArr xs" "b = JArr ys" by blast
    have "equalValues True (xs ! i) (ys ! i) \<longleftrightarrow> xs ! i = ys ! i" if "i < length xs" "i < length ys" for i
      using less.IH [of "xs ! i" "ys ! i"] less.prems that depth_elem [of "xs ! i" xs] by (simp del: depth.simps)
    then show ?thesis by (auto simp: equalValues_arr list_all2_conv_all_nth intro: nth_equalityI)
  next
    case notarr: False
    show ?thesis
    proof (cases "\<exists>xs ys. a = JObj xs \<and> b = JObj ys")
      case True
      then obtain xs ys where [simp]: "a = JObj xs" "b = JObj ys" by blast
      show ?thesis
      proof (cases "map fst xs = map fst ys")
        case keys: True
        have len: "length xs = length ys" using keys by (metis length_map)
        have "(\<forall>(k, v) \<in> set xs. equalValues True v (obj_get ys k)) \<longleftrightarrow>
            (\<forall>i < length xs. equalValues True (snd (xs ! i)) (snd (ys ! i)))"
        proof -
          have d: "distinct (map fst ys)" using less.prems(2) by simp
          have "(\<forall>(k, v) \<in> set xs. equalValues True v (obj_get ys k)) \<longleftrightarrow>
              (\<forall>i < length xs. equalValues True (snd (xs ! i)) (obj_get ys (fst (xs ! i))))"
            by (auto simp: all_set_conv_all_nth case_prod_beta)
          then show ?thesis using alist_nth_get [OF d keys] by simp
        qed
        also have "\<dots> \<longleftrightarrow> (\<forall>i < length xs. snd (xs ! i) = snd (ys ! i))"
        proof -
          have "equalValues True (snd (xs ! i)) (snd (ys ! i)) \<longleftrightarrow> snd (xs ! i) = snd (ys ! i)" if i: "i < length xs" for i
          proof (rule less.IH)
            have x: "(fst (xs ! i), snd (xs ! i)) \<in> set xs" "(fst (ys ! i), snd (ys ! i)) \<in> set ys"
              using i len by simp_all
            show "depth (snd (xs ! i)) < depth a" using depth_prop [OF x(1)] by (simp del: depth.simps)
            show "sortable (snd (xs ! i))" "sortable (snd (ys ! i))" using less.prems x by auto
          qed
          then show ?thesis by blast
        qed
        also have "\<dots> \<longleftrightarrow> map snd xs = map snd ys" using len by (auto intro: nth_equalityI simp: list_eq_iff_nth_eq)
        finally show ?thesis using keys by (auto simp: equalValues_obj pair_list_eqI)
      qed (auto simp: equalValues_obj)
    next
      case False
      then show ?thesis using notarr less.prems
        by (subst equalValues.simps, cases a; cases b)
          (auto simp: areBothNaN_def isObjectRecord_def num_strict_eq_iff areBinaryEqual_iff simp del: areBinaryEqual.simps)
    qed
  qed
qed
section \<open>Comparators\<close>

locale value_order =
  fixes cmp :: "'a \<Rightarrow> 'a \<Rightarrow> int" and valid :: "'a \<Rightarrow> bool"
  assumes cmp_zero: "valid a \<Longrightarrow> valid b \<Longrightarrow> cmp a b = 0 \<longleftrightarrow> a = b"
    and cmp_antisym: "valid a \<Longrightarrow> valid b \<Longrightarrow> cmp b a = - cmp a b"
    and cmp_trans: "valid a \<Longrightarrow> valid b \<Longrightarrow> valid c \<Longrightarrow> cmp a b < 0 \<Longrightarrow> cmp b c < 0 \<Longrightarrow> cmp a c < 0"
begin

lemma lex_nonzero:
  "xs \<noteq> ys \<Longrightarrow> \<forall>x \<in> set xs. valid x \<Longrightarrow> \<forall>y \<in> set ys. valid y \<Longrightarrow> lex_compare cmp xs ys \<noteq> 0"
proof (induction xs arbitrary: ys)
  case step: (Cons x xs)
  show ?case
  proof (cases ys)
    case (Cons y ys')
    then show ?thesis using step.prems step.IH [of ys'] cmp_zero [of x y] by (auto simp: Let_def)
  qed simp
next
  case Nil
  then show ?case by (cases ys) auto
qed

lemma lex_antisym:
  "xs \<noteq> ys \<Longrightarrow> \<forall>x \<in> set xs. valid x \<Longrightarrow> \<forall>y \<in> set ys. valid y \<Longrightarrow> lex_compare cmp ys xs = - lex_compare cmp xs ys"
proof (induction xs arbitrary: ys)
  case step: (Cons x xs)
  show ?case
  proof (cases ys)
    case (Cons y ys')
    then show ?thesis using step.prems step.IH [of ys'] cmp_zero [of x y] cmp_antisym [of x y] by (auto simp: Let_def)
  qed simp
next
  case Nil
  then show ?case by (cases ys) auto
qed

lemma lex_trans:
  assumes "xs \<noteq> ys" "ys \<noteq> zs" "\<forall>x \<in> set xs \<union> set ys \<union> set zs. valid x"
    and "lex_compare cmp xs ys < 0" "lex_compare cmp ys zs < 0"
  shows "xs \<noteq> zs \<and> lex_compare cmp xs zs < 0"
  using assms
proof (induction xs arbitrary: ys zs)
  case Nil
  then show ?case by (cases ys; cases zs) auto
next
  case (Cons x xs)
  from Cons.prems(4) obtain y ys' where ys: "ys = y # ys'" by (cases ys) auto
  from Cons.prems(5) ys obtain z zs' where zs: "zs = z # zs'" by (cases zs) auto
  have v: "valid x" "valid y" "valid z" using Cons.prems(3) ys zs by auto
  show ?case
  proof (cases "x = y \<and> y = z")
    case True
    then show ?thesis using Cons.IH [of ys' zs'] Cons.prems ys zs v cmp_zero by (auto simp: Let_def)
  next
    case False
    have xy: "x = y \<or> cmp x y < 0" using Cons.prems(4) ys v cmp_zero by (auto simp: Let_def split: if_splits)
    have yz: "y = z \<or> cmp y z < 0" using Cons.prems(5) zs ys v cmp_zero by (auto simp: Let_def split: if_splits)
    then have "cmp x z < 0" using xy False cmp_trans v by blast
    then show ?thesis using zs v cmp_zero [of x z] by (auto simp: Let_def)
  qed
qed

lemma cmp_total: "valid a \<Longrightarrow> valid b \<Longrightarrow> cmp a b < 0 \<or> a = b \<or> cmp b a < 0"
  using cmp_zero cmp_antisym by (metis linorder_neqE_linordered_idom neg_less_0_iff_less)

end

section \<open>Local values are linearly ordered\<close>

definition entry_compare :: "(jsval \<Rightarrow> jsval \<Rightarrow> int) \<Rightarrow> string \<times> jsval \<Rightarrow> string \<times> jsval \<Rightarrow> int" where
  "entry_compare cmp e e' =
     (if fst e \<noteq> fst e' then (if str_less (fst e) (fst e') then -1 else 1) else cmp (snd e) (snd e'))"

lemma entry_order:
  assumes "value_order cmp valid"
  shows "value_order (entry_compare cmp) (\<lambda>e. valid (snd e))"
proof
  fix a b :: "string \<times> jsval"
  assume v: "valid (snd a)" "valid (snd b)"
  show "entry_compare cmp a b = 0 \<longleftrightarrow> a = b"
    using value_order.cmp_zero [OF assms v] by (auto simp: entry_compare_def prod_eq_iff)
  show "entry_compare cmp b a = - entry_compare cmp a b"
    using value_order.cmp_antisym [OF assms v] by (auto simp: entry_compare_def str_less_def)
next
  fix a b c :: "string \<times> jsval"
  assume v: "valid (snd a)" "valid (snd b)" "valid (snd c)"
    and l: "entry_compare cmp a b < 0" "entry_compare cmp b c < 0"
  show "entry_compare cmp a c < 0"
    using value_order.cmp_trans [OF assms v] l
    by (auto simp: entry_compare_def str_less_def split: if_splits)
qed

lemma compare_refl: "sortable a \<Longrightarrow> compareValues c a a = 0"
  by (simp add: compareValues.simps equalValues_iff)

lemma compare_rank:
  assumes "type_rank a \<noteq> type_rank b" "sortable a" "sortable b"
  shows "compareValues c a b = (if type_rank a < type_rank b then -1 else 1)"
  using assms equalValues_iff [OF assms(2,3)] by (subst compareValues.simps) auto

lemma type_ranks:
  "type_rank JUndef = -1" "type_rank JNull = 0" "type_rank (JBool p) = 7" "type_rank (JNum n) = 1" "type_rank (JStr s) = 2"
  "type_rank (JDate t) = 8" "type_rank (JRegExp s f) = 9" "type_rank (JBinary bs) = 5" "type_rank (JArr xs) = 4"
  "type_rank (JObj kvs) = 3" "type_rank (JObjectId s) = 3"
  by (simp_all add: type_rank_def valueType_def TYPE_ORDER_def)

lemma compare_shapes:
  "JNum n \<noteq> JNum m \<Longrightarrow> sortable (JNum n) \<Longrightarrow> sortable (JNum m) \<Longrightarrow> compareValues None (JNum n) (JNum m) = (if num_less n m then -1 else 1)"
  "s \<noteq> t \<Longrightarrow> compareValues None (JStr s) (JStr t) = (if str_less s t then -1 else 1)"
  "p \<noteq> q \<Longrightarrow> compareValues None (JBool p) (JBool q) = (if p then 1 else -1)"
  "JDate n \<noteq> JDate m \<Longrightarrow> sortable (JDate n) \<Longrightarrow> sortable (JDate m) \<Longrightarrow> compareValues None (JDate n) (JDate m) = (if num_less n m then -1 else 1)"
  "xs \<noteq> ys \<Longrightarrow> sortable (JArr xs) \<Longrightarrow> sortable (JArr ys) \<Longrightarrow>
     compareValues None (JArr xs) (JArr ys) = lex_compare (compareValues None) xs ys"
  "us \<noteq> vs \<Longrightarrow> compareValues None (JBinary us) (JBinary vs) = lex_compare compare_bytes us vs"
  "kvs \<noteq> lvs \<Longrightarrow> sortable (JObj kvs) \<Longrightarrow> sortable (JObj lvs) \<Longrightarrow>
     compareValues None (JObj kvs) (JObj lvs) = lex_compare (entry_compare (compareValues None)) kvs lvs"
  by (subst compareValues.simps; simp add: equalValues_iff type_ranks isObjectRecord_def entry_compare_def cong: lex_compare_cong)+

lemma byte_order: "value_order compare_bytes (\<lambda>_. True)"
  by unfold_locales (auto simp: compare_bytes_def sgn_if word_uint_eq_iff split: if_splits)

lemma same_rank:
  assumes "sortable a" "sortable b" "type_rank a = type_rank b" "a \<noteq> b"
  obtains n m where "a = JNum n" "b = JNum m" "n \<noteq> m" "n \<noteq> NaN" "m \<noteq> NaN"
  | s t where "a = JStr s" "b = JStr t" "s \<noteq> t"
  | p q where "a = JBool p" "b = JBool q" "p \<noteq> q"
  | n m where "a = JDate n" "b = JDate m" "n \<noteq> m" "n \<noteq> NaN" "m \<noteq> NaN"
  | xs ys where "a = JArr xs" "b = JArr ys" "xs \<noteq> ys"
  | us vs where "a = JBinary us" "b = JBinary vs" "us \<noteq> vs"
  | kvs lvs where "a = JObj kvs" "b = JObj lvs" "kvs \<noteq> lvs"
  using assms by (cases a; cases b) (auto simp: type_ranks)

lemma pair_order:
  assumes V: "value_order (compareValues None) (\<lambda>v. sortable v \<and> depth v < n)"
    and ab: "sortable a" "sortable b" "a \<noteq> b" "depth a \<le> n" "depth b \<le> n"
  shows "compareValues None a b \<noteq> 0 \<and> compareValues None b a = - compareValues None a b"
proof (cases "type_rank a = type_rank b")
  case False
  then show ?thesis using ab by (simp add: compare_rank)
next
  case True
  from ab(1,2) True ab(3) show ?thesis
  proof (cases rule: same_rank)
    case (1 n m)
    then show ?thesis using num_less_trichotomy [of n m] num_less_asym [of n m] num_less_asym [of m n]
      by (auto simp: compare_shapes)
  next
    case (2 s t)
    then show ?thesis by (auto simp: compare_shapes str_less_def)
  next
    case (3 p q)
    then show ?thesis by (auto simp: compare_shapes)
  next
    case (4 n m)
    then show ?thesis using num_less_trichotomy [of n m] num_less_asym [of n m] num_less_asym [of m n]
      by (auto simp: compare_shapes)
  next
    case (5 xs ys)
    have "\<forall>x \<in> set xs. sortable x \<and> depth x < n" "\<forall>x \<in> set ys. sortable x \<and> depth x < n"
      using ab 5 depth_elem by (fastforce simp del: depth.simps)+
    then show ?thesis using 5 ab value_order.lex_nonzero [OF V, of xs ys] value_order.lex_antisym [OF V, of xs ys] by (simp add: compare_shapes)
  next
    case (6 us vs)
    then show ?thesis using value_order.lex_nonzero [OF byte_order, of us vs] value_order.lex_antisym [OF byte_order, of us vs]
      by (simp add: compare_shapes)
  next
    case (7 kvs lvs)
    note E = entry_order [OF V]
    have "\<forall>e \<in> set kvs. sortable (snd e) \<and> depth (snd e) < n" "\<forall>e \<in> set lvs. sortable (snd e) \<and> depth (snd e) < n"
      using ab 7 depth_prop by (fastforce simp del: depth.simps)+
    then show ?thesis using 7 ab value_order.lex_nonzero [OF E, of kvs lvs] value_order.lex_antisym [OF E, of kvs lvs] by (simp add: compare_shapes)
  qed
qed

lemma less_rank: "sortable a \<Longrightarrow> sortable b \<Longrightarrow> compareValues None a b < 0 \<Longrightarrow> type_rank a \<le> type_rank b \<and> a \<noteq> b"
  using compare_rank [of a b None] compare_refl [of a None] by (cases "type_rank a = type_rank b") (auto split: if_splits)

lemma triple_order:
  assumes V: "value_order (compareValues None) (\<lambda>v. sortable v \<and> depth v < n)"
    and abc: "sortable a" "sortable b" "sortable c" "depth a \<le> n" "depth b \<le> n" "depth c \<le> n"
    and l: "compareValues None a b < 0" "compareValues None b c < 0"
  shows "compareValues None a c < 0"
proof (cases "type_rank a = type_rank b \<and> type_rank b = type_rank c")
  case False
  then have "type_rank a < type_rank c" using less_rank [OF abc(1,2) l(1)] less_rank [OF abc(2,3) l(2)] by linarith
  then show ?thesis using abc by (simp add: compare_rank)
next
  case True
  then have r: "type_rank a = type_rank b" "type_rank b = type_rank c" by simp_all
  have ne: "a \<noteq> b" "b \<noteq> c" using less_rank [OF abc(1,2) l(1)] less_rank [OF abc(2,3) l(2)] by simp_all
  from abc(1,2) r(1) ne(1) show ?thesis
  proof (cases rule: same_rank)
    case (1 n m)
    then obtain k where "c = JNum k" using r(2) abc(3) by (cases c) (auto simp: type_ranks)
    moreover from this have nk: "num_less n k" using 1 ne l abc num_less_trans [of n m k] by (auto simp: compare_shapes split: if_splits)
    moreover from nk have "n \<noteq> k" by auto
    ultimately show ?thesis using 1 abc by (simp add: compare_shapes)
  next
    case (2 s t)
    then obtain u where "c = JStr u" using r(2) abc(3) by (cases c) (auto simp: type_ranks)
    then show ?thesis using 2 ne l by (auto simp: compare_shapes str_less_def split: if_splits)
  next
    case (3 p q)
    then obtain u where "c = JBool u" using r(2) abc(3) by (cases c) (auto simp: type_ranks)
    then show ?thesis using 3 ne l by (auto simp: compare_shapes split: if_splits)
  next
    case (4 n m)
    then obtain k where "c = JDate k" using r(2) abc(3) by (cases c) (auto simp: type_ranks)
    moreover from this have nk: "num_less n k" using 4 ne l abc num_less_trans [of n m k] by (auto simp: compare_shapes split: if_splits)
    moreover from nk have "n \<noteq> k" by auto
    ultimately show ?thesis using 4 abc by (simp add: compare_shapes)
  next
    case (5 xs ys)
    then obtain zs where c: "c = JArr zs" using r(2) abc(3) by (cases c) (auto simp: type_ranks)
    have "\<forall>x \<in> set xs \<union> set ys \<union> set zs. sortable x \<and> depth x < n"
      using abc 5 c depth_elem by (fastforce simp del: depth.simps)
    then show ?thesis using value_order.lex_trans [OF V, of xs ys zs] 5 c ne l abc by (simp add: compare_shapes)
  next
    case (6 us vs)
    then obtain ws where c: "c = JBinary ws" using r(2) abc(3) by (cases c) (auto simp: type_ranks)
    then show ?thesis using value_order.lex_trans [OF byte_order, of us vs ws] 6 ne l by (simp add: compare_shapes)
  next
    case (7 kvs lvs)
    then obtain mvs where c: "c = JObj mvs" using r(2) abc(3) by (cases c) (auto simp: type_ranks)
    have "\<forall>e \<in> set kvs \<union> set lvs \<union> set mvs. sortable (snd e) \<and> depth (snd e) < n"
      using abc 7 c depth_prop by (fastforce simp del: depth.simps)
    then show ?thesis using value_order.lex_trans [OF entry_order [OF V], of kvs lvs mvs] 7 c ne l abc
      by (simp add: compare_shapes)
  qed
qed

lemma bounded_order: "value_order (compareValues None) (\<lambda>v. sortable v \<and> depth v < n)"
proof (induction n)
  case 0
  show ?case by unfold_locales simp_all
next
  case (Suc n)
  show ?case
  proof
    fix a b assume "sortable a \<and> depth a < Suc n" "sortable b \<and> depth b < Suc n"
    then have ab: "sortable a" "sortable b" "depth a \<le> n" "depth b \<le> n" by auto
    show "compareValues None a b = 0 \<longleftrightarrow> a = b"
      using pair_order [OF Suc.IH ab(1,2) _ ab(3,4)] compare_refl [OF ab(1)] by blast
    show "compareValues None b a = - compareValues None a b"
      using pair_order [OF Suc.IH ab(1,2) _ ab(3,4)] compare_refl [OF ab(1), of None] by fastforce
  next
    fix a b c assume "sortable a \<and> depth a < Suc n" "sortable b \<and> depth b < Suc n" "sortable c \<and> depth c < Suc n"
      "compareValues None a b < 0" "compareValues None b c < 0"
    then show "compareValues None a c < 0" using triple_order [OF Suc.IH, of a b c] by simp
  qed
qed

interpretation mini_order: value_order "compareValues None" sortable
proof
  fix a b assume ab: "sortable a" "sortable b"
  note V = bounded_order [of "Suc (max (depth a) (depth b))"]
  show "compareValues None a b = 0 \<longleftrightarrow> a = b" using value_order.cmp_zero [OF V, of a b] ab by simp
  show "compareValues None b a = - compareValues None a b" using value_order.cmp_antisym [OF V, of a b] ab by simp
next
  fix a b c assume abc: "sortable a" "sortable b" "sortable c" "compareValues None a b < 0" "compareValues None b c < 0"
  note V = bounded_order [of "Suc (max (depth a) (max (depth b) (depth c)))"]
  show "compareValues None a c < 0" using value_order.cmp_trans [OF V, of a b c] abc by simp
qed

section \<open>Properties\<close>



end
