(* ===== verification/MiniPath.thy ===== *)
theory MiniPath
  imports MiniValues
begin

text \<open>
  Field paths of local documents (\<open>src/minimongo/path.ts\<close>): the branches a dotted path reaches through
  objects and arrays, array expansion, and reading, writing and deleting at a path. Arrays carry
  elements only: a write under a non-index name of an array, which JavaScript keeps as an extra
  property, has no effect here, and the holes it leaves are \<open>undefined\<close>. Properties inherited from
  prototypes are not represented.
\<close>

section \<open>Paths\<close>

fun split_dot :: "string \<Rightarrow> string list" where
  "split_dot [] = [[]]"
| "split_dot (c # cs) =
     (if c = CHR ''.'' then [] # split_dot cs
      else case split_dot cs of w # ws \<Rightarrow> (c # w) # ws | [] \<Rightarrow> [[c]])"

fun join_dot :: "string list \<Rightarrow> string" where
  "join_dot [] = []"
| "join_dot [w] = w"
| "join_dot (w # ws) = w @ ''.'' @ join_dot ws"

definition starts_with :: "string \<Rightarrow> string \<Rightarrow> bool" where
  "starts_with s p = (take (length p) s = p)"

definition isNumericKey :: "string \<Rightarrow> bool" where
  "isNumericKey s \<longleftrightarrow> s \<noteq> [] \<and> list_all is_digit s"

fun operator_state :: "bool option \<Rightarrow> string list \<Rightarrow> bool js" where
  "operator_state st [] = Inr (case st of None \<Rightarrow> False | Some b \<Rightarrow> b)"
| "operator_state st (key # keys) =
     (let isOperator = (starts_with key ''$'' \<or> key = ''diff'') in
      case st of
        Some b \<Rightarrow> if b \<noteq> isOperator then Inl (Error ''Inconsistent operator'') else operator_state (Some isOperator) keys
      | None \<Rightarrow> operator_state (Some isOperator) keys)"

definition isOperatorObject :: "jsval \<Rightarrow> bool js" where
  "isOperatorObject v = (case v of JObj kvs \<Rightarrow> operator_state None (map fst kvs) | _ \<Rightarrow> Inr False)"

section \<open>Branches\<close>

datatype path_index = Idx nat | AnyIdx

record value_branch =
  b_value :: jsval
  b_dontIterate :: bool
  b_arrayIndices :: "path_index list option"

definition branch :: "path_index list option \<Rightarrow> jsval \<Rightarrow> value_branch" where
  "branch arrayIndices v = \<lparr>b_value = v, b_dontIterate = False, b_arrayIndices = arrayIndices\<rparr>"

definition indices :: "path_index list option \<Rightarrow> path_index list" where
  "indices ai = (case ai of None \<Rightarrow> [] | Some is \<Rightarrow> is)"

definition element_branches :: "(path_index list option \<Rightarrow> jsval \<Rightarrow> value_branch list) \<Rightarrow> path_index list option \<Rightarrow> jsval list
    \<Rightarrow> value_branch list" where
  "element_branches f arrayIndices xs =
     concat (map (\<lambda>(index, element). if isPlainObject element then f (Some (indices arrayIndices @ [Idx index])) element else [])
       (zip [0..<length xs] xs))"

lemma element_branches_cong [fundef_cong]:
  "\<lbrakk> ai = ai'; xs = xs'; \<And>a x. x \<in> set xs' \<Longrightarrow> f a x = g a x \<rbrakk> \<Longrightarrow> element_branches f ai xs = element_branches g ai' xs'"
  unfolding element_branches_def by (intro arg_cong [of _ _ concat] map_cong) (auto dest: set_zip_rightD)

fun branchAt :: "bool \<Rightarrow> string list \<Rightarrow> path_index list option \<Rightarrow> jsval \<Rightarrow> value_branch list" where
  "branchAt forSort [] arrayIndices current = [branch arrayIndices current]"
| "branchAt forSort (part # rest) arrayIndices current =
     (case current of
        JArr xs \<Rightarrow>
          if \<not> isNumericKey part \<or> digits_val 0 part \<ge> length xs then []
          else
            (let index = digits_val 0 part;
                 nextIndices = Some (indices arrayIndices @ [Idx index, AnyIdx]);
                 v = xs ! index
             in if rest = [] then [\<lparr>b_value = v, b_dontIterate = isArray v, b_arrayIndices = nextIndices\<rparr>]
                else branchAt forSort rest nextIndices v)
      | JObj kvs \<Rightarrow>
          (let v = obj_get kvs part in
           if rest = [] then [branch arrayIndices v]
           else
             (case v of
                JArr ys \<Rightarrow>
                  branchAt forSort rest arrayIndices v @
                  (if \<not> (forSort \<and> isNumericKey (hd rest))
                   then element_branches (\<lambda>ai element. branchAt forSort rest ai element) arrayIndices ys else [])
              | JObj _ \<Rightarrow> branchAt forSort rest arrayIndices v
              | _ \<Rightarrow> [branch arrayIndices JUndef]))
      | _ \<Rightarrow> [branch arrayIndices JUndef])"

definition lookupBranches :: "bool \<Rightarrow> jsval \<Rightarrow> string \<Rightarrow> value_branch list" where
  "lookupBranches forSort document path = branchAt forSort (split_dot path) None document"

definition expand_branch :: "bool \<Rightarrow> value_branch \<Rightarrow> value_branch list" where
  "expand_branch skipArrays b =
     (if skipArrays \<and> isArray (b_value b) \<and> \<not> b_dontIterate b then [] else [b]) @
     (case b_value b of
        JArr xs \<Rightarrow>
          if b_dontIterate b then []
          else map (\<lambda>(index, v). branch (Some (indices (b_arrayIndices b) @ [Idx index])) v) (zip [0..<length xs] xs)
      | _ \<Rightarrow> [])"

definition expandArrays :: "bool \<Rightarrow> value_branch list \<Rightarrow> value_branch list" where
  "expandArrays skipArrays branches = concat (map (expand_branch skipArrays) branches)"

section \<open>Reading and writing at a path\<close>

definition reflect_get :: "jsval \<Rightarrow> string \<Rightarrow> jsval" where
  "reflect_get current part =
     (case current of
        JObj kvs \<Rightarrow> obj_get kvs part
      | JArr xs \<Rightarrow>
          if part = ''length'' then jint (int (length xs))
          else (case array_index part of Some i \<Rightarrow> if i < length xs then xs ! i else JUndef | None \<Rightarrow> JUndef)
      | _ \<Rightarrow> JUndef)"

definition reflect_set :: "jsval \<Rightarrow> string \<Rightarrow> jsval \<Rightarrow> jsval" where
  "reflect_set current part v =
     (case current of
        JObj kvs \<Rightarrow> JObj (obj_set part v kvs)
      | JArr xs \<Rightarrow>
          (case array_index part of
             Some i \<Rightarrow> if i < length xs then JArr (xs[i := v]) else JArr (xs @ replicate (i - length xs) JUndef @ [v])
           | None \<Rightarrow> JArr xs)
      | _ \<Rightarrow> current)"

fun get_parts :: "jsval \<Rightarrow> string list \<Rightarrow> jsval" where
  "get_parts current [] = current"
| "get_parts current (part # parts) =
     (if isPlainObject current \<or> isArray current then get_parts (reflect_get current part) parts else JUndef)"

definition getPath :: "jsval \<Rightarrow> string \<Rightarrow> jsval" where
  "getPath document path = get_parts document (split_dot path)"

fun set_parts :: "jsobj \<Rightarrow> string list \<Rightarrow> string \<Rightarrow> jsval \<Rightarrow> jsobj" where
  "set_parts current [] finalPart v = obj_set finalPart v current"
| "set_parts current (part # parts) finalPart v =
     (case obj_get current part of
        JObj existing \<Rightarrow> obj_set part (JObj (set_parts existing parts finalPart v)) current
      | _ \<Rightarrow> obj_set part (JObj (set_parts [] parts finalPart v)) current)"

definition setPath :: "jsobj \<Rightarrow> string \<Rightarrow> jsval \<Rightarrow> jsobj" where
  "setPath document path v =
     (let parts = split_dot path in
      if last parts = [] then document else set_parts document (butlast parts) (last parts) v)"

fun delete_parts :: "jsval \<Rightarrow> string list \<Rightarrow> string \<Rightarrow> jsval" where
  "delete_parts current [] finalPart =
     (case current of
        JArr xs \<Rightarrow>
          if isNumericKey finalPart \<and> digits_val 0 finalPart < length xs
          then JArr (xs[digits_val 0 finalPart := JNull]) else current
      | JObj kvs \<Rightarrow> JObj (obj_delete finalPart kvs)
      | _ \<Rightarrow> current)"
| "delete_parts current (part # parts) finalPart =
     (case current of
        JObj kvs \<Rightarrow>
          (case map_of kvs part of
             None \<Rightarrow> current
           | Some child \<Rightarrow> JObj (jm_set part (delete_parts child parts finalPart) kvs))
      | JArr xs \<Rightarrow>
          (case array_index part of
             Some i \<Rightarrow> if i < length xs then JArr (xs[i := delete_parts (xs ! i) parts finalPart]) else current
           | None \<Rightarrow> current)
      | _ \<Rightarrow> current)"

definition deletePath :: "jsobj \<Rightarrow> string \<Rightarrow> jsval" where
  "deletePath document path =
     (let parts = split_dot path in
      if last parts = [] then JObj document else delete_parts (JObj document) (butlast parts) (last parts))"

section \<open>Laws\<close>

lemma split_dot_nonempty [simp]: "split_dot s \<noteq> []"
  by (induction s) (auto split: list.splits)

lemma join_split: "join_dot (split_dot s) = s"
proof (induction s)
  case (Cons c cs)
  then show ?case by (cases "split_dot cs"; cases "tl (split_dot cs)") (auto split: list.splits)
qed simp

lemma split_no_dot: "w \<in> set (split_dot s) \<Longrightarrow> CHR ''.'' \<notin> set w"
  by (induction s arbitrary: w) (auto split: list.splits if_splits)

lemma get_set_parts: "get_parts (JObj (set_parts doc parts f v)) (parts @ [f]) = v"
  by (induction doc parts f v rule: set_parts.induct) (auto simp: reflect_get_def split: jsval.splits)

lemma get_set_path: "last (split_dot path) \<noteq> [] \<Longrightarrow> getPath (JObj (setPath doc path v)) path = v"
  using get_set_parts [of doc "butlast (split_dot path)" "last (split_dot path)" v]
  by (simp add: getPath_def setPath_def Let_def)

lemma set_parts_other:
  assumes "hd (parts @ [f]) \<noteq> k"
  shows "obj_get (set_parts doc parts f v) k = obj_get doc k"
  using assms by (cases parts) (auto split: jsval.splits)

text \<open>
  Writing a field of a local document at a dotted path and reading it back gives the written
  value, whatever the document held on the way, and leaves every other top-level field as it was.
\<close>

theorem setPath_getPath:
  assumes "last (split_dot path) \<noteq> []"
  shows "getPath (JObj (setPath doc path v)) path = v \<and>
    (\<forall>k. k \<noteq> hd (split_dot path) \<longrightarrow> obj_get (setPath doc path v) k = obj_get doc k)"
proof -
  have "hd (butlast (split_dot path) @ [last (split_dot path)]) = hd (split_dot path)" by simp
  then show ?thesis using assms get_set_path [OF assms] set_parts_other [of "butlast (split_dot path)" "last (split_dot path)"]
    by (auto simp: setPath_def Let_def)
qed

theorem setPath_getPath_witness:
  "getPath (JObj (setPath [(''a'', jint 1), (''b'', JArr [])] ''a.b.c'' (JStr ''x''))) ''a.b.c'' = JStr ''x''"
  using setPath_getPath [of "''a.b.c''" "[(''a'', jint 1), (''b'', JArr [])]" "JStr ''x''"] by simp

end
