(* ===== verification/MiniMatcher.thy ===== *)
theory MiniMatcher
  imports MiniPath
begin

text \<open>
  The selector compiler of the local collections (\<open>src/minimongo/matcher.ts\<close>). Compilation returns a
  closure or the error the constructor throws; a closure returns a match result or the error thrown
  while matching. Host functions outside the program are fields of \<open>matcher_host\<close>: regular
  expression matching, the collator, and the two floating-point distance formulas. Numbers are
  exact. Function-valued selector fields, which the compiler skips, are not values of the model.
\<close>

record matcher_host =
  mh_host :: host
  mh_regex_test :: "string \<Rightarrow> string \<Rightarrow> string \<Rightarrow> bool"
  mh_collator :: "(string \<Rightarrow> string \<Rightarrow> int) option"
  mh_distance :: "jsnum \<times> jsnum \<Rightarrow> jsnum \<times> jsnum \<Rightarrow> jsnum"
  mh_geoJsonDistance :: "jsnum \<times> jsnum \<Rightarrow> jsnum \<times> jsnum \<Rightarrow> jsnum"

record match_result =
  m_result :: bool
  m_arrayIndices :: "path_index list option"
  m_distance :: "jsnum option"

type_synonym document_matcher = "jsval \<Rightarrow> match_result js"
type_synonym branch_matcher = "value_branch list \<Rightarrow> match_result js"

abbreviation matched :: match_result where
  "matched \<equiv> \<lparr>m_result = True, m_arrayIndices = None, m_distance = None\<rparr>"

abbreviation unmatched :: match_result where
  "unmatched \<equiv> \<lparr>m_result = False, m_arrayIndices = None, m_distance = None\<rparr>"

section \<open>Early-exit loops over fallible tests\<close>

fun rfind :: "('a \<Rightarrow> 'e + bool) \<Rightarrow> 'a list \<Rightarrow> 'e + 'a option" where
  "rfind p [] = Inr None"
| "rfind p (x # xs) = rbind (p x) (\<lambda>b. if b then Inr (Some x) else rfind p xs)"

definition rsome :: "('a \<Rightarrow> 'e + bool) \<Rightarrow> 'a list \<Rightarrow> 'e + bool" where
  "rsome p xs = rbind (rfind p xs) (\<lambda>r. Inr (r \<noteq> None))"

definition revery :: "('a \<Rightarrow> 'e + bool) \<Rightarrow> 'a list \<Rightarrow> 'e + bool" where
  "revery p xs = rbind (rfind (\<lambda>x. rbind (p x) (\<lambda>b. Inr (\<not> b))) xs) (\<lambda>r. Inr (r = None))"

lemma rfind_cong [fundef_cong]:
  "\<lbrakk> xs = ys; \<And>x. x \<in> set ys \<Longrightarrow> p x = q x \<rbrakk> \<Longrightarrow> rfind p xs = rfind q ys"
  by (induction xs arbitrary: ys) (auto simp: rbind_def split: sum.splits)

lemma rfind_Inr: "(\<And>x. x \<in> set xs \<Longrightarrow> p x = Inr (q x)) \<Longrightarrow> rfind p xs = Inr (find q xs)"
  by (induction xs) auto

section \<open>Value tests\<close>

definition TYPE_ALIASES :: "(string \<times> int) list" where
  "TYPE_ALIASES = [(''double'', 1), (''string'', 2), (''object'', 3), (''array'', 4), (''binData'', 5),
     (''undefined'', 6), (''objectId'', 7), (''bool'', 8), (''date'', 9), (''null'', 10),
     (''regex'', 11), (''javascript'', 13), (''int'', 16), (''timestamp'', 17),
     (''long'', 18), (''decimal'', 19), (''minKey'', -1), (''maxKey'', 127)]"

definition minimongoType :: "jsval \<Rightarrow> int" where
  "minimongoType v =
     (case v of
        JNum _ \<Rightarrow> 1 | JStr _ \<Rightarrow> 2 | JBool _ \<Rightarrow> 8 | JArr _ \<Rightarrow> 4 | JNull \<Rightarrow> 10 | JRegExp _ _ \<Rightarrow> 11
      | JDate _ \<Rightarrow> 9 | JBinary _ \<Rightarrow> 5 | _ \<Rightarrow> 3)"

definition regexMatches :: "matcher_host \<Rightarrow> string \<Rightarrow> string \<Rightarrow> jsval \<Rightarrow> bool" where
  "regexMatches mh source flags v =
     (case v of
        JRegExp s f \<Rightarrow> regexp_string s f = regexp_string source flags
      | JStr s \<Rightarrow> mh_regex_test mh source flags s
      | _ \<Rightarrow> False)"

definition int32 :: "int \<Rightarrow> int" where
  "int32 z = sint (word_of_int z :: 32 word)"

definition num_int :: "jsval \<Rightarrow> int option" where
  "num_int v = (case v of JNum (Fin q) \<Rightarrow> if of_int \<lfloor>q\<rfloor> = q then Some \<lfloor>q\<rfloor> else None | _ \<Rightarrow> None)"

definition le_bytes :: "nat \<Rightarrow> int \<Rightarrow> 8 word list" where
  "le_bytes n z = map (\<lambda>i. word_of_int (z div 256 ^ i)) [0..<n]"

definition set_bit_at :: "int \<Rightarrow> 8 word list \<Rightarrow> 8 word list" where
  "set_bit_at position result =
     (let p = int32 position; i = p div 8 in
      if 0 \<le> i \<and> nat i < length result
      then result[nat i := or (result ! nat i) (push_bit (nat (p mod 8)) 1)] else result)"

definition bitMask :: "jsval \<Rightarrow> string \<Rightarrow> (8 word list) js" where
  "bitMask operand operator =
     (let failure = Inl (LocalQueryError (''operand to '' @ operator @ '' must be a numeric bitmask (representable as a non-negative 32-bit signed integer), a bindata bitmask or an array with bit positions (non-negative integers)'')) in
      case operand of
        JNum _ \<Rightarrow>
          (case num_int operand of
             Some n \<Rightarrow> if 0 \<le> n \<and> n \<le> 2147483647 then Inr (le_bytes 4 n) else failure
           | None \<Rightarrow> failure)
      | JBinary bs \<Rightarrow> Inr bs
      | JArr xs \<Rightarrow>
          if list_all (\<lambda>x. case num_int x of Some n \<Rightarrow> 0 \<le> n | None \<Rightarrow> False) xs
          then
            (let positions = List.map_filter num_int xs;
                 maximum = foldr max positions 0;
                 size = int32 maximum div 8 + 1
             in if size < 0 then Inl (Error ''Invalid typed array length'')
                else Inr (foldl (\<lambda>result position. set_bit_at position result) (replicate (nat size) 0) positions))
          else failure
      | _ \<Rightarrow> failure)"

definition valueMask :: "jsval \<Rightarrow> nat \<Rightarrow> 8 word list option" where
  "valueMask v n =
     (case v of
        JBinary bs \<Rightarrow> Some bs
      | JNum m \<Rightarrow> if is_safe_integer m then (case num_int v of Some z \<Rightarrow> Some (le_bytes (max n 8) z) | None \<Rightarrow> None) else None
      | _ \<Rightarrow> None)"

definition bits_test :: "string \<Rightarrow> 8 word list \<Rightarrow> 8 word list \<Rightarrow> bool" where
  "bits_test operator bytes candidate =
     (let pairs = zip bytes [0..<length bytes];
          byte_at = (\<lambda>index. if index < length candidate then candidate ! index else 0)
      in if operator = ''$bitsAllSet'' then list_all (\<lambda>(byte, index). and (byte_at index) byte = byte) pairs
         else if operator = ''$bitsAnySet'' then list_ex (\<lambda>(byte, index). and (byte_at index) byte \<noteq> 0) pairs
         else if operator = ''$bitsAllClear'' then list_all (\<lambda>(byte, index). and (byte_at index) byte = 0) pairs
         else list_ex (\<lambda>(byte, index). and (byte_at index) byte \<noteq> byte) pairs)"

fun num_mod :: "jsnum \<Rightarrow> jsnum \<Rightarrow> jsnum" where
  "num_mod (Fin a) (Fin b) = (if b = 0 then NaN else Fin (a - b * of_int (trunc_int (a / b))))"
| "num_mod (Fin a) NaN = NaN"
| "num_mod (Fin a) _ = Fin a"
| "num_mod _ _ = NaN"

definition point_pair :: "jsval list \<Rightarrow> (jsnum \<times> jsnum) option" where
  "point_pair xs = (case xs of JNum a # JNum b # _ \<Rightarrow> Some (a, b) | _ \<Rightarrow> None)"

definition point :: "jsval \<Rightarrow> (jsnum \<times> jsnum) option" where
  "point v =
     (case v of
        JArr xs \<Rightarrow> point_pair xs
      | JObj kvs \<Rightarrow>
          (case (obj_get kvs ''type'', obj_get kvs ''coordinates'') of
             (JStr t, JArr xs) \<Rightarrow>
               if t = ''Point'' then point_pair xs
               else (case (obj_get kvs ''x'', obj_get kvs ''y'') of (JNum a, JNum b) \<Rightarrow> Some (a, b) | _ \<Rightarrow> None)
           | _ \<Rightarrow> (case (obj_get kvs ''x'', obj_get kvs ''y'') of (JNum a, JNum b) \<Rightarrow> Some (a, b) | _ \<Rightarrow> None))
      | _ \<Rightarrow> None)"

definition nullish :: "jsval \<Rightarrow> bool" where
  "nullish v \<longleftrightarrow> v = JNull \<or> v = JUndef"

definition equal :: "matcher_host \<Rightarrow> jsval \<Rightarrow> jsval \<Rightarrow> bool" where
  "equal mh expected actual =
     (if nullish expected \<and> nullish actual then True
      else case (mh_collator mh, expected, actual) of
        (Some compare, JStr a, JStr b) \<Rightarrow> compare a b = 0
      | _ \<Rightarrow> equalValues True expected actual)"

definition equal_or_regex :: "matcher_host \<Rightarrow> jsval \<Rightarrow> jsval \<Rightarrow> bool" where
  "equal_or_regex mh expected v =
     (case expected of JRegExp s f \<Rightarrow> regexMatches mh s f v | _ \<Rightarrow> equal mh expected v)"

section \<open>Branch matchers\<close>

definition elementMatcher :: "(jsval \<Rightarrow> bool js) \<Rightarrow> bool \<Rightarrow> bool \<Rightarrow> branch_matcher" where
  "elementMatcher predicate expand skipArrays branches =
     (let candidates = (if expand then expandArrays skipArrays branches else branches) in
      rbind (rfind (\<lambda>b. predicate (b_value b)) candidates) (\<lambda>found.
        case found of
          Some b \<Rightarrow> Inr \<lparr>m_result = True, m_arrayIndices = b_arrayIndices b, m_distance = None\<rparr>
        | None \<Rightarrow> Inr unmatched))"

definition invert :: "branch_matcher \<Rightarrow> branch_matcher" where
  "invert matcher branches =
     rbind (matcher branches) (\<lambda>r. Inr \<lparr>m_result = \<not> m_result r, m_arrayIndices = None, m_distance = None\<rparr>)"

definition comparison :: "matcher_host \<Rightarrow> jsval \<Rightarrow> (int \<Rightarrow> bool) \<Rightarrow> branch_matcher" where
  "comparison mh operand test =
     (if isArray operand then (\<lambda>branches. Inr unmatched)
      else
        (let normalize = (\<lambda>v. if v = JUndef then JNull else v);
             normalizedOperand = normalize operand
         in elementMatcher (\<lambda>v. Inr (minimongoType (normalize v) = minimongoType normalizedOperand \<and>
              test (compareValues (mh_collator mh) (normalize v) normalizedOperand))) True False))"

text \<open>The loop of \<open>$near\<close>: \<open>isUpdate\<close> stops at the first candidate and keeps no distance.\<close>

fun near_loop ::
  "bool \<Rightarrow> (jsnum \<times> jsnum \<Rightarrow> jsnum) \<Rightarrow> jsnum \<Rightarrow> value_branch list \<Rightarrow> jsnum option \<Rightarrow> path_index list option
   \<Rightarrow> jsnum option \<times> path_index list option" where
  "near_loop isUpdate distanceTo maxDistance [] nearest found = (nearest, found)"
| "near_loop isUpdate distanceTo maxDistance (b # bs) nearest found =
     (case point (b_value b) of
        None \<Rightarrow> near_loop isUpdate distanceTo maxDistance bs nearest found
      | Some candidate \<Rightarrow>
          if isUpdate then (None, b_arrayIndices b)
          else
            (let current = distanceTo candidate in
             if (num_less current maxDistance \<or> num_strict_eq current maxDistance) \<and>
                (case nearest of None \<Rightarrow> True | Some n \<Rightarrow> num_less current n)
             then near_loop isUpdate distanceTo maxDistance bs (Some current) (b_arrayIndices b)
             else near_loop isUpdate distanceTo maxDistance bs nearest found))"

definition near_matcher :: "matcher_host \<Rightarrow> bool \<Rightarrow> jsval \<Rightarrow> jsobj \<Rightarrow> bool \<Rightarrow> branch_matcher js" where
  "near_matcher mh isUpdate operand selector isRoot =
     (if \<not> isRoot then Inl (LocalQueryError ''$near can't be inside another $ operator'')
      else
        (let isGeoJson = (case operand of JObj kvs \<Rightarrow> jm_has kvs ''$geometry'' | _ \<Rightarrow> False);
             geometry = (if isGeoJson then get_prop operand ''$geometry'' else operand)
         in case point geometry of
              None \<Rightarrow> Inl (LocalQueryError ''$near argument must be coordinate pair or GeoJSON'')
            | Some origin \<Rightarrow>
                (let maxDistance =
                   (case (operand, obj_get selector ''$maxDistance'') of
                      (JObj kvs, outer) \<Rightarrow>
                        (case obj_get kvs ''$maxDistance'' of
                           JNum m \<Rightarrow> m
                         | _ \<Rightarrow> (case outer of JNum m \<Rightarrow> m | _ \<Rightarrow> Infinity))
                    | (_, JNum m) \<Rightarrow> m
                    | _ \<Rightarrow> Infinity);
                     distanceTo = (if isGeoJson then mh_geoJsonDistance mh origin else mh_distance mh origin)
                 in Inr (\<lambda>branches.
                      (let (nearest, found) = near_loop isUpdate distanceTo maxDistance (expandArrays False branches) None None
                       in if nearest = None \<and> \<not> (isUpdate \<and> found \<noteq> None) then Inr unmatched
                          else Inr \<lparr>m_result = True, m_arrayIndices = found, m_distance = nearest\<rparr>)))))"

section \<open>Operators that compile nothing below them\<close>

definition regex_matcher :: "matcher_host \<Rightarrow> jsval \<Rightarrow> jsobj \<Rightarrow> branch_matcher js" where
  "regex_matcher mh operand selector =
     (let build = (\<lambda>source inheritedFlags.
        (let flags = (if obj_get selector ''$options'' = JUndef then inheritedFlags
                      else js_string (mh_host mh) (obj_get selector ''$options''))
         in if list_ex (\<lambda>c. c \<notin> set ''gim'') flags
            then Inl (LocalQueryError ''Only the i, m, and g regexp options are supported'')
            else if \<not> regexp_valid (mh_host mh) source flags then Inl (SyntaxError ''Invalid regular expression'')
            else Inr (elementMatcher (\<lambda>v. Inr (regexMatches mh source flags v)) True False)))
      in case operand of
           JStr s \<Rightarrow> build s []
         | JRegExp s f \<Rightarrow> build s f
         | _ \<Rightarrow> Inl (LocalQueryError ''$regex has to be a string or RegExp''))"

definition in_matcher :: "matcher_host \<Rightarrow> jsval \<Rightarrow> branch_matcher js" where
  "in_matcher mh operand =
     (case operand of
        JArr options \<Rightarrow>
          Inr (elementMatcher (\<lambda>v. rsome (\<lambda>option.
            rbind (isOperatorObject option) (\<lambda>nested.
              if nested then Inl (LocalQueryError ''cannot nest $ under $in'')
              else Inr (equal_or_regex mh option v))) options) True False)
      | _ \<Rightarrow> Inl (LocalQueryError ''$in needs an array''))"

definition all_matcher :: "matcher_host \<Rightarrow> jsval \<Rightarrow> branch_matcher js" where
  "all_matcher mh operand =
     (case operand of
        JArr xs \<Rightarrow>
          if xs = [] then Inr (\<lambda>branches. Inr unmatched)
          else rbind (rsome isOperatorObject xs) (\<lambda>nested.
            if nested then Inl (LocalQueryError ''no $ expressions in $all'')
            else Inr (\<lambda>branches.
              rbind (revery (\<lambda>expected.
                  rbind (elementMatcher (\<lambda>v. Inr (equal_or_regex mh expected v)) True False branches) (\<lambda>r. Inr (m_result r))) xs)
                (\<lambda>b. Inr (if b then matched else unmatched))))
      | _ \<Rightarrow> Inl (LocalQueryError ''$all requires array''))"

definition type_matcher :: "jsval \<Rightarrow> branch_matcher js" where
  "type_matcher operand =
     (let check = (\<lambda>n :: jsnum.
        if n = Fin 0 \<or> num_less n (Fin (-1)) \<or> (num_less (Fin 19) n \<and> n \<noteq> Fin 127)
        then Inl (LocalQueryError ''Invalid numerical $type code'')
        else Inr (elementMatcher (\<lambda>v. Inr (v \<noteq> JUndef \<and> Fin (of_int (minimongoType v)) = n)) True True))
      in case operand of
           JStr alias \<Rightarrow>
             (case map_of TYPE_ALIASES alias of
                None \<Rightarrow> Inl (LocalQueryError (''unknown string alias for $type: '' @ alias))
              | Some n \<Rightarrow> check (Fin (of_int n)))
         | JUndef \<Rightarrow> Inl (LocalQueryError ''unknown string alias for $type: undefined'')
         | JNum n \<Rightarrow> check n
         | _ \<Rightarrow> Inl (LocalQueryError ''argument to $type is not a number or a string''))"

definition leaf_operator :: "matcher_host \<Rightarrow> bool \<Rightarrow> string \<Rightarrow> jsval \<Rightarrow> jsobj \<Rightarrow> bool \<Rightarrow> branch_matcher js" where
  "leaf_operator mh isUpdate operator operand selector isRoot =
     (if operator = ''$lt'' then Inr (comparison mh operand (\<lambda>r. r < 0))
      else if operator = ''$lte'' then Inr (comparison mh operand (\<lambda>r. r \<le> 0))
      else if operator = ''$gt'' then Inr (comparison mh operand (\<lambda>r. r > 0))
      else if operator = ''$gte'' then Inr (comparison mh operand (\<lambda>r. r \<ge> 0))
      else if operator = ''$eq'' then Inr (elementMatcher (\<lambda>v. Inr (equal mh operand v)) True False)
      else if operator = ''$ne'' then Inr (invert (elementMatcher (\<lambda>v. Inr (equal mh operand v)) True False))
      else if operator = ''$in'' then in_matcher mh operand
      else if operator = ''$nin'' then rbind (in_matcher mh operand) (\<lambda>m. Inr (invert m))
      else if operator = ''$exists'' then
        (let m = elementMatcher (\<lambda>v. Inr (v \<noteq> JUndef)) True False in Inr (if truthy operand then m else invert m))
      else if operator = ''$options'' then
        (if jm_has selector ''$regex'' then Inr (\<lambda>branches. Inr matched)
         else Inl (LocalQueryError ''$options needs a $regex''))
      else if operator = ''$regex'' then regex_matcher mh operand selector
      else if operator = ''$size'' then
        (case operand of
           JStr _ \<Rightarrow> Inr (elementMatcher (\<lambda>v. Inr (v = JArr [])) False False)
         | JNum n \<Rightarrow> Inr (elementMatcher (\<lambda>v. Inr (case v of JArr xs \<Rightarrow> num_strict_eq (Fin (of_nat (length xs))) n | _ \<Rightarrow> False)) False False)
         | _ \<Rightarrow> Inl (LocalQueryError ''$size needs a number''))
      else if operator = ''$all'' then all_matcher mh operand
      else if operator = ''$mod'' then
        (case operand of
           JArr [JNum d, JNum r] \<Rightarrow>
             Inr (elementMatcher (\<lambda>v. Inr (case v of JNum n \<Rightarrow> num_strict_eq (num_mod n d) r | _ \<Rightarrow> False)) True False)
         | _ \<Rightarrow> Inl (LocalQueryError ''argument to $mod must be an array of two numbers''))
      else if operator = ''$type'' then type_matcher operand
      else if starts_with operator ''$bits'' then
        rbind (bitMask operand operator) (\<lambda>bytes.
          Inr (elementMatcher (\<lambda>v. Inr (case valueMask v (length bytes) of
                 None \<Rightarrow> False | Some candidate \<Rightarrow> bits_test operator bytes candidate)) True False))
      else if operator = ''$maxDistance'' then
        (if jm_has selector ''$near'' then Inr (\<lambda>branches. Inr matched)
         else Inl (LocalQueryError ''$maxDistance needs a $near''))
      else if operator = ''$near'' then near_matcher mh isUpdate operand selector isRoot
      else Inl (LocalQueryError (''Unrecognized operator: '' @ operator)))"

section \<open>Combining results\<close>

fun all_entries :: "bool \<Rightarrow> document_matcher list \<Rightarrow> match_result \<Rightarrow> jsval \<Rightarrow> match_result js" where
  "all_entries firstDistance [] acc document = Inr acc"
| "all_entries firstDistance (matcher # matchers) acc document =
     rbind (matcher document) (\<lambda>r.
       if \<not> m_result r then Inr unmatched
       else all_entries firstDistance matchers
         \<lparr>m_result = True,
          m_arrayIndices = (if m_arrayIndices r \<noteq> None then m_arrayIndices r else m_arrayIndices acc),
          m_distance =
            (if firstDistance then (if m_distance acc = None then m_distance r else m_distance acc)
             else (if m_distance r \<noteq> None then m_distance r else m_distance acc))\<rparr> document)"

definition combine_operators :: "branch_matcher list \<Rightarrow> branch_matcher" where
  "combine_operators matchers branches =
     rbind (rtraverse (\<lambda>m. m branches) matchers) (\<lambda>results.
       Inr \<lparr>m_result = \<not> list_ex (\<lambda>r. \<not> m_result r) results,
            m_arrayIndices = (case find (\<lambda>r. m_arrayIndices r \<noteq> None) results of Some r \<Rightarrow> m_arrayIndices r | None \<Rightarrow> None),
            m_distance = (case find (\<lambda>r. m_distance r \<noteq> None) results of Some r \<Rightarrow> m_distance r | None \<Rightarrow> None)\<rparr>)"

definition logical_matcher :: "string \<Rightarrow> document_matcher list \<Rightarrow> document_matcher" where
  "logical_matcher operator entries =
     (if operator = ''$and'' then all_entries True entries matched
      else if operator = ''$or'' then
        (case entries of
           [entry] \<Rightarrow> entry
         | _ \<Rightarrow> (\<lambda>document. rbind (rsome (\<lambda>m. rbind (m document) (\<lambda>r. Inr (m_result r))) entries)
                  (\<lambda>b. Inr (if b then matched else unmatched))))
      else (\<lambda>document. rbind (revery (\<lambda>m. rbind (m document) (\<lambda>r. Inr (\<not> m_result r))) entries)
             (\<lambda>b. Inr (if b then matched else unmatched))))"

fun elem_loop :: "(jsval \<Rightarrow> match_result js) \<Rightarrow> path_index list option \<Rightarrow> nat \<Rightarrow> jsval list \<Rightarrow> match_result js" where
  "elem_loop test arrayIndices index [] = Inr unmatched"
| "elem_loop test arrayIndices index (v # vs) =
     rbind (test v) (\<lambda>r.
       if m_result r
       then Inr \<lparr>m_result = True, m_arrayIndices = Some (indices arrayIndices @ [Idx index]), m_distance = None\<rparr>
       else elem_loop test arrayIndices (Suc index) vs)"

fun elemMatch_loop :: "(jsval \<Rightarrow> match_result js) \<Rightarrow> value_branch list \<Rightarrow> match_result js" where
  "elemMatch_loop test [] = Inr unmatched"
| "elemMatch_loop test (b # bs) =
     (case b_value b of
        JArr xs \<Rightarrow>
          rbind (elem_loop test (b_arrayIndices b) 0 xs) (\<lambda>r.
            if m_result r then Inr r else elemMatch_loop test bs)
      | _ \<Rightarrow> elemMatch_loop test bs)"

section \<open>The compiler\<close>

text \<open>
  The recursion follows the nesting of the selector. \<open>$elemMatch\<close> compiles its operand when it meets
  an array element, so its errors are thrown by the match and not by the constructor.
\<close>

function compileDocument :: "matcher_host \<Rightarrow> bool \<Rightarrow> jsobj \<Rightarrow> bool \<Rightarrow> document_matcher js"
  and compileLogical :: "matcher_host \<Rightarrow> bool \<Rightarrow> string \<Rightarrow> jsval \<Rightarrow> document_matcher js"
  and compileValue :: "matcher_host \<Rightarrow> bool \<Rightarrow> jsval \<Rightarrow> bool \<Rightarrow> branch_matcher js"
  and compileOperator :: "matcher_host \<Rightarrow> bool \<Rightarrow> string \<Rightarrow> jsval \<Rightarrow> jsobj \<Rightarrow> bool \<Rightarrow> branch_matcher js"
where
  "compileDocument mh isUpdate selector isRoot =
     rbind (rtraverse (\<lambda>(path, v).
         if starts_with path ''$'' then compileLogical mh isUpdate path v
         else rbind (compileValue mh isUpdate v isRoot) (\<lambda>valueMatcher.
           Inr (\<lambda>document. valueMatcher (lookupBranches False document path)))) selector)
       (\<lambda>matchers. Inr (all_entries False matchers matched))"
| "compileLogical mh isUpdate operator operand =
     (if operator = ''$comment'' then Inr (\<lambda>document. Inr matched)
      else if operator \<notin> {''$and'', ''$or'', ''$nor''}
      then Inl (LocalQueryError (''Unrecognized logical operator: '' @ operator))
      else
        (case operand of
           JArr (v # vs) \<Rightarrow>
             rbind (rtraverse (\<lambda>entry.
                 case entry of
                   JObj kvs \<Rightarrow> compileDocument mh isUpdate kvs False
                 | _ \<Rightarrow> Inl (LocalQueryError ''$or/$and/$nor entries need to be full objects'')) (v # vs))
               (\<lambda>entries. Inr (logical_matcher operator entries))
         | _ \<Rightarrow> Inl (LocalQueryError ''$and/$or/$nor must be nonempty array'')))"
| "compileValue mh isUpdate selector isRoot =
     (case selector of
        JRegExp source flags \<Rightarrow> Inr (elementMatcher (\<lambda>v. Inr (regexMatches mh source flags v)) True False)
      | JObj kvs \<Rightarrow>
          rbind (isOperatorObject selector) (\<lambda>isOperator.
            if \<not> isOperator then Inr (elementMatcher (\<lambda>v. Inr (equal mh selector v)) True False)
            else rbind (rtraverse (\<lambda>(operator, operand). compileOperator mh isUpdate operator operand kvs isRoot) kvs)
              (\<lambda>matchers. Inr (combine_operators matchers)))
      | _ \<Rightarrow> Inr (elementMatcher (\<lambda>v. Inr (equal mh selector v)) True False))"
| "compileOperator mh isUpdate operator operand selector isRoot =
     (if operator = ''$not'' then rbind (compileValue mh isUpdate operand False) (\<lambda>m. Inr (invert m))
      else if operator = ''$elemMatch'' then
        (case operand of
           JObj kvs \<Rightarrow>
             Inr (elemMatch_loop (\<lambda>v.
               rbind (isOperatorObject operand) (\<lambda>isOperator.
                 if \<not> isOperator \<and> isPlainObject v
                 then rbind (compileDocument mh isUpdate kvs False) (\<lambda>m. m v)
                 else rbind (compileValue mh isUpdate operand False) (\<lambda>m. m [branch None v]))))
         | _ \<Rightarrow> Inl (LocalQueryError ''$elemMatch need an object''))
      else leaf_operator mh isUpdate operator operand selector isRoot)"
  by pat_completeness auto
termination
proof -
  have elem: "\<And>x v vs. x \<in> set (v # vs) \<Longrightarrow> depth x < depth (JArr (v # vs))" by (rule depth_elem)
  show ?thesis
  by (relation "measure (\<lambda>c. case c of
    Inl (Inl (mh, u, kvs, r)) \<Rightarrow> 2 * depth (JObj kvs)
  | Inl (Inr (mh, u, operator, v)) \<Rightarrow> 2 * depth v
  | Inr (Inl (mh, u, v, r)) \<Rightarrow> 2 * depth v
  | Inr (Inr (mh, u, operator, v, s, r)) \<Rightarrow> Suc (2 * depth v))")
    (auto simp del: depth.simps set_simps dest: depth_prop elem)
qed

declare compileDocument.simps [simp del] compileLogical.simps [simp del]
  compileValue.simps [simp del] compileOperator.simps [simp del]

definition compileSelector :: "matcher_host \<Rightarrow> bool \<Rightarrow> jsval \<Rightarrow> document_matcher js" where
  "compileSelector mh isUpdate selector =
     (case selector of
        JStr s \<Rightarrow>
          Inr (\<lambda>document. Inr (if equal mh selector (get_prop document ''_id'') then matched else unmatched))
      | _ \<Rightarrow>
          if \<not> truthy selector then Inr (\<lambda>document. Inr unmatched)
          else (case selector of
             JObj kvs \<Rightarrow>
               if jm_has kvs ''_id'' \<and> \<not> truthy (obj_get kvs ''_id'') then Inr (\<lambda>document. Inr unmatched)
               else compileDocument mh isUpdate kvs True
           | _ \<Rightarrow> Inl (Error (''Invalid selector: '' @ js_string (mh_host mh) selector))))"

definition documentMatches :: "document_matcher \<Rightarrow> jsval \<Rightarrow> match_result js" where
  "documentMatches matcher document =
     (if js_typeof document \<noteq> ''object'' \<or> document = JNull then Inl (Error ''documentMatches needs a document'')
      else matcher document)"

text \<open>Whether compiling met a \<open>$near\<close>, which is only accepted in a field of the root.\<close>

definition hasGeoQuery :: "jsval \<Rightarrow> bool" where
  "hasGeoQuery selector =
     (case selector of
        JObj kvs \<Rightarrow>
          \<not> (jm_has kvs ''_id'' \<and> \<not> truthy (obj_get kvs ''_id'')) \<and>
          list_ex (\<lambda>(path, v). \<not> starts_with path ''$'' \<and>
            (case v of JObj ops \<Rightarrow> isOperatorObject v = Inr True \<and> jm_has ops ''$near'' | _ \<Rightarrow> False)) kvs
      | _ \<Rightarrow> False)"

definition isIdSelector :: "jsval \<Rightarrow> bool" where
  "isIdSelector selector = (case selector of JStr _ \<Rightarrow> True | _ \<Rightarrow> False)"

end
