(* ===== verification/MiniSorter.thy ===== *)
theory MiniSorter
  imports MiniPath "HOL-Library.Multiset"
begin

text \<open>
  Sort specifications of the local collections (\<open>src/minimongo/sorter.ts\<close>) and the stable array sort
  they drive. A comparator function given by the caller and the collator are parameters. The
  string an array path is joined to is represented by the path itself, the empty string by
  \<open>None\<close>. Error messages that print the offending value keep their fixed prefix only.
\<close>

type_synonym sort_part = "string \<times> bool"
type_synonym sort_key = "jsval list"

record sorter =
  s_parts :: "sort_part list"
  s_functionComparator :: "(jsval \<Rightarrow> jsval \<Rightarrow> int js) option"
  s_collator :: "(string \<Rightarrow> string \<Rightarrow> int) option"

section \<open>Specifications\<close>

definition ascending :: "jsval \<Rightarrow> bool js" where
  "ascending direction =
     (if direction \<in> {jint 1, JStr ''asc'', JStr ''ascending''} then Inr True
      else if direction \<in> {jint (-1), JStr ''desc'', JStr ''descending''} then Inr False
      else Inl (LocalQueryError ''Bad sort specification''))"

definition validatedPart :: "string \<Rightarrow> bool \<Rightarrow> sort_part js" where
  "validatedPart path isAscending =
     (if path = [] then Inl (Error ''sort keys must be non-empty'')
      else if starts_with path ''$'' then Inl (Error (''unsupported sort key: '' @ path))
      else Inr (path, isAscending))"

definition sort_entry :: "jsval \<Rightarrow> sort_part js" where
  "sort_entry entry =
     (case entry of
        JStr path \<Rightarrow> validatedPart path True
      | JArr (JStr path # rest) \<Rightarrow>
          rbind (ascending (case rest of direction # _ \<Rightarrow> direction | [] \<Rightarrow> JUndef)) (validatedPart path)
      | _ \<Rightarrow> Inl (LocalQueryError ''Bad sort specification''))"

definition normalizeSort :: "jsval \<Rightarrow> (sort_part list) js" where
  "normalizeSort specifier =
     (if \<not> truthy specifier then Inr []
      else case specifier of
        JArr entries \<Rightarrow> rtraverse sort_entry entries
      | _ \<Rightarrow>
          if js_typeof specifier = ''object''
          then rtraverse (\<lambda>(path, direction). rbind (ascending direction) (validatedPart path)) (own_entries specifier)
          else Inl (LocalQueryError ''Bad sort specification''))"

definition new_sorter :: "(string \<Rightarrow> string \<Rightarrow> int) option \<Rightarrow> jsval \<Rightarrow> sorter js" where
  "new_sorter collator specifier =
     rbind (normalizeSort specifier) (\<lambda>parts. Inr \<lparr>s_parts = parts, s_functionComparator = None, s_collator = collator\<rparr>)"

section \<open>Document keys\<close>

fun compareKeys :: "sort_part list \<Rightarrow> (string \<Rightarrow> string \<Rightarrow> int) option \<Rightarrow> sort_key \<Rightarrow> sort_key \<Rightarrow> int" where
  "compareKeys [] collator left right = 0"
| "compareKeys ((path, isAscending) # parts) collator left right =
     (let compared = compareValues collator (hd left) (hd right) in
      if compared \<noteq> 0 then (if isAscending then compared else - compared)
      else compareKeys parts collator (tl left) (tl right))"

type_synonym part_values = "(path_index list option, jsval) jsmap"

fun part_loop :: "nat \<Rightarrow> (path_index list option) list option \<Rightarrow> value_branch list \<Rightarrow> part_values \<times> bool \<Rightarrow> (part_values \<times> bool) js" where
  "part_loop n knownPaths [] acc = Inr acc"
| "part_loop n knownPaths (b # bs) (values, usesArrayPath) =
     (case b_arrayIndices b of
        None \<Rightarrow>
          if n > 1 then Inl (Error ''multiple branches but no array used?'')
          else part_loop n knownPaths bs (jm_set None (b_value b) values, usesArrayPath)
      | Some arrayPath \<Rightarrow>
          if jm_has values (Some arrayPath) then Inl (Error ''duplicate path'')
          else if (case knownPaths of Some known \<Rightarrow> Some arrayPath \<notin> set known | None \<Rightarrow> False)
          then Inl (Error ''cannot index parallel arrays'')
          else part_loop n knownPaths bs (jm_set (Some arrayPath) (b_value b) values, True))"

definition part_values_of ::
  "jsval \<Rightarrow> string \<Rightarrow> (path_index list option) list option \<Rightarrow> (part_values \<times> (path_index list option) list option) js" where
  "part_values_of document path knownPaths =
     (let expanded = expandArrays True (lookupBranches True document path);
          branches = (if expanded \<noteq> [] then expanded else [branch None JUndef])
      in rbind (part_loop (length branches) knownPaths branches ([], False)) (\<lambda>(values, usesArrayPath).
           case knownPaths of
             Some known \<Rightarrow>
               if \<not> jm_has values None \<and> length values \<noteq> length known
               then Inl (Error ''cannot index parallel arrays!'') else Inr (values, knownPaths)
           | None \<Rightarrow> Inr (values, if usesArrayPath then Some (jm_keys values) else None)))"

fun values_by_part ::
  "jsval \<Rightarrow> sort_part list \<Rightarrow> (path_index list option) list option \<Rightarrow> (part_values list \<times> (path_index list option) list option) js" where
  "values_by_part document [] knownPaths = Inr ([], knownPaths)"
| "values_by_part document ((path, isAscending) # parts) knownPaths =
     rbind (part_values_of document path knownPaths) (\<lambda>(values, known).
       rbind (values_by_part document parts known) (\<lambda>(rest, known'). Inr (values # rest, known')))"

definition part_get :: "part_values \<Rightarrow> path_index list option \<Rightarrow> jsval" where
  "part_get values path = (case jm_get values path of Some v \<Rightarrow> v | None \<Rightarrow> JUndef)"

definition documentKey :: "sorter \<Rightarrow> jsval \<Rightarrow> sort_key js" where
  "documentKey s document =
     (if s_parts s = [] then Inr []
      else rbind (values_by_part document (s_parts s) None) (\<lambda>(valuesByPart, knownPaths).
        (let keys =
           (case knownPaths of
              Some known \<Rightarrow>
                map (\<lambda>path. map (\<lambda>values. if jm_has values None then part_get values None else part_get values path) valuesByPart) known
            | None \<Rightarrow> [map (\<lambda>values. part_get values None) valuesByPart])
         in Inr (foldl (\<lambda>minimum key. if compareKeys (s_parts s) (s_collator s) key minimum < 0 then key else minimum)
              (hd keys) (tl keys)))))"

section \<open>Comparators and sorting\<close>

definition compare_distance :: "(jsval, jsnum) jsmap \<Rightarrow> jsval \<Rightarrow> jsval \<Rightarrow> int" where
  "compare_distance distances left right =
     (let distance = (\<lambda>d. case jm_get distances (get_prop d ''_id'') of Some n \<Rightarrow> n | None \<Rightarrow> Fin 0) in
      if num_less (distance left) (distance right) then -1
      else if num_less (distance right) (distance left) then 1 else 0)"

definition getComparator :: "sorter \<Rightarrow> (jsval, jsnum) jsmap option \<Rightarrow> jsval \<Rightarrow> jsval \<Rightarrow> int js" where
  "getComparator s distances left right =
     (case s_functionComparator s of
        Some compare \<Rightarrow> compare left right
      | None \<Rightarrow>
          (case distances of
             Some ds \<Rightarrow>
               if s_parts s = [] \<and> compare_distance ds left right \<noteq> 0 then Inr (compare_distance ds left right)
               else rbind (documentKey s left) (\<lambda>leftKey. rbind (documentKey s right) (\<lambda>rightKey.
                 Inr (compareKeys (s_parts s) (s_collator s) leftKey rightKey)))
           | None \<Rightarrow>
               rbind (documentKey s left) (\<lambda>leftKey. rbind (documentKey s right) (\<lambda>rightKey.
                 Inr (compareKeys (s_parts s) (s_collator s) leftKey rightKey)))))"

text \<open>
  \<open>Array.prototype.sort\<close>: a stable sort for consistent comparators. The order of the comparisons
  is the implementation's; it is visible only through which of several errors is thrown.
\<close>

fun rinsert :: "('a \<Rightarrow> 'a \<Rightarrow> int js) \<Rightarrow> 'a \<Rightarrow> 'a list \<Rightarrow> 'a list js" where
  "rinsert compare x [] = Inr [x]"
| "rinsert compare x (y # ys) =
     rbind (compare x y) (\<lambda>c. if c \<le> 0 then Inr (x # y # ys) else rbind (rinsert compare x ys) (\<lambda>zs. Inr (y # zs)))"

fun rsort :: "('a \<Rightarrow> 'a \<Rightarrow> int js) \<Rightarrow> 'a list \<Rightarrow> 'a list js" where
  "rsort compare [] = Inr []"
| "rsort compare (x # xs) = rbind (rsort compare xs) (rinsert compare x)"

definition array_sort :: "sorter \<Rightarrow> (jsval, jsnum) jsmap option \<Rightarrow> jsval list \<Rightarrow> jsval list js" where
  "array_sort s distances documents = rsort (getComparator s distances) documents"

section \<open>Sorting with a total preorder\<close>

locale total_preorder =
  fixes cmp :: "'a \<Rightarrow> 'a \<Rightarrow> int" and carrier :: "'a set"
  assumes preorder_total: "a \<in> carrier \<Longrightarrow> b \<in> carrier \<Longrightarrow> cmp a b > 0 \<Longrightarrow> cmp b a \<le> 0"
    and preorder_trans: "a \<in> carrier \<Longrightarrow> b \<in> carrier \<Longrightarrow> c \<in> carrier \<Longrightarrow> cmp a b \<le> 0 \<Longrightarrow> cmp b c \<le> 0 \<Longrightarrow> cmp a c \<le> 0"
begin

abbreviation compare_ok :: "'a \<Rightarrow> 'a \<Rightarrow> int js" where
  "compare_ok a b \<equiv> Inr (cmp a b)"

definition equivalent :: "'a \<Rightarrow> 'a \<Rightarrow> bool" where
  "equivalent a b \<longleftrightarrow> cmp a b \<le> 0 \<and> cmp b a \<le> 0"

lemma rinsert_total: "\<exists>zs. rinsert compare_ok x ys = Inr zs \<and> mset zs = add_mset x (mset ys)"
  by (induction ys) auto

lemma rinsert_sorted:
  assumes "rinsert compare_ok x ys = Inr zs" "sorted_wrt (\<lambda>a b. cmp a b \<le> 0) ys" "x \<in> carrier" "set ys \<subseteq> carrier"
  shows "sorted_wrt (\<lambda>a b. cmp a b \<le> 0) zs"
  using assms
proof (induction ys arbitrary: zs)
  case (Cons y ys)
  show ?case
  proof (cases "cmp x y \<le> 0")
    case True
    then have "\<forall>z \<in> set ys. cmp x z \<le> 0" using Cons.prems(2-4) preorder_trans [of x y] by (simp add: subset_eq)
    then show ?thesis using Cons.prems True by auto
  next
    case False
    then obtain ws where ws: "rinsert compare_ok x ys = Inr ws" "zs = y # ws" "mset ws = add_mset x (mset ys)"
      using Cons.prems(1) rinsert_total [of x ys] by auto
    then have "set ws = insert x (set ys)" by (metis set_mset_add_mset_insert set_mset_mset)
    then show ?thesis using Cons ws False preorder_total [of x y] by auto
  qed
qed auto

lemma rinsert_stable:
  assumes "rinsert compare_ok x ys = Inr zs" "x \<in> carrier" "set ys \<subseteq> carrier" "a \<in> carrier"
  shows "filter (equivalent a) zs = filter (equivalent a) (x # ys)"
  using assms
proof (induction ys arbitrary: zs)
  case (Cons y ys)
  show ?case
  proof (cases "cmp x y \<le> 0")
    case False
    then obtain ws where ws: "rinsert compare_ok x ys = Inr ws" "zs = y # ws"
      using Cons.prems(1) rinsert_total [of x ys] by auto
    have "\<not> (equivalent a x \<and> equivalent a y)"
      using False Cons.prems(2-4) preorder_trans [of x a y] by (auto simp: equivalent_def)
    then show ?thesis using Cons.IH [OF ws(1)] Cons.prems ws(2) by auto
  qed (use Cons.prems in auto)
qed auto

lemma rsort_correct:
  assumes "set xs \<subseteq> carrier"
  shows "\<exists>ys. rsort compare_ok xs = Inr ys \<and> mset ys = mset xs \<and> sorted_wrt (\<lambda>a b. cmp a b \<le> 0) ys \<and>
    (\<forall>a \<in> carrier. filter (equivalent a) ys = filter (equivalent a) xs)"
  using assms
proof (induction xs)
  case (Cons x xs)
  then obtain ys where ys: "rsort compare_ok xs = Inr ys" "mset ys = mset xs" "sorted_wrt (\<lambda>a b. cmp a b \<le> 0) ys"
    "\<forall>a \<in> carrier. filter (equivalent a) ys = filter (equivalent a) xs" by auto
  obtain zs where zs: "rinsert compare_ok x ys = Inr zs" "mset zs = add_mset x (mset ys)" using rinsert_total by blast
  have sub: "set ys \<subseteq> carrier" "x \<in> carrier" using Cons.prems mset_eq_setD [OF ys(2)] by auto
  show ?case using ys zs rinsert_sorted [OF zs(1) ys(3) sub(2,1)] rinsert_stable [OF zs(1) sub(2,1)] by auto
qed auto

end

lemma preorder_pullback:
  assumes "total_preorder cmp C"
  shows "total_preorder (\<lambda>a b. cmp (f a) (f b)) {x. f x \<in> C}"
  using total_preorder.preorder_total [OF assms] total_preorder.preorder_trans [OF assms]
  by unfold_locales blast+

lemma rinsert_set: "rinsert c x ys = Inr zs \<Longrightarrow> set zs = insert x (set ys)"
  by (induction ys arbitrary: zs) (auto simp: rbind_eq_Inr split: if_splits)

lemma rsort_set: "rsort c xs = Inr zs \<Longrightarrow> set zs = set xs"
  by (induction xs arbitrary: zs) (auto simp: rbind_eq_Inr rinsert_set)

lemma rinsert_cong: "(\<And>y. y \<in> set ys \<Longrightarrow> c x y = c' x y) \<Longrightarrow> rinsert c x ys = rinsert c' x ys"
  by (induction ys) (auto intro!: arg_cong2 [of _ _ _ _ rbind])

lemma rsort_cong: "(\<And>x y. x \<in> set xs \<Longrightarrow> y \<in> set xs \<Longrightarrow> c x y = c' x y) \<Longrightarrow> rsort c xs = rsort c' xs"
proof (induction xs)
  case (Cons x xs)
  have "rsort c xs = rsort c' xs" using Cons by simp
  then show ?case using Cons.prems rsort_set [of c' xs] by (cases "rsort c' xs") (auto intro: rinsert_cong)
qed simp

section \<open>Keys are preordered part by part\<close>

definition sort_keys :: "sort_part list \<Rightarrow> sort_key set" where
  "sort_keys parts = {k. length k = length parts \<and> (\<forall>v \<in> set k. sortable v)}"

lemma compareKeys_laws:
  assumes "a \<in> sort_keys parts" "b \<in> sort_keys parts" "c \<in> sort_keys parts"
  shows "compareKeys parts None b a = - compareKeys parts None a b \<and>
    (compareKeys parts None a b \<le> 0 \<and> compareKeys parts None b c \<le> 0 \<longrightarrow> compareKeys parts None a c \<le> 0) \<and>
    (compareKeys parts None a b = 0 \<longrightarrow> a = b)"
  using assms
proof (induction parts arbitrary: a b c)
  case Nil
  then show ?case by (simp add: sort_keys_def)
next
  case (Cons p parts)
  obtain path up where p: "p = (path, up)" by (cases p)
  obtain x xs y ys z zs where abc: "a = x # xs" "b = y # ys" "c = z # zs"
    using Cons.prems by (auto simp: sort_keys_def length_Suc_conv)
  have v: "sortable x" "sortable y" "sortable z" and ks: "xs \<in> sort_keys parts" "ys \<in> sort_keys parts" "zs \<in> sort_keys parts"
    using Cons.prems abc by (auto simp: sort_keys_def)
  note ih = Cons.IH [OF ks]
  have anti: "compareValues None y x = - compareValues None x y" "compareValues None z y = - compareValues None y z"
    using mini_order.cmp_antisym [OF v(1,2)] mini_order.cmp_antisym [OF v(2,3)] by blast+
  have zero: "compareValues None x y = 0 \<longleftrightarrow> x = y" "compareValues None y z = 0 \<longleftrightarrow> y = z" "compareValues None x z = 0 \<longleftrightarrow> x = z"
    using mini_order.cmp_zero v by blast+
  have less: "compareValues None x z < 0" if "compareValues None x y < 0" "compareValues None y z < 0"
    using mini_order.cmp_trans v that by blast
  have greater: "compareValues None x z > 0" if "compareValues None x y > 0" "compareValues None y z > 0"
  proof -
    have "compareValues None z y < 0" "compareValues None y x < 0" using anti that by linarith+
    then have "compareValues None z x < 0" using mini_order.cmp_trans v by blast
    then show ?thesis using mini_order.cmp_antisym [OF v(1,3)] by linarith
  qed
  have refl: "compareValues None x x = 0" using mini_order.cmp_zero [OF v(1,1)] by blast
  show ?case
  proof (intro conjI impI)
    show "compareKeys (p # parts) None b a = - compareKeys (p # parts) None a b"
      using ih anti(1) by (simp add: p abc Let_def)
    show "a = b" if "compareKeys (p # parts) None a b = 0"
      using that ih zero(1) by (simp add: p abc Let_def split: if_splits)
    show "compareKeys (p # parts) None a c \<le> 0"
      if h: "compareKeys (p # parts) None a b \<le> 0 \<and> compareKeys (p # parts) None b c \<le> 0"
    proof (cases "x = y \<or> y = z")
      case True
      then show ?thesis using h ih zero by (auto simp: p abc Let_def split: if_splits)
    next
      case False
      then show ?thesis using h ih zero less greater
        by (cases up) (auto simp: p abc Let_def split: if_splits)
    qed
  qed
qed

interpretation key_preorder: total_preorder "compareKeys parts None" "sort_keys parts" for parts
proof
  fix a b assume ab: "a \<in> sort_keys parts" "b \<in> sort_keys parts" "compareKeys parts None a b > 0"
  then show "compareKeys parts None b a \<le> 0" using compareKeys_laws [OF ab(1,2,2)] by linarith
next
  fix a b c assume "a \<in> sort_keys parts" "b \<in> sort_keys parts" "c \<in> sort_keys parts"
    "compareKeys parts None a b \<le> 0" "compareKeys parts None b c \<le> 0"
  then show "compareKeys parts None a c \<le> 0" using compareKeys_laws by blast
qed

lemma compareKeys_zero:
  assumes "a \<in> sort_keys parts" "b \<in> sort_keys parts"
  shows "compareKeys parts None a b \<le> 0 \<and> compareKeys parts None b a \<le> 0 \<longleftrightarrow> b = a"
proof
  assume "compareKeys parts None a b \<le> 0 \<and> compareKeys parts None b a \<le> 0"
  then have "compareKeys parts None a b = 0" using compareKeys_laws [OF assms assms(2)] by linarith
  then show "b = a" using compareKeys_laws [OF assms assms(2)] by blast
next
  assume "b = a"
  then show "compareKeys parts None a b \<le> 0 \<and> compareKeys parts None b a \<le> 0"
    using compareKeys_laws [OF assms(1,1,1)] by simp
qed

text \<open>
  Sorting the documents of a local query succeeds whenever each document has a sort key, and
  gives a permutation of the documents that ascends in the keys part by part, each part in its own
  direction, and keeps documents with equal keys in their original order.
\<close>

theorem array_sort_correct:
  assumes "s_functionComparator s = None" "s_collator s = None"
    and "\<forall>d \<in> set documents. documentKey s d = Inr (key d) \<and> key d \<in> sort_keys (s_parts s)"
  shows "\<exists>sorted. array_sort s None documents = Inr sorted \<and> mset sorted = mset documents \<and>
    sorted_wrt (\<lambda>a b. compareKeys (s_parts s) None (key a) (key b) \<le> 0) sorted \<and>
    (\<forall>d \<in> set documents. filter (\<lambda>e. key e = key d) sorted = filter (\<lambda>e. key e = key d) documents)"
proof -
  let ?cmp = "\<lambda>a b. compareKeys (s_parts s) None (key a) (key b)" and ?C = "{d. key d \<in> sort_keys (s_parts s)}"
  have pre: "total_preorder ?cmp ?C" by (rule preorder_pullback [OF key_preorder.total_preorder_axioms])
  have "array_sort s None documents = rsort (\<lambda>a b. Inr (?cmp a b)) documents"
    unfolding array_sort_def using assms by (intro rsort_cong) (simp add: getComparator_def)
  moreover obtain sorted where sorted: "rsort (\<lambda>a b. Inr (?cmp a b)) documents = Inr sorted" "mset sorted = mset documents"
    "sorted_wrt (\<lambda>a b. ?cmp a b \<le> 0) sorted"
    and stable: "\<forall>d \<in> ?C. filter (total_preorder.equivalent ?cmp d) sorted = filter (total_preorder.equivalent ?cmp d) documents"
    using total_preorder.rsort_correct [OF pre, of documents] assms(3) by blast
  moreover have "filter (\<lambda>e. key e = key d) sorted = filter (\<lambda>e. key e = key d) documents" if d: "d \<in> set documents" for d
  proof -
    have same: "total_preorder.equivalent ?cmp d e \<longleftrightarrow> key e = key d" if "e \<in> set documents" for e
      using compareKeys_zero [of "key d" "s_parts s" "key e"] assms(3) d that
      by (simp add: total_preorder.equivalent_def [OF pre])
    have "set sorted = set documents" using sorted(2) by (rule mset_eq_setD)
    then have "filter (\<lambda>e. key e = key d) sorted = filter (total_preorder.equivalent ?cmp d) sorted"
      using same by (intro filter_cong) auto
    also have "\<dots> = filter (total_preorder.equivalent ?cmp d) documents" using stable d assms(3) by blast
    also have "\<dots> = filter (\<lambda>e. key e = key d) documents" using same by (intro filter_cong) auto
    finally show ?thesis .
  qed
  ultimately show ?thesis by (intro exI [of _ sorted] conjI ballI) simp_all
qed

theorem array_sort_correct_witness:
  "\<exists>sorted. array_sort \<lparr>s_parts = [(''n'', False)], s_functionComparator = None, s_collator = None\<rparr> None
       [JObj [(''n'', jint 1)], JObj [(''n'', jint 2)]] = Inr sorted \<and>
     mset sorted = mset [JObj [(''n'', jint 1)], JObj [(''n'', jint 2)]]"
  using array_sort_correct [of "\<lparr>s_parts = [(''n'', False)], s_functionComparator = None, s_collator = None\<rparr>"
      "[JObj [(''n'', jint 1)], JObj [(''n'', jint 2)]]" "\<lambda>d. [get_prop d ''n'']"]
  by (auto simp: documentKey_def part_values_of_def lookupBranches_def expandArrays_def expand_branch_def branch_def
      part_get_def sort_keys_def obj_get_def jm_has_def Let_def)

end
