(* ===== verification/MiniModifier.thy ===== *)
theory MiniModifier
  imports MiniMatcher MiniSorter
begin

text \<open>
  Update modifiers of the local collections (\<open>src/minimongo/modifier.ts\<close>). The code walks references into a
  working copy of the document; here a target is the list of property names from the root to its
  parent, and writing through it rebuilds the document. The working copy and the cloned modifier
  share no structure, so the two readings agree. A thrown error abandons the working copy.
  Numbers are exact; the clock is an option of the call.
\<close>

record modify_options =
  mo_isInsert :: bool
  mo_arrayIndices :: "path_index list option"
  mo_now :: jsnum

section \<open>Field names\<close>

definition ends_with :: "string \<Rightarrow> string \<Rightarrow> bool" where
  "ends_with s p = (length p \<le> length s \<and> drop (length s - length p) s = p)"

fun includes_str :: "string \<Rightarrow> string \<Rightarrow> bool" where
  "includes_str [] p = (p = [])"
| "includes_str (c # cs) p = (starts_with (c # cs) p \<or> includes_str cs p)"

definition null_byte :: string where
  "null_byte = [CHR 0x00]"

definition invalidFieldNameReason :: "string \<Rightarrow> string option" where
  "invalidFieldNameReason key =
     (if starts_with key ''$'' then Some (''start with '' @ [CHR 0x27, CHR ''$'', CHR 0x27])
      else if starts_with key ''.'' \<or> ends_with key ''.'' then Some (''start or end with '' @ [CHR 0x27, CHR ''.'', CHR 0x27])
      else if includes_str key ''..'' then Some ''contain consecutive dots''
      else if includes_str key null_byte then Some ''contain null bytes''
      else None)"

function assertValidFieldNames :: "jsval \<Rightarrow> unit js" where
  "assertValidFieldNames v =
     (case v of
        JArr xs \<Rightarrow> rbind (rtraverse (\<lambda>x. assertValidFieldNames x) xs) (\<lambda>_. Inr ())
      | JObj kvs \<Rightarrow>
          rbind (rtraverse (\<lambda>(key, child).
            case invalidFieldNameReason key of
              Some reason \<Rightarrow> Inl (LocalCollectionError (''Key '' @ key @ '' must not '' @ reason) None)
            | None \<Rightarrow> assertValidFieldNames child) kvs) (\<lambda>_. Inr ())
      | _ \<Rightarrow> Inr ())"
  by pat_completeness auto
termination
  by (relation "measure depth") (auto simp del: depth.simps dest: depth_elem depth_prop)

declare assertValidFieldNames.simps [simp del]

section \<open>Targets\<close>

record target =
  t_parent :: "string list option"
  t_field :: string

definition positions :: "path_index list option \<Rightarrow> nat list" where
  "positions ai = List.map_filter (\<lambda>i. case i of Idx n \<Rightarrow> Some n | AnyIdx \<Rightarrow> None) (indices ai)"

definition resolve_part :: "string \<Rightarrow> string \<Rightarrow> nat list \<Rightarrow> (string \<times> nat list) js" where
  "resolve_part path part positional =
     (if part = ''$'' then
        (case positional of
           [] \<Rightarrow> Inl (LocalCollectionError ''The positional operator did not find the match needed from the query'' (Some path))
         | position # rest \<Rightarrow> Inr (nat_digits position, rest))
      else Inr (part, positional))"

text \<open>
  The descent of \<open>modificationTarget\<close>: the current container with the missing containers created,
  and the names walked with the positions left, or \<open>None\<close> where \<open>noCreate\<close> stops.
\<close>

fun target_walk ::
  "string \<Rightarrow> bool \<Rightarrow> bool \<Rightarrow> nat list \<Rightarrow> string list \<Rightarrow> jsval \<Rightarrow> (jsval \<times> (string list \<times> nat list) option) js" where
  "target_walk path noCreate forbidArray positional [] current = Inr (current, Some ([], positional))"
| "target_walk path noCreate forbidArray positional (part0 # parts) current =
     rbind (resolve_part path part0 positional) (\<lambda>(part, rest).
       if forbidArray \<and> isArray current
       then Inl (LocalCollectionError ''The source field cannot be an array element'' (Some path))
       else
         (let existing = reflect_get current part;
              into = (\<lambda>child. rbind (target_walk path noCreate forbidArray rest parts child) (\<lambda>(child', walked).
                Inr (reflect_set current part child', map_option (\<lambda>(ps, pos). (part # ps, pos)) walked)))
          in if isPlainObject existing \<or> isArray existing then into existing
             else if existing \<noteq> JUndef \<and> existing \<noteq> JNull
             then Inl (LocalCollectionError ''Cannot set property on non-object field'' (Some path))
             else if noCreate then Inr (current, None)
             else into (if parts \<noteq> [] \<and> isNumericKey (hd parts) then JArr [] else JObj [])))"

definition modificationTarget :: "jsval \<Rightarrow> string \<Rightarrow> path_index list option \<Rightarrow> bool \<Rightarrow> bool \<Rightarrow> (jsval \<times> target) js" where
  "modificationTarget document path arrayIndices noCreate forbidArray =
     (let parts = split_dot path; field = last parts in
      if field = [] then Inl (LocalCollectionError ''Invalid empty update path'' (Some path))
      else rbind (target_walk path noCreate forbidArray (positions arrayIndices) (butlast parts) document) (\<lambda>(document', walked).
        case walked of
          None \<Rightarrow> Inr (document', \<lparr>t_parent = None, t_field = field\<rparr>)
        | Some (parent, positional) \<Rightarrow>
            rbind (resolve_part path field positional) (\<lambda>(field', _).
              Inr (document', \<lparr>t_parent = Some parent, t_field = field'\<rparr>))))"

fun update_at :: "string list \<Rightarrow> (jsval \<Rightarrow> jsval) \<Rightarrow> jsval \<Rightarrow> jsval" where
  "update_at [] f v = f v"
| "update_at (part # parts) f v = reflect_set v part (update_at parts f (reflect_get v part))"

definition readField :: "jsval \<Rightarrow> target \<Rightarrow> jsval" where
  "readField document target =
     (case t_parent target of
        None \<Rightarrow> JUndef
      | Some parent \<Rightarrow> reflect_get (foldl reflect_get document parent) (t_field target))"

definition writeField :: "target \<Rightarrow> jsval \<Rightarrow> jsval \<Rightarrow> jsval" where
  "writeField target v document =
     (case t_parent target of
        None \<Rightarrow> document
      | Some parent \<Rightarrow> update_at parent (\<lambda>p. reflect_set p (t_field target) v) document)"

definition remove_from :: "string \<Rightarrow> jsval \<Rightarrow> jsval" where
  "remove_from field parent =
     (case parent of
        JArr xs \<Rightarrow> if isNumericKey field then reflect_set parent (nat_digits (digits_val 0 field)) JNull else parent
      | JObj kvs \<Rightarrow> JObj (obj_delete field kvs)
      | _ \<Rightarrow> parent)"

definition removeField :: "target \<Rightarrow> jsval \<Rightarrow> jsval" where
  "removeField target document =
     (case t_parent target of
        None \<Rightarrow> document
      | Some parent \<Rightarrow> update_at parent (remove_from (t_field target)) document)"

section \<open>Numbers and slices\<close>

fun num_add :: "jsnum \<Rightarrow> jsnum \<Rightarrow> jsnum" where
  "num_add (Fin a) (Fin b) = Fin (a + b)"
| "num_add NaN _ = NaN"
| "num_add _ NaN = NaN"
| "num_add Infinity NegInfinity = NaN"
| "num_add NegInfinity Infinity = NaN"
| "num_add Infinity _ = Infinity"
| "num_add _ Infinity = Infinity"
| "num_add _ _ = NegInfinity"

fun num_sign :: "jsnum \<Rightarrow> int" where
  "num_sign (Fin a) = (if a < 0 then -1 else if a = 0 then 0 else 1)"
| "num_sign Infinity = 1"
| "num_sign NegInfinity = -1"
| "num_sign NaN = 0"

fun num_mul :: "jsnum \<Rightarrow> jsnum \<Rightarrow> jsnum" where
  "num_mul (Fin a) (Fin b) = Fin (a * b)"
| "num_mul a b =
     (if a = NaN \<or> b = NaN \<or> num_sign a * num_sign b = 0 then NaN
      else if num_sign a * num_sign b > 0 then Infinity else NegInfinity)"

definition splice_start :: "jsnum \<Rightarrow> nat \<Rightarrow> nat" where
  "splice_start position n =
     (case position of Fin q \<Rightarrow> min n (nat (trunc_int q)) | Infinity \<Rightarrow> n | _ \<Rightarrow> 0)"

definition push_slice :: "jsnum \<Rightarrow> jsval list \<Rightarrow> jsval list" where
  "push_slice n xs =
     (case n of
        NaN \<Rightarrow> []
      | Infinity \<Rightarrow> xs
      | NegInfinity \<Rightarrow> xs
      | Fin q \<Rightarrow>
          if q = 0 then []
          else if q < 0 then
            (let k = nat (- trunc_int q) in if k = 0 then xs else drop (length xs - k) xs)
          else take (nat (trunc_int q)) xs)"

text \<open>The elements of an array compare as documents; \<open>undefined\<close> goes last without being compared.\<close>

definition sort_elements :: "sorter \<Rightarrow> jsval list \<Rightarrow> jsval list js" where
  "sort_elements s xs =
     rbind (array_sort s None (filter (\<lambda>x. x \<noteq> JUndef) xs)) (\<lambda>sorted. Inr (sorted @ filter (\<lambda>x. x = JUndef) xs))"

section \<open>Operators\<close>

definition collection_error :: "string \<Rightarrow> string \<Rightarrow> 'a js" where
  "collection_error msg field = Inl (LocalCollectionError msg (Some field))"

definition applyPush :: "target \<Rightarrow> jsval \<Rightarrow> jsval \<Rightarrow> jsval js" where
  "applyPush target argument document =
     (case (case readField document target of JUndef \<Rightarrow> JArr [] | v \<Rightarrow> v) of
        JArr current \<Rightarrow>
          (case argument of
             JObj kvs \<Rightarrow>
               if \<not> jm_has kvs ''$each'' then
                 rbind (assertValidFieldNames argument) (\<lambda>_. Inr (writeField target (JArr (current @ [argument])) document))
               else
                 (case obj_get kvs ''$each'' of
                    JArr each \<Rightarrow>
                      rbind (assertValidFieldNames (JArr each)) (\<lambda>_.
                        (case (if obj_get kvs ''$position'' = JUndef then jint (int (length current)) else obj_get kvs ''$position'') of
                           JNum position \<Rightarrow>
                             if num_less position (Fin 0)
                             then collection_error ''$position in $push must be zero or positive'' (t_field target)
                             else
                               (let start = splice_start position (length current);
                                    spliced = take start current @ each @ drop start current
                                in rbind (if obj_get kvs ''$sort'' \<noteq> JUndef then
                                       (if obj_get kvs ''$slice'' = JUndef
                                        then collection_error ''$sort requires $slice to be present'' (t_field target)
                                        else if list_ex (\<lambda>element. \<not> isPlainObject element) each
                                        then collection_error ''$push like modifiers using $sort require all elements to be objects'' (t_field target)
                                        else rbind (new_sorter None (obj_get kvs ''$sort'')) (\<lambda>s. sort_elements s spliced))
                                     else Inr spliced) (\<lambda>sorted.
                                     case obj_get kvs ''$slice'' of
                                       JUndef \<Rightarrow> Inr (writeField target (JArr sorted) document)
                                     | JNum n \<Rightarrow> Inr (writeField target (JArr (push_slice n sorted)) document)
                                     | _ \<Rightarrow> collection_error ''$slice must be a numeric value'' (t_field target)))
                         | _ \<Rightarrow> collection_error ''$position must be a numeric value'' (t_field target)))
                  | _ \<Rightarrow> collection_error ''$each must be an array'' (t_field target))
           | _ \<Rightarrow> rbind (assertValidFieldNames argument) (\<lambda>_. Inr (writeField target (JArr (current @ [argument])) document)))
      | _ \<Rightarrow> collection_error ''Cannot apply $push modifier to non-array'' (t_field target))"

definition pullMatches :: "matcher_host \<Rightarrow> jsval \<Rightarrow> jsval \<Rightarrow> bool js" where
  "pullMatches mh v argument =
     (case argument of
        JObj _ \<Rightarrow>
          rbind (compileSelector (mh\<lparr>mh_collator := None\<rparr>) True (JObj [(''value'', argument)])) (\<lambda>m.
            rbind (documentMatches m (JObj [(''value'', v)])) (\<lambda>r. Inr (m_result r)))
      | _ \<Rightarrow> Inr (equalValues True v argument))"

fun rfilter :: "('a \<Rightarrow> 'e + bool) \<Rightarrow> 'a list \<Rightarrow> 'e + 'a list" where
  "rfilter p [] = Inr []"
| "rfilter p (x # xs) = rbind (p x) (\<lambda>b. rbind (rfilter p xs) (\<lambda>ys. Inr (if b then x # ys else ys)))"

definition add_to_set :: "jsval list \<Rightarrow> jsval list \<Rightarrow> jsval list" where
  "add_to_set current items =
     foldl (\<lambda>current item. if list_ex (\<lambda>v. equalValues True v item) current then current else current @ [item]) current items"

definition arithmetic_operator :: "string \<Rightarrow> string \<Rightarrow> jsval \<Rightarrow> jsval \<Rightarrow> target \<Rightarrow> jsval \<Rightarrow> jsval js" where
  "arithmetic_operator operator path argument current target document =
     (case argument of
        JNum n \<Rightarrow>
          (case current of
             JUndef \<Rightarrow> Inr (writeField target (if operator = ''$mul'' then jint 0 else argument) document)
           | JNum m \<Rightarrow>
               Inr (if operator = ''$inc'' then writeField target (JNum (num_add m n)) document
                    else if operator = ''$mul'' then writeField target (JNum (num_mul m n)) document
                    else if operator = ''$min'' then (if num_less n m then writeField target argument document else document)
                    else (if num_less m n then writeField target argument document else document))
           | _ \<Rightarrow> collection_error (''Cannot apply '' @ operator @ '' modifier to non-number'') path)
      | _ \<Rightarrow> collection_error (''Modifier '' @ operator @ '' allowed for numbers only'') path)"

definition rename_operator :: "string \<Rightarrow> jsval \<Rightarrow> jsval \<Rightarrow> target \<Rightarrow> jsval \<Rightarrow> jsval js" where
  "rename_operator path argument current target document =
     (case argument of
        JStr to \<Rightarrow>
          if path = to then collection_error ''$rename source must differ from target'' path
          else if includes_str to null_byte
          then collection_error ''The to field for $rename cannot contain an embedded null byte'' path
          else if current = JUndef then Inr document
          else rbind (modificationTarget (removeField target document) to None False True) (\<lambda>(document', destination).
            Inr (writeField destination current document'))
      | _ \<Rightarrow> collection_error ''$rename target must be a string'' path)"

definition pull_operator :: "matcher_host \<Rightarrow> string \<Rightarrow> string \<Rightarrow> jsval \<Rightarrow> jsval \<Rightarrow> target \<Rightarrow> jsval \<Rightarrow> jsval js" where
  "pull_operator mh operator path argument current target document =
     (case current of
        JUndef \<Rightarrow> Inr document
      | JArr xs \<Rightarrow>
          (case (if operator = ''$pullAll'' then (case argument of JArr items \<Rightarrow> Some items | _ \<Rightarrow> None) else Some [argument]) of
             None \<Rightarrow> Inl (LocalCollectionError ''Modifier $pushAll/pullAll allowed for arrays only'' None)
           | Some items \<Rightarrow>
               rbind (rfilter (\<lambda>v. rbind (rsome (\<lambda>item. pullMatches mh v item) items) (\<lambda>b. Inr (\<not> b))) xs) (\<lambda>kept.
                 Inr (writeField target (JArr kept) document)))
      | _ \<Rightarrow> collection_error ''Cannot apply $pull/pullAll modifier to non-array'' path)"

definition applyModifierOperator ::
  "matcher_host \<Rightarrow> modify_options \<Rightarrow> jsval \<Rightarrow> string \<Rightarrow> string \<Rightarrow> jsval \<Rightarrow> jsval js" where
  "applyModifierOperator mh options document0 operator path argument =
     (if operator = ''$setOnInsert'' \<and> \<not> mo_isInsert options then Inr document0
      else
        (let actual = (if operator = ''$setOnInsert'' then ''$set'' else operator);
             noCreate = (actual \<in> {''$unset'', ''$pop'', ''$pull'', ''$pullAll''})
         in rbind (modificationTarget document0 path (mo_arrayIndices options) noCreate (actual = ''$rename'')) (\<lambda>(document, target).
              (let current = readField document target in
               if actual = ''$set'' then
                 rbind (assertValidFieldNames argument) (\<lambda>_. Inr (writeField target argument document))
               else if actual = ''$unset'' then Inr (removeField target document)
               else if actual \<in> {''$inc'', ''$mul'', ''$min'', ''$max''} then
                 arithmetic_operator actual path argument current target document
               else if actual = ''$currentDate'' then
                 (if argument = JBool True \<or>
                     (case argument of JObj kvs \<Rightarrow> obj_get kvs ''$type'' = JStr ''date'' | _ \<Rightarrow> False)
                  then Inr (writeField target (JDate (mo_now options)) document)
                  else collection_error ''Invalid $currentDate modifier'' path)
               else if actual = ''$rename'' then rename_operator path argument current target document
               else if actual = ''$push'' then applyPush target argument document
               else if actual = ''$pushAll'' then
                 (case argument of
                    JArr items \<Rightarrow>
                      (case current of
                         JUndef \<Rightarrow> Inr (writeField target argument document)
                       | JArr xs \<Rightarrow> Inr (writeField target (JArr (xs @ items)) document)
                       | _ \<Rightarrow> collection_error ''Cannot apply $pushAll modifier to non-array'' path)
                  | _ \<Rightarrow> Inl (LocalCollectionError ''Modifier $pushAll/pullAll allowed for arrays only'' None))
               else if actual = ''$addToSet'' then
                 (let items = (case argument of
                                 JObj kvs \<Rightarrow> (case obj_get kvs ''$each'' of JArr each \<Rightarrow> each | _ \<Rightarrow> [argument])
                               | _ \<Rightarrow> [argument])
                  in case current of
                       JUndef \<Rightarrow> Inr (writeField target (JArr items) document)
                     | JArr xs \<Rightarrow> Inr (writeField target (JArr (add_to_set xs items)) document)
                     | _ \<Rightarrow> collection_error ''Cannot apply $addToSet modifier to non-array'' path)
               else if actual = ''$pop'' then
                 (case current of
                    JUndef \<Rightarrow> Inr document
                  | JArr xs \<Rightarrow>
                      Inr (writeField target (JArr (case argument of
                        JNum n \<Rightarrow> if num_less n (Fin 0) then tl xs else butlast xs | _ \<Rightarrow> butlast xs)) document)
                  | _ \<Rightarrow> collection_error ''Cannot apply $pop modifier to non-array'' path)
               else if actual \<in> {''$pull'', ''$pullAll''} then pull_operator mh actual path argument current target document
               else if actual = ''$bit'' then collection_error ''$bit is not supported'' path
               else if actual \<noteq> ''$v'' then Inl (LocalCollectionError (''Invalid modifier specified '' @ actual) None)
               else Inr document))))"

definition apply_operator_entry :: "matcher_host \<Rightarrow> modify_options \<Rightarrow> string \<Rightarrow> jsval \<Rightarrow> string \<times> jsval \<Rightarrow> jsval js" where
  "apply_operator_entry mh options operator document entry =
     (case entry of (path, argument) \<Rightarrow>
        if path = ''_id'' \<or> starts_with path ''_id.'' then Inl (LocalCollectionError ''Mod on _id not allowed'' None)
        else applyModifierOperator mh options document operator path argument)"

definition modifyDocument :: "matcher_host \<Rightarrow> modify_options \<Rightarrow> jsobj \<Rightarrow> jsval \<Rightarrow> jsval js" where
  "modifyDocument mh options document modifier =
     (case cloneValue modifier of
        JObj cloned \<Rightarrow>
          (let keys = map fst cloned; operatorKeys = filter (\<lambda>key. starts_with key ''$'') keys in
           if operatorKeys \<noteq> [] \<and> length operatorKeys \<noteq> length keys
           then Inl (Error ''Update parameter cannot have both modifier and non-modifier fields.'')
           else if operatorKeys = [] then
             rbind (assertValidFieldNames (JObj cloned)) (\<lambda>_.
               (let id0 = obj_get document ''_id'' in
                if jm_has cloned ''_id'' \<and> \<not> equalValues False (obj_get cloned ''_id'') id0
                then Inl (LocalCollectionError ''Cannot change the _id of a document'' None)
                else Inr (JObj (if id0 \<noteq> JUndef then obj_set ''_id'' id0 cloned else cloned))))
           else rfoldl (\<lambda>document operator.
               case obj_get cloned operator of
                 JObj entries \<Rightarrow> rfoldl (apply_operator_entry mh options operator) document entries
               | _ \<Rightarrow> Inl (LocalCollectionError (''Modifier '' @ operator @ '' argument must be an object'') None))
             (JObj document) operatorKeys)
      | _ \<Rightarrow> Inl (LocalCollectionError ''Modifier must be an object'' None))"

section \<open>Upserts\<close>

function populate :: "jsobj \<Rightarrow> jsobj \<Rightarrow> jsobj js"
  and populate_entries :: "jsobj \<Rightarrow> jsval list \<Rightarrow> jsobj js"
where
  "populate document [] = Inr document"
| "populate document ((path, fieldValue) # rest) =
     rbind (if path = ''$and'' \<and> isArray fieldValue
            then (case fieldValue of JArr entries \<Rightarrow> populate_entries document entries | _ \<Rightarrow> Inr document)
            else if path = ''$or'' \<and> (case fieldValue of JArr [_] \<Rightarrow> True | _ \<Rightarrow> False)
            then (case fieldValue of JArr entries \<Rightarrow> populate_entries document entries | _ \<Rightarrow> Inr document)
            else if \<not> starts_with path ''$'' then
              (case (case fieldValue of JObj kvs \<Rightarrow> map_of kvs ''$eq'' | _ \<Rightarrow> None) of
                 Some v \<Rightarrow> Inr (setPath document path (cloneValue v))
               | None \<Rightarrow> rbind (isOperatorObject fieldValue) (\<lambda>isOperator.
                   Inr (if isOperator then document else setPath document path (cloneValue fieldValue))))
            else Inr document)
       (\<lambda>document'. populate document' rest)"
| "populate_entries document [] = Inr document"
| "populate_entries document (entry # entries) =
     rbind (case entry of JObj kvs \<Rightarrow> populate document kvs | _ \<Rightarrow> Inr document) (\<lambda>document'. populate_entries document' entries)"
  by pat_completeness auto
termination
  by (relation "measure (\<lambda>c. case c of Inl (d, kvs) \<Rightarrow> size_list (size_prod (\<lambda>_. 0) size) kvs | Inr (d, vs) \<Rightarrow> size_list size vs)") auto

definition createUpsertDocument :: "matcher_host \<Rightarrow> jsnum \<Rightarrow> jsval \<Rightarrow> jsval \<Rightarrow> jsval js" where
  "createUpsertDocument mh now selector modifier =
     rbind (case selector of
              JStr s \<Rightarrow> Inr [(''_id'', selector)]
            | JObj kvs \<Rightarrow> populate [] kvs
            | _ \<Rightarrow> Inr [])
       (\<lambda>document. modifyDocument mh \<lparr>mo_isInsert = True, mo_arrayIndices = None, mo_now = now\<rparr> document modifier)"

end
