(* ===== verification/MiniSelect.thy ===== *)
theory MiniSelect
  imports MiniMatcher EjsonWire
begin

text \<open>
  Laws of the selector language over the compiled matchers: what negated operators, \<open>$in\<close> and the bit
  operators answer, errors included, and where \<open>$near\<close> differs between queries and updates.
\<close>

section \<open>Whether a selector selects a document\<close>

definition selects :: "matcher_host \<Rightarrow> jsval \<Rightarrow> jsval \<Rightarrow> bool js" where
  "selects mh selector document =
     rbind (compileSelector mh False selector) (\<lambda>m. rbind (documentMatches m document) (\<lambda>r. Inr (m_result r)))"

abbreviation rnot :: "bool js \<Rightarrow> bool js" where
  "rnot r \<equiv> rbind r (\<lambda>b. Inr (\<not> b))"

lemma rbind_assoc: "rbind (rbind m f) g = rbind m (\<lambda>x. rbind (f x) g)"
  by (cases m) auto

lemma rsome_Inr: "(\<And>x. x \<in> set xs \<Longrightarrow> p x = Inr (q x)) \<Longrightarrow> rsome p xs = Inr (\<exists>x \<in> set xs. q x)"
  by (induction xs) (auto simp: rsome_def)

lemma revery_Inr: "(\<And>x. x \<in> set xs \<Longrightarrow> p x = Inr (q x)) \<Longrightarrow> revery p xs = Inr (\<forall>x \<in> set xs. q x)"
  by (induction xs) (auto simp: revery_def)

lemma revery_not: "revery (\<lambda>x. rnot (p x)) xs = rnot (rsome p xs)"
proof -
  have "rfind (\<lambda>x. rnot (rnot (p x))) xs = rfind p xs"
    by (rule rfind_cong) (auto simp: rbind_def split: sum.splits)
  then show ?thesis by (cases "rfind p xs") (auto simp: revery_def rsome_def)
qed

definition verdict :: "match_result js \<Rightarrow> bool js" where
  "verdict r = rbind r (\<lambda>r. Inr (m_result r))"

lemma verdict_if: "verdict (rbind m (\<lambda>b. Inr (if b then matched else unmatched))) = m"
  by (cases m) (auto simp: verdict_def)

lemma verdict_all_entries:
  "verdict (all_entries fd ms acc d) = (if m_result acc \<or> ms \<noteq> [] then revery (\<lambda>m. verdict (m d)) ms else Inr False)"
proof (induction ms arbitrary: acc)
  case Nil
  then show ?case by (auto simp: verdict_def revery_def)
next
  case (Cons m ms)
  show ?case using Cons [of "\<lparr>m_result = True, m_arrayIndices = i, m_distance = j\<rparr>" for i j]
    by (cases "m d") (auto simp: verdict_def revery_def)
qed

lemma verdict_or:
  "verdict (logical_matcher ''$or'' (e # es) d) = rsome (\<lambda>m. verdict (m d)) (e # es)"
proof (cases es)
  case Nil
  then show ?thesis by (cases "e d") (auto simp: logical_matcher_def verdict_def rsome_def)
next
  case (Cons a list)
  then show ?thesis
    by (simp add: logical_matcher_def verdict_if flip: verdict_def)
qed

lemma verdict_nor:
  "verdict (logical_matcher ''$nor'' es d) = rnot (rsome (\<lambda>m. verdict (m d)) es)"
proof -
  have "(\<lambda>m. rbind (m d) (\<lambda>r. Inr (\<not> m_result r))) = (\<lambda>m. rnot (verdict (m d)))"
    by (auto simp: verdict_def rbind_assoc)
  then show ?thesis
    by (simp add: logical_matcher_def verdict_if revery_not)
qed

lemma verdict_and:
  "verdict (logical_matcher ''$and'' es d) = revery (\<lambda>m. verdict (m d)) es"
  by (simp add: logical_matcher_def verdict_all_entries)


lemma selects_root:
  assumes "\<not> (jm_has kvs ''_id'' \<and> \<not> truthy (obj_get kvs ''_id''))"
  shows "selects mh (JObj kvs) d = rbind (compileDocument mh False kvs True) (\<lambda>m. verdict (documentMatches m d))"
  using assms by (auto simp: selects_def compileSelector_def verdict_def)

lemma verdict_matches:
  "js_typeof d = ''object'' \<Longrightarrow> d \<noteq> JNull \<Longrightarrow> verdict (documentMatches m d) = verdict (m d)"
  "js_typeof d \<noteq> ''object'' \<or> d = JNull \<Longrightarrow> verdict (documentMatches m d) = Inl (Error ''documentMatches needs a document'')"
  by (auto simp: documentMatches_def verdict_def)

lemma verdict_singleton: "verdict (documentMatches (all_entries fd [m] matched) d) = verdict (documentMatches m d)"
proof (cases "js_typeof d = ''object'' \<and> d \<noteq> JNull")
  case True
  have "revery (\<lambda>m. verdict (m d)) [m] = verdict (m d)" by (cases "verdict (m d)") (auto simp: revery_def)
  then show ?thesis using True verdict_all_entries [of fd "[m]" matched d] by (simp add: verdict_matches del: all_entries.simps)
qed (auto simp: verdict_matches)

lemma verdict_singleton_doc: "verdict (all_entries fd [m] matched (JObj d)) = verdict (m (JObj d))"
  using verdict_singleton [of fd m "JObj d"] by (simp add: verdict_matches del: all_entries.simps)

lemma selects_logical:
  "starts_with operator ''$'' \<Longrightarrow> selects mh (JObj [(operator, v)]) d =
     rbind (compileLogical mh False operator v) (\<lambda>m. verdict (documentMatches m d))"
  using selects_root [of "[(operator, v)]" mh d]
  by (cases "operator = ''_id''"; cases "compileLogical mh False operator v")
    (auto simp: compileDocument.simps verdict_singleton jm_has_def starts_with_def simp del: all_entries.simps)

lemma selects_field:
  assumes "\<not> starts_with path ''$''" "path \<noteq> ''_id'' \<or> truthy v"
  shows "selects mh (JObj [(path, v)]) (JObj d) =
     rbind (compileValue mh False v True) (\<lambda>m. verdict (m (lookupBranches False (JObj d) path)))"
proof -
  have "selects mh (JObj [(path, v)]) (JObj d) =
    rbind (compileValue mh False v True) (\<lambda>m. verdict (documentMatches (\<lambda>document. m (lookupBranches False document path)) (JObj d)))"
    using assms selects_root [of "[(path, v)]" mh "JObj d"]
    by (cases "path = ''_id''"; cases "compileValue mh False v True")
      (auto simp: compileDocument.simps verdict_singleton jm_has_def obj_get_def simp del: all_entries.simps)
  then show ?thesis by (simp add: verdict_matches)
qed

lemma compileLogical_cases:
  assumes "operator \<in> {''$and'', ''$or'', ''$nor''}"
  obtains (error) e where "\<And>op. op \<in> {''$and'', ''$or'', ''$nor''} \<Longrightarrow> compileLogical mh u op v = Inl e"
  | (entries) e es where "\<And>op. op \<in> {''$and'', ''$or'', ''$nor''} \<Longrightarrow> compileLogical mh u op v = Inr (logical_matcher op (e # es))"
proof (cases "\<exists>x xs. v = JArr (x # xs)")
  case True
  then obtain x xs where v: "v = JArr (x # xs)" by blast
  define compiled where "compiled = rtraverse (\<lambda>entry.
                 case entry of
                   JObj kvs \<Rightarrow> compileDocument mh u kvs False
                 | _ \<Rightarrow> Inl (LocalQueryError ''$or/$and/$nor entries need to be full objects'')) (x # xs)"
  have c: "compileLogical mh u op v = rbind compiled (\<lambda>entries. Inr (logical_matcher op entries))"
    if "op \<in> {''$and'', ''$or'', ''$nor''}" for op
    using that unfolding v compileLogical.simps compiled_def by (auto simp del: rtraverse.simps)
  show ?thesis
  proof (cases compiled)
    case (Inl e)
    then show ?thesis using error c by simp
  next
    case (Inr es)
    then have "length es = length (x # xs)" unfolding compiled_def by (rule rtraverse_length)
    then show ?thesis using Inr entries c by (cases es) auto
  qed
next
  case False
  then have "compileLogical mh u op v = Inl (LocalQueryError ''$and/$or/$nor must be nonempty array'')"
    if "op \<in> {''$and'', ''$or'', ''$nor''}" for op
    using that by (auto simp: compileLogical.simps split: jsval.splits list.splits)
  then show ?thesis using error by blast
qed

lemma selects_nor: "selects mh (JObj [(''$nor'', v)]) d = rnot (selects mh (JObj [(''$or'', v)]) d)"
proof (rule compileLogical_cases [of "''$or''" mh False v])
  fix e es
  assume "\<And>op. op \<in> {''$and'', ''$or'', ''$nor''} \<Longrightarrow> compileLogical mh False op v = Inr (logical_matcher op (e # es))"
  then show ?thesis
    by (cases "js_typeof d = ''object'' \<and> d \<noteq> JNull")
      (auto simp: selects_logical starts_with_def verdict_matches verdict_or verdict_nor)
qed (auto simp: selects_logical starts_with_def)

lemma verdict_operator: "verdict (combine_operators [m] bs) = verdict (m bs)"
  by (cases "m bs") (auto simp: combine_operators_def verdict_def)

lemma verdict_invert: "verdict (invert m bs) = rnot (verdict (m bs))"
  by (cases "m bs") (auto simp: invert_def verdict_def)

lemma verdict_element:
  "verdict (elementMatcher (\<lambda>v. Inr (p v)) expand skip bs) =
     Inr (\<exists>b \<in> set (if expand then expandArrays skip bs else bs). p (b_value b))"
  by (auto simp: elementMatcher_def rfind_Inr verdict_def find_None_iff find_Some_iff split: option.splits)

lemma selects_operator:
  assumes "\<not> starts_with path ''$''" "starts_with operator ''$''"
  shows "selects mh (JObj [(path, JObj [(operator, v)])]) (JObj d) =
     rbind (compileOperator mh False operator v [(operator, v)] True) (\<lambda>m. verdict (m (lookupBranches False (JObj d) path)))"
  using assms by (cases "compileOperator mh False operator v [(operator, v)] True")
    (auto simp: selects_field compileValue.simps isOperatorObject_def verdict_operator)

lemma selects_ne:
  "\<not> starts_with path ''$'' \<Longrightarrow> selects mh (JObj [(path, JObj [(''$ne'', v)])]) (JObj d) =
     rnot (selects mh (JObj [(path, JObj [(''$eq'', v)])]) (JObj d))"
  by (simp add: selects_operator starts_with_def compileOperator.simps leaf_operator_def verdict_invert)

lemma selects_nin:
  "\<not> starts_with path ''$'' \<Longrightarrow> selects mh (JObj [(path, JObj [(''$nin'', v)])]) (JObj d) =
     rnot (selects mh (JObj [(path, JObj [(''$in'', v)])]) (JObj d))"
  by (cases "in_matcher mh v")
    (simp_all add: selects_operator starts_with_def compileOperator.simps leaf_operator_def verdict_invert)

lemma plain_value_matcher:
  "isOperatorObject o' = Inr False \<Longrightarrow>
     compileValue mh u o' r = Inr (elementMatcher (\<lambda>v. Inr (equal_or_regex mh o' v)) True False)"
  by (cases o') (auto simp: compileValue.simps equal_or_regex_def)

lemma selects_in:
  assumes "\<not> starts_with path ''$''" and plain: "\<forall>o' \<in> set options. isOperatorObject o' = Inr False"
  shows "selects mh (JObj [(path, JObj [(''$in'', JArr options)])]) (JObj d) =
     Inr (\<exists>b \<in> set (expandArrays False (lookupBranches False (JObj d) path)). \<exists>o' \<in> set options. equal_or_regex mh o' (b_value b))"
proof -
  have "rsome (\<lambda>option. rbind (isOperatorObject option) (\<lambda>nested.
              if nested then Inl (LocalQueryError ''cannot nest $ under $in'')
              else Inr (equal_or_regex mh option v))) options = Inr (\<exists>o' \<in> set options. equal_or_regex mh o' v)" for v
    using plain by (intro rsome_Inr) auto
  then show ?thesis using assms
    by (simp add: selects_operator starts_with_def compileOperator.simps leaf_operator_def in_matcher_def verdict_element)
qed

lemma selects_or_values:
  assumes "\<not> starts_with path ''$''" "options \<noteq> []" and plain: "\<forall>o' \<in> set options. isOperatorObject o' = Inr False"
  shows "selects mh (JObj [(''$or'', JArr (map (\<lambda>o'. JObj [(path, o')]) options))]) (JObj d) =
     Inr (\<exists>o' \<in> set options. \<exists>b \<in> set (expandArrays False (lookupBranches False (JObj d) path)). equal_or_regex mh o' (b_value b))"
proof -
  define entry where "entry o' = all_entries False [\<lambda>document. elementMatcher (\<lambda>v. Inr (equal_or_regex mh o' v)) True False
    (lookupBranches False document path)] matched" for o'
  have entries: "rtraverse (\<lambda>entry. case entry of JObj kvs \<Rightarrow> compileDocument mh False kvs False
      | _ \<Rightarrow> Inl (LocalQueryError ''$or/$and/$nor entries need to be full objects''))
      (map (\<lambda>o'. JObj [(path, o')]) options) = Inr (map entry options)" (is "rtraverse ?c _ = _")
  proof -
    have "?c (JObj [(path, o')]) = Inr (entry o')" if "o' \<in> set options" for o'
      using assms(1) plain that by (auto simp: compileDocument.simps plain_value_matcher entry_def)
    then show ?thesis by (induction options) auto
  qed
  have v: "verdict (entry o' (JObj d)) =
      Inr (\<exists>b \<in> set (expandArrays False (lookupBranches False (JObj d) path)). equal_or_regex mh o' (b_value b))" for o'
    unfolding entry_def by (subst verdict_all_entries) (simp add: verdict_element revery_def)
  obtain p ps where options: "options = p # ps" using assms(2) by (cases options) auto
  have "compileLogical mh False ''$or'' (JArr (map (\<lambda>o'. JObj [(path, o')]) options)) =
      Inr (logical_matcher ''$or'' (map entry options))"
    using entries unfolding options compileLogical.simps by (simp del: rtraverse.simps)
  moreover have "rsome (\<lambda>m. verdict (m (JObj d))) (map entry options) =
      Inr (\<exists>m \<in> set (map entry options). verdict (m (JObj d)) = Inr True)"
    by (rule rsome_Inr) (auto simp: v)
  ultimately show ?thesis unfolding options
    by (simp add: selects_logical starts_with_def verdict_matches verdict_or v)
qed

text \<open>
  C37: Negated query operators are exact complements. A \<open>$nor\<close> answers the negation of the \<open>$or\<close> over
  the same operand, \<open>$ne\<close> of \<open>$eq\<close> and \<open>$nin\<close> of \<open>$in\<close>, and when the one throws the other throws the
  same error.
\<close>

theorem negated_operators_complement:
  assumes "\<not> starts_with path ''$''"
  shows "selects mh (JObj [(''$nor'', v)]) (JObj d) = rnot (selects mh (JObj [(''$or'', v)]) (JObj d)) \<and>
    selects mh (JObj [(path, JObj [(''$ne'', v)])]) (JObj d) = rnot (selects mh (JObj [(path, JObj [(''$eq'', v)])]) (JObj d)) \<and>
    selects mh (JObj [(path, JObj [(''$nin'', v)])]) (JObj d) = rnot (selects mh (JObj [(path, JObj [(''$in'', v)])]) (JObj d))"
  using assms by (simp add: selects_nor selects_ne selects_nin)

text \<open>
  \<open>{path: {$in: [v1, ..., vn]}}\<close> selects the same documents as the disjunction
  \<open>{$or: [{path: v1}, ..., {path: vn}]}\<close>, through arrays on the path, for regular expressions among
  the values and under any collation.
\<close>

theorem in_is_disjunction:
  assumes "\<not> starts_with path ''$''" "options \<noteq> []" "\<forall>o' \<in> set options. isOperatorObject o' = Inr False"
  shows "selects mh (JObj [(path, JObj [(''$in'', JArr options)])]) (JObj d) =
    selects mh (JObj [(''$or'', JArr (map (\<lambda>o'. JObj [(path, o')]) options))]) (JObj d)"
  using assms by (auto simp: selects_in selects_or_values)

section \<open>Bit tests\<close>

lemma le_bytes_length [simp]: "length (le_bytes n z) = n"
  by (simp add: le_bytes_def)

lemma le_bytes_bit: "i < n \<Longrightarrow> j < 8 \<Longrightarrow> bit (le_bytes n z ! i) j \<longleftrightarrow> bit z (8 * i + j)"
proof -
  have "(256 :: int) ^ i = 2 ^ (8 * i)" by (simp add: power_mult)
  then show "i < n \<Longrightarrow> j < 8 \<Longrightarrow> ?thesis"
    by (simp add: le_bytes_def bit_word_of_int_iff bit_drop_bit_eq add.commute flip: drop_bit_eq_div)
qed

lemma int32_small: "0 \<le> p \<Longrightarrow> p < 2147483648 \<Longrightarrow> int32 p = p"
  by (simp add: int32_def sint_uint signed_take_bit_int_eq_self unsigned_of_int take_bit_int_eq_self)

lemma set_bit_length [simp]: "length (set_bit_at p result) = length result"
  by (simp add: set_bit_at_def Let_def)

lemma set_bit_at_bit:
  assumes "0 \<le> p" "p < 2147483648" "i < length result" "j < 8"
  shows "bit (set_bit_at p result ! i) j \<longleftrightarrow> bit (result ! i) j \<or> nat p = 8 * i + j"
proof -
  let ?q = "nat (p div 8)" and ?r = "nat (p mod 8)"
  have p: "nat p = 8 * ?q + ?r" and r: "?r < 8" using assms(1) by (simp_all add: nat_div_distrib nat_mod_distrib)
  have "8 * q + r = 8 * i + j \<longleftrightarrow> q = i \<and> r = j" if "r < 8" for q r :: nat
  proof -
    have "(8 * q + r) div 8 = q" "(8 * q + r) mod 8 = r" "(8 * i + j) div 8 = i" "(8 * i + j) mod 8 = j"
      using that assms(4) by simp_all
    then show ?thesis by metis
  qed
  then have same: "nat p = 8 * i + j \<longleftrightarrow> ?q = i \<and> ?r = j" using p r by simp
  have "bit (push_bit ?r (1 :: 8 word)) j \<longleftrightarrow> ?r = j"
    using assms(4) r by (auto simp: bit_push_bit_iff push_bit_eq_mult bit_exp_iff)
  then show ?thesis using assms(1-3) unfolding same
    by (cases "?q = i") (auto simp: set_bit_at_def int32_small Let_def bit_or_iff pos_imp_zdiv_nonneg_iff)
qed

lemma set_bits_bit:
  assumes "\<forall>p \<in> set ps. 0 \<le> p \<and> p < 2147483648" "i < length result" "j < 8"
  shows "bit (foldl (\<lambda>result position. set_bit_at position result) result ps ! i) j \<longleftrightarrow>
    bit (result ! i) j \<or> (8 * i + j) \<in> nat ` set ps"
  using assms by (induction ps arbitrary: result) (auto simp: set_bit_at_bit image_iff)

lemma set_bits_length: "length (foldl (\<lambda>result position. set_bit_at position result) result ps) = length result"
  by (induction ps arbitrary: result) auto

lemma num_int_jint [simp]: "num_int (jint z) = Some z"
  by (simp add: num_int_def)

lemma map_filter_jint: "List.map_filter num_int (map jint ps) = ps"
  by (induction ps) (auto simp: List.map_filter_def)

lemma foldr_max_bound: "p \<in> set ps \<Longrightarrow> p \<le> foldr max ps (0 :: int)"
  by (induction ps) auto

lemma foldr_max_range: "\<forall>p \<in> set ps. 0 \<le> p \<and> p < b \<Longrightarrow> 0 < b \<Longrightarrow> 0 \<le> foldr max ps 0 \<and> foldr max ps 0 < (b :: int)"
  by (induction ps) auto

lemma bitMask_positions:
  assumes "\<forall>p \<in> set ps. 0 \<le> p \<and> p < 2147483648"
  obtains bytes where "bitMask (JArr (map jint ps)) operator = Inr bytes"
    and "\<And>i j. i < length bytes \<Longrightarrow> j < 8 \<Longrightarrow> bit (bytes ! i) j \<longleftrightarrow> 8 * i + j \<in> nat ` set ps"
    and "\<And>p. p \<in> set ps \<Longrightarrow> nat p div 8 < length bytes"
proof -
  let ?m = "foldr max ps 0"
  define bytes where "bytes = foldl (\<lambda>result position. set_bit_at position result) (replicate (nat (?m div 8 + 1)) 0) ps"
  have m: "0 \<le> ?m" "?m < 2147483648" using foldr_max_range [OF assms] by auto
  have "bitMask (JArr (map jint ps)) operator = Inr bytes"
    using assms m by (simp add: bitMask_def map_filter_jint int32_small Let_def bytes_def list_all_iff)
  moreover have len: "length bytes = nat (?m div 8 + 1)" by (simp add: bytes_def set_bits_length)
  moreover have "bit (bytes ! i) j \<longleftrightarrow> 8 * i + j \<in> nat ` set ps" if "i < length bytes" "j < 8" for i j
    using that assms unfolding bytes_def by (subst set_bits_bit) (auto simp: set_bits_length)
  moreover have "nat p div 8 < length bytes" if "p \<in> set ps" for p
    using foldr_max_bound [OF that] assms that len by (auto simp: nat_less_iff zdiv_mono1 zdiv_int)
  ultimately show ?thesis using that by blast
qed

lemma byte_covers: "and c b = b \<longleftrightarrow> (\<forall>j < 8. bit b j \<longrightarrow> bit c j)" for b c :: "8 word"
  by (auto simp: bit_eq_iff bit_and_iff)

lemma byte_disjoint: "and c b = 0 \<longleftrightarrow> (\<forall>j < 8. bit b j \<longrightarrow> \<not> bit c j)" for b c :: "8 word"
  by (auto simp: bit_eq_iff bit_and_iff)

lemma zip_index_all: "list_all (\<lambda>(x, i). P x i) (zip xs [0..<length xs]) \<longleftrightarrow> (\<forall>i < length xs. P (xs ! i) i)"
  by (auto simp: list_all_length)

lemma zip_index_ex: "list_ex (\<lambda>(x, i). P x i) (zip xs [0..<length xs]) \<longleftrightarrow> (\<exists>i < length xs. P (xs ! i) i)"
  by (auto simp: list_ex_length)

definition bits_spec :: "string \<Rightarrow> int set \<Rightarrow> int \<Rightarrow> bool" where
  "bits_spec operator ps z \<longleftrightarrow>
     (if operator = ''$bitsAllSet'' then \<forall>p \<in> ps. bit z (nat p)
      else if operator = ''$bitsAnySet'' then \<exists>p \<in> ps. bit z (nat p)
      else if operator = ''$bitsAllClear'' then \<forall>p \<in> ps. \<not> bit z (nat p)
      else \<exists>p \<in> ps. \<not> bit z (nat p))"

lemma positions_all:
  assumes "\<And>i j. i < length bytes \<Longrightarrow> j < 8 \<Longrightarrow> bit (bytes ! i) j \<longleftrightarrow> 8 * i + j \<in> nat ` set ps"
    and "\<And>p. p \<in> set ps \<Longrightarrow> nat p div 8 < length bytes"
  shows "(\<forall>i < length bytes. \<forall>j < 8. bit (bytes ! i) j \<longrightarrow> Q (8 * i + j)) \<longleftrightarrow> (\<forall>p \<in> set ps. Q (nat p))"
proof
  assume all: "\<forall>i < length bytes. \<forall>j < 8. bit (bytes ! i) j \<longrightarrow> Q (8 * i + j)"
  show "\<forall>p \<in> set ps. Q (nat p)"
  proof
    fix p assume p: "p \<in> set ps"
    have split: "8 * (nat p div 8) + nat p mod 8 = nat p" by simp
    have "bit (bytes ! (nat p div 8)) (nat p mod 8)" using assms(1) [OF assms(2) [OF p]] p split by simp
    then have "Q (8 * (nat p div 8) + nat p mod 8)" using all assms(2) [OF p] by (metis mod_less_divisor zero_less_numeral)
    then show "Q (nat p)" by (simp only: split)
  qed
qed (auto simp: assms(1))

lemma bits_test_spec:
  assumes bytes: "\<And>i j. i < length bytes \<Longrightarrow> j < 8 \<Longrightarrow> bit (bytes ! i) j \<longleftrightarrow> 8 * i + j \<in> nat ` set ps"
    and len: "\<And>p. p \<in> set ps \<Longrightarrow> nat p div 8 < length bytes"
  shows "bits_test operator bytes (le_bytes (max (length bytes) 8) z) \<longleftrightarrow> bits_spec operator (set ps) z"
proof -
  let ?c = "\<lambda>index. if index < length (le_bytes (max (length bytes) 8) z) then le_bytes (max (length bytes) 8) z ! index else 0"
  have c: "bit (?c i) j \<longleftrightarrow> bit z (8 * i + j)" if "i < length bytes" "j < 8" for i j
    using that by (simp add: le_bytes_bit less_max_iff_disj)
  have covers: "(\<forall>i < length bytes. and (?c i) (bytes ! i) = bytes ! i) \<longleftrightarrow> (\<forall>p \<in> set ps. bit z (nat p))"
    unfolding byte_covers using c positions_all [OF bytes len, of "\<lambda>n. bit z n"] by (metis (no_types, lifting))
  have disjoint: "(\<forall>i < length bytes. and (?c i) (bytes ! i) = 0) \<longleftrightarrow> (\<forall>p \<in> set ps. \<not> bit z (nat p))"
    unfolding byte_disjoint using c positions_all [OF bytes len, of "\<lambda>n. \<not> bit z n"] by (metis (no_types, lifting))
  show ?thesis
    unfolding bits_test_def bits_spec_def Let_def zip_index_all zip_index_ex
    using covers disjoint by (simp split: if_splits) blast
qed

lemma lookup_single:
  assumes "CHR ''.'' \<notin> set path"
  shows "lookupBranches False (JObj [(path, v)]) path = [branch None v]"
proof -
  have "split_dot s = [s]" if "CHR ''.'' \<notin> set s" for s
    using that by (induction s) auto
  then show ?thesis using assms by (simp add: lookupBranches_def obj_get_def)
qed

lemma compile_bits:
  assumes "operator \<in> {''$bitsAllSet'', ''$bitsAnySet'', ''$bitsAllClear'', ''$bitsAnyClear''}"
  shows "compileOperator mh u operator operand s r =
    rbind (bitMask operand operator) (\<lambda>bytes.
      Inr (elementMatcher (\<lambda>v. Inr (case valueMask v (length bytes) of
             None \<Rightarrow> False | Some candidate \<Rightarrow> bits_test operator bytes candidate)) True False))"
proof -
  have "leaf_operator mh u operator operand s r = compileOperator mh u operator operand s r"
    using assms by (elim insertE emptyE) (simp_all add: compileOperator.simps)
  then show ?thesis
    using assms unfolding leaf_operator_def by (elim insertE emptyE) (simp_all add: starts_with_def)
qed

text \<open>
  C36: The bit operators with a list of positions test the two's complement bits of the number, at
  any position up to \<open>2^31 - 1\<close> and for negative numbers too: the mask is sized by the largest
  position and the number sign-extended to the mask.
\<close>

theorem bits_operators_correct:
  assumes "operator \<in> {''$bitsAllSet'', ''$bitsAnySet'', ''$bitsAllClear'', ''$bitsAnyClear''}"
    and "\<forall>p \<in> set ps. 0 \<le> p \<and> p < 2147483648" and "\<bar>z\<bar> \<le> max_safe_integer"
    and "\<not> starts_with path ''$''" "CHR ''.'' \<notin> set path"
  shows "selects mh (JObj [(path, JObj [(operator, JArr (map jint ps))])]) (JObj [(path, jint z)]) =
    Inr (bits_spec operator (set ps) z)"
proof -
  obtain bytes where bytes: "bitMask (JArr (map jint ps)) operator = Inr bytes"
    "\<And>i j. i < length bytes \<Longrightarrow> j < 8 \<Longrightarrow> bit (bytes ! i) j \<longleftrightarrow> 8 * i + j \<in> nat ` set ps"
    "\<And>p. p \<in> set ps \<Longrightarrow> nat p div 8 < length bytes"
    using bitMask_positions [OF assms(2)] by metis
  have "\<bar>of_int z :: rat\<bar> \<le> of_int max_safe_integer" using assms(3) by (simp flip: of_int_abs)
  then have "valueMask (jint z) (length bytes) = Some (le_bytes (max (length bytes) 8) z)"
    by (simp add: valueMask_def)
  moreover have "compileOperator mh False operator (JArr (map jint ps)) s True = Inr (elementMatcher (\<lambda>v.
      Inr (case valueMask v (length bytes) of None \<Rightarrow> False | Some candidate \<Rightarrow> bits_test operator bytes candidate)) True False)" for s
    by (simp add: compile_bits [OF assms(1)] bytes(1))
  moreover have "expandArrays False [branch None (jint z)] = [branch None (jint z)]"
    by (simp add: expandArrays_def expand_branch_def branch_def)
  moreover have "starts_with operator ''$''" using assms(1) by (auto simp: starts_with_def)
  ultimately show ?thesis using bits_test_spec [OF bytes(2,3)]
    by (simp add: selects_operator [OF assms(4)] lookup_single [OF assms(5)] verdict_element branch_def)
qed

text \<open>
  A \<open>$near\<close> selector finds a document whose location is a plain point, but the same selector
  given to an update or a removal never selects it: in update mode the compiled matcher reports
  a match only for points that were reached through an array.
\<close>

theorem near_update_misses_plain_point:
  assumes "\<not> starts_with path ''$''" "CHR ''.'' \<notin> set path" "path \<noteq> ''_id''"
    and "mh_distance mh origin here = Fin r" "origin = (x, y)" "here = (x', y')"
  shows "rbind (compileSelector mh False (JObj [(path, JObj [(''$near'', JArr [JNum x, JNum y])])]))
           (\<lambda>m. verdict (m (JObj [(path, JObj [(''x'', JNum x'), (''y'', JNum y')])]))) = Inr True \<and>
         rbind (compileSelector mh True (JObj [(path, JObj [(''$near'', JArr [JNum x, JNum y])])]))
           (\<lambda>m. verdict (m (JObj [(path, JObj [(''x'', JNum x'), (''y'', JNum y')])]))) = Inr False"
proof -
  let ?d = "JObj [(''x'', JNum x'), (''y'', JNum y')]"
  have "compileOperator mh u ''$near'' (JArr [JNum x, JNum y]) [(''$near'', JArr [JNum x, JNum y])] True =
    near_matcher mh u (JArr [JNum x, JNum y]) [(''$near'', JArr [JNum x, JNum y])] True" for u
    by (simp add: compileOperator.simps leaf_operator_def starts_with_def)
  then have c: "compileSelector mh u (JObj [(path, JObj [(''$near'', JArr [JNum x, JNum y])])]) =
    rbind (near_matcher mh u (JArr [JNum x, JNum y]) [(''$near'', JArr [JNum x, JNum y])] True) (\<lambda>m.
      Inr (all_entries False [\<lambda>document. combine_operators [m] (lookupBranches False document path)] matched))" for u
    using assms(1,3) by (cases "near_matcher mh u (JArr [JNum x, JNum y]) [(''$near'', JArr [JNum x, JNum y])] True")
      (auto simp: compileSelector_def jm_has_def compileDocument.simps compileValue.simps isOperatorObject_def starts_with_def
        simp del: all_entries.simps)
  have p: "point ?d = Some (x', y')" "point (JArr [JNum x, JNum y]) = Some (x, y)"
    by (simp_all add: point_def point_pair_def obj_get_def)
  have e: "expandArrays False [branch None ?d] = [branch None ?d]"
    by (simp add: expandArrays_def expand_branch_def branch_def)
  show ?thesis using assms(4-6) p e unfolding c near_matcher_def
    by (simp add: verdict_singleton_doc verdict_operator lookup_single [OF assms(2)] obj_get_def del: all_entries.simps)
      (simp add: verdict_def branch_def)
qed

section \<open>Instances\<close>

definition sample_matcher_host :: matcher_host where
  "sample_matcher_host = \<lparr>mh_host = plain_host, mh_regex_test = (\<lambda>source flags s. s = source), mh_collator = None,
     mh_distance = (\<lambda>_ _. Fin 5), mh_geoJsonDistance = (\<lambda>_ _. Fin 5)\<rparr>"

theorem negated_operators_complement_witness:
  "\<not> starts_with ''age'' ''$'' \<and>
   selects sample_matcher_host (JObj [(''age'', JObj [(''$ne'', jint 3)])]) (JObj [(''age'', jint 3)]) =
   rnot (selects sample_matcher_host (JObj [(''age'', JObj [(''$eq'', jint 3)])]) (JObj [(''age'', jint 3)]))"
  using negated_operators_complement [of "''age''" sample_matcher_host "jint 3" "[(''age'', jint 3)]"]
  by (simp add: starts_with_def)

theorem in_is_disjunction_witness:
  "selects sample_matcher_host (JObj [(''tag'', JObj [(''$in'', JArr [JStr ''a'', JRegExp ''b'' []])])]) (JObj [(''tag'', JStr ''b'')]) =
   selects sample_matcher_host (JObj [(''$or'', JArr [JObj [(''tag'', JStr ''a'')], JObj [(''tag'', JRegExp ''b'' [])]])]) (JObj [(''tag'', JStr ''b'')])"
  using in_is_disjunction [of "''tag''" "[JStr ''a'', JRegExp ''b'' []]" sample_matcher_host "[(''tag'', JStr ''b'')]"]
  by (simp add: starts_with_def isOperatorObject_def)

theorem bits_operators_correct_witness:
  "selects sample_matcher_host (JObj [(''flags'', JObj [(''$bitsAllSet'', JArr [jint 0, jint 70])])]) (JObj [(''flags'', jint (-1))]) = Inr True"
  using bits_operators_correct [of "''$bitsAllSet''" "[0, 70]" "-1" "''flags''" sample_matcher_host]
  by (simp add: starts_with_def bits_spec_def max_safe_integer_def)

theorem near_update_misses_plain_point_witness:
  "rbind (compileSelector sample_matcher_host True (JObj [(''at'', JObj [(''$near'', JArr [jint 0, jint 0])])]))
     (\<lambda>m. verdict (m (JObj [(''at'', JObj [(''x'', jint 3), (''y'', jint 4)])]))) = Inr False"
  using near_update_misses_plain_point [of "''at''" sample_matcher_host "(Fin 0, Fin 0)" "(Fin 3, Fin 4)" 5 "Fin 0" "Fin 0" "Fin 3" "Fin 4"]
  by (simp add: starts_with_def sample_matcher_host_def)

end
