(* ===== verification/MiniModProps.thy ===== *)
theory MiniModProps
  imports MiniModifier MiniSelect
begin

text \<open>
  What a modifier does to the identity of a document, and how the field operators read back.
\<close>

section \<open>Partial correctness of fallible code\<close>

definition result_all :: "('a \<Rightarrow> bool) \<Rightarrow> 'a js \<Rightarrow> bool" where
  "result_all P m \<longleftrightarrow> (\<forall>r. m = Inr r \<longrightarrow> P r)"

named_theorems result_intros \<open>introduction rules for partial correctness\<close>

lemma result_all_leaf [result_intros]:
  "result_all P (Inl e)" "P r \<Longrightarrow> result_all P (Inr r)" "result_all P (collection_error msg f)"
  by (auto simp: result_all_def collection_error_def)

lemma result_all_rbind [result_intros]: "(\<And>a. m = Inr a \<Longrightarrow> result_all P (f a)) \<Longrightarrow> result_all P (rbind m f)"
  by (auto simp: result_all_def rbind_eq_Inr)

lemma result_all_if [result_intros]: "(b \<Longrightarrow> result_all P m) \<Longrightarrow> (\<not> b \<Longrightarrow> result_all P m') \<Longrightarrow> result_all P (if b then m else m')"
  by simp

lemma result_all_let [result_intros]: "result_all P (f x) \<Longrightarrow> result_all P (Let x f)"
  by simp

lemma result_all_option [result_intros]:
  "(x = None \<Longrightarrow> result_all P m) \<Longrightarrow> (\<And>a. x = Some a \<Longrightarrow> result_all P (f a)) \<Longrightarrow> result_all P (case x of None \<Rightarrow> m | Some a \<Rightarrow> f a)"
  by (cases x) auto

lemma result_all_prod [result_intros]: "(\<And>a b. x = (a, b) \<Longrightarrow> result_all P (f a b)) \<Longrightarrow> result_all P (case x of (a, b) \<Rightarrow> f a b)"
  by (cases x) auto

lemma result_all_jsval [result_intros]:
  assumes "v = JUndef \<Longrightarrow> result_all P u" "v = JNull \<Longrightarrow> result_all P n" "\<And>x. v = JBool x \<Longrightarrow> result_all P (b x)"
    "\<And>x. v = JNum x \<Longrightarrow> result_all P (m x)" "\<And>x. v = JStr x \<Longrightarrow> result_all P (s x)" "\<And>x. v = JDate x \<Longrightarrow> result_all P (d x)"
    "\<And>x y. v = JRegExp x y \<Longrightarrow> result_all P (re x y)" "\<And>x. v = JBinary x \<Longrightarrow> result_all P (bin x)"
    "\<And>x. v = JObjectId x \<Longrightarrow> result_all P (oid x)" "\<And>x. v = JArr x \<Longrightarrow> result_all P (arr x)" "\<And>x. v = JObj x \<Longrightarrow> result_all P (obj x)"
  shows "result_all P (case_jsval u n b m s d re bin oid arr obj v)"
  using assms by (cases v) auto

lemma result_allD: "result_all P m \<Longrightarrow> m = Inr r \<Longrightarrow> P r"
  by (simp add: result_all_def)

section \<open>The identity field\<close>

definition keeps_id :: "jsval \<Rightarrow> jsval \<Rightarrow> bool" where
  "keeps_id d d' \<longleftrightarrow> isPlainObject d \<and> isPlainObject d' \<and> reflect_get d' ''_id'' = reflect_get d ''_id''"

lemma keeps_id_refl [simp]: "keeps_id (JObj kvs) (JObj kvs)"
  by (simp add: keeps_id_def)

lemma keeps_id_trans: "keeps_id a b \<Longrightarrow> keeps_id b c \<Longrightarrow> keeps_id a c"
  by (simp add: keeps_id_def)

lemma keeps_id_obj: "keeps_id a b \<Longrightarrow> \<exists>kvs. b = JObj kvs"
  by (cases b) (auto simp: keeps_id_def)

lemma keeps_id_set: "part \<noteq> ''_id'' \<Longrightarrow> keeps_id (JObj kvs) (reflect_set (JObj kvs) part v)"
  by (simp add: keeps_id_def reflect_set_def reflect_get_def)

lemma resolve_not_id: "resolve_part path p pos = Inr (q, r) \<Longrightarrow> p \<noteq> ''_id'' \<Longrightarrow> q \<noteq> ''_id''"
proof -
  have "nat_digits n \<noteq> ''_id''" for n using nat_digits_digit [of "CHR ''_''" n] by (auto simp: is_digit_def)
  then show "resolve_part path p pos = Inr (q, r) \<Longrightarrow> p \<noteq> ''_id'' \<Longrightarrow> q \<noteq> ''_id''"
    by (auto simp: resolve_part_def split: if_splits list.splits)
qed

lemma hd_split: "hd (split_dot s) = takeWhile (\<lambda>c. c \<noteq> CHR ''.'') s"
  by (induction s) (auto split: list.splits)

lemma first_part: "path \<noteq> ''_id'' \<Longrightarrow> \<not> starts_with path ''_id.'' \<Longrightarrow> hd (split_dot path) \<noteq> ''_id''"
proof
  assume p: "path \<noteq> ''_id''" "\<not> starts_with path ''_id.''" and "hd (split_dot path) = ''_id''"
  then have t: "takeWhile (\<lambda>c. c \<noteq> CHR ''.'') path = ''_id''" by (simp add: hd_split)
  have path: "path = ''_id'' @ dropWhile (\<lambda>c. c \<noteq> CHR ''.'') path"
    using takeWhile_dropWhile_id [of "\<lambda>c. c \<noteq> CHR ''.''" path] unfolding t by simp
  then obtain c cs where d: "dropWhile (\<lambda>c. c \<noteq> CHR ''.'') path = c # cs" using p(1) by (cases "dropWhile (\<lambda>c. c \<noteq> CHR ''.'') path") auto
  then have "c = CHR ''.''" using hd_dropWhile [of "\<lambda>c. c \<noteq> CHR ''.''" path] by simp
  then have "path = ''_id.'' @ cs" using path d by simp
  then show False using p(2) by (simp add: starts_with_def)
qed

lemma walk_keeps:
  assumes "target_walk path nc fa pos parts (JObj kvs) = Inr (d, w)" "parts = [] \<or> hd parts \<noteq> ''_id''"
  shows "keeps_id (JObj kvs) d \<and> (\<forall>ps pos'. w = Some (ps, pos') \<longrightarrow> (if parts = [] then ps = [] else ps \<noteq> [] \<and> hd ps \<noteq> ''_id''))"
proof (cases parts)
  case (Cons p rest)
  then obtain q pos' where q: "resolve_part path p pos = Inr (q, pos')" "q \<noteq> ''_id''"
    using assms resolve_not_id by (fastforce simp: rbind_eq_Inr)
  show ?thesis using assms(1) Cons q
    by (auto simp: rbind_eq_Inr Let_def keeps_id_set split: if_splits option.splits)
qed (use assms in auto)

definition spares_id :: "target \<Rightarrow> bool" where
  "spares_id t \<longleftrightarrow> (\<forall>ps. t_parent t = Some ps \<longrightarrow> hd (ps @ [t_field t]) \<noteq> ''_id'')"

lemma target_keeps:
  assumes "modificationTarget (JObj kvs) path ai nc fa = Inr (d, t)" "hd (split_dot path) \<noteq> ''_id''"
  shows "keeps_id (JObj kvs) d \<and> spares_id t"
proof -
  let ?p = "butlast (split_dot path)" and ?f = "last (split_dot path)"
  have f: "?p = [] \<Longrightarrow> ?f \<noteq> ''_id''" "?p \<noteq> [] \<Longrightarrow> hd ?p \<noteq> ''_id''"
    using assms(2) append_butlast_last_id [OF split_dot_nonempty, of path] by (metis append_Nil list.sel(1), metis hd_append2)
  obtain w where w: "target_walk path nc fa (positions ai) ?p (JObj kvs) = Inr (d, w)"
    and t: "(case w of None \<Rightarrow> Inr (d, \<lparr>t_parent = None, t_field = ?f\<rparr>)
        | Some (parent, positional) \<Rightarrow> rbind (resolve_part path ?f positional) (\<lambda>(field', _).
              Inr (d, \<lparr>t_parent = Some parent, t_field = field'\<rparr>))) = Inr (d, t)"
    using assms(1) by (fastforce simp: modificationTarget_def Let_def rbind_eq_Inr split: if_splits option.splits)
  have k: "keeps_id (JObj kvs) d" and ps: "\<And>ps pos'. w = Some (ps, pos') \<Longrightarrow> (if ?p = [] then ps = [] else ps \<noteq> [] \<and> hd ps \<noteq> ''_id'')"
    using walk_keeps [OF w] f by blast+
  show ?thesis using k t ps f resolve_not_id [of path ?f]
    by (cases "?p = []") (fastforce simp: spares_id_def rbind_eq_Inr split: option.splits)+
qed

lemma update_keeps:
  assumes "parts \<noteq> []" "hd parts \<noteq> ''_id''"
  shows "keeps_id (JObj kvs) (update_at parts f (JObj kvs))"
  using assms by (cases parts) (auto simp: keeps_id_set)

lemma write_keeps: "spares_id t \<Longrightarrow> keeps_id (JObj kvs) (writeField t v (JObj kvs))"
  by (cases "t_parent t"; cases "the (t_parent t)") (auto simp: writeField_def spares_id_def keeps_id_set)

lemma remove_keeps: "spares_id t \<Longrightarrow> keeps_id (JObj kvs) (removeField t (JObj kvs))"
proof (cases "t_parent t = Some []")
  case True
  then show "spares_id t \<Longrightarrow> ?thesis"
    by (auto simp: removeField_def spares_id_def remove_from_def keeps_id_def reflect_get_def)
next
  case False
  then show "spares_id t \<Longrightarrow> ?thesis"
    by (cases "t_parent t"; cases "the (t_parent t)") (auto simp: removeField_def spares_id_def keeps_id_set)
qed

text \<open>What an operator other than \<open>$rename\<close> may do through its target.\<close>

definition touches :: "target \<Rightarrow> jsval \<Rightarrow> jsval \<Rightarrow> bool" where
  "touches t d r \<longleftrightarrow> r = d \<or> (\<exists>v. r = writeField t v d) \<or> r = removeField t d"

lemma touchesI: "touches t d d" "touches t d (writeField t v d)" "touches t d (removeField t d)"
  by (auto simp: touches_def)

lemma touches_keeps: "touches t (JObj kvs) r \<Longrightarrow> spares_id t \<Longrightarrow> keeps_id (JObj kvs) r"
  by (auto simp: touches_def write_keeps remove_keeps)

lemma arithmetic_touches: "result_all (touches t d) (arithmetic_operator op path a c t d)"
  unfolding arithmetic_operator_def by (intro result_intros) (simp_all add: touchesI)

lemma push_touches: "result_all (touches t d) (applyPush t a d)"
  unfolding applyPush_def by (intro result_intros touchesI)

lemma pull_touches: "result_all (touches t d) (pull_operator mh op path a c t d)"
  unfolding pull_operator_def by (intro result_intros touchesI)

lemma operator_keeps:
  assumes "hd (split_dot path) \<noteq> ''_id''"
    and "operator = ''$rename'' \<Longrightarrow> \<forall>to. argument = JStr to \<longrightarrow> hd (split_dot to) \<noteq> ''_id''"
  shows "result_all (keeps_id (JObj kvs)) (applyModifierOperator mh options (JObj kvs) operator path argument)"
proof -
  have step: "result_all (keeps_id (JObj kvs)) m"
    if mt: "modificationTarget (JObj kvs) path ai nc fa = Inr x" and x: "x = (d, t)" and m: "result_all (touches t d) m" for ai nc fa x d t m
  proof -
    have k: "keeps_id (JObj kvs) d" "spares_id t" using target_keeps [OF mt [unfolded x] assms(1)] by auto
    then obtain kvs' where d: "d = JObj kvs'" using keeps_id_obj by blast
    show ?thesis using m touches_keeps [of t kvs'] k keeps_id_trans unfolding d result_all_def by blast
  qed
  have rename: "result_all (keeps_id (JObj kvs)) (rename_operator path argument c t d)"
    if mt: "modificationTarget (JObj kvs) path ai nc fa = Inr x" and x: "x = (d, t)" and op: "operator = ''$rename''" for ai nc fa x d t c
  proof -
    have k: "keeps_id (JObj kvs) d" "spares_id t" using target_keeps [OF mt [unfolded x] assms(1)] by auto
    then obtain kvs' where d: "d = JObj kvs'" using keeps_id_obj by blast
    have k': "keeps_id (JObj kvs) (removeField t d)" using remove_keeps [OF k(2)] keeps_id_trans [OF k(1)] unfolding d by blast
    then obtain kvs'' where r: "removeField t d = JObj kvs''" using keeps_id_obj by blast
    have "keeps_id (JObj kvs) (writeField t' c d')"
      if "modificationTarget (removeField t d) to None False True = Inr (d', t')" "argument = JStr to" for to d' t'
    proof -
      have "keeps_id (JObj kvs'') d'" "spares_id t'" using target_keeps [of kvs'' to None False True d' t'] that assms(2) op r by auto
      then show ?thesis using k' write_keeps keeps_id_obj keeps_id_trans unfolding r by metis
    qed
    then show ?thesis unfolding rename_operator_def using k(1) by (intro result_intros) auto
  qed
  have leaf: "keeps_id (JObj kvs) r"
    if "modificationTarget (JObj kvs) path ai nc fa = Inr x" "x = (d, t)" "touches t d r" for ai nc fa x d t r
    using step [OF that(1,2), of "Inr r"] that(3) by (simp add: result_all_def)
  show ?thesis unfolding applyModifierOperator_def
    by (intro result_intros;
        (rule keeps_id_refl
        | (rule leaf, assumption, assumption, rule touchesI)
        | (rule step, assumption, assumption, (rule arithmetic_touches | rule push_touches | rule pull_touches))
        | (rule rename, assumption, assumption, simp split: if_splits)))
qed

definition renames_to_id :: "jsval \<Rightarrow> bool" where
  "renames_to_id modifier =
     (case get_prop modifier ''$rename'' of
        JObj entries \<Rightarrow> list_ex (\<lambda>(path, to). case to of JStr s \<Rightarrow> s = ''_id'' \<or> starts_with s ''_id.'' | _ \<Rightarrow> False) entries
      | _ \<Rightarrow> False)"

lemma entry_keeps:
  assumes "operator = ''$rename'' \<Longrightarrow> \<forall>to. argument = JStr to \<longrightarrow> hd (split_dot to) \<noteq> ''_id''"
    and "keeps_id d0 d" "apply_operator_entry mh options operator d (path, argument) = Inr d'"
  shows "keeps_id d0 d'"
proof -
  obtain kvs where d: "d = JObj kvs" using keeps_id_obj assms(2) by blast
  have "hd (split_dot path) \<noteq> ''_id''" and "applyModifierOperator mh options d operator path argument = Inr d'"
    using assms(3) first_part by (auto simp: apply_operator_entry_def split: if_splits)
  then have "keeps_id d d'" using operator_keeps [OF _ assms(1)] unfolding d by (blast dest: result_allD)
  then show ?thesis using keeps_id_trans assms(2) by blast
qed

lemma equal_undefined: "equalValues False v JUndef \<Longrightarrow> v = JUndef"
  by (cases v) (auto simp: equalValues.simps areBothNaN_def isObjectRecord_def split: if_splits)

lemma modify_id:
  assumes "modifyDocument mh options document modifier = Inr d'" "\<not> renames_to_id modifier"
  shows "keeps_id (JObj document) d'"
proof -
  obtain cloned where c: "modifier = JObj cloned" using assms(1) by (cases modifier) (auto simp: modifyDocument_def)
  let ?ops = "filter (\<lambda>key. starts_with key ''$'') (map fst cloned)"
  have id: "obj_get cloned ''_id'' = JUndef"
    if "obj_get document ''_id'' = JUndef" "\<not> (jm_has cloned ''_id'' \<and> \<not> equalValues False (obj_get cloned ''_id'') JUndef)"
    using that equal_undefined by (auto simp: jm_has_def obj_get_def split: option.splits)
  show ?thesis
  proof (cases "?ops = []")
    case True
    then show ?thesis using assms(1) id c
      by (auto simp: modifyDocument_def Let_def rbind_eq_Inr keeps_id_def reflect_get_def simp del: cloneValue.simps split: if_splits)
  next
    case False
    then have run: "rfoldl (\<lambda>document operator.
               case obj_get cloned operator of
                 JObj entries \<Rightarrow> rfoldl (apply_operator_entry mh options operator) document entries
               | _ \<Rightarrow> Inl (LocalCollectionError (''Modifier '' @ operator @ '' argument must be an object'') None))
             (JObj document) ?ops = Inr d'"
      using assms(1) c by (simp add: modifyDocument_def Let_def del: cloneValue.simps split: if_splits)
    have safe: "\<forall>to. argument = JStr to \<longrightarrow> hd (split_dot to) \<noteq> ''_id''"
      if "operator = ''$rename''" "obj_get cloned operator = JObj entries" "(path, argument) \<in> set entries" for operator entries path argument
      using that assms(2) c first_part by (fastforce simp: renames_to_id_def obj_get_def list_ex_iff split: option.splits)
    show ?thesis
    proof (rule rfoldl_invariant [OF run])
      fix d operator d1
      assume d: "keeps_id (JObj document) d" and step: "(case obj_get cloned operator of
                 JObj entries \<Rightarrow> rfoldl (apply_operator_entry mh options operator) d entries
               | _ \<Rightarrow> Inl (LocalCollectionError (''Modifier '' @ operator @ '' argument must be an object'') None)) = Inr d1"
      then obtain entries where e: "obj_get cloned operator = JObj entries"
        and r: "rfoldl (apply_operator_entry mh options operator) d entries = Inr d1" by (auto split: jsval.splits)
      show "keeps_id (JObj document) d1"
      proof (rule rfoldl_invariant [where P = "keeps_id (JObj document)", OF r d])
        fix d2 x d3
        assume "x \<in> set entries" "keeps_id (JObj document) d2" "apply_operator_entry mh options operator d2 x = Inr d3"
        then show "keeps_id (JObj document) d3"
          using entry_keeps [of operator "snd x" "JObj document" d2 mh options "fst x" d3] safe [of operator entries "fst x" "snd x"] e by auto
      qed
    qed simp
  qed
qed

text \<open>
  C35: No modifier changes the identity of a document: whatever operators it applies, and also when it
  replaces the whole document, a successful modification leaves \<open>_id\<close> as it was, unless it
  contains a \<open>$rename\<close> onto \<open>_id\<close>.
\<close>

theorem modifier_preserves_id:
  assumes "modifyDocument mh options document modifier = Inr document'" "\<not> renames_to_id modifier"
  shows "\<exists>kvs. document' = JObj kvs \<and> obj_get kvs ''_id'' = obj_get document ''_id''"
proof -
  have k: "keeps_id (JObj document) document'" by (rule modify_id [OF assms])
  then obtain kvs where "document' = JObj kvs" using keeps_id_obj by blast
  then show ?thesis using k by (simp add: keeps_id_def reflect_get_def)
qed

abbreviation update_options :: modify_options where
  "update_options \<equiv> \<lparr>mo_isInsert = False, mo_arrayIndices = None, mo_now = Fin 0\<rparr>"

lemmas modifier_eval = modifyDocument_def apply_operator_entry_def applyModifierOperator_def modificationTarget_def
  resolve_part_def positions_def indices_def List.map_filter_def readField_def writeField_def removeField_def remove_from_def
  reflect_get_def reflect_set_def obj_get_def obj_set_def jm_has_def starts_with_def assertValidFieldNames.simps Let_def

theorem modifier_preserves_id_witness:
  "modifyDocument sample_matcher_host update_options [(''_id'', JStr ''k''), (''n'', jint 1)] (JObj [(''$inc'', JObj [(''n'', jint 2)])]) =
     Inr (JObj [(''_id'', JStr ''k''), (''n'', jint 3)]) \<and>
   (\<exists>kvs. JObj [(''_id'', JStr ''k''), (''n'', jint 3)] = JObj kvs \<and> obj_get kvs ''_id'' = JStr ''k'')"
proof -
  have run: "modifyDocument sample_matcher_host update_options [(''_id'', JStr ''k''), (''n'', jint 1)] (JObj [(''$inc'', JObj [(''n'', jint 2)])]) =
     Inr (JObj [(''_id'', JStr ''k''), (''n'', jint 3)])"
    by (simp add: modifier_eval arithmetic_operator_def)
  moreover have "\<not> renames_to_id (JObj [(''$inc'', JObj [(''n'', jint 2)])])" by (simp add: renames_to_id_def obj_get_def)
  ultimately show ?thesis using modifier_preserves_id [OF run] by (simp add: obj_get_def)
qed

text \<open>
  A \<open>$rename\<close> onto \<open>_id\<close> is accepted and replaces the identity of the document, although every
  other way of writing \<open>_id\<close> is rejected with an error.
\<close>

theorem rename_replaces_id:
  "modifyDocument mh options [(''_id'', JStr ''a''), (''name'', JStr ''b'')] (JObj [(''$rename'', JObj [(''name'', JStr ''_id'')])]) =
     Inr (JObj [(''_id'', JStr ''b'')]) \<and>
   modifyDocument mh options [(''_id'', JStr ''a''), (''name'', JStr ''b'')] (JObj [(''$set'', JObj [(''_id'', JStr ''b'')])]) =
     Inl (LocalCollectionError ''Mod on _id not allowed'' None)"
  by (simp add: modifier_eval rename_operator_def null_byte_def)

text \<open>
  \<open>$addToSet\<close> with \<open>$each\<close> removes duplicates when the field exists, and keeps the duplicates of
  its argument when the field is missing.
\<close>

theorem addToSet_each_missing_field:
  "modifyDocument mh options [(''_id'', JStr ''a''), (''tags'', JArr [])] (JObj [(''$addToSet'', JObj [(''tags'', JObj [(''$each'', JArr [jint 1, jint 1])])])]) =
     Inr (JObj [(''_id'', JStr ''a''), (''tags'', JArr [jint 1])]) \<and>
   modifyDocument mh options [(''_id'', JStr ''a'')] (JObj [(''$addToSet'', JObj [(''tags'', JObj [(''$each'', JArr [jint 1, jint 1])])])]) =
     Inr (JObj [(''_id'', JStr ''a''), (''tags'', JArr [jint 1, jint 1])])"
  by (simp add: modifier_eval add_to_set_def equalValues.simps array_index_def is_digit_def)

end
