(* ===== verification/MiniStore.thy ===== *)
theory MiniStore
  imports MiniModProps
begin

text \<open>
  The document store and the local collection (\<open>document-store.ts\<close>, \<open>identity.ts\<close>,
  \<open>local-collection.ts\<close> and \<open>immutable.ts\<close> of \<open>src/minimongo\<close>). Values of the model are immutable trees, so
  cloning and freezing are identities. A mutation returns the collection it leaves behind, the
  events and observer notifications it makes in order, and its result or error: an error does
  not undo what was stored before it. Listeners and observers do not call back into the
  collection while it is mutating. The random identity and the clock are arguments.
\<close>

section \<open>Document store\<close>

definition id_stringify :: "string \<Rightarrow> string" where
  "id_stringify i = i"

record doc_store =
  ds_documents :: "(string, jsobj) jsmap"
  ds_identities :: "(string, string) jsmap"

definition empty_store :: doc_store where
  "empty_store = \<lparr>ds_documents = [], ds_identities = []\<rparr>"

definition ds_size :: "doc_store \<Rightarrow> nat" where
  "ds_size st = length (ds_documents st)"

definition ds_has :: "doc_store \<Rightarrow> string \<Rightarrow> bool" where
  "ds_has st i = jm_has (ds_documents st) (id_stringify i)"

definition ds_get :: "doc_store \<Rightarrow> string \<Rightarrow> jsobj option" where
  "ds_get st i = jm_get (ds_documents st) (id_stringify i)"

definition ds_set :: "string \<Rightarrow> jsobj \<Rightarrow> doc_store \<Rightarrow> doc_store" where
  "ds_set i document st =
     (let key = id_stringify i in
      st\<lparr>ds_identities := jm_set key i (ds_identities st), ds_documents := jm_set key document (ds_documents st)\<rparr>)"

definition ds_delete :: "string \<Rightarrow> doc_store \<Rightarrow> doc_store \<times> bool" where
  "ds_delete i st =
     (let key = id_stringify i in
      (st\<lparr>ds_identities := jm_delete key (ds_identities st), ds_documents := jm_delete key (ds_documents st)\<rparr>,
       jm_has (ds_documents st) key))"

definition ds_clear :: "doc_store \<Rightarrow> doc_store" where
  "ds_clear st = st\<lparr>ds_documents := [], ds_identities := []\<rparr>"

definition ds_entries :: "doc_store \<Rightarrow> (string \<times> jsobj) list" where
  "ds_entries st =
     List.map_filter (\<lambda>(key, document). map_option (\<lambda>i. (i, document)) (jm_get (ds_identities st) key)) (ds_documents st)"

definition ds_clone :: "doc_store \<Rightarrow> doc_store" where
  "ds_clone st = foldl (\<lambda>result (i, document). ds_set i document result) empty_store (ds_entries st)"

section \<open>Identities\<close>

definition is_hex :: "char \<Rightarrow> bool" where
  "is_hex c \<longleftrightarrow> is_digit c \<or> (CHR ''a'' \<le> c \<and> c \<le> CHR ''f'')"

definition local_id :: "string \<Rightarrow> bool" where
  "local_id s \<longleftrightarrow> length s = 24 \<and> list_all is_hex s"

definition assertLocalId :: "jsval \<Rightarrow> string js" where
  "assertLocalId v =
     (case v of
        JStr s \<Rightarrow>
          if local_id s then Inr s
          else Inl (TypeError ''Local collection _id must be a lowercase 24-character hexadecimal string.'')
      | _ \<Rightarrow> Inl (TypeError ''Local collection _id must be a lowercase 24-character hexadecimal string.''))"

text \<open>Twelve random bytes in hexadecimal.\<close>

definition hex_digit :: "nat \<Rightarrow> char" where
  "hex_digit n = (if n < 10 then char_of (n + 48) else char_of (n + 87))"

definition randomId :: "8 word list \<Rightarrow> string" where
  "randomId bytes = concat (map (\<lambda>byte. [hex_digit (unat byte div 16), hex_digit (unat byte mod 16)]) bytes)"

section \<open>The collection\<close>

datatype coll_effect =
    InsertEvent jsobj
  | UpdateEvent jsobj jsobj
  | RemoveEvent jsobj
  | NotifyObservers

type_synonym 'a mutation = "doc_store \<times> coll_effect list \<times> 'a js"

definition documents :: "doc_store \<Rightarrow> jsobj list" where
  "documents st = map snd (ds_entries st)"

definition prepareInsert :: "string \<Rightarrow> jsobj \<Rightarrow> doc_store \<Rightarrow> (doc_store \<times> jsobj \<times> string) js" where
  "prepareInsert rid document st =
     rbind (assertValidFieldNames (JObj document)) (\<lambda>_.
       (let identified = (if obj_get document ''_id'' \<in> {JUndef, JNull}
                          then obj_set ''_id'' (JStr rid) document else document)
        in rbind (assertLocalId (obj_get identified ''_id'')) (\<lambda>i.
             if ds_has st i then Inl (LocalCollectionError (''Duplicate _id '' @ i) None)
             else Inr (ds_set i identified st, identified, i))))"

definition insert_document :: "string \<Rightarrow> jsobj \<Rightarrow> doc_store \<Rightarrow> string mutation" where
  "insert_document rid document st =
     (case prepareInsert rid document st of
        Inl e \<Rightarrow> (st, [], Inl e)
      | Inr (st', stored, i) \<Rightarrow> (st', [InsertEvent stored, NotifyObservers], Inr i))"

definition matchedDocuments :: "matcher_host \<Rightarrow> jsval \<Rightarrow> doc_store \<Rightarrow> jsobj list js" where
  "matchedDocuments mh selector st =
     rbind (compileSelector (mh\<lparr>mh_collator := None\<rparr>) True selector) (\<lambda>m.
       rfilter (\<lambda>document. rbind (documentMatches m (JObj document)) (\<lambda>r. Inr (m_result r))) (documents st))"

definition document_id :: "jsobj \<Rightarrow> string" where
  "document_id document = (case obj_get document ''_id'' of JStr s \<Rightarrow> s | _ \<Rightarrow> [])"

definition remove_documents :: "matcher_host \<Rightarrow> jsval \<Rightarrow> doc_store \<Rightarrow> nat mutation" where
  "remove_documents mh selector st =
     (case matchedDocuments mh selector st of
        Inl e \<Rightarrow> (st, [], Inl e)
      | Inr matches \<Rightarrow>
          (foldl (\<lambda>st document. fst (ds_delete (document_id document) st)) st matches,
           map RemoveEvent matches @ [NotifyObservers],
           Inr (length matches)))"

text \<open>
  One turn of the update loop: the selector is compiled again to find the array positions of the
  match, the modifier runs on a copy, and the result is stored under the old identity.
\<close>

definition update_one :: "matcher_host \<Rightarrow> jsnum \<Rightarrow> jsval \<Rightarrow> jsval \<Rightarrow> jsobj \<Rightarrow> jsobj js" where
  "update_one mh now selector modifier previous =
     rbind (compileSelector (mh\<lparr>mh_collator := None\<rparr>) True selector) (\<lambda>m.
       rbind (documentMatches m (JObj previous)) (\<lambda>match.
         rbind (modifyDocument mh \<lparr>mo_isInsert = False, mo_arrayIndices = m_arrayIndices match, mo_now = now\<rparr> previous modifier) (\<lambda>v.
           case v of JObj kvs \<Rightarrow> Inr kvs | _ \<Rightarrow> Inl (TypeError ''not a document''))))"

fun update_loop ::
  "matcher_host \<Rightarrow> jsnum \<Rightarrow> jsval \<Rightarrow> jsval \<Rightarrow> bool \<Rightarrow> jsobj list \<Rightarrow> doc_store \<Rightarrow> (jsobj \<times> jsobj) list
   \<Rightarrow> doc_store \<times> (jsobj \<times> jsobj) list js" where
  "update_loop mh now selector modifier multi [] st updates = (st, Inr updates)"
| "update_loop mh now selector modifier multi (previous # matches) st updates =
     (case update_one mh now selector modifier previous of
        Inl e \<Rightarrow> (st, Inl e)
      | Inr document \<Rightarrow>
          (let st' = ds_set (document_id previous) document st; updates' = updates @ [(previous, document)] in
           if \<not> multi then (st', Inr updates')
           else update_loop mh now selector modifier multi matches st' updates'))"

definition update_documents :: "matcher_host \<Rightarrow> jsnum \<Rightarrow> jsval \<Rightarrow> jsval \<Rightarrow> bool \<Rightarrow> doc_store \<Rightarrow> nat mutation" where
  "update_documents mh now selector modifier multi st =
     (case matchedDocuments mh selector st of
        Inl e \<Rightarrow> (st, [], Inl e)
      | Inr matches \<Rightarrow>
          (case update_loop mh now selector modifier multi matches st [] of
             (st', Inl e) \<Rightarrow> (st', [], Inl e)
           | (st', Inr updates) \<Rightarrow>
               (st', if updates = [] then [] else map (\<lambda>(p, d). UpdateEvent p d) updates @ [NotifyObservers], Inr (length updates))))"

definition upsert_document ::
  "matcher_host \<Rightarrow> jsnum \<Rightarrow> string \<Rightarrow> jsval \<Rightarrow> jsval \<Rightarrow> bool \<Rightarrow> string option \<Rightarrow> doc_store \<Rightarrow> (nat \<times> string option) mutation" where
  "upsert_document mh now rid selector modifier multi insertedId st =
     (case update_documents mh now selector modifier multi st of
        (st', effects, Inl e) \<Rightarrow> (st', effects, Inl e)
      | (st', effects, Inr n) \<Rightarrow>
          if n > 0 then (st', effects, Inr (n, None))
          else
            (case createUpsertDocument mh now selector modifier of
               Inl e \<Rightarrow> (st', effects, Inl e)
             | Inr v \<Rightarrow>
                 (let created = (case v of JObj kvs \<Rightarrow> kvs | _ \<Rightarrow> []);
                      document = (case insertedId of
                                    Some i \<Rightarrow> if \<not> truthy (obj_get created ''_id'') then obj_set ''_id'' (JStr i) created else created
                                  | None \<Rightarrow> created)
                  in case prepareInsert rid document st' of
                       Inl e \<Rightarrow> (st', effects, Inl e)
                     | Inr (st'', stored, i) \<Rightarrow> (st'', effects @ [InsertEvent stored, NotifyObservers], Inr (1, Some i)))))"

section \<open>The store contract\<close>

text \<open>What the collection relies on: a map from identities to documents, listed in insertion order.\<close>

locale document_store_contract =
  fixes get_doc :: "'s \<Rightarrow> 'i \<Rightarrow> 'd option" and set_doc :: "'i \<Rightarrow> 'd \<Rightarrow> 's \<Rightarrow> 's"
    and delete_doc :: "'i \<Rightarrow> 's \<Rightarrow> 's" and list_docs :: "'s \<Rightarrow> ('i \<times> 'd) list" and valid :: "'s \<Rightarrow> bool"
  assumes get_set: "valid s \<Longrightarrow> get_doc (set_doc i d s) j = (if j = i then Some d else get_doc s j)"
    and get_delete: "valid s \<Longrightarrow> get_doc (delete_doc i s) j = (if j = i then None else get_doc s j)"
    and valid_set: "valid s \<Longrightarrow> valid (set_doc i d s)"
    and valid_delete: "valid s \<Longrightarrow> valid (delete_doc i s)"
    and listed: "valid s \<Longrightarrow> map_of (list_docs s) = get_doc s"
    and list_distinct: "valid s \<Longrightarrow> distinct (map fst (list_docs s))"
begin

lemma delete_all:
  "valid s \<Longrightarrow> valid (foldl (\<lambda>s i. delete_doc i s) s is) \<and>
     get_doc (foldl (\<lambda>s i. delete_doc i s) s is) j = (if j \<in> set is then None else get_doc s j)"
  by (induction "is" arbitrary: s) (auto simp: get_delete valid_delete)

lemma listed_iff: "valid s \<Longrightarrow> (i, d) \<in> set (list_docs s) \<longleftrightarrow> get_doc s i = Some d"
  using listed list_distinct by (metis map_of_eq_Some_iff)

end

definition store_valid :: "doc_store \<Rightarrow> bool" where
  "store_valid st \<longleftrightarrow> jm_wf (ds_documents st) \<and>
     (\<forall>key. jm_get (ds_identities st) key = (if jm_has (ds_documents st) key then Some key else None))"

lemma ds_entries_valid: "store_valid st \<Longrightarrow> ds_entries st = ds_documents st"
proof -
  assume v: "store_valid st"
  have "List.map_filter (\<lambda>(key, document). map_option (\<lambda>i. (i, document)) (jm_get (ds_identities st) key)) kvs = kvs"
    if "set kvs \<subseteq> set (ds_documents st)" for kvs
    using that
  proof (induction kvs)
    case (Cons kd kvs)
    then have "jm_get (ds_identities st) (fst kd) = Some (fst kd)" using v by (auto simp: store_valid_def jm_has_iff)
    then show ?case using Cons by (simp add: List.map_filter_simps case_prod_unfold)
  qed (simp add: List.map_filter_simps)
  then show ?thesis by (simp add: ds_entries_def)
qed

interpretation memory_store: document_store_contract ds_get ds_set "\<lambda>i st. fst (ds_delete i st)" ds_entries store_valid
proof
  fix st :: doc_store and i j d
  assume v: "store_valid st"
  show "ds_get (ds_set i d st) j = (if j = i then Some d else ds_get st j)"
    by (simp add: ds_get_def ds_set_def id_stringify_def Let_def)
  show "ds_get (fst (ds_delete i st)) j = (if j = i then None else ds_get st j)"
    by (simp add: ds_get_def ds_delete_def id_stringify_def Let_def)
  show "store_valid (ds_set i d st)"
    using v by (auto simp: store_valid_def ds_set_def id_stringify_def Let_def jm_has_def)
  show "store_valid (fst (ds_delete i st))"
    using v by (auto simp: store_valid_def ds_delete_def id_stringify_def Let_def jm_has_def)
  show "map_of (ds_entries st) = ds_get st"
    using v by (auto simp: ds_entries_valid ds_get_def id_stringify_def)
  show "distinct (map fst (ds_entries st))"
    using v by (simp add: ds_entries_valid) (simp add: store_valid_def jm_wf_def)
qed

section \<open>The identity invariant\<close>

definition collection_ok :: "doc_store \<Rightarrow> bool" where
  "collection_ok st \<longleftrightarrow> store_valid st \<and>
     (\<forall>i d. ds_get st i = Some d \<longrightarrow> local_id i \<and> obj_get d ''_id'' = JStr i)"

lemma collection_okD:
  assumes "collection_ok st" "d \<in> set (documents st)"
  shows "ds_get st (document_id d) = Some d \<and> obj_get d ''_id'' = JStr (document_id d) \<and> local_id (document_id d)"
proof -
  obtain i where "(i, d) \<in> set (ds_entries st)" using assms(2) by (auto simp: documents_def)
  then have "ds_get st i = Some d" using assms(1) memory_store.listed_iff by (simp add: collection_ok_def)
  then show ?thesis using assms(1) by (auto simp: collection_ok_def document_id_def)
qed

lemma collection_ok_empty: "collection_ok empty_store"
  by (simp add: collection_ok_def store_valid_def empty_store_def ds_get_def jm_has_def)

lemma collection_ok_set:
  "collection_ok st \<Longrightarrow> local_id i \<Longrightarrow> obj_get d ''_id'' = JStr i \<Longrightarrow> collection_ok (ds_set i d st)"
  using memory_store.valid_set memory_store.get_set by (auto simp: collection_ok_def split: if_splits)

lemma rfilter_subset: "rfilter p xs = Inr ys \<Longrightarrow> set ys \<subseteq> set xs"
  by (induction xs arbitrary: ys) (fastforce simp: rbind_eq_Inr split: if_splits)+

lemma matched_subset: "matchedDocuments mh selector st = Inr ms \<Longrightarrow> set ms \<subseteq> set (documents st)"
  by (auto simp: matchedDocuments_def rbind_eq_Inr dest!: rfilter_subset)

lemma prepare_ok:
  assumes "collection_ok st" "prepareInsert r document st = Inr (st', stored, i)"
  shows "collection_ok st' \<and> st' = ds_set i stored st \<and> ds_get st i = None \<and> obj_get stored ''_id'' = JStr i"
proof -
  have "assertLocalId (obj_get stored ''_id'') = Inr i" "st' = ds_set i stored st" "\<not> ds_has st i"
    using assms(2) by (auto simp: prepareInsert_def rbind_eq_Inr Let_def split: if_splits)
  moreover from this have "obj_get stored ''_id'' = JStr i \<and> local_id i"
    by (auto simp: assertLocalId_def split: jsval.splits if_splits)
  ultimately show ?thesis using collection_ok_set [OF assms(1)] by (auto simp: ds_has_def ds_get_def jm_has_def)
qed

lemma remove_store:
  assumes "collection_ok st" "set ms \<subseteq> set (documents st)"
  shows "collection_ok (foldl (\<lambda>st document. fst (ds_delete (document_id document) st)) st ms) \<and>
    ds_get (foldl (\<lambda>st document. fst (ds_delete (document_id document) st)) st ms) j =
      (if j \<in> document_id ` set ms then None else ds_get st j)"
proof -
  have "foldl (\<lambda>st document. fst (ds_delete (document_id document) st)) st ms =
      foldl (\<lambda>s i. fst (ds_delete i s)) st (map document_id ms)"
    by (induction ms arbitrary: st) auto
  then show ?thesis using assms(1) memory_store.delete_all [of st "map document_id ms"]
    by (auto simp: collection_ok_def)
qed

lemma update_one_id:
  assumes "update_one mh now selector modifier previous = Inr d" "\<not> renames_to_id modifier"
  shows "obj_get d ''_id'' = obj_get previous ''_id''"
proof -
  obtain options v where "modifyDocument mh options previous modifier = Inr v"
    and "(case v of JObj kvs \<Rightarrow> Inr kvs | _ \<Rightarrow> Inl (TypeError ''not a document'')) = Inr d"
    using assms(1) unfolding update_one_def rbind_eq_Inr by blast
  moreover from this(2) have "v = JObj d" by (cases v) simp_all
  ultimately show ?thesis using modify_id [of mh options previous modifier v] assms(2) by (simp add: keeps_id_def reflect_get_def)
qed

lemma update_loop_ok:
  assumes "collection_ok st" "\<forall>d \<in> set ms. local_id (document_id d) \<and> obj_get d ''_id'' = JStr (document_id d)"
    and "\<not> renames_to_id modifier" "update_loop mh now selector modifier multi ms st us = (st', r)"
  shows "collection_ok st'"
  using assms
proof (induction ms arbitrary: st us)
  case (Cons m ms)
  show ?case
  proof (cases "update_one mh now selector modifier m")
    case (Inr d)
    have "collection_ok (ds_set (document_id m) d st)"
      using collection_ok_set [OF Cons.prems(1)] update_one_id [OF Inr Cons.prems(3)] Cons.prems(2) by simp
    then show ?thesis using Cons.IH Cons.prems Inr by (auto simp: Let_def split: if_splits)
  qed (use Cons.prems in simp)
qed simp

lemma update_ok:
  assumes "collection_ok st" "\<not> renames_to_id modifier" "update_documents mh now selector modifier multi st = (st', es, r)"
  shows "collection_ok st'"
proof (cases "matchedDocuments mh selector st")
  case (Inr ms)
  have "\<forall>d \<in> set ms. local_id (document_id d) \<and> obj_get d ''_id'' = JStr (document_id d)"
    using matched_subset [OF Inr] collection_okD [OF assms(1)] by blast
  then show ?thesis using assms Inr update_loop_ok [OF assms(1) _ assms(2)]
    by (auto simp: update_documents_def split: prod.splits sum.splits)
qed (use assms in \<open>auto simp: update_documents_def\<close>)

lemma upsert_ok:
  assumes "collection_ok st" "\<not> renames_to_id modifier"
    and "upsert_document mh now rid selector modifier multi inserted st = (st', es, r)"
  shows "collection_ok st'"
proof -
  obtain st1 es1 r1 where u: "update_documents mh now selector modifier multi st = (st1, es1, r1)"
    by (cases "update_documents mh now selector modifier multi st") auto
  have "collection_ok st1" by (rule update_ok [OF assms(1,2) u])
  then show ?thesis using assms(3) prepare_ok u
    by (auto simp: upsert_document_def Let_def split: sum.splits if_splits prod.splits)
qed

text \<open>Histories of a collection, with any selectors, modifiers and failures.\<close>

inductive collection_run :: "doc_store \<Rightarrow> bool" where
  created: "collection_run empty_store"
| insert: "collection_run st \<Longrightarrow> insert_document rid document st = (st', es, r) \<Longrightarrow> collection_run st'"
| remove: "collection_run st \<Longrightarrow> remove_documents mh selector st = (st', es, r) \<Longrightarrow> collection_run st'"
| update: "collection_run st \<Longrightarrow> \<not> renames_to_id modifier \<Longrightarrow>
    update_documents mh now selector modifier multi st = (st', es, r) \<Longrightarrow> collection_run st'"
| upsert: "collection_run st \<Longrightarrow> \<not> renames_to_id modifier \<Longrightarrow>
    upsert_document mh now rid selector modifier multi inserted st = (st', es, r) \<Longrightarrow> collection_run st'"

lemma collection_run_ok: "collection_run st \<Longrightarrow> collection_ok st"
proof (induction rule: collection_run.induct)
  case (insert st rid document st' es r)
  then show ?case using prepare_ok [of st rid document] by (auto simp: insert_document_def split: sum.splits)
next
  case (remove st mh selector st' es r)
  then show ?case using remove_store matched_subset by (auto simp: remove_documents_def split: sum.splits)
next
  case created
  then show ?case by (rule collection_ok_empty)
next
  case (update st modifier mh now selector multi st' es r)
  then show ?case using update_ok by blast
next
  case (upsert st modifier mh now rid selector multi inserted st' es r)
  then show ?case using upsert_ok by blast
qed


text \<open>
  Removing by a selector deletes exactly the documents the selector matches: they are gone, every
  other document is still there, and the result and the events list the deleted ones.
\<close>

theorem remove_deletes_matches:
  assumes "collection_run st" "matchedDocuments mh selector st = Inr matches"
  shows "\<exists>st'. remove_documents mh selector st = (st', map RemoveEvent matches @ [NotifyObservers], Inr (length matches)) \<and>
    (\<forall>d \<in> set (documents st). ds_get st' (document_id d) = (if d \<in> set matches then None else Some d)) \<and>
    set (documents st') = set (documents st) - set matches"
proof -
  let ?st' = "foldl (\<lambda>st document. fst (ds_delete (document_id document) st)) st matches"
  have ok: "collection_ok st" by (rule collection_run_ok [OF assms(1)])
  note sub = matched_subset [OF assms(2)]
  note store = remove_store [OF ok sub]
  have inj: "document_id d \<in> document_id ` set matches \<longleftrightarrow> d \<in> set matches" if "d \<in> set (documents st)" for d
    using collection_okD [OF ok that] collection_okD [OF ok] sub by (metis (no_types, lifting) image_iff option.inject subsetD)
  have docs: "d \<in> set (documents s) \<longleftrightarrow> ds_get s (document_id d) = Some d \<and> obj_get d ''_id'' = JStr (document_id d)"
    if "collection_ok s" for s d
  proof
    assume "ds_get s (document_id d) = Some d \<and> obj_get d ''_id'' = JStr (document_id d)"
    then have "(document_id d, d) \<in> set (ds_entries s)" using that memory_store.listed_iff by (simp add: collection_ok_def)
    then show "d \<in> set (documents s)" by (force simp: documents_def)
  qed (use collection_okD [OF that] in blast)
  have "\<forall>d \<in> set (documents st). ds_get ?st' (document_id d) = (if d \<in> set matches then None else Some d)"
    using store inj collection_okD [OF ok] by simp
  moreover have "set (documents ?st') = set (documents st) - set matches"
    using docs [OF ok] docs [of ?st'] store inj by (auto split: if_splits)
  ultimately show ?thesis using assms(2) by (simp add: remove_documents_def)
qed

lemma rfilter_Inr: "(\<And>x. x \<in> set xs \<Longrightarrow> p x = Inr (q x)) \<Longrightarrow> rfilter p xs = Inr (filter q xs)"
  by (induction xs) auto

lemma matched_by_id:
  assumes "collection_ok st"
  shows "matchedDocuments mh (JStr i) st = Inr (filter (\<lambda>d. document_id d = i) (documents st))"
proof -
  have "equal (mh\<lparr>mh_collator := None\<rparr>) (JStr i) (get_prop (JObj d) ''_id'') \<longleftrightarrow> document_id d = i" if "d \<in> set (documents st)" for d
  proof -
    have "get_prop (JObj d) ''_id'' = JStr (document_id d)" using collection_okD [OF assms(1) that] by (simp add: obj_get_def)
    then show ?thesis using equalValues_iff [of "JStr i" "JStr (document_id d)"] by (auto simp: equal_def nullish_def)
  qed
  then show ?thesis unfolding matchedDocuments_def
    by (simp add: compileSelector_def documentMatches_def del: get_prop.simps) (rule rfilter_Inr, simp)
qed

text \<open>
  A document that was inserted is found by its identity: after a successful insert the selector
  that is the returned identity matches exactly the stored document, which is the given one with
  its identity.
\<close>

theorem insert_then_found_by_id:
  assumes "collection_run st" "insert_document rid document st = (st', es, Inr i)"
  shows "\<exists>stored. matchedDocuments mh (JStr i) st' = Inr [stored] \<and> es = [InsertEvent stored, NotifyObservers] \<and>
    (\<forall>k. k \<noteq> ''_id'' \<longrightarrow> obj_get stored k = obj_get document k)"
proof -
  have ok: "collection_ok st" by (rule collection_run_ok [OF assms(1)])
  obtain stored where p: "prepareInsert rid document st = Inr (st', stored, i)" and es: "es = [InsertEvent stored, NotifyObservers]"
    using assms(2) by (auto simp: insert_document_def split: sum.splits)
  note st' = prepare_ok [OF ok p]
  have valid: "store_valid st" "store_valid st'" using ok st' by (auto simp: collection_ok_def)
  have "i \<notin> set (map fst (ds_documents st))" using st' by (simp add: ds_get_def id_stringify_def map_of_eq_None_iff)
  then have "ds_documents st' = ds_documents st @ [(i, stored)]"
    using st' by (simp add: ds_set_def id_stringify_def Let_def jm_set_fresh)
  then have docs: "documents st' = documents st @ [stored]" using valid by (simp add: documents_def ds_entries_valid)
  have "document_id stored = i" using st' by (simp add: document_id_def)
  moreover have "document_id d \<noteq> i" if "d \<in> set (documents st)" for d using collection_okD [OF ok that] st' by auto
  ultimately have "filter (\<lambda>d. document_id d = i) (documents st') = [stored]" by (simp add: docs)
  then have "matchedDocuments mh (JStr i) st' = Inr [stored]" using matched_by_id [of st' mh i] st' by metis
  moreover have "\<forall>k. k \<noteq> ''_id'' \<longrightarrow> obj_get stored k = obj_get document k"
    using p by (auto simp: prepareInsert_def rbind_eq_Inr Let_def split: if_splits)
  ultimately show ?thesis using es by blast
qed

section \<open>Instances and failures\<close>

definition sample_id :: string where
  "sample_id = replicate 24 (CHR ''a'')"

definition other_id :: string where
  "other_id = replicate 24 (CHR ''b'')"

lemma sample_ids: "local_id sample_id" "local_id other_id" "sample_id \<noteq> other_id"
  by (simp_all add: local_id_def is_hex_def sample_id_def other_id_def less_eq_char_def list_all_iff)

definition sample_store :: doc_store where
  "sample_store = fst (insert_document sample_id [(''n'', jint 1)] empty_store)"

lemma valid_names: "assertValidFieldNames (JObj [(''n'', JNum z)]) = Inr ()"
  by (simp add: assertValidFieldNames.simps invalidFieldNameReason_def starts_with_def ends_with_def null_byte_def)

lemma sample_insert:
  "insert_document sample_id [(''n'', jint 1)] empty_store =
     (\<lparr>ds_documents = [(sample_id, [(''n'', jint 1), (''_id'', JStr sample_id)])], ds_identities = [(sample_id, sample_id)]\<rparr>,
      [InsertEvent [(''n'', jint 1), (''_id'', JStr sample_id)], NotifyObservers], Inr sample_id)"
  by (simp add: insert_document_def prepareInsert_def valid_names obj_get_def obj_set_def jm_has_def array_index_def is_digit_def
      assertLocalId_def sample_ids ds_has_def empty_store_def ds_set_def id_stringify_def Let_def)

lemma sample_run: "collection_run sample_store"
  using collection_run.insert [OF collection_run.created sample_insert] by (simp only: sample_store_def sample_insert fst_conv)


theorem remove_deletes_matches_witness:
  "\<exists>st'. remove_documents sample_matcher_host (JStr sample_id) sample_store =
     (st', [RemoveEvent [(''n'', jint 1), (''_id'', JStr sample_id)], NotifyObservers], Inr 1)"
proof -
  have "documents sample_store = [[(''n'', jint 1), (''_id'', JStr sample_id)]]"
    by (simp add: sample_store_def sample_insert [simplified] documents_def ds_entries_def List.map_filter_def)
  then have "matchedDocuments sample_matcher_host (JStr sample_id) sample_store = Inr [[(''n'', jint 1), (''_id'', JStr sample_id)]]"
    using matched_by_id [OF collection_run_ok [OF sample_run], of sample_matcher_host sample_id]
    by (simp add: sample_matcher_host_def document_id_def obj_get_def)
  from remove_deletes_matches [OF sample_run this] show ?thesis by fastforce
qed

theorem insert_then_found_by_id_witness:
  "\<exists>stored. matchedDocuments sample_matcher_host (JStr sample_id) sample_store = Inr [stored] \<and> obj_get stored ''n'' = jint 1"
proof -
  from insert_then_found_by_id [OF collection_run.created sample_insert, of sample_matcher_host]
  obtain stored where "matchedDocuments sample_matcher_host (JStr sample_id) sample_store = Inr [stored]"
    "\<forall>k. k \<noteq> ''_id'' \<longrightarrow> obj_get stored k = obj_get [(''n'', jint 1)] k"
    unfolding sample_store_def sample_insert fst_conv by blast
  then show ?thesis by (intro exI [of _ stored]) (simp add: obj_get_def)
qed

text \<open>
  A multi-document update that fails on a later document keeps the documents it has already
  changed in the collection and emits no event for them, so observers never learn of the change.
\<close>

theorem failed_update_keeps_silent_changes:
  "let st = \<lparr>ds_documents = [(sample_id, [(''_id'', JStr sample_id), (''n'', jint 1)]), (other_id, [(''_id'', JStr other_id), (''n'', JStr ''x'')])],
             ds_identities = [(sample_id, sample_id), (other_id, other_id)]\<rparr>;
       (st', events, r) = update_documents mh now (JObj []) (JObj [(''$inc'', JObj [(''n'', jint 1)])]) True st
   in ds_get st sample_id = Some [(''_id'', JStr sample_id), (''n'', jint 1)] \<and>
      ds_get st' sample_id = Some [(''_id'', JStr sample_id), (''n'', jint 2)] \<and> events = [] \<and>
      r = Inl (LocalCollectionError ''Cannot apply $inc modifier to non-number'' (Some ''n''))"
proof -
  note update_eval = update_one_def compileSelector_def compileDocument.simps documentMatches_def modifier_eval arithmetic_operator_def collection_error_def
  have num: "update_one mh now (JObj []) (JObj [(''$inc'', JObj [(''n'', JNum (Fin 1))])]) [(''_id'', JStr i), (''n'', JNum (Fin 1))] =
      Inr [(''_id'', JStr i), (''n'', JNum (Fin 2))]" for i
    by (simp add: update_eval)
  have str: "update_one mh now (JObj []) (JObj [(''$inc'', JObj [(''n'', JNum (Fin 1))])]) [(''_id'', JStr i), (''n'', JStr s)] =
      Inl (LocalCollectionError ''Cannot apply $inc modifier to non-number'' (Some ''n''))" for i s
    by (simp add: update_eval)
  have matches: "matchedDocuments mh (JObj []) st = Inr (documents st)" for st
    by (simp add: matchedDocuments_def compileSelector_def compileDocument.simps documentMatches_def jm_has_def rfilter_Inr [where q = "\<lambda>_. True"])
  show ?thesis using sample_ids(3)
    by (simp add: update_documents_def matches documents_def ds_entries_def List.map_filter_def num str document_id_def obj_get_def
        ds_set_def ds_get_def id_stringify_def Let_def)
qed

lemma hex_digit_hex: "n < 16 \<Longrightarrow> is_hex (hex_digit n)"
proof -
  have "\<forall>n \<in> {..<16 :: nat}. is_hex (hex_digit n)" by code_simp
  then show "n < 16 \<Longrightarrow> is_hex (hex_digit n)" by simp
qed

lemma randomId_local: "length bytes = 12 \<Longrightarrow> local_id (randomId bytes)"
proof -
  have byte: "unat (b :: 8 word) div 16 < 16" for b using unsigned_less [of b, where ?'a = nat] by simp
  have len: "length (randomId bs) = 2 * length bs" for bs by (induction bs) (auto simp: randomId_def)
  have "list_all is_hex (randomId bs)" for bs
    using byte by (induction bs) (auto simp: randomId_def hex_digit_hex)
  then show "length bytes = 12 \<Longrightarrow> local_id (randomId bytes)" by (simp add: local_id_def len)
qed



end
