(* ===== verification/MiniProjection.thy ===== *)
theory MiniProjection
  imports MiniPath
begin

text \<open>
  Field projections of the local collections (\<open>src/minimongo/projection.ts\<close>). The rule tree is an object of
  the language whose leaves are booleans, so that its enumeration order is the one the code sees.
\<close>

section \<open>The rule tree\<close>

definition both_found :: "string list \<Rightarrow> string \<Rightarrow> js_error" where
  "both_found existing path = LocalCollectionError (''both '' @ join_dot existing @ '' and '' @ path @
     '' found in fields option, using both of them may trigger unexpected behavior. Did you mean to use only one of them?'') None"

fun tree_insert :: "bool \<Rightarrow> string \<Rightarrow> string list \<Rightarrow> string list \<Rightarrow> jsobj \<Rightarrow> jsobj js" where
  "tree_insert including path prefix [] node = Inr node"
| "tree_insert including path prefix (part # parts) node =
     (case obj_get node part of
        JUndef \<Rightarrow>
          if parts = [] then Inr (obj_set part (JBool including) node)
          else rbind (tree_insert including path (prefix @ [part]) parts []) (\<lambda>child. Inr (obj_set part (JObj child) node))
      | JObj existing \<Rightarrow>
          if parts = [] then Inl (both_found (prefix @ [part]) path)
          else rbind (tree_insert including path (prefix @ [part]) parts existing) (\<lambda>child. Inr (obj_set part (JObj child) node))
      | _ \<Rightarrow> Inl (both_found (prefix @ [part]) path))"

definition add_rule :: "jsobj \<Rightarrow> bool \<Rightarrow> jsobj \<Rightarrow> string \<Rightarrow> jsobj js" where
  "add_rule projection including tree path =
     (if truthy (obj_get projection path) \<noteq> including
      then Inl (LocalCollectionError ''You cannot currently mix including and excluding fields.'' None)
      else tree_insert including path [] (split_dot path) tree)"

definition projectionDetails :: "jsobj \<Rightarrow> (bool \<times> jsobj) js" where
  "projectionDetails projection =
     (let keys = sort (map fst projection);
          paths = (if keys \<noteq> [''_id''] \<and> \<not> (''_id'' \<in> set keys \<and> truthy (obj_get projection ''_id''))
                   then filter (\<lambda>path. path \<noteq> ''_id'') keys else keys);
          including = (case paths of [] \<Rightarrow> False | path # _ \<Rightarrow> truthy (obj_get projection path))
      in rbind (rfoldl (add_rule projection including) [] paths) (\<lambda>tree. Inr (including, tree)))"

section \<open>Applying it\<close>

function applyRuleTree :: "jsobj \<Rightarrow> bool \<Rightarrow> jsval \<Rightarrow> jsval" where
  "applyRuleTree tree including v =
     (case v of
        JArr xs \<Rightarrow> JArr (map (\<lambda>element. applyRuleTree tree including element) xs)
      | JNull \<Rightarrow> JNull
      | JUndef \<Rightarrow> JUndef
      | JObj kvs \<Rightarrow>
          JObj (foldl (\<lambda>result (field, rule).
            case map_of kvs field of
              None \<Rightarrow> result
            | Some child \<Rightarrow>
                (case rule of
                   JObj subtree \<Rightarrow>
                     if isObjectRecord child then obj_set field (applyRuleTree subtree including child) result else result
                 | _ \<Rightarrow> if including then obj_set field (cloneValue child) result else obj_delete field result))
            (if including then [] else map (\<lambda>(k, w). (k, cloneValue w)) kvs) tree)
      | _ \<Rightarrow> JObj [])"
  by pat_completeness auto
termination
  by (relation "measure (\<lambda>(t, i, v). depth v)") (auto simp del: depth.simps dest: depth_elem depth_get)

declare applyRuleTree.simps [simp del]

definition projection_values :: "jsval list" where
  "projection_values = [jint 0, jint 1, JBool False, JBool True]"

fun check_projection :: "jsobj \<Rightarrow> unit js" where
  "check_projection [] = Inr ()"
| "check_projection ((path, v) # entries) =
     (if ''$'' \<in> set (split_dot path)
      then Inl (LocalCollectionError ''Local collections do not support $ operators in projections.'' None)
      else if (case v of JObj kvs \<Rightarrow> list_ex (jm_has kvs) [''$elemMatch'', ''$meta'', ''$slice''] | _ \<Rightarrow> False)
      then Inl (LocalCollectionError ''Local collections do not support operators in projections.'' None)
      else if v \<notin> set projection_values
      then Inl (LocalCollectionError ''Projection values should be one of 1, 0, true, or false'' None)
      else check_projection entries)"

definition project :: "bool \<Rightarrow> jsobj \<Rightarrow> bool \<Rightarrow> jsobj \<Rightarrow> jsobj" where
  "project idProjection tree including document =
     (case applyRuleTree tree including (JObj document) of
        JObj result \<Rightarrow>
          if idProjection \<and> jm_has document ''_id'' then obj_set ''_id'' (cloneValue (obj_get document ''_id'')) result
          else if \<not> idProjection then obj_delete ''_id'' result else result
      | _ \<Rightarrow> [])"

definition compileProjection :: "jsval \<Rightarrow> (jsobj \<Rightarrow> jsobj) js" where
  "compileProjection projection =
     (case projection of
        JObj kvs \<Rightarrow>
          rbind (check_projection kvs) (\<lambda>_.
            (let idProjection = (obj_get kvs ''_id'' = JUndef \<or> truthy (obj_get kvs ''_id'')) in
             rbind (projectionDetails kvs) (\<lambda>(including, tree). Inr (project idProjection tree including))))
      | _ \<Rightarrow> Inl (LocalCollectionError ''fields option must be an object'' None))"

section \<open>Projections of top-level fields\<close>

lemma split_dot_single: "CHR ''.'' \<notin> set s \<Longrightarrow> split_dot s = [s]"
  by (induction s) auto

lemma flat_tree:
  assumes "distinct names" "\<forall>k \<in> set names. CHR ''.'' \<notin> set k \<and> truthy (obj_get projection k) = b"
    and "\<forall>k \<in> set names. map_of tree k = None" "\<forall>k. map_of tree k \<in> {None, Some (JBool b)}"
  shows "\<exists>t. rfoldl (add_rule projection b) tree names = Inr t \<and>
    (\<forall>k. map_of t k = (if k \<in> set names then Some (JBool b) else map_of tree k)) \<and> (jm_wf tree \<longrightarrow> jm_wf t)"
  using assms
proof (induction names arbitrary: tree)
  case (Cons f names)
  let ?t = "obj_set f (JBool b) tree"
  have step: "add_rule projection b tree f = Inr ?t"
    using Cons.prems by (simp add: add_rule_def split_dot_single obj_get_def)
  have "\<forall>k \<in> set names. map_of ?t k = None" "\<forall>k. map_of ?t k \<in> {None, Some (JBool b)}"
    using Cons.prems by auto
  then obtain t where "rfoldl (add_rule projection b) ?t names = Inr t"
    "\<forall>k. map_of t k = (if k \<in> set names then Some (JBool b) else map_of ?t k)" "jm_wf ?t \<longrightarrow> jm_wf t"
    using Cons.IH [of ?t] Cons.prems(1,2) by fastforce
  then show ?case using step by (intro exI [of _ t]) auto
qed simp

lemma apply_flat:
  assumes "\<forall>(field, rule) \<in> set tree. rule = JBool b" "distinct (map fst tree)"
  shows "map_of (foldl (\<lambda>result (field, rule).
            case map_of kvs field of
              None \<Rightarrow> result
            | Some child \<Rightarrow>
                (case rule of
                   JObj subtree \<Rightarrow>
                     if isObjectRecord child then obj_set field (applyRuleTree subtree b child) result else result
                 | _ \<Rightarrow> if b then obj_set field (cloneValue child) result else obj_delete field result)) r tree) k =
    (if k \<in> fst ` set tree \<and> map_of kvs k \<noteq> None then (if b then map_of kvs k else None) else map_of r k)"
  using assms
proof (induction tree arbitrary: r)
  case (Cons e tree)
  then show ?case by (cases e; cases "map_of kvs (fst e)") (auto simp: image_iff split: if_splits)
qed simp

lemma project_flat:
  assumes "\<forall>(field, rule) \<in> set tree. rule = JBool b" "distinct (map fst tree)" "''_id'' \<notin> fst ` set tree"
  shows "map_of (project True tree b document) k =
    (if k = ''_id'' \<or> (k \<in> fst ` set tree \<longleftrightarrow> b) then map_of document k else None)"
proof -
  define r where "r = foldl (\<lambda>result (field, rule).
            case map_of document field of
              None \<Rightarrow> result
            | Some child \<Rightarrow>
                (case rule of
                   JObj subtree \<Rightarrow>
                     if isObjectRecord child then obj_set field (applyRuleTree subtree b child) result else result
                 | _ \<Rightarrow> if b then obj_set field (cloneValue child) result else obj_delete field result))
       (if b then [] else document) tree"
  have "map (\<lambda>(k, w). (k, cloneValue w)) document = document" by (simp add: case_prod_unfold)
  then have "applyRuleTree tree b (JObj document) = JObj r"
    unfolding r_def by (subst applyRuleTree.simps) simp
  then have "project True tree b document = (if jm_has document ''_id'' then obj_set ''_id'' (obj_get document ''_id'') r else r)"
    by (simp add: project_def)
  moreover have "map_of r k = (if k \<in> fst ` set tree \<and> map_of document k \<noteq> None then (if b then map_of document k else None)
      else map_of (if b then [] else document) k)" for k
    unfolding r_def by (rule apply_flat [OF assms(1,2)])
  ultimately show ?thesis using assms(3)
    by (cases b) (auto simp: jm_has_def obj_get_def)
qed

text \<open>
  A projection of top-level fields keeps or drops exactly the named fields. With inclusion a
  projected document has the named fields it had before and nothing else but its \<open>_id\<close>, with
  exclusion everything but the named names, and the kept names have their old values.
\<close>

theorem projection_selects_fields:
  assumes "distinct names" "\<forall>k \<in> set names. CHR ''.'' \<notin> set k \<and> k \<noteq> ''$'' \<and> k \<noteq> ''_id''" "names \<noteq> []"
  shows "\<exists>f. compileProjection (JObj (map (\<lambda>k. (k, JBool b)) names)) = Inr f \<and>
    (\<forall>document k. map_of (f document) k =
       (if k = ''_id'' \<or> (k \<in> set names \<longleftrightarrow> b) then map_of document k else None))"
proof -
  let ?p = "map (\<lambda>k. (k, JBool b)) names"
  have get: "map_of ?p k = (if k \<in> set names then Some (JBool b) else None)" for k
    by (induction names) auto
  have noid: "\<not> jm_has ?p ''_id''" using assms(2) by (auto simp: jm_has_def get)
  have "check_projection (map (\<lambda>k. (k, JBool b)) ks) = Inr ()" if "set ks \<subseteq> set names" for ks
    using that assms(2) by (induction ks) (auto simp: split_dot_single projection_values_def)
  then have check: "check_projection ?p = Inr ()" by blast
  let ?keys = "sort names"
  have keys: "sort (map fst ?p) = ?keys" by (simp add: comp_def)
  have idf: "filter (\<lambda>path. path \<noteq> ''_id'') ?keys = ?keys" using assms(2) by (intro filter_True) auto
  have "?keys \<noteq> []" using assms(3) by (metis set_empty set_sort)
  then obtain k0 ks where k0: "?keys = k0 # ks" by (cases ?keys) auto
  then have incl: "truthy (obj_get ?p k0) = b"
    using get [of k0] by (metis (mono_tags) list.set_intros(1) obj_get_def option.simps(5) set_sort truthy.simps(3))
  obtain t where t: "rfoldl (add_rule ?p b) [] ?keys = Inr t"
    "\<forall>k. map_of t k = (if k \<in> set names then Some (JBool b) else None)" "jm_wf t"
    using flat_tree [of ?keys ?p b "[]"] assms get by (auto simp: obj_get_def)
  have "projectionDetails ?p = Inr (b, t)"
    unfolding projectionDetails_def Let_def keys using idf t(1) incl k0 noid assms(2)
    by (auto simp: jm_has_def get)
  then have f: "compileProjection (JObj ?p) = Inr (project True t b)"
    using check noid by (simp add: compileProjection_def obj_get_def jm_has_def)
  have entry: "(k, r) \<in> set t \<longleftrightarrow> k \<in> set names \<and> r = JBool b" for k r
    using t(2) jm_wf_lookup [OF t(3), of k r] by auto
  have leaves: "\<forall>(field, rule) \<in> set t. rule = JBool b" and dom: "fst ` set t = set names"
    using entry by auto force
  have "map_of (project True t b document) k = (if k = ''_id'' \<or> (k \<in> set names \<longleftrightarrow> b) then map_of document k else None)" for document k
  proof -
    have "distinct (map fst t)" "''_id'' \<notin> fst ` set t" using t(3) dom assms(2) by (auto simp: jm_wf_def)
    from project_flat [OF leaves this] show ?thesis by (simp add: dom)
  qed
  then show ?thesis using f by blast
qed

theorem projection_selects_fields_witness:
  "\<exists>f. compileProjection (JObj [(''name'', JBool False)]) = Inr f \<and>
     map_of (f [(''_id'', JStr ''1''), (''name'', JNull), (''age'', jint 3)]) ''age'' = Some (jint 3)"
  using projection_selects_fields [of "[''name'']" False] by auto

end
