(* ===== verification/MiniEvents.thy ===== *)
theory MiniEvents
  imports Prelude
begin

text \<open>
  The event emitter of the local store (\<open>src/minimongo/events.ts\<close>). A listener is identified by the
  function object it is: \<open>Direct\<close> for a function passed by the caller, \<open>OnceWrapper\<close> for the wrapper
  that \<open>once\<close> builds, with its own identity and the listener it wraps. Registering and removing
  call the hooks a subclass overrides, so every operation also returns how often it called them.
  Listeners do not call back into the emitter.
\<close>

datatype 'l listener = Direct 'l | OnceWrapper nat 'l

fun original :: "'l listener \<Rightarrow> 'l" where
  "original (Direct l) = l"
| "original (OnceWrapper w l) = l"

fun is_once :: "'l listener \<Rightarrow> bool" where
  "is_once (Direct l) = False"
| "is_once (OnceWrapper w l) = True"

record 'l typed_emitter =
  em_listeners :: "(string, 'l listener list) jsmap"
  em_anyListeners :: "'l list"
  em_wrappers :: nat

definition empty_emitter :: "'l typed_emitter" where
  "empty_emitter = \<lparr>em_listeners = [], em_anyListeners = [], em_wrappers = 0\<rparr>"

definition listeners_of :: "'l typed_emitter \<Rightarrow> string \<Rightarrow> 'l listener list" where
  "listeners_of e event = (case jm_get (em_listeners e) event of Some ls \<Rightarrow> ls | None \<Rightarrow> [])"

definition add_listener :: "string \<Rightarrow> 'l listener \<Rightarrow> 'l typed_emitter \<Rightarrow> 'l typed_emitter \<times> nat" where
  "add_listener event listener e =
     (let listeners = listeners_of e event; alreadyRegistered = (listener \<in> set listeners) in
      (e\<lparr>em_listeners := jm_set event (js_add listener listeners) (em_listeners e)\<rparr>, if alreadyRegistered then 0 else 1))"

definition on_event :: "string \<Rightarrow> 'l \<Rightarrow> 'l typed_emitter \<Rightarrow> 'l typed_emitter \<times> nat" where
  "on_event event listener e = add_listener event (Direct listener) e"

definition once_event :: "string \<Rightarrow> 'l \<Rightarrow> 'l typed_emitter \<Rightarrow> 'l typed_emitter \<times> nat" where
  "once_event event listener e =
     add_listener event (OnceWrapper (em_wrappers e) listener) (e\<lparr>em_wrappers := Suc (em_wrappers e)\<rparr>)"

definition drop_listeners :: "('l listener \<Rightarrow> bool) \<Rightarrow> string \<Rightarrow> 'l typed_emitter \<Rightarrow> 'l typed_emitter \<times> nat" where
  "drop_listeners p event e =
     (case jm_get (em_listeners e) event of
        None \<Rightarrow> (e, 0)
      | Some listeners \<Rightarrow>
          (let remaining = filter (\<lambda>l. \<not> p l) listeners in
           (e\<lparr>em_listeners := (if remaining = [] then jm_delete event (em_listeners e)
                               else jm_set event remaining (em_listeners e))\<rparr>,
            length (filter p listeners))))"

definition off_event :: "string \<Rightarrow> 'l \<Rightarrow> 'l typed_emitter \<Rightarrow> 'l typed_emitter \<times> nat" where
  "off_event event listener e = drop_listeners (\<lambda>current. original current = listener) event e"

definition onAny :: "'l \<Rightarrow> 'l typed_emitter \<Rightarrow> 'l typed_emitter \<times> nat" where
  "onAny listener e = (e\<lparr>em_anyListeners := js_add listener (em_anyListeners e)\<rparr>, 1)"

definition offAny :: "'l \<Rightarrow> 'l typed_emitter \<Rightarrow> 'l typed_emitter \<times> nat" where
  "offAny listener e =
     (if listener \<in> set (em_anyListeners e)
      then (e\<lparr>em_anyListeners := js_remove listener (em_anyListeners e)\<rparr>, 1) else (e, 0))"

definition listenerTotal :: "'l typed_emitter \<Rightarrow> nat" where
  "listenerTotal e = length (em_anyListeners e) + sum_list (map length (jm_values (em_listeners e)))"

definition removeAllListeners :: "string option \<Rightarrow> 'l typed_emitter \<Rightarrow> 'l typed_emitter \<times> nat" where
  "removeAllListeners event e =
     (case event of
        Some name \<Rightarrow>
          if name = [] then (e\<lparr>em_listeners := [], em_anyListeners := []\<rparr>, listenerTotal e)
          else (e\<lparr>em_listeners := jm_delete name (em_listeners e)\<rparr>, length (listeners_of e name))
      | None \<Rightarrow> (e\<lparr>em_listeners := [], em_anyListeners := []\<rparr>, listenerTotal e))"

text \<open>
  \<open>emit\<close> calls a snapshot of the listeners in order, a wrapper removing itself before it calls the
  listener it wraps, then the catch-all listeners.
\<close>

fun run_wrappers :: "string \<Rightarrow> 'l listener list \<Rightarrow> 'l typed_emitter \<Rightarrow> 'l typed_emitter \<times> nat" where
  "run_wrappers event [] e = (e, 0)"
| "run_wrappers event (Direct l # ls) e = run_wrappers event ls e"
| "run_wrappers event (OnceWrapper w l # ls) e =
     (let (e', n) = drop_listeners (\<lambda>current. current = OnceWrapper w l) event e;
          (e'', m) = run_wrappers event ls e'
      in (e'', n + m))"

definition emit_event :: "string \<Rightarrow> 'l typed_emitter \<Rightarrow> ('l typed_emitter \<times> nat) \<times> 'l list \<times> bool" where
  "emit_event event e =
     (let listeners = listeners_of e event in
      (run_wrappers event listeners e,
       map original listeners @ em_anyListeners e,
       listeners \<noteq> [] \<or> em_anyListeners e \<noteq> []))"

section \<open>Invariant\<close>

fun wrapper_below :: "nat \<Rightarrow> 'l listener \<Rightarrow> bool" where
  "wrapper_below n (Direct l) = True"
| "wrapper_below n (OnceWrapper w l) = (w < n)"

definition emitter_ok :: "'l typed_emitter \<Rightarrow> bool" where
  "emitter_ok e \<longleftrightarrow> jm_wf (em_listeners e) \<and> distinct (em_anyListeners e) \<and>
     (\<forall>(event, ls) \<in> set (em_listeners e). ls \<noteq> [] \<and> distinct ls \<and>
        (\<forall>l \<in> set ls. wrapper_below (em_wrappers e) l))"

definition events_total :: "(string, 'l listener list) jsmap \<Rightarrow> nat" where
  "events_total m = sum_list (map (length \<circ> snd) m)"

lemma listenerTotal_alt: "listenerTotal e = length (em_anyListeners e) + events_total (em_listeners e)"
  by (simp add: listenerTotal_def events_total_def)

lemma events_total_get: "jm_wf m \<Longrightarrow> jm_get m k = Some ls \<Longrightarrow> events_total m = length ls + events_total (jm_delete k m)"
proof (induction m)
  case (Cons p m)
  then show ?case
    by (cases p) (auto simp: events_total_def jm_wf_def delete_idem split: if_splits)
qed simp

lemma events_total_set:
  "jm_wf m \<Longrightarrow> events_total (jm_set k ls m) = length ls + events_total (jm_delete k m)"
proof -
  have "jm_delete k (jm_set k ls m) = jm_delete k m" by (induction m) auto
  then show "jm_wf m \<Longrightarrow> ?thesis" using events_total_get [of "jm_set k ls m" k ls] by simp
qed

lemma emitter_ok_get:
  "emitter_ok e \<Longrightarrow> jm_get (em_listeners e) event = Some ls \<Longrightarrow> ls \<noteq> [] \<and> distinct ls \<and> (\<forall>l \<in> set ls. wrapper_below (em_wrappers e) l)"
  using map_of_SomeD [of "em_listeners e" event ls] by (fastforce simp: emitter_ok_def)

lemma emitter_ok_set:
  assumes "emitter_ok e" "ls \<noteq> []" "distinct ls" "\<forall>l \<in> set ls. wrapper_below (em_wrappers e) l"
  shows "emitter_ok (e\<lparr>em_listeners := jm_set event ls (em_listeners e)\<rparr>)"
  using assms by (auto simp: emitter_ok_def jm_set_entries jm_wf_def distinct_update)

lemma emitter_ok_delete: "emitter_ok e \<Longrightarrow> emitter_ok (e\<lparr>em_listeners := jm_delete event (em_listeners e)\<rparr>)"
  by (auto simp: emitter_ok_def jm_delete_set)

lemma add_listener_ok:
  assumes "emitter_ok e" "wrapper_below (em_wrappers e) listener" "add_listener event listener e = (e', n)"
  shows "emitter_ok e' \<and> listenerTotal e' = listenerTotal e + n"
proof -
  let ?ls = "listeners_of e event"
  have ls: "distinct ?ls" "\<forall>l \<in> set ?ls. wrapper_below (em_wrappers e) l"
    using emitter_ok_get [OF assms(1), of event] by (cases "jm_get (em_listeners e) event"; simp add: listeners_of_def)+
  have e': "e' = e\<lparr>em_listeners := jm_set event (js_add listener ?ls) (em_listeners e)\<rparr>"
    and n: "n = (if listener \<in> set ?ls then 0 else 1)" using assms(3) by (auto simp: add_listener_def Let_def)
  have wf: "jm_wf (em_listeners e)" using assms(1) by (simp add: emitter_ok_def)
  have "events_total (em_listeners e) = length ?ls + events_total (jm_delete event (em_listeners e))"
    using events_total_get [OF wf] by (auto simp: listeners_of_def delete_idem map_of_eq_None_iff split: option.splits)
  then have "listenerTotal e' = listenerTotal e + n"
    unfolding e' n by (simp add: listenerTotal_alt events_total_set [OF wf] js_add_def)
  moreover have "emitter_ok e'" unfolding e' by (rule emitter_ok_set [OF assms(1)]) (use ls assms(2) in auto)
  ultimately show ?thesis by blast
qed

lemma filter_split: "length (filter p xs) + length (filter (\<lambda>x. \<not> p x) xs) = length xs"
  by (induction xs) auto

lemma drop_listeners_ok:
  assumes "emitter_ok e" "drop_listeners p event e = (e', n)"
  shows "emitter_ok e' \<and> listenerTotal e = listenerTotal e' + n \<and> em_wrappers e' = em_wrappers e"
proof (cases "jm_get (em_listeners e) event")
  case None
  then show ?thesis using assms by (auto simp: drop_listeners_def)
next
  case (Some ls)
  let ?r = "filter (\<lambda>l. \<not> p l) ls"
  have wf: "jm_wf (em_listeners e)" using assms(1) by (simp add: emitter_ok_def)
  note get = emitter_ok_get [OF assms(1) Some]
  have e': "e' = e\<lparr>em_listeners := (if ?r = [] then jm_delete event (em_listeners e) else jm_set event ?r (em_listeners e))\<rparr>"
    and n: "n = length (filter p ls)" using assms(2) Some by (auto simp: drop_listeners_def Let_def)
  have "events_total (em_listeners e') = length ?r + events_total (jm_delete event (em_listeners e))"
    unfolding e' by (auto simp: events_total_set [OF wf])
  then have "listenerTotal e = listenerTotal e' + n"
    using events_total_get [OF wf Some] filter_split [of p ls] unfolding n listenerTotal_alt by (simp add: e')
  moreover have "emitter_ok e'" unfolding e' using get emitter_ok_set [OF assms(1), of ?r] emitter_ok_delete [OF assms(1)] by simp
  ultimately show ?thesis unfolding e' by simp
qed

lemma run_wrappers_ok:
  "emitter_ok e \<Longrightarrow> run_wrappers event ls e = (e', n) \<Longrightarrow> emitter_ok e' \<and> listenerTotal e = listenerTotal e' + n"
proof (induction event ls e arbitrary: e' n rule: run_wrappers.induct)
  case (3 event w l ls e)
  obtain e1 k where e1: "drop_listeners (\<lambda>current. current = OnceWrapper w l) event e = (e1, k)" by (cases "drop_listeners (\<lambda>current. current = OnceWrapper w l) event e")
  obtain e2 m where e2: "run_wrappers event ls e1 = (e2, m)" by (cases "run_wrappers event ls e1")
  have "emitter_ok e1 \<and> listenerTotal e = listenerTotal e1 + k" using drop_listeners_ok [OF "3.prems"(1) e1] by simp
  moreover have "emitter_ok e2 \<and> listenerTotal e1 = listenerTotal e2 + m"
    using "3.IH" [OF e1 [symmetric] refl] calculation e2 by blast
  ultimately show ?case using "3.prems"(2) e1 e2 by simp
qed auto

section \<open>Histories\<close>

text \<open>The emitter and the balance of its hook calls after any sequence of operations.\<close>

inductive emitter_run :: "'l typed_emitter \<Rightarrow> int \<Rightarrow> bool" where
  fresh: "emitter_run empty_emitter 0"
| on: "emitter_run e n \<Longrightarrow> on_event event l e = (e', k) \<Longrightarrow> emitter_run e' (n + int k)"
| once: "emitter_run e n \<Longrightarrow> once_event event l e = (e', k) \<Longrightarrow> emitter_run e' (n + int k)"
| off: "emitter_run e n \<Longrightarrow> off_event event l e = (e', k) \<Longrightarrow> emitter_run e' (n - int k)"
| on_any: "emitter_run e n \<Longrightarrow> l \<notin> set (em_anyListeners e) \<Longrightarrow> onAny l e = (e', k) \<Longrightarrow> emitter_run e' (n + int k)"
| off_any: "emitter_run e n \<Longrightarrow> offAny l e = (e', k) \<Longrightarrow> emitter_run e' (n - int k)"
| remove_all: "emitter_run e n \<Longrightarrow> removeAllListeners event e = (e', k) \<Longrightarrow> emitter_run e' (n - int k)"
| emit: "emitter_run e n \<Longrightarrow> emit_event event e = ((e', k), called) \<Longrightarrow> emitter_run e' (n - int k)"

lemma js_remove_length: "distinct xs \<Longrightarrow> l \<in> set xs \<Longrightarrow> length xs = Suc (length (js_remove l xs))"
proof (induction xs)
  case (Cons x xs)
  then show ?case by (cases "x = l") (auto simp: js_remove_def intro!: arg_cong [of _ _ length] filter_True [symmetric])
qed simp

lemma removeAll_ok:
  assumes "emitter_ok e" "removeAllListeners event e = (e', k)"
  shows "emitter_ok e' \<and> listenerTotal e = listenerTotal e' + k"
proof (cases "event = None \<or> event = Some []")
  case True
  then have "e' = e\<lparr>em_listeners := [], em_anyListeners := []\<rparr>" "k = listenerTotal e"
    using assms(2) by (auto simp: removeAllListeners_def)
  then show ?thesis by (simp add: emitter_ok_def listenerTotal_def)
next
  case False
  then obtain name where name: "event = Some name" "name \<noteq> []" by auto
  have e': "e' = e\<lparr>em_listeners := jm_delete name (em_listeners e)\<rparr>" "k = length (listeners_of e name)"
    using assms(2) name by (auto simp: removeAllListeners_def)
  have wf: "jm_wf (em_listeners e)" using assms(1) by (simp add: emitter_ok_def)
  show ?thesis unfolding e' using events_total_get [OF wf] emitter_ok_delete [OF assms(1)]
    by (auto simp: listenerTotal_alt listeners_of_def delete_idem map_of_eq_None_iff split: option.splits)
qed

lemma emitter_run_exact: "emitter_run e n \<Longrightarrow> emitter_ok e \<and> n = int (listenerTotal e)"
proof (induction rule: emitter_run.induct)
  case fresh
  then show ?case by (simp add: emitter_ok_def empty_emitter_def listenerTotal_def)
next
  case (on e n event l e' k)
  then show ?case using add_listener_ok [of e "Direct l" event e' k] by (simp add: on_event_def)
next
  case (once e n event l e' k)
  let ?e = "e\<lparr>em_wrappers := Suc (em_wrappers e)\<rparr>"
  have "wrapper_below m x \<Longrightarrow> wrapper_below (Suc m) x" for m and x :: "'a listener" by (cases x) auto
  then have "emitter_ok ?e" using once.IH by (fastforce simp: emitter_ok_def)
  moreover have "listenerTotal ?e = listenerTotal e" by (simp add: listenerTotal_def)
  ultimately show ?case using add_listener_ok [of ?e "OnceWrapper (em_wrappers e) l" event e' k] once by (simp add: once_event_def)
next
  case (off e n event l e' k)
  then show ?case using drop_listeners_ok [of e _ event e' k] by (fastforce simp: off_event_def)
next
  case (on_any e n l e' k)
  then show ?case by (fastforce simp: onAny_def emitter_ok_def listenerTotal_def js_add_def)
next
  case (off_any e n l e' k)
  then show ?case using js_remove_length [of "em_anyListeners e" l]
    by (fastforce simp: offAny_def emitter_ok_def listenerTotal_def split: if_splits)
next
  case (remove_all e n event e' k)
  then show ?case using removeAll_ok by fastforce
next
  case (emit e n event e' k called)
  then show ?case using run_wrappers_ok [of e event _ e' k] by (fastforce simp: emit_event_def Let_def)
qed

text \<open>
  The hooks an emitter calls count its listeners. After any history of registrations, removals
  and emits in which no catch-all listener is registered twice, the calls of the added hook minus
  those of the removed hook equal the number of listeners that are registered, and the index of
  listeners is consistent: no empty or duplicate entries.
\<close>

theorem listener_hooks_exact:
  assumes "emitter_run e n"
  shows "emitter_ok e \<and> n = int (listenerTotal e)"
  using emitter_run_exact [OF assms] .

theorem listener_hooks_exact_witness:
  "emitter_ok (fst (on_event ''change'' (7 :: nat) empty_emitter)) \<and> (1 :: int) = int (listenerTotal (fst (on_event ''change'' (7 :: nat) empty_emitter)))"
proof -
  have "emitter_run (fst (on_event ''change'' (7 :: nat) empty_emitter)) (0 + int 1)"
    by (rule emitter_run.on [OF emitter_run.fresh, of "''change''" 7])
      (simp add: on_event_def add_listener_def empty_emitter_def listeners_of_def js_add_def)
  then show ?thesis using listener_hooks_exact by fastforce
qed

text \<open>
  Registering the same catch-all listener twice and removing it leaves no listener, but the
  hooks have counted one listener more than they have released: a cursor that counts with them
  keeps observing its collection.
\<close>

theorem onAny_twice_leaks:
  "let (e1, a1) = onAny l empty_emitter; (e2, a2) = onAny l e1; (e3, r) = offAny l e2
   in listenerTotal e3 = 0 \<and> a1 + a2 = r + 1"
  by (simp add: onAny_def offAny_def empty_emitter_def listenerTotal_def js_add_def js_remove_def)

end
