(* ===== verification/MiniCursor.thy ===== *)
theory MiniCursor
  imports MiniStore MiniProjection MiniEvents
begin

text \<open>
  Cursors over a local collection (\<open>cursor.ts\<close> and \<open>transform.ts\<close> of \<open>src/minimongo\<close>): evaluation of a query
  with sort, skip, limit, projection and transform, and the difference events a cursor emits
  after each mutation. The transform and a comparator function are functions of the caller; they
  are deterministic and do not touch the collection. The asynchronous variants and the iterators
  evaluate \<open>fetch\<close> and are not listed again. Two results are the same object when they are the same
  tree, which differs from reference identity only for documents that hold an invalid date.
\<close>

section \<open>Transforms\<close>

definition wrapTransform :: "(jsobj \<Rightarrow> jsval js) option \<Rightarrow> (jsobj \<Rightarrow> jsobj js) option" where
  "wrapTransform transform =
     map_option (\<lambda>f document.
       if \<not> jm_has document ''_id'' then Inl (Error ''can only transform documents with _id'')
       else rbind (f document) (\<lambda>transformed.
         case transformed of
           JObj kvs \<Rightarrow>
             if jm_has kvs ''_id'' then
               (if equalValues False (obj_get kvs ''_id'') (obj_get document ''_id'') then Inr kvs
                else Inl (Error ''transformed document cannot have different _id''))
             else Inr (obj_set ''_id'' (obj_get document ''_id'') kvs)
         | _ \<Rightarrow> Inl (Error ''transform must return object''))) transform"

section \<open>Queries\<close>

record find_options =
  fo_sort :: jsval
  fo_sortFunction :: "(jsval \<Rightarrow> jsval \<Rightarrow> int js) option"
  fo_projection :: jsval
  fo_transform :: "(jsobj \<Rightarrow> jsval js) option"
  fo_skip :: int
  fo_limit :: "int option"

record cursor =
  c_host :: host
  c_matcher :: document_matcher
  c_sorter :: "sorter option"
  c_projection :: "(jsobj \<Rightarrow> jsobj) option"
  c_transform :: "(jsobj \<Rightarrow> jsobj js) option"
  c_skip :: int
  c_limit :: "int option"
  c_previous :: "jsobj list option"
  c_observing :: bool
  c_listenerCount :: nat

definition cursor_sorter :: "matcher_host \<Rightarrow> jsval \<Rightarrow> find_options \<Rightarrow> sorter option js" where
  "cursor_sorter mh selector options =
     (case fo_sortFunction options of
        Some compare \<Rightarrow> Inr (Some \<lparr>s_parts = [], s_functionComparator = Some compare, s_collator = mh_collator mh\<rparr>)
      | None \<Rightarrow>
          if truthy (fo_sort options) then rbind (new_sorter (mh_collator mh) (fo_sort options)) (\<lambda>s. Inr (Some s))
          else if hasGeoQuery selector then rbind (new_sorter (mh_collator mh) (JArr [])) (\<lambda>s. Inr (Some s))
          else Inr None)"

definition new_cursor :: "matcher_host \<Rightarrow> jsval \<Rightarrow> find_options \<Rightarrow> cursor js" where
  "new_cursor mh selector options =
     rbind (compileSelector mh False selector) (\<lambda>matcher.
       rbind (cursor_sorter mh selector options) (\<lambda>sorter.
         (let projection = (if fo_projection options = JUndef then JObj [] else fo_projection options) in
          rbind (compileProjection projection) (\<lambda>projected.
            Inr \<lparr>c_host = mh_host mh, c_matcher = matcher, c_sorter = sorter,
                 c_projection = (if own_entries projection \<noteq> [] then Some projected else None),
                 c_transform = wrapTransform (fo_transform options),
                 c_skip = fo_skip options, c_limit = fo_limit options,
                 c_previous = None, c_observing = False, c_listenerCount = 0\<rparr>))))"

text \<open>\<open>Array.prototype.slice\<close>: negative bounds count from the end.\<close>

definition relative_index :: "int \<Rightarrow> nat \<Rightarrow> nat" where
  "relative_index i n = (if i < 0 then nat (max 0 (int n + i)) else min n (nat i))"

definition js_slice :: "int \<Rightarrow> int option \<Rightarrow> 'a list \<Rightarrow> 'a list" where
  "js_slice start end' xs =
     (let from = relative_index start (length xs);
          to = (case end' of None \<Rightarrow> length xs | Some e \<Rightarrow> relative_index e (length xs))
      in take (to - from) (drop from xs))"

definition idOf :: "host \<Rightarrow> jsobj \<Rightarrow> string" where
  "idOf h document = js_string h (obj_get document ''_id'')"

definition match_document ::
  "host \<Rightarrow> document_matcher \<Rightarrow> jsobj list \<times> (jsval, jsnum) jsmap \<Rightarrow> jsobj \<Rightarrow> (jsobj list \<times> (jsval, jsnum) jsmap) js" where
  "match_document h m acc document =
     (case acc of (matching, distances) \<Rightarrow>
        rbind (documentMatches m (JObj document)) (\<lambda>r.
          if \<not> m_result r then Inr (matching, distances)
          else Inr (matching @ [document],
                    case m_distance r of
                      Some d \<Rightarrow> jm_set (JStr (idOf h document)) d distances
                    | None \<Rightarrow> distances)))"

definition sort_documents :: "sorter option \<Rightarrow> (jsval, jsnum) jsmap \<Rightarrow> jsobj list \<Rightarrow> jsobj list js" where
  "sort_documents s distances ds =
     (case s of
        None \<Rightarrow> Inr ds
      | Some sorter \<Rightarrow>
          rsort (\<lambda>left right. getComparator sorter (Some distances) (JObj left) (JObj right)) ds)"

definition rawDocuments :: "cursor \<Rightarrow> doc_store \<Rightarrow> jsobj list js" where
  "rawDocuments c st =
     rbind (rfoldl (match_document (c_host c) (c_matcher c)) ([], []) (documents st)) (\<lambda>(matching, distances).
       rbind (sort_documents (c_sorter c) distances matching) (\<lambda>sorted.
         Inr (js_slice (c_skip c) (map_option (\<lambda>limit. c_skip c + limit) (c_limit c)) sorted)))"

definition outputDocument :: "cursor \<Rightarrow> jsobj \<Rightarrow> jsobj js" where
  "outputDocument c document =
     (let projected = (case c_projection c of Some f \<Rightarrow> f document | None \<Rightarrow> document) in
      case c_transform c of Some f \<Rightarrow> f projected | None \<Rightarrow> Inr projected)"

definition fetch :: "cursor \<Rightarrow> doc_store \<Rightarrow> jsobj list js" where
  "fetch c st = rbind (rawDocuments c st) (rtraverse (outputDocument c))"

definition count :: "cursor \<Rightarrow> doc_store \<Rightarrow> nat js" where
  "count c st = rbind (rawDocuments c st) (\<lambda>ds. Inr (length ds))"

definition find_one :: "matcher_host \<Rightarrow> jsval \<Rightarrow> find_options \<Rightarrow> doc_store \<Rightarrow> jsobj option js" where
  "find_one mh selector options st =
     rbind (new_cursor mh selector (options\<lparr>fo_limit := Some 1\<rparr>)) (\<lambda>c.
       rbind (fetch c st) (\<lambda>ds. Inr (case ds of d # _ \<Rightarrow> Some d | [] \<Rightarrow> None)))"

section \<open>Difference events\<close>

datatype cursor_event =
    Removed jsobj nat
  | Added jsobj nat
  | Changed jsobj jsobj nat nat
  | ChangeAll "jsobj list"

definition by_id :: "host \<Rightarrow> jsobj list \<Rightarrow> (string, jsobj \<times> nat) jsmap" where
  "by_id h ds = foldl (\<lambda>m (d, index). jm_set (idOf h d) (d, index) m) [] (zip ds [0..<length ds])"

definition removed_events :: "(string, jsobj \<times> nat) jsmap \<Rightarrow> (string, jsobj \<times> nat) jsmap \<Rightarrow> cursor_event list" where
  "removed_events previousById currentById =
     map (\<lambda>(i, d, index). Removed d index) (filter (\<lambda>(i, e). \<not> jm_has currentById i) previousById)"

definition entry_events :: "(string, jsobj \<times> nat) jsmap \<Rightarrow> string \<times> jsobj \<times> nat \<Rightarrow> cursor_event list \<times> bool" where
  "entry_events previousById entry =
     (case entry of (i, document, index) \<Rightarrow>
        (case jm_get previousById i of
           None \<Rightarrow> ([Added document index], True)
         | Some (old, previousIndex) \<Rightarrow>
             if old \<noteq> document \<and> \<not> equalValues False (JObj old) (JObj document) then ([Changed old document previousIndex index], True)
             else ([], previousIndex \<noteq> index)))"

definition diff_events :: "host \<Rightarrow> jsobj list \<Rightarrow> jsobj list \<Rightarrow> cursor_event list" where
  "diff_events h previous current =
     (let previousById = by_id h previous; currentById = by_id h current;
          removed = removed_events previousById currentById;
          entries = map (entry_events previousById) currentById
      in removed @ concat (map fst entries) @
         (if removed \<noteq> [] \<or> list_ex snd entries then [ChangeAll current] else []))"

definition handleMutation :: "doc_store \<Rightarrow> cursor \<Rightarrow> (cursor \<times> cursor_event list) js" where
  "handleMutation st c =
     (let previous = (case c_previous c of Some p \<Rightarrow> p | None \<Rightarrow> []) in
      rbind (fetch c st) (\<lambda>current. Inr (c\<lparr>c_previous := Some current\<rparr>, diff_events (c_host c) previous current)))"

definition stop_cursor :: "cursor \<Rightarrow> cursor" where
  "stop_cursor c = c\<lparr>c_observing := False, c_previous := None\<rparr>"

definition onListenerAdded :: "doc_store \<Rightarrow> cursor \<Rightarrow> cursor js" where
  "onListenerAdded st c =
     (let c' = c\<lparr>c_listenerCount := Suc (c_listenerCount c)\<rparr> in
      if c_observing c' then Inr c'
      else rbind (fetch c' st) (\<lambda>current. Inr (c'\<lparr>c_previous := Some current, c_observing := True\<rparr>)))"

definition onListenerRemoved :: "cursor \<Rightarrow> cursor" where
  "onListenerRemoved c =
     (let c' = c\<lparr>c_listenerCount := c_listenerCount c - 1\<rparr> in
      if c_listenerCount c' = 0 then stop_cursor c' else c')"

section \<open>The events describe the change\<close>

text \<open>What a client that keeps the result by identity does with an event.\<close>

fun replay :: "host \<Rightarrow> (string \<rightharpoonup> jsobj) \<Rightarrow> cursor_event \<Rightarrow> (string \<rightharpoonup> jsobj)" where
  "replay h m (Removed d index) = m(idOf h d := None)"
| "replay h m (Added d index) = m(idOf h d \<mapsto> d)"
| "replay h m (Changed old d previousIndex index) = m(idOf h d \<mapsto> d)"
| "replay h m (ChangeAll ds) = m"

definition result_map :: "host \<Rightarrow> jsobj list \<Rightarrow> (string \<rightharpoonup> jsobj)" where
  "result_map h ds = map_of (map (\<lambda>d. (idOf h d, d)) ds)"

definition same_doc :: "jsobj \<Rightarrow> jsobj \<Rightarrow> bool" where
  "same_doc a b \<longleftrightarrow> a = b \<or> equalValues False (JObj a) (JObj b)"

lemma fold_fresh:
  assumes "distinct (map key xs)" "\<forall>x \<in> set xs. key x \<notin> set (map fst m)"
  shows "foldl (\<lambda>m x. jm_set (key x) (val x) m) m xs = m @ map (\<lambda>x. (key x, val x)) xs"
  using assms
proof (induction xs arbitrary: m)
  case (Cons x xs)
  have "jm_set (key x) (val x) m = m @ [(key x, val x)]" using Cons.prems by (simp add: jm_set_fresh)
  moreover have "\<forall>y \<in> set xs. key y \<notin> set (map fst (m @ [(key x, val x)]))" using Cons.prems by auto (metis image_eqI)
  ultimately show ?case using Cons.IH [of "m @ [(key x, val x)]"] Cons.prems(1) by simp
qed simp

lemma by_id_distinct:
  assumes "distinct (map (idOf h) ds)"
  shows "by_id h ds = map (\<lambda>(d, index). (idOf h d, d, index)) (zip ds [0..<length ds])"
proof -
  have "map (\<lambda>x. idOf h (fst x)) (zip ds [0..<length ds]) = map (idOf h) ds"
    by (simp add: comp_def flip: map_map [of "idOf h" fst, unfolded comp_def])
  then show ?thesis
    using fold_fresh [of "\<lambda>x. idOf h (fst x)" "zip ds [0..<length ds]" "[]" "\<lambda>x. x"] assms
    unfolding by_id_def by (simp add: case_prod_unfold)
qed

lemma by_id_entry:
  assumes "distinct (map (idOf h) ds)"
  shows "jm_get (by_id h ds) i = Some (d, index) \<longleftrightarrow> index < length ds \<and> ds ! index = d \<and> idOf h d = i"
proof -
  let ?m = "by_id h ds"
  have "map fst ?m = map (idOf h) ds" unfolding by_id_distinct [OF assms] by (auto intro: nth_equalityI)
  then have "jm_wf ?m" using assms by (simp add: jm_wf_def)
  then have "jm_get ?m i = Some (d, index) \<longleftrightarrow> (i, d, index) \<in> set ?m" by (simp add: jm_wf_lookup)
  moreover have "set ?m = (\<lambda>k. (idOf h (ds ! k), ds ! k, k)) ` {..<length ds}"
  proof -
    have "?m = map (\<lambda>k. (idOf h (ds ! k), ds ! k, k)) [0..<length ds]"
      unfolding by_id_distinct [OF assms] by (auto intro: nth_equalityI)
    then show ?thesis by (simp add: lessThan_atLeast0)
  qed
  ultimately show ?thesis by auto
qed

lemma result_map_by_id:
  assumes "distinct (map (idOf h) ds)"
  shows "result_map h ds i = map_option fst (jm_get (by_id h ds) i)"
proof -
  have "map (\<lambda>d. (idOf h d, d)) ds = map (\<lambda>(i, d, index). (i, d)) (by_id h ds)"
    unfolding by_id_distinct [OF assms] by (auto intro: nth_equalityI)
  moreover have "map_of (map (\<lambda>(i, d, index). (i, d)) m) i = map_option fst (map_of m i)" for m :: "(string, jsobj \<times> nat) jsmap"
    by (induction m) auto
  ultimately show ?thesis by (simp add: result_map_def)
qed

lemma replay_removed:
  assumes "\<forall>(i, d, index) \<in> set P. idOf h d = i"
  shows "foldl (replay h) m (removed_events P C) i = (if jm_has P i \<and> \<not> jm_has C i then None else m i)"
  using assms unfolding removed_events_def
  by (induction P arbitrary: m) (auto simp: jm_has_def split: if_splits)

lemma replay_entries:
  assumes "\<forall>(i, d, index) \<in> set es. idOf h d = i" "distinct (map fst es)"
  shows "foldl (replay h) m (concat (map (fst \<circ> entry_events P) es)) i =
    (case jm_get es i of None \<Rightarrow> m i | Some (d, index) \<Rightarrow> if fst (entry_events P (i, d, index)) = [] then m i else Some d)"
  using assms
proof (induction es arbitrary: m)
  case (Cons e es)
  obtain j d index where e: "e = (j, d, index)" by (cases e) auto
  have j: "idOf h d = j" "jm_get es j = None" using Cons.prems e by (auto simp: map_of_eq_None_iff)
  have head: "foldl (replay h) m (fst (entry_events P e)) = (if fst (entry_events P e) = [] then m else m(j \<mapsto> d))"
    using j(1) by (auto simp: e entry_events_def split: option.splits)
  show ?case using Cons.IH [of "foldl (replay h) m (fst (entry_events P e))"] Cons.prems j head
    by (auto simp: e split: option.splits)
qed simp

lemma by_id_keys:
  assumes "distinct (map (idOf h) ds)"
  shows "\<forall>(i, d, index) \<in> set (by_id h ds). idOf h d = i" "distinct (map fst (by_id h ds))"
proof -
  have "map fst (by_id h ds) = map (idOf h) ds" unfolding by_id_distinct [OF assms] by (auto intro: nth_equalityI)
  then show "distinct (map fst (by_id h ds))" using assms by simp
  show "\<forall>(i, d, index) \<in> set (by_id h ds). idOf h d = i" unfolding by_id_distinct [OF assms] by auto
qed

lemma replay_diff:
  assumes P: "distinct (map (idOf h) previous)" and C: "distinct (map (idOf h) current)"
  shows "rel_option same_doc (foldl (replay h) (result_map h previous) (diff_events h previous current) i) (result_map h current i)"
proof -
  let ?P = "by_id h previous" and ?C = "by_id h current"
  have run: "foldl (replay h) m (diff_events h previous current) =
      foldl (replay h) (foldl (replay h) m (removed_events ?P ?C)) (concat (map (fst \<circ> entry_events ?P) ?C))" for m
    by (simp add: diff_events_def Let_def)
  note eval = replay_entries [OF by_id_keys [OF C]] replay_removed [OF by_id_keys(1) [OF P]] result_map_by_id [OF P] result_map_by_id [OF C]
  show ?thesis
  proof (cases "jm_get ?C i")
    case None
    then show ?thesis unfolding run by (cases "jm_get ?P i") (auto simp: jm_has_def eval)
  next
    case (Some e)
    obtain d index where e: "e = (d, index)" by (cases e)
    have has: "jm_has ?C i" using Some by (simp add: jm_has_def)
    show ?thesis using Some has unfolding run e
      by (auto simp: eval entry_events_def same_doc_def split: option.splits if_splits)
  qed
qed

lemma kept_ids:
  assumes P: "distinct (map (idOf h) previous)" and C: "distinct (map (idOf h) current)"
    and removed: "removed_events (by_id h previous) (by_id h current) = []"
  shows "length previous \<le> length current"
proof -
  have "set (map (idOf h) previous) \<subseteq> set (map (idOf h) current)"
  proof
    fix i assume "i \<in> set (map (idOf h) previous)"
    then obtain index where "index < length previous" "i = idOf h (previous ! index)" by (auto simp: in_set_conv_nth)
    then have "jm_get (by_id h previous) i = Some (previous ! index, index)" using by_id_entry [OF P] by blast
    then have "jm_has (by_id h current) i" using removed by (auto simp: removed_events_def filter_empty_conv dest!: map_of_SomeD)
    then obtain d k where "jm_get (by_id h current) i = Some (d, k)" by (auto simp: jm_has_def)
    then show "i \<in> set (map (idOf h) current)" using by_id_entry [OF C] by force
  qed
  then have "card (set (map (idOf h) previous)) \<le> card (set (map (idOf h) current))" by (intro card_mono) auto
  then show ?thesis using distinct_card [OF P] distinct_card [OF C] by simp
qed

lemma no_events:
  assumes P: "distinct (map (idOf h) previous)" and C: "distinct (map (idOf h) current)"
    and none: "diff_events h previous current = []"
  shows "list_all2 same_doc previous current"
proof -
  let ?P = "by_id h previous" and ?C = "by_id h current"
  have removed: "removed_events ?P ?C = []" and quiet: "\<not> list_ex snd (map (entry_events ?P) ?C)"
    using none by (auto simp: diff_events_def Let_def split: if_splits)
  have entry: "index < length previous \<and> same_doc (previous ! index) (current ! index)" if "index < length current" for index
  proof -
    let ?d = "current ! index"
    have "jm_get ?C (idOf h ?d) = Some (?d, index)" using by_id_entry [OF C] that by blast
    then have "\<not> snd (entry_events ?P (idOf h ?d, ?d, index))" using quiet by (auto simp: list_ex_iff dest: map_of_SomeD)
    then obtain old where "jm_get ?P (idOf h ?d) = Some (old, index)" "same_doc old ?d"
      by (auto simp: entry_events_def same_doc_def split: option.splits if_splits)
    then show ?thesis using by_id_entry [OF P] by metis
  qed
  have "length current \<le> length previous" using entry by (meson linorder_not_le order_refl)
  then show ?thesis using entry kept_ids [OF P C removed] by (simp add: list_all2_conv_all_nth)
qed



lemma match_fold:
  assumes "rfoldl (match_document h m) (acc, near) ds = Inr (ms, near')"
    and "\<forall>d \<in> set acc. \<exists>r. documentMatches m (JObj d) = Inr r \<and> m_result r"
  shows "set ms \<subseteq> set acc \<union> set ds \<and> (\<forall>d \<in> set ms. \<exists>r. documentMatches m (JObj d) = Inr r \<and> m_result r)"
  using assms
proof (induction ds arbitrary: acc near)
  case (Cons d ds)
  obtain acc1 near1 where step: "match_document h m (acc, near) d = Inr (acc1, near1)"
    and rest: "rfoldl (match_document h m) (acc1, near1) ds = Inr (ms, near')"
    using Cons.prems(1) by (auto simp: rbind_eq_Inr)
  have "acc1 = acc \<or> (acc1 = acc @ [d] \<and> (\<exists>r. documentMatches m (JObj d) = Inr r \<and> m_result r))"
    using step by (auto simp: match_document_def rbind_eq_Inr split: if_splits)
  then show ?case using Cons.IH [OF rest] Cons.prems(2) by auto
qed simp

lemma sort_documents_set: "sort_documents s distances ds = Inr es \<Longrightarrow> set es = set ds"
  by (auto simp: sort_documents_def rsort_set split: option.splits)

text \<open>
  A query result stays within its bounds: with a non-negative skip and limit it has at most
  \<open>limit\<close> documents, all of them documents of the collection that the selector matches.
\<close>

theorem query_result_bounds:
  assumes "rawDocuments c st = Inr ds" "0 \<le> c_skip c" "c_limit c = Some limit" "0 \<le> limit"
  shows "length ds \<le> nat limit \<and>
    (\<forall>d \<in> set ds. d \<in> set (documents st) \<and> (\<exists>r. documentMatches (c_matcher c) (JObj d) = Inr r \<and> m_result r))"
proof -
  obtain ms near sorted where run: "rfoldl (match_document (c_host c) (c_matcher c)) ([], []) (documents st) = Inr (ms, near)"
    "sort_documents (c_sorter c) near ms = Inr sorted" and ds: "ds = js_slice (c_skip c) (Some (c_skip c + limit)) sorted"
    using assms(1,3) by (auto simp: rawDocuments_def rbind_eq_Inr)
  have "length ds \<le> nat limit" using assms(2,4)
    by (auto simp: ds js_slice_def relative_index_def Let_def)
  moreover have "set ds \<subseteq> set ms"
    using sort_documents_set [OF run(2)] by (auto simp: ds js_slice_def Let_def dest!: in_set_takeD in_set_dropD)
  ultimately show ?thesis using match_fold [OF run(1)] by auto
qed

definition sample_cursor :: cursor where
  "sample_cursor = \<lparr>c_host = plain_host, c_matcher = (\<lambda>_. Inr matched), c_sorter = None, c_projection = None, c_transform = None,
     c_skip = 0, c_limit = Some 5, c_previous = None, c_observing = False, c_listenerCount = 0\<rparr>"

theorem query_result_bounds_witness:
  "rawDocuments sample_cursor empty_store = Inr [] \<and> length ([] :: jsobj list) \<le> nat 5"
proof -
  have run: "rawDocuments sample_cursor empty_store = Inr []"
    by (simp add: rawDocuments_def sample_cursor_def documents_def ds_entries_def empty_store_def List.map_filter_def
        sort_documents_def js_slice_def)
  then show ?thesis using query_result_bounds [OF run, of 5] by (simp add: sample_cursor_def)
qed

text \<open>
  A cursor whose projection drops \<open>_id\<close> files all its documents under one key, so it overlooks
  changes: here the first of two documents changes and no event at all is emitted.
\<close>

theorem cursor_without_id_overlooks_change:
  "diff_events h [[(''n'', jint 1)], [(''n'', jint 7)]] [[(''n'', jint 2)], [(''n'', jint 7)]] = []"
  by (simp add: diff_events_def by_id_def idOf_def obj_get_def removed_events_def entry_events_def jm_has_def Let_def)

end
