(* ===== verification/Sessions.thy ===== *)
theory Sessions
  imports JsValue
begin

text \<open>
  The in-memory session manager (\<open>src/auth/server/session-manager.ts\<close>): refresh tokens that rotate
  on every use, belong to a family, and whose reuse after the grace period revokes the family.

  Sessions are reached only through the manager's map, so a session that the code mutates is the
  map's entry. Each operation runs without waiting and reads the clock once, \<open>now\<close>, in
  milliseconds. The identifiers that \<open>uuid()\<close> returns are arguments of the operations that draw
  them, and \<open>sign\<close> stands for the signing of an access token by the JWT library.
\<close>

section \<open>Data\<close>

record session =
  se_id :: string
  se_userId :: string
  se_familyId :: string
  se_token :: string
  se_expiration :: int
  se_deviceInfo :: "jsval option"
  se_isRevoked :: bool
  se_replacedBy :: "string option"
  se_usedAt :: "int option"

record auth_config =
  ac_secret :: string
  ac_algorithm :: "string option"
  ac_accessTokenExpiryMinutes :: "int option"
  ac_refreshTokenExpiryDays :: "int option"
  ac_rotationGracePeriodSeconds :: "int option"

record access_payload =
  ap_userId :: string
  ap_sessionId :: string
  ap_iat :: int
  ap_exp :: int

record token_pair =
  tp_accessToken :: string
  tp_refreshToken :: string
  tp_exp :: int

type_synonym signer = "access_payload \<Rightarrow> string \<Rightarrow> string \<Rightarrow> string"
type_synonym session_map = "(string, session) jsmap"

definition truthy_string :: "string option \<Rightarrow> bool" where
  "truthy_string s \<longleftrightarrow> s \<noteq> None \<and> s \<noteq> Some []"

definition config_or :: "int option \<Rightarrow> int \<Rightarrow> int" where
  "config_or v d = (case v of None \<Rightarrow> d | Some n \<Rightarrow> n)"

section \<open>Operations\<close>

definition signAccessToken :: "signer \<Rightarrow> access_payload \<Rightarrow> auth_config \<Rightarrow> string" where
  "signAccessToken sign payload config =
     sign payload (ac_secret config) (case ac_algorithm config of None \<Rightarrow> ''HS256'' | Some a \<Rightarrow> a)"

definition buildTokenPair :: "signer \<Rightarrow> auth_config \<Rightarrow> int \<Rightarrow> string \<Rightarrow> string \<Rightarrow> string \<Rightarrow> token_pair" where
  "buildTokenPair sign config now refreshToken userId sessionId =
     (let expiryMinutes = config_or (ac_accessTokenExpiryMinutes config) 15;
          iat = now div 1000;
          exp = iat + expiryMinutes * 60;
          payload = \<lparr>ap_userId = userId, ap_sessionId = sessionId, ap_iat = iat, ap_exp = exp\<rparr>
      in \<lparr>tp_accessToken = signAccessToken sign payload config, tp_refreshToken = refreshToken, tp_exp = exp\<rparr>)"

definition session_expiration :: "auth_config \<Rightarrow> int \<Rightarrow> int" where
  "session_expiration config now = now div 1000 + config_or (ac_refreshTokenExpiryDays config) 14 * 24 * 60 * 60"

definition createSession ::
  "signer \<Rightarrow> auth_config \<Rightarrow> int \<Rightarrow> string \<times> string \<times> string \<Rightarrow> string \<Rightarrow> jsval option \<Rightarrow> session_map \<Rightarrow> token_pair \<times> session_map" where
  "createSession sign config now uuids userId deviceInfo m =
     (let (familyId, token, sessionId) = uuids;
          session = \<lparr>se_id = sessionId, se_userId = userId, se_familyId = familyId, se_token = token,
            se_expiration = session_expiration config now, se_deviceInfo = deviceInfo, se_isRevoked = False,
            se_replacedBy = None, se_usedAt = None\<rparr>
      in (buildTokenPair sign config now token userId sessionId, jm_set token session m))"

definition revoke :: "session \<Rightarrow> session" where
  "revoke s = s\<lparr>se_isRevoked := True\<rparr>"

text \<open>Revoking every session that satisfies a condition, and how many there were.\<close>

definition revoke_where :: "(session \<Rightarrow> bool) \<Rightarrow> session_map \<Rightarrow> nat \<times> session_map" where
  "revoke_where P m =
     (length (filter P (jm_values m)), map (\<lambda>(k, s). (k, if P s then revoke s else s)) m)"

definition revokeFamily :: "string \<Rightarrow> session_map \<Rightarrow> nat \<times> session_map" where
  "revokeFamily familyId m = revoke_where (\<lambda>s. se_familyId s = familyId \<and> \<not> se_isRevoked s) m"

definition revokeAllUserSessions :: "string \<Rightarrow> string option \<Rightarrow> session_map \<Rightarrow> nat \<times> session_map" where
  "revokeAllUserSessions userId exceptFamilyId m =
     revoke_where (\<lambda>s. se_userId s = userId \<and> \<not> se_isRevoked s \<and>
       (\<not> truthy_string exceptFamilyId \<or> Some (se_familyId s) \<noteq> exceptFamilyId)) m"

fun revokeSession :: "string \<Rightarrow> session_map \<Rightarrow> bool \<times> session_map" where
  "revokeSession sessionId [] = (False, [])"
| "revokeSession sessionId ((k, s) # m) =
     (if se_id s = sessionId then (True, (k, revoke s) # m)
      else (let (found, m') = revokeSession sessionId m in (found, (k, s) # m')))"

definition getUserSessions :: "int \<Rightarrow> string \<Rightarrow> session_map \<Rightarrow> session list" where
  "getUserSessions now userId m =
     filter (\<lambda>s. se_userId s = userId \<and> \<not> se_isRevoked s \<and> \<not> truthy_string (se_replacedBy s) \<and>
       se_expiration s * 1000 > now) (jm_values m)"

definition handleReusedToken :: "signer \<Rightarrow> auth_config \<Rightarrow> int \<Rightarrow> session \<Rightarrow> session_map \<Rightarrow> token_pair option \<times> session_map" where
  "handleReusedToken sign config now session m =
     (let graceSeconds = config_or (ac_rotationGracePeriodSeconds config) 15 in
      if (case se_usedAt session of None \<Rightarrow> True | Some usedAt \<Rightarrow> usedAt = 0 \<or> now - usedAt > graceSeconds * 1000)
      then (None, snd (revokeFamily (se_familyId session) m))
      else
        (case se_replacedBy session of
           None \<Rightarrow> (None, m)
         | Some next_token \<Rightarrow>
             (case jm_get m next_token of
                None \<Rightarrow> (None, m)
              | Some nextSession \<Rightarrow>
                  if se_isRevoked nextSession then (None, m)
                  else (Some (buildTokenPair sign config now (se_token nextSession) (se_userId nextSession) (se_id nextSession)), m))))"

definition rotateSession ::
  "signer \<Rightarrow> auth_config \<Rightarrow> int \<Rightarrow> string \<times> string \<Rightarrow> string \<Rightarrow> session \<Rightarrow> jsval option \<Rightarrow> session_map \<Rightarrow> token_pair \<times> session_map" where
  "rotateSession sign config now uuids key session deviceInfo m =
     (let (newToken, newSessionId) = uuids;
          newSession = \<lparr>se_id = newSessionId, se_userId = se_userId session, se_familyId = se_familyId session,
            se_token = newToken, se_expiration = session_expiration config now, se_deviceInfo = deviceInfo,
            se_isRevoked = False, se_replacedBy = None, se_usedAt = None\<rparr>;
          marked = jm_set key (session\<lparr>se_replacedBy := Some newToken, se_usedAt := Some now\<rparr>) m
      in (buildTokenPair sign config now newToken (se_userId session) newSessionId, jm_set newToken newSession marked))"

definition refreshSession ::
  "signer \<Rightarrow> auth_config \<Rightarrow> int \<Rightarrow> string \<times> string \<Rightarrow> string \<Rightarrow> jsval option \<Rightarrow> session_map \<Rightarrow> token_pair option \<times> session_map" where
  "refreshSession sign config now uuids refreshToken deviceInfo m =
     (case jm_get m refreshToken of
        None \<Rightarrow> (None, m)
      | Some session \<Rightarrow>
          if se_isRevoked session then (None, m)
          else if now > se_expiration session * 1000 then (None, m)
          else if truthy_string (se_replacedBy session) then handleReusedToken sign config now session m
          else (let (pair, m') = rotateSession sign config now uuids refreshToken session deviceInfo m in (Some pair, m')))"

definition session_cleanup :: "int \<Rightarrow> session_map \<Rightarrow> session_map" where
  "session_cleanup now m = filter (\<lambda>(k, s). \<not> (se_isRevoked s \<or> se_expiration s * 1000 \<le> now)) m"

definition session_destroy :: "session_map \<Rightarrow> session_map" where
  "session_destroy m = []"

definition session_size :: "session_map \<Rightarrow> nat" where
  "session_size m = length m"

section \<open>Histories\<close>

text \<open>
  The calls a manager receives. The identifiers drawn by \<open>uuid()\<close> are part of the call; a
  history is admissible when each is not empty and was never drawn before.
\<close>

datatype session_op =
    Create int "string \<times> string \<times> string" string "jsval option"
  | Refresh int "string \<times> string" string "jsval option"
  | RevokeSession string
  | RevokeFamily string
  | RevokeUser string "string option"
  | Cleanup int
  | Destroy

fun session_step :: "signer \<Rightarrow> auth_config \<Rightarrow> session_op \<Rightarrow> session_map \<Rightarrow> session_map" where
  "session_step sign config (Create now uuids userId deviceInfo) m = snd (createSession sign config now uuids userId deviceInfo m)"
| "session_step sign config (Refresh now uuids token deviceInfo) m = snd (refreshSession sign config now uuids token deviceInfo m)"
| "session_step sign config (RevokeSession sessionId) m = snd (revokeSession sessionId m)"
| "session_step sign config (RevokeFamily familyId) m = snd (revokeFamily familyId m)"
| "session_step sign config (RevokeUser userId exceptFamilyId) m = snd (revokeAllUserSessions userId exceptFamilyId m)"
| "session_step sign config (Cleanup now) m = session_cleanup now m"
| "session_step sign config Destroy m = session_destroy m"

fun drawn :: "session_op \<Rightarrow> string list" where
  "drawn (Create now (familyId, token, sessionId) userId deviceInfo) = [familyId, token, sessionId]"
| "drawn (Refresh now (token, sessionId) refreshToken deviceInfo) = [token, sessionId]"
| "drawn c = []"

text \<open>The store and every identifier drawn so far, after an admissible history that starts at the given ones.\<close>

inductive session_run :: "signer \<Rightarrow> auth_config \<Rightarrow> session_map \<Rightarrow> string set \<Rightarrow> session_map \<Rightarrow> string set \<Rightarrow> bool" for sign config m0 used0 where
  start: "session_run sign config m0 used0 m0 used0"
| step: "session_run sign config m0 used0 m used \<Longrightarrow> distinct (drawn c) \<Longrightarrow> set (drawn c) \<inter> insert [] used = {} \<Longrightarrow>
    session_run sign config m0 used0 (session_step sign config c m) (used \<union> set (drawn c))"

abbreviation session_reachable :: "signer \<Rightarrow> auth_config \<Rightarrow> session_map \<Rightarrow> string set \<Rightarrow> bool" where
  "session_reachable sign config m used \<equiv> session_run sign config [] {} m used"

section \<open>Stores that only lose or revoke sessions\<close>

definition narrows :: "session_map \<Rightarrow> session_map \<Rightarrow> bool" where
  "narrows m m' \<longleftrightarrow> jm_wf m' \<and> (\<forall>k s'. jm_get m' k = Some s' \<longrightarrow> (\<exists>s. jm_get m k = Some s \<and> (s' = s \<or> s' = revoke s)))"

lemma narrows_refl: "jm_wf m \<Longrightarrow> narrows m m"
  by (simp add: narrows_def)

lemma revoke_where_get: "jm_get (snd (revoke_where P m)) k = map_option (\<lambda>s. if P s then revoke s else s) (jm_get m k)"
  by (simp add: revoke_where_def map_of_map)

lemma revoke_where_narrows: "jm_wf m \<Longrightarrow> narrows m (snd (revoke_where P m))"
proof -
  assume "jm_wf m"
  moreover have "map fst (snd (revoke_where P m)) = map fst m" by (auto simp: revoke_where_def)
  ultimately show ?thesis unfolding narrows_def revoke_where_get by (auto simp: jm_wf_def)
qed

lemma revokeSession_keys: "map fst (snd (revokeSession sid m)) = map fst m"
  by (induction sid m rule: revokeSession.induct) (auto split: prod.splits)

lemma revokeSession_get: "jm_get (snd (revokeSession sid m)) k = Some s' \<Longrightarrow> \<exists>s. jm_get m k = Some s \<and> (s' = s \<or> s' = revoke s)"
  by (induction sid m rule: revokeSession.induct) (auto split: prod.splits if_splits)

lemma revokeSession_narrows: "jm_wf m \<Longrightarrow> narrows m (snd (revokeSession sid m))"
  by (simp add: narrows_def revokeSession_get) (simp add: jm_wf_def revokeSession_keys)

lemma cleanup_narrows: "jm_wf m \<Longrightarrow> narrows m (session_cleanup now m)"
proof -
  assume wf: "jm_wf m"
  then have wf': "jm_wf (session_cleanup now m)" by (simp add: jm_wf_def session_cleanup_def distinct_map_filter)
  then show ?thesis using wf unfolding narrows_def
    by (auto simp: jm_wf_lookup [OF wf', symmetric]) (auto simp: session_cleanup_def jm_wf_lookup)
qed

lemmas narrowing = revoke_where_narrows revokeSession_narrows cleanup_narrows

lemma handleReused_narrows: "jm_wf m \<Longrightarrow> narrows m (snd (handleReusedToken sign config now s m))"
  by (simp add: handleReusedToken_def Let_def revokeFamily_def narrowing narrows_refl split: option.splits)

lemma refresh_cases:
  assumes "jm_wf m"
  obtains (rotated) s where "jm_get m t = Some s" "\<not> se_isRevoked s" "\<not> truthy_string (se_replacedBy s)"
      "now \<le> se_expiration s * 1000"
      "refreshSession sign config now uuids t d m =
         (let (pair, m') = rotateSession sign config now uuids t s d m in (Some pair, m'))"
    | (kept) "narrows m (snd (refreshSession sign config now uuids t d m))"
proof (cases "jm_get m t")
  case None
  then show thesis using kept narrows_refl [OF assms] by (simp add: refreshSession_def)
next
  case (Some s)
  show thesis
  proof (cases "se_isRevoked s \<or> now > se_expiration s * 1000 \<or> truthy_string (se_replacedBy s)")
    case True
    then have "narrows m (snd (refreshSession sign config now uuids t d m))"
      using Some handleReused_narrows [OF assms] narrows_refl [OF assms] by (auto simp: refreshSession_def)
    then show thesis by (rule kept)
  next
    case False
    then show thesis using Some by (intro rotated [of s]) (auto simp: refreshSession_def)
  qed
qed

section \<open>Invariant\<close>

definition entry_ok :: "string set \<Rightarrow> string \<Rightarrow> session \<Rightarrow> bool" where
  "entry_ok used k s \<longleftrightarrow> se_token s = k \<and> k \<noteq> [] \<and> k \<in> used \<and> se_id s \<in> used \<and> se_familyId s \<in> used \<and> se_replacedBy s \<noteq> Some []"

definition pair_ok :: "string \<Rightarrow> session \<Rightarrow> string \<Rightarrow> session \<Rightarrow> bool" where
  "pair_ok k s k' s' \<longleftrightarrow> (se_familyId s = se_familyId s' \<longrightarrow>
     se_userId s = se_userId s' \<and> (se_replacedBy s = None \<and> se_replacedBy s' = None \<longrightarrow> k = k'))"

definition session_ok :: "string set \<Rightarrow> session_map \<Rightarrow> bool" where
  "session_ok used m \<longleftrightarrow> jm_wf m \<and> (\<forall>k s. jm_get m k = Some s \<longrightarrow> entry_ok used k s) \<and>
     (\<forall>k k' s s'. jm_get m k = Some s \<longrightarrow> jm_get m k' = Some s' \<longrightarrow> pair_ok k s k' s')"

lemma session_okI:
  assumes "jm_wf m" "\<And>k s. jm_get m k = Some s \<Longrightarrow> entry_ok used k s"
    "\<And>k k' s s'. jm_get m k = Some s \<Longrightarrow> jm_get m k' = Some s' \<Longrightarrow> pair_ok k s k' s'"
  shows "session_ok used m"
  unfolding session_ok_def using assms by blast

lemma session_okD:
  assumes "session_ok used m"
  shows "jm_wf m" "jm_get m k = Some s \<Longrightarrow> entry_ok used k s"
    "jm_get m k = Some s \<Longrightarrow> jm_get m k' = Some s' \<Longrightarrow> pair_ok k s k' s'"
  using assms unfolding session_ok_def by blast+

lemma pair_ok_refl: "pair_ok k s k s"
  by (simp add: pair_ok_def)

lemma pair_ok_sym: "pair_ok k s k' s' \<Longrightarrow> pair_ok k' s' k s"
  by (auto simp: pair_ok_def)

lemma revoke_fields [simp]:
  "se_token (revoke s) = se_token s" "se_id (revoke s) = se_id s" "se_familyId (revoke s) = se_familyId s"
  "se_replacedBy (revoke s) = se_replacedBy s" "se_userId (revoke s) = se_userId s" "se_isRevoked (revoke s)"
  "se_expiration (revoke s) = se_expiration s"
  by (simp_all add: revoke_def)

lemma narrows_get:
  assumes "narrows m m'" "jm_get m' k = Some s'"
  obtains s where "jm_get m k = Some s" "se_token s' = se_token s" "se_id s' = se_id s" "se_familyId s' = se_familyId s"
    "se_replacedBy s' = se_replacedBy s" "se_userId s' = se_userId s" "se_isRevoked s \<longrightarrow> se_isRevoked s'"
  using assms unfolding narrows_def by fastforce

lemma ok_narrows:
  assumes ok: "session_ok used m" and n: "narrows m m'"
  shows "session_ok used m'"
proof (rule session_okI)
  show "jm_wf m'" using n by (simp add: narrows_def)
  fix k s assume k: "jm_get m' k = Some s"
  obtain a where a: "jm_get m k = Some a" "se_token s = se_token a" "se_id s = se_id a" "se_familyId s = se_familyId a"
    "se_replacedBy s = se_replacedBy a" "se_userId s = se_userId a" using k by (rule narrows_get [OF n])
  show "entry_ok used k s" using session_okD(2) [OF ok a(1)] a by (simp add: entry_ok_def)
  fix k' s' assume k': "jm_get m' k' = Some s'"
  obtain b where b: "jm_get m k' = Some b" "se_familyId s' = se_familyId b" "se_replacedBy s' = se_replacedBy b" "se_userId s' = se_userId b"
    using k' by (rule narrows_get [OF n])
  show "pair_ok k s k' s'" using session_okD(3) [OF ok a(1) b(1)] a b by (simp add: pair_ok_def)
qed

lemma ok_mono: "session_ok used m \<Longrightarrow> used \<subseteq> used' \<Longrightarrow> session_ok used' m"
  unfolding session_ok_def entry_ok_def by blast

text \<open>Adding one entry under a fresh key.\<close>

lemma ok_insert:
  assumes ok: "session_ok used m" and new: "entry_ok used t n" "\<And>k s. jm_get m k = Some s \<Longrightarrow> k \<noteq> t \<Longrightarrow> pair_ok k s t n"
  shows "session_ok used (jm_set t n m)"
proof (rule session_okI)
  show "jm_wf (jm_set t n m)" using session_okD(1) [OF ok] by simp
  fix k s assume k: "jm_get (jm_set t n m) k = Some s"
  show "entry_ok used k s" using k new(1) session_okD(2) [OF ok, of k s] by (auto split: if_splits)
  fix k' s' assume k': "jm_get (jm_set t n m) k' = Some s'"
  show "pair_ok k s k' s'"
  proof (cases "k = t \<or> k' = t")
    case True
    then show ?thesis using k k' new(2) pair_ok_sym pair_ok_refl by (auto split: if_splits)
  next
    case False
    then show ?thesis using k k' session_okD(3) [OF ok] by simp
  qed
qed

lemma ok_create:
  assumes ok: "session_ok used m" and fresh: "set [f, t, i] \<inter> insert [] used = {}"
  shows "session_ok (used \<union> set [f, t, i]) (snd (createSession sign config now (f, t, i) u d m))"
proof -
  let ?used = "used \<union> set [f, t, i]"
  have "se_familyId s \<noteq> f" if "jm_get m k = Some s" for k s
    using session_okD(2) [OF ok that] fresh by (auto simp: entry_ok_def)
  then have "pair_ok k s t n" if "jm_get m k = Some s" "se_familyId n = f" for k s n
    using that by (simp add: pair_ok_def)
  moreover have "session_ok ?used m" by (rule ok_mono [OF ok]) auto
  ultimately show ?thesis unfolding createSession_def Let_def using fresh
    by (auto intro!: ok_insert simp: entry_ok_def)
qed

lemma ok_rotate:
  assumes ok: "session_ok used m" and s: "jm_get m t = Some s" "se_replacedBy s = None" and fresh: "set [t', i] \<inter> insert [] used = {}"
  shows "session_ok (used \<union> set [t', i]) (snd (rotateSession sign config now (t', i) t s d m))"
proof -
  let ?used = "used \<union> set [t', i]"
  let ?old = "s\<lparr>se_replacedBy := Some t', se_usedAt := Some now\<rparr>"
  have e: "entry_ok used t s" by (rule session_okD(2) [OF ok s(1)])
  have pair: "pair_ok k v t s" if "jm_get m k = Some v" for k v by (rule session_okD(3) [OF ok that s(1)])
  have marked: "session_ok ?used (jm_set t ?old m)"
  proof (rule ok_insert)
    show "session_ok ?used m" by (rule ok_mono [OF ok]) auto
    show "entry_ok ?used t ?old" using e fresh by (auto simp: entry_ok_def)
    show "pair_ok k v t ?old" if "jm_get m k = Some v" for k v using pair [OF that] by (simp add: pair_ok_def)
  qed
  have new: "pair_ok k v t' n" if "jm_get (jm_set t ?old m) k = Some v" "k \<noteq> t'"
    "se_familyId n = se_familyId s" "se_userId n = se_userId s" for k v n
    using that pair [of k v] s(2) by (cases "k = t") (auto simp: pair_ok_def)
  have "t' \<noteq> []" using fresh by auto
  then show ?thesis unfolding rotateSession_def Let_def using marked new e by (auto intro!: ok_insert simp: entry_ok_def)
qed

lemma unreplaced: "entry_ok used k s \<Longrightarrow> \<not> truthy_string (se_replacedBy s) \<Longrightarrow> se_replacedBy s = None"
  by (auto simp: entry_ok_def truthy_string_def)

lemma ok_step:
  assumes ok: "session_ok used m" and fresh: "set (drawn c) \<inter> insert [] used = {}"
  shows "session_ok (used \<union> set (drawn c)) (session_step sign config c m)"
proof -
  have wf: "jm_wf m" by (rule session_okD(1) [OF ok])
  have narrow: "session_ok (used \<union> u) m'" if "narrows m m'" for u m' by (rule ok_mono [OF ok_narrows [OF ok that]]) auto
  show ?thesis
  proof (cases c)
    case (Create now uuids user d)
    then show ?thesis using ok_create [OF ok] fresh by (cases uuids) auto
  next
    case (Refresh now uuids t d)
    obtain t' i where u: "uuids = (t', i)" by (cases uuids)
    show ?thesis using wf
    proof (cases rule: refresh_cases [of m t now sign config uuids d])
      case (rotated s)
      then have "se_replacedBy s = None" using unreplaced session_okD(2) [OF ok] by blast
      then show ?thesis using ok_rotate [OF ok rotated(1)] rotated(5) fresh Refresh u by (simp add: split_beta Let_def)
    next
      case kept
      then show ?thesis using narrow Refresh by simp
    qed
  next
    case Destroy
    then show ?thesis by (simp add: session_ok_def session_destroy_def)
  qed (use ok_narrows [OF ok] narrowing [OF wf] in \<open>simp_all add: revokeFamily_def revokeAllUserSessions_def\<close>)
qed

lemma run_ok: "session_run sign config m0 used0 m used \<Longrightarrow> session_ok used0 m0 \<Longrightarrow> session_ok used m"
  by (induction rule: session_run.induct) (simp_all add: ok_step)

lemma session_reachable_ok: "session_reachable sign config m used \<Longrightarrow> session_ok used m"
  by (erule run_ok) (simp add: session_ok_def)

section \<open>Locked families\<close>

definition locked :: "string \<Rightarrow> string set \<Rightarrow> session_map \<Rightarrow> bool" where
  "locked f used m \<longleftrightarrow> f \<in> used \<and> (\<forall>k s. jm_get m k = Some s \<and> se_familyId s = f \<longrightarrow> se_isRevoked s)"

lemma locked_narrows: "locked f used m \<Longrightarrow> narrows m m' \<Longrightarrow> locked f used m'"
  unfolding locked_def by (metis narrows_get)

lemma locked_set: "locked f used m \<Longrightarrow> se_familyId s \<noteq> f \<Longrightarrow> locked f used (jm_set k s m)"
  by (auto simp: locked_def)

lemma locked_rotate:
  assumes "locked f used m" "jm_get m t = Some s" "\<not> se_isRevoked s"
  shows "locked f used (snd (rotateSession sign config now uuids t s d m))"
proof -
  have "se_familyId s \<noteq> f" using assms by (auto simp: locked_def)
  then show ?thesis unfolding rotateSession_def Let_def split_beta by (simp add: locked_set assms(1))
qed

lemma locked_step:
  assumes l: "locked f used m" and wf: "jm_wf m" and fresh: "set (drawn c) \<inter> insert [] used = {}"
  shows "locked f used (session_step sign config c m)"
proof (cases c)
  case (Create now uuids user d)
  obtain f' t i where u: "uuids = (f', t, i)" by (cases uuids)
  have "f' \<noteq> f" using l fresh Create u by (auto simp: locked_def)
  then show ?thesis using l Create u by (simp add: createSession_def locked_set)
next
  case (Refresh now uuids t d)
  show ?thesis using wf
  proof (cases rule: refresh_cases [of m t now sign config uuids d])
    case (rotated s)
    then show ?thesis using locked_rotate [OF l] Refresh by (simp add: split_beta Let_def)
  next
    case kept
    then show ?thesis using locked_narrows [OF l] Refresh by simp
  qed
next
  case Destroy
  then show ?thesis using l by (simp add: locked_def session_destroy_def)
qed (use locked_narrows [OF l] narrowing [OF wf] in \<open>simp_all add: revokeFamily_def revokeAllUserSessions_def\<close>)

lemma locked_run:
  assumes "session_run sign config m0 used0 m used" "session_ok used0 m0" "locked f used0 m0"
  shows "locked f used m"
  using assms
proof (induction rule: session_run.induct)
  case (step m used c)
  then have ok: "jm_wf m" and l: "locked f used m" using run_ok session_okD(1) by blast+
  show ?case using locked_step [OF l ok step.hyps(3)] by (auto simp: locked_def)
qed

lemma locked_refuses: "locked f used m \<Longrightarrow> jm_get m k = Some s \<Longrightarrow> se_familyId s = f \<Longrightarrow> refreshSession sign config now uuids k d m = (None, m)"
  by (auto simp: locked_def refreshSession_def)

definition reused :: "auth_config \<Rightarrow> int \<Rightarrow> session \<Rightarrow> bool" where
  "reused config now s \<longleftrightarrow> \<not> se_isRevoked s \<and> now \<le> se_expiration s * 1000 \<and> truthy_string (se_replacedBy s) \<and>
     (case se_usedAt s of None \<Rightarrow> True
      | Some usedAt \<Rightarrow> now - usedAt > config_or (ac_rotationGracePeriodSeconds config) 15 * 1000)"

lemma reused_revokes:
  assumes "jm_get m t = Some s" "reused config now s"
  shows "refreshSession sign config now uuids t d m = (None, snd (revokeFamily (se_familyId s) m))"
proof -
  have "\<not> se_isRevoked s" "\<not> now > se_expiration s * 1000" "truthy_string (se_replacedBy s)"
    using assms(2) by (simp_all add: reused_def)
  then have "refreshSession sign config now uuids t d m = handleReusedToken sign config now s m"
    using assms(1) by (simp add: refreshSession_def)
  then show ?thesis using assms(2) by (cases "se_usedAt s") (simp_all add: handleReusedToken_def reused_def)
qed

lemma family_locked: "f \<in> used \<Longrightarrow> locked f used (snd (revokeFamily f m))"
proof -
  have "se_isRevoked s" if "jm_get (snd (revokeFamily f m)) k = Some s" "se_familyId s = f" for k s
    using that by (cases "jm_get m k") (auto simp: revokeFamily_def revoke_where_get split: if_splits)
  then show "f \<in> used \<Longrightarrow> locked f used (snd (revokeFamily f m))" unfolding locked_def by blast
qed

section \<open>Properties\<close>

text \<open>
  C6: A stolen refresh token is worthless once its theft shows. When a token that was already
  rotated is presented again after the grace period, the refresh fails; and from then on, whatever
  sessions are created, refreshed, revoked or cleaned up, no token of its family is ever accepted
  again, neither the thief's nor the owner's.
\<close>

theorem reused_token_locks_family:
  assumes "session_reachable sign config m used" and "jm_get m t = Some s" and "reused config now s"
    and "session_run sign config (snd (refreshSession sign config now uuids t d m)) used m' used'"
    and "jm_get m' k = Some s'" and "se_familyId s' = se_familyId s"
  shows "fst (refreshSession sign config now uuids t d m) = None \<and>
         fst (refreshSession sign config now' uuids' k d' m') = None"
proof -
  have ok: "session_ok used m" by (rule session_reachable_ok [OF assms(1)])
  let ?m = "snd (revokeFamily (se_familyId s) m)"
  have r: "refreshSession sign config now uuids t d m = (None, ?m)" by (rule reused_revokes [OF assms(2,3)])
  have "se_familyId s \<in> used" using session_okD(2) [OF ok assms(2)] by (simp add: entry_ok_def)
  then have "locked (se_familyId s) used ?m" by (rule family_locked)
  moreover have "session_ok used ?m"
    by (rule ok_narrows [OF ok]) (simp add: revokeFamily_def narrowing session_okD(1) [OF ok])
  ultimately have "locked (se_familyId s) used' m'" using locked_run assms(4) r by simp
  then show ?thesis using locked_refuses [OF _ assms(5,6)] r by simp
qed

definition sample_auth :: auth_config where
  "sample_auth = \<lparr>ac_secret = ''secret'', ac_algorithm = None, ac_accessTokenExpiryMinutes = None,
     ac_refreshTokenExpiryDays = None, ac_rotationGracePeriodSeconds = None\<rparr>"

definition sample_sign :: signer where
  "sample_sign payload secret algorithm = ap_userId payload @ algorithm"

definition sample_rotated :: session_map where
  "sample_rotated = session_step sample_sign sample_auth (Refresh 2000 (''t2'', ''s2'') ''t1'' None)
     (session_step sample_sign sample_auth (Create 1000 (''f'', ''t1'', ''s1'') ''u'' None) [])"

lemma sample_rotated_reachable:
  "session_reachable sample_sign sample_auth sample_rotated (({} \<union> set (drawn (Create 1000 (''f'', ''t1'', ''s1'') ''u'' None))) \<union>
     set (drawn (Refresh 2000 (''t2'', ''s2'') ''t1'' None)))"
  unfolding sample_rotated_def
  by (rule session_run.step [OF session_run.step [OF session_run.start]]) simp_all

theorem reused_token_locks_family_witness:
  "fst (refreshSession sample_sign sample_auth 30000 (''t3'', ''s3'') ''t2'' None
     (snd (refreshSession sample_sign sample_auth 20000 (''x'', ''y'') ''t1'' None sample_rotated))) = None"
proof -
  let ?m = "snd (refreshSession sample_sign sample_auth 20000 (''x'', ''y'') ''t1'' None sample_rotated)"
  have s: "jm_get sample_rotated ''t1'' = Some (the (jm_get sample_rotated ''t1''))"
    "reused sample_auth 20000 (the (jm_get sample_rotated ''t1''))"
    "jm_get ?m ''t2'' = Some (the (jm_get ?m ''t2''))"
    "se_familyId (the (jm_get ?m ''t2'')) = se_familyId (the (jm_get sample_rotated ''t1''))"
    by code_simp+
  show ?thesis using reused_token_locks_family [OF sample_rotated_reachable s(1,2) session_run.start s(3,4)] by blast
qed



text \<open>
  C22: Concurrent refreshes with one token agree. A live token that was not replaced is rotated; the same token presented
  again within the grace period yields the same new refresh token and changes nothing, so two tabs
  that refresh at once share a session instead of revoking each other.
\<close>

theorem rotation_agrees_within_grace:
  assumes "jm_get m t = Some s" and "\<not> se_isRevoked s" and "\<not> truthy_string (se_replacedBy s)"
    and "0 < now" and "now \<le> now'" and "now' \<le> se_expiration s * 1000"
    and "now' - now \<le> config_or (ac_rotationGracePeriodSeconds config) 15 * 1000"
    and "t' \<noteq> []" and "t' \<noteq> t"
  shows "\<exists>p p'. fst (refreshSession sign config now (t', i) t d m) = Some p \<and>
    refreshSession sign config now' uuids t d' (snd (refreshSession sign config now (t', i) t d m)) =
      (Some p', snd (refreshSession sign config now (t', i) t d m)) \<and>
    tp_refreshToken p = t' \<and> tp_refreshToken p' = t'"
proof -
  let ?m = "snd (rotateSession sign config now (t', i) t s d m)"
  let ?old = "s\<lparr>se_replacedBy := Some t', se_usedAt := Some now\<rparr>"
  have first: "refreshSession sign config now (t', i) t d m = (Some (fst (rotateSession sign config now (t', i) t s d m)), ?m)"
    using assms(1-3,5,6) by (simp add: refreshSession_def split_beta)
  have old: "jm_get ?m t = Some ?old" using assms(9) by (simp add: rotateSession_def)
  obtain n where new: "jm_get ?m t' = Some n" "se_token n = t'" "\<not> se_isRevoked n" by (simp add: rotateSession_def)
  have "refreshSession sign config now' uuids t d' ?m = handleReusedToken sign config now' ?old ?m"
    using assms(2,6,8) old by (simp add: refreshSession_def truthy_string_def)
  also have "\<dots> = (Some (buildTokenPair sign config now' t' (se_userId n) (se_id n)), ?m)"
    using assms(4,7) new by (simp add: handleReusedToken_def)
  finally show ?thesis using first by (simp add: rotateSession_def buildTokenPair_def Let_def)
qed

theorem rotation_agrees_within_grace_witness:
  "\<exists>p. fst (refreshSession sample_sign sample_auth 5000 (''a'', ''b'') ''t2'' None sample_rotated) = Some p \<and> tp_refreshToken p = ''a''"
proof -
  have s: "jm_get sample_rotated ''t2'' = Some (the (jm_get sample_rotated ''t2''))"
    "\<not> se_isRevoked (the (jm_get sample_rotated ''t2''))" "\<not> truthy_string (se_replacedBy (the (jm_get sample_rotated ''t2'')))"
    "(0::int) < 5000" "(5000::int) \<le> 6000" "6000 \<le> se_expiration (the (jm_get sample_rotated ''t2'')) * 1000"
    "(6000::int) - 5000 \<le> config_or (ac_rotationGracePeriodSeconds sample_auth) 15 * 1000" "''a'' \<noteq> []" "''a'' \<noteq> ''t2''"
    by code_simp+
  show ?thesis using rotation_agrees_within_grace [OF s, of sample_sign "''b''" None] by blast
qed

end
