(* ===== verification/ServerCore.thy ===== *)
theory ServerCore
  imports Rooms Ejson
begin

text \<open>
  The server: connected clients (\<open>src/server/client-node.ts\<close>), methods (\<open>method.ts\<close>, \<open>methods.ts\<close>),
  events and channels (\<open>event.ts\<close>, \<open>server-channel.ts\<close>), the registries of \<open>server.ts\<close> and the RPC
  dispatch shared by the WebSocket transports (\<open>transports/ws-shared.ts\<close>).

  Client nodes are objects shared by reference: they live in a heap, and the indexes of the server
  hold their numbers. A frame is the payload before \<open>Presentation.encode\<close>, whose encoding is the
  EJSON model. The functions an application registers (handlers, middleware, schemas, checkers)
  are parameters: total functions of the node and the arguments, which may throw. The checks that a method awaits
  are answered at once; the pending token bucket of a node answers through an argument.
\<close>

section \<open>Data\<close>

record client_node =
  cn_uuid :: string
  cn_authenticated :: bool
  cn_meta :: jsval
  cn_context :: jsval
  cn_userId :: "string option"
  cn_user :: "jsval option"
  cn_socket :: "socket option"
  cn_isServer :: bool
  cn_limiter :: bool
  cn_headers :: "(string \<times> string) list"
  cn_remoteAddress :: string
  cn_userAgent :: string
  cn_closed :: bool

text \<open>What a handler does: return, throw at once, or return a promise that is rejected.\<close>

datatype fn_outcome = Returned jsval | Threw js_error | Rejected js_error

datatype method_fn =
    UserFn "client_node \<Rightarrow> jsval \<Rightarrow> fn_outcome"
  | RpcOn
  | RpcOff
  | RpcLogout

record issue =
  is_path :: "string list"
  is_message :: string

type_synonym schema = "jsval \<Rightarrow> (issue list, jsval) result"

record cache_entry =
  ce_value :: "jsval js"
  ce_timestamp :: int

record server_method =
  sm_name :: string
  sm_fn :: method_fn
  sm_cache :: "((jsval option, cache_entry) jsmap \<times> int) option"
  sm_isProtected :: bool
  sm_isSensitive :: bool
  sm_middleware :: "(client_node \<Rightarrow> jsval \<Rightarrow> jsval js) list"
  sm_schema :: "schema option"

record method_options =
  mo_cache :: bool
  mo_maxAge :: "int option"
  mo_protected :: "bool option"
  mo_middleware :: "(client_node \<Rightarrow> jsval \<Rightarrow> jsval js) list"
  mo_schema :: "schema option"
  mo_sensitive :: "bool option"

record server_event =
  ev_name :: string
  ev_isProtected :: bool
  ev_shouldSubscribe :: "client_node \<Rightarrow> jsval \<Rightarrow> string \<Rightarrow> bool js"
  ev_cluster :: bool
  ev_excludeOriginator :: bool

record event_options =
  eo_protected :: "bool option"
  eo_user :: bool
  eo_shouldSubscribe :: "(client_node \<Rightarrow> jsval \<Rightarrow> string \<Rightarrow> bool js) option"
  eo_cluster :: bool
  eo_excludeOriginator :: bool

datatype server_signal =
    Logout_Signal nat
  | Disconnection_Signal nat
  | Authentication_Signal nat
  | Connection_Signal nat
  | MethodExecution string jsval jsval
  | MethodError jsval jsval "js_error option" "string option"
  | UserDisconnected string nat

record server =
  sv_methods :: "(string, server_method) jsmap"
  sv_events :: "(string, server_event) jsmap"
  sv_allClients :: "(string, nat) jsmap"
  sv_clientsByUserId :: "(string, nat list) jsmap"
  sv_channels :: "string list"
  sv_rooms :: room_registry
  sv_nodes :: "client_node list"
  sv_open :: "socket list"
  sv_allowChannel :: "client_node \<Rightarrow> string \<Rightarrow> bool js"
  sv_redis :: bool
  sv_sent :: "(socket \<times> jsval) list"
  sv_closing :: "socket list"
  sv_published :: "(string \<times> string \<times> jsval \<times> string option) list"
  sv_signals :: "server_signal list"

definition NO_CHANNEL :: string where
  "NO_CHANNEL = ''NO_CHANNEL''"

abbreviation node_at :: "server \<Rightarrow> nat \<Rightarrow> client_node" where
  "node_at s i \<equiv> sv_nodes s ! i"

definition update_node :: "nat \<Rightarrow> (client_node \<Rightarrow> client_node) \<Rightarrow> server \<Rightarrow> server" where
  "update_node i f s = s\<lparr>sv_nodes := (sv_nodes s)[i := f (node_at s i)]\<rparr>"

definition signal :: "server_signal \<Rightarrow> server \<Rightarrow> server" where
  "signal g s = s\<lparr>sv_signals := sv_signals s @ [g]\<rparr>"

definition socket_open :: "server \<Rightarrow> client_node \<Rightarrow> bool" where
  "socket_open s c \<longleftrightarrow> (case cn_socket c of None \<Rightarrow> False | Some ws \<Rightarrow> ws \<in> set (sv_open s))"

text \<open>\<open>Presentation.encode\<close> followed by \<open>socket.send\<close> on an open socket.\<close>

definition send_frame :: "host \<Rightarrow> client_node \<Rightarrow> jsval \<Rightarrow> server \<Rightarrow> server js" where
  "send_frame h c payload s =
     (case cn_socket c of
        None \<Rightarrow> Inr s
      | Some ws \<Rightarrow>
          if ws \<notin> set (sv_open s) then Inr s
          else rbind (ejson_stringify h False payload) (\<lambda>_. Inr (s\<lparr>sv_sent := sv_sent s @ [(ws, payload)]\<rparr>)))"

section \<open>Client nodes\<close>

definition new_client_node :: "socket option \<Rightarrow> bool \<Rightarrow> client_node" where
  "new_client_node ws limit =
     \<lparr>cn_uuid = [], cn_authenticated = False, cn_meta = JObj [], cn_context = JObj [], cn_userId = None, cn_user = None,
      cn_socket = ws, cn_isServer = False, cn_limiter = limit, cn_headers = [], cn_remoteAddress = [], cn_userAgent = [],
      cn_closed = False\<rparr>"

datatype header_value = HeaderText string | HeaderList "string list" | HeaderMissing

record tracking_source =
  ts_headers :: "(string \<times> header_value) list"
  ts_ip :: "string option"
  ts_socketAddress :: "string option"

definition header_text :: "(string \<times> header_value) list \<Rightarrow> string \<Rightarrow> string option" where
  "header_text hs name = (case map_of hs name of Some (HeaderText v) \<Rightarrow> Some v | _ \<Rightarrow> None)"

definition setTrackingProperties :: "tracking_source \<Rightarrow> client_node \<Rightarrow> client_node" where
  "setTrackingProperties src c =
     c\<lparr>cn_headers := List.map_filter (\<lambda>(name, v). case v of HeaderText t \<Rightarrow> Some (name, t) | _ \<Rightarrow> None) (ts_headers src),
       cn_userAgent := (case header_text (ts_headers src) ''user-agent'' of None \<Rightarrow> [] | Some a \<Rightarrow> a),
       cn_remoteAddress :=
         (case header_text (ts_headers src) ''x-forwarded-for'' of
            Some a \<Rightarrow> a
          | None \<Rightarrow>
              (case ts_socketAddress src of
                 Some a \<Rightarrow> a
               | None \<Rightarrow> (case ts_ip src of Some a \<Rightarrow> a | None \<Rightarrow> [])))\<rparr>"

definition indexClientByUserId :: "nat \<Rightarrow> server \<Rightarrow> server" where
  "indexClientByUserId i s =
     (case cn_userId (node_at s i) of
        None \<Rightarrow> s
      | Some userId \<Rightarrow>
          if userId = [] then s
          else s\<lparr>sv_clientsByUserId := jm_set userId (js_add i (set_of (sv_clientsByUserId s) userId)) (sv_clientsByUserId s)\<rparr>)"

definition removeClientFromUserIndex :: "nat \<Rightarrow> server \<Rightarrow> server" where
  "removeClientFromUserIndex i s =
     (case cn_userId (node_at s i) of
        None \<Rightarrow> s
      | Some userId \<Rightarrow>
          if userId = [] then s else s\<lparr>sv_clientsByUserId := drop_member userId i (sv_clientsByUserId s)\<rparr>)"

text \<open>A method of a node that throws leaves the changes it made before: the error comes with the state.\<close>

definition setUserId :: "host \<Rightarrow> nat \<Rightarrow> server \<Rightarrow> js_error option \<times> server" where
  "setUserId h i s =
     (if \<not> cn_authenticated (node_at s i) then (None, s)
      else
        (let user = get_prop (cn_context (node_at s i)) ''user'';
             userId = get_prop user ''_id'' in
         if \<not> truthy userId
         then (Some (Error (''The auth function must return a user object with a valid '' @ [CHR 0x22] @ ''_id'' @ [CHR 0x22] @ '' property'')), s)
         else (None, indexClientByUserId i
                (update_node i (\<lambda>c. c\<lparr>cn_userId := Some (js_string h userId), cn_user := Some user\<rparr>) s))))"

definition setContext :: "host \<Rightarrow> nat \<Rightarrow> jsval \<Rightarrow> server \<Rightarrow> js_error option \<times> server" where
  "setContext h i context s =
     setUserId h i (update_node i (\<lambda>c. c\<lparr>cn_context := (if cn_authenticated c then context else JObj [])\<rparr>) s)"

definition emitAuthResult :: "host \<Rightarrow> nat \<Rightarrow> bool \<Rightarrow> server \<Rightarrow> server js" where
  "emitAuthResult h i authenticated s =
     send_frame h (node_at s i) (JObj [(''t'', JStr ''auth''), (''authenticated'', JBool authenticated)]) s"

definition event_payload :: "string \<Rightarrow> string \<Rightarrow> string \<Rightarrow> jsval \<Rightarrow> jsval" where
  "event_payload uuid event channel params =
     JObj [(''t'', JStr ''event''), (''uuid'', JStr uuid), (''event'', JStr event), (''channel'', JStr channel), (''params'', params)]"

text \<open>The result tells whether the frame was accepted; the bytes buffered afterwards are the socket's.\<close>

definition sendTypeFerryEvent :: "host \<Rightarrow> string \<Rightarrow> nat \<Rightarrow> string \<Rightarrow> string \<Rightarrow> jsval \<Rightarrow> server \<Rightarrow> bool \<times> server" where
  "sendTypeFerryEvent h uuid i event channel params s =
     (if \<not> socket_open s (node_at s i) then (False, s)
      else (case send_frame h (node_at s i) (event_payload uuid event channel params) s of
              Inl _ \<Rightarrow> (False, s)
            | Inr s' \<Rightarrow> (True, s')))"

definition close_node :: "nat \<Rightarrow> server \<Rightarrow> server" where
  "close_node i s =
     (if cn_closed (node_at s i) then s
      else
        (let s1 = update_node i (\<lambda>c. c\<lparr>cn_closed := True\<rparr>) s;
             s2 = (case cn_socket (node_at s i) of None \<Rightarrow> s1 | Some ws \<Rightarrow> s1\<lparr>sv_closing := js_add ws (sv_closing s1)\<rparr>)
         in signal (Disconnection_Signal i) s2))"

section \<open>Server registries\<close>

definition addClient :: "nat \<Rightarrow> server \<Rightarrow> server" where
  "addClient i s = s\<lparr>sv_allClients := jm_set (cn_uuid (node_at s i)) i (sv_allClients s)\<rparr>"

definition deleteClient :: "nat \<Rightarrow> server \<Rightarrow> server" where
  "deleteClient i s =
     (let s1 = removeClientFromUserIndex i (s\<lparr>sv_allClients := jm_delete (cn_uuid (node_at s i)) (sv_allClients s)\<rparr>)
      in case cn_socket (node_at s i) of None \<Rightarrow> s1 | Some ws \<Rightarrow> s1\<lparr>sv_rooms := leaveAll ws (sv_rooms s1)\<rparr>)"

definition getClientsByUserId :: "string \<Rightarrow> server \<Rightarrow> nat list" where
  "getClientsByUserId userId s = set_of (sv_clientsByUserId s) userId"

definition disconnectUser :: "string \<Rightarrow> string option \<Rightarrow> server \<Rightarrow> nat \<times> server" where
  "disconnectUser userId exceptNodeUuid s =
     (case map_of (sv_clientsByUserId s) userId of
        None \<Rightarrow> (0, s)
      | Some nodes \<Rightarrow>
          (let closed = filter (\<lambda>i. Some (cn_uuid (node_at s i)) \<noteq> exceptNodeUuid) nodes;
               s1 = foldl (\<lambda>s i. close_node i s) s closed
           in (length closed, signal (UserDisconnected userId (length closed)) s1)))"

definition new_method :: "string \<Rightarrow> method_fn \<Rightarrow> method_options \<Rightarrow> server_method" where
  "new_method name fn opts =
     \<lparr>sm_name = name, sm_fn = fn,
      sm_cache = (if mo_cache opts then Some ([], case mo_maxAge opts of None \<Rightarrow> 60000 | Some a \<Rightarrow> a) else None),
      sm_isProtected = (mo_protected opts = Some True), sm_isSensitive = (mo_sensitive opts = Some True),
      sm_middleware = mo_middleware opts, sm_schema = mo_schema opts\<rparr>"

definition addMethod :: "string \<Rightarrow> method_fn \<Rightarrow> method_options \<Rightarrow> server \<Rightarrow> server" where
  "addMethod name fn opts s = s\<lparr>sv_methods := jm_set name (new_method name fn opts) (sv_methods s)\<rparr>"

definition default_options :: "bool \<Rightarrow> method_options" where
  "default_options protect = \<lparr>mo_cache = False, mo_maxAge = None, mo_protected = Some protect, mo_middleware = [],
     mo_schema = None, mo_sensitive = None\<rparr>"

definition createDefaultMethods :: "server \<Rightarrow> server" where
  "createDefaultMethods s =
     addMethod ''rpc:logout'' RpcLogout (default_options True)
       (addMethod ''rpc:off'' RpcOff (default_options False) (addMethod ''rpc:on'' RpcOn (default_options False) s))"

text \<open>The name of the channel \<open>server.channel(name)\<close> returns; a new one is created on demand.\<close>

definition channel :: "jsval \<Rightarrow> server \<Rightarrow> string \<times> server" where
  "channel v s =
     (case (case v of JObjectId hex \<Rightarrow> JStr hex | _ \<Rightarrow> v) of
        JStr name \<Rightarrow>
          if name = [] \<or> name = NO_CHANNEL then (NO_CHANNEL, s) else (name, s\<lparr>sv_channels := js_add name (sv_channels s)\<rparr>)
      | _ \<Rightarrow> (NO_CHANNEL, s))"

section \<open>Events and channels\<close>

definition own_channel :: "host \<Rightarrow> client_node \<Rightarrow> jsval \<Rightarrow> string \<Rightarrow> bool js" where
  "own_channel h c event ch =
     Inr (case cn_userId c of None \<Rightarrow> False | Some userId \<Rightarrow> userId \<noteq> [] \<and> ch = userId)"

definition new_event :: "host \<Rightarrow> string \<Rightarrow> event_options \<Rightarrow> server_event" where
  "new_event h name opts =
     \<lparr>ev_name = name, ev_isProtected = (eo_user opts \<or> eo_protected opts = Some True),
      ev_shouldSubscribe =
        (case eo_shouldSubscribe opts of
           Some f \<Rightarrow> f
         | None \<Rightarrow> if eo_user opts then own_channel h else (\<lambda>_ _ _. Inr True)),
      ev_cluster = eo_cluster opts, ev_excludeOriginator = eo_excludeOriginator opts\<rparr>"

definition addEvent :: "host \<Rightarrow> string \<Rightarrow> event_options \<Rightarrow> server \<Rightarrow> server" where
  "addEvent h name opts s = s\<lparr>sv_events := jm_set name (new_event h name opts) (jm_delete name (sv_events s))\<rparr>"

definition getRoomName :: "string \<Rightarrow> string \<Rightarrow> string" where
  "getRoomName ch eventName = ''typeferry:'' @ ch @ '':'' @ eventName"

definition propagate :: "string \<Rightarrow> string \<Rightarrow> jsval \<Rightarrow> string option \<Rightarrow> server \<Rightarrow> server" where
  "propagate channelName event payload excludeUuid s =
     (case map_of (sv_events s) event of
        None \<Rightarrow> s
      | Some _ \<Rightarrow>
          (let exclude = (case excludeUuid of
                 None \<Rightarrow> None
               | Some uuid \<Rightarrow> if uuid = [] then None
                              else (case map_of (sv_allClients s) uuid of None \<Rightarrow> None | Some i \<Rightarrow> cn_socket (node_at s i)))
           in s\<lparr>sv_sent := sv_sent s @ broadcast (\<lambda>ws. ws \<in> set (sv_open s)) (getRoomName channelName event) payload exclude (sv_rooms s)\<rparr>))"

definition event_handler :: "string \<Rightarrow> string \<Rightarrow> jsval \<Rightarrow> server_event \<Rightarrow> server \<Rightarrow> server" where
  "event_handler uuid channelName params event s =
     (let payload = event_payload uuid (ev_name event) channelName params;
          excludeUuid = (if ev_excludeOriginator event
                         then (case get_prop params ''uuid'' of JStr u \<Rightarrow> Some u | _ \<Rightarrow> None) else None)
      in if ev_cluster event \<and> sv_redis s
         then s\<lparr>sv_published := sv_published s @ [(ev_name event, channelName, payload, excludeUuid)]\<rparr>
         else propagate channelName (ev_name event) payload excludeUuid s)"

text \<open>Emitting on a channel: its catch-all listener hands registered events to their handler.\<close>

definition emit_channel :: "string \<Rightarrow> string \<Rightarrow> string \<Rightarrow> jsval \<Rightarrow> server \<Rightarrow> server" where
  "emit_channel uuid channelName name params s =
     (case map_of (sv_events s) name of None \<Rightarrow> s | Some event \<Rightarrow> event_handler uuid channelName params event s)"

text \<open>A message received from Redis is propagated on the channel it names.\<close>

definition redis_message :: "string \<times> string \<times> jsval \<times> string option \<Rightarrow> server \<Rightarrow> server" where
  "redis_message msg s =
     (let (event, ch, message, excludeUuid) = msg; (name, s1) = channel (JStr ch) s in propagate name event message excludeUuid s1)"

definition isSubscribed :: "nat \<Rightarrow> string \<Rightarrow> string \<Rightarrow> server \<Rightarrow> bool" where
  "isSubscribed i channelName event s =
     (case cn_socket (node_at s i) of
        None \<Rightarrow> False
      | Some ws \<Rightarrow> has_member ws (getRoomName channelName event) (sv_rooms s))"

section \<open>Built-in methods\<close>

text \<open>The elements a \<open>for ... of\<close> loop visits.\<close>

fun iterate :: "jsval \<Rightarrow> jsval list js" where
  "iterate (JArr xs) = Inr xs"
| "iterate (JStr s) = Inr (map (\<lambda>c. JStr [c]) s)"
| "iterate (JBinary bs) = Inr (map (\<lambda>b. jint (uint b)) bs)"
| "iterate _ = Inl (TypeError ''events is not iterable'')"

definition event_of :: "server \<Rightarrow> jsval \<Rightarrow> server_event option" where
  "event_of s name = (case name of JStr n \<Rightarrow> map_of (sv_events s) n | _ \<Rightarrow> None)"

text \<open>The arguments of \<open>rpc:on\<close> and \<open>rpc:off\<close>, \<open>{ events, channel = NO_CHANNEL }\<close>.\<close>

definition subscription_args :: "host \<Rightarrow> jsval \<Rightarrow> (jsval \<times> string) js" where
  "subscription_args h params =
     (if params = JUndef \<or> params = JNull then Inl (TypeError ''Cannot destructure property'')
      else Inr (get_prop params ''events'',
                case get_prop params ''channel'' of JUndef \<Rightarrow> NO_CHANNEL | c \<Rightarrow> js_string h c))"

definition canSubscribeToEvent :: "host \<Rightarrow> nat \<Rightarrow> jsval \<Rightarrow> string \<Rightarrow> server \<Rightarrow> (bool \<times> server) js" where
  "canSubscribeToEvent h i eventName ch s =
     (case event_of s eventName of
        None \<Rightarrow> Inr (False, s)
      | Some event \<Rightarrow>
          if ev_isProtected event \<and> \<not> cn_authenticated (node_at s i) then Inr (False, s)
          else rbind (ev_shouldSubscribe event (node_at s i) eventName ch) (\<lambda>allowed.
            if \<not> allowed then Inr (False, s)
            else (case cn_socket (node_at s i) of
                    None \<Rightarrow> Inr (False, s)
                  | Some ws \<Rightarrow> Inr (True, s\<lparr>sv_rooms := join ws (getRoomName ch (js_string h eventName)) (sv_rooms s)\<rparr>))))"

fun subscribe_each :: "host \<Rightarrow> nat \<Rightarrow> string \<Rightarrow> jsval list \<Rightarrow> jsobj \<Rightarrow> server \<Rightarrow> jsval js \<times> server" where
  "subscribe_each h i ch [] acc s = (Inr (JObj acc), s)"
| "subscribe_each h i ch (eventName # rest) acc s =
     (case canSubscribeToEvent h i eventName ch s of
        Inl err \<Rightarrow> (Inl err, s)
      | Inr (ok, s') \<Rightarrow> subscribe_each h i ch rest (obj_set (js_string h eventName) (JBool ok) acc) s')"

definition rpcOn :: "host \<Rightarrow> nat \<Rightarrow> jsval \<Rightarrow> server \<Rightarrow> jsval js \<times> server" where
  "rpcOn h i params s =
     (case subscription_args h params of
        Inl err \<Rightarrow> (Inl err, s)
      | Inr (events, ch) \<Rightarrow>
          if isEmpty events then (Inr (JObj []), s)
          else
            (case sv_allowChannel s (node_at s i) ch of
               Inl err \<Rightarrow> (Inl err, s)
             | Inr channelAllowed \<Rightarrow>
                 (case iterate events of
                    Inl err \<Rightarrow> (Inl err, s)
                  | Inr names \<Rightarrow>
                      if channelAllowed then subscribe_each h i ch names [] s
                      else (Inr (JObj (foldl (\<lambda>acc n. obj_set (js_string h n) (JBool False) acc) [] names)), s))))"

definition unsubscribe_one :: "host \<Rightarrow> socket \<Rightarrow> string \<Rightarrow> jsobj \<times> server \<Rightarrow> jsval \<Rightarrow> jsobj \<times> server" where
  "unsubscribe_one h ws ch state eventName =
     (let (acc, s) = state; key = js_string h eventName in
      case event_of s eventName of
        None \<Rightarrow> (obj_set key (JBool False) acc, s)
      | Some _ \<Rightarrow> (obj_set key (JBool True) acc, s\<lparr>sv_rooms := leave ws (getRoomName ch key) (sv_rooms s)\<rparr>))"

definition rpcOff :: "host \<Rightarrow> nat \<Rightarrow> jsval \<Rightarrow> server \<Rightarrow> jsval js \<times> server" where
  "rpcOff h i params s =
     (case subscription_args h params of
        Inl err \<Rightarrow> (Inl err, s)
      | Inr (events, ch) \<Rightarrow>
          (case cn_socket (node_at s i) of
             None \<Rightarrow> (Inr (JObj []), s)
           | Some ws \<Rightarrow>
               (case events of
                  JArr names \<Rightarrow> (let (acc, s') = foldl (unsubscribe_one h ws ch) ([], s) names in (Inr (JObj acc), s'))
                | _ \<Rightarrow> (Inl (TypeError ''events.reduce is not a function''), s))))"

definition rpcLogout :: "nat \<Rightarrow> server \<Rightarrow> jsval js \<times> server" where
  "rpcLogout i s =
     (Inr (JBool True),
      signal (Logout_Signal i) (update_node i (\<lambda>c. c\<lparr>cn_context := JNull, cn_authenticated := False, cn_userId := None\<rparr>) s))"

section \<open>Executing a method\<close>

definition REDACTED_METHOD_TELEMETRY :: string where
  "REDACTED_METHOD_TELEMETRY = ''[REDACTED]''"

definition redactMethodTelemetry :: "server_method \<Rightarrow> jsval \<Rightarrow> jsval" where
  "redactMethodTelemetry m v = (if sm_isSensitive m then JStr REDACTED_METHOD_TELEMETRY else v)"

definition redact_error :: "server_method \<Rightarrow> js_error \<Rightarrow> js_error option" where
  "redact_error m err = (if sm_isSensitive m then None else Some err)"

definition assign_entries :: "jsval \<Rightarrow> jsobj" where
  "assign_entries v =
     (case v of JStr t \<Rightarrow> map (\<lambda>(i, c). (nat_digits i, JStr [c])) (zip [0..<length t] t) | _ \<Rightarrow> own_entries v)"

definition object_assign :: "jsobj \<Rightarrow> jsval list \<Rightarrow> jsobj" where
  "object_assign target sources = foldl (\<lambda>acc v. foldl (\<lambda>acc (k, x). obj_set k x acc) acc (assign_entries v)) target sources"

definition intercept :: "(client_node \<Rightarrow> jsval \<Rightarrow> jsval js) \<Rightarrow> client_node \<Rightarrow> jsval \<Rightarrow> jsval js" where
  "intercept f c params =
     rbind (f c params) (\<lambda>result.
       if result \<noteq> JUndef \<and> result \<noteq> JNull \<and> \<not> isPlainObject result then Inr result
       else Inr (JObj (object_assign [] [params, if result = JUndef \<or> result = JNull then JObj [] else result])))"

fun runMiddleware :: "(client_node \<Rightarrow> jsval \<Rightarrow> jsval js) list \<Rightarrow> client_node \<Rightarrow> jsval \<Rightarrow> jsval js" where
  "runMiddleware [] c params = Inr params"
| "runMiddleware (f # fs) c params = rbind (intercept f c params) (runMiddleware fs c)"

definition validate_params :: "schema option \<Rightarrow> jsval \<Rightarrow> jsval js" where
  "validate_params sch params =
     (case sch of
        None \<Rightarrow> Inr params
      | Some parse \<Rightarrow>
          (case parse (if params = JUndef \<or> params = JNull then JObj [] else params) of
             Inr clean \<Rightarrow> Inr clean
           | Inl issues \<Rightarrow>
               (let messages = map (\<lambda>p. join_with ''.'' (is_path p) @ '': '' @ is_message p) issues in
                Inl (SchemaValidationError (''Invalid Params: '' @ join_with '', '' messages) messages))))"

fun settle_outcome :: "fn_outcome \<Rightarrow> jsval js" where
  "settle_outcome (Returned v) = Inr v"
| "settle_outcome (Threw err) = Inl err"
| "settle_outcome (Rejected err) = Inl err"

definition memo_call ::
  "int \<Rightarrow> (jsval \<Rightarrow> fn_outcome) \<Rightarrow> jsval \<Rightarrow> jsval option \<Rightarrow> (jsval option, cache_entry) jsmap \<Rightarrow>
   jsval js \<times> (jsval option, cache_entry) jsmap" where
  "memo_call now fn params key cache =
     (case fn params of
        Threw err \<Rightarrow> (Inl err, cache)
      | result \<Rightarrow> (settle_outcome result, jm_set key \<lparr>ce_value = settle_outcome result, ce_timestamp = now\<rparr> cache))"

text \<open>\<open>customMemoize\<close>: one cache per method, keyed by the encoded parameters.\<close>

definition memoized ::
  "host \<Rightarrow> int \<Rightarrow> int \<Rightarrow> (jsval \<Rightarrow> fn_outcome) \<Rightarrow> jsval \<Rightarrow> (jsval option, cache_entry) jsmap \<Rightarrow>
   jsval js \<times> (jsval option, cache_entry) jsmap" where
  "memoized h now maxAge fn params cache =
     (case ejson_stringify h False params of
        Inl err \<Rightarrow> (Inl err, cache)
      | Inr key \<Rightarrow>
          (case map_of cache key of
             Some cached \<Rightarrow>
               if now - ce_timestamp cached < maxAge then (ce_value cached, cache)
               else memo_call now fn params key cache
           | None \<Rightarrow> memo_call now fn params key cache))"

definition call_fn :: "host \<Rightarrow> int \<Rightarrow> server_method \<Rightarrow> nat \<Rightarrow> jsval \<Rightarrow> server \<Rightarrow> jsval js \<times> server" where
  "call_fn h now m i params s =
     (case sm_fn m of
        RpcOn \<Rightarrow> rpcOn h i params s
      | RpcOff \<Rightarrow> rpcOff h i params s
      | RpcLogout \<Rightarrow> rpcLogout i s
      | UserFn f \<Rightarrow>
          (case sm_cache m of
             None \<Rightarrow> (settle_outcome (f (node_at s i) params), s)
           | Some (cache, maxAge) \<Rightarrow>
               (let (result, cache') = memoized h now maxAge (f (node_at s i)) params cache in
                (result, s\<lparr>sv_methods := jm_set (sm_name m) (m\<lparr>sm_cache := Some (cache', maxAge)\<rparr>) (sv_methods s)\<rparr>))))"

definition exec :: "host \<Rightarrow> int \<Rightarrow> server_method \<Rightarrow> jsval \<Rightarrow> nat \<Rightarrow> server \<Rightarrow> jsval js \<times> server" where
  "exec h now m params i s =
     (case validate_params (sm_schema m) params of
        Inl err \<Rightarrow> (Inl err, s)
      | Inr clean \<Rightarrow>
          (case runMiddleware (sm_middleware m) (node_at s i) clean of
             Inl err \<Rightarrow> (Inl err, s)
           | Inr args \<Rightarrow>
               (case call_fn h now m i args s of
                  (Inl err, s') \<Rightarrow> (Inl err, s')
                | (Inr result, s') \<Rightarrow>
                    (Inr result,
                     signal (MethodExecution (sm_name m) (redactMethodTelemetry m clean) (redactMethodTelemetry m result)) s'))))"

section \<open>RPC over WebSockets\<close>

text \<open>The fields of a response; an empty error message counts as no error.\<close>

definition response_payload :: "jsval \<Rightarrow> jsval \<Rightarrow> string option \<Rightarrow> string list option \<Rightarrow> jsval" where
  "response_payload rid result err errs =
     JObj ([(''t'', JStr ''rpc:res''), (''id'', rid)] @
       (case err of
          Some message \<Rightarrow>
            if message = [] then [(''result'', result)]
            else (''error'', JStr message) # (case errs of None \<Rightarrow> [] | Some es \<Rightarrow> [(''errors'', JArr (map JStr es))])
        | None \<Rightarrow> [(''result'', result)]))"

definition sendResponse :: "host \<Rightarrow> nat \<Rightarrow> jsval \<Rightarrow> jsval \<Rightarrow> string option \<Rightarrow> string list option \<Rightarrow> server \<Rightarrow> server js" where
  "sendResponse h i rid result err errs s = send_frame h (node_at s i) (response_payload rid result err errs) s"

text \<open>A failure to encode inside an error response surfaces as an unhandled rejection and sends nothing.\<close>

definition send_or_drop :: "server js \<Rightarrow> server \<Rightarrow> server" where
  "send_or_drop r s = (case r of Inl _ \<Rightarrow> s | Inr s' \<Rightarrow> s')"

definition report_error :: "server_method \<Rightarrow> js_error \<Rightarrow> jsval \<Rightarrow> jsval \<Rightarrow> nat \<Rightarrow> server \<Rightarrow> server" where
  "report_error m err method params i s =
     signal (MethodError method (redactMethodTelemetry m params) (redact_error m err) (cn_userId (node_at s i))) s"

definition handleRpcError :: "host \<Rightarrow> nat \<Rightarrow> server_method \<Rightarrow> js_error \<Rightarrow> jsval \<Rightarrow> jsval \<Rightarrow> jsval \<Rightarrow> server \<Rightarrow> server" where
  "handleRpcError h i m err rid method params s =
     (case err of
        PublicError message \<Rightarrow> send_or_drop (sendResponse h i rid JUndef (Some message) None s) s
      | _ \<Rightarrow>
          (let s1 = report_error m err method params i s in
           case err of
             SchemaValidationError message errs \<Rightarrow> send_or_drop (sendResponse h i rid JUndef (Some message) (Some errs) s1) s1
           | _ \<Rightarrow> send_or_drop (sendResponse h i rid JUndef (Some ''Internal Error'') None s1) s1))"

definition method_of :: "server \<Rightarrow> jsval \<Rightarrow> server_method option" where
  "method_of s name = (case name of JStr n \<Rightarrow> map_of (sv_methods s) n | _ \<Rightarrow> None)"

text \<open>\<open>granted\<close> is the answer of the node's token bucket, where it has one.\<close>

definition handleRpc :: "host \<Rightarrow> int \<Rightarrow> bool \<Rightarrow> nat \<Rightarrow> jsval \<Rightarrow> jsval \<Rightarrow> jsval \<Rightarrow> server \<Rightarrow> server" where
  "handleRpc h now granted i rid method params s =
     (let refuse = (\<lambda>message. send_or_drop (sendResponse h i rid JUndef (Some message) None s) s) in
      if cn_limiter (node_at s i) \<and> \<not> granted then refuse ''Rate Limit Exceeded''
      else
        (case method_of s method of
           None \<Rightarrow> refuse ''Method Not Found''
         | Some m \<Rightarrow>
             if sm_isProtected m \<and> \<not> cn_authenticated (node_at s i) then refuse ''Method Forbidden''
             else
               (case exec h now m params i s of
                  (Inl err, s') \<Rightarrow> handleRpcError h i m err rid method params s'
                | (Inr result, s') \<Rightarrow>
                    (case sendResponse h i rid result None None s' of
                       Inr s'' \<Rightarrow> s''
                     | Inl err \<Rightarrow> handleRpcError h i m err rid method params s'))))"

definition handleRpcVoid :: "host \<Rightarrow> int \<Rightarrow> bool \<Rightarrow> nat \<Rightarrow> jsval \<Rightarrow> jsval \<Rightarrow> server \<Rightarrow> server" where
  "handleRpcVoid h now granted i method params s =
     (if cn_limiter (node_at s i) \<and> \<not> granted then s
      else
        (case method_of s method of
           None \<Rightarrow> s
         | Some m \<Rightarrow>
             if sm_isProtected m \<and> \<not> cn_authenticated (node_at s i) then s
             else
               (case exec h now m params i s of
                  (Inl err, s') \<Rightarrow> report_error m err method params i s'
                | (Inr _, s') \<Rightarrow> s')))"

text \<open>\<open>server.call\<close>: a fresh node without socket runs the method, whatever its protection.\<close>

definition server_call :: "host \<Rightarrow> int \<Rightarrow> string \<Rightarrow> jsval \<Rightarrow> server \<Rightarrow> jsval js \<times> server" where
  "server_call h now method params s =
     (case map_of (sv_methods s) method of
        None \<Rightarrow> (Inl (Error (''Method not found: '' @ method)), s)
      | Some m \<Rightarrow>
          exec h now m params (length (sv_nodes s))
            (s\<lparr>sv_nodes := sv_nodes s @ [(new_client_node None False)\<lparr>cn_isServer := True\<rparr>]\<rparr>))"

section \<open>Connections\<close>

text \<open>
  The authentication of a connection. \<open>configured\<close>: the transport has an authenticator for the
  handshake, or the server has authentication and the client sent a token. \<open>result\<close> is what the
  authenticator answers, or the error of a rejection or of the timeout.
\<close>

definition authenticateNode :: "host \<Rightarrow> bool \<Rightarrow> jsval js \<Rightarrow> nat \<Rightarrow> server \<Rightarrow> server" where
  "authenticateNode h configured result i s =
     (let failed = (\<lambda>s. if socket_open s (node_at s i) then send_or_drop (emitAuthResult h i False s) s else s) in
      if \<not> configured then send_or_drop (emitAuthResult h i False s) s
      else
        (case result of
           Inl _ \<Rightarrow> failed s
         | Inr context \<Rightarrow>
             if \<not> socket_open s (node_at s i) then s
             else if truthy context
             then
               (case setContext h i context (update_node i (\<lambda>c. c\<lparr>cn_authenticated := True\<rparr>) s) of
                  (Some _, s') \<Rightarrow> failed s'
                | (None, s') \<Rightarrow>
                    (let s'' = signal (Authentication_Signal i) s' in send_or_drop (emitAuthResult h i True s'') s''))
             else send_or_drop (emitAuthResult h i (cn_authenticated (node_at s i)) s) s))"

definition id_character :: "char \<Rightarrow> bool" where
  "id_character c \<longleftrightarrow> (CHR ''a'' \<le> c \<and> c \<le> CHR ''z'') \<or> (CHR ''A'' \<le> c \<and> c \<le> CHR ''Z'') \<or> is_digit c \<or> c = CHR ''-''"

definition MAX_UUID_LENGTH :: nat where
  "MAX_UUID_LENGTH = 64"

definition MAX_META_SIZE :: nat where
  "MAX_META_SIZE = 10000"

definition validateUuid :: "string \<Rightarrow> jsval \<Rightarrow> string" where
  "validateUuid random v =
     (case v of
        JStr uuid \<Rightarrow>
          if uuid = [] \<or> length uuid > MAX_UUID_LENGTH then random
          else take MAX_UUID_LENGTH (filter id_character uuid)
      | _ \<Rightarrow> random)"

text \<open>\<open>json_length\<close> is the length of \<open>JSON.stringify(meta)\<close>, or \<open>None\<close> where that throws.\<close>

definition validateMeta :: "(jsval \<Rightarrow> nat option) \<Rightarrow> jsval \<Rightarrow> jsval" where
  "validateMeta json_length meta =
     (case meta of
        JObj kvs \<Rightarrow>
          (case json_length meta of
             None \<Rightarrow> JObj []
           | Some n \<Rightarrow> if n > MAX_META_SIZE then JObj [] else meta)
      | _ \<Rightarrow> JObj [])"

definition parseMeta :: "(jsval \<Rightarrow> nat option) \<Rightarrow> (string \<Rightarrow> jsval option) \<Rightarrow> string option \<Rightarrow> jsval" where
  "parseMeta json_length parse_json raw =
     (case raw of
        None \<Rightarrow> JObj []
      | Some text \<Rightarrow>
          if text = [] then JObj []
          else (case parse_json text of None \<Rightarrow> JObj [] | Some v \<Rightarrow> validateMeta json_length v))"

end
