(* ===== verification/ServerWs.thy ===== *)
theory ServerWs
  imports ServerCore
begin

text \<open>
  The WebSocket transport (\<open>src/server/transports/websocket-transport.ts\<close>): admission of upgrades,
  connections, messages and the keep-alive. Timers are steps: a ping tick is the callback of the
  interval of a socket that still has one.
\<close>

record ws_transport =
  wt_server :: server
  wt_acceptConnections :: bool
  wt_path :: string
  wt_origins :: "string list option"
  wt_pingTimers :: "socket list"
  wt_pongReceived :: "(socket, bool) jsmap"
  wt_terminated :: "socket list"

definition new_transport :: "server \<Rightarrow> string list \<Rightarrow> string option \<Rightarrow> ws_transport" where
  "new_transport s origins path =
     \<lparr>wt_server = s, wt_acceptConnections = True, wt_path = (case path of None \<Rightarrow> ''/typeferry-ws'' | Some p \<Rightarrow> p),
      wt_origins = (if origins = [] then None else Some origins), wt_pingTimers = [], wt_pongReceived = [], wt_terminated = []\<rparr>"

datatype upgrade_answer = NotFound | Destroyed | Forbidden | Upgraded

definition validateOrigin :: "ws_transport \<Rightarrow> string option \<Rightarrow> bool" where
  "validateOrigin t origin =
     (case wt_origins t of
        None \<Rightarrow> True
      | Some origins \<Rightarrow> (case origin of None \<Rightarrow> True | Some o' \<Rightarrow> o' = [] \<or> o' \<in> set origins))"

definition upgrade :: "ws_transport \<Rightarrow> string \<Rightarrow> string option \<Rightarrow> upgrade_answer" where
  "upgrade t pathname origin =
     (if pathname \<noteq> wt_path t then NotFound
      else if \<not> wt_acceptConnections t then Destroyed
      else if \<not> validateOrigin t origin then Forbidden
      else Upgraded)"

abbreviation on_server :: "(server \<Rightarrow> server) \<Rightarrow> ws_transport \<Rightarrow> ws_transport" where
  "on_server f t \<equiv> t\<lparr>wt_server := f (wt_server t)\<rparr>"

definition startPing :: "socket \<Rightarrow> ws_transport \<Rightarrow> ws_transport" where
  "startPing ws t = t\<lparr>wt_pongReceived := jm_set ws True (wt_pongReceived t), wt_pingTimers := js_add ws (wt_pingTimers t)\<rparr>"

definition stopPing :: "socket \<Rightarrow> ws_transport \<Rightarrow> ws_transport" where
  "stopPing ws t = t\<lparr>wt_pingTimers := js_remove ws (wt_pingTimers t), wt_pongReceived := jm_delete ws (wt_pongReceived t)\<rparr>"

text \<open>
  A new connection: its node is the next object of the heap. The answer of the authentication
  comes later, as a step of its own.
\<close>

definition handleConnection ::
  "socket \<Rightarrow> string \<Rightarrow> jsval \<Rightarrow> tracking_source \<Rightarrow> bool \<Rightarrow> ws_transport \<Rightarrow> ws_transport" where
  "handleConnection ws uuid meta src limit t =
     (let s = wt_server t; i = length (sv_nodes s);
          c = setTrackingProperties src ((new_client_node (Some ws) limit)\<lparr>cn_uuid := uuid, cn_meta := meta\<rparr>);
          s1 = s\<lparr>sv_nodes := sv_nodes s @ [c], sv_open := js_add ws (sv_open s)\<rparr>
      in startPing ws (t\<lparr>wt_server := signal (Connection_Signal i) (addClient i s1)\<rparr>))"

definition handleClose :: "nat \<Rightarrow> socket \<Rightarrow> ws_transport \<Rightarrow> ws_transport" where
  "handleClose i ws t =
     (let t1 = stopPing ws (on_server (\<lambda>s. s\<lparr>sv_open := js_remove ws (sv_open s)\<rparr>) t) in
      on_server (\<lambda>s. deleteClient i (close_node i (s\<lparr>sv_rooms := leaveAll ws (sv_rooms s)\<rparr>))) t1)"

text \<open>\<open>msg\<close> is the decoded text; a text that does not decode, or decodes to a value without properties, is ignored.\<close>

definition handleMessage :: "host \<Rightarrow> int \<Rightarrow> bool \<Rightarrow> nat \<Rightarrow> jsval js \<Rightarrow> ws_transport \<Rightarrow> ws_transport" where
  "handleMessage h now granted i decoded t =
     (case decoded of
        Inl _ \<Rightarrow> t
      | Inr msg \<Rightarrow>
          (let kind = get_prop msg ''t''; method = get_prop msg ''method''; params = get_prop msg ''params'' in
           if kind = JStr ''rpc'' then on_server (handleRpc h now granted i (get_prop msg ''id'') method params) t
           else if kind = JStr ''rpc:void'' then on_server (handleRpcVoid h now granted i method params) t
           else if kind = JStr ''pong''
           then (case cn_socket (node_at (wt_server t) i) of
                   None \<Rightarrow> t
                 | Some ws \<Rightarrow> t\<lparr>wt_pongReceived := jm_set ws True (wt_pongReceived t)\<rparr>)
           else t))"

definition ping_frame :: jsval where
  "ping_frame = JObj [(''t'', JStr ''ping'')]"

definition ping_tick :: "socket \<Rightarrow> ws_transport \<Rightarrow> ws_transport" where
  "ping_tick ws t =
     (if ws \<notin> set (wt_pingTimers t) then t
      else if jm_get (wt_pongReceived t) ws \<noteq> Some True then t\<lparr>wt_terminated := js_add ws (wt_terminated t)\<rparr>
      else
        (let t1 = t\<lparr>wt_pongReceived := jm_set ws False (wt_pongReceived t)\<rparr> in
         if ws \<in> set (sv_open (wt_server t))
         then on_server (\<lambda>s. s\<lparr>sv_sent := sv_sent s @ [(ws, ping_frame)]\<rparr>) t1 else t1))"

text \<open>The native pong of the WebSocket protocol.\<close>

definition native_pong :: "socket \<Rightarrow> ws_transport \<Rightarrow> ws_transport" where
  "native_pong ws t = t\<lparr>wt_pongReceived := jm_set ws True (wt_pongReceived t)\<rparr>"

definition close_transport :: "ws_transport \<Rightarrow> ws_transport" where
  "close_transport t =
     (let s = wt_server t in
      t\<lparr>wt_server := s\<lparr>sv_closing := fold js_add (filter (\<lambda>ws. ws \<in> set (sv_open s)) (wt_pingTimers t)) (sv_closing s)\<rparr>,
        wt_pingTimers := [], wt_pongReceived := []\<rparr>)"

section \<open>Steps\<close>

datatype ws_step =
    Connect socket string jsval tracking_source bool
  | Authenticated nat bool "jsval js"
  | Message nat int bool "jsval js"
  | PingTick socket
  | NativePong socket
  | Closed nat socket
  | Emit string string string jsval
  | DisconnectUser string "string option"

definition ws_step :: "host \<Rightarrow> ws_step \<Rightarrow> ws_transport \<Rightarrow> ws_transport" where
  "ws_step h label t =
     (case label of
        Connect ws uuid meta src limit \<Rightarrow> handleConnection ws uuid meta src limit t
      | Authenticated i configured result \<Rightarrow> on_server (authenticateNode h configured result i) t
      | Message i now granted decoded \<Rightarrow> handleMessage h now granted i decoded t
      | PingTick ws \<Rightarrow> ping_tick ws t
      | NativePong ws \<Rightarrow> native_pong ws t
      | Closed i ws \<Rightarrow> handleClose i ws t
      | Emit uuid channelName name params \<Rightarrow> on_server (emit_channel uuid channelName name params) t
      | DisconnectUser userId exceptNodeUuid \<Rightarrow> on_server (\<lambda>s. snd (disconnectUser userId exceptNodeUuid s)) t)"

end
