(* ===== verification/ServerProps.thy ===== *)
theory ServerProps
  imports ServerWs EjsonWire
begin

text \<open>
  Properties of the server: every call gets one answer and nothing runs past a guard, an emitted
  event reaches exactly the subscribed sockets, and two runs in which authentication state and
  what the client was told or still receives come apart.
\<close>

section \<open>Sending\<close>

lemma send_frame_open:
  "cn_socket c = Some ws \<Longrightarrow> ws \<in> set (sv_open s) \<Longrightarrow> send_frame h c payload s = Inr (s\<lparr>sv_sent := sv_sent s @ [(ws, payload)]\<rparr>)"
  using stringify_total [of h False payload] by (auto simp: send_frame_def)

text \<open>Steps that send nothing and leave sockets alone.\<close>

definition quiet :: "server \<Rightarrow> server \<Rightarrow> bool" where
  "quiet s s' \<longleftrightarrow> sv_sent s' = sv_sent s \<and> sv_open s' = sv_open s \<and> sv_clientsByUserId s' = sv_clientsByUserId s \<and>
     map cn_socket (sv_nodes s') = map cn_socket (sv_nodes s)"

lemma quiet_refl [simp]: "quiet s s"
  by (simp add: quiet_def)

lemma quiet_trans: "quiet a b \<Longrightarrow> quiet b c \<Longrightarrow> quiet a c"
  by (simp add: quiet_def)

lemma quiet_simple [simp]:
  "quiet s (signal g s)" "quiet s (s\<lparr>sv_rooms := r\<rparr>)" "quiet s (s\<lparr>sv_methods := ms\<rparr>)"
  by (simp_all add: quiet_def signal_def)

lemma quiet_socket: "quiet s s' \<Longrightarrow> i < length (sv_nodes s) \<Longrightarrow> cn_socket (node_at s' i) = cn_socket (node_at s i)"
  unfolding quiet_def by (metis length_map nth_map)

lemma quiet_length: "quiet s s' \<Longrightarrow> length (sv_nodes s') = length (sv_nodes s)"
  unfolding quiet_def by (metis length_map)

lemma quiet_update: "(\<And>c. cn_socket (f c) = cn_socket c) \<Longrightarrow> quiet s (update_node i f s)"
proof -
  assume "\<And>c. cn_socket (f c) = cn_socket c"
  then have "map cn_socket ((sv_nodes s)[i := f (node_at s i)]) = map cn_socket (sv_nodes s)"
    by (cases "i < length (sv_nodes s)") (auto simp: map_update list_update_same_conv list_update_beyond)
  then show ?thesis by (simp add: quiet_def update_node_def)
qed

lemma quiet_can: "canSubscribeToEvent h i n ch s = Inr (b, s') \<Longrightarrow> quiet s s'"
  by (auto simp: canSubscribeToEvent_def rbind_eq_Inr split: option.splits if_splits)

lemma quiet_each: "quiet s (snd (subscribe_each h i ch ns acc s))"
proof (induction h i ch ns acc s rule: subscribe_each.induct)
  case (2 h i ch n rest acc s)
  then show ?case by (cases "canSubscribeToEvent h i n ch s") (auto intro: quiet_trans [OF quiet_can])
qed simp

lemma quiet_on: "quiet s (snd (rpcOn h i params s))"
  using quiet_each by (simp add: rpcOn_def split: sum.splits prod.splits)

lemma quiet_off_one: "quiet s (snd (unsubscribe_one h ws ch (acc, s) n))"
  by (simp add: unsubscribe_one_def Let_def split: option.splits)

lemma quiet_off_all: "quiet s (snd (foldl (unsubscribe_one h ws ch) (acc, s) ns))"
proof (induction ns arbitrary: acc s)
  case (Cons n ns)
  obtain acc' s' where e: "unsubscribe_one h ws ch (acc, s) n = (acc', s')" by (cases "unsubscribe_one h ws ch (acc, s) n")
  then have "quiet s s'" using quiet_off_one [of s h ws ch acc n] by simp
  then show ?case using Cons [of s' acc'] e quiet_trans by auto
qed simp

lemma quiet_off: "quiet s (snd (rpcOff h i params s))"
  using quiet_off_all by (simp add: rpcOff_def split_beta split: sum.splits prod.splits option.splits jsval.splits)

lemma quiet_logout: "quiet s (snd (rpcLogout i s))"
  unfolding rpcLogout_def by (simp, rule quiet_trans [OF quiet_update quiet_simple(1)]) simp

lemma quiet_call: "quiet s (snd (call_fn h now m i params s))"
  by (simp add: call_fn_def quiet_on quiet_off quiet_logout split_beta Let_def split: method_fn.splits option.splits)

lemma quiet_exec: "quiet s (snd (exec h now m params i s))"
proof -
  have c: "quiet s s'" if "call_fn h now m i args s = (r, s')" for args r s'
    using quiet_call [of s h now m i args] that by simp
  have "quiet s (signal g s')" if "call_fn h now m i args s = (r, s')" for args r s' g
    using c [OF that] by (rule quiet_trans) simp
  then show ?thesis using c by (auto simp: exec_def split: sum.splits prod.splits)
qed

lemma quiet_report: "quiet s (report_error m err method params i s)"
  by (simp add: report_error_def)

lemma respond_open:
  assumes "cn_socket (node_at s i) = Some ws" "ws \<in> set (sv_open s)"
  shows "sendResponse h i rid result err errs s = Inr (s\<lparr>sv_sent := sv_sent s @ [(ws, response_payload rid result err errs)]\<rparr>)"
  by (simp add: sendResponse_def send_frame_open [OF assms])

lemma respond_error:
  assumes "cn_socket (node_at s i) = Some ws" "ws \<in> set (sv_open s)" "i < length (sv_nodes s)"
  shows "\<exists>result err errs. sv_sent (handleRpcError h i m e rid method params s) =
    sv_sent s @ [(ws, response_payload rid result err errs)]"
proof -
  let ?s = "report_error m e method params i s"
  have q: "quiet s ?s" by (rule quiet_report)
  have o: "cn_socket (node_at ?s i) = Some ws" "ws \<in> set (sv_open ?s)"
    using quiet_socket [OF q assms(3)] q assms(1,2) by (simp_all add: quiet_def)
  have sent: "sv_sent ?s = sv_sent s" using q by (simp add: quiet_def)
  show ?thesis
    using respond_open [OF assms(1,2)] respond_open [OF o] sent
    by (cases e) (auto simp: handleRpcError_def send_or_drop_def Let_def)
qed

definition response_to :: "jsval \<Rightarrow> jsval \<Rightarrow> bool" where
  "response_to rid payload \<longleftrightarrow> get_prop payload ''t'' = JStr ''rpc:res'' \<and> get_prop payload ''id'' = rid"

lemma response_payload_to: "response_to rid (response_payload rid result err errs)"
  by (simp add: response_to_def response_payload_def obj_get_def)

definition refused :: "server \<Rightarrow> bool \<Rightarrow> nat \<Rightarrow> jsval \<Rightarrow> string option" where
  "refused s granted i method =
     (if cn_limiter (node_at s i) \<and> \<not> granted then Some ''Rate Limit Exceeded''
      else (case method_of s method of
              None \<Rightarrow> Some ''Method Not Found''
            | Some m \<Rightarrow> if sm_isProtected m \<and> \<not> cn_authenticated (node_at s i) then Some ''Method Forbidden'' else None))"

text \<open>
  C9: Every call over an open socket is answered exactly once, with a response that carries the
  identifier of the call. A call that is rate limited, names no method, or names a protected method
  without authentication is refused with its error and changes nothing else: no handler, middleware or
  schema runs, and no telemetry is emitted.
\<close>

theorem rpc_answered_once:
  assumes "i < length (sv_nodes s)" and "cn_socket (node_at s i) = Some ws" and "ws \<in> set (sv_open s)"
  shows "case refused s granted i method of
      Some message \<Rightarrow> handleRpc h now granted i rid method params s =
        s\<lparr>sv_sent := sv_sent s @ [(ws, response_payload rid JUndef (Some message) None)]\<rparr>
    | None \<Rightarrow> \<exists>payload. response_to rid payload \<and>
        sv_sent (handleRpc h now granted i rid method params s) = sv_sent s @ [(ws, payload)]"
proof (cases "refused s granted i method")
  case (Some message)
  then show ?thesis using respond_open [OF assms(2,3)]
    by (auto simp: handleRpc_def refused_def send_or_drop_def Let_def split: if_splits option.splits)
next
  case None
  then obtain m where m: "\<not> (cn_limiter (node_at s i) \<and> \<not> granted)" "method_of s method = Some m"
    "\<not> (sm_isProtected m \<and> \<not> cn_authenticated (node_at s i))"
    by (auto simp: refused_def split: if_splits option.splits)
  obtain r s' where e: "exec h now m params i s = (r, s')" by (cases "exec h now m params i s")
  have q: "quiet s s'" using quiet_exec [of s h now m params i] e by simp
  have o: "cn_socket (node_at s' i) = Some ws" "ws \<in> set (sv_open s')" "i < length (sv_nodes s')" "sv_sent s' = sv_sent s"
    using quiet_socket [OF q assms(1)] quiet_length [OF q] q assms by (simp_all add: quiet_def)
  have run: "handleRpc h now granted i rid method params s =
      (case r of Inl err \<Rightarrow> handleRpcError h i m err rid method params s'
       | Inr result \<Rightarrow> (case sendResponse h i rid result None None s' of Inr s'' \<Rightarrow> s'' | Inl err \<Rightarrow> handleRpcError h i m err rid method params s'))"
    using m e by (auto simp: handleRpc_def Let_def split: sum.splits)
  have "\<exists>result err errs. sv_sent (handleRpc h now granted i rid method params s) = sv_sent s @ [(ws, response_payload rid result err errs)]"
  proof (cases r)
    case (Inl err)
    then show ?thesis using respond_error [OF o(1-3)] o(4) by (simp add: run)
  next
    case (Inr result)
    then show ?thesis using respond_open [OF o(1,2)] o(4) by (auto simp: run)
  qed
  then show ?thesis using None response_payload_to by auto
qed

section \<open>Reachable transports\<close>

text \<open>Messages and closings concern nodes that exist; nothing is assumed of what they carry.\<close>

fun admissible :: "server \<Rightarrow> ws_step \<Rightarrow> bool" where
  "admissible s (Authenticated i configured result) = (i < length (sv_nodes s))"
| "admissible s (Message i now granted decoded) = (i < length (sv_nodes s))"
| "admissible s (Closed i ws) = (i < length (sv_nodes s) \<and> cn_socket (node_at s i) = Some ws)"
| "admissible s label = True"

inductive ws_reachable :: "host \<Rightarrow> ws_transport \<Rightarrow> ws_transport \<Rightarrow> bool" for h t0 where
  start: "ws_reachable h t0 t0"
| step: "ws_reachable h t0 t \<Longrightarrow> admissible (wt_server t) label \<Longrightarrow> ws_reachable h t0 (ws_step h label t)"

abbreviation rooms_ok :: "server \<Rightarrow> bool" where
  "rooms_ok s \<equiv> registry_inv (sv_rooms s)"

lemma rooms_simple [simp]:
  "sv_rooms (signal g s) = sv_rooms s" "sv_rooms (update_node i f s) = sv_rooms s" "sv_rooms (close_node i s) = sv_rooms s"
  "sv_rooms (addClient i s) = sv_rooms s" "sv_rooms (report_error m err method params i s) = sv_rooms s"
  "sv_rooms (removeClientFromUserIndex i s) = sv_rooms s" "sv_rooms (indexClientByUserId i s) = sv_rooms s"
  by (simp_all add: signal_def update_node_def close_node_def addClient_def report_error_def removeClientFromUserIndex_def
      indexClientByUserId_def Let_def split: option.splits)

lemma rooms_send: "send_frame h c payload s = Inr s' \<Longrightarrow> sv_rooms s' = sv_rooms s"
  by (auto simp: send_frame_def rbind_eq_Inr split: option.splits if_splits)

lemma rooms_respond [simp]: "sv_rooms (send_or_drop (sendResponse h i rid r err errs s) s) = sv_rooms s"
  using rooms_send by (auto simp: send_or_drop_def sendResponse_def split: sum.splits)

lemma rooms_auth_result [simp]: "sv_rooms (send_or_drop (emitAuthResult h i b s) s) = sv_rooms s"
  using rooms_send by (auto simp: send_or_drop_def emitAuthResult_def split: sum.splits)

lemma rooms_error [simp]: "sv_rooms (handleRpcError h i m err rid method params s) = sv_rooms s"
  by (cases err) (simp_all add: handleRpcError_def Let_def)

lemma rooms_propagate [simp]: "sv_rooms (emit_channel u ch n p s) = sv_rooms s"
  by (simp add: emit_channel_def event_handler_def propagate_def Let_def split: option.splits)

lemma rooms_context: "setContext h i ctx s = (e, s') \<Longrightarrow> sv_rooms s' = sv_rooms s"
  by (auto simp: setContext_def setUserId_def Let_def split: if_splits)

lemma rooms_authenticate [simp]: "sv_rooms (authenticateNode h configured result i s) = sv_rooms s"
  using rooms_context by (fastforce simp: authenticateNode_def Let_def split: sum.splits prod.splits option.splits)

lemma rooms_disconnect [simp]: "sv_rooms (snd (disconnectUser u x s)) = sv_rooms s"
proof -
  have "sv_rooms (foldl (\<lambda>s i. close_node i s) s xs) = sv_rooms s" for xs by (induction xs arbitrary: s) simp_all
  then show ?thesis by (simp add: disconnectUser_def Let_def split: option.splits)
qed

lemma ok_can: "canSubscribeToEvent h i n ch s = Inr (b, s') \<Longrightarrow> rooms_ok s \<Longrightarrow> rooms_ok s'"
  by (auto simp: canSubscribeToEvent_def rbind_eq_Inr room_reg.inv_add split: option.splits if_splits)

lemma ok_each: "rooms_ok s \<Longrightarrow> rooms_ok (snd (subscribe_each h i ch ns acc s))"
proof (induction h i ch ns acc s rule: subscribe_each.induct)
  case (2 h i ch n rest acc s)
  then show ?case using ok_can by (cases "canSubscribeToEvent h i n ch s") auto
qed simp

lemma ok_off_all: "rooms_ok s \<Longrightarrow> rooms_ok (snd (foldl (unsubscribe_one h ws ch) (acc, s) ns))"
proof (induction ns arbitrary: acc s)
  case (Cons n ns)
  obtain acc' s' where e: "unsubscribe_one h ws ch (acc, s) n = (acc', s')" by (cases "unsubscribe_one h ws ch (acc, s) n")
  then have "rooms_ok s'" using Cons.prems by (auto simp: unsubscribe_one_def Let_def room_reg.inv_del split: option.splits)
  then show ?case using Cons.IH e by simp
qed simp

lemma ok_call: "rooms_ok s \<Longrightarrow> rooms_ok (snd (call_fn h now m i params s))"
  using ok_each ok_off_all
  by (simp add: call_fn_def rpcOn_def rpcOff_def rpcLogout_def split_beta Let_def
      split: method_fn.splits option.splits sum.splits prod.splits jsval.splits)

lemma ok_exec: "exec h now m params i s = (r, s') \<Longrightarrow> rooms_ok s \<Longrightarrow> rooms_ok s'"
  using ok_call [of s h now m i] by (auto simp: exec_def split: sum.splits prod.splits) (metis snd_conv)+

lemma ok_dispatch:
  assumes "rooms_ok s" "exec h now m params i s = (r, s')"
  shows "rooms_ok (case r of Inl err \<Rightarrow> handleRpcError h i m err rid method params s'
       | Inr result \<Rightarrow> (case sendResponse h i rid result None None s' of Inr s'' \<Rightarrow> s'' | Inl err \<Rightarrow> handleRpcError h i m err rid method params s'))"
proof -
  have ok: "rooms_ok s'" by (rule ok_exec [OF assms(2,1)])
  have "rooms_ok s''" if "sendResponse h i rid result None None s' = Inr s''" for result s''
    using rooms_send that ok by (simp add: sendResponse_def)
  then show ?thesis using ok by (simp split: sum.splits)
qed

lemma ok_rpc:
  assumes "rooms_ok s"
  shows "rooms_ok (handleRpc h now granted i rid method params s)"
proof (cases "method_of s method")
  case (Some m)
  obtain r s' where e: "exec h now m params i s = (r, s')" by (cases "exec h now m params i s")
  show ?thesis using ok_dispatch [OF assms e] assms Some e
    by (cases r) (simp_all add: handleRpc_def Let_def)
qed (use assms in \<open>simp add: handleRpc_def Let_def\<close>)

lemma ok_rpc_void: "rooms_ok s \<Longrightarrow> rooms_ok (handleRpcVoid h now granted i method params s)"
  using ok_exec by (auto simp: handleRpcVoid_def split: option.splits prod.splits sum.splits)

lemma ok_delete: "rooms_ok s \<Longrightarrow> rooms_ok (deleteClient i s)"
  by (simp add: deleteClient_def Let_def room_reg.inv_del_all split: option.splits)

lemma ok_ws_step: "rooms_ok (wt_server t) \<Longrightarrow> rooms_ok (wt_server (ws_step h label t))"
  by (cases label)
     (auto simp: ws_step_def handleConnection_def handleMessage_def ping_tick_def native_pong_def handleClose_def startPing_def
        stopPing_def Let_def ok_rpc ok_rpc_void ok_delete room_reg.inv_del_all split: sum.splits option.splits)

lemma ws_reachable_rooms: "ws_reachable h t0 t \<Longrightarrow> rooms_ok (wt_server t0) \<Longrightarrow> rooms_ok (wt_server t)"
  by (induction rule: ws_reachable.induct) (auto intro: ok_ws_step)

section \<open>Delivery\<close>

definition originator :: "server \<Rightarrow> server_event \<Rightarrow> jsval \<Rightarrow> socket option" where
  "originator s event params =
     (if \<not> ev_excludeOriginator event then None
      else (case get_prop params ''uuid'' of
              JStr u \<Rightarrow> if u = [] then None else (case map_of (sv_allClients s) u of None \<Rightarrow> None | Some i \<Rightarrow> cn_socket (node_at s i))
            | _ \<Rightarrow> None))"

lemma emit_local:
  assumes "map_of (sv_events s) name = Some event" "ev_name event = name" "\<not> (ev_cluster event \<and> sv_redis s)"
  shows "sv_sent (emit_channel uuid ch name params s) = sv_sent s @
    broadcast (\<lambda>ws. ws \<in> set (sv_open s)) (getRoomName ch name) (event_payload uuid name ch params) (originator s event params) (sv_rooms s)"
proof -
  have "(case (if ev_excludeOriginator event then (case get_prop params ''uuid'' of JStr u \<Rightarrow> Some u | _ \<Rightarrow> None) else None) of
       None \<Rightarrow> None
     | Some u \<Rightarrow> if u = [] then None else (case map_of (sv_allClients s) u of None \<Rightarrow> None | Some i \<Rightarrow> cn_socket (node_at s i))) =
     originator s event params"
    by (simp add: originator_def split: jsval.splits)
  then show ?thesis using assms by (auto simp: emit_channel_def event_handler_def propagate_def Let_def)
qed


section \<open>Authentication\<close>

text \<open>
  C31: An authenticator whose answer has no user identity leaves the connection authenticated while
  telling the client that it is not: the node was marked before the identity is checked, and the
  error path does not take the mark back. Every protected method then accepts the connection.
\<close>

theorem failed_authentication_stays_authenticated:
  assumes "i < length (sv_nodes s)" and "cn_socket (node_at s i) = Some ws" and "ws \<in> set (sv_open s)"
    and "truthy context" and "\<not> truthy (get_prop (get_prop context ''user'') ''_id'')"
    and "s' = authenticateNode h True (Inr context) i s"
  shows "cn_authenticated (node_at s' i) \<and>
    sv_sent s' = sv_sent s @ [(ws, JObj [(''t'', JStr ''auth''), (''authenticated'', JBool False)])] \<and>
    (cn_limiter (node_at s' i) \<and> \<not> granted \<or> refused s' granted i method \<noteq> Some ''Method Forbidden'')"
proof -
  let ?u = "update_node i (\<lambda>c. c\<lparr>cn_context := (if cn_authenticated c then context else JObj [])\<rparr>)
      (update_node i (\<lambda>c. c\<lparr>cn_authenticated := True\<rparr>) s)"
  have n: "node_at ?u i = (node_at s i)\<lparr>cn_authenticated := True, cn_context := context\<rparr>" "sv_open ?u = sv_open s" "sv_sent ?u = sv_sent s"
    using assms(1) by (simp_all add: update_node_def)
  obtain e where "setContext h i context (update_node i (\<lambda>c. c\<lparr>cn_authenticated := True\<rparr>) s) = (Some e, ?u)"
    using assms(5) n by (simp add: setContext_def setUserId_def Let_def)
  then have "s' = send_or_drop (emitAuthResult h i False ?u) ?u"
    using assms(2-4,6) n by (simp add: authenticateNode_def socket_open_def Let_def)
  then have s': "s' = ?u\<lparr>sv_sent := sv_sent s @ [(ws, JObj [(''t'', JStr ''auth''), (''authenticated'', JBool False)])]\<rparr>"
    using send_frame_open [of "node_at ?u i" ws ?u h] n assms(2,3) by (simp add: emitAuthResult_def send_or_drop_def)
  have "cn_authenticated (node_at s' i)" using s' n by simp
  then show ?thesis using s' by (auto simp: refused_def split: option.splits)
qed

definition sample_server :: server where
  "sample_server = addEvent plain_host ''secret'' \<lparr>eo_protected = Some True, eo_user = False, eo_shouldSubscribe = None,
      eo_cluster = False, eo_excludeOriginator = False\<rparr>
    (createDefaultMethods \<lparr>sv_methods = [], sv_events = [], sv_allClients = [], sv_clientsByUserId = [], sv_channels = [NO_CHANNEL],
      sv_rooms = new_registry, sv_nodes = [], sv_open = [], sv_allowChannel = (\<lambda>_ _. Inr True), sv_redis = False,
      sv_sent = [], sv_closing = [], sv_published = [], sv_signals = []\<rparr>)"

definition sample_transport :: ws_transport where
  "sample_transport = new_transport sample_server [] None"

definition sample_source :: tracking_source where
  "sample_source = \<lparr>ts_headers = [], ts_ip = None, ts_socketAddress = None\<rparr>"

definition rpc_message :: "string \<Rightarrow> jsval \<Rightarrow> jsval" where
  "rpc_message method params = JObj [(''t'', JStr ''rpc''), (''id'', JStr ''1''), (''method'', JStr method), (''params'', params)]"

definition sample_connected :: ws_transport where
  "sample_connected = foldl (\<lambda>t l. ws_step plain_host l t) sample_transport
     [Connect 7 ''c1'' (JObj []) sample_source False,
      Authenticated 0 True (Inr (JObj [(''user'', JObj [(''_id'', JStr ''u1'')])])),
      Message 0 0 True (Inr (rpc_message ''rpc:on'' (JObj [(''events'', JArr [JStr ''secret''])])))]"

text \<open>
  Logging out does not end event subscriptions. A client that joined the room of a protected
  event and then logged out is no longer authenticated, yet it still receives every emission of
  that event; nor does its later disconnection remove it from the index of connections by user.
\<close>

theorem logout_keeps_protected_events:
  "let t = ws_step plain_host (Message 0 0 True (Inr (rpc_message ''rpc:logout'' JUndef))) sample_connected;
       t' = ws_step plain_host (Emit ''e1'' NO_CHANNEL ''secret'' (JStr ''news'')) t;
       t'' = ws_step plain_host (Closed 0 7) t'
   in \<not> cn_authenticated (node_at (wt_server t) 0) \<and>
      last (sv_sent (wt_server t')) = (7, event_payload ''e1'' ''secret'' NO_CHANNEL (JStr ''news'')) \<and>
      getClientsByUserId ''u1'' (wt_server t'') = [0]"
  by code_simp

section \<open>Witnesses\<close>

theorem rpc_answered_once_witness:
  "handleRpc plain_host 0 True 0 (JStr ''9'') (JStr ''nope'') JUndef (wt_server sample_connected) =
     (wt_server sample_connected)\<lparr>sv_sent := sv_sent (wt_server sample_connected) @
        [(7, response_payload (JStr ''9'') JUndef (Some ''Method Not Found'') None)]\<rparr>"
proof -
  have c: "0 < length (sv_nodes (wt_server sample_connected))" "cn_socket (node_at (wt_server sample_connected) 0) = Some 7"
    "7 \<in> set (sv_open (wt_server sample_connected))" "refused (wt_server sample_connected) True 0 (JStr ''nope'') = Some ''Method Not Found''"
    by code_simp+
  show ?thesis using rpc_answered_once [OF c(1-3), of "JStr ''9''" plain_host 0 True "JStr ''nope''" JUndef] c(4) by simp
qed

lemma sample_connected_reachable: "ws_reachable plain_host sample_transport sample_connected"
proof -
  let ?l = "[Connect 7 ''c1'' (JObj []) sample_source False,
      Authenticated 0 True (Inr (JObj [(''user'', JObj [(''_id'', JStr ''u1'')])]))]"
  have a: "admissible (wt_server (foldl (\<lambda>t l. ws_step plain_host l t) sample_transport (take 1 ?l)))
      (Authenticated 0 True (Inr (JObj [(''user'', JObj [(''_id'', JStr ''u1'')])])))"
    "admissible (wt_server (foldl (\<lambda>t l. ws_step plain_host l t) sample_transport ?l))
      (Message 0 0 True (Inr (rpc_message ''rpc:on'' (JObj [(''events'', JArr [JStr ''secret''])]))))"
    by code_simp+
  show ?thesis unfolding sample_connected_def using a
    by (simp add: ws_reachable.step ws_reachable.start)
qed


definition sample_fresh :: server where
  "sample_fresh = wt_server (ws_step plain_host (Connect 7 ''c1'' (JObj []) sample_source False) sample_transport)"

theorem failed_authentication_stays_authenticated_witness:
  "cn_authenticated (node_at (authenticateNode plain_host True (Inr (JObj [(''token'', JStr ''x'')])) 0 sample_fresh) 0)"
proof -
  have c: "0 < length (sv_nodes sample_fresh)" "cn_socket (node_at sample_fresh 0) = Some 7" "7 \<in> set (sv_open sample_fresh)"
    "truthy (JObj [(''token'', JStr ''x'')])" "\<not> truthy (get_prop (get_prop (JObj [(''token'', JStr ''x'')]) ''user'') ''_id'')"
    by code_simp+
  show ?thesis using failed_authentication_stays_authenticated [OF c refl] by blast
qed

end
