(* ===== verification/ServerHttp.thy ===== *)
theory ServerHttp
  imports ServerProps
begin

text \<open>
  The HTTP transport (\<open>src/server/transports/node-hono-transport.ts\<close>): the RPC endpoint, request
  body limits (\<open>hono-streaming-body-limit.ts\<close>) and the rate limiter (\<open>hono-rate-limit.ts\<close>). Routing,
  CORS and the reading of the body are Hono's; the decoded body, the headers and the clock are
  inputs. \<open>auth\<close> is the application's authentication function.
\<close>

section \<open>Rate limiter\<close>

record rate_entry =
  re_count :: nat
  re_resetAt :: int

record rate_options =
  ro_windowMs :: int
  ro_max :: nat

type_synonym rate_store = "(string, rate_entry) jsmap"

definition rate_cleanup :: "int \<Rightarrow> rate_store \<Rightarrow> rate_store" where
  "rate_cleanup now store = filter (\<lambda>(k, entry). \<not> re_resetAt entry \<le> now) store"

definition rate_request :: "rate_options \<Rightarrow> int \<Rightarrow> string option \<Rightarrow> rate_store \<Rightarrow> bool \<times> rate_store" where
  "rate_request opts now forwarded store =
     (let ip = (case forwarded of None \<Rightarrow> ''127.0.0.1'' | Some a \<Rightarrow> a);
          entry = (case jm_get store ip of
                     Some e \<Rightarrow> if re_resetAt e \<le> now then \<lparr>re_count = 0, re_resetAt = now + ro_windowMs opts\<rparr> else e
                   | None \<Rightarrow> \<lparr>re_count = 0, re_resetAt = now + ro_windowMs opts\<rparr>);
          counted = entry\<lparr>re_count := Suc (re_count entry)\<rparr>
      in (re_count counted \<le> ro_max opts, jm_set ip counted store))"

definition rate_close :: "rate_store \<Rightarrow> rate_store" where
  "rate_close store = []"

text \<open>The options of the server and those of the limiter it installs.\<close>

datatype rate_limit = NoLimit | DefaultLimit | CustomLimit nat int

fun http_rate_options :: "rate_limit \<Rightarrow> rate_options option" where
  "http_rate_options NoLimit = None"
| "http_rate_options DefaultLimit = Some \<lparr>ro_windowMs = 60000, ro_max = 120\<rparr>"
| "http_rate_options (CustomLimit m interval) = Some \<lparr>ro_windowMs = interval, ro_max = m\<rparr>"

section \<open>Request bodies\<close>

record body_limit =
  bl_pathPrefix :: string
  bl_maxSize :: jsnum
  bl_bodyMode :: "string option"

definition invalid_prefix_char :: "char \<Rightarrow> bool" where
  "invalid_prefix_char c \<longleftrightarrow> c \<in> set (''?#%'' @ [CHR 0x5C, CHR 0x00, CHR 0x20, CHR 0x09, CHR 0x0A, CHR 0x0B, CHR 0x0C, CHR 0x0D, CHR 0xA0])"

definition valid_prefix :: "string \<Rightarrow> bool" where
  "valid_prefix p \<longleftrightarrow> p \<noteq> [] \<and> hd p = CHR ''/'' \<and> p \<noteq> ''/'' \<and> last p \<noteq> CHR ''/'' \<and> \<not> list_ex invalid_prefix_char p"

definition validateRequestBodyLimits :: "jsnum \<Rightarrow> body_limit list \<Rightarrow> unit js" where
  "validateRequestBodyLimits globalLimit limits =
     (if list_ex (\<lambda>l. \<not> is_safe_integer l \<or> num_less l (Fin 1)) (globalLimit # map bl_maxSize limits)
      then Inl (Error ''Request body limits must be positive safe integers'')
      else rfoldl (\<lambda>_ rule.
             if bl_bodyMode rule \<notin> {None, Some ''buffered'', Some ''streaming''}
             then Inl (Error ''Request body mode must be buffered or streaming'')
             else if \<not> valid_prefix (bl_pathPrefix rule)
             then Inl (Error ''Request body limit prefixes must be non-root paths without query, fragment, encoding or trailing slash'')
             else Inr ()) () limits)"

record body_policy =
  bp_maxSize :: int
  bp_streaming :: bool

fun num_to_int :: "jsnum \<Rightarrow> int" where
  "num_to_int (Fin q) = \<lfloor>q\<rfloor>"
| "num_to_int _ = 0"

definition starts_with :: "string \<Rightarrow> string \<Rightarrow> bool" where
  "starts_with prefix s \<longleftrightarrow> take (length prefix) s = prefix"

definition rule_matches :: "string \<Rightarrow> body_limit \<Rightarrow> bool" where
  "rule_matches path rule \<longleftrightarrow> path = bl_pathPrefix rule \<or> starts_with (bl_pathPrefix rule @ ''/'') path"

definition getRequestBodyPolicy :: "(string \<Rightarrow> string option) \<Rightarrow> string \<Rightarrow> int \<Rightarrow> body_limit list \<Rightarrow> body_policy" where
  "getRequestBodyPolicy decodeURIComponent path globalLimit limits =
     (case decodeURIComponent path of
        None \<Rightarrow> \<lparr>bp_maxSize = foldl min globalLimit (map (num_to_int \<circ> bl_maxSize) limits), bp_streaming = False\<rparr>
      | Some decodedPath \<Rightarrow>
          (let matching = filter (rule_matches decodedPath) limits in
           \<lparr>bp_maxSize = foldl min globalLimit (map (num_to_int \<circ> bl_maxSize) matching),
            bp_streaming = (matching \<noteq> [] \<and> list_all (\<lambda>rule. bl_bodyMode rule = Some ''streaming'') matching)\<rparr>))"

text \<open>The answer to a declared length, before anything is read.\<close>

definition declared_too_large :: "int \<Rightarrow> string \<Rightarrow> string option \<Rightarrow> bool" where
  "declared_too_large maxSize method declared =
     (method \<noteq> ''GET'' \<and> method \<noteq> ''HEAD'' \<and>
      (case declared of
         None \<Rightarrow> False
       | Some d \<Rightarrow> d \<noteq> [] \<and> list_all is_digit d \<and> int (digits_val 0 d) > maxSize))"

text \<open>The pulls of a streamed body: the chunks handed on, and whether the limit was exceeded.\<close>

fun stream_pulls :: "int \<Rightarrow> int \<Rightarrow> 8 word list list \<Rightarrow> 8 word list list \<times> bool" where
  "stream_pulls maxSize seen [] = ([], False)"
| "stream_pulls maxSize seen (chunk # rest) =
     (if seen + int (length chunk) > maxSize then ([], True)
      else (let (handed, exceeded) = stream_pulls maxSize (seen + int (length chunk)) rest in (chunk # handed, exceeded)))"

section \<open>RPC endpoint\<close>

datatype http_response = HttpText jsval | HttpEmpty | HttpFailed js_error

record http_request =
  hr_headers :: "(string \<times> string) list"
  hr_forwarded :: "string option"
  hr_remote :: "string option"

type_synonym auth_function = "client_node \<Rightarrow> jsval \<Rightarrow> jsval js"

fun replace_first :: "string \<Rightarrow> string \<Rightarrow> string" where
  "replace_first pat [] = []"
| "replace_first pat (c # s) = (if starts_with pat (c # s) then drop (length pat) (c # s) else c # replace_first pat s)"

definition rpcError :: "string \<Rightarrow> (string \<times> jsval) list \<Rightarrow> http_response" where
  "rpcError message extra =
     HttpText (JObj (foldl (\<lambda>acc (k, v). obj_set k v acc) [(''type'', JStr ''error''), (''message'', JStr message)] extra))"

definition rpcSuccess :: "jsval \<Rightarrow> jsval \<Rightarrow> http_response" where
  "rpcSuccess result payload =
     HttpText (JObj [(''type'', JStr ''result''), (''uuid'', get_prop payload ''uuid''), (''method'', get_prop payload ''method''), (''result'', result)])"

text \<open>The payload and context of a request body; \<open>decoded\<close> is the result of \<open>EJSON.parse\<close>.\<close>

definition parseTransport :: "jsval js option \<Rightarrow> jsval option \<times> jsval" where
  "parseTransport decoded =
     (case decoded of
        None \<Rightarrow> (None, JNull)
      | Some (Inl _) \<Rightarrow> (None, JNull)
      | Some (Inr v) \<Rightarrow>
          if \<not> truthy v \<or> js_typeof v \<noteq> ''object'' then (None, JNull)
          else
            (let payload = get_prop v ''payload'' in
             (if truthy payload \<and> js_typeof payload = ''object'' then Some payload else None, get_prop v ''context'')))"

definition getServerContext :: "auth_function option \<Rightarrow> client_node \<Rightarrow> jsval \<Rightarrow> jsval option js" where
  "getServerContext auth c context =
     (let token = map_of (cn_headers c) ''x-api-key'';
          context' = (case token of
             Some t \<Rightarrow> if t \<noteq> [] \<and> t \<noteq> ''undefined'' then JObj (obj_set ''token'' (JStr (replace_first ''Bearer '' t)) (own_entries context)) else context
           | None \<Rightarrow> context)
      in case auth of
           None \<Rightarrow> Inr None
         | Some f \<Rightarrow> rbind (f c context') (\<lambda>result. Inr (if truthy result then Some result else None)))"

definition buildClientNodeFromContext :: "http_request \<Rightarrow> client_node" where
  "buildClientNodeFromContext r =
     setTrackingProperties
       \<lparr>ts_headers = map (\<lambda>(k, v). (k, HeaderText v)) (hr_headers r),
        ts_ip = (case hr_forwarded r of Some a \<Rightarrow> Some a | None \<Rightarrow> hr_remote r), ts_socketAddress = None\<rparr>
       (new_client_node None False)"

text \<open>
  The node of a request is a new object; an authenticated one is indexed by its user.
\<close>

definition buildClientNode :: "host \<Rightarrow> auth_function option \<Rightarrow> http_request \<Rightarrow> jsval \<Rightarrow> server \<Rightarrow> (nat js) \<times> server" where
  "buildClientNode h auth r context s =
     (let c = (buildClientNodeFromContext r)\<lparr>cn_uuid := (case map_of (hr_headers r) ''x-client-id'' of None \<Rightarrow> [] | Some u \<Rightarrow> u)\<rparr>;
          i = length (sv_nodes s);
          s1 = s\<lparr>sv_nodes := sv_nodes s @ [c]\<rparr>
      in case getServerContext auth c (if context = JUndef \<or> context = JNull then JObj [] else context) of
           Inl err \<Rightarrow> (Inl err, s1)
         | Inr found \<Rightarrow>
             (let s2 = update_node i (\<lambda>c. c\<lparr>cn_authenticated := found \<noteq> None\<rparr>) s1 in
              case setContext h i (case found of None \<Rightarrow> JNull | Some ctx \<Rightarrow> ctx) s2 of
                (Some err, s3) \<Rightarrow> (Inl err, s3)
              | (None, s3) \<Rightarrow> (Inr i, s3)))"

definition uuid_extra :: "jsval \<Rightarrow> (string \<times> jsval) list" where
  "uuid_extra payload = (let uuid = get_prop payload ''uuid'' in if truthy uuid then [(''uuid'', uuid)] else [])"

definition http_rpc_error :: "server_method \<Rightarrow> js_error \<Rightarrow> jsval \<Rightarrow> nat \<Rightarrow> server \<Rightarrow> http_response \<times> server" where
  "http_rpc_error m err payload i s =
     (let void = truthy (get_prop payload ''void'') in
      case err of
        PublicError message \<Rightarrow> (if void then HttpEmpty else rpcError message (uuid_extra payload), s)
      | _ \<Rightarrow>
          (let s1 = report_error m err (get_prop payload ''method'') (get_prop payload ''params'') i s in
           (if void then HttpEmpty
            else (case err of
                    SchemaValidationError message errs \<Rightarrow>
                      HttpText (JObj ([(''type'', JStr ''error''), (''message'', JStr message), (''errors'', JArr (map JStr errs))] @ uuid_extra payload))
                  | _ \<Rightarrow> rpcError ''Internal Error'' (uuid_extra payload)), s1)))"

definition dispatchRpc :: "host \<Rightarrow> int \<Rightarrow> auth_function option \<Rightarrow> http_request \<Rightarrow> jsval \<Rightarrow> jsval \<Rightarrow> server \<Rightarrow> http_response \<times> server" where
  "dispatchRpc h now auth r payload context s =
     (case method_of s (get_prop payload ''method'') of
        None \<Rightarrow> (rpcError ''Method Not Found'' [(''method'', get_prop payload ''method'')], s)
      | Some m \<Rightarrow>
          (case buildClientNode h auth r context s of
             (Inl err, s1) \<Rightarrow> (HttpFailed err, s1)
           | (Inr i, s1) \<Rightarrow>
               if sm_isProtected m \<and> \<not> cn_authenticated (node_at s1 i)
               then (rpcError ''Method Forbidden'' [(''method'', get_prop payload ''method'')], s1)
               else
                 (case exec h now m (get_prop payload ''params'') i s1 of
                    (Inr result, s2) \<Rightarrow> (rpcSuccess result payload, s2)
                  | (Inl err, s2) \<Rightarrow> http_rpc_error m err payload i s2)))"

definition http_handleRpc :: "host \<Rightarrow> int \<Rightarrow> auth_function option \<Rightarrow> http_request \<Rightarrow> jsval js option \<Rightarrow> server \<Rightarrow> http_response \<times> server" where
  "http_handleRpc h now auth r decoded s =
     (case parseTransport decoded of
        (None, _) \<Rightarrow> (rpcError ''Invalid Request'' [], s)
      | (Some payload, context) \<Rightarrow> dispatchRpc h now auth r payload context s)"

text \<open>The context a route sees, and the 403 of the middleware that requires one.\<close>

definition authMiddleware :: "auth_function option \<Rightarrow> http_request \<Rightarrow> jsval option js" where
  "authMiddleware auth r = getServerContext auth (buildClientNodeFromContext r) (JObj [])"

section \<open>Bounds\<close>

lemma foldl_min_start: "foldl min x ys \<le> (x :: int)"
  by (induction ys arbitrary: x) (auto, metis min.cobounded1 order_trans)

lemma foldl_min_le: "y \<in> set ys \<Longrightarrow> foldl min x ys \<le> (y :: int)"
proof (induction ys arbitrary: x)
  case (Cons z ys)
  then show ?case using foldl_min_start [of "min x z" ys] by auto
qed simp

lemma policy_max: "bp_maxSize (getRequestBodyPolicy dec path g limits) \<le> g"
  by (simp add: getRequestBodyPolicy_def Let_def foldl_min_start split: option.splits)

lemma policy_rule:
  assumes "dec path = Some p" "rule \<in> set limits" "rule_matches p rule"
  shows "bp_maxSize (getRequestBodyPolicy dec path g limits) \<le> num_to_int (bl_maxSize rule)"
  using assms by (auto simp: getRequestBodyPolicy_def Let_def intro!: foldl_min_le)

lemma stream_handed: "stream_pulls maxSize seen chunks = (handed, exceeded) \<Longrightarrow> seen \<le> maxSize \<Longrightarrow>
    seen + int (length (concat handed)) \<le> maxSize \<and> (\<not> exceeded \<longrightarrow> handed = chunks)"
proof (induction maxSize seen chunks arbitrary: handed exceeded rule: stream_pulls.induct)
  case (2 maxSize seen chunk rest)
  then show ?case by (auto split: if_splits prod.splits)
qed auto

section \<open>Requests and the index of users\<close>

lemma context_indexed:
  assumes "i < length (sv_nodes s)" "cn_authenticated (node_at s i)"
    and "js_string h (get_prop (get_prop ctx ''user'') ''_id'') = u" "u \<noteq> []" "truthy (get_prop (get_prop ctx ''user'') ''_id'')"
  shows "\<exists>s'. setContext h i ctx s = (None, s') \<and> getClientsByUserId u s' = js_add i (getClientsByUserId u s)"
proof -
  have "node_at (update_node i (\<lambda>c. c\<lparr>cn_context := (if cn_authenticated c then ctx else JObj [])\<rparr>) s) i = (node_at s i)\<lparr>cn_context := ctx\<rparr>"
    using assms(1,2) by (simp add: update_node_def)
  then show ?thesis using assms
    by (simp add: setContext_def setUserId_def indexClientByUserId_def getClientsByUserId_def update_node_def set_of_def Let_def)
qed

lemma report_keeps_index: "sv_clientsByUserId (snd (http_rpc_error m err payload i s)) = sv_clientsByUserId s"
  using quiet_report unfolding quiet_def by (auto simp: http_rpc_error_def Let_def split: js_error.splits)

lemma dispatch_keeps_index:
  assumes "method_of s (get_prop payload ''method'') = Some m" and "buildClientNode h auth r context s = (Inr i, s1)"
  shows "sv_clientsByUserId (snd (dispatchRpc h now auth r payload context s)) = sv_clientsByUserId s1"
proof -
  have "sv_clientsByUserId (snd (exec h now m params i s1)) = sv_clientsByUserId s1" for params
    using quiet_exec [of s1 h now m params i] by (simp add: quiet_def)
  then have "sv_clientsByUserId s2 = sv_clientsByUserId s1" if "exec h now m params i s1 = (v, s2)" for params v s2
    using that by (metis snd_conv)
  then show ?thesis using assms by (auto simp: dispatchRpc_def report_keeps_index split: prod.splits sum.splits)
qed

text \<open>
  Every authenticated HTTP call leaves its node in the server's index of connections by user.
  Whatever the method answers, an error or a refusal included, the node of the request is indexed
  when its context is set and is still there when the response is sent, so the entry of a user grows
  by one with every call.
\<close>

theorem http_call_stays_indexed:
  assumes "auth = (\<lambda>_ _. Inr ctx)" and "truthy ctx"
    and "truthy (get_prop (get_prop ctx ''user'') ''_id'')" and "u = js_string h (get_prop (get_prop ctx ''user'') ''_id'')" and "u \<noteq> []"
    and "\<forall>i \<in> set (getClientsByUserId u s). i < length (sv_nodes s)"
    and "parseTransport decoded = (Some payload, context)" and "method_of s (get_prop payload ''method'') = Some m"
  shows "length (getClientsByUserId u (snd (http_handleRpc h now (Some auth) r decoded s))) = Suc (length (getClientsByUserId u s))"
proof -
  let ?i = "length (sv_nodes s)"
  let ?c = "(buildClientNodeFromContext r)\<lparr>cn_uuid := (case map_of (hr_headers r) ''x-client-id'' of None \<Rightarrow> [] | Some u \<Rightarrow> u)\<rparr>"
  let ?s = "update_node ?i (\<lambda>c. c\<lparr>cn_authenticated := True\<rparr>) (s\<lparr>sv_nodes := sv_nodes s @ [?c]\<rparr>)"
  have "?i < length (sv_nodes ?s)" "cn_authenticated (node_at ?s ?i)" by (simp_all add: update_node_def)
  then obtain s' where s': "setContext h ?i ctx ?s = (None, s')" "getClientsByUserId u s' = js_add ?i (getClientsByUserId u ?s)"
    using context_indexed assms(3-5) by blast
  have same: "getClientsByUserId u ?s = getClientsByUserId u s" by (simp add: getClientsByUserId_def update_node_def)
  have "buildClientNode h (Some auth) r context s = (Inr ?i, s')"
    using s'(1) assms(1,2) by (simp add: buildClientNode_def getServerContext_def Let_def split: if_splits)
  then have "getClientsByUserId u (snd (http_handleRpc h now (Some auth) r decoded s)) = getClientsByUserId u s'"
    using dispatch_keeps_index [OF assms(8)] assms(7) by (simp add: http_handleRpc_def getClientsByUserId_def)
  moreover have "?i \<notin> set (getClientsByUserId u s)" using assms(6) by blast
  ultimately show ?thesis using s'(2) same by (simp add: js_add_def)
qed

definition sample_call :: jsval where
  "sample_call = JObj [(''payload'', JObj [(''method'', JStr ''rpc:logout'')])]"

definition sample_user :: jsval where
  "sample_user = JObj [(''user'', JObj [(''_id'', JStr ''u1'')])]"

definition sample_request :: http_request where
  "sample_request = \<lparr>hr_headers = [], hr_forwarded = None, hr_remote = None\<rparr>"

theorem http_call_stays_indexed_witness:
  "length (getClientsByUserId ''u1'' (snd (http_handleRpc plain_host 0 (Some (\<lambda>_ _. Inr sample_user))
     sample_request (Some (Inr sample_call)) sample_server))) = 1"
proof -
  have c: "truthy sample_user" "truthy (get_prop (get_prop sample_user ''user'') ''_id'')"
    "''u1'' = js_string plain_host (get_prop (get_prop sample_user ''user'') ''_id'')" "''u1'' \<noteq> []"
    "\<forall>i \<in> set (getClientsByUserId ''u1'' sample_server). i < length (sv_nodes sample_server)"
    "parseTransport (Some (Inr sample_call)) = (Some (JObj [(''method'', JStr ''rpc:logout'')]), JUndef)"
    "length (getClientsByUserId ''u1'' sample_server) = 0"
    by code_simp+
  have "\<not> Option.is_none (method_of sample_server (get_prop (JObj [(''method'', JStr ''rpc:logout'')]) ''method''))" by code_simp
  then obtain m where m: "method_of sample_server (get_prop (JObj [(''method'', JStr ''rpc:logout'')]) ''method'') = Some m"
    by (auto simp: Option.is_none_def)
  show ?thesis using http_call_stays_indexed [OF refl c(1-6) m] c(7) by simp
qed

end
