(* ===== verification/ClientContext.thy ===== *)
theory ClientContext
  imports EjsonWire
begin

text \<open>
  The client's context (\<open>src/client/context-manager.ts\<close>): the authentication data a client holds in
  memory and keeps in the browser's storage.

  The storage holds at most one item under the manager's key; its text is the JSON value it denotes,
  or \<open>None\<close> when it is not JSON. \<open>same\<close> is the comparison of the package \<open>fast-deep-equal\<close>. Each
  operation answers the error it throws, if any, and the manager it leaves, for a write that fails
  half way keeps what it did before. \<open>cm_changes\<close> counts the \<open>CONTEXT_CHANGED\<close> events.
\<close>

record context_manager =
  cm_context :: jsobj
  cm_storage :: bool
  cm_item :: "jsval option option"
  cm_changes :: nat

definition new_context_manager :: "bool \<Rightarrow> jsval option option \<Rightarrow> context_manager" where
  "new_context_manager storage item = \<lparr>cm_context = [], cm_storage = storage, cm_item = item, cm_changes = 0\<rparr>"

type_synonym deep_equal = "jsval \<Rightarrow> jsval \<Rightarrow> bool"

definition cm_setContext :: "host \<Rightarrow> jsobj \<Rightarrow> context_manager \<Rightarrow> js_error option \<times> context_manager" where
  "cm_setContext h context m =
     (let m1 = m\<lparr>cm_context := context\<rparr>;
          changed = (\<lambda>m. (None, m\<lparr>cm_changes := Suc (cm_changes m)\<rparr>)) in
      if cm_storage m1
      then
        (case ejson_stringify h False (JObj (omit context [''refreshToken''])) of
           Inl err \<Rightarrow> (Some err, m1)
         | Inr text \<Rightarrow> changed (m1\<lparr>cm_item := Some text\<rparr>))
      else changed m1)"

definition cm_updateContext :: "host \<Rightarrow> deep_equal \<Rightarrow> jsval \<Rightarrow> context_manager \<Rightarrow> js_error option \<times> context_manager" where
  "cm_updateContext h same context m =
     (if context = JNull \<or> context = JUndef then (Some (TypeError ''Cannot convert undefined or null to object''), m)
      else
        (let newContext = merge [] [cm_context m, own_entries context] in
         if same (JObj (cm_context m)) (JObj newContext) then (None, m) else cm_setContext h newContext m))"

definition cm_loadContext :: "host \<Rightarrow> custom_types \<Rightarrow> deep_equal \<Rightarrow> context_manager \<Rightarrow> js_error option \<times> context_manager" where
  "cm_loadContext h ct same m =
     (if \<not> cm_storage m then (None, m)
      else
        (case cm_item m of
           None \<Rightarrow> (None, m)
         | Some text \<Rightarrow>
             (case ejson_parse h ct text of
                Inl err \<Rightarrow> (Some err, m)
              | Inr stored \<Rightarrow> if same (JObj (cm_context m)) stored then (None, m) else cm_updateContext h same stored m)))"

definition cm_clearContext :: "context_manager \<Rightarrow> context_manager" where
  "cm_clearContext m =
     m\<lparr>cm_context := [], cm_item := (if cm_storage m then None else cm_item m), cm_changes := Suc (cm_changes m)\<rparr>"

text \<open>
  Whether the token has run out at the time \<open>now\<close>, in milliseconds, by the time elapsed since it was
  received where that is known.
\<close>

record token_times =
  tt_exp :: "int option"
  tt_iat :: "int option"
  tt_tokenReceivedAt :: "int option"

definition nonzero :: "int option \<Rightarrow> bool" where
  "nonzero v \<longleftrightarrow> v \<noteq> None \<and> v \<noteq> Some 0"

definition isTokenExpired :: "int \<Rightarrow> token_times \<Rightarrow> bool" where
  "isTokenExpired now t =
     (if \<not> nonzero (tt_exp t) then False
      else if nonzero (tt_iat t) \<and> nonzero (tt_tokenReceivedAt t)
      then now - the (tt_tokenReceivedAt t) > (the (tt_exp t) - the (tt_iat t)) * 1000
      else the (tt_exp t) < now div 1000)"

section \<open>Persistence\<close>

datatype context_op = Load | Set_Context jsobj | Update jsval | Clear

fun context_step :: "host \<Rightarrow> custom_types \<Rightarrow> deep_equal \<Rightarrow> context_op \<Rightarrow> context_manager \<Rightarrow> context_manager" where
  "context_step h ct same Load m = snd (cm_loadContext h ct same m)"
| "context_step h ct same (Set_Context c) m = snd (cm_setContext h c m)"
| "context_step h ct same (Update c) m = snd (cm_updateContext h same c m)"
| "context_step h ct same Clear m = cm_clearContext m"

definition persists_only :: "host \<Rightarrow> context_manager \<Rightarrow> bool" where
  "persists_only h m \<longleftrightarrow>
     (\<forall>text. cm_item m = Some text \<longrightarrow>
        (\<exists>kvs. ''refreshToken'' \<notin> fst ` set kvs \<and> ejson_stringify h False (JObj kvs) = Inr text))"

lemma omit_key [simp]: "(''refreshToken'', v) \<notin> set (omit c [''refreshToken''])"
  by (simp add: omit_def)

lemma set_persists: "persists_only h m \<Longrightarrow> persists_only h (snd (cm_setContext h c m))"
  unfolding persists_only_def cm_setContext_def Let_def
  by (auto split: sum.splits intro!: exI [of _ "omit c [''refreshToken'']"])

lemma update_persists: "persists_only h m \<Longrightarrow> persists_only h (snd (cm_updateContext h same c m))"
  by (simp add: cm_updateContext_def Let_def set_persists)

lemma context_persists: "persists_only h m \<Longrightarrow> persists_only h (context_step h ct same op m)"
  by (cases op)
    (auto simp: set_persists update_persists cm_loadContext_def split: option.splits sum.splits,
     auto simp: persists_only_def cm_clearContext_def)

lemma contexts_persist: "persists_only h m \<Longrightarrow> persists_only h (foldl (\<lambda>m op. context_step h ct same op m) m ops)"
  by (induction ops arbitrary: m) (simp_all add: context_persists)


text \<open>
  The refresh token never reaches the browser's storage. However a client loads, replaces, merges and
  clears its context, and whatever refresh token those contexts carry, the text it leaves in a
  storage that was empty is the encoding of an object without one.
\<close>

theorem refresh_token_not_stored:
  assumes "m = foldl (\<lambda>m op. context_step h ct same op m) (new_context_manager storage None) ops" and "cm_item m = Some text"
  shows "\<exists>kvs. ''refreshToken'' \<notin> fst ` set kvs \<and> ejson_stringify h False (JObj kvs) = Inr text"
proof -
  have "persists_only h (new_context_manager storage None)" by (simp add: persists_only_def new_context_manager_def)
  then have "persists_only h m" unfolding assms(1) by (rule contexts_persist)
  then show ?thesis using assms(2) by (simp add: persists_only_def)
qed

theorem refresh_token_not_stored_witness:
  "\<exists>(m :: context_manager) text kvs. cm_item m = Some text \<and> cm_context m = [(''token'', JStr ''a''), (''refreshToken'', JStr ''b'')] \<and>
     ''refreshToken'' \<notin> fst ` set kvs \<and> ejson_stringify plain_host False (JObj kvs) = Inr text"
proof -
  let ?ops = "[Set_Context [(''token'', JStr ''a''), (''refreshToken'', JStr ''b'')]]"
  define m where "m = foldl (\<lambda>m op. context_step plain_host (\<lambda>_. None) (\<lambda>_ _. False) op m) (new_context_manager True None) ?ops"
  have c: "cm_context m = [(''token'', JStr ''a''), (''refreshToken'', JStr ''b'')]" and "\<not> Option.is_none (cm_item m)"
    unfolding m_def by code_simp+
  then obtain json where t: "cm_item m = Some json" by (cases "cm_item m") auto
  show ?thesis using refresh_token_not_stored [OF m_def t] t c by blast
qed

end
