(* ===== verification/ClientCore.thy ===== *)
theory ClientCore
  imports ClientContext
begin

text \<open>
  The client: its WebSocket (\<open>src/client/client-socket.ts\<close>), the calls, the initialization and the
  channels of \<open>client.ts\<close> and \<open>client-channel.ts\<close>, the requests of \<open>client-http.ts\<close>, the recovery after
  sleep of \<open>visibility-manager.ts\<close> and the idle timer of \<open>idle-timer.ts\<close>.

  One record holds the fields of these objects together with what the browser keeps for them: the
  sockets that were opened, in the order of their creation, the timers that are armed and the frames
  that were sent. An asynchronous method is a task that runs up to its next wait; the wait is
  answered by a later step, and the first answer counts, as it does for a promise. The events a
  client emits reach the listeners that the modelled code registers; the listeners of the application
  are told and do not call back. A frame is the payload before \<open>Presentation.encode\<close>.
\<close>

section \<open>Data\<close>

datatype ready_state = Connecting | Open | Closing | Closed

text \<open>\<open>ws_attached\<close>: the handlers are set; \<open>ws_token\<close> is the token in the query of its URL.\<close>

record web_socket =
  ws_state :: ready_state
  ws_attached :: bool
  ws_token :: "string option"
  ws_meta :: "jsval option"

text \<open>What a promise is rejected with: an error, the payload of an error response, or a failed HTTP response.\<close>

datatype rejection =
    Reason js_error
  | ErrorPayload jsval
  | ClientHttpResponseError int string string

type_synonym settlement = "(rejection, jsval) result"

record call_options =
  co_http :: bool
  co_httpFallback :: bool
  co_ignoreInit :: bool
  co_maxRetries :: nat

datatype call_wait = WaitInit | WaitSocket | WaitHttp | WaitRetry | CallDone settlement

text \<open>A call: \<open>ct_answer\<close> is the answer of the wait it is at.\<close>

record call_task =
  ct_method :: string
  ct_params :: jsval
  ct_options :: call_options
  ct_attempt :: nat
  ct_wait :: call_wait
  ct_answer :: "settlement option"

text \<open>The promise of an attempt of a call.\<close>

type_synonym promise = "nat \<times> nat"

datatype recovery_wait = HookWait nat | HookDelay nat | TrafficWait | InitWait | Recovered

record recovery_task =
  rc_aborted :: bool
  rc_wait :: recovery_wait
  rc_answer :: "bool option"
  rc_socket :: "nat option"
  rc_token :: jsval

record client_channel =
  cc_events :: "string list"
  cc_pendingSubscriptions :: "string list"
  cc_subscribeTimer :: bool
  cc_pendingUnsubscriptions :: "string list"
  cc_unsubscribeTimer :: bool

record client =
  cs_socket :: "nat option"
  cs_stopped :: bool
  cs_connecting :: bool
  cs_pending :: "(string, promise) jsmap"
  cs_reconnectAttempt :: nat
  cs_reconnectTimer :: "nat option"
  cs_exhaustedReconnect :: bool
  cl_manager :: context_manager
  cl_uuid :: string
  cl_meta :: jsval
  cl_initialized :: bool
  cl_initializing :: bool
  cl_authenticated :: jsval
  cl_channels :: "(string, client_channel) jsmap"
  cl_resubscribing :: "nat list"
  cl_calls :: "call_task list"
  cl_connects :: nat
  vm_hook :: bool
  vm_hiddenAt :: "int option"
  vm_heartbeat :: bool
  vm_lastHeartbeat :: int
  vm_recovery :: "nat option"
  vm_missedHeartbeat :: bool
  vm_destroyed :: bool
  vm_initializedSocket :: "nat option"
  vm_recoveries :: "recovery_task list"
  it_present :: bool
  it_timerId :: "nat option"
  it_resets :: nat
  it_listening :: bool
  br_sockets :: "web_socket list"
  br_acks :: "(string \<times> promise) list"
  br_reconnects :: "nat list"
  br_idle :: "nat list"
  br_timers :: nat
  br_closing :: "nat list"
  br_sent :: "(nat \<times> jsval) list"
  br_requests :: "(nat \<times> jsval) list"
  cl_emitted :: "(string \<times> jsval) list"
  cl_delivered :: "(string \<times> string \<times> jsval) list"

definition MAX_RECONNECT_ATTEMPTS :: nat where
  "MAX_RECONNECT_ATTEMPTS = 10"

definition BASE_RECONNECT_DELAY :: int where
  "BASE_RECONNECT_DELAY = 500"

definition MAX_RECONNECT_DELAY :: int where
  "MAX_RECONNECT_DELAY = 10000"

text \<open>The delay before an attempt without its jitter, which adds at most half of it.\<close>

definition reconnect_delay :: "nat \<Rightarrow> int" where
  "reconnect_delay attempt = min (BASE_RECONNECT_DELAY * 2 ^ (attempt - 1)) MAX_RECONNECT_DELAY"

section \<open>Sockets and events\<close>

abbreviation socket_at :: "client \<Rightarrow> nat \<Rightarrow> web_socket" where
  "socket_at c w \<equiv> br_sockets c ! w"

definition update_socket :: "nat \<Rightarrow> (web_socket \<Rightarrow> web_socket) \<Rightarrow> client \<Rightarrow> client" where
  "update_socket w f c = c\<lparr>br_sockets := (br_sockets c)[w := f (socket_at c w)]\<rparr>"

definition ready :: "client \<Rightarrow> bool" where
  "ready c = (case cs_socket c of None \<Rightarrow> False | Some w \<Rightarrow> ws_state (socket_at c w) = Open)"

definition token_of :: "client \<Rightarrow> jsval" where
  "token_of c = obj_get (cm_context (cl_manager c)) ''token''"

text \<open>The first answer to a wait counts.\<close>

definition answer_recovery :: "bool \<Rightarrow> recovery_task \<Rightarrow> recovery_task" where
  "answer_recovery b r = (if rc_answer r = None then r\<lparr>rc_answer := Some b\<rparr> else r)"

definition recoveries_at :: "(recovery_task \<Rightarrow> bool) \<Rightarrow> bool \<Rightarrow> client \<Rightarrow> client" where
  "recoveries_at P b c = c\<lparr>vm_recoveries := map (\<lambda>r. if P r then answer_recovery b r else r) (vm_recoveries c)\<rparr>"

definition answer_call :: "settlement \<Rightarrow> call_task \<Rightarrow> call_task" where
  "answer_call s t = (if ct_answer t = None then t\<lparr>ct_answer := Some s\<rparr> else t)"

text \<open>The idle timer: \<open>start\<close> and \<open>stop\<close> set and clear its countdown.\<close>

definition idle_start :: "client \<Rightarrow> client" where
  "idle_start c = c\<lparr>it_timerId := Some (br_timers c), br_idle := br_idle c @ [br_timers c], br_timers := Suc (br_timers c)\<rparr>"

definition idle_stop :: "client \<Rightarrow> client" where
  "idle_stop c =
     (case it_timerId c of
        None \<Rightarrow> c
      | Some t \<Rightarrow> c\<lparr>br_idle := js_remove t (br_idle c), it_timerId := None\<rparr>)"

text \<open>
  An event of the client, with the listeners of the modelled code: initialization wakes the calls,
  the recoveries and the \<open>connect\<close> calls that wait for it, an open socket the resets of the idle timer,
  and a change of the token ends the wait for traffic.
\<close>

definition client_emit :: "string \<Rightarrow> jsval \<Rightarrow> client \<Rightarrow> client" where
  "client_emit event v c =
     (let c1 = c\<lparr>cl_emitted := cl_emitted c @ [(event, v)]\<rparr> in
      if event = ''initialized''
      then recoveries_at (\<lambda>r. rc_wait r = InitWait) True
             (c1\<lparr>cl_calls := map (\<lambda>t. if ct_wait t = WaitInit then answer_call (Inr JUndef) t else t) (cl_calls c1),
                 cl_connects := 0,
                 vm_initializedSocket := (if vm_destroyed c1 then vm_initializedSocket c1 else cs_socket c1)\<rparr>)
      else if event = ''initialization:failed'' then recoveries_at (\<lambda>r. rc_wait r = InitWait) False c1
      else if event = ''context:changed'' then recoveries_at (\<lambda>r. rc_wait r = TrafficWait \<and> rc_token r \<noteq> token_of c1) False c1
      else if event = ''websocket:connected'' then ((idle_start ^^ it_resets c1) c1)\<lparr>it_resets := 0\<rparr>
      else if event = ''client:close'' \<and> it_present c1 then idle_stop c1
      else c1)"

text \<open>\<open>socket.send\<close>: a socket that is not open drops the frame.\<close>

definition socket_send :: "host \<Rightarrow> nat \<Rightarrow> jsval \<Rightarrow> client \<Rightarrow> client js" where
  "socket_send h w payload c =
     rbind (ejson_stringify h False payload) (\<lambda>_.
       if ws_state (socket_at c w) = Connecting then Inl (Error ''InvalidStateError'')
       else Inr (if ws_state (socket_at c w) = Open then c\<lparr>br_sent := br_sent c @ [(w, payload)]\<rparr> else c))"

definition socket_close :: "nat \<Rightarrow> client \<Rightarrow> client" where
  "socket_close w c =
     (if ws_state (socket_at c w) \<in> {Connecting, Open} then update_socket w (\<lambda>s. s\<lparr>ws_state := Closing\<rparr>) c else c)"

section \<open>Client socket\<close>

definition clearReconnectTimer :: "client \<Rightarrow> client" where
  "clearReconnectTimer c =
     (case cs_reconnectTimer c of
        None \<Rightarrow> c
      | Some t \<Rightarrow> c\<lparr>br_reconnects := js_remove t (br_reconnects c), cs_reconnectTimer := None\<rparr>)"

definition createSocket :: "host \<Rightarrow> client \<Rightarrow> client" where
  "createSocket h c =
     (let token = token_of c;
          w = \<lparr>ws_state = Connecting, ws_attached = True,
               ws_token = (if truthy token then Some (js_string h token) else None),
               ws_meta = (if truthy (cl_meta c) \<and> own_entries (cl_meta c) \<noteq> [] then Some (cl_meta c) else None)\<rparr> in
      c\<lparr>cs_socket := Some (length (br_sockets c)), br_sockets := br_sockets c @ [w]\<rparr>)"

definition connect :: "host \<Rightarrow> client \<Rightarrow> client" where
  "connect h c =
     (let c1 = clearReconnectTimer c in
      if ready c1 then c1
      else createSocket h (client_emit ''connecting'' JUndef
             (c1\<lparr>cs_stopped := False, cs_connecting := True, cs_reconnectAttempt := 0\<rparr>)))"

text \<open>The answer to the promise of an attempt reaches the call that still waits for it.\<close>

definition settle_call :: "promise \<Rightarrow> settlement \<Rightarrow> call_task list \<Rightarrow> call_task list" where
  "settle_call p v ts =
     (let t = ts ! fst p in
      if ct_wait t = WaitSocket \<and> ct_attempt t = snd p then ts[fst p := answer_call v t] else ts)"

definition rejectAllPending :: "string \<Rightarrow> client \<Rightarrow> client" where
  "rejectAllPending reason c =
     c\<lparr>cl_calls := foldl (\<lambda>ts (_, p). settle_call p (Inl (Reason (Error reason))) ts) (cl_calls c) (cs_pending c),
       br_acks := filter (\<lambda>(k, _). \<not> jm_has (cs_pending c) k) (br_acks c),
       cs_pending := []\<rparr>"

definition clearAllPending :: "client \<Rightarrow> client" where
  "clearAllPending c =
     c\<lparr>br_acks := filter (\<lambda>(k, _). \<not> jm_has (cs_pending c) k) (br_acks c), cs_pending := []\<rparr>"

text \<open>
  The part of \<open>close\<close> up to its wait for the close event, and the rest of it.
\<close>

definition close_socket :: "client \<Rightarrow> client" where
  "close_socket c =
     (let c1 = clearAllPending (clearReconnectTimer (c\<lparr>cs_stopped := True, cs_connecting := False\<rparr>)) in
      case cs_socket c1 of
        None \<Rightarrow> client_emit ''websocket:closed'' JUndef c1
      | Some w \<Rightarrow>
          if ws_state (socket_at c1 w) = Closed then client_emit ''websocket:closed'' JUndef (c1\<lparr>cs_socket := None\<rparr>)
          else socket_close w (c1\<lparr>br_closing := br_closing c1 @ [w]\<rparr>))"

definition socket_closed :: "nat \<Rightarrow> client \<Rightarrow> client" where
  "socket_closed w c =
     (let c1 = c\<lparr>br_closing := remove1 w (br_closing c)\<rparr> in
      client_emit ''websocket:closed'' JUndef (if cs_socket c1 = Some w then c1\<lparr>cs_socket := None\<rparr> else c1))"

definition retireConnection :: "client \<Rightarrow> client" where
  "retireConnection c =
     (let c1 = rejectAllPending ''Connection lost'' (clearReconnectTimer (c\<lparr>cs_stopped := True, cs_connecting := False\<rparr>));
          c2 = (case cs_socket c1 of
                  None \<Rightarrow> c1
                | Some w \<Rightarrow> socket_close w ((update_socket w (\<lambda>s. s\<lparr>ws_attached := False\<rparr>) c1)\<lparr>cs_socket := None\<rparr>))
      in client_emit ''websocket:closed'' JUndef c2)"

definition rpc_frame :: "string \<Rightarrow> string \<Rightarrow> jsval \<Rightarrow> jsval" where
  "rpc_frame uuid method params = JObj [(''t'', JStr ''rpc''), (''id'', JStr uuid), (''method'', JStr method), (''params'', params)]"

text \<open>\<open>send\<close>: a call without response.\<close>

definition send :: "host \<Rightarrow> string \<Rightarrow> jsval \<Rightarrow> client \<Rightarrow> client js" where
  "send h method params c =
     (case cs_socket c of
        Some w \<Rightarrow>
          if ready c then socket_send h w (JObj [(''t'', JStr ''rpc:void''), (''method'', JStr method), (''params'', params)]) c
          else Inr c
      | None \<Rightarrow> Inr c)"

definition update_call :: "nat \<Rightarrow> (call_task \<Rightarrow> call_task) \<Rightarrow> client \<Rightarrow> client" where
  "update_call k f c = c\<lparr>cl_calls := (cl_calls c)[k := f (cl_calls c ! k)]\<rparr>"

text \<open>\<open>emitWithAck\<close> on behalf of the call \<open>k\<close>, under the identifier it draws.\<close>

definition emitWithAck :: "host \<Rightarrow> string \<Rightarrow> nat \<Rightarrow> client \<Rightarrow> client" where
  "emitWithAck h uuid k c =
     (let c0 = update_call k (\<lambda>t. t\<lparr>ct_wait := WaitSocket, ct_answer := None\<rparr>) c in
      case cs_socket c0 of
        None \<Rightarrow> update_call k (answer_call (Inl (Reason (Error ''Socket not ready'')))) c0
      | Some w \<Rightarrow>
          if \<not> ready c0 then update_call k (answer_call (Inl (Reason (Error ''Socket not ready'')))) c0
          else
            (let t = cl_calls c0 ! k;
                 p = (k, ct_attempt t);
                 c1 = c0\<lparr>br_acks := br_acks c0 @ [(uuid, p)], cs_pending := jm_set uuid p (cs_pending c0)\<rparr> in
             case socket_send h w (rpc_frame uuid (ct_method t) (ct_params t)) c1 of
               Inl err \<Rightarrow> update_call k (answer_call (Inl (Reason err))) c1
             | Inr c2 \<Rightarrow> c2))"

definition ack_timeout :: "string \<Rightarrow> promise \<Rightarrow> client \<Rightarrow> client" where
  "ack_timeout uuid p c =
     c\<lparr>br_acks := remove1 (uuid, p) (br_acks c), cs_pending := jm_delete uuid (cs_pending c),
       cl_calls := settle_call p (Inl (Reason (Error ''Acknowledgment timeout''))) (cl_calls c)\<rparr>"

section \<open>Calls\<close>

text \<open>The body of an HTTP request; the refresh token of the context stays out of it.\<close>

definition request_body :: "client \<Rightarrow> jsval \<Rightarrow> jsval" where
  "request_body c payload =
     JObj [(''context'', JObj (omit (cm_context (cl_manager c)) [''refreshToken''])), (''payload'', payload)]"

definition request_headers :: "client \<Rightarrow> (string \<times> jsval) list" where
  "request_headers c =
     [(''x-client-id'', JStr (cl_uuid c)), (''Accept'', JStr ''text/plain, */*''), (''Content-Type'', JStr ''text/plain'')] @
     (if truthy (token_of c) then [(''x-api-key'', token_of c)] else [])"

text \<open>How a request ends: the fetch fails, or a response arrives, with its body and what \<open>Presentation.decode\<close> makes of it.\<close>

datatype http_reply = FetchFailed js_error | HttpReply int string string "jsval js"

fun http_settlement :: "http_reply \<Rightarrow> settlement" where
  "http_settlement (FetchFailed err) = Inl (Reason err)"
| "http_settlement (HttpReply status statusText body decoded) =
     (if status \<noteq> 200 then Inl (ClientHttpResponseError status statusText body)
      else
        (case decoded of
           Inl err \<Rightarrow> Inl (Reason err)
         | Inr v \<Rightarrow>
             if v = JNull \<or> v = JUndef then Inl (Reason (TypeError ''Cannot read properties''))
             else if get_prop v ''type'' = JStr ''error'' then Inl (ErrorPayload v)
             else Inr (get_prop v ''result'')))"

definition http_reply :: "nat \<Rightarrow> http_reply \<Rightarrow> client \<Rightarrow> client" where
  "http_reply k reply c =
     (let c1 = c\<lparr>br_requests := filter (\<lambda>(j, _). j \<noteq> k) (br_requests c)\<rparr>;
          c2 = (case reply of
                  HttpReply status _ _ (Inr v) \<Rightarrow> if status = 200 then client_emit ''inbound:message'' v c1 else c1
                | _ \<Rightarrow> c1) in
      update_call k (\<lambda>t. if ct_wait t = WaitHttp then answer_call (http_settlement reply) t else t) c2)"

text \<open>The promise of a call without response over HTTP: \<open>None\<close> when it is never settled.\<close>

definition void_settlement :: "http_reply \<Rightarrow> settlement option" where
  "void_settlement reply =
     (case reply of
        FetchFailed err \<Rightarrow> Some (Inl (Reason err))
      | HttpReply status statusText body _ \<Rightarrow>
          if status \<noteq> 200 then Some (Inl (ClientHttpResponseError status statusText body)) else None)"

definition method_payload :: "string \<Rightarrow> call_task \<Rightarrow> jsval" where
  "method_payload uuid t =
     JObj [(''uuid'', JStr uuid), (''type'', JStr ''method''), (''method'', JStr (ct_method t)), (''params'', ct_params t)]"

definition executeCall :: "host \<Rightarrow> string \<Rightarrow> nat \<Rightarrow> client \<Rightarrow> client" where
  "executeCall h uuid k c =
     (let t = cl_calls c ! k;
          c1 = client_emit ''outbound:message'' (JObj [(''method'', JStr (ct_method t)), (''params'', ct_params t)]) c in
      if co_http (ct_options t) \<or> (\<not> ready c1 \<and> co_httpFallback (ct_options t))
      then update_call k (\<lambda>t. t\<lparr>ct_wait := WaitHttp, ct_answer := None\<rparr>)
             (c1\<lparr>br_requests := br_requests c1 @ [(k, request_body c1 (method_payload uuid t))]\<rparr>)
      else emitWithAck h uuid k c1)"

definition default_call_options :: call_options where
  "default_call_options = \<lparr>co_http = False, co_httpFallback = True, co_ignoreInit = False, co_maxRetries = 0\<rparr>"

definition client_call :: "host \<Rightarrow> string \<Rightarrow> string \<Rightarrow> jsval \<Rightarrow> call_options \<Rightarrow> client \<Rightarrow> client" where
  "client_call h uuid method params opts c =
     (let k = length (cl_calls c);
          wait = \<not> co_ignoreInit opts \<and> \<not> cl_initialized c;
          c1 = c\<lparr>cl_calls := cl_calls c @ [\<lparr>ct_method = method, ct_params = params, ct_options = opts, ct_attempt = 0,
                   ct_wait = WaitInit, ct_answer = None\<rparr>]\<rparr> in
      if wait then c1 else executeCall h uuid k c1)"

text \<open>The rest of a call after its wait was answered: \<open>waitForInitialization\<close> and the loop of \<open>retryCall\<close>.\<close>

definition resume_call :: "host \<Rightarrow> string \<Rightarrow> nat \<Rightarrow> client \<Rightarrow> client" where
  "resume_call h uuid k c =
     (let t = cl_calls c ! k in
      case ct_answer t of
        None \<Rightarrow> c
      | Some v \<Rightarrow>
          (case ct_wait t of
             WaitInit \<Rightarrow>
               (case v of
                  Inl _ \<Rightarrow> update_call k (\<lambda>t. t\<lparr>ct_wait := CallDone (Inl (Reason (Error ''TypeFerry: Client not initialized'')))\<rparr>) c
                | Inr _ \<Rightarrow> executeCall h uuid k c)
           | WaitRetry \<Rightarrow> executeCall h uuid k (update_call k (\<lambda>t. t\<lparr>ct_attempt := Suc (ct_attempt t)\<rparr>) c)
           | CallDone _ \<Rightarrow> c
           | _ \<Rightarrow>
               (case v of
                  Inr r \<Rightarrow> update_call k (\<lambda>t. t\<lparr>ct_wait := CallDone (Inr r)\<rparr>) c
                | Inl e \<Rightarrow>
                    if ct_attempt t \<ge> co_maxRetries (ct_options t)
                    then update_call k (\<lambda>t. t\<lparr>ct_wait := CallDone (Inl e)\<rparr>) c
                    else update_call k (\<lambda>t. t\<lparr>ct_wait := WaitRetry, ct_answer := None\<rparr>) c)))"

section \<open>Channels\<close>

definition NO_CHANNEL_CLIENT :: string where
  "NO_CHANNEL_CLIENT = ''NO_CHANNEL''"

definition new_client_channel :: client_channel where
  "new_client_channel = \<lparr>cc_events = [], cc_pendingSubscriptions = [], cc_subscribeTimer = False,
     cc_pendingUnsubscriptions = [], cc_unsubscribeTimer = False\<rparr>"

definition client_channel_of :: "string \<Rightarrow> client \<Rightarrow> client_channel" where
  "client_channel_of name c = (case jm_get (cl_channels c) name of None \<Rightarrow> new_client_channel | Some ch \<Rightarrow> ch)"

definition update_channel :: "string \<Rightarrow> (client_channel \<Rightarrow> client_channel) \<Rightarrow> client \<Rightarrow> client" where
  "update_channel name f c = c\<lparr>cl_channels := jm_set name (f (client_channel_of name c)) (cl_channels c)\<rparr>"

text \<open>\<open>client.channel(name)\<close>: the channel of the name is created on demand.\<close>

definition client_channel_named :: "jsval \<Rightarrow> client \<Rightarrow> string option \<times> client" where
  "client_channel_named v c =
     (case (case v of JObjectId hex \<Rightarrow> JStr hex | _ \<Rightarrow> v) of
        JStr name \<Rightarrow>
          if name = [] then (None, c)
          else if name = NO_CHANNEL_CLIENT \<or> jm_has (cl_channels c) name then (Some name, c)
          else (Some name, c\<lparr>cl_channels := jm_set name new_client_channel (cl_channels c)\<rparr>)
      | _ \<Rightarrow> (None, c))"

definition subscribe_events :: "string \<Rightarrow> string list \<Rightarrow> client \<Rightarrow> client" where
  "subscribe_events name events c =
     (if events = [] then c
      else update_channel name (\<lambda>ch. ch\<lparr>cc_events := foldl (\<lambda>es e. js_add e es) (cc_events ch) events,
             cc_pendingSubscriptions := foldl (\<lambda>es e. js_add e es) (cc_pendingSubscriptions ch) events,
             cc_subscribeTimer := True\<rparr>) c)"

definition unsubscribe_events :: "string \<Rightarrow> string list \<Rightarrow> client \<Rightarrow> client" where
  "unsubscribe_events name events c =
     (if events = [] then c
      else update_channel name (\<lambda>ch. ch\<lparr>cc_events := foldl (\<lambda>es e. js_remove e es) (cc_events ch) events,
             cc_pendingUnsubscriptions := foldl (\<lambda>es e. js_add e es) (cc_pendingUnsubscriptions ch) events,
             cc_unsubscribeTimer := True\<rparr>) c)"

definition subscription_params :: "string list \<Rightarrow> string \<Rightarrow> jsval" where
  "subscription_params events name = JObj [(''events'', JArr (map JStr events)), (''channel'', JStr name)]"

definition commitPendingSubscriptions :: "host \<Rightarrow> string \<Rightarrow> string \<Rightarrow> client \<Rightarrow> client" where
  "commitPendingSubscriptions h uuid name c =
     (let events = cc_pendingSubscriptions (client_channel_of name c);
          c1 = update_channel name (\<lambda>ch. ch\<lparr>cc_pendingSubscriptions := [], cc_subscribeTimer := False\<rparr>) c in
      if events = [] then c1 else client_call h uuid ''rpc:on'' (subscription_params events name) default_call_options c1)"

definition commitPendingUnsubscriptions :: "host \<Rightarrow> string \<Rightarrow> string \<Rightarrow> client \<Rightarrow> client" where
  "commitPendingUnsubscriptions h uuid name c =
     (let events = cc_pendingUnsubscriptions (client_channel_of name c);
          c1 = update_channel name (\<lambda>ch. ch\<lparr>cc_pendingUnsubscriptions := [], cc_unsubscribeTimer := False\<rparr>) c in
      if events = [] then c1 else client_call h uuid ''rpc:off'' (subscription_params events name) default_call_options c1)"

definition resubscribe :: "string \<Rightarrow> client \<Rightarrow> client" where
  "resubscribe name c = subscribe_events name (cc_events (client_channel_of name c)) c"

end
