(* ===== verification/ClientLife.thy ===== *)
theory ClientLife
  imports ClientCore
begin

text \<open>
  The life of a client: recovery after sleep (\<open>src/client/visibility-manager.ts\<close>), reconnection and
  messages (\<open>client-socket.ts\<close>), initialization and closing (\<open>client.ts\<close>), the idle timer
  (\<open>idle-timer.ts\<close>), and the step relation that interleaves them with the browser.
\<close>

section \<open>Recovery\<close>

definition update_recovery :: "nat \<Rightarrow> (recovery_task \<Rightarrow> recovery_task) \<Rightarrow> client \<Rightarrow> client" where
  "update_recovery r f c = c\<lparr>vm_recoveries := (vm_recoveries c)[r := f (vm_recoveries c ! r)]\<rparr>"

text \<open>\<open>isServerTraffic\<close>: a frame that only a server of the protocol sends.\<close>

definition isServerTraffic :: "jsval \<Rightarrow> bool" where
  "isServerTraffic v =
     (case v of
        JObj kvs \<Rightarrow>
          (case obj_get kvs ''t'' of
             JStr t \<Rightarrow>
               if t = ''ping'' then True
               else if t = ''auth'' then (case obj_get kvs ''authenticated'' of JBool _ \<Rightarrow> True | _ \<Rightarrow> False)
               else if t = ''rpc:res'' then (case obj_get kvs ''id'' of JStr _ \<Rightarrow> True | _ \<Rightarrow> False)
               else if t = ''event''
               then (case (obj_get kvs ''event'', obj_get kvs ''channel'') of (JStr _, JStr _) \<Rightarrow> True | _ \<Rightarrow> False)
               else False
           | _ \<Rightarrow> False)
      | _ \<Rightarrow> False)"

text \<open>\<open>waitForRecovery\<close>: a wait under an aborted signal is answered at once.\<close>

definition wait_recovery :: "recovery_wait \<Rightarrow> recovery_task \<Rightarrow> recovery_task" where
  "wait_recovery w r = r\<lparr>rc_wait := w, rc_answer := (if rc_aborted r then Some False else None)\<rparr>"

definition abort_recovery :: "recovery_task \<Rightarrow> recovery_task" where
  "abort_recovery r = (answer_recovery False r)\<lparr>rc_aborted := True\<rparr>"

definition abort_current :: "client \<Rightarrow> client" where
  "abort_current c = (case vm_recovery c of None \<Rightarrow> c | Some r \<Rightarrow> update_recovery r abort_recovery c)"

text \<open>The end of a recovery with the handlers of \<open>finishRecovery\<close>.\<close>

definition finish_recovery :: "nat \<Rightarrow> client \<Rightarrow> client" where
  "finish_recovery r c =
     (let c1 = update_recovery r (\<lambda>t. t\<lparr>rc_wait := Recovered, rc_aborted := True\<rparr>) c in
      if vm_recovery c1 = Some r then c1\<lparr>vm_recovery := None\<rparr> else c1)"

definition replaceConnection :: "host \<Rightarrow> int \<Rightarrow> nat \<Rightarrow> client \<Rightarrow> client" where
  "replaceConnection h now r c =
     (let wasInitialized = cl_initialized c;
          c1 = update_recovery r (wait_recovery InitWait) c;
          c2 = retireConnection (c1\<lparr>cl_initialized := False, cl_initializing := False\<rparr>) in
      if rc_aborted (vm_recoveries c2 ! r) then c2
      else
        (let c3 = (connect h c2)\<lparr>vm_lastHeartbeat := now\<rparr> in
         if wasInitialized then client_emit ''websocket:reconnecting'' JUndef c3 else c3))"

definition start_recovery :: "client \<Rightarrow> nat \<times> client" where
  "start_recovery c =
     (let r = length (vm_recoveries c) in
      (r, c\<lparr>vm_recoveries := vm_recoveries c @ [\<lparr>rc_aborted = False, rc_wait = InitWait, rc_answer = None,
               rc_socket = cs_socket c, rc_token = token_of c\<rparr>],
            vm_recovery := Some r\<rparr>))"

definition reconnect :: "host \<Rightarrow> int \<Rightarrow> client \<Rightarrow> client" where
  "reconnect h now c =
     (let (r, c1) = start_recovery (abort_current c) in replaceConnection h now r c1)"

definition vm_destroy :: "client \<Rightarrow> client" where
  "vm_destroy c =
     (abort_current c)\<lparr>vm_destroyed := True, vm_recovery := None, vm_missedHeartbeat := False, vm_heartbeat := False\<rparr>"

definition needsTokenHandshake :: "nat option \<Rightarrow> jsval \<Rightarrow> client \<Rightarrow> bool" where
  "needsTokenHandshake previousSocket previousToken c =
     (let token = token_of c in
      if token = previousToken then False
      else
        (case cs_socket c of
           None \<Rightarrow> True
         | Some w \<Rightarrow>
             Some w = previousSocket \<or>
             (case token of
                JStr t \<Rightarrow> ws_token (socket_at c w) \<noteq> Some t
              | JUndef \<Rightarrow> ws_token (socket_at c w) \<noteq> None
              | JNull \<Rightarrow> ws_token (socket_at c w) \<noteq> None
              | _ \<Rightarrow> True)))"

definition wait_or_finish :: "nat \<Rightarrow> client \<Rightarrow> client" where
  "wait_or_finish r c =
     (if vm_initializedSocket c \<noteq> cs_socket c then update_recovery r (wait_recovery InitWait) c else finish_recovery r c)"

definition join_or_replace :: "host \<Rightarrow> int \<Rightarrow> nat \<Rightarrow> client \<Rightarrow> client" where
  "join_or_replace h now r c =
     (if cs_connecting c \<or> (case cs_socket c of None \<Rightarrow> False | Some w \<Rightarrow> ws_state (socket_at c w) = Connecting) \<or> cl_initializing c \<or>
         (ready c \<and> vm_initializedSocket c \<noteq> cs_socket c)
      then update_recovery r (wait_recovery InitWait) c
      else replaceConnection h now r c)"

text \<open>\<open>runHookAndReconnect\<close> after its hook, and after its wait for traffic.\<close>

definition after_hook :: "host \<Rightarrow> int \<Rightarrow> bool \<Rightarrow> nat \<Rightarrow> client \<Rightarrow> client" where
  "after_hook h now hookSucceeded r c =
     (let t = vm_recoveries c ! r in
      if rc_aborted t then finish_recovery r c
      else if \<not> hookSucceeded \<or> needsTokenHandshake (rc_socket t) (rc_token t) c then replaceConnection h now r c
      else if cs_socket c \<noteq> rc_socket t then wait_or_finish r c
      else if ready c \<and> cl_initialized c \<and> vm_initializedSocket c = rc_socket t
      then update_recovery r (wait_recovery TrafficWait) c
      else join_or_replace h now r c)"

definition after_traffic :: "host \<Rightarrow> int \<Rightarrow> bool \<Rightarrow> nat \<Rightarrow> client \<Rightarrow> client" where
  "after_traffic h now receivedTraffic r c =
     (let t = vm_recoveries c ! r in
      if rc_aborted t then finish_recovery r c
      else if needsTokenHandshake (rc_socket t) (rc_token t) c then replaceConnection h now r c
      else if cs_socket c \<noteq> rc_socket t then wait_or_finish r c
      else if receivedTraffic \<and> ready c then finish_recovery r c
      else join_or_replace h now r c)"

text \<open>The loop of \<open>runBeforeReconnect\<close> and the waits of a recovery.\<close>

definition HOOK_RETRY_ATTEMPTS :: nat where
  "HOOK_RETRY_ATTEMPTS = 3"

definition resume_recovery :: "host \<Rightarrow> int \<Rightarrow> nat \<Rightarrow> client \<Rightarrow> client" where
  "resume_recovery h now r c =
     (let t = vm_recoveries c ! r in
      case rc_answer t of
        None \<Rightarrow> c
      | Some b \<Rightarrow>
          (case rc_wait t of
             HookWait attempt \<Rightarrow>
               if b then after_hook h now True r c
               else if attempt < HOOK_RETRY_ATTEMPTS - 1 then update_recovery r (wait_recovery (HookDelay attempt)) c
               else after_hook h now False r c
           | HookDelay attempt \<Rightarrow>
               if rc_aborted t then after_hook h now False r c
               else update_recovery r (wait_recovery (HookWait (Suc attempt))) c
           | TrafficWait \<Rightarrow> after_traffic h now b r c
           | InitWait \<Rightarrow> finish_recovery r c
           | Recovered \<Rightarrow> c))"

definition handleSleepDetected :: "host \<Rightarrow> int \<Rightarrow> client \<Rightarrow> client" where
  "handleSleepDetected h now c =
     (if vm_destroyed c \<or> vm_recovery c \<noteq> None then c
      else
        (let (r, c1) = start_recovery c;
             c2 = c1\<lparr>vm_missedHeartbeat := False\<rparr> in
         if vm_hook c2 then update_recovery r (wait_recovery (HookWait 0)) c2 else after_hook h now True r c2))"

definition HEARTBEAT_THRESHOLD_MS :: int where
  "HEARTBEAT_THRESHOLD_MS = 60000"

definition FORCE_RECONNECT_THRESHOLD :: int where
  "FORCE_RECONNECT_THRESHOLD = 60 * 60 * 1000"

definition heartbeat_tick :: "host \<Rightarrow> int \<Rightarrow> bool \<Rightarrow> client \<Rightarrow> client" where
  "heartbeat_tick h now hidden c =
     (let gap = now - vm_lastHeartbeat c;
          c1 = c\<lparr>vm_lastHeartbeat := now\<rparr> in
      if gap > HEARTBEAT_THRESHOLD_MS
      then (if hidden then c1\<lparr>vm_missedHeartbeat := True\<rparr> else handleSleepDetected h now c1)
      else c1)"

definition handlePageVisible :: "host \<Rightarrow> int \<Rightarrow> client \<Rightarrow> client" where
  "handlePageVisible h now c =
     (let hiddenDuration = (case vm_hiddenAt c of None \<Rightarrow> 0 | Some t \<Rightarrow> if t = 0 then 0 else now - t);
          c1 = c\<lparr>vm_hiddenAt := None\<rparr>;
          isConnected = ready c1 \<and> cl_initialized c1 in
      if \<not> isConnected \<or> vm_missedHeartbeat c1 \<or> now - vm_lastHeartbeat c1 > HEARTBEAT_THRESHOLD_MS \<or>
         hiddenDuration > FORCE_RECONNECT_THRESHOLD
      then handleSleepDetected h now c1
      else if it_present c1 then idle_start (idle_stop c1) else c1)"

section \<open>Closing\<close>

definition idle_destroy :: "client \<Rightarrow> client" where
  "idle_destroy c = (idle_stop c)\<lparr>it_listening := False\<rparr>"

text \<open>\<open>client.close()\<close>; the waits for pending subscriptions end with it.\<close>

definition client_close :: "client \<Rightarrow> client" where
  "client_close c =
     (let c1 = client_emit ''client:close'' JUndef c;
          c2 = (if it_present c1 then idle_destroy c1 else c1)
      in close_socket (vm_destroy c2))"

definition handlePageHide :: "bool \<Rightarrow> int \<Rightarrow> client \<Rightarrow> client" where
  "handlePageHide disconnectOnPageHide now c =
     (let c1 = c\<lparr>vm_hiddenAt := Some now\<rparr> in if disconnectOnPageHide then client_close c1 else c1)"

text \<open>User activity: the countdown starts again once the socket is open.\<close>

definition idle_reset :: "host \<Rightarrow> client \<Rightarrow> client" where
  "idle_reset h c =
     (let c1 = idle_stop c in
      if ready c1 then idle_start c1 else (connect h c1)\<lparr>it_resets := Suc (it_resets c1)\<rparr>)"

section \<open>Connection lifecycle\<close>

definition handleOpen :: "client \<Rightarrow> client" where
  "handleOpen c =
     (client_emit ''websocket:connected'' JUndef c)\<lparr>cs_connecting := False, cs_reconnectAttempt := 0, cs_exhaustedReconnect := False\<rparr>"

definition scheduleReconnect :: "host \<Rightarrow> int \<Rightarrow> client \<Rightarrow> client" where
  "scheduleReconnect h now c =
     (if cs_stopped c then c
      else
        (let c1 = c\<lparr>cs_reconnectAttempt := Suc (cs_reconnectAttempt c)\<rparr> in
         if cs_reconnectAttempt c1 > MAX_RECONNECT_ATTEMPTS
         then (if cs_exhaustedReconnect c1 then c1 else reconnect h now (c1\<lparr>cs_exhaustedReconnect := True\<rparr>))
         else c1\<lparr>cs_connecting := True, cs_reconnectTimer := Some (br_timers c1),
                 br_reconnects := br_reconnects c1 @ [br_timers c1], br_timers := Suc (br_timers c1)\<rparr>))"

definition handleClose_socket :: "host \<Rightarrow> int \<Rightarrow> client \<Rightarrow> client" where
  "handleClose_socket h now c =
     (let c1 = client_emit ''websocket:closed'' JUndef
                 (rejectAllPending ''Connection lost'' (c\<lparr>cl_initialized := False, cl_initializing := False\<rparr>)) in
      if cs_stopped c1 then c1\<lparr>cs_socket := None\<rparr> else scheduleReconnect h now c1)"

definition handleSocketError :: "client \<Rightarrow> client" where
  "handleSocketError c = client_emit ''error'' (JStr ''WebSocket error'') (c\<lparr>cs_connecting := False\<rparr>)"

definition reconnect_timer :: "host \<Rightarrow> nat \<Rightarrow> client \<Rightarrow> client" where
  "reconnect_timer h t c =
     createSocket h (c\<lparr>br_reconnects := js_remove t (br_reconnects c), cs_reconnectTimer := None, cs_socket := None\<rparr>)"

section \<open>Initialization\<close>

text \<open>The context changes of the manager are events of the client.\<close>

definition with_manager :: "js_error option \<times> context_manager \<Rightarrow> client \<Rightarrow> client" where
  "with_manager r c =
     (let c1 = c\<lparr>cl_manager := snd r\<rparr> in
      if cm_changes (snd r) \<noteq> cm_changes (cl_manager c) then client_emit ''context:changed'' JUndef c1 else c1)"

text \<open>
  \<open>initialize\<close> up to its first wait. A stored context that cannot be read makes it throw with
  \<open>initializing\<close> set. The channels are subscribed again one after the other.
\<close>

definition initialize :: "host \<Rightarrow> custom_types \<Rightarrow> deep_equal \<Rightarrow> client \<Rightarrow> client" where
  "initialize h ct same c =
     (if cl_initializing c then c
      else
        (let r = cm_loadContext h ct same (cl_manager c);
             c1 = with_manager r (c\<lparr>cl_initializing := True, cl_initialized := False\<rparr>) in
         case fst r of
           Some _ \<Rightarrow> c1
         | None \<Rightarrow>
             (let c2 = (client_emit ''initializing'' JUndef c1)\<lparr>cl_initialized := True, cl_initializing := False\<rparr> in
              resubscribe (fst (cl_channels c2 ! 0)) (c2\<lparr>cl_resubscribing := cl_resubscribing c2 @ [0]\<rparr>))))"

definition resubscribe_next :: "nat \<Rightarrow> client \<Rightarrow> client" where
  "resubscribe_next j c =
     (let i = Suc (cl_resubscribing c ! j) in
      if i < length (cl_channels c)
      then resubscribe (fst (cl_channels c ! i)) (c\<lparr>cl_resubscribing := (cl_resubscribing c)[j := i]\<rparr>)
      else client_emit ''initialized'' (cl_authenticated c)
             (c\<lparr>cl_resubscribing := take j (cl_resubscribing c) @ drop (Suc j) (cl_resubscribing c)\<rparr>))"

definition setContextAndReInit :: "host \<Rightarrow> deep_equal \<Rightarrow> jsobj \<Rightarrow> client \<Rightarrow> client" where
  "setContextAndReInit h same context c =
     (if same (JObj (cm_context (cl_manager c))) (JObj context) then connect h (retireConnection c)
      else
        (let r = cm_setContext h context (cl_manager c);
             c1 = with_manager r c in
         case fst r of Some _ \<Rightarrow> c1 | None \<Rightarrow> connect h (retireConnection c1)))"

text \<open>The end of \<open>login\<close> with the response of its call, and of \<open>logout\<close>.\<close>

definition login_response :: "host \<Rightarrow> deep_equal \<Rightarrow> jsval \<Rightarrow> client \<Rightarrow> js_error option \<times> client" where
  "login_response h same response c =
     (if \<not> truthy response \<or> isEmpty response then (Some (Error ''Authentication Failed''), c)
      else (None, case response of JObj kvs \<Rightarrow> setContextAndReInit h same kvs c | _ \<Rightarrow> c))"

definition client_logged_out :: "client \<Rightarrow> client" where
  "client_logged_out c =
     client_emit ''auth:logout'' (JBool False)
       (with_manager (None, cm_clearContext (cl_manager c)) (c\<lparr>cl_authenticated := JBool False\<rparr>))"

section \<open>Messages\<close>

definition handleRpcResponse :: "host \<Rightarrow> jsval \<Rightarrow> client \<Rightarrow> client" where
  "handleRpcResponse h msg c =
     (case get_prop msg ''id'' of
        JStr uuid \<Rightarrow>
          (case jm_get (cs_pending c) uuid of
             None \<Rightarrow> c
           | Some p \<Rightarrow>
               c\<lparr>cs_pending := jm_delete uuid (cs_pending c), br_acks := remove1 (uuid, p) (br_acks c),
                 cl_calls := settle_call p (if truthy (get_prop msg ''error'')
                                       then Inl (Reason (Error (js_string h (get_prop msg ''error''))))
                                       else Inr (get_prop msg ''result'')) (cl_calls c)\<rparr>)
      | _ \<Rightarrow> c)"

text \<open>\<open>handleEvent\<close>: an event of the server reaches the listeners of its channel.\<close>

definition handleEvent_client :: "jsval \<Rightarrow> client \<Rightarrow> client" where
  "handleEvent_client payload c =
     (case (get_prop payload ''channel'', get_prop payload ''event'') of
        (JStr ch, JStr event) \<Rightarrow>
          (let c1 = client_emit ''inbound:message'' payload c in
           case client_channel_named (JStr ch) c1 of
             (None, c2) \<Rightarrow> c2
           | (Some name, c2) \<Rightarrow>
               (let c3 = c2\<lparr>cl_delivered := cl_delivered c2 @ [(name, event, get_prop payload ''params'')]\<rparr> in
                if name = NO_CHANNEL_CLIENT then client_emit event (get_prop payload ''params'') c3 else c3))
      | _ \<Rightarrow> c)"

definition handleTypedAuth :: "host \<Rightarrow> custom_types \<Rightarrow> deep_equal \<Rightarrow> jsval \<Rightarrow> client \<Rightarrow> client" where
  "handleTypedAuth h ct same msg c = initialize h ct same (c\<lparr>cl_authenticated := get_prop msg ''authenticated''\<rparr>)"

definition handleMessage_client :: "host \<Rightarrow> custom_types \<Rightarrow> deep_equal \<Rightarrow> jsval js \<Rightarrow> client \<Rightarrow> client" where
  "handleMessage_client h ct same decoded c =
     (case decoded of
        Inl _ \<Rightarrow> c
      | Inr msg \<Rightarrow>
          if get_prop msg ''t'' = JStr ''rpc:res'' then handleRpcResponse h msg c
          else if get_prop msg ''t'' = JStr ''event'' then handleEvent_client msg c
          else if get_prop msg ''t'' = JStr ''auth'' then handleTypedAuth h ct same msg c
          else if get_prop msg ''t'' = JStr ''ping''
          then (case cs_socket c of
                  None \<Rightarrow> c
                | Some w \<Rightarrow> (case socket_send h w (JObj [(''t'', JStr ''pong'')]) c of Inl _ \<Rightarrow> c | Inr c' \<Rightarrow> c'))
          else c)"

section \<open>Steps\<close>

definition client_connect :: "host \<Rightarrow> client \<Rightarrow> client" where
  "client_connect h c = (connect h c)\<lparr>cl_connects := Suc (cl_connects c)\<rparr>"

definition new_client :: "host \<Rightarrow> custom_types \<Rightarrow> deep_equal \<Rightarrow> string \<Rightarrow> jsval \<Rightarrow> context_manager \<Rightarrow> jsobj option \<Rightarrow> bool \<Rightarrow> int \<Rightarrow> js_error option \<times> client" where
  "new_client h ct same uuid meta manager initialContext idle now =
     (let loaded = cm_loadContext h ct same manager;
          contexts = (case (fst loaded, initialContext) of
                        (None, Some context) \<Rightarrow> cm_setContext h context (snd loaded)
                      | _ \<Rightarrow> loaded);
          c = \<lparr>cs_socket = None, cs_stopped = False, cs_connecting = False, cs_pending = [], cs_reconnectAttempt = 0,
               cs_reconnectTimer = None, cs_exhaustedReconnect = False, cl_manager = snd contexts, cl_uuid = uuid, cl_meta = meta,
               cl_initialized = False, cl_initializing = False,
               cl_authenticated = JBool (truthy (obj_get (cm_context (snd contexts)) ''token'')),
               cl_channels = [(NO_CHANNEL_CLIENT, new_client_channel)], cl_resubscribing = [], cl_calls = [], cl_connects = 0,
               vm_hook = False, vm_hiddenAt = None, vm_heartbeat = True, vm_lastHeartbeat = now, vm_recovery = None,
               vm_missedHeartbeat = False, vm_destroyed = False, vm_initializedSocket = None, vm_recoveries = [],
               it_present = idle, it_timerId = None, it_resets = 0, it_listening = idle,
               br_sockets = [], br_acks = [], br_reconnects = [], br_idle = [], br_timers = 0, br_closing = [], br_sent = [],
               br_requests = [], cl_emitted = [], cl_delivered = []\<rparr> in
      (fst contexts, if fst contexts = None then client_connect h c else c))"

text \<open>
  What can happen to a client: calls of the application, events of the browser and its timers, and
  tasks that go on after a wait. An identifier that is drawn for a call is not in use.
\<close>

datatype client_label =
    AppConnect | AppReconnect int | AppClose | AppCall string string jsval call_options | AppVoid string jsval
  | AppSubscribe string "string list" | AppUnsubscribe string "string list" | AppChannel jsval
  | AppSetContextAndReInit jsobj | AppLoggedOut | AppHook bool
  | Opened nat | ClosedEvent nat int | Errored nat | Frame nat "jsval js"
  | AckTimer string promise | ReconnectTimer nat | IdleTimer nat | InitTimer nat | RetryTimer nat | ConnectTimer
  | RecoveryTimer nat | HookSettled nat bool | Reply nat http_reply
  | CommitSubscriptions string string | CommitUnsubscriptions string string
  | ResumeCall string nat | ResumeRecovery nat int | ResumeClose nat | ResubscribeNext nat
  | Heartbeat int bool | PageHidden bool int | PageVisible int | Activity | IdleBegin | ResetTimer

text \<open>A browser event reaches the handler of the socket only while it is the active one.\<close>

definition on_active :: "nat \<Rightarrow> (client \<Rightarrow> client) \<Rightarrow> client \<Rightarrow> client" where
  "on_active w f c = (if ws_attached (socket_at c w) \<and> cs_socket c = Some w then f c else c)"

definition waiting_traffic :: "nat \<Rightarrow> recovery_task \<Rightarrow> bool" where
  "waiting_traffic w r \<longleftrightarrow> rc_wait r = TrafficWait \<and> rc_socket r = Some w"

fun client_enabled :: "client_label \<Rightarrow> client \<Rightarrow> bool" where
  "client_enabled (Opened w) c \<longleftrightarrow> w < length (br_sockets c) \<and> ws_state (socket_at c w) = Connecting"
| "client_enabled (ClosedEvent w now) c \<longleftrightarrow> w < length (br_sockets c) \<and> ws_state (socket_at c w) \<noteq> Closed"
| "client_enabled (Errored w) c \<longleftrightarrow> w < length (br_sockets c) \<and> ws_state (socket_at c w) \<noteq> Closed"
| "client_enabled (Frame w decoded) c \<longleftrightarrow> w < length (br_sockets c) \<and> ws_state (socket_at c w) = Open"
| "client_enabled (AckTimer uuid p) c \<longleftrightarrow> (uuid, p) \<in> set (br_acks c)"
| "client_enabled (ReconnectTimer t) c \<longleftrightarrow> t \<in> set (br_reconnects c)"
| "client_enabled (IdleTimer t) c \<longleftrightarrow> t \<in> set (br_idle c)"
| "client_enabled (InitTimer k) c \<longleftrightarrow> k < length (cl_calls c) \<and> ct_wait (cl_calls c ! k) = WaitInit"
| "client_enabled (RetryTimer k) c \<longleftrightarrow> k < length (cl_calls c) \<and> ct_wait (cl_calls c ! k) = WaitRetry"
| "client_enabled ConnectTimer c \<longleftrightarrow> cl_connects c > 0"
| "client_enabled (RecoveryTimer r) c \<longleftrightarrow> r < length (vm_recoveries c)"
| "client_enabled (HookSettled r b) c \<longleftrightarrow> r < length (vm_recoveries c) \<and> (\<exists>n \<in> {0, 1, 2}. rc_wait (vm_recoveries c ! r) = HookWait n)"
| "client_enabled (Reply k reply) c \<longleftrightarrow> k < length (cl_calls c) \<and> k \<in> fst ` set (br_requests c)"
| "client_enabled (AppCall uuid method params opts) c \<longleftrightarrow> \<not> jm_has (cs_pending c) uuid"
| "client_enabled (CommitSubscriptions uuid name) c \<longleftrightarrow> \<not> jm_has (cs_pending c) uuid \<and> jm_has (cl_channels c) name \<and> cc_subscribeTimer (client_channel_of name c)"
| "client_enabled (CommitUnsubscriptions uuid name) c \<longleftrightarrow> \<not> jm_has (cs_pending c) uuid \<and> jm_has (cl_channels c) name \<and> cc_unsubscribeTimer (client_channel_of name c)"
| "client_enabled (ResumeCall uuid k) c \<longleftrightarrow> \<not> jm_has (cs_pending c) uuid \<and> k < length (cl_calls c) \<and> ct_answer (cl_calls c ! k) \<noteq> None"
| "client_enabled (ResumeRecovery r now) c \<longleftrightarrow> r < length (vm_recoveries c) \<and> rc_answer (vm_recoveries c ! r) \<noteq> None"
| "client_enabled (ResumeClose w) c \<longleftrightarrow> w \<in> set (br_closing c) \<and> ws_state (socket_at c w) = Closed"
| "client_enabled (ResubscribeNext j) c \<longleftrightarrow> j < length (cl_resubscribing c)"
| "client_enabled (Heartbeat now hidden) c \<longleftrightarrow> vm_heartbeat c"
| "client_enabled (PageHidden b now) c \<longleftrightarrow> \<not> vm_destroyed c"
| "client_enabled (PageVisible now) c \<longleftrightarrow> \<not> vm_destroyed c"
| "client_enabled Activity c \<longleftrightarrow> it_listening c"
| "client_enabled IdleBegin c \<longleftrightarrow> it_present c"
| "client_enabled ResetTimer c \<longleftrightarrow> it_resets c > 0"
| "client_enabled (AppSubscribe name events) c \<longleftrightarrow> jm_has (cl_channels c) name"
| "client_enabled (AppUnsubscribe name events) c \<longleftrightarrow> jm_has (cl_channels c) name"
| "client_enabled _ c \<longleftrightarrow> True"

fun client_step :: "host \<Rightarrow> custom_types \<Rightarrow> deep_equal \<Rightarrow> client_label \<Rightarrow> client \<Rightarrow> client" where
  "client_step h ct same AppConnect c = client_connect h c"
| "client_step h ct same (AppReconnect now) c = reconnect h now c"
| "client_step h ct same AppClose c = client_close c"
| "client_step h ct same (AppCall uuid method params opts) c = client_call h uuid method params opts c"
| "client_step h ct same (AppVoid method params) c =
     (let c1 = client_emit ''outbound:message'' (JObj [(''method'', JStr method), (''params'', params)]) c in
      case send h method params c1 of Inl _ \<Rightarrow> c1 | Inr c2 \<Rightarrow> c2)"
| "client_step h ct same (AppSubscribe name events) c = subscribe_events name events c"
| "client_step h ct same (AppUnsubscribe name events) c = unsubscribe_events name events c"
| "client_step h ct same (AppChannel v) c = snd (client_channel_named v c)"
| "client_step h ct same (AppSetContextAndReInit context) c = setContextAndReInit h same context c"
| "client_step h ct same AppLoggedOut c = client_logged_out c"
| "client_step h ct same (AppHook b) c = c\<lparr>vm_hook := b\<rparr>"
| "client_step h ct same (Opened w) c = on_active w handleOpen (update_socket w (\<lambda>s. s\<lparr>ws_state := Open\<rparr>) c)"
| "client_step h ct same (ClosedEvent w now) c =
     recoveries_at (waiting_traffic w) False
       (on_active w (handleClose_socket h now) (update_socket w (\<lambda>s. s\<lparr>ws_state := Closed\<rparr>) c))"
| "client_step h ct same (Errored w) c = recoveries_at (waiting_traffic w) False (on_active w handleSocketError c)"
| "client_step h ct same (Frame w decoded) c =
     (let c1 = on_active w (handleMessage_client h ct same decoded) c in
      case decoded of
        Inr v \<Rightarrow> if isServerTraffic v then recoveries_at (waiting_traffic w) True c1 else c1
      | Inl _ \<Rightarrow> c1)"
| "client_step h ct same (AckTimer uuid p) c = ack_timeout uuid p c"
| "client_step h ct same (ReconnectTimer t) c = reconnect_timer h t c"
| "client_step h ct same (IdleTimer t) c = client_close (c\<lparr>br_idle := js_remove t (br_idle c)\<rparr>)"
| "client_step h ct same (InitTimer k) c = update_call k (answer_call (Inl (Reason (Error ''Timed out'')))) c"
| "client_step h ct same (RetryTimer k) c = update_call k (answer_call (Inr JUndef)) c"
| "client_step h ct same ConnectTimer c = client_emit ''initialization:failed'' JUndef (c\<lparr>cl_connects := cl_connects c - 1\<rparr>)"
| "client_step h ct same (RecoveryTimer r) c = update_recovery r (\<lambda>t. if rc_wait t = Recovered then t else answer_recovery False t) c"
| "client_step h ct same (HookSettled r b) c = update_recovery r (answer_recovery b) c"
| "client_step h ct same (Reply k reply) c = http_reply k reply c"
| "client_step h ct same (CommitSubscriptions uuid name) c = commitPendingSubscriptions h uuid name c"
| "client_step h ct same (CommitUnsubscriptions uuid name) c = commitPendingUnsubscriptions h uuid name c"
| "client_step h ct same (ResumeCall uuid k) c = resume_call h uuid k c"
| "client_step h ct same (ResumeRecovery r now) c = resume_recovery h now r c"
| "client_step h ct same (ResumeClose w) c = socket_closed w c"
| "client_step h ct same (ResubscribeNext j) c = resubscribe_next j c"
| "client_step h ct same (Heartbeat now hidden) c = heartbeat_tick h now hidden c"
| "client_step h ct same (PageHidden b now) c = handlePageHide b now c"
| "client_step h ct same (PageVisible now) c = handlePageVisible h now c"
| "client_step h ct same Activity c = idle_reset h c"
| "client_step h ct same IdleBegin c = idle_start c"
| "client_step h ct same ResetTimer c = c\<lparr>it_resets := it_resets c - 1\<rparr>"

inductive client_run :: "host \<Rightarrow> custom_types \<Rightarrow> deep_equal \<Rightarrow> (client_label \<Rightarrow> bool) \<Rightarrow> client \<Rightarrow> client \<Rightarrow> bool"
  for h ct same P c0 where
  start: "client_run h ct same P c0 c0"
| step: "client_run h ct same P c0 c \<Longrightarrow> P l \<Longrightarrow> client_enabled l c \<Longrightarrow> client_run h ct same P c0 (client_step h ct same l c)"

text \<open>
  What the proofs about runs rely on: a property of the client that every step of a kind keeps. Each
  invariant of the connection and of the calls is an instance.
\<close>

locale client_invariant =
  fixes h :: host and ct :: custom_types and same :: deep_equal
    and Inv :: "client \<Rightarrow> bool" and allowed :: "client_label \<Rightarrow> bool"
  assumes keeps: "Inv c \<Longrightarrow> allowed l \<Longrightarrow> client_enabled l c \<Longrightarrow> Inv (client_step h ct same l c)"
begin

lemma along_run: "client_run h ct same P c0 c \<Longrightarrow> (\<And>l. P l \<Longrightarrow> allowed l) \<Longrightarrow> Inv c0 \<Longrightarrow> Inv c"
  by (induction rule: client_run.induct) (auto intro: keeps)

end

text \<open>A run given by its labels.\<close>

fun runs :: "host \<Rightarrow> custom_types \<Rightarrow> deep_equal \<Rightarrow> (client_label \<Rightarrow> bool) \<Rightarrow> client_label list \<Rightarrow> client \<Rightarrow> bool" where
  "runs h ct same P [] c = True"
| "runs h ct same P (l # ls) c = (P l \<and> client_enabled l c \<and> runs h ct same P ls (client_step h ct same l c))"

lemma run_of_labels:
  "runs h ct same P ls c \<Longrightarrow> client_run h ct same P c0 c \<Longrightarrow> client_run h ct same P c0 (foldl (\<lambda>c l. client_step h ct same l c) c ls)"
  by (induction ls arbitrary: c) (auto intro: client_run.step)

definition sample_client :: client where
  "sample_client = snd (new_client plain_host (\<lambda>_. None) (\<lambda>_ _. False) ''c1'' JUndef (new_context_manager False None) None False 0)"

lemma sample_client_new:
  "new_client plain_host (\<lambda>_. None) (\<lambda>_ _. False) ''c1'' JUndef (new_context_manager False None) None False 0 = (None, sample_client)"
proof -
  have "fst (new_client plain_host (\<lambda>_. None) (\<lambda>_ _. False) ''c1'' JUndef (new_context_manager False None) None False 0) = None" by code_simp
  then show ?thesis by (simp add: sample_client_def prod_eq_iff)
qed

end
