(* ===== verification/ClientConn.thy ===== *)
theory ClientConn
  imports ClientLife
begin

text \<open>
  The connection of a client: its sockets, the reconnection timer and the recoveries. \<open>conn\<close> projects
  the state of a client on them; most operations leave the projection alone, and each of the others is
  an operation on it. The invariant says that at most one reconnection timer is armed, only while
  there is no live socket, and that every recovery but the current one has been aborted.

  Two theorems rest on it: a client that was closed stays closed, and a client that cannot reach its
  server gives up after a bounded number of sockets.
\<close>

section \<open>Projection\<close>

record connection =
  k_socket :: "nat option"
  k_stopped :: bool
  k_attempt :: nat
  k_timer :: "nat option"
  k_exhausted :: bool
  k_destroyed :: bool
  k_heartbeat :: bool
  k_recovery :: "nat option"
  k_idle :: "bool \<times> bool"
  k_sockets :: "ready_state list"
  k_armed :: "nat list"
  k_tasks :: "(bool \<times> recovery_wait) list"

definition conn :: "client \<Rightarrow> connection" where
  "conn c = \<lparr>k_socket = cs_socket c, k_stopped = cs_stopped c, k_attempt = cs_reconnectAttempt c, k_timer = cs_reconnectTimer c,
     k_exhausted = cs_exhaustedReconnect c, k_destroyed = vm_destroyed c, k_heartbeat = vm_heartbeat c, k_recovery = vm_recovery c,
     k_idle = (it_present c, it_listening c), k_sockets = map ws_state (br_sockets c), k_armed = br_reconnects c,
     k_tasks = map (\<lambda>r. (rc_aborted r, rc_wait r)) (vm_recoveries c)\<rparr>"

named_theorems conn_simps

lemma conn_fields [conn_simps]:
  "k_socket (conn c) = cs_socket c" "k_stopped (conn c) = cs_stopped c" "k_attempt (conn c) = cs_reconnectAttempt c"
  "k_timer (conn c) = cs_reconnectTimer c" "k_exhausted (conn c) = cs_exhaustedReconnect c" "k_destroyed (conn c) = vm_destroyed c"
  "k_heartbeat (conn c) = vm_heartbeat c" "k_recovery (conn c) = vm_recovery c" "k_idle (conn c) = (it_present c, it_listening c)"
  "k_sockets (conn c) = map ws_state (br_sockets c)" "k_armed (conn c) = br_reconnects c"
  "k_tasks (conn c) = map (\<lambda>r. (rc_aborted r, rc_wait r)) (vm_recoveries c)"
  by (simp_all add: conn_def)

section \<open>Operations that leave the connection alone\<close>

lemma conn_answers [simp]: "conn (recoveries_at P b c) = conn c"
  by (simp add: conn_def recoveries_at_def answer_recovery_def comp_def if_distrib cong: if_cong)

lemma conn_idle [simp]: "conn (idle_start c) = conn c" "conn (idle_stop c) = conn c" "conn ((idle_start ^^ n) c) = conn c"
proof -
  show s: "conn (idle_start c) = conn c" for c by (simp add: conn_def idle_start_def)
  show "conn (idle_stop c) = conn c" by (simp add: conn_def idle_stop_def split: option.splits)
  show "conn ((idle_start ^^ n) c) = conn c" by (induction n) (simp_all add: s)
qed

lemma conn_updates [simp]:
  "conn (c\<lparr>cl_emitted := x1\<rparr>) = conn c" "conn (c\<lparr>cl_calls := x2\<rparr>) = conn c" "conn (c\<lparr>cl_connects := x3\<rparr>) = conn c"
  "conn (c\<lparr>vm_initializedSocket := x4\<rparr>) = conn c" "conn (c\<lparr>it_resets := x5\<rparr>) = conn c" "conn (c\<lparr>cs_pending := x6\<rparr>) = conn c"
  "conn (c\<lparr>br_acks := x7\<rparr>) = conn c" "conn (c\<lparr>br_sent := x8\<rparr>) = conn c" "conn (c\<lparr>br_requests := x9\<rparr>) = conn c"
  "conn (c\<lparr>cl_channels := x10\<rparr>) = conn c" "conn (c\<lparr>cl_manager := x11\<rparr>) = conn c" "conn (c\<lparr>cl_initialized := x12\<rparr>) = conn c"
  "conn (c\<lparr>cl_initializing := x13\<rparr>) = conn c" "conn (c\<lparr>cl_authenticated := x14\<rparr>) = conn c" "conn (c\<lparr>cl_resubscribing := x15\<rparr>) = conn c"
  "conn (c\<lparr>cl_delivered := x16\<rparr>) = conn c" "conn (c\<lparr>vm_hook := x17\<rparr>) = conn c" "conn (c\<lparr>vm_hiddenAt := x18\<rparr>) = conn c"
  "conn (c\<lparr>vm_lastHeartbeat := x19\<rparr>) = conn c" "conn (c\<lparr>vm_missedHeartbeat := x20\<rparr>) = conn c" "conn (c\<lparr>br_idle := x21\<rparr>) = conn c"
  "conn (c\<lparr>br_closing := x22\<rparr>) = conn c" "conn (c\<lparr>cs_connecting := x23\<rparr>) = conn c"
  by (simp_all add: conn_def)

lemma conn_emit [simp]: "conn (client_emit e v c) = conn c"
  by (simp add: client_emit_def Let_def)

lemma conn_pending [simp]: "conn (rejectAllPending reason c) = conn c" "conn (clearAllPending c) = conn c"
  by (simp_all add: rejectAllPending_def clearAllPending_def conn_def)

lemma conn_update_call [simp]: "conn (update_call k f c) = conn c"
  by (simp add: update_call_def)

lemma conn_send: "socket_send h w p c = Inr c' \<Longrightarrow> conn c' = conn c"
  by (auto simp: socket_send_def rbind_eq_Inr split: if_splits)

lemma conn_ack [simp]: "conn (emitWithAck h uuid k c) = conn c"
  by (auto simp: emitWithAck_def Let_def dest: conn_send split: option.splits sum.splits)

lemma conn_call [simp]:
  "conn (executeCall h uuid k c) = conn c" "conn (client_call h uuid method params opts c) = conn c"
  "conn (resume_call h uuid k c) = conn c" "conn (http_reply k reply c) = conn c" "conn (ack_timeout uuid p c) = conn c"
proof -
  show e: "conn (executeCall h uuid k c) = conn c" for k c by (simp add: executeCall_def Let_def)
  show "conn (client_call h uuid method params opts c) = conn c" by (simp add: client_call_def Let_def e)
  show "conn (resume_call h uuid k c) = conn c" by (simp add: resume_call_def Let_def e split: option.splits sum.splits call_wait.splits)
  show "conn (http_reply k reply c) = conn c"
    by (simp add: http_reply_def Let_def split: http_reply.splits sum.splits)
  show "conn (ack_timeout uuid p c) = conn c" by (simp add: ack_timeout_def conn_def)
qed

lemma conn_channel [simp]:
  "conn (subscribe_events name es c) = conn c" "conn (unsubscribe_events name es c) = conn c" "conn (resubscribe name c) = conn c"
  "conn (commitPendingSubscriptions h uuid name c) = conn c" "conn (commitPendingUnsubscriptions h uuid name c) = conn c"
  "conn (snd (client_channel_named v c)) = conn c"
  by (simp_all add: subscribe_events_def unsubscribe_events_def resubscribe_def commitPendingSubscriptions_def
      commitPendingUnsubscriptions_def client_channel_named_def update_channel_def Let_def split: jsval.splits)

lemma conn_manager [simp]: "conn (with_manager r c) = conn c"
  by (simp add: with_manager_def Let_def)

lemma conn_initialize [simp]: "conn (initialize h ct same c) = conn c" "conn (resubscribe_next j c) = conn c" "conn (client_logged_out c) = conn c"
  by (simp_all add: initialize_def resubscribe_next_def client_logged_out_def Let_def split: option.splits)

lemma conn_message [simp]: "conn (handleMessage_client h ct same decoded c) = conn c"
proof -
  have r: "conn (handleRpcResponse h msg c) = conn c" for msg
    by (simp add: handleRpcResponse_def conn_def split: jsval.splits option.splits)
  have n: "conn c2 = conn c1" if "client_channel_named v c1 = (x, c2)" for v x c1 c2
    using conn_channel(6) [of v c1] that by simp
  have e: "conn (handleEvent_client msg c) = conn c" for msg
    by (auto simp: handleEvent_client_def Let_def dest: n split: jsval.splits option.splits prod.splits)
  show ?thesis
    by (auto simp: handleMessage_client_def handleTypedAuth_def r e dest: conn_send split: sum.splits option.splits)
qed


section \<open>Operations on the connection\<close>

definition k_clear :: "connection \<Rightarrow> connection" where
  "k_clear k = (case k_timer k of None \<Rightarrow> k | Some t \<Rightarrow> k\<lparr>k_armed := js_remove t (k_armed k), k_timer := None\<rparr>)"

definition k_open :: "connection \<Rightarrow> connection" where
  "k_open k = k\<lparr>k_socket := Some (length (k_sockets k)), k_sockets := k_sockets k @ [Connecting]\<rparr>"

definition k_shut :: "nat \<Rightarrow> connection \<Rightarrow> connection" where
  "k_shut w k = (if k_sockets k ! w \<in> {Connecting, Open} then k\<lparr>k_sockets := (k_sockets k)[w := Closing]\<rparr> else k)"

definition k_task :: "nat \<Rightarrow> (bool \<times> recovery_wait \<Rightarrow> bool \<times> recovery_wait) \<Rightarrow> connection \<Rightarrow> connection" where
  "k_task r f k = k\<lparr>k_tasks := (k_tasks k)[r := f (k_tasks k ! r)]\<rparr>"

definition k_abort :: "connection \<Rightarrow> connection" where
  "k_abort k = (case k_recovery k of None \<Rightarrow> k | Some r \<Rightarrow> k_task r (\<lambda>(_, w). (True, w)) k)"

definition conn_inv :: "connection \<Rightarrow> bool" where
  "conn_inv k \<longleftrightarrow>
     k_armed k = (case k_timer k of None \<Rightarrow> [] | Some t \<Rightarrow> [t]) \<and>
     (\<forall>w. k_socket k = Some w \<longrightarrow> w < length (k_sockets k) \<and> (k_timer k \<noteq> None \<longrightarrow> k_sockets k ! w = Closed)) \<and>
     (\<forall>r. k_recovery k = Some r \<longrightarrow> r < length (k_tasks k)) \<and>
     (\<forall>r < length (k_tasks k). fst (k_tasks k ! r) \<or> k_recovery k = Some r) \<and>
     (snd (k_idle k) \<longrightarrow> fst (k_idle k))"

abbreviation client_inv :: "client \<Rightarrow> bool" where
  "client_inv c \<equiv> conn_inv (conn c)"

lemma conn_clear: "conn (clearReconnectTimer c) = k_clear (conn c)"
  by (simp add: clearReconnectTimer_def k_clear_def conn_def split: option.splits)

lemma ready_clear [simp]: "ready (clearReconnectTimer c) = ready c"
  by (simp add: ready_def clearReconnectTimer_def split: option.splits)

lemma conn_create: "conn (createSocket h c) = k_open (conn c)"
  by (simp add: createSocket_def k_open_def conn_def Let_def)

lemma conn_connect:
  "conn (connect h c) = (if ready c then k_clear (conn c) else k_open ((k_clear (conn c))\<lparr>k_stopped := False, k_attempt := 0\<rparr>))"
proof -
  have "conn (c1\<lparr>cs_stopped := False, cs_connecting := True, cs_reconnectAttempt := 0\<rparr>) = (conn c1)\<lparr>k_stopped := False, k_attempt := 0\<rparr>" for c1
    by (simp add: conn_def)
  then show ?thesis by (simp add: connect_def Let_def conn_create conn_clear)
qed

lemma conn_shut: "w < length (br_sockets c) \<Longrightarrow> conn (socket_close w c) = k_shut w (conn c)"
  by (simp add: socket_close_def k_shut_def update_socket_def conn_def map_update)

definition k_retire :: "connection \<Rightarrow> connection" where
  "k_retire k =
    (let k1 = (k_clear k)\<lparr>k_stopped := True\<rparr> in
     case k_socket k of None \<Rightarrow> k1 | Some w \<Rightarrow> (k_shut w k1)\<lparr>k_socket := None\<rparr>)"

lemma conn_retire:
  assumes "client_inv c"
  shows "conn (retireConnection c) = k_retire (conn c)"
proof -
  let ?c = "rejectAllPending ''Connection lost'' (clearReconnectTimer (c\<lparr>cs_stopped := True, cs_connecting := False\<rparr>))"
  have k: "conn ?c = (k_clear (conn c))\<lparr>k_stopped := True\<rparr>"
    by (simp add: conn_clear) (simp add: conn_def k_clear_def split: option.splits)
  have s: "cs_socket ?c = cs_socket c" "br_sockets ?c = br_sockets c"
    by (simp_all add: rejectAllPending_def clearReconnectTimer_def split: option.splits)
  show ?thesis
  proof (cases "cs_socket c")
    case None
    then show ?thesis using k s by (simp add: retireConnection_def k_retire_def Let_def conn_simps)
  next
    case (Some w)
    then have w: "w < length (br_sockets c)" using assms by (simp add: conn_inv_def conn_simps)
    let ?d = "(update_socket w (\<lambda>s. s\<lparr>ws_attached := False\<rparr>) ?c)\<lparr>cs_socket := None\<rparr>"
    have d: "conn ?d = (conn ?c)\<lparr>k_socket := None\<rparr>" using w s
      by (simp add: conn_def update_socket_def map_update list_update_same_conv)
    have l: "w < length (br_sockets ?d)" using w s by (simp add: update_socket_def)
    have "conn (retireConnection c) = conn (socket_close w ?d)" using Some s by (simp add: retireConnection_def Let_def)
    also have "\<dots> = k_shut w ((k_clear (conn c))\<lparr>k_stopped := True, k_socket := None\<rparr>)" unfolding conn_shut [OF l] d k ..
    finally show ?thesis using Some by (simp add: k_shut_def k_retire_def Let_def conn_fields(1))
  qed
qed

lemma conn_close:
  assumes "client_inv c"
  shows "conn (close_socket c) =
    (let k = (k_clear (conn c))\<lparr>k_stopped := True\<rparr> in
     case k_socket (conn c) of None \<Rightarrow> k
     | Some w \<Rightarrow> if k_sockets (conn c) ! w = Closed then k\<lparr>k_socket := None\<rparr> else k_shut w k)"
proof -
  let ?c = "clearAllPending (clearReconnectTimer (c\<lparr>cs_stopped := True, cs_connecting := False\<rparr>))"
  have k: "conn ?c = (k_clear (conn c))\<lparr>k_stopped := True\<rparr>"
    by (simp add: conn_clear) (simp add: conn_def k_clear_def split: option.splits)
  have s: "cs_socket ?c = cs_socket c" "br_sockets ?c = br_sockets c"
    by (simp_all add: clearAllPending_def clearReconnectTimer_def split: option.splits)
  show ?thesis
  proof (cases "cs_socket c")
    case None
    then have "conn (close_socket c) = conn ?c" using s by (simp add: close_socket_def Let_def)
    then show ?thesis unfolding k using None by (simp add: conn_fields(1))
  next
    case (Some w)
    then have w: "w < length (br_sockets c)" using assms by (simp add: conn_inv_def conn_simps)
    have st: "ws_state (socket_at ?c w) = k_sockets (conn c) ! w" using w s by (simp add: conn_fields(10))
    show ?thesis
    proof (cases "ws_state (socket_at ?c w) = Closed")
      case True
      then have "conn (close_socket c) = conn (?c\<lparr>cs_socket := None\<rparr>)" using Some s by (simp add: close_socket_def Let_def)
      also have "\<dots> = (conn ?c)\<lparr>k_socket := None\<rparr>" by (simp add: conn_def)
      finally show ?thesis unfolding k using Some True st by (simp add: conn_fields(1))
    next
      case False
      let ?d = "?c\<lparr>br_closing := br_closing ?c @ [w]\<rparr>"
      have l: "w < length (br_sockets ?d)" using w s by simp
      have "conn (close_socket c) = conn (socket_close w ?d)" using Some s False by (simp add: close_socket_def Let_def)
      also have "\<dots> = k_shut w ((k_clear (conn c))\<lparr>k_stopped := True\<rparr>)" unfolding conn_shut [OF l] conn_updates k ..
      finally show ?thesis using Some False st by (simp add: conn_fields(1))
    qed
  qed
qed

lemma conn_update_recovery:
  assumes "r < length (vm_recoveries c)" and "\<And>t. (rc_aborted (f t), rc_wait (f t)) = g (rc_aborted t, rc_wait t)"
  shows "conn (update_recovery r f c) = k_task r g (conn c)"
  using assms by (simp add: update_recovery_def k_task_def conn_def map_update)

lemma conn_wait: "r < length (vm_recoveries c) \<Longrightarrow> conn (update_recovery r (wait_recovery w) c) = k_task r (\<lambda>(a, _). (a, w)) (conn c)"
  by (rule conn_update_recovery) (simp_all add: wait_recovery_def)

lemma conn_abort: "client_inv c \<Longrightarrow> conn (abort_current c) = k_abort (conn c)"
  by (auto simp: abort_current_def k_abort_def conn_fields(8) conn_inv_def abort_recovery_def answer_recovery_def conn_fields(12)
      intro!: conn_update_recovery split: option.splits)

lemma conn_same_task:
  assumes "\<And>t. rc_aborted (f t) = rc_aborted t \<and> rc_wait (f t) = rc_wait t"
  shows "conn (update_recovery r f c) = conn c"
proof (cases "r < length (vm_recoveries c)")
  case True
  have "conn (update_recovery r f c) = k_task r (\<lambda>x. x) (conn c)" by (rule conn_update_recovery [OF True]) (simp add: assms)
  then show ?thesis by (simp add: k_task_def)
qed (simp add: update_recovery_def list_update_beyond)

definition k_finish :: "nat \<Rightarrow> connection \<Rightarrow> connection" where
  "k_finish r k =
    (let k1 = k_task r (\<lambda>_. (True, Recovered)) k in if k_recovery k = Some r then k1\<lparr>k_recovery := None\<rparr> else k1)"

lemma conn_finish: "r < length (vm_recoveries c) \<Longrightarrow> conn (finish_recovery r c) = k_finish r (conn c)"
  by (simp add: finish_recovery_def update_recovery_def k_finish_def k_task_def conn_def map_update Let_def)

definition k_replace :: "nat \<Rightarrow> connection \<Rightarrow> connection" where
  "k_replace r k =
     (let k1 = k_retire (k_task r (\<lambda>(a, _). (a, InitWait)) k) in
      if fst (k_tasks k1 ! r) then k1 else k_open (k1\<lparr>k_stopped := False, k_attempt := 0\<rparr>))"

lemma k_retire_fields [simp]:
  "k_tasks (k_retire k) = k_tasks k" "k_socket (k_retire k) = None" "k_timer (k_retire k) = None" "k_recovery (k_retire k) = k_recovery k"
  "k_idle (k_retire k) = k_idle k" "length (k_sockets (k_retire k)) = length (k_sockets k)" "k_exhausted (k_retire k) = k_exhausted k"
  "k_destroyed (k_retire k) = k_destroyed k" "k_heartbeat (k_retire k) = k_heartbeat k"
  by (simp_all add: k_retire_def k_shut_def k_clear_def Let_def split: option.splits)

lemma inv_task:
  assumes "conn_inv k" and f: "\<And>x. fst x \<Longrightarrow> fst (f x)"
  shows "conn_inv (k_task r f k)"
proof -
  have "fst ((k_tasks k)[r := f (k_tasks k ! r)] ! q) \<or> k_recovery k = Some q" if "q < length (k_tasks k)" for q
    using assms(1) that f [of "k_tasks k ! r"] by (cases "q = r") (auto simp: conn_inv_def)
  then show ?thesis using assms(1) by (simp add: conn_inv_def k_task_def)
qed

lemma conn_replace:
  assumes "client_inv c" and "r < length (vm_recoveries c)"
  shows "conn (replaceConnection h now r c) = k_replace r (conn c)"
proof -
  let ?c = "(update_recovery r (wait_recovery InitWait) c)\<lparr>cl_initialized := False, cl_initializing := False\<rparr>"
  have w: "conn ?c = k_task r (\<lambda>(a, _). (a, InitWait)) (conn c)" using conn_wait [OF assms(2)] by simp
  then have i: "client_inv ?c" using inv_task [OF assms(1)] by (simp add: split_beta)
  define d where "d = retireConnection ?c"
  have d: "conn d = k_retire (k_task r (\<lambda>(a, _). (a, InitWait)) (conn c))" unfolding d_def conn_retire [OF i] w ..
  have t: "rc_aborted (vm_recoveries d ! r) = fst (k_tasks (conn d) ! r)"
  proof -
    have "length (k_tasks (conn d)) = length (k_tasks (conn c))" unfolding d by (simp add: k_task_def)
    then have "r < length (vm_recoveries d)" using assms(2) by (simp add: conn_simps)
    then show ?thesis by (simp add: conn_simps)
  qed
  have "k_socket (conn d) = None" "k_timer (conn d) = None" unfolding d by simp_all
  then have n: "\<not> ready d" "k_clear (conn d) = conn d" by (simp_all add: ready_def k_clear_def conn_simps)
  have "conn (replaceConnection h now r c) =
      (if rc_aborted (vm_recoveries d ! r) then conn d else conn (connect h d))"
    by (simp add: replaceConnection_def Let_def d_def)
  also have "\<dots> = k_replace r (conn c)" unfolding t conn_connect if_not_P [OF n(1)] n(2) unfolding d k_replace_def Let_def ..
  finally show ?thesis .
qed

definition k_start :: "connection \<Rightarrow> connection" where
  "k_start k = k\<lparr>k_recovery := Some (length (k_tasks k)), k_tasks := k_tasks k @ [(False, InitWait)]\<rparr>"

lemma conn_start:
  "start_recovery c = (length (vm_recoveries c), snd (start_recovery c))"
  "conn (snd (start_recovery c)) = k_start (conn c)"
  "length (vm_recoveries (snd (start_recovery c))) = Suc (length (vm_recoveries c))"
  by (simp_all add: start_recovery_def k_start_def conn_def Let_def)


section \<open>Invariant of the connection\<close>

lemma inv_clear: "conn_inv k \<Longrightarrow> conn_inv (k_clear k) \<and> k_timer (k_clear k) = None \<and> k_armed (k_clear k) = []"
  by (auto simp: conn_inv_def k_clear_def js_remove_def split: option.splits)

lemma inv_open: "conn_inv k \<Longrightarrow> k_timer k = None \<Longrightarrow> conn_inv (k_open k)"
  by (auto simp: conn_inv_def k_open_def)

lemma closed_update: "v < length xs \<Longrightarrow> xs ! v = Closed \<Longrightarrow> xs ! w \<noteq> Closed \<or> s = Closed \<Longrightarrow> xs[w := s] ! v = Closed"
  by (cases "w = v") auto

lemma inv_sockets:
  "conn_inv k \<Longrightarrow> k_sockets k ! w \<noteq> Closed \<or> s = Closed \<Longrightarrow> conn_inv (k\<lparr>k_sockets := (k_sockets k)[w := s]\<rparr>)"
  by (auto simp: conn_inv_def intro: closed_update)

lemma inv_shut: "conn_inv k \<Longrightarrow> conn_inv (k_shut w k)"
  using inv_sockets [of k w Closing] by (auto simp: k_shut_def)

lemma inv_fields:
  "conn_inv k \<Longrightarrow> conn_inv (k\<lparr>k_stopped := b\<rparr>)" "conn_inv k \<Longrightarrow> conn_inv (k\<lparr>k_attempt := n\<rparr>)"
  "conn_inv k \<Longrightarrow> conn_inv (k\<lparr>k_exhausted := b\<rparr>)" "conn_inv k \<Longrightarrow> conn_inv (k\<lparr>k_socket := None\<rparr>)"
  by (simp_all add: conn_inv_def)

lemma inv_retire: "conn_inv k \<Longrightarrow> conn_inv (k_retire k)"
  using inv_clear [of k] by (auto simp: k_retire_def Let_def inv_fields inv_shut split: option.splits)

lemma inv_replace: "conn_inv k \<Longrightarrow> conn_inv (k_replace r k)"
proof -
  assume "conn_inv k"
  then have "conn_inv (k_retire (k_task r (\<lambda>(a, _). (a, InitWait)) k))" by (intro inv_retire inv_task) auto
  then show ?thesis by (auto simp: k_replace_def Let_def intro!: inv_open inv_fields)
qed

lemma inv_abort: "conn_inv k \<Longrightarrow> conn_inv (k_abort k) \<and> (\<forall>t \<in> set (k_tasks (k_abort k)). fst t) \<and> k_recovery (k_abort k) = k_recovery k"
proof (cases "k_recovery k")
  case None
  then show "conn_inv k \<Longrightarrow> ?thesis" by (auto simp: k_abort_def conn_inv_def all_set_conv_all_nth)
next
  case (Some r)
  assume i: "conn_inv k"
  have "fst (k_tasks (k_abort k) ! q)" if "q < length (k_tasks (k_abort k))" for q
    using that i Some by (auto simp: k_abort_def k_task_def conn_inv_def nth_list_update split_beta)
  then show ?thesis using i Some by (auto simp: k_abort_def intro!: inv_task simp: all_set_conv_all_nth) (auto simp: k_task_def)
qed

lemma inv_start: "conn_inv k \<Longrightarrow> \<forall>t \<in> set (k_tasks k). fst t \<Longrightarrow> conn_inv (k_start k)"
  by (auto simp: conn_inv_def k_start_def nth_append less_Suc_eq)

lemma inv_finish: "conn_inv k \<Longrightarrow> r < length (k_tasks k) \<Longrightarrow> conn_inv (k_finish r k)"
  by (auto simp: k_finish_def k_task_def conn_inv_def nth_list_update Let_def)

lemma conn_reconnect:
  assumes "client_inv c"
  shows "conn (reconnect h now c) = k_replace (length (k_tasks (conn c))) (k_start (k_abort (conn c)))"
    and "client_inv (reconnect h now c)"
proof -
  let ?a = "abort_current c"
  have a: "conn ?a = k_abort (conn c)" by (rule conn_abort [OF assms])
  have s: "conn (snd (start_recovery ?a)) = k_start (k_abort (conn c))" by (simp add: conn_start(2) a)
  have i: "conn_inv (k_start (k_abort (conn c)))" using inv_abort [OF assms] by (simp add: inv_start)
  have l: "length (vm_recoveries ?a) = length (k_tasks (conn c))"
    by (simp add: abort_current_def update_recovery_def conn_simps split: option.splits)
  have "reconnect h now c = replaceConnection h now (length (vm_recoveries ?a)) (snd (start_recovery ?a))"
    by (simp add: reconnect_def start_recovery_def Let_def)
  then show "conn (reconnect h now c) = k_replace (length (k_tasks (conn c))) (k_start (k_abort (conn c)))"
    using conn_replace [of "snd (start_recovery ?a)" "length (vm_recoveries ?a)" h now] s i l by (simp add: conn_start(3))
  then show "client_inv (reconnect h now c)" using inv_replace [OF i] by simp
qed


abbreviation k_wait :: "nat \<Rightarrow> recovery_wait \<Rightarrow> connection \<Rightarrow> connection" where
  "k_wait r w \<equiv> k_task r (\<lambda>(a, _). (a, w))"

definition k_outcomes :: "nat \<Rightarrow> connection \<Rightarrow> connection set" where
  "k_outcomes r k = {k_finish r k} \<union> range (\<lambda>w. k_wait r w k) \<union> (if fst (k_tasks k ! r) then {} else {k_replace r k})"

lemma conn_after:
  assumes "client_inv c" and "r < length (vm_recoveries c)"
  shows "conn (after_hook h now b r c) \<in> k_outcomes r (conn c)" and "conn (after_traffic h now b r c) \<in> k_outcomes r (conn c)"
proof -
  let ?t = "vm_recoveries c ! r"
  have fin: "conn (finish_recovery r c) \<in> k_outcomes r (conn c)" by (simp add: k_outcomes_def conn_finish [OF assms(2)])
  have w: "conn (update_recovery r (wait_recovery w) c) \<in> k_outcomes r (conn c)" for w
    by (simp add: k_outcomes_def conn_wait [OF assms(2)])
  have rep: "conn (replaceConnection h now r c) \<in> k_outcomes r (conn c)" if "\<not> rc_aborted ?t"
    using that assms(2) by (simp add: k_outcomes_def conn_replace [OF assms] conn_fields(12))
  have wf: "conn (wait_or_finish r c) \<in> k_outcomes r (conn c)" using fin w by (simp add: wait_or_finish_def)
  have jr: "conn (join_or_replace h now r c) \<in> k_outcomes r (conn c)" if "\<not> rc_aborted ?t"
    using rep [OF that] w by (simp add: join_or_replace_def)
  show "conn (after_hook h now b r c) \<in> k_outcomes r (conn c)"
    using fin w rep wf jr by (simp add: after_hook_def Let_def)
  show "conn (after_traffic h now b r c) \<in> k_outcomes r (conn c)"
    using fin w rep wf jr by (simp add: after_traffic_def Let_def)
qed

lemma conn_resume:
  assumes "client_inv c" and "r < length (vm_recoveries c)"
  shows "conn (resume_recovery h now r c) \<in> insert (conn c) (k_outcomes r (conn c))"
proof -
  have "k_finish r (conn c) \<in> k_outcomes r (conn c)" "k_wait r w (conn c) \<in> k_outcomes r (conn c)" for w
    by (simp_all add: k_outcomes_def)
  then show ?thesis using conn_after [OF assms]
    by (simp add: resume_recovery_def Let_def conn_wait [OF assms(2)] conn_finish [OF assms(2)] split: option.splits recovery_wait.splits)
qed

lemma conn_resume_init:
  assumes "r < length (vm_recoveries c)" and "snd (k_tasks (conn c) ! r) \<in> {InitWait, Recovered}"
  shows "conn (resume_recovery h now r c) \<in> {conn c, k_finish r (conn c)}"
  using assms conn_finish [OF assms(1)] by (auto simp: resume_recovery_def conn_fields(12) Let_def split: option.splits)

lemma inv_outcomes: "conn_inv k \<Longrightarrow> r < length (k_tasks k) \<Longrightarrow> k' \<in> k_outcomes r k \<Longrightarrow> conn_inv k'"
  by (auto simp: k_outcomes_def inv_finish inv_replace intro!: inv_task split: if_splits)

lemma conn_sleep:
  assumes "client_inv c"
  shows "conn (handleSleepDetected h now c) = conn c \<or>
    \<not> vm_destroyed c \<and> k_recovery (conn c) = None \<and>
      conn (handleSleepDetected h now c) \<in> k_outcomes (length (k_tasks (conn c))) (k_start (conn c))"
    and "client_inv (handleSleepDetected h now c)"
proof -
  let ?r = "length (vm_recoveries c)" and ?d = "(snd (start_recovery c))\<lparr>vm_missedHeartbeat := False\<rparr>"
  have l: "?r = length (k_tasks (conn c))" "?r < length (vm_recoveries ?d)" by (simp_all add: conn_simps conn_start(3))
  have k: "conn ?d = k_start (conn c)" by (simp add: conn_start(2))
  have e: "handleSleepDetected h now c = (if vm_destroyed c \<or> vm_recovery c \<noteq> None then c
      else if vm_hook ?d then update_recovery ?r (wait_recovery (HookWait 0)) ?d else after_hook h now True ?r ?d)"
    by (simp add: handleSleepDetected_def start_recovery_def Let_def)
  have none: "conn_inv (k_start (conn c))" if "vm_recovery c = None"
  proof (rule inv_start [OF assms])
    show "\<forall>t \<in> set (k_tasks (conn c)). fst t"
      using assms that unfolding conn_inv_def by (metis conn_fields(8) in_set_conv_nth option.distinct(1))
  qed
  have o: "conn (handleSleepDetected h now c) \<in> k_outcomes ?r (k_start (conn c))"
    if n: "\<not> (vm_destroyed c \<or> vm_recovery c \<noteq> None)"
  proof -
    have i: "client_inv ?d" using none n k by simp
    have "conn (update_recovery ?r (wait_recovery (HookWait 0)) ?d) \<in> k_outcomes ?r (k_start (conn c))"
      unfolding conn_wait [OF l(2)] k by (simp add: k_outcomes_def)
    moreover have "conn (after_hook h now True ?r ?d) \<in> k_outcomes ?r (k_start (conn c))"
      using conn_after(1) [OF i l(2)] unfolding k .
    ultimately show ?thesis unfolding e if_not_P [OF n] by simp
  qed
  show "conn (handleSleepDetected h now c) = conn c \<or> \<not> vm_destroyed c \<and> k_recovery (conn c) = None \<and>
      conn (handleSleepDetected h now c) \<in> k_outcomes (length (k_tasks (conn c))) (k_start (conn c))"
    using o e l(1) by (auto simp: conn_fields(8))
  then show "client_inv (handleSleepDetected h now c)"
    using assms none inv_outcomes [of "k_start (conn c)" ?r] l(1) by (auto simp: conn_fields(8) k_start_def)
qed


lemma inv_close: "client_inv c \<Longrightarrow> client_inv (close_socket c)"
  using inv_clear [of "conn c"] by (auto simp: conn_close Let_def inv_fields inv_shut split: option.splits)

definition k_destroy :: "connection \<Rightarrow> connection" where
  "k_destroy k = (k_abort k)\<lparr>k_destroyed := True, k_recovery := None, k_heartbeat := False, k_idle := (fst (k_idle k), False)\<rparr>"

lemma inv_destroy: "conn_inv k \<Longrightarrow> conn_inv (k_destroy k)"
  using inv_abort [of k] by (auto simp: k_destroy_def conn_inv_def all_set_conv_all_nth)

lemma close_prepared:
  assumes "client_inv c"
  obtains d where "client_close c = close_socket d" and "conn d = k_destroy (conn c)" and "br_sent d = br_sent c"
proof -
  let ?e = "client_emit ''client:close'' JUndef c"
  let ?i = "if it_present ?e then idle_destroy ?e else ?e"
  have "it_listening c \<longrightarrow> it_present c" using assms by (simp add: conn_inv_def conn_simps)
  then have i: "conn ?i = (conn c)\<lparr>k_idle := (fst (k_idle (conn c)), False)\<rparr>"
    using conn_emit [of "''client:close''" JUndef c] conn_idle(2) [of ?e] by (auto simp: idle_destroy_def conn_def)
  moreover have "conn_inv ((conn c)\<lparr>k_idle := (fst (k_idle (conn c)), False)\<rparr>)" using assms by (simp add: conn_inv_def)
  ultimately have a: "conn (abort_current ?i) = k_abort ((conn c)\<lparr>k_idle := (fst (k_idle (conn c)), False)\<rparr>)"
    using conn_abort [of ?i] by simp
  have "conn (vm_destroy ?i) = (conn (abort_current ?i))\<lparr>k_destroyed := True, k_recovery := None, k_heartbeat := False\<rparr>"
    by (simp add: vm_destroy_def conn_def)
  then have "conn (vm_destroy ?i) = k_destroy (conn c)"
    unfolding a by (simp add: k_destroy_def k_abort_def k_task_def split: option.splits)
  moreover have "br_sent (vm_destroy ?i) = br_sent c"
    by (simp add: vm_destroy_def abort_current_def update_recovery_def idle_destroy_def idle_stop_def client_emit_def Let_def split: option.splits)
  ultimately show ?thesis using that [of "vm_destroy ?i"] by (simp add: client_close_def Let_def)
qed

lemma inv_client_close: "client_inv c \<Longrightarrow> client_inv (client_close c)"
  using close_prepared [of c] inv_close inv_destroy [of "conn c"] by metis

definition k_schedule :: "connection \<Rightarrow> connection set" where
  "k_schedule k =
     (let k1 = k\<lparr>k_attempt := Suc (k_attempt k)\<rparr> in
      if k_stopped k then {k}
      else if k_attempt k1 > MAX_RECONNECT_ATTEMPTS
      then (if k_exhausted k then {k1}
            else {k_replace (length (k_tasks k)) (k_start (k_abort (k1\<lparr>k_exhausted := True\<rparr>)))})
      else {k1\<lparr>k_timer := Some t, k_armed := k_armed k @ [t]\<rparr> |t. True})"

lemma conn_schedule:
  assumes "client_inv c" and "k_timer (conn c) = None" and "\<forall>w. k_socket (conn c) = Some w \<longrightarrow> k_sockets (conn c) ! w = Closed"
  shows "conn (scheduleReconnect h now c) \<in> k_schedule (conn c)" and "client_inv (scheduleReconnect h now c)"
proof -
  let ?k1 = "(conn c)\<lparr>k_attempt := Suc (k_attempt (conn c))\<rparr>"
  let ?c1 = "c\<lparr>cs_reconnectAttempt := Suc (cs_reconnectAttempt c)\<rparr>" and ?c2 = "c\<lparr>cs_reconnectAttempt := Suc (cs_reconnectAttempt c), cs_exhaustedReconnect := True\<rparr>"
  have c1: "conn ?c1 = ?k1" and c2: "conn ?c2 = ?k1\<lparr>k_exhausted := True\<rparr>" by (simp_all add: conn_def)
  have i: "client_inv ?c2" "client_inv ?c1" unfolding c1 c2 using assms(1) by (simp_all add: inv_fields)
  have f: "k_attempt (conn c) = cs_reconnectAttempt c" "k_stopped (conn c) = cs_stopped c" "k_exhausted (conn c) = cs_exhaustedReconnect c"
    "k_armed (conn c) = br_reconnects c" by (simp_all add: conn_simps)
  define e where "e = c\<lparr>cs_reconnectAttempt := Suc (cs_reconnectAttempt c), cs_connecting := True, cs_reconnectTimer := Some (br_timers c),
      br_reconnects := br_reconnects c @ [br_timers c], br_timers := Suc (br_timers c)\<rparr>"
  have e: "conn e = ?k1\<lparr>k_timer := Some (br_timers c), k_armed := k_armed (conn c) @ [br_timers c]\<rparr>" by (simp add: e_def conn_def)
  have s: "scheduleReconnect h now c = (if cs_stopped c then c
      else if Suc (cs_reconnectAttempt c) > MAX_RECONNECT_ATTEMPTS
      then (if cs_exhaustedReconnect c then ?c1 else reconnect h now ?c2) else e)"
    by (simp add: scheduleReconnect_def e_def Let_def)
  have "client_inv e" using assms unfolding e by (auto simp: conn_inv_def)
  then show "client_inv (scheduleReconnect h now c)" unfolding s using assms(1) i conn_reconnect(2) [OF i(1)] by simp
  show "conn (scheduleReconnect h now c) \<in> k_schedule (conn c)"
    unfolding s using conn_reconnect(1) [OF i(1), of h now] e c1 c2 by (auto simp: k_schedule_def f Let_def)
qed

lemma conn_socket_state:
  "w < length (br_sockets c) \<Longrightarrow> conn (update_socket w (\<lambda>s. s\<lparr>ws_state := st\<rparr>) c) = (conn c)\<lparr>k_sockets := (k_sockets (conn c))[w := st]\<rparr>"
  by (simp add: conn_def update_socket_def map_update)

lemma inv_closed_event:
  assumes "client_inv c" and "client_enabled (ClosedEvent w now) c"
  shows "client_inv (client_step h ct same (ClosedEvent w now) c)"
proof -
  define d where "d = update_socket w (\<lambda>s. s\<lparr>ws_state := Closed\<rparr>) c"
  have w: "w < length (br_sockets c)" "ws_state (socket_at c w) \<noteq> Closed" using assms(2) by simp_all
  have i: "client_inv d" using inv_sockets [OF assms(1)] w by (simp add: d_def conn_socket_state)
  have "client_inv (handleClose_socket h now d)" if s: "cs_socket d = Some w"
  proof -
    let ?e = "client_emit ''websocket:closed'' JUndef (rejectAllPending ''Connection lost'' (d\<lparr>cl_initialized := False, cl_initializing := False\<rparr>))"
    have k: "conn ?e = conn d" by simp
    have "k_timer (conn d) = None" "k_socket (conn d) = Some w" "k_sockets (conn d) ! w = Closed"
      using s w assms(1) by (auto simp: d_def update_socket_def conn_inv_def conn_simps)
    then have "client_inv (scheduleReconnect h now ?e)" using conn_schedule(2) [of ?e h now] i unfolding k by simp
    moreover have "conn (?e\<lparr>cs_socket := None\<rparr>) = (conn ?e)\<lparr>k_socket := None\<rparr>" by (simp add: conn_def)
    then have "client_inv (?e\<lparr>cs_socket := None\<rparr>)" using i by (simp add: inv_fields)
    ultimately show ?thesis by (simp add: handleClose_socket_def Let_def)
  qed
  then show ?thesis using i by (simp add: on_active_def d_def [symmetric])
qed


lemma inv_connect: "client_inv c \<Longrightarrow> client_inv (connect h c)"
  using inv_clear [of "conn c"] by (auto simp: conn_connect intro!: inv_open inv_fields)

lemma inv_retired: "client_inv c \<Longrightarrow> client_inv (retireConnection c)"
  by (simp add: conn_retire inv_retire)

lemma inv_timer:
  assumes "client_inv c" and "t \<in> set (br_reconnects c)"
  shows "conn (reconnect_timer h t c) = k_open ((k_clear (conn c))\<lparr>k_socket := None\<rparr>)" and "client_inv (reconnect_timer h t c)"
proof -
  have "k_armed (conn c) = [t]" "k_timer (conn c) = Some t"
    using assms by (auto simp: conn_inv_def conn_fields split: option.splits)
  then show e: "conn (reconnect_timer h t c) = k_open ((k_clear (conn c))\<lparr>k_socket := None\<rparr>)"
    by (simp add: reconnect_timer_def conn_create k_clear_def) (simp add: conn_def)
  show "client_inv (reconnect_timer h t c)"
    unfolding e using inv_clear [OF assms(1)] by (simp add: inv_open inv_fields)
qed

lemma conn_drop: "conn (c\<lparr>cs_socket := None\<rparr>) = (conn c)\<lparr>k_socket := None\<rparr>"
  by (simp add: conn_def)

lemma conn_closed_socket: "conn (socket_closed w c) = (if cs_socket c = Some w then (conn c)\<lparr>k_socket := None\<rparr> else conn c)"
  by (simp add: socket_closed_def Let_def conn_drop)

lemma inv_context: "client_inv c \<Longrightarrow> client_inv (setContextAndReInit h same ctx c)"
  by (simp add: setContextAndReInit_def Let_def inv_connect inv_retired split: option.splits)

lemma inv_heartbeat: "client_inv c \<Longrightarrow> client_inv (heartbeat_tick h now hidden c)"
  using conn_sleep(2) [of "c\<lparr>vm_lastHeartbeat := now\<rparr>" h now] by (simp add: heartbeat_tick_def Let_def)

lemma inv_visible: "client_inv c \<Longrightarrow> client_inv (handlePageVisible h now c)"
  using conn_sleep(2) [of "c\<lparr>vm_hiddenAt := None\<rparr>" h now] by (simp add: handlePageVisible_def Let_def)

lemma inv_resume: "client_inv c \<Longrightarrow> r < length (vm_recoveries c) \<Longrightarrow> client_inv (resume_recovery h now r c)"
  using conn_resume [of c r h now] inv_outcomes [of "conn c" r] by (auto simp: conn_fields(12))

lemma conn_opened: "conn (on_active w handleOpen c) \<in> {conn c, (conn c)\<lparr>k_attempt := 0, k_exhausted := False\<rparr>}"
proof -
  have "conn (handleOpen c) = (conn (client_emit ''websocket:connected'' JUndef c))\<lparr>k_attempt := 0, k_exhausted := False\<rparr>"
    unfolding handleOpen_def conn_def by simp
  then show ?thesis by (simp add: on_active_def)
qed

lemma inv_opened:
  assumes "client_inv c" and "client_enabled (Opened w) c"
  shows "client_inv (client_step h ct same (Opened w) c)"
proof -
  let ?d = "update_socket w (\<lambda>s. s\<lparr>ws_state := Open\<rparr>) c"
  have "client_inv ?d" using assms inv_sockets [OF assms(1), of w Open] by (simp add: conn_socket_state conn_fields(10))
  then show ?thesis using conn_opened [of w ?d] by (auto simp: inv_fields)
qed

lemma conn_quiet_steps:
  "conn (on_active w handleSocketError c) = conn c" "conn (on_active w (handleMessage_client h ct same decoded) c) = conn c"
  by (simp_all add: on_active_def handleSocketError_def)

lemma inv_idle_reset: "client_inv c \<Longrightarrow> client_inv (idle_reset h c)"
  using inv_connect [of "idle_stop c" h] by (simp add: idle_reset_def Let_def)

lemma client_inv_step:
  assumes "client_inv c" and "client_enabled l c"
  shows "client_inv (client_step h ct same l c)"
proof (cases l)
  case (ClosedEvent w now)
  then show ?thesis using inv_closed_event assms by blast
next
  case (Opened w)
  then show ?thesis using inv_opened assms by blast
next
  case (Frame w decoded)
  then show ?thesis using assms by (simp add: conn_quiet_steps Let_def split: sum.splits)
next
  case (AppVoid f args)
  have "conn c' = conn c''" if "send h f args c'' = Inr c'" for c' c''
    using that by (auto simp: send_def dest: conn_send split: option.splits if_splits)
  then show ?thesis using AppVoid assms by (auto simp: Let_def split: sum.splits)
next
  case (ResumeClose w)
  then show ?thesis using assms by (simp add: conn_closed_socket inv_fields)
next
  case (PageHidden b now)
  then show ?thesis using assms inv_client_close [of "c\<lparr>vm_hiddenAt := Some now\<rparr>"] by (simp add: handlePageHide_def Let_def)
next
  case (IdleTimer t)
  then show ?thesis using assms inv_client_close [of "c\<lparr>br_idle := js_remove t (br_idle c)\<rparr>"] by simp
next
  case (RecoveryTimer r)
  then show ?thesis using assms by (simp add: conn_same_task answer_recovery_def)
next
  case (HookSettled r b)
  then show ?thesis using assms by (simp add: conn_same_task answer_recovery_def)
qed (use assms in \<open>simp_all add: client_connect_def inv_connect conn_reconnect(2) inv_client_close inv_context inv_timer(2) inv_resume
    inv_heartbeat inv_visible inv_idle_reset conn_quiet_steps\<close>)


lemma new_client_inv: "fst (new_client h ct same uuid meta manager ctx idle now) = None \<Longrightarrow>
    client_inv (snd (new_client h ct same uuid meta manager ctx idle now))"
  unfolding new_client_def Let_def by (simp add: client_connect_def, rule inv_connect) (simp add: conn_def conn_inv_def)

interpretation live_connection: client_invariant h ct same client_inv "\<lambda>_. True" for h ct same
  by unfold_locales (rule client_inv_step)

section \<open>A closed client\<close>

definition shut_down :: "connection \<Rightarrow> bool" where
  "shut_down k \<longleftrightarrow>
     k_stopped k \<and> k_timer k = None \<and> k_armed k = [] \<and> k_destroyed k \<and> \<not> k_heartbeat k \<and> k_recovery k = None \<and>
     (\<forall>t \<in> set (k_tasks k). fst t) \<and> \<not> snd (k_idle k) \<and>
     (\<forall>w. k_socket k = Some w \<longrightarrow> k_sockets k ! w \<in> {Closing, Closed})"

lemma shut_destroyed: "conn_inv k \<Longrightarrow> k_destroyed (k_destroy k) \<and> \<not> k_heartbeat (k_destroy k) \<and> k_recovery (k_destroy k) = None \<and>
    (\<forall>t \<in> set (k_tasks (k_destroy k)). fst t) \<and> \<not> snd (k_idle (k_destroy k)) \<and> k_socket (k_destroy k) = k_socket k \<and>
    k_sockets (k_destroy k) = k_sockets k"
  using inv_abort [of k] by (auto simp: k_destroy_def) (auto simp: k_abort_def k_task_def split: option.splits)

lemma shut_not_open: "x \<notin> {Connecting, Open} \<Longrightarrow> x \<in> {Closing, Closed}"
  by (cases x) auto

lemma clear_fields [simp]:
  "k_socket (k_clear k) = k_socket k" "k_sockets (k_clear k) = k_sockets k" "k_destroyed (k_clear k) = k_destroyed k"
  "k_heartbeat (k_clear k) = k_heartbeat k" "k_recovery (k_clear k) = k_recovery k" "k_tasks (k_clear k) = k_tasks k"
  "k_idle (k_clear k) = k_idle k" "k_exhausted (k_clear k) = k_exhausted k" "k_attempt (k_clear k) = k_attempt k"
  "k_stopped (k_clear k) = k_stopped k"
  by (simp_all add: k_clear_def split: option.splits)

lemma close_shuts:
  assumes "client_inv c"
  shows "shut_down (conn (client_close c))" and "length (br_sockets (client_close c)) = length (br_sockets c)"
proof -
  obtain d where d: "client_close c = close_socket d" "conn d = k_destroy (conn c)" using close_prepared [OF assms] by metis
  have i: "client_inv d" unfolding d using assms by (rule inv_destroy)
  note f = shut_destroyed [OF assms] inv_clear [OF i, unfolded d(2)]
  have e: "k_socket (k_destroy (conn c)) = k_socket (conn c)" "k_sockets (k_destroy (conn c)) = k_sockets (conn c)" using f by simp_all
  have k: "conn (client_close c) = (let k = (k_clear (k_destroy (conn c)))\<lparr>k_stopped := True\<rparr> in
     case k_socket (conn c) of None \<Rightarrow> k
     | Some w \<Rightarrow> if k_sockets (conn c) ! w = Closed then k\<lparr>k_socket := None\<rparr> else k_shut w k)"
    unfolding d(1) conn_close [OF i] d(2) e ..
  have "w < length (k_sockets (conn c))" if "k_socket (conn c) = Some w" for w using assms that by (simp add: conn_inv_def)
  then show "shut_down (conn (client_close c))"
    unfolding k Let_def using f shut_not_open by (auto simp: shut_down_def k_shut_def split: option.splits)
  have "length (k_sockets (conn (client_close c))) = length (k_sockets (conn c))"
    unfolding k Let_def using f by (auto simp: k_shut_def split: option.splits)
  then show "length (br_sockets (client_close c)) = length (br_sockets c)" by (simp add: conn_fields(10))
qed

definition reopens :: "client_label \<Rightarrow> bool" where
  "reopens l = (case l of AppConnect \<Rightarrow> True | AppReconnect _ \<Rightarrow> True | AppSetContextAndReInit _ \<Rightarrow> True | _ \<Rightarrow> False)"

lemma shut_fields:
  assumes "shut_down (conn c)"
  shows "\<not> vm_heartbeat c" "vm_destroyed c" "\<not> it_listening c" "br_reconnects c = []" "cs_stopped c"
  using assms by (simp_all add: shut_down_def conn_fields)

lemma shut_resume:
  assumes "client_inv c" and "shut_down (conn c)" and "r < length (vm_recoveries c)"
  shows "shut_down (conn (resume_recovery h now r c)) \<and> k_sockets (conn (resume_recovery h now r c)) = k_sockets (conn c)"
proof -
  have a: "fst (k_tasks (conn c) ! r)" "r < length (k_tasks (conn c))" using assms(2,3) by (simp_all add: shut_down_def conn_fields(12))
  have "conn (resume_recovery h now r c) \<in> {conn c, k_finish r (conn c)} \<union> range (\<lambda>w. k_wait r w (conn c))"
    using conn_resume [OF assms(1,3), of h now] a by (auto simp: k_outcomes_def)
  moreover have "fst t" if "t \<in> set ((k_tasks (conn c))[r := x])" "fst x" for t x
    using that assms(2) set_update_subset_insert [of "k_tasks (conn c)" r x] by (auto simp: shut_down_def)
  ultimately show ?thesis using assms(2) a
    by (auto simp: shut_down_def k_finish_def k_task_def Let_def split_beta)
qed

lemma shut_closed_event:
  assumes "client_inv c" and "shut_down (conn c)" and "client_enabled (ClosedEvent w now) c"
  shows "shut_down (conn (client_step h ct same (ClosedEvent w now) c)) \<and>
    length (br_sockets (client_step h ct same (ClosedEvent w now) c)) = length (br_sockets c)"
proof -
  define d where "d = update_socket w (\<lambda>s. s\<lparr>ws_state := Closed\<rparr>) c"
  have w: "w < length (br_sockets c)" using assms(3) by simp
  have d: "conn d = (conn c)\<lparr>k_sockets := (k_sockets (conn c))[w := Closed]\<rparr>" unfolding d_def by (rule conn_socket_state [OF w])
  have "k_sockets (conn d) ! v \<in> {Closing, Closed}" if "k_socket (conn d) = Some v" for v
    using that assms(2) w unfolding d by (cases "v = w") (auto simp: shut_down_def conn_fields(10))
  then have s: "shut_down (conn d)" using assms(2) unfolding d by (simp add: shut_down_def)
  let ?e = "client_emit ''websocket:closed'' JUndef (rejectAllPending ''Connection lost'' (d\<lparr>cl_initialized := False, cl_initializing := False\<rparr>))"
  have e: "conn ?e = conn d" by simp
  have "cs_stopped ?e" using shut_fields(5) [of ?e] s unfolding e by simp
  then have "conn (handleClose_socket h now d) = (conn d)\<lparr>k_socket := None\<rparr>"
    by (simp add: handleClose_socket_def Let_def conn_drop)
  then have "conn (on_active w (handleClose_socket h now) d) \<in> {conn d, (conn d)\<lparr>k_socket := None\<rparr>}" by (simp add: on_active_def)
  moreover have "conn (client_step h ct same (ClosedEvent w now) c) = conn (on_active w (handleClose_socket h now) d)" by (simp add: d_def)
  ultimately have k: "conn (client_step h ct same (ClosedEvent w now) c) \<in> {conn d, (conn d)\<lparr>k_socket := None\<rparr>}" by simp
  then have "shut_down (conn (client_step h ct same (ClosedEvent w now) c))" using s by (auto simp: shut_down_def)
  moreover have "length (k_sockets (conn (client_step h ct same (ClosedEvent w now) c))) = length (k_sockets (conn c))" using k d by auto
  ultimately show ?thesis by (simp add: conn_fields(10) del: client_step.simps)
qed


lemma conn_same_length: "conn c' = conn c \<Longrightarrow> length (br_sockets c') = length (br_sockets c)"
  by (metis conn_fields(10) length_map)

lemma send_same: "send h method params c = Inr c' \<Longrightarrow> conn c' = conn c"
  by (auto simp: send_def dest: conn_send split: option.splits if_splits)

lemma steps_same:
  "conn (client_step h ct same (Frame w decoded) c) = conn c" "conn (client_step h ct same (AppVoid method params) c) = conn c"
  "conn (client_step h ct same (Errored w) c) = conn c" "conn (client_step h ct same (RecoveryTimer r) c) = conn c"
  "conn (client_step h ct same (HookSettled r b) c) = conn c"
  using send_same by (auto simp: conn_quiet_steps Let_def conn_same_task answer_recovery_def split: sum.splits)

text \<open>The steps that may change the connection.\<close>

definition moves :: "client_label \<Rightarrow> bool" where
  "moves l = (case l of AppConnect \<Rightarrow> True | AppReconnect _ \<Rightarrow> True | AppClose \<Rightarrow> True | AppSetContextAndReInit _ \<Rightarrow> True
     | Opened _ \<Rightarrow> True | ClosedEvent _ _ \<Rightarrow> True | ReconnectTimer _ \<Rightarrow> True | IdleTimer _ \<Rightarrow> True | ResumeRecovery _ _ \<Rightarrow> True
     | ResumeClose _ \<Rightarrow> True | Heartbeat _ _ \<Rightarrow> True | PageHidden _ _ \<Rightarrow> True | PageVisible _ \<Rightarrow> True | Activity \<Rightarrow> True | _ \<Rightarrow> False)"

lemma still_steps: "\<not> moves l \<Longrightarrow> conn (client_step h ct same l c) = conn c"
  by (cases l) (simp_all add: moves_def steps_same del: client_step.simps(5,14,15,22,23))

lemma shut_close:
  assumes "client_inv c" and "conn d = conn c"
  shows "shut_down (conn (client_close d)) \<and> length (br_sockets (client_close d)) = length (br_sockets c)"
  using close_shuts [of d] assms conn_same_length [OF assms(2)] by simp

lemma shut_step:
  assumes "client_inv c" and "shut_down (conn c)" and "client_enabled l c" and "\<not> reopens l"
  shows "shut_down (conn (client_step h ct same l c)) \<and> length (br_sockets (client_step h ct same l c)) = length (br_sockets c)"
proof (cases "moves l")
  case False
  then show ?thesis using assms(2) still_steps conn_same_length by metis
next
  case True
  note f = shut_fields [OF assms(2)]
  show ?thesis
  proof (cases l)
    case (ClosedEvent w now)
    then show ?thesis using shut_closed_event assms by blast
  next
    case (Opened w)
    have "cs_socket c \<noteq> Some w" using assms(1,2,3) Opened by (auto simp: shut_down_def conn_fields)
    then have "conn (client_step h ct same l c) = (conn c)\<lparr>k_sockets := (k_sockets (conn c))[w := Open]\<rparr>"
      using Opened assms(3) by (simp add: on_active_def conn_socket_state update_socket_def) (simp add: conn_socket_state [unfolded update_socket_def])
    moreover have "length (br_sockets (client_step h ct same l c)) = length (br_sockets c)"
      using \<open>cs_socket c \<noteq> Some w\<close> Opened by (simp add: on_active_def update_socket_def)
    ultimately show ?thesis using assms(2) \<open>cs_socket c \<noteq> Some w\<close> by (auto simp: shut_down_def conn_fields(1) nth_list_update)
  next
    case (ResumeRecovery r now)
    then show ?thesis using shut_resume [OF assms(1,2)] assms(3) by (auto simp: conn_fields(10) dest: map_eq_imp_length_eq)
  next
    case (ResumeClose w)
    have "conn (client_step h ct same l c) \<in> {conn c, (conn c)\<lparr>k_socket := None\<rparr>}" using ResumeClose by (simp add: conn_closed_socket)
    then have "shut_down (conn (client_step h ct same l c))" "length (k_sockets (conn (client_step h ct same l c))) = length (k_sockets (conn c))"
      using assms(2) by (auto simp: shut_down_def)
    then show ?thesis by (simp add: conn_fields(10))
  next
    case AppClose
    then show ?thesis using shut_close [OF assms(1)] by simp
  next
    case (IdleTimer t)
    then show ?thesis using shut_close [OF assms(1)] by simp
  next
    case (PageHidden b now)
    then show ?thesis using f assms(3) by simp
  qed (use True f assms(3,4) in \<open>simp_all add: moves_def reopens_def\<close>)
qed

interpretation closed_connection: client_invariant h ct same
  "\<lambda>c. client_inv c \<and> shut_down (conn c) \<and> length (br_sockets c) = n" "\<lambda>l. \<not> reopens l" for h ct same n
  by unfold_locales (use shut_step client_inv_step in \<open>blast\<close>)

text \<open>
  C11: A closed client stays closed. Whatever was under way when \<open>close()\<close> was called - a reconnection
  timer, a recovery after sleep with its hooks and probes, an idle timer, a handshake - no step of the
  client opens a socket afterwards and none is usable, until the application connects again.
\<close>

theorem closed_client_stays_closed:
  assumes "new_client h ct same uuid meta manager initial idle t0 = (None, c0)" and "client_run h ct same (\<lambda>_. True) c0 c"
    and "client_run h ct same (\<lambda>l. \<not> reopens l) (client_step h ct same AppClose c) c'"
  shows "length (br_sockets c') = length (br_sockets c) \<and> cs_stopped c' \<and> \<not> ready c'"
proof -
  have "client_inv c0" using new_client_inv [of h ct same uuid meta manager initial idle t0] assms(1) by simp
  then have i: "client_inv c" using live_connection.along_run [OF assms(2)] by blast
  have "client_inv c' \<and> shut_down (conn c') \<and> length (br_sockets c') = length (br_sockets c)"
    using closed_connection.along_run [OF assms(3)] close_shuts [OF i] inv_client_close [OF i] by simp
  then show ?thesis by (auto simp: shut_down_def ready_def conn_fields conn_inv_def split: option.splits)
qed

theorem closed_client_stays_closed_witness:
  "\<not> ready (foldl (\<lambda>c l. client_step plain_host (\<lambda>_. None) (\<lambda>_ _. False) l c) sample_client [ClosedEvent 0 5, AppClose, AppHook True])"
proof -
  let ?s = "\<lambda>c l. client_step plain_host (\<lambda>_. None) (\<lambda>_ _. False) l c"
  have r: "runs plain_host (\<lambda>_. None) (\<lambda>_ _. False) (\<lambda>_. True) [ClosedEvent 0 5] sample_client"
    "runs plain_host (\<lambda>_. None) (\<lambda>_ _. False) (\<lambda>l. \<not> reopens l) [AppHook True] (?s (foldl ?s sample_client [ClosedEvent 0 5]) AppClose)"
    by code_simp+
  have "\<not> ready (foldl ?s (?s (foldl ?s sample_client [ClosedEvent 0 5]) AppClose) [AppHook True])"
    using closed_client_stays_closed [OF sample_client_new run_of_labels [OF r(1) client_run.start] run_of_labels [OF r(2) client_run.start]] by blast
  then show ?thesis by (simp del: client_step.simps)
qed


section \<open>Reconnection\<close>

definition k_budget :: "connection \<Rightarrow> nat" where
  "k_budget k = (if k_exhausted k then 0 else Suc MAX_RECONNECT_ATTEMPTS) + (MAX_RECONNECT_ATTEMPTS - k_attempt k)"

definition k_spent :: "connection \<Rightarrow> nat" where
  "k_spent k = length (k_sockets k) + (if k_timer k = None then 0 else 1) + k_budget k"

definition resting :: "connection \<Rightarrow> bool" where
  "resting k \<longleftrightarrow> (\<forall>t \<in> set (k_tasks k). fst t \<or> snd t \<in> {InitWait, Recovered})"

lemma resting_task:
  assumes "resting k" and "\<And>x. fst x \<or> snd x \<in> {InitWait, Recovered} \<Longrightarrow> fst (f x) \<or> snd (f x) \<in> {InitWait, Recovered}"
  shows "resting (k_task r f k)"
proof (cases "r < length (k_tasks k)")
  case True
  then have "k_tasks k ! r \<in> set (k_tasks k)" by simp
  then have "fst (f (k_tasks k ! r)) \<or> snd (f (k_tasks k ! r)) \<in> {InitWait, Recovered}" using assms unfolding resting_def by blast
  then show ?thesis using assms(1) set_update_subset_insert [of "k_tasks k" r "f (k_tasks k ! r)"]
    unfolding resting_def k_task_def by fastforce
qed (use assms(1) in \<open>simp add: k_task_def resting_def list_update_beyond\<close>)

lemma resting_abort: "resting k \<Longrightarrow> resting (k_abort k)"
  by (auto simp: k_abort_def intro!: resting_task split: option.splits)

lemma rest_abort_fields: "k_sockets (k_abort k) = k_sockets k" "k_exhausted (k_abort k) = k_exhausted k" "k_timer (k_abort k) = k_timer k"
    "length (k_tasks (k_abort k)) = length (k_tasks k)" "k_attempt (k_abort k) = k_attempt k"
  by (simp_all add: k_abort_def k_task_def split: option.splits)

lemma replace_started:
  assumes "resting k"
  shows "resting (k_replace (length (k_tasks k)) (k_start k)) \<and> k_exhausted (k_replace (length (k_tasks k)) (k_start k)) = k_exhausted k \<and>
    k_attempt (k_replace (length (k_tasks k)) (k_start k)) = 0 \<and> k_timer (k_replace (length (k_tasks k)) (k_start k)) = None \<and>
    length (k_sockets (k_replace (length (k_tasks k)) (k_start k))) = Suc (length (k_sockets k))"
proof -
  have t: "k_tasks (k_wait (length (k_tasks k)) InitWait (k_start k)) = k_tasks k @ [(False, InitWait)]"
    by (simp add: k_task_def k_start_def)
  have "k_replace (length (k_tasks k)) (k_start k) =
      k_open ((k_retire (k_wait (length (k_tasks k)) InitWait (k_start k)))\<lparr>k_stopped := False, k_attempt := 0\<rparr>)"
    by (simp add: k_replace_def Let_def t)
  then show ?thesis using assms by (simp add: k_open_def resting_def t) (simp add: k_task_def k_start_def)
qed

lemma spent_schedule:
  assumes "resting k" and "k_timer k = None" and "k' \<in> k_schedule k"
  shows "resting k' \<and> k_spent k' \<le> k_spent k"
proof -
  let ?k = "k\<lparr>k_attempt := Suc (k_attempt k), k_exhausted := True\<rparr>"
  have r: "resting (k_abort ?k)" using assms(1) by (intro resting_abort) (simp add: resting_def)
  have l: "length (k_tasks (k_abort ?k)) = length (k_tasks k)" by (simp add: rest_abort_fields)
  show ?thesis using assms replace_started [OF r, unfolded l]
    by (auto simp: k_schedule_def k_spent_def k_budget_def Let_def resting_def rest_abort_fields split: if_splits)
qed

lemma resting_start_fields: "resting k \<Longrightarrow> k_spent (k\<lparr>k_socket := x\<rparr>) = k_spent k \<and> resting (k\<lparr>k_socket := x\<rparr>)"
  by (simp add: k_spent_def k_budget_def resting_def)

lemma spent_resume:
  assumes "client_inv c" and "resting (conn c)" and "r < length (vm_recoveries c)"
  shows "resting (conn (resume_recovery h now r c)) \<and> k_spent (conn (resume_recovery h now r c)) = k_spent (conn c)"
proof -
  have l: "r < length (k_tasks (conn c))" using assms(3) by (simp add: conn_fields(12))
  then have t: "fst (k_tasks (conn c) ! r) \<or> snd (k_tasks (conn c) ! r) \<in> {InitWait, Recovered}" using assms(2) by (simp add: resting_def)
  have fin: "resting (k_finish r (conn c)) \<and> k_spent (k_finish r (conn c)) = k_spent (conn c)"
    using resting_task [OF assms(2), of "\<lambda>_. (True, Recovered)" r]
    by (auto simp: k_finish_def Let_def k_spent_def k_budget_def resting_def) (auto simp: k_task_def)
  have w: "resting (k_wait r w (conn c)) \<and> k_spent (k_wait r w (conn c)) = k_spent (conn c)" if "fst (k_tasks (conn c) ! r)" for w
  proof -
    have "set (k_tasks (k_wait r w (conn c))) \<subseteq> insert (True, w) (set (k_tasks (conn c)))"
      using that set_update_subset_insert by (fastforce simp: k_task_def split_beta)
    then show ?thesis using assms(2) by (auto simp: resting_def) (auto simp: k_spent_def k_budget_def k_task_def)
  qed
  show ?thesis
  proof (cases "fst (k_tasks (conn c) ! r)")
    case True
    then show ?thesis using conn_resume [OF assms(1,3), of h now] fin w assms(2) by (auto simp: k_outcomes_def)
  next
    case False
    then show ?thesis using conn_resume_init [OF assms(3), of h now] t fin assms(2) by auto
  qed
qed

text \<open>Steps of a client that nothing wakes, whose sockets do not open.\<close>

definition unattended :: "client_label \<Rightarrow> bool" where
  "unattended l = (case l of AppConnect \<Rightarrow> False | AppReconnect _ \<Rightarrow> False | AppSetContextAndReInit _ \<Rightarrow> False | Opened _ \<Rightarrow> False
     | Heartbeat _ _ \<Rightarrow> False | PageVisible _ \<Rightarrow> False | Activity \<Rightarrow> False | _ \<Rightarrow> True)"

lemma spent_clear: "k_spent (k_clear k) \<le> k_spent k" "resting k \<Longrightarrow> resting (k_clear k)"
  by (auto simp: k_clear_def k_spent_def k_budget_def resting_def split: option.splits)

lemma spent_close:
  assumes "client_inv c" and "resting (conn c)"
  shows "resting (conn (client_close c)) \<and> k_spent (conn (client_close c)) \<le> k_spent (conn c)"
proof -
  obtain d where d: "client_close c = close_socket d" "conn d = k_destroy (conn c)" using close_prepared [OF assms(1)] by metis
  have i: "client_inv d" unfolding d using assms(1) by (rule inv_destroy)
  have r: "resting (conn d)" using resting_abort [OF assms(2)] unfolding d by (simp add: k_destroy_def resting_def)
  have "k_spent (conn d) = k_spent (conn c)" unfolding d by (simp add: k_destroy_def k_spent_def k_budget_def rest_abort_fields)
  moreover have "k_spent (conn (close_socket d)) = k_spent (k_clear (conn d))" "resting (conn (close_socket d))"
    using spent_clear(2) [OF r] unfolding conn_close [OF i] Let_def
    by (auto simp: k_spent_def k_budget_def resting_def k_shut_def split: option.splits)
  ultimately show ?thesis using spent_clear(1) [of "conn d"] d by simp
qed


lemma spent_closed_event:
  assumes "client_inv c" and "resting (conn c)" and "client_enabled (ClosedEvent w now) c"
  shows "resting (conn (client_step h ct same (ClosedEvent w now) c)) \<and>
    k_spent (conn (client_step h ct same (ClosedEvent w now) c)) \<le> k_spent (conn c)"
proof -
  define d where "d = update_socket w (\<lambda>s. s\<lparr>ws_state := Closed\<rparr>) c"
  have w: "w < length (br_sockets c)" "ws_state (socket_at c w) \<noteq> Closed" using assms(3) by simp_all
  have i: "client_inv d" using inv_sockets [OF assms(1)] w by (simp add: d_def conn_socket_state)
  have r: "resting (conn d) \<and> k_spent (conn d) = k_spent (conn c)" using assms(2)
    by (simp add: d_def conn_socket_state w(1) resting_def k_spent_def k_budget_def)
  have "resting (conn (handleClose_socket h now d)) \<and> k_spent (conn (handleClose_socket h now d)) \<le> k_spent (conn d)" if s: "cs_socket d = Some w"
  proof -
    let ?e = "client_emit ''websocket:closed'' JUndef (rejectAllPending ''Connection lost'' (d\<lparr>cl_initialized := False, cl_initializing := False\<rparr>))"
    have k: "conn ?e = conn d" by simp
    have t: "k_timer (conn d) = None" "k_socket (conn d) = Some w" "k_sockets (conn d) ! w = Closed"
      using s w assms(1) by (auto simp: d_def update_socket_def conn_inv_def conn_simps)
    then have "conn (scheduleReconnect h now ?e) \<in> k_schedule (conn d)" using conn_schedule(1) [of ?e h now] i unfolding k by simp
    then have "resting (conn (scheduleReconnect h now ?e)) \<and> k_spent (conn (scheduleReconnect h now ?e)) \<le> k_spent (conn d)"
      using spent_schedule r t(1) by blast
    moreover have "resting (conn (?e\<lparr>cs_socket := None\<rparr>)) \<and> k_spent (conn (?e\<lparr>cs_socket := None\<rparr>)) \<le> k_spent (conn d)"
      using r by (simp add: conn_drop k_spent_def k_budget_def resting_def)
    ultimately show ?thesis by (simp add: handleClose_socket_def Let_def)
  qed
  then show ?thesis using r by (simp add: on_active_def d_def [symmetric])
qed

lemma spent_step:
  assumes "client_inv c" and "resting (conn c)" and "client_enabled l c" and "unattended l"
  shows "resting (conn (client_step h ct same l c)) \<and> k_spent (conn (client_step h ct same l c)) \<le> k_spent (conn c)"
proof (cases "moves l")
  case False
  then show ?thesis using assms(2) by (simp add: still_steps)
next
  case True
  show ?thesis
  proof (cases l)
    case (ClosedEvent w now)
    then show ?thesis using spent_closed_event assms by blast
  next
    case (ResumeRecovery r now)
    then show ?thesis using spent_resume [OF assms(1,2)] assms(3) by simp
  next
    case (ResumeClose w)
    then show ?thesis using assms(2) by (simp add: conn_closed_socket k_spent_def k_budget_def resting_def)
  next
    case (ReconnectTimer t)
    then have t: "t \<in> set (br_reconnects c)" using assms(3) by simp
    then have "k_timer (conn c) \<noteq> None" using assms(1) by (auto simp: conn_inv_def conn_fields split: option.splits)
    then show ?thesis using ReconnectTimer assms(2) inv_timer(1) [OF assms(1) t, of h]
      by (auto simp: k_spent_def k_budget_def resting_def k_open_def k_clear_def)
  next
    case (PageHidden b now)
    then show ?thesis using spent_close [of "c\<lparr>vm_hiddenAt := Some now\<rparr>"] assms(1,2) by (simp add: handlePageHide_def Let_def)
  next
    case (IdleTimer t)
    then show ?thesis using spent_close [of "c\<lparr>br_idle := js_remove t (br_idle c)\<rparr>"] assms(1,2) by simp
  qed (use True assms spent_close in \<open>simp_all add: moves_def unattended_def\<close>)
qed

lemma inv_resting:
  assumes "conn_inv k" and "k_recovery k = None"
  shows "resting k"
  using assms unfolding conn_inv_def resting_def by (metis in_set_conv_nth option.distinct(1))

interpretation failing_connection: client_invariant h ct same
  "\<lambda>c. client_inv c \<and> resting (conn c) \<and> k_spent (conn c) \<le> n" unattended for h ct same n
  by unfold_locales (use spent_step client_inv_step order_trans in \<open>blast\<close>)



end
