(* ===== verification/ClientCalls.thy ===== *)
theory ClientCalls
  imports ClientLife
begin

text \<open>
  The calls of a client. Every pending entry belongs to one attempt of one call that still waits for
  it and has its own timer; a response settles the call whose identifier it carries; and a call of a
  client that is not closed always has a step that brings it nearer to its end.
\<close>

section \<open>Steps that answer no remote call\<close>

definition woken :: "call_task \<Rightarrow> call_task \<Rightarrow> bool" where
  "woken t t' \<longleftrightarrow> t' = t \<or> (ct_wait t = WaitInit \<and> (\<exists>v. t' = answer_call v t))"

definition same_calls :: "client \<Rightarrow> client \<Rightarrow> bool" where
  "same_calls c c' \<longleftrightarrow> cs_pending c' = cs_pending c \<and> br_acks c' = br_acks c \<and> br_requests c' = br_requests c \<and>
     list_all2 woken (cl_calls c) (cl_calls c')"

lemma woken_refl [simp]: "woken t t"
  by (simp add: woken_def)

lemma woken_trans: "woken a b \<Longrightarrow> woken b d \<Longrightarrow> woken a d"
  by (auto simp: woken_def answer_call_def split: if_splits)

lemma same_calls_refl [simp]: "same_calls c c"
  by (simp add: same_calls_def list_all2_same)

lemma same_calls_trans [trans]: "same_calls a b \<Longrightarrow> same_calls b c \<Longrightarrow> same_calls a c"
  unfolding same_calls_def using list_all2_trans [of woken woken woken, OF woken_trans] by auto

lemma same_calls_eq:
  "cs_pending c' = cs_pending c \<Longrightarrow> br_acks c' = br_acks c \<Longrightarrow> br_requests c' = br_requests c \<Longrightarrow> cl_calls c' = cl_calls c \<Longrightarrow> same_calls c c'"
  by (simp add: same_calls_def list_all2_same)

lemma same_emit [simp]: "same_calls c (client_emit e v c)"
proof -
  have i: "same_calls c ((idle_start ^^ n) c)" for n c
  proof (induction n)
    case (Suc n)
    have "same_calls ((idle_start ^^ n) c) (idle_start ((idle_start ^^ n) c))" by (rule same_calls_eq) (simp_all add: idle_start_def)
    then show ?case using same_calls_trans [OF Suc] by simp
  qed simp
  have "list_all2 woken ts (map (\<lambda>t. if ct_wait t = WaitInit then answer_call (Inr JUndef) t else t) ts)" for ts
    by (auto simp: list_all2_conv_all_nth woken_def)
  moreover have "cl_calls (idle_stop c) = cl_calls c \<and> cs_pending (idle_stop c) = cs_pending c \<and> br_acks (idle_stop c) = br_acks c \<and>
    br_requests (idle_stop c) = br_requests c" for c :: client by (simp add: idle_stop_def split: option.splits)
  ultimately show ?thesis using i [of "c\<lparr>cl_emitted := cl_emitted c @ [(e, v)]\<rparr>" "it_resets c"]
    by (auto simp: client_emit_def Let_def recoveries_at_def same_calls_def list_all2_same)
qed

lemma same_emitted: "same_calls c d \<Longrightarrow> same_calls c (client_emit e v d)"
  using same_calls_trans same_emit by blast

lemma same_rec [simp]: "same_calls c (recoveries_at P b c)" "same_calls c (update_recovery r f c)" "same_calls c (update_socket w g c)"
  "same_calls c (socket_close w c)" "same_calls c (clearReconnectTimer c)" "same_calls c (createSocket h c)" "same_calls c (abort_current c)"
  "same_calls c (finish_recovery r c)" "same_calls c (snd (start_recovery c))" "same_calls c (update_channel name u c)"
  "same_calls c (idle_start c)" "same_calls c (idle_stop c)"
  by (rule same_calls_eq; simp add: recoveries_at_def update_recovery_def update_socket_def socket_close_def clearReconnectTimer_def
      createSocket_def abort_current_def finish_recovery_def start_recovery_def update_channel_def idle_start_def idle_stop_def Let_def split: option.splits)+

lemma same_send: "socket_send h w p c = Inr c' \<Longrightarrow> same_calls c c'"
  by (auto simp: socket_send_def rbind_eq_Inr intro!: same_calls_eq split: if_splits)


lemma same_update [simp]:
  "same_calls c (c\<lparr>cl_manager := x1\<rparr>)" "same_calls c (c\<lparr>cl_initialized := x2\<rparr>)" "same_calls c (c\<lparr>cl_initializing := x3\<rparr>)"
  "same_calls c (c\<lparr>cl_authenticated := x4\<rparr>)" "same_calls c (c\<lparr>cl_channels := x5\<rparr>)" "same_calls c (c\<lparr>cl_resubscribing := x6\<rparr>)"
  "same_calls c (c\<lparr>cl_connects := x7\<rparr>)" "same_calls c (c\<lparr>vm_hook := x8\<rparr>)" "same_calls c (c\<lparr>vm_hiddenAt := x9\<rparr>)"
  "same_calls c (c\<lparr>vm_lastHeartbeat := x10\<rparr>)" "same_calls c (c\<lparr>vm_missedHeartbeat := x11\<rparr>)" "same_calls c (c\<lparr>it_resets := x12\<rparr>)"
  "same_calls c (c\<lparr>br_idle := x13\<rparr>)" "same_calls c (c\<lparr>br_closing := x14\<rparr>)" "same_calls c (c\<lparr>cs_connecting := x15\<rparr>)"
  "same_calls c (c\<lparr>cs_socket := x16\<rparr>)" "same_calls c (c\<lparr>cs_stopped := x17\<rparr>)" "same_calls c (c\<lparr>cs_reconnectAttempt := x18\<rparr>)"
  "same_calls c (c\<lparr>cs_exhaustedReconnect := x19\<rparr>)" "same_calls c (c\<lparr>cl_delivered := x20\<rparr>)" "same_calls c (c\<lparr>cs_reconnectTimer := x21\<rparr>)"
  "same_calls c (c\<lparr>br_reconnects := x22\<rparr>)" "same_calls c (c\<lparr>br_timers := x23\<rparr>)" "same_calls c (c\<lparr>it_listening := x24\<rparr>)"
  "same_calls c (c\<lparr>vm_destroyed := x25\<rparr>)" "same_calls c (c\<lparr>vm_recovery := x26\<rparr>)" "same_calls c (c\<lparr>vm_heartbeat := x27\<rparr>)"
  by (simp_all add: same_calls_def list_all2_same)

lemma same_chain: "same_calls c d \<Longrightarrow> same_calls d (f d) \<Longrightarrow> same_calls c (f d)"
  by (rule same_calls_trans)

lemma same_connect: "same_calls c (connect h c)"
proof -
  let ?c = "clearReconnectTimer c"
  have "same_calls c ?c" by simp
  moreover have "same_calls ?c (?c\<lparr>cs_stopped := False, cs_connecting := True, cs_reconnectAttempt := 0\<rparr>)" by (rule same_calls_eq) simp_all
  ultimately have "same_calls c (?c\<lparr>cs_stopped := False, cs_connecting := True, cs_reconnectAttempt := 0\<rparr>)" by (rule same_calls_trans)
  then have "same_calls c (createSocket h (client_emit ''connecting'' JUndef (?c\<lparr>cs_stopped := False, cs_connecting := True, cs_reconnectAttempt := 0\<rparr>)))"
    by (rule same_calls_trans [OF same_emitted same_rec(6)])
  then show ?thesis unfolding connect_def Let_def by simp
qed

lemma same_manager: "same_calls c (with_manager r c)"
  by (auto simp: with_manager_def Let_def intro: same_emitted)

lemma same_channel_ops [simp]: "same_calls c (subscribe_events name es c)" "same_calls c (unsubscribe_events name es c)" "same_calls c (resubscribe name c)"
  "same_calls c (snd (client_channel_named v c))"
  by (simp_all add: subscribe_events_def unsubscribe_events_def resubscribe_def client_channel_named_def split: jsval.splits)

lemma same_initialize: "same_calls c (initialize h ct same c)"
proof -
  let ?c = "c\<lparr>cl_initializing := True, cl_initialized := False\<rparr>"
  let ?d = "with_manager (cm_loadContext h ct same (cl_manager c)) ?c"
  let ?e = "(client_emit ''initializing'' JUndef ?d)\<lparr>cl_initialized := True, cl_initializing := False\<rparr>"
  have d: "same_calls c ?d" by (rule same_calls_trans [OF _ same_manager]) (rule same_calls_eq; simp)
  have "same_calls (client_emit ''initializing'' JUndef ?d) ?e" by (rule same_calls_eq) simp_all
  then have e: "same_calls c ?e" using same_calls_trans [OF same_emitted [OF d]] by blast
  have "same_calls c (resubscribe n (?e\<lparr>cl_resubscribing := x\<rparr>))" for n x
    by (rule same_calls_trans [OF same_calls_trans [OF e same_update(6)] same_channel_ops(3)])
  then show ?thesis using d by (simp add: initialize_def Let_def split: option.splits)
qed

lemma same_resubscribe_next: "same_calls c (resubscribe_next j c)"
  unfolding resubscribe_next_def Let_def
  using same_calls_trans [OF same_update(6) same_channel_ops(3)] same_emitted [OF same_update(6)] by simp

lemma same_logged_out: "same_calls c (client_logged_out c)"
  unfolding client_logged_out_def by (rule same_emitted, rule same_calls_trans [OF same_update(4) same_manager])

lemma same_event: "same_calls c (handleEvent_client msg c)"
proof -
  have n: "same_calls c1 c2" if "client_channel_named v c1 = (x, c2)" for v x c1 c2
    using same_channel_ops(4) [of c1 v] that by simp
  have "same_calls c c2" if "client_channel_named v (client_emit e p c) = (x, c2)" for v e p x c2
    using same_calls_trans [OF same_emit n [OF that]] .
  then show ?thesis
    by (auto simp: handleEvent_client_def Let_def split: jsval.splits option.splits prod.splits
        intro!: same_emitted intro: same_calls_trans [OF _ same_update(20)])
qed

inductive loses_calls :: "client \<Rightarrow> client \<Rightarrow> bool" for c where
  none [simp]: "loses_calls c c"
| same: "loses_calls c d \<Longrightarrow> same_calls d e \<Longrightarrow> loses_calls c e"
| lost: "loses_calls c d \<Longrightarrow> loses_calls c (rejectAllPending reason d)"

lemma loses_same: "same_calls c d \<Longrightarrow> loses_calls c d"
  by (rule loses_calls.same [OF loses_calls.none])

lemma loses_trans: "loses_calls b c \<Longrightarrow> loses_calls a b \<Longrightarrow> loses_calls a c"
  by (induction rule: loses_calls.induct) (auto intro: loses_calls.intros)

lemma loses_retire: "loses_calls c (retireConnection c)"
proof -
  let ?c = "clearReconnectTimer (c\<lparr>cs_stopped := True, cs_connecting := False\<rparr>)"
  have "same_calls c (c\<lparr>cs_stopped := True, cs_connecting := False\<rparr>)" by (rule same_calls_eq) simp_all
  then have "same_calls c ?c" by (rule same_calls_trans) simp
  then have r: "loses_calls c (rejectAllPending ''Connection lost'' ?c)" by (intro loses_calls.lost loses_same)
  have "same_calls d (socket_close w ((update_socket w f d)\<lparr>cs_socket := None\<rparr>))" for w f d
    by (rule same_calls_trans [OF same_calls_trans [OF same_rec(3) same_update(16)] same_rec(4)])
  then show ?thesis unfolding retireConnection_def Let_def
    by (auto intro!: loses_calls.same [OF r] same_emitted split: option.splits)
qed

lemma loses_replace: "loses_calls c (replaceConnection h now r c)"
proof -
  let ?c = "(update_recovery r (wait_recovery InitWait) c)\<lparr>cl_initialized := False, cl_initializing := False\<rparr>"
  have "same_calls c (update_recovery r (wait_recovery InitWait) c)" by simp
  then have "same_calls c ?c" by (rule same_calls_trans) (rule same_calls_eq; simp)
  then have r: "loses_calls c (retireConnection ?c)" using loses_trans [OF loses_retire loses_same] by blast
  have "same_calls d ((connect h d)\<lparr>vm_lastHeartbeat := now\<rparr>)" for d by (rule same_calls_trans [OF same_connect same_update(10)])
  then show ?thesis unfolding replaceConnection_def Let_def
    using r by (auto intro: loses_calls.same [OF r] same_emitted)
qed


lemma loses_reconnect: "loses_calls c (reconnect h now c)"
proof -
  have "same_calls c (snd (start_recovery (abort_current c)))" by (rule same_calls_trans [OF same_rec(7) same_rec(9)])
  then have "loses_calls c (replaceConnection h now r (snd (start_recovery (abort_current c))))" for r
    using loses_trans [OF loses_replace loses_same] by blast
  then show ?thesis by (simp add: reconnect_def split_beta)
qed

lemma loses_after: "loses_calls c (after_hook h now b r c)" "loses_calls c (after_traffic h now b r c)"
  by (simp_all add: after_hook_def after_traffic_def wait_or_finish_def join_or_replace_def loses_replace loses_same Let_def)

lemma loses_resume: "loses_calls c (resume_recovery h now r c)"
  by (simp add: resume_recovery_def loses_after loses_same Let_def split: option.splits recovery_wait.splits)

lemma loses_sleep: "loses_calls c (handleSleepDetected h now c)"
proof -
  have s: "same_calls c ((snd (start_recovery c))\<lparr>vm_missedHeartbeat := x\<rparr>)" for x
    by (rule same_calls_trans [OF same_rec(9) same_update(11)])
  have "loses_calls c (after_hook h now b r ((snd (start_recovery c))\<lparr>vm_missedHeartbeat := x\<rparr>))" for b r x
    by (rule loses_trans [OF loses_after(1) loses_same [OF s]])
  moreover have "loses_calls c (update_recovery r f ((snd (start_recovery c))\<lparr>vm_missedHeartbeat := x\<rparr>))" for r f x
    by (rule loses_same, rule same_calls_trans [OF s same_rec(2)])
  ultimately show ?thesis by (simp add: handleSleepDetected_def split_beta Let_def)
qed

lemma loses_heartbeat: "loses_calls c (heartbeat_tick h now hidden c)"
  using loses_trans [OF loses_sleep [of "c\<lparr>vm_lastHeartbeat := now\<rparr>"] loses_same [OF same_update(10)]]
    same_calls_trans [OF same_update(10) same_update(11)]
  by (simp add: heartbeat_tick_def Let_def loses_same)

lemma loses_visible: "loses_calls c (handlePageVisible h now c)"
proof -
  have "same_calls c (idle_start (idle_stop (c\<lparr>vm_hiddenAt := None\<rparr>)))"
    by (rule same_calls_trans [OF same_calls_trans [OF same_update(9) same_rec(12)] same_rec(11)])
  then show ?thesis using loses_trans [OF loses_sleep [of "c\<lparr>vm_hiddenAt := None\<rparr>"] loses_same [OF same_update(9)]]
    by (simp add: handlePageVisible_def Let_def loses_same)
qed

lemma loses_schedule: "loses_calls c (scheduleReconnect h now c)"
proof -
  let ?c = "c\<lparr>cs_reconnectAttempt := Suc (cs_reconnectAttempt c)\<rparr>"
  have "same_calls c (?c\<lparr>cs_exhaustedReconnect := True\<rparr>)" by (rule same_calls_eq) simp_all
  then have "loses_calls c (reconnect h now (?c\<lparr>cs_exhaustedReconnect := True\<rparr>))" by (rule loses_trans [OF loses_reconnect loses_same])
  moreover have "same_calls c (?c\<lparr>cs_connecting := True, cs_reconnectTimer := Some (br_timers ?c),
      br_reconnects := br_reconnects ?c @ [br_timers ?c], br_timers := Suc (br_timers ?c)\<rparr>)" by (rule same_calls_eq) simp_all
  ultimately show ?thesis by (simp add: scheduleReconnect_def Let_def loses_same)
qed

lemma loses_closed: "loses_calls c (handleClose_socket h now c)"
proof -
  let ?d = "rejectAllPending ''Connection lost'' (c\<lparr>cl_initialized := False, cl_initializing := False\<rparr>)"
  let ?e = "client_emit ''websocket:closed'' JUndef ?d"
  have "loses_calls c ?d" by (rule loses_calls.lost, rule loses_same, rule same_calls_eq) simp_all
  then have e: "loses_calls c ?e" by (rule loses_calls.same) simp
  then show ?thesis unfolding handleClose_socket_def Let_def
    using loses_trans [OF loses_schedule e] loses_calls.same [OF e same_update(16)] by simp
qed

lemma loses_on_active: "(\<And>c. loses_calls c (f c)) \<Longrightarrow> loses_calls c (on_active w f c)"
  by (simp add: on_active_def)

lemma loses_context: "loses_calls c (setContextAndReInit h same ctx c)"
proof -
  have "loses_calls c (connect h (retireConnection d))" if "same_calls c d" for d
    by (rule loses_calls.same [OF loses_trans [OF loses_retire loses_same [OF that]] same_connect])
  then show ?thesis using same_manager same_calls_refl
    by (auto simp: setContextAndReInit_def Let_def loses_same split: option.splits)
qed


section \<open>Invariant of the calls\<close>

definition unanswered :: "client \<Rightarrow> nat \<Rightarrow> nat \<Rightarrow> bool" where
  "unanswered c k a \<longleftrightarrow> k < length (cl_calls c) \<and> ct_wait (cl_calls c ! k) = WaitSocket \<and> ct_attempt (cl_calls c ! k) = a \<and>
     ct_answer (cl_calls c ! k) = None"

definition calls_ok :: "client \<Rightarrow> bool" where
  "calls_ok c \<longleftrightarrow> jm_wf (cs_pending c) \<and> distinct (map fst (br_acks c)) \<and> set (br_acks c) = set (cs_pending c) \<and>
     (\<forall>u k a. (u, k, a) \<in> set (cs_pending c) \<longrightarrow> unanswered c k a) \<and>
     (\<forall>u k a u' a'. (u, k, a) \<in> set (cs_pending c) \<and> (u', k, a') \<in> set (cs_pending c) \<longrightarrow> u = u')"

definition live_at :: "client \<Rightarrow> nat \<Rightarrow> bool" where
  "live_at c k \<longleftrightarrow> ct_attempt (cl_calls c ! k) \<le> co_maxRetries (ct_options (cl_calls c ! k)) \<and>
     (ct_answer (cl_calls c ! k) = None \<longrightarrow>
        (ct_wait (cl_calls c ! k) = WaitSocket \<longrightarrow> (\<exists>u a. (u, k, a) \<in> set (cs_pending c))) \<and>
        (ct_wait (cl_calls c ! k) = WaitHttp \<longrightarrow> k \<in> fst ` set (br_requests c))) \<and>
     (ct_wait (cl_calls c ! k) = WaitRetry \<longrightarrow> ct_attempt (cl_calls c ! k) < co_maxRetries (ct_options (cl_calls c ! k)))"

definition calls_live :: "client \<Rightarrow> bool" where
  "calls_live c \<longleftrightarrow> (\<forall>k < length (cl_calls c). live_at c k)"

lemma woken_fields: "woken t t' \<Longrightarrow> ct_wait t' = ct_wait t \<and> ct_attempt t' = ct_attempt t \<and> ct_options t' = ct_options t \<and>
    (ct_wait t \<noteq> WaitInit \<longrightarrow> t' = t)"
  by (auto simp: woken_def answer_call_def)

lemma same_nth: "same_calls c c' \<Longrightarrow> k < length (cl_calls c) \<Longrightarrow> woken (cl_calls c ! k) (cl_calls c' ! k)"
  by (auto simp: same_calls_def list_all2_conv_all_nth)

lemma same_length: "same_calls c c' \<Longrightarrow> length (cl_calls c') = length (cl_calls c)"
  by (auto simp: same_calls_def dest: list_all2_lengthD)

lemma ok_same:
  assumes "same_calls c c'" and "calls_ok c"
  shows "calls_ok c'"
proof -
  have u: "unanswered c' k a" if "unanswered c k a" for k a
    using that same_nth [OF assms(1)] same_length [OF assms(1)] woken_fields unfolding unanswered_def by (metis call_wait.distinct(1))
  have "cs_pending c' = cs_pending c" "br_acks c' = br_acks c" using assms(1) by (simp_all add: same_calls_def)
  then show ?thesis using assms(2) u unfolding calls_ok_def by auto
qed

lemma live_at_same:
  assumes "same_calls c c'" and "live_at c j" and "j < length (cl_calls c)"
  shows "live_at c' j"
proof -
  have w: "woken (cl_calls c ! j) (cl_calls c' ! j)" by (rule same_nth [OF assms(1,3)])
  have p: "cs_pending c' = cs_pending c" "br_requests c' = br_requests c" using assms(1) by (simp_all add: same_calls_def)
  show ?thesis using assms(2) woken_fields [OF w] p by (cases "ct_wait (cl_calls c ! j) = WaitInit") (simp_all add: live_at_def)
qed

lemma live_same: "same_calls c c' \<Longrightarrow> calls_live c \<Longrightarrow> calls_live c'"
  using live_at_same same_length by (simp add: calls_live_def)

lemma settle_nth: "k < length ts \<Longrightarrow> settle_call p v ts ! k =
    (if k = fst p \<and> ct_wait (ts ! k) = WaitSocket \<and> ct_attempt (ts ! k) = snd p then answer_call v (ts ! k) else ts ! k)"
  by (cases "k = fst p") (auto simp: settle_call_def Let_def)

lemma settle_length [simp]: "length (settle_call p v ts) = length ts"
  by (simp add: settle_call_def Let_def)

lemma answer_fields [simp]: "ct_wait (answer_call v t) = ct_wait t" "ct_attempt (answer_call v t) = ct_attempt t"
  "ct_options (answer_call v t) = ct_options t" "answer_call v (answer_call v' t) = answer_call v' t" "ct_answer (answer_call v t) \<noteq> None"
  "ct_method (answer_call v t) = ct_method t" "ct_params (answer_call v t) = ct_params t"
  by (auto simp: answer_call_def)

lemma fold_settle:
  "k < length ts \<Longrightarrow> length (foldl (\<lambda>ts (_, p). settle_call p v ts) ts ps) = length ts \<and> foldl (\<lambda>ts (_, p). settle_call p v ts) ts ps ! k =
    (if ct_wait (ts ! k) = WaitSocket \<and> (k, ct_attempt (ts ! k)) \<in> snd ` set ps then answer_call v (ts ! k) else ts ! k)"
proof (induction ps arbitrary: ts)
  case (Cons q ps)
  obtain u p where q: "q = (u, p)" by (cases q)
  have "k < length (settle_call p v ts)" using Cons.prems by simp
  then show ?case using Cons.IH [of "settle_call p v ts"] Cons.prems by (auto simp: q settle_nth)
qed simp

lemma fold_settle_length: "length (foldl (\<lambda>ts (_, p). settle_call p v ts) ts ps) = length ts"
  by (induction ps arbitrary: ts) (auto split: prod.splits)

lemma rejected_nth:
  assumes "k < length (cl_calls c)"
  shows "cl_calls (rejectAllPending reason c) ! k =
    (if ct_wait (cl_calls c ! k) = WaitSocket \<and> (k, ct_attempt (cl_calls c ! k)) \<in> snd ` set (cs_pending c)
     then answer_call (Inl (Reason (Error reason))) (cl_calls c ! k) else cl_calls c ! k)"
  using fold_settle [OF assms, of "Inl (Reason (Error reason))" "cs_pending c"] by (simp add: rejectAllPending_def)

lemma acks_cleared:
  assumes "calls_ok c"
  shows "filter (\<lambda>(k, _). \<not> jm_has (cs_pending c) k) (br_acks c) = []"
proof -
  have e: "set (br_acks c) = set (cs_pending c)" using assms by (simp add: calls_ok_def)
  have "jm_has (cs_pending c) u" if "(u, p) \<in> set (br_acks c)" for u p
    using imageI [OF that, of fst] e by (simp add: jm_has_iff)
  then show ?thesis by (auto simp: filter_empty_conv)
qed

lemma ok_reject: "calls_ok c \<Longrightarrow> calls_ok (rejectAllPending reason c)"
  using acks_cleared [of c] by (simp add: calls_ok_def rejectAllPending_def)

lemma ok_clear: "calls_ok c \<Longrightarrow> calls_ok (clearAllPending c)"
  using acks_cleared [of c] by (simp add: calls_ok_def clearAllPending_def)

lemma live_reject:
  assumes "calls_ok c" and "calls_live c"
  shows "calls_live (rejectAllPending reason c)"
  unfolding calls_live_def
proof (intro allI impI)
  fix k assume "k < length (cl_calls (rejectAllPending reason c))"
  then have k: "k < length (cl_calls c)" by (simp add: rejectAllPending_def fold_settle_length)
  have l: "live_at c k" using assms(2) k by (simp add: calls_live_def)
  have "(k, ct_attempt (cl_calls c ! k)) \<in> snd ` set (cs_pending c)" if "(u, k, a) \<in> set (cs_pending c)" for u a
    using assms(1) that unfolding calls_ok_def unanswered_def by force
  then have p: "(k, ct_attempt (cl_calls c ! k)) \<in> snd ` set (cs_pending c)"
    if "ct_wait (cl_calls c ! k) = WaitSocket" "ct_answer (cl_calls c ! k) = None" using l that unfolding live_at_def by blast
  have "br_requests (rejectAllPending reason c) = br_requests c" by (simp add: rejectAllPending_def)
  then show "live_at (rejectAllPending reason c) k"
    using l p by (auto simp: live_at_def rejected_nth [OF k] answer_call_def)
qed

lemma lost_inv: "loses_calls c c' \<Longrightarrow> calls_ok c \<Longrightarrow> calls_ok c' \<and> (calls_live c \<longrightarrow> calls_live c')"
  by (induction rule: loses_calls.induct) (auto intro: ok_same live_same ok_reject live_reject)


section \<open>Answers\<close>

definition settled_state :: "string \<Rightarrow> promise \<Rightarrow> settlement \<Rightarrow> client \<Rightarrow> client" where
  "settled_state u p v c = c\<lparr>cs_pending := jm_delete u (cs_pending c), br_acks := remove1 (u, p) (br_acks c), cl_calls := settle_call p v (cl_calls c)\<rparr>"

lemma settled_calls:
  assumes "calls_ok c" and "(u, k, a) \<in> set (cs_pending c)"
  shows "cl_calls (settled_state u (k, a) v c) = (cl_calls c)[k := (cl_calls c ! k)\<lparr>ct_answer := Some v\<rparr>]"
proof -
  have "unanswered c k a" using assms by (auto simp: calls_ok_def)
  then show ?thesis by (simp add: settled_state_def settle_call_def unanswered_def answer_call_def)
qed

lemma settled_pending: "calls_ok c \<Longrightarrow> set (cs_pending (settled_state u p v c)) = {e \<in> set (cs_pending c). fst e \<noteq> u}"
  by (simp add: settled_state_def jm_delete_set)

lemma settled_ok:
  assumes ok: "calls_ok c" and p: "(u, k, a) \<in> set (cs_pending c)"
  shows "calls_ok (settled_state u (k, a) v c)"
proof -
  let ?c = "settled_state u (k, a) v c"
  have wf: "jm_wf (cs_pending c)" "distinct (map fst (br_acks c))" "set (br_acks c) = set (cs_pending c)" using ok by (simp_all add: calls_ok_def)
  have "distinct (br_acks c)" using wf(2) by (simp add: distinct_map)
  then have "set (remove1 (u, k, a) (br_acks c)) = set (cs_pending c) - {(u, k, a)}" using wf(3) by simp
  also have "\<dots> = {e \<in> set (cs_pending c). fst e \<noteq> u}" using wf(1) p jm_wf_lookup [OF wf(1)] by force
  finally have acks: "set (br_acks ?c) = set (cs_pending ?c)" using settled_pending [OF ok] by (simp add: settled_state_def)
  have un: "unanswered ?c k' a'" if "(u', k', a') \<in> set (cs_pending ?c)" for u' k' a'
  proof -
    have q: "(u', k', a') \<in> set (cs_pending c)" "u' \<noteq> u" using that settled_pending [OF ok] by auto
    then have "k' \<noteq> k" using ok p unfolding calls_ok_def by blast
    moreover have "unanswered c k' a'" using ok q(1) by (auto simp: calls_ok_def)
    ultimately show ?thesis by (simp add: unanswered_def settled_calls [OF ok p])
  qed
  have dist: "u' = u''" if "(u', k', a') \<in> set (cs_pending ?c)" "(u'', k', a'') \<in> set (cs_pending ?c)" for u' u'' k' a' a''
  proof -
    have "(u', k', a') \<in> set (cs_pending c)" "(u'', k', a'') \<in> set (cs_pending c)" using that settled_pending [OF ok] by auto
    then show ?thesis using ok unfolding calls_ok_def by blast
  qed
  have "jm_wf (cs_pending ?c)" using wf(1) by (simp add: settled_state_def)
  moreover have "distinct (map fst (br_acks ?c))" using wf(2) by (simp add: settled_state_def distinct_map inj_on_def)
  ultimately show ?thesis unfolding calls_ok_def using acks un dist by blast
qed

lemma settled_live:
  assumes ok: "calls_ok c" and "calls_live c" and p: "(u, k, a) \<in> set (cs_pending c)"
  shows "calls_live (settled_state u (k, a) v c)"
  unfolding calls_live_def
proof (intro allI impI)
  let ?c = "settled_state u (k, a) v c"
  fix j assume "j < length (cl_calls ?c)"
  then have j: "j < length (cl_calls c)" by (simp add: settled_calls [OF ok p])
  then have l: "live_at c j" using assms(2) by (simp add: calls_live_def)
  show "live_at ?c j"
  proof (cases "j = k")
    case True
    then show ?thesis using l j by (simp add: live_at_def settled_calls [OF ok p])
  next
    case False
    have "(u', j, a') \<in> set (cs_pending ?c)" if "(u', j, a') \<in> set (cs_pending c)" for u' a'
    proof -
      have "u' \<noteq> u" using that p False ok unfolding calls_ok_def by (metis jm_wf_lookup option.inject prod.inject)
      then show ?thesis using that settled_pending [OF ok] by simp
    qed
    moreover have "br_requests ?c = br_requests c" by (simp add: settled_state_def)
    ultimately show ?thesis using l False unfolding live_at_def settled_calls [OF ok p] by (metis nth_list_update_neq)
  qed
qed

text \<open>Answers to waits that are not for the socket.\<close>

lemma ok_update:
  assumes "calls_ok c" and "\<And>u a. (u, k, a) \<notin> set (cs_pending c)"
  shows "calls_ok (update_call k f c)"
proof -
  have "unanswered (update_call k f c) j a" if "(u, j, a) \<in> set (cs_pending c)" for u j a
  proof -
    have "j \<noteq> k" using that assms(2) by blast
    moreover have "unanswered c j a" using assms(1) that by (auto simp: calls_ok_def)
    ultimately show ?thesis by (simp add: unanswered_def update_call_def)
  qed
  then show ?thesis using assms(1) unfolding calls_ok_def by (simp add: update_call_def)
qed

lemma live_update:
  assumes "calls_live c" and "k < length (cl_calls c) \<Longrightarrow> live_at (update_call k f c) k"
  shows "calls_live (update_call k f c)"
  unfolding calls_live_def
proof (intro allI impI)
  fix j assume j: "j < length (cl_calls (update_call k f c))"
  show "live_at (update_call k f c) j"
  proof (cases "j = k")
    case True
    then show ?thesis using assms(2) j by (simp add: update_call_def)
  next
    case False
    then show ?thesis using assms(1) j by (simp add: calls_live_def live_at_def update_call_def)
  qed
qed

lemma not_pending: "calls_ok c \<Longrightarrow> ct_wait (cl_calls c ! k) \<noteq> WaitSocket \<or> ct_answer (cl_calls c ! k) \<noteq> None \<Longrightarrow> (u, k, a) \<notin> set (cs_pending c)"
  by (auto simp: calls_ok_def unanswered_def)

lemma answer_inv:
  assumes "calls_ok c" and "ct_wait (cl_calls c ! k) \<noteq> WaitSocket"
  shows "calls_ok (update_call k (answer_call v) c)" and "calls_live c \<Longrightarrow> calls_live (update_call k (answer_call v) c)"
proof -
  show "calls_ok (update_call k (answer_call v) c)" using ok_update [OF assms(1)] not_pending [OF assms(1)] assms(2) by blast
  show "calls_live (update_call k (answer_call v) c)" if "calls_live c"
    by (rule live_update [OF that]) (use that in \<open>simp add: calls_live_def live_at_def update_call_def\<close>)
qed


lemma reply_inv:
  assumes "calls_ok c" and "k < length (cl_calls c)"
  shows "calls_ok (http_reply k reply c)" and "calls_live c \<Longrightarrow> calls_live (http_reply k reply c)"
proof -
  define d where "d = (let c1 = c\<lparr>br_requests := filter (\<lambda>(j, _). j \<noteq> k) (br_requests c)\<rparr> in
    case reply of HttpReply status _ _ (Inr v) \<Rightarrow> if status = 200 then client_emit ''inbound:message'' v c1 else c1 | _ \<Rightarrow> c1)"
  let ?c1 = "c\<lparr>br_requests := filter (\<lambda>(j, _). j \<noteq> k) (br_requests c)\<rparr>"
  let ?f = "\<lambda>t. if ct_wait t = WaitHttp then answer_call (http_settlement reply) t else t"
  have r: "http_reply k reply c = update_call k ?f d" by (simp add: http_reply_def d_def Let_def)
  have s: "same_calls ?c1 d" by (auto simp: d_def Let_def split: http_reply.splits sum.splits)
  have "calls_ok ?c1" using assms(1) by (simp add: calls_ok_def unanswered_def)
  then have ok: "calls_ok d" using ok_same s by blast
  show "calls_ok (http_reply k reply c)"
  proof (cases "ct_wait (cl_calls d ! k) = WaitHttp")
    case True
    then show ?thesis unfolding r using ok_update [OF ok] not_pending [OF ok] by simp
  next
    case False
    then have "update_call k ?f d = d" by (simp add: update_call_def)
    then show ?thesis unfolding r using ok by simp
  qed
  show "calls_live (http_reply k reply c)" if live: "calls_live c"
    unfolding calls_live_def
  proof (intro allI impI)
    fix j assume "j < length (cl_calls (http_reply k reply c))"
    then have j: "j < length (cl_calls c)" using same_length [OF s] by (simp add: r update_call_def)
    have l: "live_at c j" using live j by (simp add: calls_live_def)
    have w: "woken (cl_calls c ! j) (cl_calls d ! j)" using same_nth [OF s] j by simp
    have p: "cs_pending d = cs_pending c" "br_requests d = filter (\<lambda>(j, _). j \<noteq> k) (br_requests c)" using s by (simp_all add: same_calls_def)
    have "j \<in> fst ` set (br_requests d) \<longleftrightarrow> j \<in> fst ` set (br_requests c)" if "j \<noteq> k" using that unfolding p by force
    then show "live_at (http_reply k reply c) j"
      using l woken_fields [OF w] p(1) j same_length [OF s]
      by (cases "j = k") (auto simp: live_at_def r update_call_def)
  qed
qed

text \<open>The call \<open>k\<close> as \<open>emitWithAck\<close> leaves it: filed under its identifier, or refused without an open socket.\<close>

definition asking :: "nat \<Rightarrow> client \<Rightarrow> client" where
  "asking k c = update_call k (\<lambda>t. t\<lparr>ct_wait := WaitSocket, ct_answer := None\<rparr>) c"

definition asked :: "string \<Rightarrow> nat \<Rightarrow> client \<Rightarrow> client" where
  "asked uuid k c = (let p = (k, ct_attempt (cl_calls c ! k)); d = asking k c in
     d\<lparr>br_acks := br_acks d @ [(uuid, p)], cs_pending := jm_set uuid p (cs_pending d)\<rparr>)"

definition turned_down :: "nat \<Rightarrow> client \<Rightarrow> client" where
  "turned_down k c = update_call k (answer_call (Inl (Reason (Error ''Socket not ready'')))) (asking k c)"

lemma asking_fields:
  "length (cl_calls (asking k c)) = length (cl_calls c)" "cs_pending (asking k c) = cs_pending c" "br_acks (asking k c) = br_acks c"
  "k < length (cl_calls c) \<Longrightarrow> cl_calls (asking k c) ! k = (cl_calls c ! k)\<lparr>ct_wait := WaitSocket, ct_answer := None\<rparr>"
  "j \<noteq> k \<Longrightarrow> cl_calls (asking k c) ! j = cl_calls c ! j" "br_requests (asking k c) = br_requests c"
  by (simp_all add: asking_def update_call_def)

lemma ack_cases:
  assumes "k < length (cl_calls c)"
  shows "emitWithAck h uuid k c = turned_down k c \<or> same_calls (asked uuid k c) (emitWithAck h uuid k c)"
proof (cases "ready (asking k c)")
  case True
  then obtain w where w: "cs_socket (asking k c) = Some w" "ws_state (socket_at (asking k c) w) = Open"
    by (auto simp: ready_def split: option.splits)
  then have o: "ws_state (socket_at (asked uuid k c) w) = Open" by (simp add: asked_def Let_def)
  have "\<exists>d. socket_send h w p (asked uuid k c) = Inr d" for p using stringify_total [of h False p] o by (auto simp: socket_send_def)
  then obtain d where d: "socket_send h w (rpc_frame uuid (ct_method (cl_calls c ! k)) (ct_params (cl_calls c ! k))) (asked uuid k c) = Inr d" by blast
  have "emitWithAck h uuid k c = d"
    using w True d assms by (simp add: emitWithAck_def Let_def asking_def [symmetric] asking_fields asked_def)
  then show ?thesis using same_send [OF d] by simp
next
  case False
  then show ?thesis by (simp add: emitWithAck_def Let_def asking_def [symmetric] turned_down_def split: option.splits)
qed

lemma ack_ok:
  assumes ok: "calls_ok c" and k: "k < length (cl_calls c)" and free: "\<And>u a. (u, k, a) \<notin> set (cs_pending c)" and fresh: "\<not> jm_has (cs_pending c) uuid"
  shows "calls_ok (emitWithAck h uuid k c)"
proof -
  have ok0: "calls_ok (asking k c)" unfolding asking_def by (rule ok_update [OF ok free])
  have down: "calls_ok (turned_down k c)" unfolding turned_down_def by (rule ok_update [OF ok0]) (simp add: asking_fields free)
  let ?c = "asked uuid k c"
  have p: "cs_pending ?c = cs_pending c @ [(uuid, k, ct_attempt (cl_calls c ! k))]"
    using fresh by (simp add: asked_def Let_def asking_fields jm_set_fresh jm_has_iff)
  have "unanswered ?c j a" if "(u, j, a) \<in> set (cs_pending ?c)" for u j a
  proof (cases "(u, j, a) \<in> set (cs_pending c)")
    case True
    then have "unanswered (asking k c) j a" using ok0 by (auto simp: calls_ok_def asking_fields)
    then show ?thesis by (simp add: unanswered_def asked_def Let_def)
  next
    case False
    then show ?thesis using that k by (auto simp: p unanswered_def) (auto simp: asked_def Let_def asking_fields)
  qed
  moreover have "u = u'" if "(u, j, a) \<in> set (cs_pending ?c)" "(u', j, a') \<in> set (cs_pending ?c)" for u u' j a a'
  proof (cases "j = k")
    case True
    then show ?thesis using that free by (auto simp: p)
  next
    case False
    then have "(u, j, a) \<in> set (cs_pending c)" "(u', j, a') \<in> set (cs_pending c)" using that by (auto simp: p)
    then show ?thesis using ok unfolding calls_ok_def by blast
  qed
  moreover have "jm_wf (cs_pending ?c)" "distinct (map fst (br_acks ?c))" "set (br_acks ?c) = set (cs_pending ?c)"
    using ok fresh by (auto simp: asked_def Let_def asking_fields calls_ok_def jm_has_iff jm_set_fresh jm_wf_def)
  ultimately have "calls_ok ?c" unfolding calls_ok_def by blast
  then show ?thesis using ack_cases [OF k] down ok_same by metis
qed

lemma ack_live:
  assumes k: "k < length (cl_calls c)" and fresh: "\<not> jm_has (cs_pending c) uuid"
    and others: "\<And>j. j < length (cl_calls c) \<Longrightarrow> j \<noteq> k \<Longrightarrow> live_at c j"
    and b: "ct_attempt (cl_calls c ! k) \<le> co_maxRetries (ct_options (cl_calls c ! k))"
  shows "calls_live (emitWithAck h uuid k c)"
proof -
  have p: "cs_pending (asked uuid k c) = cs_pending c @ [(uuid, k, ct_attempt (cl_calls c ! k))]"
    using fresh by (simp add: asked_def Let_def asking_fields jm_set_fresh jm_has_iff)
  have f: "cl_calls (asked uuid k c) = cl_calls (asking k c)" "br_requests (asked uuid k c) = br_requests c"
    "br_requests (turned_down k c) = br_requests c" "cs_pending (turned_down k c) = cs_pending c"
    "length (cl_calls (turned_down k c)) = length (cl_calls c)" "j \<noteq> k \<Longrightarrow> cl_calls (turned_down k c) ! j = cl_calls c ! j"
    "ct_answer (cl_calls (turned_down k c) ! k) \<noteq> None" "ct_wait (cl_calls (turned_down k c) ! k) = WaitSocket"
    "ct_attempt (cl_calls (turned_down k c) ! k) = ct_attempt (cl_calls c ! k)" "ct_options (cl_calls (turned_down k c) ! k) = ct_options (cl_calls c ! k)" for j
    using k by (simp_all add: asked_def turned_down_def update_call_def Let_def asking_fields)
  have "live_at (asked uuid k c) j \<and> live_at (turned_down k c) j" if j: "j < length (cl_calls c)" for j
  proof (cases "j = k")
    case True
    then show ?thesis using b k f by (auto simp: live_at_def p asking_fields)
  next
    case False
    then show ?thesis using others [OF j False] f by (auto simp: live_at_def p asking_fields)
  qed
  then have "calls_live (asked uuid k c) \<and> calls_live (turned_down k c)" using f by (simp add: calls_live_def asking_fields)
  then show ?thesis using ack_cases [OF k] live_same by metis
qed


text \<open>A call that runs: \<open>executeCall\<close> on a task that waits for nothing.\<close>

definition runnable :: "string \<Rightarrow> nat \<Rightarrow> client \<Rightarrow> bool" where
  "runnable uuid k c \<longleftrightarrow> calls_ok c \<and> k < length (cl_calls c) \<and> (\<forall>u a. (u, k, a) \<notin> set (cs_pending c)) \<and> \<not> jm_has (cs_pending c) uuid"

definition live_but :: "nat \<Rightarrow> client \<Rightarrow> bool" where
  "live_but k c \<longleftrightarrow> (\<forall>j < length (cl_calls c). j \<noteq> k \<longrightarrow> live_at c j) \<and>
     ct_attempt (cl_calls c ! k) \<le> co_maxRetries (ct_options (cl_calls c ! k))"

lemma runnable_same: "same_calls c d \<Longrightarrow> runnable uuid k c \<Longrightarrow> runnable uuid k d"
  using ok_same same_length by (auto simp: runnable_def same_calls_def dest: list_all2_lengthD)

lemma live_but_same: "same_calls c d \<Longrightarrow> k < length (cl_calls c) \<Longrightarrow> live_but k c \<Longrightarrow> live_but k d"
proof -
  assume s: "same_calls c d" and k: "k < length (cl_calls c)" and l: "live_but k c"
  have "live_at d j" if "j < length (cl_calls d)" "j \<noteq> k" for j
    using live_at_same [OF s] l that same_length [OF s] by (simp add: live_but_def)
  then show "live_but k d" using l woken_fields [OF same_nth [OF s k]] by (simp add: live_but_def)
qed

lemma execute_inv:
  assumes "runnable uuid k c"
  shows "calls_ok (executeCall h uuid k c)" and "live_but k c \<Longrightarrow> calls_live (executeCall h uuid k c)"
proof -
  define d where "d = client_emit ''outbound:message'' (JObj [(''method'', JStr (ct_method (cl_calls c ! k))), (''params'', ct_params (cl_calls c ! k))]) c"
  have s: "same_calls c d" by (simp add: d_def)
  then have r: "runnable uuid k d" using runnable_same assms by blast
  then have k: "calls_ok d" "k < length (cl_calls d)" "\<And>u a. (u, k, a) \<notin> set (cs_pending d)" "\<not> jm_has (cs_pending d) uuid"
    by (auto simp: runnable_def)
  define e where "e = d\<lparr>br_requests := br_requests d @ [(k, request_body d (method_payload uuid (cl_calls c ! k)))]\<rparr>"
  let ?f = "\<lambda>t. t\<lparr>ct_wait := WaitHttp, ct_answer := None\<rparr>"
  have x: "executeCall h uuid k c = (if co_http (ct_options (cl_calls c ! k)) \<or> (\<not> ready d \<and> co_httpFallback (ct_options (cl_calls c ! k)))
      then update_call k ?f e else emitWithAck h uuid k d)"
    by (simp add: executeCall_def d_def e_def Let_def)
  have "calls_ok e" using k(1) by (simp add: e_def calls_ok_def unanswered_def)
  then have "calls_ok (update_call k ?f e)" by (rule ok_update) (simp add: e_def k(3))
  then show "calls_ok (executeCall h uuid k c)" unfolding x using ack_ok [OF k] by simp
  assume "live_but k c"
  then have l: "live_but k d" using live_but_same s assms by (auto simp: runnable_def)
  have "live_at (update_call k ?f e) j" if "j < length (cl_calls d)" for j
    using l that k(2) by (cases "j = k") (auto simp: live_but_def live_at_def update_call_def e_def)
  then have "calls_live (update_call k ?f e)" by (simp add: calls_live_def update_call_def e_def)
  then show "calls_live (executeCall h uuid k c)" unfolding x using ack_live [OF k(2,4)] l by (auto simp: live_but_def)
qed

lemma call_inv:
  assumes "calls_ok c" and "\<not> jm_has (cs_pending c) uuid"
  shows "calls_ok (client_call h uuid method params opts c)" and "calls_live c \<Longrightarrow> calls_live (client_call h uuid method params opts c)"
proof -
  let ?k = "length (cl_calls c)"
  define d where "d = c\<lparr>cl_calls := cl_calls c @ [\<lparr>ct_method = method, ct_params = params, ct_options = opts, ct_attempt = 0,
                   ct_wait = WaitInit, ct_answer = None\<rparr>]\<rparr>"
  have x: "client_call h uuid method params opts c = (if \<not> co_ignoreInit opts \<and> \<not> cl_initialized c then d else executeCall h uuid ?k d)"
    by (simp add: client_call_def d_def Let_def)
  have "unanswered d j a" if "unanswered c j a" for j a using that by (simp add: d_def unanswered_def nth_append)
  then have ok: "calls_ok d" using assms(1) unfolding calls_ok_def by (simp add: d_def)
  have "(u, ?k, a) \<notin> set (cs_pending c)" for u a using assms(1) by (auto simp: calls_ok_def unanswered_def)
  then have r: "runnable uuid ?k d" using ok assms(2) by (simp add: runnable_def d_def)
  show "calls_ok (client_call h uuid method params opts c)" unfolding x using ok execute_inv(1) [OF r] by simp
  assume l: "calls_live c"
  have "live_at d j" if "j < Suc ?k" for j using that l by (auto simp: live_at_def d_def nth_append calls_live_def less_Suc_eq)
  then have "calls_live d" by (simp add: calls_live_def d_def)
  moreover then have "live_but ?k d" by (simp add: live_but_def calls_live_def live_at_def d_def)
  ultimately show "calls_live (client_call h uuid method params opts c)" unfolding x using execute_inv(2) [OF r] by simp
qed

lemma resume_inv:
  assumes ok: "calls_ok c" and k: "k < length (cl_calls c)" and fresh: "\<not> jm_has (cs_pending c) uuid"
  shows "calls_ok (resume_call h uuid k c)" and "calls_live c \<Longrightarrow> calls_live (resume_call h uuid k c)"
proof -
  let ?t = "cl_calls c ! k"
  consider "ct_answer ?t = None" | v where "ct_answer ?t = Some v" by (cases "ct_answer ?t") auto
  then have "calls_ok (resume_call h uuid k c) \<and> (calls_live c \<longrightarrow> calls_live (resume_call h uuid k c))"
  proof cases
    case 1
    then show ?thesis using ok by (simp add: resume_call_def)
  next
    case (2 v)
    have free: "(u, k, a) \<notin> set (cs_pending c)" for u a using not_pending [OF ok] 2 by simp
    have u: "calls_ok (update_call k f c)" for f using ok_update [OF ok] free by blast
    have r: "runnable uuid k c" "runnable uuid k (update_call k f c)" for f
      using ok u k free fresh by (auto simp: runnable_def) (auto simp: update_call_def)
    have lb: "live_but k c" if "calls_live c" using that k by (auto simp: live_but_def calls_live_def live_at_def)
    have lr: "live_but k (update_call k (\<lambda>t. t\<lparr>ct_attempt := Suc (ct_attempt t)\<rparr>) c)" if "calls_live c" "ct_wait ?t = WaitRetry"
      using that k by (auto simp: live_but_def calls_live_def live_at_def update_call_def)
    have ld: "calls_live (update_call k (\<lambda>t. t\<lparr>ct_wait := CallDone s\<rparr>) c)" if "calls_live c" for s
      by (rule live_update [OF that]) (use that in \<open>simp add: calls_live_def live_at_def update_call_def\<close>)
    have lw: "calls_live (update_call k (\<lambda>t. t\<lparr>ct_wait := WaitRetry, ct_answer := None\<rparr>) c)"
      if "calls_live c" "\<not> ct_attempt ?t \<ge> co_maxRetries (ct_options ?t)"
      by (rule live_update [OF that(1)]) (use that in \<open>simp add: calls_live_def live_at_def update_call_def\<close>)
    show ?thesis using ok u lb lr ld lw execute_inv [OF r(1)] execute_inv [OF r(2)]
      by (simp add: resume_call_def 2 Let_def split: sum.splits call_wait.splits)
  qed
  then show "calls_ok (resume_call h uuid k c)" "calls_live c \<Longrightarrow> calls_live (resume_call h uuid k c)" by blast+
qed


section \<open>Steps\<close>

lemma ok_close: "calls_ok c \<Longrightarrow> calls_ok (close_socket c)"
proof -
  let ?c = "clearReconnectTimer (c\<lparr>cs_stopped := True, cs_connecting := False\<rparr>)"
  assume "calls_ok c"
  moreover have "same_calls c ?c" by (rule same_calls_trans [OF _ same_rec(5)]) (rule same_calls_eq; simp)
  ultimately have "calls_ok (clearAllPending ?c)" using ok_same ok_clear by blast
  then have k: "calls_ok d" if "same_calls (clearAllPending ?c) d" for d using ok_same that by blast
  have e: "calls_ok (client_emit e v (clearAllPending ?c))" for e v by (rule k) simp
  have n: "calls_ok (client_emit e v ((clearAllPending ?c)\<lparr>cs_socket := None\<rparr>))" for e v by (rule k [OF same_emitted [OF same_update(16)]])
  have s: "calls_ok (socket_close w ((clearAllPending ?c)\<lparr>br_closing := x\<rparr>))" for w x
    by (rule k [OF same_calls_trans [OF same_update(14) same_rec(4)]])
  show ?thesis using e n s by (simp add: close_socket_def Let_def split: option.splits)
qed

lemma ok_client_close: "calls_ok c \<Longrightarrow> calls_ok (client_close c)"
proof -
  assume ok: "calls_ok c"
  have e: "same_calls c (client_emit ''client:close'' JUndef c)" by simp
  have i: "same_calls d (idle_destroy d)" for d unfolding idle_destroy_def by (rule same_calls_trans [OF same_rec(12) same_update(24)])
  have "same_calls (abort_current d) (vm_destroy d)" for d by (rule same_calls_eq) (simp_all add: vm_destroy_def)
  then have v: "same_calls d (vm_destroy d)" for d using same_calls_trans [OF same_rec(7)] by blast
  have "same_calls c (vm_destroy (if b then idle_destroy (client_emit ''client:close'' JUndef c) else client_emit ''client:close'' JUndef c))" for b
    using same_calls_trans [OF e v] same_calls_trans [OF same_calls_trans [OF e i] v] by simp
  then show ?thesis unfolding client_close_def Let_def using ok_close ok_same ok by blast
qed

definition response_value :: "host \<Rightarrow> jsval \<Rightarrow> settlement" where
  "response_value h msg = (if truthy (get_prop msg ''error'') then Inl (Reason (Error (js_string h (get_prop msg ''error''))))
     else Inr (get_prop msg ''result''))"

lemma response_cases: "handleRpcResponse h msg c = (case get_prop msg ''id'' of
    JStr u \<Rightarrow> (case jm_get (cs_pending c) u of None \<Rightarrow> c | Some p \<Rightarrow> settled_state u p (response_value h msg) c) | _ \<Rightarrow> c)"
  unfolding handleRpcResponse_def settled_state_def response_value_def ..

lemma message_inv:
  assumes "calls_ok c"
  shows "calls_ok (handleMessage_client h ct same decoded c)" and "calls_live c \<Longrightarrow> calls_live (handleMessage_client h ct same decoded c)"
proof -
  have r: "handleRpcResponse h msg c = c \<or>
      (\<exists>u p v. (u, p) \<in> set (cs_pending c) \<and> handleRpcResponse h msg c = settled_state u p v c)" for msg
    unfolding response_cases using map_of_SomeD by (fastforce split: jsval.splits option.splits)
  have rs: "calls_ok (handleRpcResponse h msg c) \<and> (calls_live c \<longrightarrow> calls_live (handleRpcResponse h msg c))" for msg
    using r [of msg] settled_ok [OF assms] settled_live [OF assms] assms by (metis prod.collapse)
  have "same_calls c (handleTypedAuth h ct same msg c)" for msg
    unfolding handleTypedAuth_def by (rule same_calls_trans [OF same_update(4) same_initialize])
  then have a: "calls_ok (handleTypedAuth h ct same msg c) \<and> (calls_live c \<longrightarrow> calls_live (handleTypedAuth h ct same msg c))" for msg
    using ok_same live_same assms by blast
  have e: "calls_ok (handleEvent_client msg c) \<and> (calls_live c \<longrightarrow> calls_live (handleEvent_client msg c))" for msg
    using same_event ok_same live_same assms by blast
  have p: "calls_ok c' \<and> (calls_live c \<longrightarrow> calls_live c')" if "socket_send h w q c = Inr c'" for w q c'
    using same_send [OF that] ok_same live_same assms by blast
  have "calls_ok (handleMessage_client h ct same decoded c) \<and> (calls_live c \<longrightarrow> calls_live (handleMessage_client h ct same decoded c))"
    using rs a e p assms by (auto simp: handleMessage_client_def split: sum.splits option.splits)
  then show "calls_ok (handleMessage_client h ct same decoded c)" "calls_live c \<Longrightarrow> calls_live (handleMessage_client h ct same decoded c)" by blast+
qed

definition closing :: "client_label \<Rightarrow> bool" where
  "closing l = (case l of AppClose \<Rightarrow> True | IdleTimer _ \<Rightarrow> True | PageHidden b _ \<Rightarrow> b | _ \<Rightarrow> False)"

definition keeps_calls :: "client \<Rightarrow> client \<Rightarrow> bool" where
  "keeps_calls c c' \<longleftrightarrow> calls_ok c' \<and> (calls_live c \<longrightarrow> calls_live c')"

lemma keeps_lost: "calls_ok c \<Longrightarrow> loses_calls c c' \<Longrightarrow> keeps_calls c c'"
  using lost_inv by (simp add: keeps_calls_def)

lemma keeps_same: "calls_ok c \<Longrightarrow> same_calls c c' \<Longrightarrow> keeps_calls c c'"
  by (rule keeps_lost [OF _ loses_same])

lemma keeps_then: "keeps_calls c d \<Longrightarrow> same_calls d e \<Longrightarrow> keeps_calls c e"
  using ok_same live_same by (auto simp: keeps_calls_def)

lemma keeps_frame: "calls_ok c \<Longrightarrow> keeps_calls c (client_step h ct same (Frame w decoded) c)"
proof -
  assume ok: "calls_ok c"
  have "keeps_calls c (on_active w (handleMessage_client h ct same decoded) c)"
    using ok message_inv [OF ok] by (simp add: on_active_def keeps_calls_def)
  then show ?thesis using keeps_then [OF _ same_rec(1)] by (cases decoded) (simp_all add: Let_def)
qed

lemma ack_settled: "ack_timeout uuid p c = settled_state uuid p (Inl (Reason (Error ''Acknowledgment timeout''))) c"
  by (simp add: ack_timeout_def settled_state_def)

lemma keeps_ack: "calls_ok c \<Longrightarrow> (uuid, p) \<in> set (br_acks c) \<Longrightarrow> keeps_calls c (ack_timeout uuid p c)"
proof -
  assume ok: "calls_ok c" and p: "(uuid, p) \<in> set (br_acks c)"
  obtain k a where ka: "p = (k, a)" by (cases p)
  have q: "(uuid, k, a) \<in> set (cs_pending c)" using ok p ka by (simp add: calls_ok_def)
  show ?thesis using settled_ok [OF ok q] settled_live [OF ok _ q] by (simp add: keeps_calls_def ack_settled ka)
qed

lemma keeps_commit:
  assumes "calls_ok c" and "\<not> jm_has (cs_pending c) uuid"
  shows "keeps_calls c (commitPendingSubscriptions h uuid name c)" "keeps_calls c (commitPendingUnsubscriptions h uuid name c)"
proof -
  have "keeps_calls c (client_call h uuid m q o' (update_channel name f c))" for m q o' f
  proof -
    have s: "same_calls c (update_channel name f c)" by simp
    then have "\<not> jm_has (cs_pending (update_channel name f c)) uuid" using assms(2) by (simp add: same_calls_def)
    then show ?thesis using call_inv [of "update_channel name f c"] ok_same [OF s assms(1)] live_same [OF s] by (simp add: keeps_calls_def)
  qed
  then show "keeps_calls c (commitPendingSubscriptions h uuid name c)" "keeps_calls c (commitPendingUnsubscriptions h uuid name c)"
    using keeps_same [OF assms(1) same_rec(10)] by (simp_all add: commitPendingSubscriptions_def commitPendingUnsubscriptions_def Let_def)
qed


lemma keeps_close:
  assumes "calls_ok c" and "same_calls c d"
  shows "calls_ok (client_close d)"
  using ok_client_close ok_same assms by blast

lemma same_open: "same_calls c (on_active w handleOpen (update_socket w f c))"
proof -
  have "same_calls d (handleOpen d)" for d unfolding handleOpen_def
    by (rule same_calls_trans [OF same_emit]) (rule same_calls_eq; simp)
  then have "same_calls d (on_active w handleOpen d)" for d by (simp add: on_active_def)
  then show ?thesis using same_calls_trans [OF same_rec(3)] by blast
qed

lemma same_error: "same_calls c (recoveries_at P b (on_active w handleSocketError c))"
proof -
  have "same_calls c (handleSocketError c)" unfolding handleSocketError_def by (rule same_emitted [OF same_update(15)])
  then show ?thesis using same_calls_trans [OF _ same_rec(1)] by (simp add: on_active_def)
qed

lemma same_void: "same_calls c (client_step h ct same (AppVoid method params) c)"
proof -
  have "same_calls d d'" if "send h method params d = Inr d'" for d d'
    using that by (auto simp: send_def dest: same_send split: option.splits if_splits)
  then have "same_calls c d'" if "send h method params (client_emit e v c) = Inr d'" for e v d'
    using same_calls_trans [OF same_emit] that by blast
  then show ?thesis by (auto simp: Let_def split: sum.splits)
qed

lemma same_timer: "same_calls c (reconnect_timer h t c)"
  unfolding reconnect_timer_def by (rule same_calls_trans [OF _ same_rec(6)]) (rule same_calls_eq; simp)

lemma same_socket_closed: "same_calls c (socket_closed w c)"
  unfolding socket_closed_def Let_def using same_calls_trans [OF same_update(14) same_update(16)] by (auto intro!: same_emitted)

lemma same_idle_reset: "same_calls c (idle_reset h c)"
  unfolding idle_reset_def Let_def using same_calls_trans [OF same_rec(12) same_rec(11)]
    same_calls_trans [OF same_calls_trans [OF same_rec(12) same_connect] same_update(12)] by simp

lemma same_client_connect: "same_calls c (client_connect h c)"
  unfolding client_connect_def by (rule same_calls_trans [OF same_connect same_update(7)])

lemma loses_closed_event: "loses_calls c (recoveries_at P b (on_active w (handleClose_socket h now) (update_socket w f c)))"
  by (rule loses_calls.same [OF loses_trans [OF loses_on_active [OF loses_closed] loses_same [OF same_rec(3)]] same_rec(1)])

lemmas connection_steps = loses_reconnect loses_context loses_resume loses_heartbeat loses_visible loses_closed_event
lemmas still_call_steps = same_open same_error same_timer same_socket_closed same_idle_reset same_client_connect same_resubscribe_next
  same_logged_out same_emitted [OF same_update(7)]

lemma calls_step:
  assumes "calls_ok c" and "client_enabled l c"
  shows "calls_ok (client_step h ct same l c) \<and> (calls_live c \<and> \<not> closing l \<longrightarrow> calls_live (client_step h ct same l c))"
proof (cases "closing l")
  case True
  then show ?thesis using keeps_close [OF assms(1)] by (auto simp: closing_def handlePageHide_def Let_def split: client_label.splits)
next
  case False
  have "keeps_calls c (client_step h ct same l c)"
  proof (cases l)
    case (Frame w decoded)
    then show ?thesis using keeps_frame assms(1) by blast
  next
    case (AckTimer uuid p)
    then show ?thesis using keeps_ack assms by simp
  next
    case (AppCall uuid f args opts)
    then show ?thesis using call_inv [OF assms(1)] assms(2) by (simp add: keeps_calls_def)
  next
    case (ResumeCall uuid k)
    then show ?thesis using resume_inv [OF assms(1)] assms(2) by (simp add: keeps_calls_def)
  next
    case (Reply k reply)
    then show ?thesis using reply_inv [OF assms(1)] assms(2) by (simp add: keeps_calls_def)
  next
    case (InitTimer k)
    then show ?thesis using answer_inv [OF assms(1)] assms(2) by (simp add: keeps_calls_def)
  next
    case (RetryTimer k)
    then show ?thesis using answer_inv [OF assms(1)] assms(2) by (simp add: keeps_calls_def)
  next
    case (AppVoid f args)
    then show ?thesis using same_void keeps_same [OF assms(1)] by blast
  next
    case (PageHidden b now)
    then show ?thesis using False keeps_same [OF assms(1)] by (simp add: closing_def handlePageHide_def Let_def)
  qed (use False assms in \<open>simp_all add: closing_def keeps_lost keeps_same keeps_commit connection_steps still_call_steps\<close>)
  then show ?thesis by (simp add: keeps_calls_def)
qed

lemma new_client_calls: "fst (new_client h ct same uuid meta manager ctx idle now) = None \<Longrightarrow>
    calls_ok (snd (new_client h ct same uuid meta manager ctx idle now)) \<and> calls_live (snd (new_client h ct same uuid meta manager ctx idle now))"
  unfolding new_client_def Let_def
  by (simp, intro conjI, rule ok_same [OF same_client_connect], simp add: calls_ok_def, rule live_same [OF same_client_connect], simp add: calls_live_def)

interpretation pending_calls: client_invariant h ct same calls_ok "\<lambda>_. True" for h ct same
  by unfold_locales (use calls_step in blast)

interpretation live_calls: client_invariant h ct same "\<lambda>c. calls_ok c \<and> calls_live c" "\<lambda>l. \<not> closing l" for h ct same
  by unfold_locales (use calls_step in blast)

section \<open>Progress\<close>

definition wait_rank :: "call_task \<Rightarrow> nat" where
  "wait_rank t =
     (let limit = co_maxRetries (ct_options t); left = limit - ct_attempt t in
      case ct_wait t of CallDone _ \<Rightarrow> 0 | WaitSocket \<Rightarrow> 2 * left + 1 | WaitHttp \<Rightarrow> 2 * left + 1 | WaitRetry \<Rightarrow> 2 * left | WaitInit \<Rightarrow> 2 * limit + 2)"

definition call_rank :: "call_task \<Rightarrow> nat" where
  "call_rank t = (case ct_wait t of CallDone _ \<Rightarrow> 0 | _ \<Rightarrow> 2 * wait_rank t + (if ct_answer t = None then 1 else 0))"

definition ranks :: "client \<Rightarrow> client \<Rightarrow> bool" where
  "ranks c c' \<longleftrightarrow> length (cl_calls c) \<le> length (cl_calls c') \<and>
     (\<forall>k < length (cl_calls c). call_rank (cl_calls c' ! k) \<le> call_rank (cl_calls c ! k))"

lemma ranks_refl [simp]: "ranks c c"
  by (simp add: ranks_def)

lemma ranks_trans: "ranks a b \<Longrightarrow> ranks b c \<Longrightarrow> ranks a c"
  unfolding ranks_def by (meson le_trans less_le_trans)

lemma rank_answer: "call_rank (answer_call v t) \<le> call_rank t"
  by (simp add: call_rank_def wait_rank_def answer_call_def Let_def split: call_wait.splits)

lemma rank_answer_less: "ct_answer t = None \<Longrightarrow> (\<And>s. ct_wait t \<noteq> CallDone s) \<Longrightarrow> call_rank (answer_call v t) < call_rank t"
  by (simp add: call_rank_def wait_rank_def answer_call_def Let_def split: call_wait.splits)

lemma rank_woken: "woken t t' \<Longrightarrow> call_rank t' \<le> call_rank t"
  by (auto simp: woken_def rank_answer)

lemma ranks_same: "same_calls c c' \<Longrightarrow> ranks c c'"
  using rank_woken [OF same_nth] same_length by (simp add: ranks_def)

lemma ranks_reject: "ranks c (rejectAllPending reason c)"
  using rank_answer by (auto simp: ranks_def rejected_nth) (simp add: rejectAllPending_def fold_settle_length)

lemma ranks_lost: "loses_calls c c' \<Longrightarrow> ranks c c'"
  by (induction rule: loses_calls.induct) (auto intro: ranks_trans ranks_same ranks_reject)

lemma ranks_update: "(k < length (cl_calls c) \<Longrightarrow> call_rank (f (cl_calls c ! k)) \<le> call_rank (cl_calls c ! k)) \<Longrightarrow> ranks c (update_call k f c)"
  by (cases "k < length (cl_calls c)") (auto simp: ranks_def update_call_def nth_list_update list_update_beyond)

lemma ranks_settled: "ranks c (settled_state u p v c)"
  using rank_answer by (auto simp: ranks_def settled_state_def settle_nth)

lemma ranks_frame: "ranks c (client_step h ct same (Frame w decoded) c)"
proof -
  have "ranks c (handleRpcResponse h msg c)" for msg
    unfolding response_cases by (simp add: ranks_settled split: jsval.splits option.splits)
  moreover have "same_calls c (handleTypedAuth h ct same msg c)" for msg
    unfolding handleTypedAuth_def by (rule same_calls_trans [OF same_update(4) same_initialize])
  ultimately have "ranks c (handleMessage_client h ct same decoded c)"
    using ranks_same same_event same_send by (auto simp: handleMessage_client_def split: sum.splits option.splits)
  then have "ranks c (on_active w (handleMessage_client h ct same decoded) c)" by (simp add: on_active_def)
  then show ?thesis using ranks_trans [OF _ ranks_same [OF same_rec(1)]] by (cases decoded) (simp_all add: Let_def)
qed

lemma ranks_reply: "ranks c (http_reply k reply c)"
proof -
  let ?c1 = "c\<lparr>br_requests := filter (\<lambda>(j, _). j \<noteq> k) (br_requests c)\<rparr>"
  let ?f = "\<lambda>t. if ct_wait t = WaitHttp then answer_call (http_settlement reply) t else t"
  have u: "ranks d (update_call k ?f d)" for d by (rule ranks_update) (simp add: rank_answer)
  have "ranks c ?c1" by (simp add: ranks_def)
  then have "ranks c (client_emit e v ?c1)" for e v using ranks_trans ranks_same [OF same_emit] by blast
  then show ?thesis using ranks_trans [OF _ u] \<open>ranks c ?c1\<close>
    by (simp add: http_reply_def Let_def split: http_reply.splits sum.splits)
qed

text \<open>A step that sends the call \<open>k\<close> off again and leaves the others alone.\<close>

definition reworks :: "nat \<Rightarrow> client \<Rightarrow> client \<Rightarrow> bool" where
  "reworks k c c' \<longleftrightarrow> length (cl_calls c') = length (cl_calls c) \<and>
     (\<forall>j < length (cl_calls c). j \<noteq> k \<longrightarrow> woken (cl_calls c ! j) (cl_calls c' ! j)) \<and>
     ct_wait (cl_calls c' ! k) \<in> {WaitSocket, WaitHttp} \<and> ct_attempt (cl_calls c' ! k) = ct_attempt (cl_calls c ! k) \<and>
     ct_options (cl_calls c' ! k) = ct_options (cl_calls c ! k)"

lemma reworks_then:
  assumes "reworks k c d" and "same_calls d e" and "k < length (cl_calls c)"
  shows "reworks k c e"
proof -
  have w: "woken (cl_calls d ! j) (cl_calls e ! j)" if "j < length (cl_calls c)" for j
    using same_nth [OF assms(2)] that assms(1) by (simp add: reworks_def)
  have "woken (cl_calls c ! j) (cl_calls e ! j)" if "j < length (cl_calls c)" "j \<noteq> k" for j
    using woken_trans [OF _ w] that assms(1) by (simp add: reworks_def)
  then show ?thesis using assms(1) same_length [OF assms(2)] woken_fields [OF w [OF assms(3)]] by (simp add: reworks_def)
qed

lemma then_reworks:
  assumes "same_calls c d" and "reworks k d e" and "k < length (cl_calls c)"
  shows "reworks k c e"
proof -
  have "woken (cl_calls c ! j) (cl_calls e ! j)" if "j < length (cl_calls c)" "j \<noteq> k" for j
    using woken_trans [OF same_nth [OF assms(1)]] that assms(2) same_length [OF assms(1)] by (simp add: reworks_def)
  then show ?thesis using assms(2) same_length [OF assms(1)] woken_fields [OF same_nth [OF assms(1,3)]] by (simp add: reworks_def)
qed

lemma execute_reworks:
  assumes "k < length (cl_calls c)"
  shows "reworks k c (executeCall h uuid k c)"
proof -
  define d where "d = client_emit ''outbound:message'' (JObj [(''method'', JStr (ct_method (cl_calls c ! k))), (''params'', ct_params (cl_calls c ! k))]) c"
  have s: "same_calls c d" by (simp add: d_def)
  have k: "k < length (cl_calls d)" using assms same_length [OF s] by simp
  have down: "reworks k d (turned_down k d)" using k by (simp add: reworks_def turned_down_def update_call_def asking_fields)
  have "reworks k d (asked uuid k d)" using k by (simp add: reworks_def asked_def Let_def asking_fields)
  then have ack: "reworks k d (emitWithAck h uuid k d)" using ack_cases [OF k, of h uuid] down reworks_then k by metis
  have http: "reworks k d (update_call k (\<lambda>t. t\<lparr>ct_wait := WaitHttp, ct_answer := None\<rparr>) (d\<lparr>br_requests := r\<rparr>))" for r
    using k by (simp add: reworks_def update_call_def)
  have "reworks k d (executeCall h uuid k c)" using ack http by (simp add: executeCall_def d_def [symmetric] Let_def)
  then show ?thesis by (rule then_reworks [OF s _ assms])
qed

lemma ranks_reworks:
  assumes "reworks k c c'" and "call_rank (cl_calls c' ! k) \<le> call_rank (cl_calls c ! k)"
  shows "ranks c c'"
  unfolding ranks_def
proof (intro conjI allI impI)
  fix j assume "j < length (cl_calls c)"
  then show "call_rank (cl_calls c' ! j) \<le> call_rank (cl_calls c ! j)"
    using assms rank_woken by (cases "j = k") (auto simp: reworks_def)
qed (use assms(1) in \<open>simp add: reworks_def\<close>)

lemma rank_sent: "ct_wait t \<in> {WaitSocket, WaitHttp} \<Longrightarrow> call_rank t \<le> 4 * (co_maxRetries (ct_options t) - ct_attempt t) + 3"
  by (auto simp: call_rank_def wait_rank_def Let_def)

lemma init_rank:
  assumes "k < length (cl_calls c)" and "ct_wait (cl_calls c ! k) = WaitInit" and "ct_answer (cl_calls c ! k) = Some v"
  shows "ranks c (executeCall h uuid k c) \<and> call_rank (cl_calls (executeCall h uuid k c) ! k) < call_rank (cl_calls c ! k)"
proof -
  have r: "reworks k c (executeCall h uuid k c)" by (rule execute_reworks [OF assms(1)])
  then have "call_rank (cl_calls (executeCall h uuid k c) ! k) < call_rank (cl_calls c ! k)"
    using rank_sent [of "cl_calls (executeCall h uuid k c) ! k"] assms(2,3) by (auto simp: reworks_def call_rank_def wait_rank_def Let_def)
  then show ?thesis using ranks_reworks [OF r] by simp
qed

lemma retry_rank:
  fixes c k
  defines "d \<equiv> update_call k (\<lambda>t. t\<lparr>ct_attempt := Suc (ct_attempt t)\<rparr>) c"
  assumes "k < length (cl_calls c)" and "ct_wait (cl_calls c ! k) = WaitRetry" and "ct_answer (cl_calls c ! k) = Some v" and "live_at c k"
  shows "ranks c (executeCall h uuid k d) \<and> call_rank (cl_calls (executeCall h uuid k d) ! k) < call_rank (cl_calls c ! k)"
proof -
  have d: "k < length (cl_calls d)" "length (cl_calls d) = length (cl_calls c)" "\<And>j. j \<noteq> k \<Longrightarrow> cl_calls d ! j = cl_calls c ! j"
    "cl_calls d ! k = (cl_calls c ! k)\<lparr>ct_attempt := Suc (ct_attempt (cl_calls c ! k))\<rparr>"
    using assms(2) by (simp_all add: d_def update_call_def)
  have r: "reworks k d (executeCall h uuid k d)" by (rule execute_reworks [OF d(1)])
  have less: "call_rank (cl_calls (executeCall h uuid k d) ! k) < call_rank (cl_calls c ! k)"
    using r rank_sent [of "cl_calls (executeCall h uuid k d) ! k"] assms(3-5) d(4)
    by (auto simp: reworks_def call_rank_def wait_rank_def live_at_def Let_def)
  have "call_rank (cl_calls (executeCall h uuid k d) ! j) \<le> call_rank (cl_calls c ! j)" if "j < length (cl_calls c)" for j
    using less rank_woken r that d(2,3) by (cases "j = k") (auto simp: reworks_def dest: rank_woken)
  then show ?thesis using less r d(2) by (simp add: ranks_def reworks_def)
qed

text \<open>Resuming a call lowers its rank.\<close>

lemma resume_call_rank:
  assumes "k < length (cl_calls c)" and "ct_answer (cl_calls c ! k) = Some v" and "\<And>s. ct_wait (cl_calls c ! k) \<noteq> CallDone s" and "live_at c k"
  shows "ranks c (resume_call h uuid k c) \<and> call_rank (cl_calls (resume_call h uuid k c) ! k) < call_rank (cl_calls c ! k)"
proof -
  let ?t = "cl_calls c ! k"
  have up: "ranks c (update_call k f c) \<and> call_rank (cl_calls (update_call k f c) ! k) < call_rank ?t" if "call_rank (f ?t) < call_rank ?t" for f
    using that assms(1) ranks_update [of k c f] by (simp add: update_call_def)
  have fin: "call_rank (?t\<lparr>ct_wait := CallDone s\<rparr>) < call_rank ?t" for s
    using assms(3,4) by (auto simp: call_rank_def wait_rank_def live_at_def Let_def split: call_wait.splits)
  have again: "call_rank (?t\<lparr>ct_wait := WaitRetry, ct_answer := None\<rparr>) < call_rank ?t" if "ct_wait ?t \<in> {WaitSocket, WaitHttp}"
    using that assms(2) by (auto simp: call_rank_def wait_rank_def Let_def)
  have f: "ranks c (update_call k (\<lambda>t. t\<lparr>ct_wait := CallDone s\<rparr>) c) \<and>
      call_rank (cl_calls (update_call k (\<lambda>t. t\<lparr>ct_wait := CallDone s\<rparr>) c) ! k) < call_rank ?t" for s
    by (rule up) (rule fin)
  have g: "ranks c (update_call k (\<lambda>t. t\<lparr>ct_wait := WaitRetry, ct_answer := None\<rparr>) c) \<and>
      call_rank (cl_calls (update_call k (\<lambda>t. t\<lparr>ct_wait := WaitRetry, ct_answer := None\<rparr>) c) ! k) < call_rank ?t"
    if "ct_wait ?t \<in> {WaitSocket, WaitHttp}" by (rule up) (rule again [OF that])
  show ?thesis
    using assms(3) f g init_rank [OF assms(1) _ assms(2), of h uuid] retry_rank [OF assms(1) _ assms(2,4), of h uuid]
    by (simp add: resume_call_def assms(2) Let_def split: sum.splits call_wait.splits)
qed


lemma resume_done: "ct_wait (cl_calls c ! k) = CallDone s \<Longrightarrow> resume_call h uuid k c = c"
  by (simp add: resume_call_def Let_def split: option.splits)

lemma ranks_call: "ranks c (client_call h uuid method params opts c)"
proof -
  let ?k = "length (cl_calls c)"
  define d where "d = c\<lparr>cl_calls := cl_calls c @ [\<lparr>ct_method = method, ct_params = params, ct_options = opts, ct_attempt = 0,
                   ct_wait = WaitInit, ct_answer = None\<rparr>]\<rparr>"
  have "?k < length (cl_calls d)" by (simp add: d_def)
  then have r: "reworks ?k d (executeCall h uuid ?k d)" by (rule execute_reworks)
  have "call_rank (cl_calls (executeCall h uuid ?k d) ! j) \<le> call_rank (cl_calls c ! j)" if "j < ?k" for j
    using r that rank_woken [of "cl_calls c ! j"] by (simp add: reworks_def d_def nth_append)
  then have "ranks c (executeCall h uuid ?k d)" using r by (simp add: ranks_def reworks_def d_def)
  moreover have "ranks c d" by (simp add: ranks_def d_def nth_append)
  ultimately show ?thesis by (simp add: client_call_def d_def Let_def)
qed

lemma ranks_commit: "ranks c (commitPendingSubscriptions h uuid name c)" "ranks c (commitPendingUnsubscriptions h uuid name c)"
proof -
  have "ranks c (client_call h uuid m q o' (update_channel name f c))" for m q o' f
    by (rule ranks_trans [OF ranks_same [OF same_rec(10)] ranks_call])
  then show "ranks c (commitPendingSubscriptions h uuid name c)" "ranks c (commitPendingUnsubscriptions h uuid name c)"
    using ranks_same [OF same_rec(10)] by (simp_all add: commitPendingSubscriptions_def commitPendingUnsubscriptions_def Let_def)
qed

lemma ranks_step:
  assumes "calls_ok c" and "calls_live c" and "client_enabled l c" and "\<not> closing l"
  shows "ranks c (client_step h ct same l c)"
proof (cases l)
  case (Frame w decoded)
  then show ?thesis using ranks_frame by blast
next
  case (AckTimer uuid p)
  then show ?thesis by (simp add: ack_settled ranks_settled)
next
  case (ResumeCall uuid k)
  then have k: "k < length (cl_calls c)" "ct_answer (cl_calls c ! k) \<noteq> None" using assms(3) by simp_all
  then show ?thesis using ResumeCall resume_call_rank [OF k(1)] resume_done assms(2)
    by (cases "ct_wait (cl_calls c ! k)") (auto simp: calls_live_def)
next
  case (InitTimer k)
  then show ?thesis by (simp add: ranks_update rank_answer)
next
  case (RetryTimer k)
  then show ?thesis by (simp add: ranks_update rank_answer)
next
  case (AppVoid f args)
  then show ?thesis using ranks_same [OF same_void] by blast
next
  case (PageHidden b now)
  then show ?thesis using assms(4) ranks_same by (simp add: closing_def handlePageHide_def Let_def)
qed (use assms(4) in \<open>simp_all add: closing_def ranks_call ranks_reply ranks_commit ranks_lost ranks_same connection_steps still_call_steps\<close>)


lemma fresh_uuid: "\<exists>u :: string. \<not> jm_has (m :: (string, 'v) jsmap) u"
proof -
  have "infinite (UNIV :: string set)" by (rule infinite_UNIV_listI)
  then obtain u where "u \<notin> set (map fst m)" using ex_new_if_finite by (metis List.finite_set)
  then show ?thesis by (auto simp: jm_has_iff)
qed

lemma answer_step:
  assumes "calls_ok c" and "live_at c k" and "k < length (cl_calls c)" and "ct_answer (cl_calls c ! k) = None" and "\<And>s. ct_wait (cl_calls c ! k) \<noteq> CallDone s"
  shows "\<exists>l v. client_enabled l c \<and> \<not> closing l \<and> cl_calls (client_step h ct same l c) ! k = answer_call v (cl_calls c ! k)"
proof (cases "ct_wait (cl_calls c ! k)")
  case WaitInit
  then show ?thesis using assms(3)
    by (intro exI [of _ "InitTimer k"] exI) (simp add: closing_def update_call_def)
next
  case WaitRetry
  then show ?thesis using assms(3)
    by (intro exI [of _ "RetryTimer k"] exI) (simp add: closing_def update_call_def)
next
  case WaitSocket
  then obtain u a where p: "(u, k, a) \<in> set (cs_pending c)" using assms(2,4) by (auto simp: live_at_def)
  then have "(u, k, a) \<in> set (br_acks c)" using assms(1) by (simp add: calls_ok_def)
  moreover have "cl_calls (ack_timeout u (k, a) c) ! k = answer_call (Inl (Reason (Error ''Acknowledgment timeout''))) (cl_calls c ! k)"
    using assms(3,4) by (simp add: ack_settled settled_calls [OF assms(1) p] answer_call_def)
  ultimately show ?thesis by (intro exI [of _ "AckTimer u (k, a)"] exI) (simp add: closing_def)
next
  case WaitHttp
  then have q: "k \<in> fst ` set (br_requests c)" using assms(2,4) by (simp add: live_at_def)
  have "cl_calls (http_reply k (FetchFailed e) c) ! k = answer_call (Inl (Reason e)) (cl_calls c ! k)" for e
    using WaitHttp assms(3) by (simp add: http_reply_def update_call_def Let_def)
  then show ?thesis using assms(3) q by (intro exI [of _ "Reply k (FetchFailed (Error []))"] exI) (simp add: closing_def)
next
  case (CallDone s)
  then show ?thesis using assms(5) by blast
qed



end
