(* ===== verification/RemoteCall.thy ===== *)
theory RemoteCall
  imports ClientCalls ServerProps
begin

text \<open>
  Remote calls end to end: the client's frame, the EJSON codec, the server's dispatch and the response,
  composed. \<open>local_outcome\<close> is the specification: what the method would answer if it were called where
  it is defined.
\<close>

definition wire :: "host \<Rightarrow> custom_types \<Rightarrow> jsval \<Rightarrow> jsval js" where
  "wire h ct v = rbind (ejson_stringify h False v) (ejson_parse h ct)"

lemma wire_safe_id: "wire_safe h v \<Longrightarrow> wire h ct v = Inr v"
  using toJSONValue_safe [of h v] json_norm_enc [of h v] decodes_safe [of h v]
  by (simp add: wire_def ejson_stringify_def ejson_parse_def decodes_fromJSONValue)

definition public_message :: "js_error \<Rightarrow> string" where
  "public_message err = (case err of PublicError m \<Rightarrow> m | SchemaValidationError m _ \<Rightarrow> m | _ \<Rightarrow> ''Internal Error'')"

definition failure :: "string \<Rightarrow> settlement" where
  "failure message = (if message = [] then Inr JUndef else Inl (Reason (Error message)))"

definition local_outcome :: "host \<Rightarrow> int \<Rightarrow> bool \<Rightarrow> nat \<Rightarrow> jsval \<Rightarrow> jsval \<Rightarrow> server \<Rightarrow> settlement" where
  "local_outcome h now granted i method params s =
     (case refused s granted i method of
        Some message \<Rightarrow> failure message
      | None \<Rightarrow>
          (case fst (exec h now (the (method_of s method)) params i s) of
             Inr result \<Rightarrow> Inr result
           | Inl err \<Rightarrow> failure (public_message err)))"

lemma response_wire:
  assumes "wire_safe h (JStr u)" and "message \<noteq> []" 
  shows "wire_safe h (response_payload (JStr u) r (Some message) errs)"
  using assms by (auto simp: response_payload_def reserved_key_def split: option.splits)

lemma response_wire_result: "wire_safe h r \<Longrightarrow> wire_safe h (response_payload (JStr u) r None errs)"
  by (auto simp: response_payload_def reserved_key_def)

lemma response_read:
  "get_prop (response_payload (JStr u) r err errs) ''t'' = JStr ''rpc:res''" "get_prop (response_payload (JStr u) r err errs) ''id'' = JStr u"
  "response_value h (response_payload (JStr u) r None errs) = Inr r"
  "message \<noteq> [] \<Longrightarrow> response_value h (response_payload (JStr u) r (Some message) errs) = Inl (Reason (Error message))"
  by (auto simp: response_payload_def response_value_def obj_get_def split: option.splits)


lemma respond_public:
  assumes "cn_socket (node_at s i) = Some ws" "ws \<in> set (sv_open s)" "i < length (sv_nodes s)"
  shows "\<exists>errs. sv_sent (handleRpcError h i m e rid method params s) =
    sv_sent s @ [(ws, response_payload rid JUndef (Some (public_message e)) errs)]"
proof -
  let ?s = "report_error m e method params i s"
  have q: "quiet s ?s" by (rule quiet_report)
  have o: "cn_socket (node_at ?s i) = Some ws" "ws \<in> set (sv_open ?s)" "sv_sent ?s = sv_sent s"
    using quiet_socket [OF q assms(3)] q assms(1,2) by (simp_all add: quiet_def)
  show ?thesis using respond_open [OF assms(1,2)] respond_open [OF o(1,2)] o(3)
    by (cases e) (auto simp: handleRpcError_def send_or_drop_def public_message_def Let_def)
qed

definition answers :: "settlement \<Rightarrow> jsval \<Rightarrow> string option \<Rightarrow> bool" where
  "answers outcome result err \<longleftrightarrow> (case err of None \<Rightarrow> outcome = Inr result | Some message \<Rightarrow> outcome = failure message \<and> result = JUndef)"

lemma rpc_response:
  assumes "i < length (sv_nodes s)" and "cn_socket (node_at s i) = Some ws" and "ws \<in> set (sv_open s)"
  shows "\<exists>result err errs. sv_sent (handleRpc h now granted i rid method params s) = sv_sent s @ [(ws, response_payload rid result err errs)] \<and>
    answers (local_outcome h now granted i method params s) result err"
proof (cases "refused s granted i method")
  case (Some message)
  then have "handleRpc h now granted i rid method params s = s\<lparr>sv_sent := sv_sent s @ [(ws, response_payload rid JUndef (Some message) None)]\<rparr>"
    using respond_open [OF assms(2,3)]
    by (auto simp: handleRpc_def refused_def send_or_drop_def Let_def split: if_splits option.splits)
  then show ?thesis using Some by (intro exI [of _ JUndef] exI [of _ "Some message"] exI [of _ None]) (simp add: answers_def local_outcome_def)
next
  case None
  then obtain m where m: "\<not> (cn_limiter (node_at s i) \<and> \<not> granted)" "method_of s method = Some m"
    "\<not> (sm_isProtected m \<and> \<not> cn_authenticated (node_at s i))"
    by (auto simp: refused_def split: if_splits option.splits)
  obtain r s' where e: "exec h now m params i s = (r, s')" by (cases "exec h now m params i s")
  have q: "quiet s s'" using quiet_exec [of s h now m params i] e by simp
  have o: "cn_socket (node_at s' i) = Some ws" "ws \<in> set (sv_open s')" "i < length (sv_nodes s')" "sv_sent s' = sv_sent s"
    using quiet_socket [OF q assms(1)] quiet_length [OF q] q assms by (simp_all add: quiet_def)
  have run: "handleRpc h now granted i rid method params s =
      (case r of Inl err \<Rightarrow> handleRpcError h i m err rid method params s' | Inr result \<Rightarrow> s'\<lparr>sv_sent := sv_sent s' @ [(ws, response_payload rid result None None)]\<rparr>)"
    using m e respond_open [OF o(1,2)] by (auto simp: handleRpc_def Let_def split: sum.splits)
  have out: "local_outcome h now granted i method params s = (case r of Inr result \<Rightarrow> Inr result | Inl err \<Rightarrow> failure (public_message err))"
    using None m(2) e by (simp add: local_outcome_def)
  show ?thesis
  proof (cases r)
    case (Inl err)
    then obtain errs where "sv_sent (handleRpc h now granted i rid method params s) =
        sv_sent s @ [(ws, response_payload rid JUndef (Some (public_message err)) errs)]"
      using respond_public [OF o(1-3), of h m err rid "method" "params"] o(4) by (auto simp: run)
    then show ?thesis using out Inl by (intro exI [of _ JUndef] exI [of _ "Some (public_message err)"] exI [of _ errs]) (simp add: answers_def)
  next
    case (Inr result)
    then show ?thesis using out o(4) by (intro exI [of _ result] exI [of _ None] exI [of _ None]) (simp add: answers_def run)
  qed
qed

lemma answer_wire:
  assumes "answers outcome result err" and "\<And>v. outcome = Inr v \<Longrightarrow> wire_safe h v"
  shows "wire_safe h (response_payload (JStr u) result err errs)" and "response_value h (response_payload (JStr u) result err errs) = outcome"
proof -
  have "message \<noteq> []" if "err = Some message" for message
    using assms that by (auto simp: answers_def failure_def split: if_splits)
  then show "wire_safe h (response_payload (JStr u) result err errs)" "response_value h (response_payload (JStr u) result err errs) = outcome"
    using assms response_wire response_wire_result response_read(3,4) by (cases err; auto simp: answers_def failure_def)+
qed

lemma frame_settles:
  assumes "calls_ok c" and "jm_get (cs_pending c) u = Some (k, a)" and "cs_socket c = Some w" and "ws_attached (socket_at c w)"
    and "get_prop msg ''t'' = JStr ''rpc:res''" and "get_prop msg ''id'' = JStr u"
  shows "cl_calls (client_step h ct same (Frame w (Inr msg)) c) = (cl_calls c)[k := (cl_calls c ! k)\<lparr>ct_answer := Some (response_value h msg)\<rparr>]"
proof -
  have p: "(u, k, a) \<in> set (cs_pending c)" using assms(2) by (rule map_of_SomeD)
  have "handleMessage_client h ct same (Inr msg) c = settled_state u (k, a) (response_value h msg) c"
    using assms(2,5,6) by (simp add: handleMessage_client_def response_cases)
  then show ?thesis using assms(3,4) settled_calls [OF assms(1) p] by (simp add: on_active_def recoveries_at_def Let_def)
qed


definition sample_calling :: client where
  "sample_calling = foldl (\<lambda>c l. client_step plain_host (\<lambda>_. None) (\<lambda>_ _. False) l c) sample_client
     [Opened 0, AppCall ''u1'' ''missing'' JNull (default_call_options\<lparr>co_ignoreInit := True\<rparr>)]"


end
