(* ===== verification/TokenRefresh.thy ===== *)
theory TokenRefresh
  imports ClientCore MiniModifier
begin

text \<open>
  The access token of a client (\<open>src/auth/client/token-refresh.ts\<close> and \<open>cross-tab-sync.ts\<close>): one
  refresh at a time, the queue of the callers that wait for it, the timer that refreshes before the
  token runs out, and the messages by which the tabs of a browser share a new token.

  A call of \<open>refreshAccessToken\<close> is known by its number. The step that answers \<open>client.call\<close> runs the
  rest of the function; \<open>tr_settled\<close> records how each call's promise was settled, in that order.
  \<open>tr_attempts\<close> are the calls made by \<open>attemptRefresh\<close>, and \<open>tr_catches\<close> the rejections of such calls
  whose handler has not run yet. \<open>tr_timers\<close> are the timers the browser holds with the delay they
  were given, \<open>tr_posted\<close> the messages posted to the broadcast channel. Times and delays are numbers of
  milliseconds, and the arithmetic of the schedule is exact, as it is for doubles of this size. The
  listeners of the application are told of an event and do not call back.
\<close>

section \<open>Data\<close>

record refresh_config =
  rf_refreshMethod :: string
  rf_refreshBeforeExpirySec :: rat
  rf_broadcastChannelName :: string

definition defaultConfig :: refresh_config where
  "defaultConfig = \<lparr>rf_refreshMethod = ''auth.refresh'', rf_refreshBeforeExpirySec = 60, rf_broadcastChannelName = ''typeferry-token-sync''\<rparr>"

definition RETRY_DELAY_MS :: jsnum where
  "RETRY_DELAY_MS = Fin 5000"

definition TOKEN_REFRESHED :: string where
  "TOKEN_REFRESHED = ''TOKEN_REFRESHED''"

datatype timer_job = AttemptJob | ScheduleJob

record token_client =
  tr_manager :: context_manager
  tr_isRefreshing :: bool
  tr_failedQueue :: "nat list"
  tr_callers :: nat
  tr_flights :: "nat list"
  tr_requests :: "string list"
  tr_settled :: "(nat \<times> settlement) list"
  tr_attempts :: "nat list"
  tr_catches :: "(nat \<times> rejection) list"
  tr_refreshTimeout :: "nat option"
  tr_timers :: "(nat \<times> timer_job \<times> jsnum) list"
  tr_nextTimer :: nat
  tr_listening :: bool
  tr_channel :: "string option"
  tr_posted :: "(string \<times> jsval) list"
  tr_emitted :: "(string \<times> jsval) list"

definition new_token_client :: "context_manager \<Rightarrow> token_client" where
  "new_token_client m =
     \<lparr>tr_manager = m, tr_isRefreshing = False, tr_failedQueue = [], tr_callers = 0, tr_flights = [], tr_requests = [], tr_settled = [],
      tr_attempts = [], tr_catches = [], tr_refreshTimeout = None, tr_timers = [], tr_nextTimer = 0, tr_listening = False,
      tr_channel = None, tr_posted = [], tr_emitted = []\<rparr>"

abbreviation tr_context :: "token_client \<Rightarrow> jsobj" where
  "tr_context w \<equiv> cm_context (tr_manager w)"

section \<open>The queue of callers\<close>

text \<open>A promise is settled; the rejection of an attempt has a handler.\<close>

definition settle_caller :: "settlement \<Rightarrow> token_client \<Rightarrow> nat \<Rightarrow> token_client" where
  "settle_caller r w c =
     w\<lparr>tr_settled := tr_settled w @ [(c, r)],
       tr_catches := (case r of Inl err \<Rightarrow> if c \<in> set (tr_attempts w) then tr_catches w @ [(c, err)] else tr_catches w | Inr _ \<Rightarrow> tr_catches w)\<rparr>"

definition processQueue :: "settlement \<Rightarrow> token_client \<Rightarrow> token_client" where
  "processQueue r w = (foldl (settle_caller r) w (tr_failedQueue w))\<lparr>tr_failedQueue := []\<rparr>"

text \<open>The part of a call before it waits for \<open>client.call\<close>.\<close>

definition refreshAccessToken :: "bool \<Rightarrow> refresh_config \<Rightarrow> token_client \<Rightarrow> token_client" where
  "refreshAccessToken attempt opts w =
     (let c = tr_callers w;
          w = w\<lparr>tr_callers := Suc c, tr_attempts := (if attempt then tr_attempts w @ [c] else tr_attempts w)\<rparr> in
      if tr_isRefreshing w then w\<lparr>tr_failedQueue := tr_failedQueue w @ [c]\<rparr>
      else w\<lparr>tr_isRefreshing := True, tr_flights := tr_flights w @ [c], tr_requests := tr_requests w @ [rf_refreshMethod opts]\<rparr>)"

section \<open>Terminal failures\<close>

fun error_text :: "js_error \<Rightarrow> string" where
  "error_text (Error s) = s"
| "error_text (TypeError s) = s"
| "error_text (SyntaxError s) = s"
| "error_text (LocalQueryError s) = s"
| "error_text (LocalCollectionError s _) = s"
| "error_text (PublicError s) = s"
| "error_text (SchemaValidationError s _) = s"

text \<open>The properties \<open>status\<close>, \<open>code\<close> and \<open>message\<close> of what a call was rejected with. The body of a response
  is quoted by \<open>JSON.stringify\<close>, whose escapes do not matter to a search for words of letters.\<close>

fun rejection_prop :: "host \<Rightarrow> rejection \<Rightarrow> string \<Rightarrow> jsval" where
  "rejection_prop h (Reason err) k = (if k = ''message'' then JStr (error_text err) else JUndef)"
| "rejection_prop h (ErrorPayload v) k = get_prop v k"
| "rejection_prop h (ClientHttpResponseError status statusText body) k =
     (if k = ''status'' then jint status
      else if k = ''message'' then JStr (num_to_str h (Fin (of_int status)) @ '' '' @ statusText @ '': '' @ [CHR 0x22] @ body @ [CHR 0x22])
      else JUndef)"

fun substring :: "string \<Rightarrow> string \<Rightarrow> bool" where
  "substring p [] = (p = [])"
| "substring p (c # cs) = (take (length p) (c # cs) = p \<or> substring p cs)"

text \<open>\<open>msg.includes(word)\<close>: strings and arrays have it.\<close>

definition js_includes :: "jsval \<Rightarrow> string \<Rightarrow> bool js" where
  "js_includes msg word =
     (case msg of
        JStr s \<Rightarrow> Inr (substring word s)
      | JArr xs \<Rightarrow> Inr (JStr word \<in> set xs)
      | JUndef \<Rightarrow> Inl (TypeError ''Cannot read properties of undefined'')
      | JNull \<Rightarrow> Inl (TypeError ''Cannot read properties of null'')
      | _ \<Rightarrow> Inl (TypeError ''msg.includes is not a function''))"

definition isAuthFailureError :: "host \<Rightarrow> rejection \<Rightarrow> bool js" where
  "isAuthFailureError h err =
     (if rejection_prop h err ''status'' \<in> {jint 401, jint 403} then Inr True
      else if rejection_prop h err ''code'' = JStr ''AUTHENTICATION_FAILED'' then Inr True
      else
        (let msg = rejection_prop h err ''message'' in
         if msg = JStr ''Token refresh failed'' then Inr True
         else
           rbind (js_includes msg ''missingRefreshToken'') (\<lambda>missing.
             if missing then Inr True else js_includes msg ''invalidOrExpiredRefreshToken'')))"

section \<open>The schedule\<close>

fun num_neg :: "jsnum \<Rightarrow> jsnum" where
  "num_neg (Fin a) = Fin (- a)"
| "num_neg Infinity = NegInfinity"
| "num_neg NegInfinity = Infinity"
| "num_neg NaN = NaN"

definition num_sub :: "jsnum \<Rightarrow> jsnum \<Rightarrow> jsnum" where
  "num_sub a b = num_add a (num_neg b)"

definition not_positive :: "jsnum \<Rightarrow> bool" where
  "not_positive t \<longleftrightarrow> num_less t (Fin 0) \<or> t = Fin 0"

definition timeUntilRefresh :: "host \<Rightarrow> refresh_config \<Rightarrow> int \<Rightarrow> jsobj \<Rightarrow> jsnum" where
  "timeUntilRefresh h opts now context =
     (let expiry = to_number h (obj_get context ''exp''); iat = to_number h (obj_get context ''iat'');
          received = to_number h (obj_get context ''_tokenReceivedAt'') in
      if truthy (obj_get context ''iat'') \<and> truthy (obj_get context ''_tokenReceivedAt'')
      then
        (let tokenTtlMs = num_mul (num_sub expiry iat) (Fin 1000); elapsedMs = num_sub (Fin (of_int now)) received in
         num_sub (num_sub tokenTtlMs elapsedMs) (Fin (rf_refreshBeforeExpirySec opts * 1000)))
      else num_mul (num_sub (num_sub expiry (Fin (of_int (now div 1000)))) (Fin (rf_refreshBeforeExpirySec opts))) (Fin 1000))"

definition set_timer :: "timer_job \<Rightarrow> jsnum \<Rightarrow> token_client \<Rightarrow> token_client" where
  "set_timer job delay w =
     w\<lparr>tr_refreshTimeout := Some (tr_nextTimer w), tr_timers := tr_timers w @ [(tr_nextTimer w, job, delay)], tr_nextTimer := Suc (tr_nextTimer w)\<rparr>"

definition clear_timer :: "nat \<Rightarrow> token_client \<Rightarrow> token_client" where
  "clear_timer t w = w\<lparr>tr_timers := filter (\<lambda>(t', _). t' \<noteq> t) (tr_timers w)\<rparr>"

definition scheduleRefresh :: "host \<Rightarrow> refresh_config \<Rightarrow> int \<Rightarrow> token_client \<Rightarrow> token_client" where
  "scheduleRefresh h opts now w =
     (let w = (case tr_refreshTimeout w of None \<Rightarrow> w | Some t \<Rightarrow> (clear_timer t w)\<lparr>tr_refreshTimeout := None\<rparr>) in
      if \<not> truthy (obj_get (tr_context w) ''exp'') then w
      else
        (let t = timeUntilRefresh h opts now (tr_context w) in
         if not_positive t
         then
           if tr_isRefreshing w then set_timer ScheduleJob (Fin 1000) w
           else refreshAccessToken True opts w
         else set_timer AttemptJob t w))"

text \<open>The handler of \<open>attemptRefresh\<close> for the rejection of its call.\<close>

definition attempt_failed :: "host \<Rightarrow> rejection \<Rightarrow> token_client \<Rightarrow> token_client" where
  "attempt_failed h err w =
     (case isAuthFailureError h err of
        Inr False \<Rightarrow> set_timer ScheduleJob RETRY_DELAY_MS w
      | _ \<Rightarrow> w)"

section \<open>Changes of the context\<close>

text \<open>The manager changed: a \<open>context:changed\<close> event reaches the schedule while it listens.\<close>

definition context_changed :: "host \<Rightarrow> refresh_config \<Rightarrow> int \<Rightarrow> context_manager \<Rightarrow> token_client \<Rightarrow> token_client" where
  "context_changed h opts now m w =
     (if tr_listening w \<and> cm_changes m \<noteq> cm_changes (tr_manager w)
      then scheduleRefresh h opts now (w\<lparr>tr_manager := m\<rparr>) else w\<lparr>tr_manager := m\<rparr>)"

definition tr_updateContext ::
  "host \<Rightarrow> deep_equal \<Rightarrow> refresh_config \<Rightarrow> int \<Rightarrow> jsval \<Rightarrow> token_client \<Rightarrow> js_error option \<times> token_client" where
  "tr_updateContext h same opts now context w =
     (let (err, m) = cm_updateContext h same context (tr_manager w) in (err, context_changed h opts now m w))"

definition tr_setContext :: "host \<Rightarrow> refresh_config \<Rightarrow> int \<Rightarrow> jsobj \<Rightarrow> token_client \<Rightarrow> token_client" where
  "tr_setContext h opts now context w = context_changed h opts now (snd (cm_setContext h context (tr_manager w))) w"

definition tr_clearContext :: "host \<Rightarrow> refresh_config \<Rightarrow> int \<Rightarrow> token_client \<Rightarrow> token_client" where
  "tr_clearContext h opts now w = context_changed h opts now (cm_clearContext (tr_manager w)) w"

section \<open>The tabs of a browser\<close>

definition token_message :: "jsval \<Rightarrow> jsval \<Rightarrow> jsval \<Rightarrow> jsval" where
  "token_message token expiry iat = JObj [(''type'', JStr TOKEN_REFRESHED), (''token'', token), (''exp'', expiry), (''iat'', iat)]"

definition broadcastTokenRefresh :: "bool \<Rightarrow> string \<Rightarrow> jsval \<Rightarrow> jsval \<Rightarrow> jsval \<Rightarrow> token_client \<Rightarrow> token_client" where
  "broadcastTokenRefresh available name token expiry iat w =
     (if \<not> available then w else w\<lparr>tr_posted := tr_posted w @ [(name, token_message token expiry iat)]\<rparr>)"

definition handleTabMessage ::
  "host \<Rightarrow> deep_equal \<Rightarrow> refresh_config \<Rightarrow> string option \<Rightarrow> int \<Rightarrow> jsval \<Rightarrow> token_client \<Rightarrow> js_error option \<times> token_client" where
  "handleTabMessage h same opts tokenRefreshedEvent now data w =
     (if get_prop data ''type'' = JStr TOKEN_REFRESHED \<and> js_typeof (get_prop data ''token'') = ''string'' \<and> js_typeof (get_prop data ''exp'') = ''number''
      then
        (let token = get_prop data ''token''; expiry = get_prop data ''exp''; iat = get_prop data ''iat'';
             context = [(''token'', token), (''exp'', expiry)];
             context = (if js_typeof iat = ''number'' then context @ [(''iat'', iat), (''_tokenReceivedAt'', jint now)] else context) in
         (case tr_updateContext h same opts now (JObj context) w of
            (Some err, w) \<Rightarrow> (Some err, w)
          | (None, w) \<Rightarrow>
              (None,
               case tokenRefreshedEvent of
                 None \<Rightarrow> w
               | Some e \<Rightarrow> if e = [] then w else w\<lparr>tr_emitted := tr_emitted w @ [(e, JObj [(''token'', token), (''exp'', expiry)])]\<rparr>)))
      else (None, w))"

section \<open>The answer of a refresh\<close>

definition refresh_failed :: "host \<Rightarrow> refresh_config \<Rightarrow> int \<Rightarrow> nat \<Rightarrow> rejection \<Rightarrow> token_client \<Rightarrow> token_client" where
  "refresh_failed h opts now c err w =
     (case isAuthFailureError h err of
        Inl broken \<Rightarrow> settle_caller (Inl (Reason broken)) (w\<lparr>tr_isRefreshing := False\<rparr>) c
      | Inr isAuthFailure \<Rightarrow>
          (let w = (if isAuthFailure then tr_clearContext h opts now w else w) in
           settle_caller (Inl err) ((processQueue (Inl err) w)\<lparr>tr_isRefreshing := False\<rparr>) c))"

definition refresh_answered ::
  "host \<Rightarrow> deep_equal \<Rightarrow> bool \<Rightarrow> refresh_config \<Rightarrow> int \<Rightarrow> nat \<Rightarrow> settlement \<Rightarrow> token_client \<Rightarrow> token_client" where
  "refresh_answered h same available opts now c answer w =
     (let w = w\<lparr>tr_flights := filter (\<lambda>c'. c' \<noteq> c) (tr_flights w)\<rparr> in
      case answer of
        Inl err \<Rightarrow> refresh_failed h opts now c err w
      | Inr result \<Rightarrow>
          if \<not> truthy result then refresh_failed h opts now c (Reason (Error ''Token refresh failed'')) w
          else
            (let token = get_prop result ''accessToken''; expiry = get_prop result ''exp''; iat = get_prop result ''iat'' in
             case tr_updateContext h same opts now
                    (JObj [(''token'', token), (''exp'', expiry), (''iat'', iat), (''_tokenReceivedAt'', jint now)]) w of
               (Some err, w) \<Rightarrow> refresh_failed h opts now c (Reason err) w
             | (None, w) \<Rightarrow>
                 (let w = (if rf_broadcastChannelName opts = [] then w
                           else broadcastTokenRefresh available (rf_broadcastChannelName opts) token expiry iat w) in
                  settle_caller (Inr token) ((processQueue (Inr token) w)\<lparr>tr_isRefreshing := False\<rparr>) c)))"

section \<open>Set up, clean up and steps\<close>

definition setupCrossTabSync :: "bool \<Rightarrow> string \<Rightarrow> token_client \<Rightarrow> token_client" where
  "setupCrossTabSync available name w = (if \<not> available then w else w\<lparr>tr_channel := Some name\<rparr>)"

definition setupTokenRefreshOnExpiry :: "host \<Rightarrow> bool \<Rightarrow> refresh_config \<Rightarrow> int \<Rightarrow> token_client \<Rightarrow> token_client" where
  "setupTokenRefreshOnExpiry h available opts now w =
     (let w = (if rf_broadcastChannelName opts = [] then w else setupCrossTabSync available (rf_broadcastChannelName opts) w) in
      (scheduleRefresh h opts now w)\<lparr>tr_listening := True\<rparr>)"

definition cleanup_refresh :: "token_client \<Rightarrow> token_client" where
  "cleanup_refresh w =
     (let w = (case tr_refreshTimeout w of None \<Rightarrow> w | Some t \<Rightarrow> clear_timer t w) in
      w\<lparr>tr_listening := False, tr_channel := None\<rparr>)"

text \<open>
  What may happen to a client: the application refreshes, changes its context or stops the schedule,
  a refresh is answered, a rejected attempt reaches its handler, a timer fires, another tab posts.
\<close>

datatype token_label =
    AppRefresh
  | AppSetContext jsobj
  | AppUpdateContext jsval
  | AppClearContext
  | Answered nat settlement
  | Caught nat
  | Fired nat
  | TabPosted jsval
  | Cleanup

fun token_enabled :: "token_label \<Rightarrow> token_client \<Rightarrow> bool" where
  "token_enabled (Answered c _) w = (c \<in> set (tr_flights w))"
| "token_enabled (Caught k) w = (k < length (tr_catches w))"
| "token_enabled (Fired t) w = (map_of (tr_timers w) t \<noteq> None)"
| "token_enabled (TabPosted _) w = (tr_channel w \<noteq> None)"
| "token_enabled _ w = True"

fun token_step :: "host \<Rightarrow> deep_equal \<Rightarrow> bool \<Rightarrow> refresh_config \<Rightarrow> int \<Rightarrow> token_label \<Rightarrow> token_client \<Rightarrow> token_client" where
  "token_step h same available opts now AppRefresh w = refreshAccessToken False opts w"
| "token_step h same available opts now (AppSetContext context) w = tr_setContext h opts now context w"
| "token_step h same available opts now (AppUpdateContext context) w = snd (tr_updateContext h same opts now context w)"
| "token_step h same available opts now AppClearContext w = tr_clearContext h opts now w"
| "token_step h same available opts now (Answered c answer) w = refresh_answered h same available opts now c answer w"
| "token_step h same available opts now (Caught k) w =
     attempt_failed h (snd (tr_catches w ! k)) (w\<lparr>tr_catches := take k (tr_catches w) @ drop (Suc k) (tr_catches w)\<rparr>)"
| "token_step h same available opts now (Fired t) w =
     (case map_of (tr_timers w) t of
        Some (AttemptJob, _) \<Rightarrow> refreshAccessToken True opts (clear_timer t w)
      | Some (ScheduleJob, _) \<Rightarrow> scheduleRefresh h opts now (clear_timer t w)
      | None \<Rightarrow> w)"
| "token_step h same available opts now (TabPosted data) w = snd (handleTabMessage h same opts None now data w)"
| "token_step h same available opts now Cleanup w = cleanup_refresh w"


text \<open>
  The states of a client whose schedule was set up. In a \<open>calm\<close> run every change of the context is
  announced: the storage accepts it, a new token differs from the old one, and a failed refresh
  carries an error that can be classified.
\<close>

definition announced :: "host \<Rightarrow> deep_equal \<Rightarrow> bool \<Rightarrow> refresh_config \<Rightarrow> int \<Rightarrow> token_label \<Rightarrow> token_client \<Rightarrow> bool" where
  "announced h same available opts now l w \<longleftrightarrow>
     (let w' = token_step h same available opts now l w;
          told = (cm_changes (tr_manager w') \<noteq> cm_changes (tr_manager w)) in
      (tr_context w' \<noteq> tr_context w \<longrightarrow> told) \<and>
      (case l of
         Answered c (Inr result) \<Rightarrow> truthy result \<longrightarrow> told
       | Answered c (Inl err) \<Rightarrow> (case isAuthFailureError h err of Inl _ \<Rightarrow> False | Inr _ \<Rightarrow> True)
       | _ \<Rightarrow> True))"

inductive token_run :: "host \<Rightarrow> deep_equal \<Rightarrow> bool \<Rightarrow> refresh_config \<Rightarrow> bool \<Rightarrow> token_client \<Rightarrow> bool"
  for h same available opts calm where
  initial: "token_run h same available opts calm (setupTokenRefreshOnExpiry h available opts now (new_token_client m))"
| step: "token_run h same available opts calm w \<Longrightarrow> token_enabled l w \<Longrightarrow> (calm \<Longrightarrow> announced h same available opts now l w) \<Longrightarrow>
    token_run h same available opts calm (token_step h same available opts now l w)"

section \<open>One refresh at a time\<close>

text \<open>The part of the state the promises are about; the timers and the context do not belong to it.\<close>

definition acct :: "token_client \<Rightarrow> bool \<times> nat list \<times> nat \<times> nat list \<times> (nat \<times> settlement) list \<times> nat list \<times> (nat \<times> rejection) list" where
  "acct w = (tr_isRefreshing w, tr_failedQueue w, tr_callers w, tr_flights w, tr_settled w, tr_attempts w, tr_catches w)"

lemma acct_fields [simp]:
  "acct (set_timer job d w) = acct w"
  "acct (clear_timer t w) = acct w"
  "acct (w\<lparr>tr_manager := m\<rparr>) = acct w"
  "acct (w\<lparr>tr_refreshTimeout := r\<rparr>) = acct w"
  "acct (w\<lparr>tr_listening := b\<rparr>) = acct w"
  "acct (w\<lparr>tr_channel := n\<rparr>) = acct w"
  "acct (w\<lparr>tr_emitted := es\<rparr>) = acct w"
  "acct (broadcastTokenRefresh av name token expiry iat w) = acct w"
  "acct (setupCrossTabSync av name w) = acct w"
  by (simp_all add: acct_def set_timer_def clear_timer_def broadcastTokenRefresh_def setupCrossTabSync_def)

lemma acct_cleanup [simp]: "acct (cleanup_refresh w) = acct w"
  by (auto simp: cleanup_refresh_def Let_def acct_def clear_timer_def split: option.splits)

lemma acct_schedule:
  obtains v where "acct v = acct w" and "scheduleRefresh h opts now w = v"
  | v where "acct v = acct w" and "\<not> tr_isRefreshing v" and "scheduleRefresh h opts now w = refreshAccessToken True opts v"
proof -
  define v where "v = (case tr_refreshTimeout w of None \<Rightarrow> w | Some t \<Rightarrow> (clear_timer t w)\<lparr>tr_refreshTimeout := None\<rparr>)"
  have v: "acct v = acct w" by (simp add: v_def split: option.splits)
  have eq: "scheduleRefresh h opts now w =
      (if \<not> truthy (obj_get (tr_context v) ''exp'') then v
       else if not_positive (timeUntilRefresh h opts now (tr_context v))
       then if tr_isRefreshing v then set_timer ScheduleJob (Fin 1000) v else refreshAccessToken True opts v
       else set_timer AttemptJob (timeUntilRefresh h opts now (tr_context v)) v)"
    by (simp add: scheduleRefresh_def Let_def v_def)
  show thesis
  proof (cases "scheduleRefresh h opts now w = refreshAccessToken True opts v \<and> \<not> tr_isRefreshing v")
    case True
    then show thesis using that(2) v by blast
  next
    case False
    then have "acct (scheduleRefresh h opts now w) = acct w" using eq v by auto
    then show thesis using that(1) by blast
  qed
qed

lemma acct_busy: "tr_isRefreshing w \<Longrightarrow> acct (scheduleRefresh h opts now w) = acct w"
  by (rule acct_schedule [of w h opts now]) (auto simp: acct_def)

lemma acct_changed: "tr_isRefreshing w \<Longrightarrow> acct (context_changed h opts now m w) = acct w"
  using acct_busy [of "w\<lparr>tr_manager := m\<rparr>"] by (simp add: context_changed_def)

definition flight_ok :: "token_client \<Rightarrow> bool" where
  "flight_ok w \<longleftrightarrow>
     (if tr_isRefreshing w then \<exists>c. tr_flights w = [c] else tr_flights w = []) \<and>
     mset (map fst (tr_settled w)) + mset (tr_failedQueue w) + mset (tr_flights w) = mset_set {0..<tr_callers w}"

lemma flight_ok_acct: "acct v = acct w \<Longrightarrow> flight_ok w \<Longrightarrow> flight_ok v"
  by (simp add: flight_ok_def acct_def)

lemma flight_ok_refresh: "flight_ok w \<Longrightarrow> flight_ok (refreshAccessToken b opts w)"
  by (auto simp: flight_ok_def refreshAccessToken_def Let_def atLeast0_lessThan_Suc)

lemma flight_ok_schedule: "flight_ok w \<Longrightarrow> flight_ok (scheduleRefresh h opts now w)"
  by (rule acct_schedule [of w h opts now]) (auto intro: flight_ok_refresh flight_ok_acct)

lemma flight_ok_changed: "flight_ok w \<Longrightarrow> flight_ok (context_changed h opts now m w)"
  using flight_ok_schedule [OF flight_ok_acct [of "w\<lparr>tr_manager := m\<rparr>"]] flight_ok_acct [of "w\<lparr>tr_manager := m\<rparr>" w]
  by (simp add: context_changed_def)

lemma settle_all:
  "foldl (settle_caller r) w cs =
     w\<lparr>tr_settled := tr_settled w @ map (\<lambda>c. (c, r)) cs,
       tr_catches := tr_catches w @ (case r of Inl err \<Rightarrow> map (\<lambda>c. (c, err)) (filter (\<lambda>c. c \<in> set (tr_attempts w)) cs) | Inr _ \<Rightarrow> [])\<rparr>"
  by (induction cs arbitrary: w) (auto simp: settle_caller_def split: sum.splits)

text \<open>The end of a refresh: the queue and the call itself are settled alike.\<close>

definition finish_all :: "settlement \<Rightarrow> nat \<Rightarrow> token_client \<Rightarrow> token_client" where
  "finish_all r c w = settle_caller r ((processQueue r w)\<lparr>tr_isRefreshing := False\<rparr>) c"

lemma finish_all_fields:
  "tr_isRefreshing (finish_all r c w) = False"
  "tr_failedQueue (finish_all r c w) = []"
  "tr_callers (finish_all r c w) = tr_callers w"
  "tr_flights (finish_all r c w) = tr_flights w"
  "tr_settled (finish_all r c w) = tr_settled w @ map (\<lambda>c. (c, r)) (tr_failedQueue w @ [c])"
  "tr_attempts (finish_all r c w) = tr_attempts w"
  "tr_catches (finish_all r c w) = tr_catches w @
     (case r of Inl err \<Rightarrow> map (\<lambda>c. (c, err)) (filter (\<lambda>c. c \<in> set (tr_attempts w)) (tr_failedQueue w @ [c])) | Inr _ \<Rightarrow> [])"
  "tr_manager (finish_all r c w) = tr_manager w"
  "tr_timers (finish_all r c w) = tr_timers w"
  "tr_listening (finish_all r c w) = tr_listening w"
  "tr_posted (finish_all r c w) = tr_posted w"
  by (auto simp: finish_all_def processQueue_def settle_all settle_caller_def split: sum.splits)

lemma reason_classified: "\<exists>b. isAuthFailureError h (Reason err) = Inr b"
  by (auto simp: isAuthFailureError_def js_includes_def Let_def)

lemma failed_form:
  "isAuthFailureError h err = Inr b \<Longrightarrow>
     refresh_failed h opts now c err w = finish_all (Inl err) c (if b then tr_clearContext h opts now w else w)"
  by (simp add: refresh_failed_def finish_all_def Let_def)

lemma acct_clear: "tr_isRefreshing w \<Longrightarrow> acct (tr_clearContext h opts now w) = acct w"
  by (simp add: tr_clearContext_def acct_changed)

lemma acct_update: "tr_isRefreshing w \<Longrightarrow> acct (snd (tr_updateContext h same opts now context w)) = acct w"
  by (simp add: tr_updateContext_def acct_changed split_beta)

lemma acct_refreshing: "acct v = acct w \<Longrightarrow> tr_isRefreshing v = tr_isRefreshing w"
  by (simp add: acct_def)

text \<open>What an answer comes to: the settlement of all who wait, on a state with the same promises.\<close>

definition token_update :: "int \<Rightarrow> jsval \<Rightarrow> jsval" where
  "token_update now result =
     JObj [(''token'', get_prop result ''accessToken''), (''exp'', get_prop result ''exp''), (''iat'', get_prop result ''iat''),
           (''_tokenReceivedAt'', jint now)]"

inductive refresh_outcome :: "host \<Rightarrow> deep_equal \<Rightarrow> refresh_config \<Rightarrow> int \<Rightarrow> settlement \<Rightarrow> token_client \<Rightarrow> settlement \<Rightarrow> context_manager \<Rightarrow> bool"
  for h same opts now answer w where
  renewed: "answer = Inr result \<Longrightarrow> truthy result \<Longrightarrow> cm_updateContext h same (token_update now result) (tr_manager w) = (None, m) \<Longrightarrow>
    refresh_outcome h same opts now answer w (Inr (get_prop result ''accessToken'')) m"
| unstored: "answer = Inr result \<Longrightarrow> truthy result \<Longrightarrow> cm_updateContext h same (token_update now result) (tr_manager w) = (Some err, m) \<Longrightarrow>
    isAuthFailureError h (Reason err) = Inr b \<Longrightarrow> refresh_outcome h same opts now answer w (Inl (Reason err)) (if b then cm_clearContext m else m)"
| empty: "answer = Inr result \<Longrightarrow> \<not> truthy result \<Longrightarrow>
    refresh_outcome h same opts now answer w (Inl (Reason (Error ''Token refresh failed''))) (cm_clearContext (tr_manager w))"
| refused: "answer = Inl err \<Longrightarrow> isAuthFailureError h err = Inr b \<Longrightarrow>
    refresh_outcome h same opts now answer w (Inl err) (if b then cm_clearContext (tr_manager w) else tr_manager w)"

lemma manager_schedule [simp]: "tr_manager (scheduleRefresh h opts now w) = tr_manager w"
  by (auto simp: scheduleRefresh_def Let_def set_timer_def clear_timer_def refreshAccessToken_def split: option.splits)

lemma manager_changed [simp]: "tr_manager (context_changed h opts now m w) = m"
  by (simp add: context_changed_def)

lemma manager_broadcast [simp]: "tr_manager (broadcastTokenRefresh av name token expiry iat w) = tr_manager w"
  by (simp add: broadcastTokenRefresh_def)

text \<open>What becomes of the schedule while a refresh runs: the timers stay, unless a change of the context arms one.\<close>

definition tended :: "token_client \<Rightarrow> token_client \<Rightarrow> bool" where
  "tended w v \<longleftrightarrow> tr_listening v = tr_listening w \<and>
     (if cm_changes (tr_manager v) = cm_changes (tr_manager w) then tr_timers v = tr_timers w
      else tr_listening w \<and> truthy (obj_get (tr_context v) ''exp'') \<longrightarrow> tr_timers v \<noteq> [])"

lemma schedule_timer: "tr_isRefreshing w \<Longrightarrow> truthy (obj_get (tr_context w) ''exp'') \<Longrightarrow> tr_timers (scheduleRefresh h opts now w) \<noteq> []"
  by (auto simp: scheduleRefresh_def Let_def set_timer_def clear_timer_def split: option.splits)

lemma listening_schedule [simp]: "tr_listening (scheduleRefresh h opts now w) = tr_listening w"
  by (auto simp: scheduleRefresh_def Let_def set_timer_def clear_timer_def refreshAccessToken_def split: option.splits)

lemma listening_changed [simp]: "tr_listening (context_changed h opts now m w) = tr_listening w"
  by (simp add: context_changed_def)

lemma tended_changed: "tr_isRefreshing w \<Longrightarrow> tended w (context_changed h opts now m w)"
  using schedule_timer [of "w\<lparr>tr_manager := m\<rparr>" h opts now] by (auto simp: tended_def context_changed_def)

lemma tended_refl: "tended w w"
  by (simp add: tended_def)

lemma tended_then: "tended w v \<Longrightarrow> cm_changes (tr_manager v) = cm_changes (tr_manager w) \<Longrightarrow> tended v u \<Longrightarrow> tended w u"
  by (simp add: tended_def)

lemma tended_flights [simp]: "tended (w\<lparr>tr_flights := cs\<rparr>) v = tended w v"
  by (simp add: tended_def)

lemma tended_broadcast [simp]: "tended w (broadcastTokenRefresh av name token expiry iat v) = tended w v"
  by (simp add: tended_def broadcastTokenRefresh_def)

lemma update_error_silent: "cm_updateContext h same context m = (Some err, m') \<Longrightarrow> cm_changes m' = cm_changes m"
  by (auto simp: cm_updateContext_def cm_setContext_def Let_def split: if_splits sum.splits)

lemma failed_outcome:
  assumes "tr_isRefreshing w" and "isAuthFailureError h err = Inr b"
  shows "\<exists>v. acct v = acct w \<and> refresh_failed h opts now c err w = finish_all (Inl err) c v \<and>
     tr_manager v = (if b then cm_clearContext (tr_manager w) else tr_manager w) \<and> tended w v"
  using assms acct_clear [of w h opts now] tended_changed [of w h opts now]
  by (intro exI [of _ "if b then tr_clearContext h opts now w else w"]) (simp add: failed_form tr_clearContext_def tended_refl)

lemma answered_form:
  "tr_flights w = [c] \<Longrightarrow> refresh_answered h same available opts now c answer w =
     (let v = w\<lparr>tr_flights := []\<rparr> in
      case answer of
        Inl err \<Rightarrow> refresh_failed h opts now c err v
      | Inr result \<Rightarrow>
          if \<not> truthy result then refresh_failed h opts now c (Reason (Error ''Token refresh failed'')) v
          else
            (case tr_updateContext h same opts now (token_update now result) v of
               (Some err, w) \<Rightarrow> refresh_failed h opts now c (Reason err) w
             | (None, w) \<Rightarrow>
                 finish_all (Inr (get_prop result ''accessToken'')) c
                   (if rf_broadcastChannelName opts = [] then w
                    else broadcastTokenRefresh available (rf_broadcastChannelName opts) (get_prop result ''accessToken'')
                      (get_prop result ''exp'') (get_prop result ''iat'') w)))"
  by (cases answer) (auto simp: refresh_answered_def Let_def token_update_def finish_all_def split: prod.splits option.splits)

lemma renewal_outcome:
  assumes "tr_isRefreshing w" and "tr_flights w = [c]" and r: "answer = Inr result" "truthy result"
  shows "\<exists>v o' m. acct v = acct (w\<lparr>tr_flights := []\<rparr>) \<and> refresh_answered h same available opts now c answer w = finish_all o' c v \<and>
     tr_manager v = m \<and> refresh_outcome h same opts now answer w o' m \<and> tended w v"
proof -
  let ?w = "w\<lparr>tr_flights := []\<rparr>"
  obtain e m where u: "cm_updateContext h same (token_update now result) (tr_manager w) = (e, m)" by fastforce
  define v where "v = context_changed h opts now m ?w"
  have v: "acct v = acct ?w" "tr_manager v = m" "tr_updateContext h same opts now (token_update now result) ?w = (e, v)" "tended w v"
    using assms(1) u tended_changed [of ?w h opts now m] by (simp_all add: v_def acct_changed tr_updateContext_def)
  show ?thesis
  proof (cases e)
    case None
    have "refresh_outcome h same opts now answer w (Inr (get_prop result ''accessToken'')) m"
      using r u None by (intro refresh_outcome.renewed) simp_all
    then show ?thesis using r v None
      by (intro exI [of _ "if rf_broadcastChannelName opts = [] then v
            else broadcastTokenRefresh available (rf_broadcastChannelName opts) (get_prop result ''accessToken'')
              (get_prop result ''exp'') (get_prop result ''iat'') v"] exI [of _ "Inr (get_prop result ''accessToken'')"] exI [of _ m])
        (simp add: answered_form [OF assms(2)])
  next
    case (Some err)
    obtain b where b: "isAuthFailureError h (Reason err) = Inr b" using reason_classified by blast
    have o: "refresh_outcome h same opts now answer w (Inl (Reason err)) (if b then cm_clearContext m else m)"
      using refresh_outcome.unstored [OF r _ b] u Some by simp
    have "tr_isRefreshing v" using v(1) assms(1) by (simp add: acct_def)
    from failed_outcome [OF this b, of opts now c] obtain v' where
      "acct v' = acct v" "refresh_failed h opts now c (Reason err) v = finish_all (Inl (Reason err)) c v'"
      "tr_manager v' = (if b then cm_clearContext m else m)" "tended v v'" using v(2) by blast
    then show ?thesis using r v Some o tended_then [OF v(4), of v'] update_error_silent u
      by (intro exI [of _ v'] exI [of _ "Inl (Reason err)"] exI [of _ "if b then cm_clearContext m else m"])
        (simp add: answered_form [OF assms(2)])
  qed
qed

lemma answered_outcome:
  assumes "tr_isRefreshing w" and "tr_flights w = [c]" and "\<And>err. answer = Inl err \<Longrightarrow> \<exists>b. isAuthFailureError h err = Inr b"
  shows "\<exists>v o' m. acct v = acct (w\<lparr>tr_flights := []\<rparr>) \<and> refresh_answered h same available opts now c answer w = finish_all o' c v \<and>
     tr_manager v = m \<and> refresh_outcome h same opts now answer w o' m \<and> tended w v"
proof -
  let ?w = "w\<lparr>tr_flights := []\<rparr>"
  have w: "tr_isRefreshing ?w" using assms(1) by simp
  have failed: ?thesis if "refresh_answered h same available opts now c answer w = refresh_failed h opts now c err ?w"
    and b: "isAuthFailureError h err = Inr b"
    and "refresh_outcome h same opts now answer w (Inl err) (if b then cm_clearContext (tr_manager w) else tr_manager w)" for err b
  proof -
    from failed_outcome [OF w b, of opts now c] obtain v where "acct v = acct ?w"
      "refresh_failed h opts now c err ?w = finish_all (Inl err) c v" "tr_manager v = (if b then cm_clearContext (tr_manager w) else tr_manager w)" "tended w v"
      by auto
    then show ?thesis using that by (intro exI [of _ v] exI [of _ "Inl err"] exI [of _ "tr_manager v"]) simp
  qed
  consider (refused) err where "answer = Inl err" | (empty) result where "answer = Inr result" "\<not> truthy result"
    | (renewed) result where "answer = Inr result" "truthy result" by (cases answer) auto
  then show ?thesis
  proof cases
    case refused
    then obtain b where b: "isAuthFailureError h err = Inr b" using assms(3) by blast
    show ?thesis by (rule failed [OF _ b]) (use refused refresh_outcome.refused [OF refused b] in \<open>simp_all add: answered_form [OF assms(2)]\<close>)
  next
    case empty
    have b: "isAuthFailureError h (Reason (Error ''Token refresh failed'')) = Inr True" by (simp add: isAuthFailureError_def Let_def)
    show ?thesis by (rule failed [OF _ b]) (use empty refresh_outcome.empty [OF empty] in \<open>simp_all add: answered_form [OF assms(2)]\<close>)
  qed (rule renewal_outcome [OF assms(1,2)])
qed

lemma flight_ok_finish: "acct v = acct (w\<lparr>tr_flights := []\<rparr>) \<Longrightarrow> tr_flights w = [c] \<Longrightarrow> flight_ok w \<Longrightarrow> flight_ok (finish_all r c v)"
  by (auto simp: flight_ok_def finish_all_fields acct_def comp_def)

lemma flight_ok_answered:
  assumes "flight_ok w" and "c \<in> set (tr_flights w)"
  shows "flight_ok (refresh_answered h same available opts now c answer w)"
proof -
  have w: "tr_isRefreshing w" "tr_flights w = [c]" using assms by (auto simp: flight_ok_def split: if_splits)
  show ?thesis
  proof (cases "\<exists>err broken. answer = Inl err \<and> isAuthFailureError h err = Inl broken")
    case True
    then show ?thesis using w assms(1)
      by (auto simp: answered_form refresh_failed_def flight_ok_def settle_caller_def Let_def)
  next
    case False
    then have "\<exists>b. isAuthFailureError h err = Inr b" if "answer = Inl err" for err using that by (cases "isAuthFailureError h err") auto
    from answered_outcome [OF w this] show ?thesis using flight_ok_finish [OF _ w(2) assms(1)] by metis
  qed
qed

lemma flight_ok_fields [simp]:
  "flight_ok (set_timer job d w) = flight_ok w"
  "flight_ok (clear_timer t w) = flight_ok w"
  "flight_ok (w\<lparr>tr_catches := es\<rparr>) = flight_ok w"
  "flight_ok (w\<lparr>tr_emitted := vs\<rparr>) = flight_ok w"
  "flight_ok (w\<lparr>tr_listening := b\<rparr>) = flight_ok w"
  "flight_ok (cleanup_refresh w) = flight_ok w"
  "flight_ok (setupCrossTabSync av name w) = flight_ok w"
  by (simp_all add: flight_ok_def set_timer_def clear_timer_def cleanup_refresh_def setupCrossTabSync_def Let_def split: option.splits)

lemma flight_ok_update: "flight_ok w \<Longrightarrow> flight_ok (snd (tr_updateContext h same opts now context w))"
  by (simp add: tr_updateContext_def split_beta flight_ok_changed)

lemma flight_ok_message: "flight_ok w \<Longrightarrow> flight_ok (snd (handleTabMessage h same opts e now data w))"
  using flight_ok_update [of w h same opts now] by (auto simp: handleTabMessage_def Let_def split: prod.splits option.splits) (metis snd_conv)+

lemma flight_ok_step:
  assumes "flight_ok w" and "token_enabled l w"
  shows "flight_ok (token_step h same available opts now l w)"
proof (cases l)
  case (Caught k)
  then show ?thesis using assms(1) by (simp add: attempt_failed_def split: sum.splits bool.splits)
next
  case (Fired t)
  then show ?thesis using assms(1) by (auto simp: flight_ok_refresh flight_ok_schedule split: option.splits timer_job.splits)
qed (use assms in \<open>simp_all add: flight_ok_refresh flight_ok_changed flight_ok_answered flight_ok_update flight_ok_message
      tr_setContext_def tr_clearContext_def\<close>)

lemma new_flight_ok: "flight_ok (new_token_client m)"
  by (simp add: flight_ok_def new_token_client_def)

lemma flight_ok_setup: "flight_ok (setupTokenRefreshOnExpiry h available opts now (new_token_client m))"
  unfolding setupTokenRefreshOnExpiry_def Let_def
  by (simp add: flight_ok_schedule new_flight_ok)

lemma run_flight_ok: "token_run h same available opts calm w \<Longrightarrow> flight_ok w"
  by (induction rule: token_run.induct) (simp_all add: flight_ok_setup flight_ok_step)

text \<open>
  One refresh at a time. In every state of a client whose schedule was set up there is exactly one
  request under way while \<open>isRefreshing\<close> is set and none otherwise, and every call of
  \<open>refreshAccessToken\<close> is in exactly one place: it waits for that request, it waits in the queue, or
  its promise was settled once.
\<close>

theorem refresh_single_flight:
  assumes "token_run h same available opts calm w"
  shows "length (tr_flights w) = (if tr_isRefreshing w then 1 else 0) \<and>
    distinct (map fst (tr_settled w) @ tr_failedQueue w @ tr_flights w) \<and>
    set (map fst (tr_settled w) @ tr_failedQueue w @ tr_flights w) = {0..<tr_callers w}"
proof -
  have m: "mset (map fst (tr_settled w) @ tr_failedQueue w @ tr_flights w) = mset_set {0..<tr_callers w}"
    using run_flight_ok [OF assms] by (simp add: flight_ok_def add.assoc)
  then have "mset (map fst (tr_settled w) @ tr_failedQueue w @ tr_flights w) = mset [0..<tr_callers w]" by simp
  then have "distinct (map fst (tr_settled w) @ tr_failedQueue w @ tr_flights w)" using mset_eq_imp_distinct_iff distinct_upt by metis
  moreover have "set (map fst (tr_settled w) @ tr_failedQueue w @ tr_flights w) = {0..<tr_callers w}"
    using arg_cong [OF m, of set_mset] by simp
  moreover have "length (tr_flights w) = (if tr_isRefreshing w then 1 else 0)"
    using run_flight_ok [OF assms] by (auto simp: flight_ok_def split: if_splits)
  ultimately show ?thesis by blast
qed



section \<open>The schedule never lapses\<close>

definition armed :: "host \<Rightarrow> token_client \<Rightarrow> bool" where
  "armed h w \<longleftrightarrow> tr_timers w \<noteq> [] \<or> (\<exists>c \<in> set (tr_flights w @ tr_failedQueue w). c \<in> set (tr_attempts w)) \<or>
     (\<exists>(c, err) \<in> set (tr_catches w). isAuthFailureError h err = Inr False)"

definition watched :: "host \<Rightarrow> token_client \<Rightarrow> bool" where
  "watched h w \<longleftrightarrow> (tr_listening w \<and> truthy (obj_get (tr_context w) ''exp'') \<longrightarrow> armed h w) \<and> (\<not> tr_isRefreshing w \<longrightarrow> tr_failedQueue w = [])"

lemma armed_schedule: "truthy (obj_get (tr_context w) ''exp'') \<Longrightarrow> armed h (scheduleRefresh h opts now w)"
  by (auto simp: scheduleRefresh_def armed_def Let_def set_timer_def clear_timer_def refreshAccessToken_def split: option.splits)

lemma queue_schedule: "\<not> tr_isRefreshing w \<longrightarrow> tr_failedQueue w = [] \<Longrightarrow>
    \<not> tr_isRefreshing (scheduleRefresh h opts now w) \<longrightarrow> tr_failedQueue (scheduleRefresh h opts now w) = []"
  by (rule acct_schedule [of w h opts now]) (auto simp: acct_def refreshAccessToken_def Let_def)

lemma watched_schedule: "watched h w \<Longrightarrow> watched h (scheduleRefresh h opts now w)"
  using armed_schedule [of w h opts now] queue_schedule [of w h opts now] by (simp add: watched_def)

lemma watched_changed:
  assumes "watched h w" and "cm_context m \<noteq> tr_context w \<longrightarrow> cm_changes m \<noteq> cm_changes (tr_manager w)"
  shows "watched h (context_changed h opts now m w)"
  using assms armed_schedule [of "w\<lparr>tr_manager := m\<rparr>" h opts now] queue_schedule [of "w\<lparr>tr_manager := m\<rparr>" h opts now]
  by (auto simp: watched_def context_changed_def armed_def)

lemma watched_refresh: "watched h w \<Longrightarrow> watched h (refreshAccessToken b opts w)"
  by (auto simp: watched_def armed_def refreshAccessToken_def Let_def)

lemma watched_attempt: "watched h w \<Longrightarrow> watched h (refreshAccessToken True opts (clear_timer t w))"
  by (auto simp: watched_def armed_def refreshAccessToken_def clear_timer_def Let_def)

lemma watched_caught:
  assumes "watched h w" and "k < length (tr_catches w)"
  shows "watched h (attempt_failed h (snd (tr_catches w ! k)) (w\<lparr>tr_catches := take k (tr_catches w) @ drop (Suc k) (tr_catches w)\<rparr>))"
proof -
  let ?es = "take k (tr_catches w) @ drop (Suc k) (tr_catches w)"
  have split: "tr_catches w = take k (tr_catches w) @ tr_catches w ! k # drop (Suc k) (tr_catches w)" using assms(2) by (rule id_take_nth_drop)
  show ?thesis
  proof (cases "isAuthFailureError h (snd (tr_catches w ! k)) = Inr False")
    case True
    then show ?thesis using assms(1) by (simp add: attempt_failed_def watched_def armed_def set_timer_def)
  next
    case False
    then have "(\<exists>(c, err) \<in> set (tr_catches w). isAuthFailureError h err = Inr False) = (\<exists>(c, err) \<in> set ?es. isAuthFailureError h err = Inr False)"
      by (subst split) auto
    then show ?thesis using False assms(1) by (auto simp: attempt_failed_def watched_def armed_def split: sum.splits bool.splits)
  qed
qed

lemma watched_answered:
  assumes "flight_ok w" and "watched h w" and "c \<in> set (tr_flights w)" and "announced h same available opts now (Answered c answer) w"
  shows "watched h (refresh_answered h same available opts now c answer w)"
proof -
  have w: "tr_isRefreshing w" "tr_flights w = [c]" using assms(1,3) by (auto simp: flight_ok_def split: if_splits)
  have "\<exists>b. isAuthFailureError h err = Inr b" if "answer = Inl err" for err
    using assms(4) that by (auto simp: announced_def Let_def split: sum.splits)
  from answered_outcome [OF w this, where same = same and available = available and opts = opts and now = now] obtain v o' where
    v: "acct v = acct (w\<lparr>tr_flights := []\<rparr>)" "refresh_answered h same available opts now c answer w = finish_all o' c v"
      "refresh_outcome h same opts now answer w o' (tr_manager v)" "tended w v" by blast
  have a: "tr_context v \<noteq> tr_context w \<longrightarrow> cm_changes (tr_manager v) \<noteq> cm_changes (tr_manager w)"
    "\<And>result. answer = Inr result \<Longrightarrow> truthy result \<Longrightarrow> cm_changes (tr_manager v) \<noteq> cm_changes (tr_manager w)"
    using assms(4) v(2) by (auto simp: announced_def Let_def finish_all_fields)
  show ?thesis
  proof (cases "cm_changes (tr_manager v) = cm_changes (tr_manager w)")
    case False
    then show ?thesis using v(2,4) by (simp add: watched_def armed_def finish_all_fields tended_def)
  next
    case True
    from v(3) True a(2) obtain err where "o' = Inl err" "isAuthFailureError h err = Inr False"
      by cases (auto simp: cm_clearContext_def split: if_splits)
    moreover have "tr_context v = tr_context w" "tr_timers v = tr_timers w" "tr_listening v = tr_listening w"
      using a(1) v(4) True by (auto simp: tended_def)
    ultimately show ?thesis using assms(2) v(1,2) w by (auto simp: watched_def armed_def finish_all_fields acct_def)
  qed
qed

lemma watched_update:
  assumes "watched h w" and "w' = snd (tr_updateContext h same opts now context w)"
    and "tr_context w' \<noteq> tr_context w \<longrightarrow> cm_changes (tr_manager w') \<noteq> cm_changes (tr_manager w)"
  shows "watched h w'"
  using assms(3) watched_changed [OF assms(1)] unfolding assms(2) by (simp add: tr_updateContext_def split_beta)

lemma message_form: "snd (handleTabMessage h same opts None now data w) = w \<or>
    (\<exists>context. snd (handleTabMessage h same opts None now data w) = snd (tr_updateContext h same opts now context w))"
  by (auto simp: handleTabMessage_def Let_def split: prod.splits option.splits) (metis snd_conv)+

lemma watched_step:
  assumes "flight_ok w" and "watched h w" and "token_enabled l w" and "announced h same available opts now l w"
  shows "watched h (token_step h same available opts now l w)"
proof -
  have a: "tr_context (token_step h same available opts now l w) \<noteq> tr_context w \<longrightarrow>
      cm_changes (tr_manager (token_step h same available opts now l w)) \<noteq> cm_changes (tr_manager w)"
    using assms(4) by (simp add: announced_def Let_def)
  show ?thesis
  proof (cases l)
    case (Fired t)
    have "watched h (scheduleRefresh h opts now (clear_timer t w))"
      using armed_schedule [of "clear_timer t w" h opts now] queue_schedule [of "clear_timer t w" h opts now] assms(2)
      by (simp add: watched_def clear_timer_def)
    then show ?thesis using Fired watched_attempt [OF assms(2)] assms(2) by (auto split: option.splits timer_job.splits)
  next
    case (TabPosted data)
    then show ?thesis using message_form [of h same opts now data w] watched_update [OF assms(2) _ a] assms(2) by auto
  next
    case Cleanup
    then show ?thesis using assms(2) by (auto simp: watched_def cleanup_refresh_def clear_timer_def Let_def split: option.splits)
  next
    case (Answered c answer)
    then show ?thesis using watched_answered [OF assms(1,2)] assms(3,4) by simp
  qed (use assms(2,3) a in \<open>simp_all add: watched_refresh watched_caught watched_changed watched_update tr_setContext_def tr_clearContext_def\<close>)
qed

lemma watched_setup: "watched h (setupTokenRefreshOnExpiry h available opts now (new_token_client m))"
proof -
  let ?w = "if rf_broadcastChannelName opts = [] then new_token_client m else setupCrossTabSync available (rf_broadcastChannelName opts) (new_token_client m)"
  have "\<not> tr_isRefreshing ?w \<longrightarrow> tr_failedQueue ?w = []" by (simp add: new_token_client_def setupCrossTabSync_def)
  from queue_schedule [OF this] show ?thesis using armed_schedule [of ?w h opts now]
    by (simp add: setupTokenRefreshOnExpiry_def watched_def armed_def)
qed

lemma run_watched: "token_run h same available opts True w \<Longrightarrow> watched h w"
  by (induction rule: token_run.induct) (simp_all add: watched_setup watched_step run_flight_ok)



section \<open>When the timer is due\<close>

text \<open>
  The clocks of server and client do not matter. With the server's issue time and the local receive
  time the refresh is due the configured time before the token's lifetime has passed locally, and the
  token does not count as expired before that.
\<close>

theorem refresh_due_before_expiry:
  assumes "obj_get context ''exp'' = jint e" and "obj_get context ''iat'' = jint i" and "obj_get context ''_tokenReceivedAt'' = jint r"
    and "e \<noteq> 0" and "i \<noteq> 0" and "r \<noteq> 0" and "0 \<le> rf_refreshBeforeExpirySec opts"
  shows "\<exists>d. timeUntilRefresh h opts now context = Fin d \<and>
    of_int now + d = of_int (r + (e - i) * 1000) - rf_refreshBeforeExpirySec opts * 1000 \<and>
    (\<forall>t. of_int t \<le> of_int now + d \<longrightarrow> \<not> isTokenExpired t \<lparr>tt_exp = Some e, tt_iat = Some i, tt_tokenReceivedAt = Some r\<rparr>)"
proof (intro exI conjI allI impI)
  let ?d = "of_int (r + (e - i) * 1000 - now) - rf_refreshBeforeExpirySec opts * 1000"
  show "timeUntilRefresh h opts now context = Fin ?d"
    using assms by (simp add: timeUntilRefresh_def to_number_def num_sub_def Let_def algebra_simps)
  show "of_int now + ?d = of_int (r + (e - i) * 1000) - rf_refreshBeforeExpirySec opts * 1000" by simp
  fix t :: int
  assume "of_int t \<le> of_int now + ?d"
  then have "(of_int t :: rat) \<le> of_int (r + (e - i) * 1000)" using assms(7) by simp
  then have "t \<le> r + (e - i) * 1000" by (simp only: of_int_le_iff)
  then show "\<not> isTokenExpired t \<lparr>tt_exp = Some e, tt_iat = Some i, tt_tokenReceivedAt = Some r\<rparr>"
    using assms by (simp add: isTokenExpired_def nonzero_def)
qed

theorem refresh_due_before_expiry_witness:
  "\<exists>d. timeUntilRefresh plain_host defaultConfig 1000 [(''exp'', jint 1900), (''iat'', jint 1000), (''_tokenReceivedAt'', jint 500)] = Fin d \<and>
    of_int 1000 + d = of_int (500 + (1900 - 1000) * 1000) - rf_refreshBeforeExpirySec defaultConfig * 1000 \<and>
    (\<forall>t. of_int t \<le> of_int 1000 + d \<longrightarrow> \<not> isTokenExpired t \<lparr>tt_exp = Some 1900, tt_iat = Some 1000, tt_tokenReceivedAt = Some 500\<rparr>)"
  by (rule refresh_due_before_expiry) (simp_all add: obj_get_def defaultConfig_def)

section \<open>Every tab gets the new token\<close>

definition flat_fields :: "jsobj \<Rightarrow> bool" where
  "flat_fields s \<longleftrightarrow> distinct (map fst s) \<and> (\<forall>(k, v) \<in> set s. v \<noteq> JUndef \<and> \<not> isPlainObject v)"

lemma merge1_flat: "flat_fields s \<Longrightarrow> obj_get (merge1 t s) k = (case map_of s k of Some v \<Rightarrow> v | None \<Rightarrow> obj_get t k)"
proof (induction s arbitrary: t)
  case Nil
  then show ?case by simp
next
  case (Cons kv s)
  obtain k' v where kv: "kv = (k', v)" by fastforce
  have f: "v \<noteq> JUndef" "\<not> isPlainObject v" "flat_fields s" "k' \<notin> fst ` set s" using Cons.prems by (auto simp: kv flat_fields_def)
  have m: "merge1 t (kv # s) = merge1 (obj_set k' v t) s" using f(1,2) by (cases v) (simp_all add: kv split: jsval.splits)
  have "map_of s k' = None" using f(4) by (simp add: map_of_eq_None_iff)
  then have "obj_get (merge1 (obj_set k' v t) s) k = (case map_of ((k', v) # s) k of Some v \<Rightarrow> v | None \<Rightarrow> obj_get t k)"
    using Cons.IH [OF f(3), of "obj_set k' v t"] by (cases "k = k'") (simp_all add: obj_get_def split: option.splits)
  then show ?case unfolding m by (simp only: kv)
qed

text \<open>The package \<open>fast-deep-equal\<close>: objects that compare equal have equal fields, where those are no objects.\<close>

definition compares_fields :: "deep_equal \<Rightarrow> bool" where
  "compares_fields same \<longleftrightarrow> (\<forall>a b k. same (JObj a) (JObj b) \<longrightarrow> \<not> isObject (obj_get b k) \<longrightarrow> obj_get a k = obj_get b k)"

lemma update_writes:
  assumes "cm_updateContext h same (JObj s) m = (None, m')" and "flat_fields s" and "compares_fields same" and "(k, v) \<in> set s" and "\<not> isObject v"
  shows "obj_get (cm_context m') k = v"
proof -
  have "map_of s k = Some v" using assms(2,4) by (simp add: flat_fields_def map_of_is_SomeI)
  then have "obj_get (merge [] [cm_context m, s]) k = v" by (simp add: merge_def merge1_flat [OF assms(2)])
  then show ?thesis using assms(1,3,5)
    by (auto simp: cm_updateContext_def cm_setContext_def compares_fields_def Let_def split: if_splits sum.splits)
qed

abbreviation token_fields :: "string \<Rightarrow> jsnum \<Rightarrow> jsnum \<Rightarrow> int \<Rightarrow> jsobj" where
  "token_fields token e i now \<equiv> [(''token'', JStr token), (''exp'', JNum e), (''iat'', JNum i), (''_tokenReceivedAt'', jint now)]"

lemma message_update:
  assumes "handleTabMessage h same opts event now (token_message (JStr token) (JNum e) (JNum i)) v = (None, v')"
  shows "cm_updateContext h same (JObj (token_fields token e i now)) (tr_manager v) = (None, tr_manager v')"
proof -
  obtain err m where u: "cm_updateContext h same (JObj (token_fields token e i now)) (tr_manager v) = (err, m)" by fastforce
  have "handleTabMessage h same opts event now (token_message (JStr token) (JNum e) (JNum i)) v =
      (case (err, context_changed h opts now m v) of
         (Some err, w) \<Rightarrow> (Some err, w)
       | (None, w) \<Rightarrow>
           (None, case event of None \<Rightarrow> w
              | Some n \<Rightarrow> if n = [] then w else w\<lparr>tr_emitted := tr_emitted w @ [(n, JObj [(''token'', JStr token), (''exp'', JNum e)])]\<rparr>))"
    using u by (simp add: handleTabMessage_def token_message_def obj_get_def tr_updateContext_def)
  then show ?thesis using assms u by (auto split: option.splits if_splits)
qed

text \<open>
  A new token reaches the other tabs. A tab whose refresh succeeds posts one message, and any other
  tab that handles it holds the same token, expiry and issue time afterwards, received at its own time.
\<close>

theorem token_reaches_other_tabs:
  assumes "token_run h same True opts calm w" and "c \<in> set (tr_flights w)" and "compares_fields same" and "rf_broadcastChannelName opts \<noteq> []"
    and result: "get_prop result ''accessToken'' = JStr token" "get_prop result ''exp'' = JNum e" "get_prop result ''iat'' = JNum i"
    and w': "w' = token_step h same True opts now (Answered c (Inr result)) w" and "truthy result"
    and "fst (cm_updateContext h same (token_update now result) (tr_manager w)) = None"
    and other: "handleTabMessage h same opts' event later (token_message (JStr token) (JNum e) (JNum i)) v = (None, v')"
  shows "tr_posted w' = tr_posted w @ [(rf_broadcastChannelName opts, token_message (JStr token) (JNum e) (JNum i))] \<and>
    (\<forall>k \<in> {''token'', ''exp'', ''iat''}. obj_get (tr_context v') k = obj_get (tr_context w') k) \<and>
    obj_get (tr_context v') ''token'' = JStr token \<and> obj_get (tr_context v') ''_tokenReceivedAt'' = jint later"
proof -
  have w: "tr_isRefreshing w" "tr_flights w = [c]" using run_flight_ok [OF assms(1)] assms(2) by (auto simp: flight_ok_def split: if_splits)
  obtain m where m: "cm_updateContext h same (token_update now result) (tr_manager w) = (None, m)"
    using assms(10) by (metis prod.collapse)
  have f: "flat_fields (token_fields token e i t)" for t
    by (simp add: flat_fields_def)
  have "tr_posted (context_changed h opts now m (w\<lparr>tr_flights := []\<rparr>)) = tr_posted w"
    by (auto simp: context_changed_def scheduleRefresh_def set_timer_def clear_timer_def refreshAccessToken_def Let_def split: option.splits)
  then have p: "tr_posted w' = tr_posted w @ [(rf_broadcastChannelName opts, token_message (JStr token) (JNum e) (JNum i))]"
    and mw: "tr_manager w' = m"
    using assms(4,9) m by (simp_all add: w' answered_form [OF w(2)] tr_updateContext_def finish_all_fields result broadcastTokenRefresh_def)
  note m' = message_update [OF other]
  have fields: "obj_get (cm_context m) k = x \<and> obj_get (tr_context v') k = x"
    if "(k, x) \<in> {(''token'', JStr token), (''exp'', JNum e), (''iat'', JNum i)}" for k x
  proof -
    have kx: "(k, x) \<in> set (token_fields token e i t)" "\<not> isObject x" for t using that by (simp_all only: list.set insert_iff) (auto simp: isObject_def)
    show ?thesis using update_writes [OF m [unfolded token_update_def result] f assms(3) kx] update_writes [OF m' f assms(3) kx] by blast
  qed
  have received: "obj_get (tr_context v') ''_tokenReceivedAt'' = jint later"
    by (rule update_writes [OF m' f assms(3)]) (simp_all add: isObject_def)
  show ?thesis using p mw received fields [of "''token''" "JStr token"] fields [of "''exp''" "JNum e"] fields [of "''iat''" "JNum i"] by simp
qed


section \<open>Examples\<close>

text \<open>A token that has run out when the schedule is set up: a refresh is under way, and the application waits for it too.\<close>

definition sample_manager :: context_manager where
  "sample_manager = (new_context_manager False None)\<lparr>cm_context := [(''token'', JStr ''old''), (''exp'', jint 100)]\<rparr>"

definition sample_scheduled :: token_client where
  "sample_scheduled = setupTokenRefreshOnExpiry plain_host True defaultConfig 200000 (new_token_client sample_manager)"

definition sample_refreshing :: token_client where
  "sample_refreshing = token_step plain_host (\<lambda>_ _. False) True defaultConfig 200000 AppRefresh sample_scheduled"

definition sample_renewal :: jsval where
  "sample_renewal = JObj [(''accessToken'', JStr ''new''), (''exp'', jint 1100), (''iat'', jint 200)]"

lemma sample_token_run: "token_run plain_host (\<lambda>_ _. False) True defaultConfig calm sample_refreshing"
proof -
  have "token_run plain_host (\<lambda>_ _. False) True defaultConfig calm sample_scheduled"
    unfolding sample_scheduled_def by (rule token_run.initial)
  then show ?thesis unfolding sample_refreshing_def
    by (rule token_run.step) (simp_all add: announced_def refreshAccessToken_def Let_def)
qed

theorem refresh_single_flight_witness:
  "length (tr_flights sample_refreshing) = 1 \<and> tr_failedQueue sample_refreshing = [1] \<and>
   distinct (map fst (tr_settled sample_refreshing) @ tr_failedQueue sample_refreshing @ tr_flights sample_refreshing)"
proof -
  have "tr_isRefreshing sample_refreshing" "tr_failedQueue sample_refreshing = [1]" by code_simp+
  then show ?thesis using refresh_single_flight [OF sample_token_run [of True]] by simp
qed


text \<open>A token that is still good: nothing is under way, so the theorem gives the timer.\<close>

definition sample_armed :: token_client where
  "sample_armed = setupTokenRefreshOnExpiry plain_host True defaultConfig 1000 (new_token_client sample_manager)"


theorem token_reaches_other_tabs_witness:
  "obj_get (tr_context (snd (handleTabMessage plain_host (\<lambda>_ _. False) defaultConfig None 200200
      (token_message (JStr ''new'') (JNum (Fin 1100)) (JNum (Fin 200))) sample_scheduled))) ''token'' = JStr ''new''"
proof -
  let ?v = "handleTabMessage plain_host (\<lambda>_ _. False) defaultConfig None 200200 (token_message (JStr ''new'') (JNum (Fin 1100)) (JNum (Fin 200))) sample_scheduled"
  have m: "0 \<in> set (tr_flights sample_refreshing)" "fst ?v = None" "truthy sample_renewal"
    "fst (cm_updateContext plain_host (\<lambda>_ _. False) (token_update 200100 sample_renewal) (tr_manager sample_refreshing)) = None"
    "rf_broadcastChannelName defaultConfig \<noteq> []" by code_simp+
  have r: "get_prop sample_renewal ''accessToken'' = JStr ''new''" "get_prop sample_renewal ''exp'' = JNum (Fin 1100)"
    "get_prop sample_renewal ''iat'' = JNum (Fin 200)" by (simp_all add: sample_renewal_def obj_get_def)
  have "?v = (None, snd ?v)" using m(2) by (metis prod.collapse)
  from token_reaches_other_tabs [OF sample_token_run m(1) _ m(5) r refl m(3,4) this] show ?thesis unfolding compares_fields_def by blast
qed

text \<open>
  Stopping the schedule does not stop a refresh under way: when it fails for a passing reason, its
  handler arms a timer that nothing clears any more, and that timer schedules again.
\<close>

lemma refresh_outlives_cleanup:
  "\<exists>w. token_run plain_host (\<lambda>_ _. False) True defaultConfig True w \<and> \<not> tr_listening w \<and> tr_timers w = [(0, ScheduleJob, RETRY_DELAY_MS)] \<and>
     tr_flights (token_step plain_host (\<lambda>_ _. False) True defaultConfig 206000 (Fired 0) w) \<noteq> []"
proof -
  let ?step = "token_step plain_host (\<lambda>_ _. False) True defaultConfig"
  define a where "a = ?step 200100 Cleanup sample_scheduled"
  define b where "b = ?step 200200 (Answered 0 (Inl (Reason (Error ''offline'')))) a"
  define c where "c = ?step 200200 (Caught 0) b"
  note defs = c_def b_def a_def
  have s: "token_run plain_host (\<lambda>_ _. False) True defaultConfig True sample_scheduled"
    unfolding sample_scheduled_def by (rule token_run.initial)
  have "token_enabled Cleanup sample_scheduled" "announced plain_host (\<lambda>_ _. False) True defaultConfig 200100 Cleanup sample_scheduled" by code_simp+
  then have ra: "token_run plain_host (\<lambda>_ _. False) True defaultConfig True a" unfolding a_def by (intro token_run.step [OF s])
  have "token_enabled (Answered 0 (Inl (Reason (Error ''offline'')))) a"
    "announced plain_host (\<lambda>_ _. False) True defaultConfig 200200 (Answered 0 (Inl (Reason (Error ''offline'')))) a" unfolding defs by code_simp+
  then have rb: "token_run plain_host (\<lambda>_ _. False) True defaultConfig True b" unfolding b_def by (intro token_run.step [OF ra])
  have "token_enabled (Caught 0) b" "announced plain_host (\<lambda>_ _. False) True defaultConfig 200200 (Caught 0) b" unfolding defs by code_simp+
  then have rc: "token_run plain_host (\<lambda>_ _. False) True defaultConfig True c" unfolding c_def by (intro token_run.step [OF rb])
  have "\<not> tr_listening c" "tr_timers c = [(0, ScheduleJob, RETRY_DELAY_MS)]" "tr_flights (?step 206000 (Fired 0) c) \<noteq> []" unfolding defs by code_simp+
  then show ?thesis using rc by blast
qed

end
