(* ===== verification/LiveSource.thy ===== *)
theory LiveSource
  imports LiveObserver
begin

text \<open>
  The change source of a collection (\<open>src/mongodb/live/source.ts\<close>): one resumable change stream that
  is read by a worker and told to every observer of the collection.

  The worker is an asynchronous function, and \<open>so_pc\<close> is the await it stands at; a step runs it to
  the next one. The change streams of the MongoDB driver are surroundings of the model: \<open>so_log\<close> is
  the history of the collection, \<open>so_position\<close> the entry the current stream returns next, and a
  resume token is the position after the change that carried it. A stream opened with a token
  continues there; one opened without starts at some entry between its opening and its first answer.
  \<open>so_open\<close> are the streams the driver holds open. Whatever the driver may do, answer, end, fail or
  throw, is a label of a step. A call of \<open>subscribe\<close> brings a listener of its own; \<open>so_received\<close>
  records what each listener was told, \<open>so_joined\<close> what the source had done when it subscribed.
\<close>

section \<open>Data\<close>

record source_change =
  ch_operationType :: string
  ch_documentKey :: "jsval option"

datatype source_pc =
    Unstarted
  | FirstNext
  | FirstDispatch
  | StartClosing js_error
  | Reading
  | ChangeDispatch
  | Resetting string
  | ResetDispatch
  | RetryDelay
  | RetryNext
  | RetryDispatch
  | RetryClosing
  | Finished

text \<open>What was so when a listener subscribed: the next notice it gets, the stream's position, the length of the history, readiness.\<close>

record joined =
  jn_first :: nat
  jn_position :: nat
  jn_history :: nat
  jn_ready :: bool

record live_source =
  so_listeners :: "nat list"
  so_stream :: "nat option"
  so_closed :: bool
  so_ready :: bool
  so_readiness :: nat
  so_resolved :: "nat list"
  so_sequence :: nat
  so_resumeToken :: "nat option"
  so_pc :: source_pc
  so_notice :: "(source_notice \<times> nat list) option"
  so_startWaits :: "nat list"
  so_readyWaits :: "(nat \<times> nat) list"
  so_started :: "(nat \<times> js_error option) list"
  so_closing :: bool
  so_log :: "source_change list"
  so_position :: nat
  so_resumed :: bool
  so_streams :: nat
  so_open :: "nat list"
  so_received :: "(nat \<times> source_notice) list"
  so_joined :: "(nat \<times> joined) list"

definition new_live_source :: "source_change list \<Rightarrow> live_source" where
  "new_live_source history =
     \<lparr>so_listeners = [], so_stream = None, so_closed = False, so_ready = False, so_readiness = 0, so_resolved = [], so_sequence = 0,
      so_resumeToken = None, so_pc = Unstarted, so_notice = None, so_startWaits = [], so_readyWaits = [], so_started = [],
      so_closing = False, so_log = history, so_position = 0, so_resumed = False, so_streams = 0, so_open = [], so_received = [], so_joined = []\<rparr>"

abbreviation source_closed :: js_error where
  "source_closed \<equiv> Error ''MongoDB live change source is closed.''"

section \<open>Telling the listeners\<close>

definition deliver_notice :: "source_notice \<Rightarrow> nat list \<Rightarrow> nat \<Rightarrow> live_source \<Rightarrow> live_source" where
  "deliver_notice notice visited l s = s\<lparr>so_received := so_received s @ [(l, notice)], so_notice := Some (notice, visited @ [l])\<rparr>"

text \<open>The loop of \<open>dispatch\<close> over the set of listeners, up to its next await.\<close>

definition next_listener :: "nat list \<Rightarrow> live_source \<Rightarrow> nat option" where
  "next_listener visited s = find (\<lambda>l. l \<notin> set visited) (so_listeners s)"

definition dispatch :: "source_notice \<Rightarrow> live_source \<Rightarrow> live_source" where
  "dispatch notice s =
     (case next_listener [] s of None \<Rightarrow> s | Some l \<Rightarrow> deliver_notice notice [] l s)"

definition markUnavailable :: "live_source \<Rightarrow> live_source" where
  "markUnavailable s = (if \<not> so_ready s then s else s\<lparr>so_ready := False, so_readiness := Suc (so_readiness s)\<rparr>)"

definition resolve_readiness :: "live_source \<Rightarrow> live_source" where
  "resolve_readiness s = s\<lparr>so_resolved := so_resolved s @ [so_readiness s]\<rparr>"

definition markReady :: "live_source \<Rightarrow> live_source" where
  "markReady s = (if so_ready s then s else resolve_readiness (s\<lparr>so_ready := True\<rparr>))"

definition change_id :: "source_change \<Rightarrow> jsval option" where
  "change_id change = (case ch_documentKey change of None \<Rightarrow> None | Some key \<Rightarrow> readLiveId (get_prop key ''_id''))"

text \<open>The change at the stream's position is taken.\<close>

definition dispatchChange :: "live_source \<Rightarrow> live_source" where
  "dispatchChange s =
     (let change = so_log s ! so_position s;
          s = s\<lparr>so_position := Suc (so_position s), so_resumeToken := Some (Suc (so_position s))\<rparr> in
      if ch_operationType change = ''invalidate''
      then dispatch (Reset (Suc (so_sequence s)) ''invalidated'') ((markUnavailable s)\<lparr>so_sequence := Suc (so_sequence s)\<rparr>)
      else
        (case change_id change of
           None \<Rightarrow> s
         | Some i \<Rightarrow>
             dispatch (Change (Suc (so_sequence s)) i (ch_operationType change = ''delete'')) (s\<lparr>so_sequence := Suc (so_sequence s)\<rparr>)))"

section \<open>The stream and its worker\<close>

definition openStream :: "live_source \<Rightarrow> live_source" where
  "openStream s =
     s\<lparr>so_stream := Some (so_streams s), so_streams := Suc (so_streams s), so_open := so_open s @ [so_streams s],
       so_resumed := (so_resumeToken s \<noteq> None),
       so_position := (case so_resumeToken s of None \<Rightarrow> length (so_log s) | Some p \<Rightarrow> p)\<rparr>"

definition close_stream :: "live_source \<Rightarrow> live_source" where
  "close_stream s = s\<lparr>so_open := filter (\<lambda>i. Some i \<noteq> so_stream s) (so_open s)\<rparr>"

definition consume :: "live_source \<Rightarrow> live_source" where
  "consume s =
     (if so_closed s then s\<lparr>so_pc := Finished\<rparr>
      else (if so_stream s = None then openStream s else s)\<lparr>so_pc := Reading\<rparr>)"

definition start_failed :: "js_error \<Rightarrow> live_source \<Rightarrow> live_source" where
  "start_failed err s = (close_stream s)\<lparr>so_pc := StartClosing err\<rparr>"

definition start_settled :: "js_error option \<Rightarrow> live_source \<Rightarrow> live_source" where
  "start_settled r s = s\<lparr>so_started := so_started s @ map (\<lambda>k. (k, r)) (so_startWaits s), so_startWaits := []\<rparr>"

definition establishInitial :: "js_error option \<Rightarrow> live_source \<Rightarrow> live_source" where
  "establishInitial throws s =
     (case throws of Some err \<Rightarrow> start_failed err s | None \<Rightarrow> (openStream s)\<lparr>so_pc := FirstNext\<rparr>)"

definition initial_established :: "live_source \<Rightarrow> live_source" where
  "initial_established s =
     (if so_closed s then start_failed source_closed s else start_settled None (consume (markReady s)))"

definition resetAndReopen :: "string \<Rightarrow> live_source \<Rightarrow> live_source" where
  "resetAndReopen reason s = (close_stream (markUnavailable s))\<lparr>so_pc := Resetting reason\<rparr>"

definition reset_loop :: "live_source \<Rightarrow> live_source" where
  "reset_loop s = (if \<not> so_closed s \<and> \<not> so_ready s then s\<lparr>so_pc := RetryDelay\<rparr> else consume s)"

definition reopened :: "live_source \<Rightarrow> live_source" where
  "reopened s = reset_loop (markReady s)"

definition reopen_failed :: "live_source \<Rightarrow> live_source" where
  "reopen_failed s = (close_stream s)\<lparr>so_pc := RetryClosing\<rparr>"

text \<open>What follows the await of a dispatch.\<close>

definition dispatched :: "live_source \<Rightarrow> live_source" where
  "dispatched s =
     (case so_pc s of
        FirstDispatch \<Rightarrow> initial_established s
      | ChangeDispatch \<Rightarrow> s\<lparr>so_pc := Reading\<rparr>
      | ResetDispatch \<Rightarrow> reset_loop s
      | RetryDispatch \<Rightarrow> reopened s
      | _ \<Rightarrow> s)"

definition dispatch_step :: "live_source \<Rightarrow> live_source" where
  "dispatch_step s =
     (case so_notice s of
        None \<Rightarrow> dispatched s
      | Some (notice, visited) \<Rightarrow>
          (case next_listener visited s of
             Some l \<Rightarrow> deliver_notice notice visited l s
           | None \<Rightarrow> dispatched (s\<lparr>so_notice := None\<rparr>)))"

section \<open>The interface\<close>

fun has_worker :: "source_pc \<Rightarrow> bool" where
  "has_worker Unstarted = False"
| "has_worker FirstNext = False"
| "has_worker FirstDispatch = False"
| "has_worker (StartClosing _) = False"
| "has_worker _ = True"

definition source_start :: "nat \<Rightarrow> js_error option \<Rightarrow> live_source \<Rightarrow> live_source" where
  "source_start k throws s =
     (if so_closed s then s\<lparr>so_started := so_started s @ [(k, Some source_closed)]\<rparr>
      else if so_ready s then s\<lparr>so_started := so_started s @ [(k, None)]\<rparr>
      else if has_worker (so_pc s)
      then s\<lparr>so_readyWaits := so_readyWaits s @ [(k, so_readiness s)]\<rparr>
      else
        (let s = s\<lparr>so_startWaits := so_startWaits s @ [k]\<rparr> in
         if so_pc s = Unstarted then establishInitial throws s else s))"

text \<open>A call that waited for readiness goes on.\<close>

definition start_woken :: "nat \<Rightarrow> live_source \<Rightarrow> live_source" where
  "start_woken k s =
     s\<lparr>so_readyWaits := filter (\<lambda>(k', _). k' \<noteq> k) (so_readyWaits s),
       so_started := so_started s @ [(k, if so_closed s \<or> \<not> so_ready s then Some source_closed else None)]\<rparr>"

definition source_subscribe :: "nat \<Rightarrow> live_source \<Rightarrow> live_source" where
  "source_subscribe l s =
     s\<lparr>so_listeners := so_listeners s @ [l],
       so_joined := so_joined s @
         [(l, \<lparr>jn_first = (if so_notice s = None then Suc (so_sequence s) else so_sequence s), 
               jn_position = (if so_notice s = None then so_position s else so_position s - 1),
               jn_history = length (so_log s), jn_ready = so_ready s\<rparr>)]\<rparr>"

definition source_unsubscribe :: "nat \<Rightarrow> live_source \<Rightarrow> live_source" where
  "source_unsubscribe l s = s\<lparr>so_listeners := filter (\<lambda>l'. l' \<noteq> l) (so_listeners s)\<rparr>"

definition source_close :: "live_source \<Rightarrow> live_source" where
  "source_close s =
     (if so_closed s then s else (close_stream (resolve_readiness (s\<lparr>so_closed := True\<rparr>)))\<lparr>so_closing := True\<rparr>)"

definition close_finished :: "live_source \<Rightarrow> live_source" where
  "close_finished s = s\<lparr>so_listeners := [], so_closing := False\<rparr>"

section \<open>Steps\<close>

datatype source_label =
    StartCall nat "js_error option"
  | StartWoken nat
  | Subscribe nat
  | Unsubscribe nat
  | CloseCall
  | CloseFinished
  | Commit source_change
  | FirstAnswer nat bool
  | FirstError js_error
  | ReadNext
  | ReadOver
  | StreamClosed
  | DelayOver bool
  | DispatchStep

definition stream_live :: "live_source \<Rightarrow> bool" where
  "stream_live s \<longleftrightarrow> (case so_stream s of None \<Rightarrow> False | Some i \<Rightarrow> i \<in> set (so_open s))"

fun source_enabled :: "source_label \<Rightarrow> live_source \<Rightarrow> bool" where
  "source_enabled (StartWoken k) s = (\<exists>(k', r) \<in> set (so_readyWaits s). k' = k \<and> r \<in> set (so_resolved s))"
| "source_enabled (Subscribe l) s = (map_of (so_joined s) l = None)"
| "source_enabled CloseFinished s = (so_closing s \<and> so_pc s \<in> {Unstarted, Finished})"
| "source_enabled (FirstAnswer p got) s =
     (so_pc s \<in> {FirstNext, RetryNext} \<and> (if so_resumed s then p = so_position s else so_position s \<le> p \<and> p \<le> length (so_log s)) \<and>
      (got \<longrightarrow> p < length (so_log s)))"
| "source_enabled (FirstError err) s = (so_pc s \<in> {FirstNext, RetryNext})"
| "source_enabled ReadNext s = (so_pc s = Reading \<and> stream_live s \<and> so_position s < length (so_log s))"
| "source_enabled ReadOver s = (so_pc s = Reading)"
| "source_enabled StreamClosed s = (case so_pc s of StartClosing _ \<Rightarrow> True | Resetting _ \<Rightarrow> True | RetryClosing \<Rightarrow> True | _ \<Rightarrow> False)"
| "source_enabled (DelayOver throws) s = (so_pc s = RetryDelay)"
| "source_enabled DispatchStep s = (so_pc s \<in> {FirstDispatch, ChangeDispatch, ResetDispatch, RetryDispatch})"
| "source_enabled _ s = True"

fun source_step :: "source_label \<Rightarrow> live_source \<Rightarrow> live_source" where
  "source_step (StartCall k throws) s = source_start k throws s"
| "source_step (StartWoken k) s = start_woken k s"
| "source_step (Subscribe l) s = source_subscribe l s"
| "source_step (Unsubscribe l) s = source_unsubscribe l s"
| "source_step CloseCall s = source_close s"
| "source_step CloseFinished s = close_finished s"
| "source_step (Commit change) s = s\<lparr>so_log := so_log s @ [change]\<rparr>"
| "source_step (FirstAnswer p got) s =
     (let s = s\<lparr>so_position := p\<rparr> in
      if so_pc s = FirstNext
      then if got then (dispatchChange s)\<lparr>so_pc := FirstDispatch\<rparr> else initial_established s
      else if got then (dispatchChange s)\<lparr>so_pc := RetryDispatch\<rparr> else reopened s)"
| "source_step (FirstError err) s = (if so_pc s = FirstNext then start_failed err s else reopen_failed s)"
| "source_step ReadNext s =
     (if so_closed s then (close_stream s)\<lparr>so_pc := Finished\<rparr> else (dispatchChange s)\<lparr>so_pc := ChangeDispatch\<rparr>)"
| "source_step ReadOver s = (if so_closed s then s\<lparr>so_pc := Finished\<rparr> else resetAndReopen ''resume-failed'' s)"
| "source_step StreamClosed s =
     (case so_pc s of
        StartClosing err \<Rightarrow> start_settled (Some err) (s\<lparr>so_stream := None, so_pc := Unstarted\<rparr>)
      | Resetting reason \<Rightarrow>
          dispatch (Reset (Suc (so_sequence s)) reason) (s\<lparr>so_stream := None, so_sequence := Suc (so_sequence s), so_pc := ResetDispatch\<rparr>)
      | RetryClosing \<Rightarrow> reset_loop (s\<lparr>so_resumeToken := None, so_stream := None\<rparr>)
      | _ \<Rightarrow> s)"
| "source_step (DelayOver throws) s = (if throws then reopen_failed s else (openStream s)\<lparr>so_pc := RetryNext\<rparr>)"
| "source_step DispatchStep s = dispatch_step s"

inductive source_run :: "live_source \<Rightarrow> bool" where
  initial: "source_run (new_live_source history)"
| step: "source_run s \<Longrightarrow> source_enabled l s \<Longrightarrow> source_run (source_step l s)"


section \<open>What the operations leave alone\<close>

lemma dispatch_fields [simp]:
  "so_listeners (dispatch n s) = so_listeners s"
  "so_stream (dispatch n s) = so_stream s"
  "so_closed (dispatch n s) = so_closed s"
  "so_ready (dispatch n s) = so_ready s"
  "so_resumeToken (dispatch n s) = so_resumeToken s"
  "so_pc (dispatch n s) = so_pc s"
  "so_sequence (dispatch n s) = so_sequence s"
  "so_log (dispatch n s) = so_log s"
  "so_position (dispatch n s) = so_position s"
  "so_joined (dispatch n s) = so_joined s"
  by (simp_all add: dispatch_def deliver_notice_def split: option.splits)

lemma markUnavailable_fields [simp]:
  "so_listeners (markUnavailable s) = so_listeners s"
  "so_stream (markUnavailable s) = so_stream s"
  "so_closed (markUnavailable s) = so_closed s"
  "so_resumeToken (markUnavailable s) = so_resumeToken s"
  "so_pc (markUnavailable s) = so_pc s"
  "so_notice (markUnavailable s) = so_notice s"
  "so_sequence (markUnavailable s) = so_sequence s"
  "so_log (markUnavailable s) = so_log s"
  "so_position (markUnavailable s) = so_position s"
  "so_received (markUnavailable s) = so_received s"
  "so_joined (markUnavailable s) = so_joined s"
  "so_ready (markUnavailable s) = False"
  by (simp_all add: markUnavailable_def)

lemma resolve_readiness_fields [simp]:
  "so_listeners (resolve_readiness s) = so_listeners s"
  "so_stream (resolve_readiness s) = so_stream s"
  "so_closed (resolve_readiness s) = so_closed s"
  "so_ready (resolve_readiness s) = so_ready s"
  "so_resumeToken (resolve_readiness s) = so_resumeToken s"
  "so_pc (resolve_readiness s) = so_pc s"
  "so_notice (resolve_readiness s) = so_notice s"
  "so_sequence (resolve_readiness s) = so_sequence s"
  "so_log (resolve_readiness s) = so_log s"
  "so_position (resolve_readiness s) = so_position s"
  "so_received (resolve_readiness s) = so_received s"
  "so_joined (resolve_readiness s) = so_joined s"
  by (simp_all add: resolve_readiness_def)

lemma markReady_fields [simp]:
  "so_listeners (markReady s) = so_listeners s"
  "so_stream (markReady s) = so_stream s"
  "so_closed (markReady s) = so_closed s"
  "so_resumeToken (markReady s) = so_resumeToken s"
  "so_pc (markReady s) = so_pc s"
  "so_notice (markReady s) = so_notice s"
  "so_sequence (markReady s) = so_sequence s"
  "so_log (markReady s) = so_log s"
  "so_position (markReady s) = so_position s"
  "so_received (markReady s) = so_received s"
  "so_joined (markReady s) = so_joined s"
  "so_ready (markReady s) = True"
  by (simp_all add: markReady_def resolve_readiness_def)

lemma openStream_fields [simp]:
  "so_listeners (openStream s) = so_listeners s"
  "so_closed (openStream s) = so_closed s"
  "so_ready (openStream s) = so_ready s"
  "so_resumeToken (openStream s) = so_resumeToken s"
  "so_pc (openStream s) = so_pc s"
  "so_notice (openStream s) = so_notice s"
  "so_sequence (openStream s) = so_sequence s"
  "so_log (openStream s) = so_log s"
  "so_received (openStream s) = so_received s"
  "so_joined (openStream s) = so_joined s"
  "so_stream (openStream s) = Some (so_streams s)"
  "so_position (openStream s) = (case so_resumeToken s of None \<Rightarrow> length (so_log s) | Some p \<Rightarrow> p)"
  by (simp_all add: openStream_def split: option.splits)

lemma close_stream_fields [simp]:
  "so_listeners (close_stream s) = so_listeners s"
  "so_stream (close_stream s) = so_stream s"
  "so_closed (close_stream s) = so_closed s"
  "so_ready (close_stream s) = so_ready s"
  "so_resumeToken (close_stream s) = so_resumeToken s"
  "so_pc (close_stream s) = so_pc s"
  "so_notice (close_stream s) = so_notice s"
  "so_sequence (close_stream s) = so_sequence s"
  "so_log (close_stream s) = so_log s"
  "so_position (close_stream s) = so_position s"
  "so_received (close_stream s) = so_received s"
  "so_joined (close_stream s) = so_joined s"
  by (simp_all add: close_stream_def)

lemma start_settled_fields [simp]:
  "so_listeners (start_settled r s) = so_listeners s"
  "so_stream (start_settled r s) = so_stream s"
  "so_closed (start_settled r s) = so_closed s"
  "so_ready (start_settled r s) = so_ready s"
  "so_resumeToken (start_settled r s) = so_resumeToken s"
  "so_pc (start_settled r s) = so_pc s"
  "so_notice (start_settled r s) = so_notice s"
  "so_sequence (start_settled r s) = so_sequence s"
  "so_log (start_settled r s) = so_log s"
  "so_position (start_settled r s) = so_position s"
  "so_received (start_settled r s) = so_received s"
  "so_joined (start_settled r s) = so_joined s"
  by (simp_all add: start_settled_def)

lemma next_listenerD: "next_listener vis s = Some l \<Longrightarrow> l \<in> set (so_listeners s) \<and> l \<notin> set vis"
  by (auto simp: next_listener_def find_Some_iff)

lemma next_listenerN: "next_listener vis s = None \<longleftrightarrow> set (so_listeners s) \<subseteq> set vis"
  by (auto simp: next_listener_def find_None_iff)

section \<open>The worker's control state\<close>

definition dispatching :: "source_pc \<Rightarrow> bool" where
  "dispatching pc \<longleftrightarrow> pc \<in> {FirstDispatch, ChangeDispatch, ResetDispatch, RetryDispatch}"

text \<open>Positions are entries of the history, a notice is told only while a dispatch is awaited, and only a reading worker is ready.\<close>

definition control_ok :: "live_source \<Rightarrow> bool" where
  "control_ok s \<longleftrightarrow>
     so_position s \<le> length (so_log s) \<and>
     (\<forall>p \<in> set_option (so_resumeToken s). p \<le> length (so_log s)) \<and>
     (so_notice s \<noteq> None \<longrightarrow> dispatching (so_pc s)) \<and>
     (so_ready s \<longrightarrow> so_pc s \<in> {Reading, ChangeDispatch, Finished})"

lemma control_position: "control_ok s \<Longrightarrow> so_position (openStream s) \<le> length (so_log s)"
  by (simp add: control_ok_def split: option.splits)

lemma control_change:
  assumes "control_ok s" and "so_position s < length (so_log s)" and "dispatching pc" and "so_ready s \<longrightarrow> pc = ChangeDispatch"
  shows "control_ok ((dispatchChange s)\<lparr>so_pc := pc\<rparr>)"
  using assms by (auto simp: control_ok_def dispatchChange_def Let_def split: option.splits)

lemma control_consume: "control_ok s \<Longrightarrow> so_notice s = None \<Longrightarrow> control_ok (consume s)"
  using control_position [of s] by (auto simp: control_ok_def consume_def)

lemma control_reset_loop: "control_ok s \<Longrightarrow> so_notice s = None \<Longrightarrow> control_ok (reset_loop s)"
  using control_consume [of s] by (auto simp: reset_loop_def control_ok_def)

lemma control_mark_ready:
  "control_ok s \<Longrightarrow> so_notice s = None \<Longrightarrow> control_ok (consume (markReady s))"
  "control_ok s \<Longrightarrow> so_notice s = None \<Longrightarrow> control_ok (reopened s)"
  by (auto simp: control_ok_def consume_def reopened_def reset_loop_def split: option.splits)

lemma control_settled [simp]: "control_ok (start_settled r s) = control_ok s"
  by (simp add: control_ok_def)

lemma control_established: "control_ok s \<Longrightarrow> so_notice s = None \<Longrightarrow> \<not> so_ready s \<Longrightarrow> control_ok (initial_established s)"
  using control_mark_ready(1) [of s] by (auto simp: initial_established_def start_failed_def control_ok_def)

lemma control_dispatched:
  "control_ok s \<Longrightarrow> so_notice s = None \<Longrightarrow> control_ok (dispatched s)"
  using control_established [of s] control_reset_loop [of s] control_mark_ready(2) [of s]
  by (cases "so_pc s") (simp_all add: dispatched_def, simp_all add: control_ok_def)

lemma control_quiet: "control_ok s \<Longrightarrow> \<not> dispatching (so_pc s) \<Longrightarrow> so_notice s = None"
  unfolding control_ok_def by blast

lemma control_first:
  assumes "control_ok s" and "source_enabled (FirstAnswer p got) s"
  shows "control_ok (source_step (FirstAnswer p got) s)"
proof -
  let ?s = "s\<lparr>so_position := p\<rparr>"
  have pc: "so_pc s \<in> {FirstNext, RetryNext}" "\<not> dispatching (so_pc s)" using assms(2) by (auto simp: dispatching_def)
  have ok: "control_ok ?s" "so_notice ?s = None" "\<not> so_ready ?s" using assms control_quiet [OF assms(1) pc(2)] by (auto simp: control_ok_def split: if_splits)
  have lt: "got \<Longrightarrow> so_position ?s < length (so_log ?s)" using assms(2) by simp
  show ?thesis using control_established [OF ok] control_mark_ready(2) [OF ok(1,2)] control_change [OF ok(1) lt] ok(3) pc(1)
    by (auto simp: Let_def dispatching_def)
qed

lemma control_step:
  assumes "control_ok s" and "source_enabled l s"
  shows "control_ok (source_step l s)"
proof (cases l)
  case (StartCall k throws)
  show ?thesis
  proof (cases "so_pc s = Unstarted")
    case True
    have "so_notice s = None" using assms(1) True by (intro control_quiet) (simp_all add: dispatching_def)
    then show ?thesis using StartCall assms(1) True
      by (auto simp: source_start_def establishInitial_def start_failed_def control_ok_def Let_def split: option.splits)
  next
    case False
    then show ?thesis using StartCall assms(1) by (auto simp: source_start_def control_ok_def Let_def)
  qed
next
  case (FirstAnswer p got)
  then show ?thesis using control_first assms by simp
next
  case (FirstError err)
  then have "so_notice s = None" using assms by (intro control_quiet) (auto simp: dispatching_def)
  then show ?thesis using FirstError assms by (auto simp: start_failed_def reopen_failed_def control_ok_def)
next
  case ReadNext
  then have "so_notice s = None" using assms by (intro control_quiet) (auto simp: dispatching_def)
  then show ?thesis using ReadNext assms control_change [of s ChangeDispatch] by (auto simp: control_ok_def dispatching_def)
next
  case ReadOver
  then have "so_notice s = None" using assms by (intro control_quiet) (auto simp: dispatching_def)
  then show ?thesis using ReadOver assms by (auto simp: control_ok_def resetAndReopen_def)
next
  case StreamClosed
  then have n: "so_notice s = None" using assms by (intro control_quiet) (auto simp: dispatching_def split: source_pc.splits)
  then have "control_ok (s\<lparr>so_resumeToken := None, so_stream := None\<rparr>)" using assms(1) by (simp add: control_ok_def)
  then show ?thesis using StreamClosed assms n control_reset_loop [of "s\<lparr>so_resumeToken := None, so_stream := None\<rparr>"]
    by (cases "so_pc s") (simp_all add: control_ok_def dispatching_def)
next
  case (DelayOver throws)
  then have "so_notice s = None" using assms by (intro control_quiet) (auto simp: dispatching_def)
  then show ?thesis using DelayOver assms control_position [OF assms(1)] by (auto simp: control_ok_def reopen_failed_def)
next
  case DispatchStep
  have "control_ok (s\<lparr>so_notice := None\<rparr>)" using assms(1) by (simp add: control_ok_def)
  then show ?thesis using DispatchStep assms control_dispatched [of "s\<lparr>so_notice := None\<rparr>"] control_dispatched [of s]
    by (auto simp: dispatch_step_def deliver_notice_def control_ok_def split: option.splits)
qed (use assms in \<open>auto simp: control_ok_def start_woken_def source_subscribe_def source_unsubscribe_def source_close_def close_finished_def\<close>)

lemma new_control: "control_ok (new_live_source history)"
  by (simp add: control_ok_def new_live_source_def)

lemma run_control: "source_run s \<Longrightarrow> control_ok s"
  by (induction rule: source_run.induct) (simp_all add: new_control control_step)

section \<open>What the listeners are told\<close>

definition ears :: "live_source \<Rightarrow> nat list \<times> (nat \<times> joined) list \<times> (nat \<times> source_notice) list \<times> (source_notice \<times> nat list) option \<times> nat" where
  "ears s = (so_listeners s, so_joined s, so_received s, so_notice s, so_sequence s)"

text \<open>Every step does one of these to what the listeners see.\<close>

inductive ear_step :: "live_source \<Rightarrow> live_source \<Rightarrow> bool" for s where
  same: "ears s' = ears s \<Longrightarrow> ear_step s s'"
| told: "so_notice s = None \<Longrightarrow> ears s' = ears (dispatch n (s\<lparr>so_sequence := Suc (so_sequence s)\<rparr>)) \<Longrightarrow> n_sequence n = Suc (so_sequence s) \<Longrightarrow> ear_step s s'"
| more: "so_notice s = Some (n, vis) \<Longrightarrow> next_listener vis s = Some l \<Longrightarrow> ears s' = ears (deliver_notice n vis l s) \<Longrightarrow> ear_step s s'"
| over: "so_notice s = Some (n, vis) \<Longrightarrow> next_listener vis s = None \<Longrightarrow> ears s' = ears (s\<lparr>so_notice := None\<rparr>) \<Longrightarrow> ear_step s s'"
| join: "map_of (so_joined s) l = None \<Longrightarrow> ears s' = ears (source_subscribe l s) \<Longrightarrow> ear_step s s'"
| leave: "set ls \<subseteq> set (so_listeners s) \<Longrightarrow> distinct (so_listeners s) \<longrightarrow> distinct ls \<Longrightarrow> ears s' = ears (s\<lparr>so_listeners := ls\<rparr>) \<Longrightarrow> ear_step s s'"

lemma ears_fields:
  "ears (consume s) = ears s"
  "ears (reset_loop s) = ears s"
  "ears (reopened s) = ears s"
  "ears (initial_established s) = ears s"
  "ears (dispatched s) = ears s"
  by (simp_all add: ears_def consume_def reset_loop_def reopened_def initial_established_def start_failed_def dispatched_def split: source_pc.splits)

lemma ears_cong: "ears s = ears v \<Longrightarrow> ears (dispatch n s) = ears (dispatch n v)"
  by (auto simp: ears_def dispatch_def deliver_notice_def next_listener_def split: option.splits)

lemma ears_control [simp]:
  "ears (s\<lparr>so_pc := pc\<rparr>) = ears s"
  "ears (s\<lparr>so_position := p\<rparr>) = ears s"
  "ears (s\<lparr>so_position := p, so_resumeToken := r\<rparr>) = ears s"
  "ears ((markUnavailable s)\<lparr>so_sequence := q\<rparr>) = ears (s\<lparr>so_sequence := q\<rparr>)"
  "ears (s\<lparr>so_position := p, so_resumeToken := r, so_sequence := q\<rparr>) = ears (s\<lparr>so_sequence := q\<rparr>)"
  by (simp_all add: ears_def)

text \<open>The notice a change of the collection gives rise to.\<close>

definition change_notice :: "nat \<Rightarrow> source_change \<Rightarrow> source_notice option" where
  "change_notice q change =
     (if ch_operationType change = ''invalidate'' then Some (Reset q ''invalidated'')
      else map_option (\<lambda>i. Change q i (ch_operationType change = ''delete'')) (change_id change))"

lemma change_ears: "ears (dispatchChange s) =
    (case change_notice (Suc (so_sequence s)) (so_log s ! so_position s) of
       None \<Rightarrow> ears s | Some n \<Rightarrow> ears (dispatch n (s\<lparr>so_sequence := Suc (so_sequence s)\<rparr>)))"
  by (auto simp: dispatchChange_def change_notice_def Let_def intro!: ears_cong split: option.splits)

lemma change_ear_step:
  assumes "ears v = ears s" and "so_notice s = None" and "ears s' = ears (dispatchChange v)"
  shows "ear_step s s'"
proof -
  have q: "so_sequence v = so_sequence s" using assms(1) by (simp add: ears_def)
  have "ears (dispatch n (v\<lparr>so_sequence := Suc (so_sequence s)\<rparr>)) = ears (dispatch n (s\<lparr>so_sequence := Suc (so_sequence s)\<rparr>))" for n
    using assms(1) by (intro ears_cong) (simp add: ears_def)
  note d = this
  show ?thesis
  proof (cases "change_notice (Suc (so_sequence v)) (so_log v ! so_position v)")
    case None
    then show ?thesis using assms change_ears [of v] by (intro ear_step.same) simp
  next
    case (Some n)
    moreover have "n_sequence n = Suc (so_sequence s)" using Some q by (auto simp: change_notice_def split: if_splits)
    ultimately show ?thesis using assms(2,3) change_ears [of v] d q by (intro ear_step.told [of s s' n]) simp_all
  qed
qed

lemma ear_step_all:
  assumes "control_ok s" and "source_enabled l s"
  shows "ear_step s (source_step l s)"
proof (cases l)
  case (StartCall k throws)
  then show ?thesis
    by (intro ear_step.same) (auto simp: source_start_def establishInitial_def start_failed_def ears_def Let_def split: option.splits)
next
  case (FirstAnswer p got)
  then have "so_notice s = None" using assms by (intro control_quiet) (auto simp: dispatching_def)
  then show ?thesis using FirstAnswer change_ear_step [of "s\<lparr>so_position := p\<rparr>" s]
    by (auto simp: Let_def ears_fields intro: ear_step.same)
next
  case ReadNext
  then have "so_notice s = None" using assms by (intro control_quiet) (auto simp: dispatching_def)
  then show ?thesis using ReadNext change_ear_step [of s s] by (auto intro: ear_step.same simp: ears_def [of "close_stream _"] ears_def [of s])
next
  case StreamClosed
  then have n: "so_notice s = None" using assms by (intro control_quiet) (auto simp: dispatching_def split: source_pc.splits)
  have "ears (dispatch k (s\<lparr>so_stream := None, so_sequence := q, so_pc := ResetDispatch\<rparr>)) = ears (dispatch k (s\<lparr>so_sequence := q\<rparr>))" for k q
    by (intro ears_cong) (simp add: ears_def)
  moreover have "ears (s\<lparr>so_resumeToken := None, so_stream := None\<rparr>) = ears s" by (simp add: ears_def)
  moreover have "ears (start_settled r (s\<lparr>so_stream := None, so_pc := Unstarted\<rparr>)) = ears s" for r by (simp add: ears_def)
  ultimately show ?thesis using StreamClosed assms(2) n ear_step.told [of s _ "Reset (Suc (so_sequence s)) _"]
    by (cases "so_pc s") (auto simp: ears_fields intro: ear_step.same)
next
  case DispatchStep
  then show ?thesis
    by (auto simp: dispatch_step_def ears_fields intro: ear_step.same ear_step.more ear_step.over split: option.splits)
next
  case (Subscribe k)
  then show ?thesis using assms(2) by (auto intro: ear_step.join)
next
  case (Unsubscribe k)
  then show ?thesis by (auto simp: source_unsubscribe_def intro!: ear_step.leave [of "filter (\<lambda>l'. l' \<noteq> k) (so_listeners s)"])
next
  case CloseFinished
  then show ?thesis by (auto simp: close_finished_def ears_def intro!: ear_step.leave [of "[]"])
qed (intro ear_step.same, auto simp: ears_def start_woken_def source_close_def start_failed_def reopen_failed_def resetAndReopen_def)+

section \<open>Notices are numbered without gaps\<close>

definition notices_of :: "nat \<Rightarrow> live_source \<Rightarrow> source_notice list" where
  "notices_of l s = map snd (filter (\<lambda>(l', _). l' = l) (so_received s))"

definition awaits :: "nat \<Rightarrow> live_source \<Rightarrow> bool" where
  "awaits l s \<longleftrightarrow> l \<in> set (so_listeners s) \<and> (case so_notice s of None \<Rightarrow> False | Some (_, vis) \<Rightarrow> l \<notin> set vis)"

definition heard :: "live_source \<Rightarrow> nat \<Rightarrow> nat \<Rightarrow> nat \<Rightarrow> bool" where
  "heard s l first k \<longleftrightarrow> map n_sequence (notices_of l s) = [first..<k] \<and>
     (l \<in> set (so_listeners s) \<longrightarrow> first \<le> k \<and> k = (if awaits l s then so_sequence s else Suc (so_sequence s)))"

definition numbered :: "live_source \<Rightarrow> bool" where
  "numbered s \<longleftrightarrow>
     distinct (so_listeners s) \<and> set (so_listeners s) \<subseteq> fst ` set (so_joined s) \<and> fst ` set (so_received s) \<subseteq> fst ` set (so_joined s) \<and>
     (\<forall>n vis. so_notice s = Some (n, vis) \<longrightarrow> n_sequence n = so_sequence s \<and> set vis \<subseteq> fst ` set (so_joined s)) \<and>
     (\<forall>l j. map_of (so_joined s) l = Some j \<longrightarrow> (\<exists>k. heard s l (jn_first j) k))"

lemma numbered_ears: "ears s' = ears s \<Longrightarrow> numbered s' = numbered s"
  by (simp add: numbered_def ears_def notices_of_def awaits_def heard_def)

lemma numberedD:
  assumes "numbered s"
  shows "distinct (so_listeners s)" "set (so_listeners s) \<subseteq> fst ` set (so_joined s)" "fst ` set (so_received s) \<subseteq> fst ` set (so_joined s)"
    "so_notice s = Some (n, vis) \<Longrightarrow> n_sequence n = so_sequence s \<and> set vis \<subseteq> fst ` set (so_joined s)"
    "map_of (so_joined s) l = Some j \<Longrightarrow> \<exists>k. heard s l (jn_first j) k"
  using assms unfolding numbered_def by simp_all

lemma numberedI:
  assumes "numbered s" and "so_joined s' = so_joined s" and "distinct (so_listeners s')" and "set (so_listeners s') \<subseteq> set (so_listeners s)"
    and "fst ` set (so_received s') \<subseteq> fst ` set (so_joined s)" and "\<And>n vis. so_notice s' = Some (n, vis) \<Longrightarrow> n_sequence n = so_sequence s' \<and> set vis \<subseteq> fst ` set (so_joined s)"
    and "\<And>l first k. heard s l first k \<Longrightarrow> \<exists>k'. heard s' l first k'"
  shows "numbered s'"
  unfolding numbered_def
proof (intro conjI allI impI)
  fix l j assume "map_of (so_joined s') l = Some j"
  then have "\<exists>k. heard s l (jn_first j) k" using assms(1,2) unfolding numbered_def by simp
  then show "\<exists>k. heard s' l (jn_first j) k" using assms(7) by blast
next
  show "set (so_listeners s') \<subseteq> fst ` set (so_joined s')" using numberedD(2) [OF assms(1)] assms(2,4) by simp
qed (use assms(2,3,5,6) in simp_all)

lemma numbered_deliver:
  assumes "numbered s" and "so_notice s = Some (n, vis)" and "next_listener vis s = Some l"
  shows "numbered (deliver_notice n vis l s)"
proof (rule numberedI [OF assms(1)])
  have l: "l \<in> set (so_listeners s)" "l \<notin> set vis" using next_listenerD [OF assms(3)] by auto
  have n: "notices_of k (deliver_notice n vis l s) = notices_of k s @ (if k = l then [n] else [])" for k by (simp add: notices_of_def deliver_notice_def)
  have a: "awaits k (deliver_notice n vis l s) = (awaits k s \<and> k \<noteq> l)" "awaits l s" for k using assms(2) l by (auto simp: awaits_def deliver_notice_def)
  have q: "n_sequence n = so_sequence s" using assms(1,2) by (simp add: numbered_def)
  show "\<exists>m'. heard (deliver_notice n vis l s) k first m'" if "heard s k first m" for k first m
  proof -
    have "so_listeners (deliver_notice n vis l s) = so_listeners s" "so_sequence (deliver_notice n vis l s) = so_sequence s" by (simp_all add: deliver_notice_def)
    note same = this
    show ?thesis
    proof (cases "k = l")
      case True
      then have "heard (deliver_notice n vis l s) k first (Suc m)" using that a l(1) q unfolding heard_def n same by simp
      then show ?thesis ..
    next
      case False
      then have "heard (deliver_notice n vis l s) k first m" using that a(1) unfolding heard_def n same by (cases "awaits k s"; cases "k \<in> set (so_listeners s)") simp_all
      then show ?thesis ..
    qed
  qed
  show "fst ` set (so_received (deliver_notice n vis l s)) \<subseteq> fst ` set (so_joined s)" using numberedD(2,3) [OF assms(1)] l(1) by (auto simp: deliver_notice_def)
  show "n_sequence n' = so_sequence (deliver_notice n vis l s) \<and> set vis' \<subseteq> fst ` set (so_joined s)" if "so_notice (deliver_notice n vis l s) = Some (n', vis')" for n' vis'
    using that numberedD(2,4) [OF assms(1)] assms(2) l(1) by (auto simp: deliver_notice_def)
qed (use numberedD(1) [OF assms(1)] in \<open>simp_all add: deliver_notice_def\<close>)

text \<open>A new notice, as if the loop over the listeners began with none visited.\<close>

lemma numbered_begin:
  assumes "numbered s" and "so_notice s = None" and "n_sequence n = Suc (so_sequence s)"
  shows "numbered (s\<lparr>so_sequence := Suc (so_sequence s), so_notice := Some (n, [])\<rparr>)" (is "numbered ?s")
proof (rule numberedI [OF assms(1)])
  show "\<exists>m'. heard ?s k first m'" if "heard s k first m" for k first m
    using that assms(2) by (intro exI [of _ m]) (auto simp: heard_def awaits_def notices_of_def)
qed (use assms in \<open>auto simp: numbered_def\<close>)

lemma numbered_over:
  assumes "numbered s" and "so_notice s = Some (n, vis)" and "next_listener vis s = None"
  shows "numbered (s\<lparr>so_notice := None\<rparr>)"
proof (rule numberedI [OF assms(1)])
  have "awaits k s = False" for k using assms(2,3) by (auto simp: awaits_def next_listenerN)
  then show "\<exists>m'. heard (s\<lparr>so_notice := None\<rparr>) k first m'" if "heard s k first m" for k first m
    using that by (intro exI [of _ m]) (auto simp: heard_def awaits_def notices_of_def)
qed (use assms in \<open>auto simp: numbered_def\<close>)

lemma numbered_told:
  assumes "numbered s" and "so_notice s = None" and "n_sequence n = Suc (so_sequence s)"
  shows "numbered (dispatch n (s\<lparr>so_sequence := Suc (so_sequence s)\<rparr>))"
proof -
  let ?s = "s\<lparr>so_sequence := Suc (so_sequence s), so_notice := Some (n, [])\<rparr>"
  have b: "numbered ?s" using numbered_begin [OF assms] .
  show ?thesis
  proof (cases "next_listener [] s")
    case None
    then have "numbered (?s\<lparr>so_notice := None\<rparr>)" using b by (intro numbered_over [of _ n "[]"]) (simp_all add: next_listener_def)
    moreover have "ears (dispatch n (s\<lparr>so_sequence := Suc (so_sequence s)\<rparr>)) = ears (?s\<lparr>so_notice := None\<rparr>)"
      using None assms(2) by (simp add: ears_def dispatch_def next_listener_def)
    ultimately show ?thesis using numbered_ears by blast
  next
    case (Some l)
    then have "numbered (deliver_notice n [] l ?s)" using b by (intro numbered_deliver) (simp_all add: next_listener_def)
    moreover have "ears (dispatch n (s\<lparr>so_sequence := Suc (so_sequence s)\<rparr>)) = ears (deliver_notice n [] l ?s)"
      using Some by (simp add: ears_def dispatch_def deliver_notice_def next_listener_def)
    ultimately show ?thesis using numbered_ears by blast
  qed
qed

lemma numbered_leave:
  assumes "numbered s" and "set ls \<subseteq> set (so_listeners s)" and "distinct ls"
  shows "numbered (s\<lparr>so_listeners := ls\<rparr>)"
proof (rule numberedI [OF assms(1)])
  show "\<exists>m'. heard (s\<lparr>so_listeners := ls\<rparr>) k first m'" if "heard s k first m" for k first m
    using that assms(2) by (intro exI [of _ m]) (auto simp: heard_def awaits_def notices_of_def)
qed (use assms in \<open>auto simp: numbered_def\<close>)

lemma numbered_join:
  assumes "numbered s" and "map_of (so_joined s) l = None"
  shows "numbered (source_subscribe l s)"
proof -
  have l: "l \<notin> fst ` set (so_joined s)" using assms(2) by (simp add: map_of_eq_None_iff)
  have r: "notices_of l s = []" using l numberedD(3) [OF assms(1)] by (force simp: notices_of_def filter_empty_conv)
  have "l \<notin> set (so_listeners s)" using l numberedD(2) [OF assms(1)] by blast
  moreover have keep: "\<exists>m'. heard (source_subscribe l s) k first m'" if "heard s k first m" "k \<noteq> l" for k first m
    using that by (intro exI [of _ m]) (auto simp: heard_def awaits_def notices_of_def source_subscribe_def)
  moreover have new: "\<exists>m. heard (source_subscribe l s) l (if so_notice s = None then Suc (so_sequence s) else so_sequence s) m"
    using r l numberedD(4) [OF assms(1)] by (intro exI [of _ "if awaits l (source_subscribe l s) then so_sequence s else Suc (so_sequence s)"])
      (auto simp: heard_def awaits_def notices_of_def source_subscribe_def split: option.splits)
  moreover have "\<exists>m. heard (source_subscribe l s) k (jn_first j) m" if "map_of (so_joined (source_subscribe l s)) k = Some j" for k j
  proof (cases "k = l")
    case True
    then have "jn_first j = (if so_notice s = None then Suc (so_sequence s) else so_sequence s)"
      using that assms(2) by (auto simp: source_subscribe_def map_add_def)
    then show ?thesis using new True by simp
  next
    case False
    then have "map_of (so_joined s) k = Some j" using that by (auto simp: source_subscribe_def map_add_def split: option.splits if_splits)
    then show ?thesis using keep False numberedD(5) [OF assms(1)] by blast
  qed
  moreover have "so_listeners (source_subscribe l s) = so_listeners s @ [l]" "fst ` set (so_joined (source_subscribe l s)) = insert l (fst ` set (so_joined s))"
    "so_received (source_subscribe l s) = so_received s" "so_notice (source_subscribe l s) = so_notice s" "so_sequence (source_subscribe l s) = so_sequence s"
    by (auto simp: source_subscribe_def)
  ultimately show ?thesis using numberedD(1-4) [OF assms(1)] unfolding numbered_def by auto
qed

lemma numbered_step:
  assumes "numbered s" and "ear_step s s'"
  shows "numbered s'"
  using assms(2)
proof cases
  case (told n)
  then show ?thesis using numbered_told [OF assms(1)] numbered_ears by blast
next
  case (more n vis l)
  then show ?thesis using numbered_deliver [OF assms(1)] numbered_ears by blast
next
  case (over n vis)
  then show ?thesis using numbered_over [OF assms(1)] numbered_ears by blast
next
  case (join l)
  then show ?thesis using numbered_join [OF assms(1)] numbered_ears by blast
next
  case (leave ls)
  then show ?thesis using numbered_leave [OF assms(1)] numbered_ears numberedD(1) [OF assms(1)] by blast
qed (use numbered_ears assms(1) in blast)

lemma run_numbered: "source_run s \<Longrightarrow> numbered s"
proof (induction rule: source_run.induct)
  case (initial history)
  then show ?case by (simp add: numbered_def new_live_source_def)
next
  case (step s l)
  then show ?case using numbered_step ear_step_all run_control by blast
qed

text \<open>
  Each listener hears every notice, in order. In every reachable state the notices a listener was told
  carry consecutive sequence numbers from the one that was next when it subscribed, up to the last
  one dispatched, less the one whose dispatch has not reached it yet.
\<close>

theorem source_notices_contiguous:
  assumes "source_run s" and "l \<in> set (so_listeners s)"
  shows "\<exists>j. map_of (so_joined s) l = Some j \<and>
    map n_sequence (notices_of l s) = [jn_first j..<(if awaits l s then so_sequence s else Suc (so_sequence s))]"
proof -
  have n: "numbered s" using run_numbered [OF assms(1)] .
  then obtain j where "map_of (so_joined s) l = Some j" using assms(2) numberedD(2) by (metis map_of_eq_None_iff not_None_eq subsetD)
  moreover from this obtain k where "heard s l (jn_first j) k" using numberedD(5) [OF n] by blast
  ultimately show ?thesis using assms(2) by (auto simp: heard_def)
qed


section \<open>No change is lost unnoticed\<close>

text \<open>What a notice and an entry of the history say of a document.\<close>

fun told :: "source_notice \<Rightarrow> (jsval \<times> bool) list" where
  "told (Change _ i d) = [(i, d)]"
| "told (Reset _ _) = []"

definition entry :: "source_change \<Rightarrow> (jsval \<times> bool) list" where
  "entry change = (case change_notice 0 change of None \<Rightarrow> [] | Some n \<Rightarrow> told n)"

definition entries :: "nat \<Rightarrow> live_source \<Rightarrow> (jsval \<times> bool) list" where
  "entries p s = concat (map entry (drop p (take (so_position s) (so_log s))))"

text \<open>What a listener was told or is about to be told.\<close>

definition total :: "nat \<Rightarrow> live_source \<Rightarrow> (jsval \<times> bool) list" where
  "total l s = concat (map told (notices_of l s)) @ (if awaits l s then told (fst (the (so_notice s))) else [])"

definition was_reset :: "nat \<Rightarrow> live_source \<Rightarrow> bool" where
  "was_reset l s \<longleftrightarrow> (\<exists>q r. Reset q r \<in> set (notices_of l s))"

lemma entry_notice: "change_notice q change = Some n \<Longrightarrow> entry change = told n"
  by (auto simp: change_notice_def entry_def split: if_splits)

lemma entry_no_notice: "change_notice q change = None \<Longrightarrow> entry change = []"
  by (auto simp: change_notice_def entry_def split: if_splits)

lemma view_ears: "ears s' = ears s \<Longrightarrow> total l s' = total l s \<and> was_reset l s' = was_reset l s \<and> awaits l s' = awaits l s"
  by (simp add: ears_def total_def was_reset_def notices_of_def awaits_def)

lemma notices_deliver: "notices_of k (deliver_notice n vis l s) = notices_of k s @ (if k = l then [n] else [])"
  by (simp add: notices_of_def deliver_notice_def)

lemma total_deliver:
  assumes "so_notice s = Some (n, vis)" and "next_listener vis s = Some k"
  shows "total l (deliver_notice n vis k s) = total l s" and "was_reset l s \<Longrightarrow> was_reset l (deliver_notice n vis k s)"
proof -
  have "awaits l (deliver_notice n vis k s) = (awaits l s \<and> l \<noteq> k)" "awaits k s"
    using assms next_listenerD [OF assms(2)] by (auto simp: awaits_def deliver_notice_def)
  then show "total l (deliver_notice n vis k s) = total l s"
    using assms(1) by (cases "l = k") (simp_all add: total_def notices_deliver, simp_all add: deliver_notice_def)
qed (auto simp: was_reset_def notices_deliver)

lemma total_over:
  assumes "so_notice s = Some (n, vis)" and "next_listener vis s = None"
  shows "total l (s\<lparr>so_notice := None\<rparr>) = total l s" and "was_reset l (s\<lparr>so_notice := None\<rparr>) = was_reset l s" and "\<not> awaits l s"
  using assms by (auto simp: total_def awaits_def notices_of_def was_reset_def next_listenerN split: if_splits)

lemma awaits_dispatch:
  assumes "so_notice s = None" and "l \<in> set (so_listeners s)"
  shows "(notices_of l (dispatch n s) = notices_of l s @ [n] \<and> \<not> awaits l (dispatch n s)) \<or>
    (notices_of l (dispatch n s) = notices_of l s \<and> awaits l (dispatch n s) \<and> (\<exists>vis. so_notice (dispatch n s) = Some (n, vis)))"
proof -
  obtain k where k: "next_listener [] s = Some k" using assms(2) by (cases "next_listener [] s") (auto simp: next_listenerN)
  then show ?thesis using assms(2) by (cases "l = k") (auto simp: dispatch_def notices_deliver awaits_def deliver_notice_def notices_of_def)
qed

lemma total_dispatch:
  assumes "so_notice s = None" and "l \<in> set (so_listeners s)"
  shows "total l (dispatch n s) = total l s @ told n" and "was_reset l s \<Longrightarrow> was_reset l (dispatch n s)"
proof -
  have a: "\<not> awaits l s" using assms(1) by (simp add: awaits_def)
  show "total l (dispatch n s) = total l s @ told n" using awaits_dispatch [OF assms, of n] a by (auto simp: total_def)
  show "was_reset l (dispatch n s)" if "was_reset l s" using awaits_dispatch [OF assms, of n] that by (fastforce simp: was_reset_def)
qed

fun intact :: "source_pc \<Rightarrow> bool" where
  "intact Reading = True"
| "intact ChangeDispatch = True"
| "intact (Resetting _) = True"
| "intact Finished = True"
| "intact _ = False"

definition safe :: "live_source \<Rightarrow> nat \<Rightarrow> nat \<Rightarrow> bool" where
  "safe s l p \<longleftrightarrow> was_reset l s \<or>
     (p \<le> so_position s \<and> total l s = entries p s \<and>
      (intact (so_pc s) \<or> (so_pc s = ResetDispatch \<and> awaits l s \<and> (\<exists>q r. fst (the (so_notice s)) = Reset q r))))"

text \<open>The two parts of the invariant.\<close>

definition guarded :: "live_source \<Rightarrow> bool" where
  "guarded s \<longleftrightarrow> (\<forall>l j. l \<in> set (so_listeners s) \<longrightarrow> map_of (so_joined s) l = Some j \<longrightarrow> jn_ready j \<longrightarrow>
     has_worker (so_pc s) \<and> safe s l (jn_position j))"

definition notice_ok :: "live_source \<Rightarrow> bool" where
  "notice_ok s \<longleftrightarrow> (so_pc s = ChangeDispatch \<longrightarrow> (\<forall>n vis. so_notice s = Some (n, vis) \<longrightarrow>
     0 < so_position s \<and> change_notice (so_sequence s) (so_log s ! (so_position s - 1)) = Some n \<and>
     (so_ready s \<longrightarrow> (\<exists>q i d. n = Change q i d))))"

lemma guardedI:
  assumes "guarded s" and "so_joined s' = so_joined s" and "set (so_listeners s') \<subseteq> set (so_listeners s)"
    and "\<And>l p. l \<in> set (so_listeners s') \<Longrightarrow> has_worker (so_pc s) \<Longrightarrow> safe s l p \<Longrightarrow> has_worker (so_pc s') \<and> safe s' l p"
  shows "guarded s'"
  using assms unfolding guarded_def by (metis subsetD)

lemma safe_same:
  assumes "safe s l p" and "ears s' = ears s" and "so_position s' = so_position s" and "take (so_position s) (so_log s') = take (so_position s) (so_log s)"
    and "intact (so_pc s) \<Longrightarrow> intact (so_pc s')" and "so_pc s = ResetDispatch \<Longrightarrow> awaits l s \<Longrightarrow> so_pc s' = ResetDispatch"
  shows "safe s' l p"
proof -
  have "so_notice s' = so_notice s" using assms(2) by (simp add: ears_def)
  then show ?thesis using assms view_ears [OF assms(2)] by (auto simp: safe_def entries_def)
qed

lemma reset_mono:
  assumes "ear_step s s'" and "l \<in> set (so_listeners s)" and "was_reset l s"
  shows "was_reset l s'"
  using assms(1)
proof cases
  case (told n)
  let ?s = "s\<lparr>so_sequence := Suc (so_sequence s)\<rparr>"
  have "was_reset l ?s" using assms(3) by (simp add: was_reset_def notices_of_def)
  then show ?thesis using told view_ears [OF told(2), of l] total_dispatch(2) [of ?s l n] assms(2) by simp
next
  case (more n vis k)
  then show ?thesis using total_deliver(2) [OF more(1,2) assms(3)] view_ears [OF more(3), of l] by simp
next
  case (join k)
  have "was_reset l (source_subscribe k s)" using assms(3) by (simp add: was_reset_def notices_of_def source_subscribe_def)
  then show ?thesis using view_ears [OF join(2), of l] by simp
qed (use assms(3) in \<open>simp_all add: ears_def was_reset_def notices_of_def\<close>)

text \<open>Once the worker has given up its stream, a step can only keep the listeners reset.\<close>

lemma guarded_lost:
  assumes "guarded s" and "ear_step s s'" and "so_joined s' = so_joined s" and "so_listeners s' = so_listeners s"
    and "\<not> intact (so_pc s)" and "so_pc s = ResetDispatch \<Longrightarrow> \<forall>l. \<not> awaits l s" and "has_worker (so_pc s) \<Longrightarrow> has_worker (so_pc s')"
  shows "guarded s'"
proof (rule guardedI [OF assms(1)])
  fix l p assume "l \<in> set (so_listeners s')" "has_worker (so_pc s)" "safe s l p"
  then show "has_worker (so_pc s') \<and> safe s' l p" using assms(4-7) reset_mono [OF assms(2)] by (auto simp: safe_def)
qed (use assms(3,4) in simp_all)

lemma guarded_same:
  assumes "guarded s" and "ears s' = ears s" and "so_position s' = so_position s" and "take (so_position s) (so_log s') = take (so_position s) (so_log s)"
    and "so_pc s' = so_pc s \<or> intact (so_pc s) \<and> intact (so_pc s')"
  shows "guarded s'"
proof (rule guardedI [OF assms(1)])
  have w: "intact pc \<Longrightarrow> has_worker pc" "intact pc \<Longrightarrow> pc \<noteq> ResetDispatch" for pc by (cases pc; simp)+
  fix l p assume "has_worker (so_pc s)" "safe s l p"
  then show "has_worker (so_pc s') \<and> safe s' l p" using safe_same [OF _ assms(2-4)] assms(5) w by auto
qed (use assms(2) in \<open>simp_all add: ears_def\<close>)

lemma entries_next:
  assumes "p \<le> so_position s" and "so_position s < length (so_log s)" and "so_position s' = Suc (so_position s)" and "so_log s' = so_log s"
  shows "entries p s' = entries p s @ entry (so_log s ! so_position s)"
  using assms by (simp add: entries_def take_Suc_conv_app_nth)

lemma guarded_read:
  assumes "guarded s" and "control_ok s" and "so_pc s = Reading" and "so_position s < length (so_log s)"
  shows "guarded ((dispatchChange s)\<lparr>so_pc := ChangeDispatch\<rparr>)" (is "guarded ?s'")
proof (rule guardedI [OF assms(1)])
  have none: "so_notice s = None" using assms(2,3) by (intro control_quiet) (simp_all add: dispatching_def)
  have f: "so_position ?s' = Suc (so_position s)" "so_log ?s' = so_log s" by (simp_all add: dispatchChange_def Let_def split: option.splits)
  have e: "ears ?s' = ears (dispatchChange s)" by simp
  show "so_joined ?s' = so_joined s" "set (so_listeners ?s') \<subseteq> set (so_listeners s)" by (simp_all add: dispatchChange_def Let_def split: option.splits)
  then have ls: "so_listeners ?s' = so_listeners s" by (simp add: dispatchChange_def Let_def split: option.splits)
  fix l p assume l: "l \<in> set (so_listeners ?s')" and s: "safe s l p"
  let ?c = "so_log s ! so_position s" and ?s = "s\<lparr>so_sequence := Suc (so_sequence s)\<rparr>"
  have v: "total l ?s = total l s" "was_reset l ?s = was_reset l s" "so_notice ?s = None" "l \<in> set (so_listeners ?s)"
    using none l ls by (simp_all add: total_def was_reset_def notices_of_def awaits_def)
  have "total l ?s' = total l s @ entry ?c \<and> (was_reset l s \<longrightarrow> was_reset l ?s')"
  proof (cases "change_notice (Suc (so_sequence s)) ?c")
    case None
    then show ?thesis using view_ears [of ?s' s l] change_ears [of s] e entry_no_notice [OF None] by simp
  next
    case (Some n)
    then show ?thesis using view_ears [of ?s' "dispatch n ?s" l] change_ears [of s] e entry_notice [OF Some] total_dispatch [OF v(3,4), of n] v by simp
  qed
  then show "has_worker (so_pc ?s') \<and> safe ?s' l p" using s assms(3) entries_next [OF _ assms(4) f, of p] f(1) by (auto simp: safe_def)
qed

lemma guarded_told_reset:
  assumes "guarded s" and "so_pc s = Resetting reason" and "so_notice s = None"
  shows "guarded (dispatch (Reset q r) (s\<lparr>so_stream := None, so_sequence := q', so_pc := ResetDispatch\<rparr>))" (is "guarded (dispatch ?n ?s)")
proof (rule guardedI [OF assms(1)])
  fix l p assume l: "l \<in> set (so_listeners (dispatch ?n ?s))" and s: "safe s l p"
  have v: "total l ?s = total l s" "was_reset l ?s = was_reset l s" "so_notice ?s = None" "l \<in> set (so_listeners ?s)"
    using assms(3) l by (simp_all add: total_def was_reset_def notices_of_def awaits_def)
  from awaits_dispatch [OF v(3,4), of ?n] consider "was_reset l (dispatch ?n ?s)"
    | "awaits l (dispatch ?n ?s)" "\<exists>vis. so_notice (dispatch ?n ?s) = Some (?n, vis)" by (fastforce simp: was_reset_def)
  then show "has_worker (so_pc (dispatch ?n ?s)) \<and> safe (dispatch ?n ?s) l p"
    by cases (use s total_dispatch [OF v(3,4), of ?n] v in \<open>auto simp: safe_def entries_def\<close>)
qed simp_all

lemma guarded_deliver:
  assumes "guarded s" and "so_notice s = Some (n, vis)" and "next_listener vis s = Some k"
  shows "guarded (deliver_notice n vis k s)"
proof (rule guardedI [OF assms(1)])
  fix l p assume w: "has_worker (so_pc s)" and s: "safe s l p"
  have k: "awaits l (deliver_notice n vis k s) = (awaits l s \<and> l \<noteq> k)" using assms(2) by (auto simp: awaits_def deliver_notice_def)
  have r: "was_reset k (deliver_notice (Reset q r) vis k s)" for q r by (auto simp: was_reset_def notices_deliver)
  have f: "so_pc (deliver_notice n vis k s) = so_pc s" "so_position (deliver_notice n vis k s) = so_position s" "so_log (deliver_notice n vis k s) = so_log s"
    "fst (the (so_notice (deliver_notice n vis k s))) = n" by (simp_all add: deliver_notice_def)
  show "has_worker (so_pc (deliver_notice n vis k s)) \<and> safe (deliver_notice n vis k s) l p"
    using w s total_deliver [OF assms(2,3), of l] k r assms(2) unfolding safe_def entries_def f by (cases "l = k"; cases n) auto
qed (simp_all add: deliver_notice_def)

lemma guarded_dispatched:
  assumes "guarded s" and "dispatching (so_pc s)" and "\<And>l. \<not> awaits l s"
  shows "guarded (dispatched s)"
proof (cases "so_pc s = ChangeDispatch")
  case True
  then show ?thesis by (intro guarded_same [OF assms(1)]) (simp_all add: dispatched_def ears_def)
next
  case False
  have "has_worker (so_pc (dispatched s))" if "has_worker (so_pc s)"
    using that by (auto simp: dispatched_def reset_loop_def reopened_def consume_def split: source_pc.splits)
  moreover have "ears (dispatched s) = ears s" by (rule ears_fields)
  ultimately show ?thesis using assms(2,3) False
    by (intro guarded_lost [OF assms(1)] ear_step.same) (auto simp: ears_def dispatching_def)
qed

lemma guarded_over:
  assumes "guarded s" and "so_notice s = Some (n, vis)" and "next_listener vis s = None"
  shows "guarded (s\<lparr>so_notice := None\<rparr>)"
proof (rule guardedI [OF assms(1)])
  fix l p assume "has_worker (so_pc s)" "safe s l p"
  then show "has_worker (so_pc (s\<lparr>so_notice := None\<rparr>)) \<and> safe (s\<lparr>so_notice := None\<rparr>) l p"
    using total_over [OF assms(2,3), of l] by (auto simp: safe_def entries_def)
qed simp_all

lemma guarded_leave:
  assumes "guarded s" and "set ls \<subseteq> set (so_listeners s)"
  shows "guarded (s\<lparr>so_listeners := ls\<rparr>)"
proof (rule guardedI [OF assms(1)])
  fix l p assume l: "l \<in> set (so_listeners (s\<lparr>so_listeners := ls\<rparr>))" and w: "has_worker (so_pc s)" and s: "safe s l p"
  have a: "awaits l (s\<lparr>so_listeners := ls\<rparr>) = awaits l s" using l assms(2) by (auto simp: awaits_def)
  then have "total l (s\<lparr>so_listeners := ls\<rparr>) = total l s" "was_reset l (s\<lparr>so_listeners := ls\<rparr>) = was_reset l s"
    by (simp_all add: total_def was_reset_def notices_of_def)
  then show "has_worker (so_pc (s\<lparr>so_listeners := ls\<rparr>)) \<and> safe (s\<lparr>so_listeners := ls\<rparr>) l p"
    using w s a by (simp add: safe_def entries_def)
qed (use assms(2) in simp_all)

lemma guarded_join:
  assumes "guarded s" and "numbered s" and "control_ok s" and "notice_ok s" and "map_of (so_joined s) l = None"
  shows "guarded (source_subscribe l s)" (is "guarded ?s")
  unfolding guarded_def
proof (intro allI impI)
  fix k j assume k: "k \<in> set (so_listeners ?s)" and j: "map_of (so_joined ?s) k = Some j" and r: "jn_ready j"
  have l: "l \<notin> fst ` set (so_joined s)" using assms(5) by (simp add: map_of_eq_None_iff)
  have f: "so_position ?s = so_position s" "so_log ?s = so_log s" "so_pc ?s = so_pc s" "so_notice ?s = so_notice s" "notices_of k ?s = notices_of k s" for k
    by (simp_all add: source_subscribe_def notices_of_def)
  show "has_worker (so_pc ?s) \<and> safe ?s k (jn_position j)"
  proof (cases "k = l")
    case False
    then have "map_of (so_joined s) k = Some j" "k \<in> set (so_listeners s)" using j k by (auto simp: source_subscribe_def map_add_def split: option.splits if_splits)
    moreover have "awaits k ?s = awaits k s" using False by (simp add: awaits_def source_subscribe_def)
    ultimately show ?thesis using assms(1) r unfolding guarded_def safe_def entries_def total_def was_reset_def f by simp
  next
    case True
    then have j: "j = \<lparr>jn_first = (if so_notice s = None then Suc (so_sequence s) else so_sequence s),
        jn_position = (if so_notice s = None then so_position s else so_position s - 1), jn_history = length (so_log s), jn_ready = so_ready s\<rparr>"
      using j assms(5) by (simp add: source_subscribe_def map_add_def)
    then have pc: "so_pc s \<in> {Reading, ChangeDispatch, Finished}" "so_ready s" using r assms(3) by (simp_all add: control_ok_def)
    have no: "notices_of l s = []" using l numberedD(3) [OF assms(2)] by (force simp: notices_of_def filter_empty_conv)
    have "total l ?s = entries (jn_position j) ?s \<and> jn_position j \<le> so_position s"
    proof (cases "so_notice s")
      case None
      then show ?thesis using j no by (simp add: total_def entries_def f awaits_def)
    next
      case (Some nv)
      obtain n vis where n: "nv = (n, vis)" by fastforce
      have "so_pc s = ChangeDispatch" using Some pc assms(3) by (auto simp: control_ok_def dispatching_def)
      then have c: "0 < so_position s" "change_notice (so_sequence s) (so_log s ! (so_position s - 1)) = Some n"
        using assms(4) Some n by (simp_all add: notice_ok_def)
      have "l \<notin> set vis" using l numberedD(4) [OF assms(2)] Some n by blast
      then have a: "awaits l ?s" using Some n by (simp add: awaits_def source_subscribe_def)
      obtain p where p: "so_position s = Suc p" using c(1) gr0_implies_Suc by blast
      have "p < length (so_log s)" using assms(3) p by (simp add: control_ok_def)
      then have "entries p ?s = told n" using c(2) p entry_notice [of "so_sequence s" _ n] by (simp add: entries_def f take_Suc_conv_app_nth)
      then show ?thesis using Some n a no j p by (simp add: total_def f)
    qed
    then show ?thesis using True pc by (auto simp: safe_def f)
  qed
qed

lemma steps_keep_listeners:
  "so_joined (dispatchChange s) = so_joined s" "so_listeners (dispatchChange s) = so_listeners s"
  "so_joined (consume s) = so_joined s" "so_listeners (consume s) = so_listeners s"
  "so_joined (reset_loop s) = so_joined s" "so_listeners (reset_loop s) = so_listeners s"
  "so_joined (reopened s) = so_joined s" "so_listeners (reopened s) = so_listeners s"
  "so_joined (initial_established s) = so_joined s" "so_listeners (initial_established s) = so_listeners s"
  using ears_fields [of s] by (simp_all add: ears_def dispatchChange_def Let_def split: option.splits)

lemma loops_keep_worker: "has_worker (so_pc (consume s))" "has_worker (so_pc (reset_loop s))" "has_worker (so_pc (reopened s))"
  by (simp_all add: consume_def reset_loop_def reopened_def)

lemma guarded_dispatch_step:
  assumes "guarded s" and "dispatching (so_pc s)"
  shows "guarded (dispatch_step s)"
proof (cases "so_notice s")
  case None
  then show ?thesis using guarded_dispatched [OF assms] by (simp add: dispatch_step_def awaits_def)
next
  case (Some nv)
  obtain n vis where n: "so_notice s = Some (n, vis)" using Some by (cases nv) simp
  show ?thesis
  proof (cases "next_listener vis s")
    case None
    then show ?thesis using guarded_dispatched [OF guarded_over [OF assms(1) n None]] assms(2) n by (simp add: dispatch_step_def awaits_def)
  next
    case (Some k)
    then show ?thesis using guarded_deliver [OF assms(1) n Some] n by (simp add: dispatch_step_def)
  qed
qed

lemma guarded_start:
  assumes "guarded s"
  shows "guarded (source_start k throws s)"
proof (cases "has_worker (so_pc s)")
  case True
  then show ?thesis by (intro guarded_same [OF assms]) (auto simp: source_start_def ears_def Let_def)
next
  case False
  moreover have "\<not> intact (so_pc s)" "so_pc s \<noteq> ResetDispatch" using False by (cases "so_pc s"; simp)+
  ultimately show ?thesis
    by (intro guarded_lost [OF assms] ear_step.same)
      (auto simp: source_start_def establishInitial_def start_failed_def ears_def Let_def split: option.splits)
qed

lemma guarded_step:
  assumes "guarded s" and "numbered s" and "control_ok s" and "notice_ok s" and "source_enabled l s"
  shows "guarded (source_step l s)"
proof -
  have lost: "guarded (source_step l s)" if "\<not> intact (so_pc s)" "so_pc s \<noteq> ResetDispatch" "so_joined (source_step l s) = so_joined s"
    "so_listeners (source_step l s) = so_listeners s" "has_worker (so_pc s) \<Longrightarrow> has_worker (so_pc (source_step l s))"
    using that by (intro guarded_lost [OF assms(1) ear_step_all [OF assms(3,5)]]) simp_all
  show ?thesis
  proof (cases l)
    case (StreamClosed)
    show ?thesis
    proof (cases "\<exists>reason. so_pc s = Resetting reason")
      case True
      then have "so_notice s = None" using assms(3) by (intro control_quiet) (auto simp: dispatching_def)
      then show ?thesis using True StreamClosed guarded_told_reset [OF assms(1)] by auto
    next
      case False
      then show ?thesis using StreamClosed assms(5) by (intro lost) (auto simp: steps_keep_listeners loops_keep_worker split: source_pc.splits)
    qed
  next
    case ReadNext
    then show ?thesis using assms(5) guarded_read [OF assms(1,3)] guarded_same [OF assms(1), of "(close_stream s)\<lparr>so_pc := Finished\<rparr>"]
      by (auto simp: ears_def)
  next
    case ReadOver
    then show ?thesis using assms(5) by (intro guarded_same [OF assms(1)]) (auto simp: ears_def resetAndReopen_def)
  next
    case (Commit c)
    then show ?thesis using assms(3) by (intro guarded_same [OF assms(1)]) (auto simp: ears_def control_ok_def)
  next
    case DispatchStep
    then show ?thesis using guarded_dispatch_step [OF assms(1)] assms(5) by (simp add: dispatching_def)
  next
    case (Subscribe k)
    then show ?thesis using guarded_join [OF assms(1-4)] assms(5) by simp
  next
    case (Unsubscribe k)
    then show ?thesis using guarded_leave [OF assms(1)] by (simp add: source_unsubscribe_def)
  next
    case CloseFinished
    have "guarded (s\<lparr>so_listeners := []\<rparr>)" using guarded_leave [OF assms(1)] by simp
    then have "guarded (close_finished s)" by (rule guarded_same) (simp_all add: close_finished_def ears_def)
    then show ?thesis using CloseFinished by simp
  next
    case (StartCall k throws)
    then show ?thesis using guarded_start [OF assms(1)] by simp
  next
    case (FirstAnswer p got)
    then show ?thesis using assms(5) by (intro lost) (auto simp: steps_keep_listeners loops_keep_worker Let_def)
  next
    case (FirstError err)
    then show ?thesis using assms(5) by (intro lost) (auto simp: start_failed_def reopen_failed_def)
  next
    case (DelayOver throws)
    then show ?thesis using assms(5) by (intro lost) (auto simp: reopen_failed_def)
  qed (intro guarded_same [OF assms(1)], auto simp: ears_def start_woken_def source_close_def)+
qed

lemma notice_of_dispatch: "so_notice s = None \<Longrightarrow> so_notice (dispatch n s) = Some (n', vis) \<Longrightarrow> n' = n"
  by (auto simp: dispatch_def deliver_notice_def split: option.splits)

lemma notice_ok_read: "so_notice s = None \<Longrightarrow> notice_ok ((dispatchChange s)\<lparr>so_pc := ChangeDispatch\<rparr>)"
  by (auto simp: notice_ok_def dispatchChange_def change_notice_def Let_def dest!: notice_of_dispatch [rotated] split: option.splits)

lemma notice_ok_other: "so_pc s \<noteq> ChangeDispatch \<Longrightarrow> notice_ok s"
  by (simp add: notice_ok_def)

lemma not_change_dispatch:
  "so_pc (consume s) \<noteq> ChangeDispatch" "so_pc (reset_loop s) \<noteq> ChangeDispatch" "so_pc (reopened s) \<noteq> ChangeDispatch"
  "so_pc (initial_established s) \<noteq> ChangeDispatch" "so_pc (establishInitial throws s) \<noteq> ChangeDispatch"
  by (simp_all add: consume_def reset_loop_def reopened_def initial_established_def establishInitial_def start_failed_def split: option.splits)

lemma notice_ok_dispatch_step:
  assumes "notice_ok s" and "dispatching (so_pc s)"
  shows "notice_ok (dispatch_step s)"
proof -
  have "so_pc (dispatched v) \<noteq> ChangeDispatch" if "dispatching (so_pc v)" for v
    using that by (auto simp: dispatched_def dispatching_def not_change_dispatch)
  then have "notice_ok (dispatched v)" if "dispatching (so_pc v)" for v using that notice_ok_other by blast
  moreover have "notice_ok (deliver_notice n vis k s)" if "so_notice s = Some (n, vis)" for n vis k
    using that assms(1) by (simp add: notice_ok_def deliver_notice_def)
  ultimately show ?thesis using assms(2) by (auto simp: dispatch_step_def split: option.splits)
qed

lemma notice_ok_step:
  assumes "notice_ok s" and "control_ok s" and "source_enabled l s"
  shows "notice_ok (source_step l s)"
proof (cases l)
  case ReadNext
  then have "so_notice s = None" using assms by (intro control_quiet) (auto simp: dispatching_def)
  then show ?thesis using ReadNext notice_ok_read [of s] by (simp add: notice_ok_other)
next
  case DispatchStep
  then show ?thesis using notice_ok_dispatch_step [OF assms(1)] assms(3) by (simp add: dispatching_def)
next
  case StreamClosed
  then show ?thesis using assms(3) by (intro notice_ok_other) (auto simp: not_change_dispatch split: source_pc.splits)
next
  case (FirstAnswer p got)
  then show ?thesis using assms(3) by (intro notice_ok_other) (auto simp: not_change_dispatch Let_def)
next
  case (StartCall k throws)
  then show ?thesis using assms(1) not_change_dispatch(5) by (auto simp: source_start_def Let_def notice_ok_def)
next
  case (Commit c)
  then show ?thesis using assms(1,2) by (auto simp: notice_ok_def control_ok_def nth_append)
qed (use assms in \<open>auto simp: notice_ok_def start_woken_def source_close_def close_finished_def source_subscribe_def source_unsubscribe_def
       start_failed_def reopen_failed_def resetAndReopen_def\<close>)

lemma run_safe: "source_run s \<Longrightarrow> guarded s \<and> notice_ok s"
proof (induction rule: source_run.induct)
  case (initial history)
  then show ?case by (simp add: guarded_def notice_ok_def new_live_source_def)
next
  case (step s l)
  then show ?case using guarded_step notice_ok_step run_control run_numbered by blast
qed

text \<open>A listener joined no later than the history's end at that time.\<close>

definition joined_ok :: "live_source \<Rightarrow> bool" where
  "joined_ok s \<longleftrightarrow> (\<forall>(l, j) \<in> set (so_joined s). jn_position j \<le> jn_history j)"

lemma joined_ok_step:
  assumes "joined_ok s" and "control_ok s" and "source_enabled l s"
  shows "joined_ok (source_step l s)"
proof -
  have same: "so_joined s' = so_joined s \<Longrightarrow> joined_ok s'" for s' using assms(1) by (simp add: joined_ok_def)
  have "joined_ok (source_subscribe k s)" for k using assms(1,2) by (auto simp: joined_ok_def source_subscribe_def control_ok_def)
  then have join: "so_joined s' = so_joined (source_subscribe k s) \<Longrightarrow> joined_ok s'" for s' k by (simp add: joined_ok_def)
  from ear_step_all [OF assms(2,3)] show ?thesis
    by cases (use same join in \<open>simp_all add: ears_def deliver_notice_def\<close>)
qed

lemma run_joined: "source_run s \<Longrightarrow> joined_ok s"
  by (induction rule: source_run.induct) (auto simp: joined_ok_step run_control, simp add: joined_ok_def new_live_source_def)

text \<open>
  C4: No change is lost unnoticed. Take any listener that subscribed while the source was ready. Unless
  it was told of a reset, what it was told, together with the notice on its way to it, is exactly what
  the history of the collection holds from a point no later than its subscription up to the stream's
  position, in that order and each change once, whatever the driver and the other callers did.
\<close>

theorem no_change_lost_unnoticed:
  assumes "source_run s" and "l \<in> set (so_listeners s)" and "map_of (so_joined s) l = Some j" and "jn_ready j"
  shows "(\<exists>q reason. Reset q reason \<in> set (notices_of l s)) \<or>
    (jn_position j \<le> jn_history j \<and>
     concat (map told (notices_of l s)) @ (if awaits l s then told (fst (the (so_notice s))) else []) =
       concat (map entry (drop (jn_position j) (take (so_position s) (so_log s)))))"
proof -
  have "safe s l (jn_position j)" using run_safe [OF assms(1)] assms(2-4) by (simp add: guarded_def)
  moreover have "jn_position j \<le> jn_history j" using run_joined [OF assms(1)] map_of_SomeD [OF assms(3)] by (auto simp: joined_ok_def)
  ultimately show ?thesis unfolding safe_def was_reset_def total_def entries_def by blast
qed


section \<open>Runs given by their labels\<close>

fun source_runs :: "source_label list \<Rightarrow> live_source \<Rightarrow> bool" where
  "source_runs [] s = True"
| "source_runs (l # ls) s = (source_enabled l s \<and> source_runs ls (source_step l s))"

definition after :: "source_label list \<Rightarrow> live_source" where
  "after ls = foldl (\<lambda>s l. source_step l s) (new_live_source []) ls"

lemma run_labels: "source_runs ls s \<Longrightarrow> source_run s \<Longrightarrow> source_run (foldl (\<lambda>s l. source_step l s) s ls)"
  by (induction ls arbitrary: s) (auto intro: source_run.step)

lemma run_after: "source_runs ls (new_live_source []) \<Longrightarrow> source_run (after ls)"
  unfolding after_def by (rule run_labels [OF _ source_run.initial])

definition sample_change :: "string \<Rightarrow> source_change" where
  "sample_change i = \<lparr>ch_operationType = ''update'', ch_documentKey = Some (JObj [(''_id'', JStr i)])\<rparr>"

definition sample_told :: "source_label list" where
  "sample_told = [StartCall 0 None, FirstAnswer 0 False, Subscribe 5, Commit (sample_change ''a''), Commit (sample_change ''b''), ReadNext, DispatchStep, ReadNext]"

theorem source_notices_contiguous_witness:
  "\<exists>j. map_of (so_joined (after sample_told)) 5 = Some j \<and> map n_sequence (notices_of 5 (after sample_told)) = [jn_first j..<3]"
proof -
  have r: "source_runs sample_told (new_live_source [])" and "5 \<in> set (so_listeners (after sample_told))"
    and "\<not> awaits 5 (after sample_told)" "so_sequence (after sample_told) = 2" unfolding sample_told_def sample_change_def by code_simp+
  then show ?thesis using source_notices_contiguous [OF run_after [OF r], of 5] by simp
qed

theorem no_change_lost_unnoticed_witness:
  "concat (map told (notices_of 5 (after sample_told))) = concat (map entry (drop 0 (take 2 (so_log (after sample_told)))))"
proof -
  have r: "source_runs sample_told (new_live_source [])" and l: "5 \<in> set (so_listeners (after sample_told))"
    and j: "map_of (so_joined (after sample_told)) 5 = Some \<lparr>jn_first = 1, jn_position = 0, jn_history = 0, jn_ready = True\<rparr>"
    and s: "\<not> awaits 5 (after sample_told)" "so_position (after sample_told) = 2" "list_all (\<lambda>n. told n \<noteq> []) (notices_of 5 (after sample_told))"
    unfolding sample_told_def sample_change_def by code_simp+
  have "Reset q r \<notin> set (notices_of 5 (after sample_told))" for q r using s(3) by (auto simp: list_all_iff)
  then show ?thesis using no_change_lost_unnoticed [OF run_after [OF r] l j] s by simp
qed

text \<open>
  A source that is closed while its worker waits to reopen the stream leaves a stream open: the
  worker does not look at \<open>closed\<close> again before it opens the stream, and \<open>close\<close> has closed the
  previous one already.
\<close>

lemma close_leaves_stream_open:
  "\<exists>s. source_run s \<and> so_closed s \<and> so_pc s = Finished \<and> \<not> so_closing s \<and> so_open s \<noteq> []"
proof -
  let ?ls = "[StartCall 0 None, FirstAnswer 0 False, ReadOver, StreamClosed, DispatchStep, CloseCall, DelayOver False, FirstAnswer 0 False, CloseFinished]"
  have "source_runs ?ls (new_live_source [])" "so_closed (after ?ls)" "so_pc (after ?ls) = Finished" "\<not> so_closing (after ?ls)" "so_open (after ?ls) \<noteq> []"
    by code_simp+
  then show ?thesis using run_after by blast
qed

text \<open>
  Readiness is needed: a listener that subscribes after the reset was told, while the stream is being
  reopened without its token, misses the changes in between and is never told.
\<close>

lemma unready_listener_misses_change:
  "\<exists>s j. source_run s \<and> 5 \<in> set (so_listeners s) \<and> map_of (so_joined s) 5 = Some j \<and> \<not> jn_ready j \<and> so_ready s \<and> so_pc s = Reading \<and>
     jn_history j < length (so_log s) \<and> so_position s = length (so_log s) \<and> notices_of 5 s = []"
proof -
  let ?ls = "[StartCall 0 None, FirstAnswer 0 False, ReadOver, StreamClosed, DispatchStep, Subscribe 5, Commit (sample_change ''a''),
      DelayOver False, FirstAnswer 1 False]"
  have "source_runs ?ls (new_live_source [])" unfolding sample_change_def by code_simp
  then have "source_run (after ?ls)" by (rule run_after)
  moreover have "5 \<in> set (so_listeners (after ?ls))"
    "map_of (so_joined (after ?ls)) 5 = Some \<lparr>jn_first = 2, jn_position = 0, jn_history = 0, jn_ready = False\<rparr>"
    "so_ready (after ?ls)" "so_pc (after ?ls) = Reading" "length (so_log (after ?ls)) = 1" "so_position (after ?ls) = 1" "notices_of 5 (after ?ls) = []"
    unfolding sample_change_def by code_simp+
  ultimately show ?thesis by (intro exI [of _ "after ?ls"] exI [of _ "\<lparr>jn_first = 2, jn_position = 0, jn_history = 0, jn_ready = False\<rparr>"]) simp
qed

end
