(* ===== verification/ChangeStreams.thy ===== *)
theory ChangeStreams
  imports LiveObserver
begin

text \<open>
  The watches of a collection (\<open>src/mongodb/change-streams.ts\<close>): a change stream whose changes are
  emitted as events of the server.

  \<open>emitChange\<close> answers the emissions of a change, a channel and a payload each, or the error of the
  application's \<open>getChannel\<close>; the resume token in a payload is the JSON value its text denotes. The
  loop of \<open>startMongoWatch\<close> runs from one await to the next; \<open>cw_log\<close> is the history of the
  collection, \<open>cw_position\<close> the entry the current stream returns next, \<open>cw_open\<close> the streams the
  driver holds open. A stream starts at the end of the
  history at its opening, as it does unless the options of the watch name another point.
\<close>

section \<open>Changes and payloads\<close>

record watch_change =
  wc_operationType :: string
  wc_token :: jsval
  wc_documentKey :: "jsval option"
  wc_fullDocument :: jsval
  wc_fullDocumentBeforeChange :: "jsval option"
  wc_updatedFields :: "jsobj option"
  wc_removedFields :: "string list option"

record watch_definition =
  wd_event :: string
  wd_excludeFields :: "string list option"
  wd_getChannel :: "(jsval \<Rightarrow> watch_change \<Rightarrow> jsval js) option"

record watch_payload =
  wp_eventId :: "jsval option"
  wp_id :: string
  wp_doc :: jsval
  wp_deleted :: bool

definition or_null :: "jsval \<Rightarrow> jsval" where
  "or_null v = (if v = JUndef then JNull else v)"

definition extractObjectId :: "watch_change \<Rightarrow> string option" where
  "extractObjectId change =
     (case wc_documentKey change of
        None \<Rightarrow> None
      | Some key \<Rightarrow> (case get_prop key ''_id'' of JObjectId hex \<Rightarrow> Some hex | _ \<Rightarrow> None))"

definition readFullDocument :: "watch_change \<Rightarrow> jsval" where
  "readFullDocument change =
     (if wc_operationType change \<in> {''insert'', ''replace'', ''update''} then or_null (wc_fullDocument change) else JNull)"

definition readBeforeDocument :: "watch_change \<Rightarrow> jsval" where
  "readBeforeDocument change = (case wc_fullDocumentBeforeChange change of None \<Rightarrow> JNull | Some v \<Rightarrow> or_null v)"

definition toMongoWatchPayload :: "host \<Rightarrow> watch_change \<Rightarrow> watch_payload option" where
  "toMongoWatchPayload h change =
     (case extractObjectId change of
        None \<Rightarrow> None
      | Some i \<Rightarrow>
          if wc_operationType change = ''delete''
          then Some \<lparr>wp_eventId = json_norm h (wc_token change), wp_id = i, wp_doc = JNull, wp_deleted = True\<rparr>
          else
            (let doc = readFullDocument change in
             if \<not> truthy doc then None
             else Some \<lparr>wp_eventId = json_norm h (wc_token change), wp_id = i, wp_doc = doc, wp_deleted = False\<rparr>))"

definition changedFieldNames :: "watch_change \<Rightarrow> string list" where
  "changedFieldNames change =
     (case wc_updatedFields change of None \<Rightarrow> [] | Some kvs \<Rightarrow> map fst kvs) @
     (case wc_removedFields change of None \<Rightarrow> [] | Some ks \<Rightarrow> ks)"

definition field_root :: "string \<Rightarrow> string" where
  "field_root field = takeWhile (\<lambda>c. c \<noteq> CHR ''.'') field"

definition shouldSkipMongoWatchChange :: "watch_definition \<Rightarrow> watch_change \<Rightarrow> bool" where
  "shouldSkipMongoWatchChange watch change =
     (if wc_operationType change \<noteq> ''update'' then False
      else
        (let fields = changedFieldNames change in
         if fields = [] then False
         else
           list_all (\<lambda>field.
             field_root field = ''updatedAt'' \<or>
             (case wd_excludeFields watch of None \<Rightarrow> False | Some ks \<Rightarrow> field_root field \<in> set ks)) fields))"

definition resolveChannels :: "watch_definition \<Rightarrow> watch_change \<Rightarrow> jsval \<Rightarrow> jsval list js" where
  "resolveChannels watch change document =
     (case wd_getChannel watch of
        None \<Rightarrow> Inr [JStr []]
      | Some getChannel \<Rightarrow>
          if \<not> truthy document then Inr [JStr []]
          else
            rbind (getChannel document change) (\<lambda>result.
              if \<not> truthy result then Inr []
              else
                (case result of
                   JStr s \<Rightarrow> Inr [JStr s]
                 | JArr xs \<Rightarrow> Inr xs
                 | JBinary bs \<Rightarrow> Inr (map snd (own_entries result))
                 | _ \<Rightarrow> Inl (TypeError ''result is not iterable''))))"

definition emitChange :: "host \<Rightarrow> watch_definition \<Rightarrow> watch_change \<Rightarrow> (jsval \<times> watch_payload) list js" where
  "emitChange h watch change =
     (if shouldSkipMongoWatchChange watch change then Inr []
      else
        (case toMongoWatchPayload h change of
           None \<Rightarrow> Inr []
         | Some payload \<Rightarrow>
             rbind (resolveChannels watch change (if wp_doc payload = JNull then readBeforeDocument change else wp_doc payload))
               (\<lambda>channels. Inr (map (\<lambda>channel. (channel, payload)) channels))))"

section \<open>The watch loop\<close>

datatype watch_pc = WatchReading nat | WatchEmitting nat watch_change | WatchDelay nat | WatchClosing nat bool | WatchDone

record collection_watch =
  cw_closed :: bool
  cw_activeStream :: "nat option"
  cw_pc :: watch_pc
  cw_emitted :: "(jsval \<times> watch_payload) list"
  cw_log :: "watch_change list"
  cw_position :: nat
  cw_streams :: nat
  cw_open :: "nat list"

text \<open>The loop condition and the opening of a stream.\<close>

definition watch_loop :: "collection_watch \<Rightarrow> collection_watch" where
  "watch_loop w =
     (if cw_closed w then w\<lparr>cw_pc := WatchDone\<rparr>
      else
        w\<lparr>cw_activeStream := Some (cw_streams w), cw_open := cw_open w @ [cw_streams w], cw_position := length (cw_log w),
          cw_pc := WatchReading (cw_streams w), cw_streams := Suc (cw_streams w)\<rparr>)"

definition startMongoWatch :: "watch_change list \<Rightarrow> collection_watch" where
  "startMongoWatch history =
     watch_loop \<lparr>cw_closed = False, cw_activeStream = None, cw_pc = WatchDone, cw_emitted = [], cw_log = history, cw_position = 0,
       cw_streams = 0, cw_open = []\<rparr>"

text \<open>The \<open>finally\<close> block closes the stream; \<open>again\<close> tells whether the loop goes on afterwards.\<close>

definition watch_finally :: "nat \<Rightarrow> bool \<Rightarrow> collection_watch \<Rightarrow> collection_watch" where
  "watch_finally stream again w = w\<lparr>cw_open := filter (\<lambda>i. i \<noteq> stream) (cw_open w), cw_pc := WatchClosing stream again\<rparr>"

definition watch_failed :: "nat \<Rightarrow> collection_watch \<Rightarrow> collection_watch" where
  "watch_failed stream w = (if cw_closed w then watch_finally stream False w else w\<lparr>cw_pc := WatchDelay stream\<rparr>)"

definition watch_closed :: "nat \<Rightarrow> bool \<Rightarrow> collection_watch \<Rightarrow> collection_watch" where
  "watch_closed stream again w =
     (let w = (if cw_activeStream w = Some stream then w\<lparr>cw_activeStream := None\<rparr> else w) in
      if again then watch_loop w else w\<lparr>cw_pc := WatchDone\<rparr>)"

definition close_watch :: "collection_watch \<Rightarrow> collection_watch" where
  "close_watch w = w\<lparr>cw_closed := True, cw_open := filter (\<lambda>i. Some i \<noteq> cw_activeStream w) (cw_open w)\<rparr>"

datatype watch_label = NextChange | StreamEnds | StreamFails | Emitted | DelayEnds | WatchStreamClosed | CloseWatch | CommitChange watch_change

fun watch_enabled :: "watch_label \<Rightarrow> collection_watch \<Rightarrow> bool" where
  "watch_enabled NextChange w = (case cw_pc w of WatchReading i \<Rightarrow> i \<in> set (cw_open w) \<and> cw_position w < length (cw_log w) | _ \<Rightarrow> False)"
| "watch_enabled StreamEnds w = (case cw_pc w of WatchReading i \<Rightarrow> True | _ \<Rightarrow> False)"
| "watch_enabled StreamFails w = (case cw_pc w of WatchReading i \<Rightarrow> True | _ \<Rightarrow> False)"
| "watch_enabled Emitted w = (case cw_pc w of WatchEmitting i c \<Rightarrow> True | _ \<Rightarrow> False)"
| "watch_enabled DelayEnds w = (case cw_pc w of WatchDelay i \<Rightarrow> True | _ \<Rightarrow> False)"
| "watch_enabled WatchStreamClosed w = (case cw_pc w of WatchClosing i again \<Rightarrow> True | _ \<Rightarrow> False)"
| "watch_enabled _ w = True"

fun watch_step :: "host \<Rightarrow> watch_definition \<Rightarrow> watch_label \<Rightarrow> collection_watch \<Rightarrow> collection_watch" where
  "watch_step h watch NextChange w =
     (case cw_pc w of
        WatchReading i \<Rightarrow>
          if cw_closed w then watch_finally i False w
          else w\<lparr>cw_pc := WatchEmitting i (cw_log w ! cw_position w), cw_position := Suc (cw_position w)\<rparr>
      | _ \<Rightarrow> w)"
| "watch_step h watch StreamEnds w = (case cw_pc w of WatchReading i \<Rightarrow> watch_finally i False w | _ \<Rightarrow> w)"
| "watch_step h watch StreamFails w = (case cw_pc w of WatchReading i \<Rightarrow> watch_failed i w | _ \<Rightarrow> w)"
| "watch_step h watch Emitted w =
     (case cw_pc w of
        WatchEmitting i c \<Rightarrow>
          (case emitChange h watch c of
             Inl err \<Rightarrow> watch_failed i w
           | Inr out \<Rightarrow> w\<lparr>cw_emitted := cw_emitted w @ out, cw_pc := WatchReading i\<rparr>)
      | _ \<Rightarrow> w)"
| "watch_step h watch DelayEnds w = (case cw_pc w of WatchDelay i \<Rightarrow> watch_finally i True w | _ \<Rightarrow> w)"
| "watch_step h watch WatchStreamClosed w = (case cw_pc w of WatchClosing i again \<Rightarrow> watch_closed i again w | _ \<Rightarrow> w)"
| "watch_step h watch CloseWatch w = close_watch w"
| "watch_step h watch (CommitChange c) w = w\<lparr>cw_log := cw_log w @ [c]\<rparr>"

inductive watch_run :: "host \<Rightarrow> watch_definition \<Rightarrow> (watch_label \<Rightarrow> bool) \<Rightarrow> nat \<Rightarrow> collection_watch \<Rightarrow> bool" for h watch allowed where
  initial: "watch_run h watch allowed (length history) (startMongoWatch history)"
| step: "watch_run h watch allowed p w \<Longrightarrow> allowed l \<Longrightarrow> watch_enabled l w \<Longrightarrow> watch_run h watch allowed p (watch_step h watch l w)"


section \<open>The watch releases its stream\<close>

fun watch_stream :: "watch_pc \<Rightarrow> nat option" where
  "watch_stream (WatchReading i) = Some i"
| "watch_stream (WatchEmitting i _) = Some i"
| "watch_stream (WatchDelay i) = Some i"
| "watch_stream (WatchClosing _ _) = None"
| "watch_stream WatchDone = None"

definition stream_ok :: "collection_watch \<Rightarrow> bool" where
  "stream_ok w \<longleftrightarrow>
     (case watch_stream (cw_pc w) of
        None \<Rightarrow> cw_open w = []
      | Some i \<Rightarrow> cw_activeStream w = Some i \<and> cw_open w = (if cw_closed w then [] else [i]))"

lemma stream_ok_loop: "cw_open w = [] \<Longrightarrow> stream_ok (watch_loop w)"
  by (simp add: stream_ok_def watch_loop_def)

lemma stream_ok_finally: "stream_ok w \<Longrightarrow> watch_stream (cw_pc w) = Some i \<Longrightarrow> stream_ok (watch_finally i again w)"
  by (auto simp: stream_ok_def watch_finally_def)

lemma stream_ok_failed: "stream_ok w \<Longrightarrow> watch_stream (cw_pc w) = Some i \<Longrightarrow> stream_ok (watch_failed i w)"
  using stream_ok_finally [of w i False] by (auto simp: watch_failed_def) (simp add: stream_ok_def)

lemma stream_ok_step: "stream_ok w \<Longrightarrow> stream_ok (watch_step h watch l w)"
proof (induction l)
  case NextChange
  then show ?case using stream_ok_finally [of w] by (auto split: watch_pc.splits) (simp_all add: stream_ok_def)
next
  case Emitted
  then show ?case using stream_ok_failed [of w] by (auto split: watch_pc.splits sum.splits) (simp_all add: stream_ok_def)
next
  case WatchStreamClosed
  have "stream_ok (watch_closed i again w)" if "cw_pc w = WatchClosing i again" for i again
    using that WatchStreamClosed stream_ok_loop [of w] stream_ok_loop [of "w\<lparr>cw_activeStream := None\<rparr>"]
    by (cases again) (auto simp: watch_closed_def stream_ok_def [of w], simp_all add: stream_ok_def)
  then show ?case using WatchStreamClosed by (simp split: watch_pc.splits)
next
  case CloseWatch
  then show ?case by (auto simp: stream_ok_def close_watch_def split: option.splits)
qed (auto simp: stream_ok_finally stream_ok_failed split: watch_pc.splits, simp_all add: stream_ok_def split: option.splits)

theorem closed_watch_holds_no_stream:
  assumes "watch_run h watch allowed p w" and "cw_closed w"
  shows "cw_open w = []"
proof -
  have "stream_ok w" using assms(1)
    by (induction rule: watch_run.induct) (simp_all add: startMongoWatch_def stream_ok_loop stream_ok_step)
  then show ?thesis using assms(2) by (simp add: stream_ok_def split: option.splits)
qed

section \<open>The watch follows the history\<close>

definition emissions :: "host \<Rightarrow> watch_definition \<Rightarrow> watch_change \<Rightarrow> (jsval \<times> watch_payload) list" where
  "emissions h watch c = (case emitChange h watch c of Inl _ \<Rightarrow> [] | Inr out \<Rightarrow> out)"

text \<open>The changes that are done with: all that were read but the one whose channels are being resolved.\<close>

definition handled :: "collection_watch \<Rightarrow> nat" where
  "handled w = (case cw_pc w of WatchEmitting _ _ \<Rightarrow> cw_position w - 1 | _ \<Rightarrow> cw_position w)"

definition follows :: "host \<Rightarrow> watch_definition \<Rightarrow> nat \<Rightarrow> collection_watch \<Rightarrow> bool" where
  "follows h watch p w \<longleftrightarrow>
     p \<le> handled w \<and> cw_position w \<le> length (cw_log w) \<and>
     (case cw_pc w of
        WatchEmitting _ c \<Rightarrow> 0 < cw_position w \<and> c = cw_log w ! (cw_position w - 1)
      | WatchDelay _ \<Rightarrow> False
      | WatchClosing _ again \<Rightarrow> \<not> again
      | _ \<Rightarrow> True) \<and>
     cw_emitted w = concat (map (emissions h watch) (drop p (take (handled w) (cw_log w))))"

lemma follows_finally: "follows h watch p w \<Longrightarrow> cw_pc w = WatchReading i \<Longrightarrow> follows h watch p (watch_finally i False w)"
  by (simp add: follows_def watch_finally_def handled_def)

lemma follows_emitted:
  assumes "follows h watch p w" and "cw_pc w = WatchEmitting i c" and "emitChange h watch c = Inr out"
  shows "follows h watch p (w\<lparr>cw_emitted := cw_emitted w @ out, cw_pc := WatchReading i\<rparr>)"
proof -
  obtain q where q: "cw_position w = Suc q" using assms(1,2) by (auto simp: follows_def dest: gr0_implies_Suc)
  then have "q < length (cw_log w)" "c = cw_log w ! q" "p \<le> q" using assms(1,2) by (auto simp: follows_def handled_def)
  then have "drop p (take (Suc q) (cw_log w)) = drop p (take q (cw_log w)) @ [c]" by (simp add: take_Suc_conv_app_nth)
  then show ?thesis using assms q by (simp add: follows_def handled_def emissions_def)
qed

lemma follows_step:
  assumes "follows h watch p w" and "l \<noteq> StreamFails" and "\<And>c. \<exists>out. emitChange h watch c = Inr out" and "watch_enabled l w"
  shows "follows h watch p (watch_step h watch l w)"
proof (cases l)
  case NextChange
  then show ?thesis using assms(1,4) follows_finally [OF assms(1)]
    by (auto split: watch_pc.splits) (simp add: follows_def handled_def)
next
  case Emitted
  then show ?thesis using assms(3,4) follows_emitted [OF assms(1)] by (auto split: watch_pc.splits sum.splits) (metis Inl_Inr_False)
next
  case StreamEnds
  then show ?thesis using assms(1) follows_finally [OF assms(1)] by (auto split: watch_pc.splits)
next
  case DelayEnds
  then show ?thesis using assms(1,4) by (auto simp: follows_def split: watch_pc.splits)
next
  case WatchStreamClosed
  then show ?thesis using assms(1,4) by (auto simp: follows_def watch_closed_def Let_def handled_def split: watch_pc.splits)
next
  case CloseWatch
  then show ?thesis using assms(1) by (cases "cw_pc w") (simp_all add: follows_def close_watch_def handled_def)
next
  case (CommitChange c)
  have "handled w \<le> length (cw_log w)" using assms(1) by (auto simp: follows_def handled_def split: watch_pc.splits)
  then show ?thesis using CommitChange assms(1)
    by (auto simp: follows_def handled_def nth_append split: watch_pc.splits)
qed (use assms(2) in simp)

theorem watch_follows_history:
  assumes "watch_run h watch (\<lambda>l. l \<noteq> StreamFails) p w" and "\<And>c. \<exists>out. emitChange h watch c = Inr out"
  shows "p \<le> handled w \<and> cw_emitted w = concat (map (emissions h watch) (drop p (take (handled w) (cw_log w))))"
proof -
  have "follows h watch p w" using assms(1)
  proof (induction rule: watch_run.induct)
    case (initial history)
    then show ?case by (simp add: follows_def startMongoWatch_def watch_loop_def handled_def)
  next
    case (step p w l)
    then show ?case using follows_step [OF _ _ assms(2)] by blast
  qed
  then show ?thesis by (simp add: follows_def)
qed


text \<open>
  An update is emitted exactly when it touches a field outside the excluded ones, \<open>updatedAt\<close> being
  always excluded; without \<open>getChannel\<close> it goes to the default channel, once.
\<close>

theorem update_emitted_unless_excluded:
  assumes "wc_operationType change = ''update''" and "extractObjectId change = Some i" and "truthy (wc_fullDocument change)"
    and "wd_getChannel watch = None"
  shows "emissions h watch change =
    (if changedFieldNames change \<noteq> [] \<and>
        (\<forall>field \<in> set (changedFieldNames change). field_root field = ''updatedAt'' \<or> (\<exists>ks. wd_excludeFields watch = Some ks \<and> field_root field \<in> set ks))
     then []
     else [(JStr [], \<lparr>wp_eventId = json_norm h (wc_token change), wp_id = i, wp_doc = wc_fullDocument change, wp_deleted = False\<rparr>)])"
proof -
  have "or_null (wc_fullDocument change) = wc_fullDocument change" "wc_fullDocument change \<noteq> JNull" using assms(3) by (auto simp: or_null_def)
  then show ?thesis using assms
    by (auto simp: emissions_def emitChange_def shouldSkipMongoWatchChange_def toMongoWatchPayload_def readFullDocument_def resolveChannels_def Let_def
        list_all_iff split: option.splits)
qed

text \<open>
  A watch that reconnects does not resume: what is committed between the failure of a stream and the
  opening of the next one is never emitted.
\<close>

definition sample_watch :: watch_definition where
  "sample_watch = \<lparr>wd_event = ''e'', wd_excludeFields = None, wd_getChannel = None\<rparr>"

definition sample_insert :: watch_change where
  "sample_insert = \<lparr>wc_operationType = ''insert'', wc_token = JNull, wc_documentKey = Some (JObj [(''_id'', JObjectId ''aa'')]),
     wc_fullDocument = JObj [(''_id'', JObjectId ''aa'')], wc_fullDocumentBeforeChange = None, wc_updatedFields = None, wc_removedFields = None\<rparr>"

lemma reconnected_watch_misses_change:
  "\<exists>w. watch_run plain_host sample_watch (\<lambda>_. True) 0 w \<and> (\<exists>i. cw_pc w = WatchReading i) \<and> cw_log w = [sample_insert] \<and> cw_position w = 1 \<and>
     cw_emitted w = [] \<and> emissions plain_host sample_watch sample_insert \<noteq> []"
proof -
  let ?step = "watch_step plain_host sample_watch"
  let ?w = "?step WatchStreamClosed (?step DelayEnds (?step (CommitChange sample_insert) (?step StreamFails (startMongoWatch []))))"
  have r: "watch_run plain_host sample_watch (\<lambda>_. True) 0 (startMongoWatch [])" using watch_run.initial [of _ _ _ "[]"] by simp
  have "watch_run plain_host sample_watch (\<lambda>_. True) 0 ?w"
    by (intro watch_run.step r) (code_simp | simp)+
  moreover have "cw_pc ?w = WatchReading 1" "cw_log ?w = [sample_insert]" "cw_position ?w = 1" "cw_emitted ?w = []"
    "emissions plain_host sample_watch sample_insert \<noteq> []" by code_simp+
  ultimately show ?thesis by blast
qed

end
