(* ===== verification/Throttle.thy ===== *)
theory Throttle
  imports Prelude
begin

text \<open>
  \<open>throttle\<close> of \<open>src/utils/lodash.ts\<close>: a function that is called often and runs its argument at most
  once in \<open>wait\<close> milliseconds.

  Times are whole milliseconds of \<open>Date.now()\<close>. The state is the closure of the throttled function;
  \<open>th_timer\<close> is the time its timer is due, and \<open>th_runs\<close> records when \<open>fn\<close> ran and on what. A timer
  fires at its due time or later.
\<close>

record throttle_options =
  to_wait :: int
  to_leading :: bool
  to_trailing :: bool

record 'a throttled =
  th_timer :: "int option"
  th_lastArgs :: "'a option"
  th_lastCallTime :: int
  th_runs :: "(int \<times> 'a) list"

definition throttle :: "'a throttled" where
  "throttle = \<lparr>th_timer = None, th_lastArgs = None, th_lastCallTime = 0, th_runs = []\<rparr>"

definition invoke :: "int \<Rightarrow> 'a \<Rightarrow> 'a throttled \<Rightarrow> 'a throttled" where
  "invoke now args t = t\<lparr>th_lastCallTime := now, th_runs := th_runs t @ [(now, args)]\<rparr>"

definition throttled_call :: "throttle_options \<Rightarrow> int \<Rightarrow> 'a \<Rightarrow> 'a throttled \<Rightarrow> 'a throttled" where
  "throttled_call opts now args t =
     (let remaining = to_wait opts - (now - th_lastCallTime t) in
      if remaining \<le> 0 \<or> remaining > to_wait opts
      then
        (let t = t\<lparr>th_timer := None\<rparr> in
         if to_leading opts then invoke now args t
         else
           (let t = t\<lparr>th_lastArgs := Some args\<rparr> in
            if to_trailing opts then t\<lparr>th_timer := Some (now + to_wait opts)\<rparr> else t))
      else
        (let t = t\<lparr>th_lastArgs := Some args\<rparr> in
         if th_timer t = None \<and> to_trailing opts then t\<lparr>th_timer := Some (now + remaining)\<rparr> else t))"

definition timer_fires :: "int \<Rightarrow> 'a throttled \<Rightarrow> 'a throttled" where
  "timer_fires now t =
     (let t = t\<lparr>th_timer := None\<rparr> in
      case th_lastArgs t of
        None \<Rightarrow> t
      | Some args \<Rightarrow> (invoke now args t)\<lparr>th_lastArgs := None\<rparr>)"

definition cancel :: "'a throttled \<Rightarrow> 'a throttled" where
  "cancel t = t\<lparr>th_timer := None, th_lastArgs := None, th_lastCallTime := 0\<rparr>"

section \<open>Runs are spaced\<close>

datatype 'a throttle_label = Call int 'a | Fire int

fun throttle_step :: "throttle_options \<Rightarrow> 'a throttle_label \<Rightarrow> 'a throttled \<Rightarrow> 'a throttled" where
  "throttle_step opts (Call now args) t = throttled_call opts now args t"
| "throttle_step opts (Fire now) t = timer_fires now t"

text \<open>The states at a time on a clock that does not go back, without \<open>cancel\<close>.\<close>

inductive throttle_run :: "throttle_options \<Rightarrow> int \<Rightarrow> 'a throttled \<Rightarrow> bool" for opts where
  new: "0 \<le> now \<Longrightarrow> throttle_run opts now throttle"
| call: "throttle_run opts before t \<Longrightarrow> before \<le> now \<Longrightarrow> throttle_run opts now (throttled_call opts now args t)"
| fire: "throttle_run opts before t \<Longrightarrow> before \<le> now \<Longrightarrow> th_timer t = Some due \<Longrightarrow> due \<le> now \<Longrightarrow> throttle_run opts now (timer_fires now t)"

fun spaced :: "int \<Rightarrow> int list \<Rightarrow> bool" where
  "spaced w (a # b # ts) = (a + w \<le> b \<and> spaced w (b # ts))"
| "spaced w _ = True"

lemma spaced_snoc: "spaced w (ts @ [a]) \<longleftrightarrow> spaced w ts \<and> (ts \<noteq> [] \<longrightarrow> last ts + w \<le> a)"
  by (induction w ts rule: spaced.induct) auto

definition throttle_ok :: "throttle_options \<Rightarrow> int \<Rightarrow> 'a throttled \<Rightarrow> bool" where
  "throttle_ok opts now t \<longleftrightarrow>
     spaced (to_wait opts) (map fst (th_runs t)) \<and>
     (th_runs t \<noteq> [] \<longrightarrow> th_lastCallTime t = fst (last (th_runs t))) \<and>
     th_lastCallTime t \<le> now \<and>
     (\<forall>due. th_timer t = Some due \<longrightarrow> th_lastCallTime t + to_wait opts \<le> due)"

lemma invoke_ok:
  assumes "throttle_ok opts before t" and "before \<le> now" and "th_lastCallTime t + to_wait opts \<le> now" and "th_timer t' = None"
    and "th_runs t' = th_runs t"
  shows "throttle_ok opts now (invoke now args t')"
  using assms by (auto simp: throttle_ok_def invoke_def spaced_snoc last_map)

lemma call_ok: "throttle_ok opts before t \<Longrightarrow> before \<le> now \<Longrightarrow> throttle_ok opts now (throttled_call opts now args t)"
  using invoke_ok [of opts before t now "t\<lparr>th_timer := None\<rparr>" args]
  by (auto simp: throttled_call_def Let_def) (auto simp: throttle_ok_def)

lemma fire_ok:
  assumes "throttle_ok opts before t" and "before \<le> now" and "th_timer t = Some due" and "due \<le> now"
  shows "throttle_ok opts now (timer_fires now t)"
proof -
  have last: "th_lastCallTime t + to_wait opts \<le> now" using assms by (auto simp: throttle_ok_def)
  show ?thesis using invoke_ok [OF assms(1,2) last, of "t\<lparr>th_timer := None\<rparr>"] assms(1,2)
    by (auto simp: timer_fires_def Let_def throttle_ok_def split: option.splits)
qed

lemma run_throttle_ok: "throttle_run opts now t \<Longrightarrow> throttle_ok opts now t"
proof (induction rule: throttle_run.induct)
  case (new now)
  then show ?case by (simp add: throttle_ok_def throttle_def)
qed (auto intro: call_ok fire_ok)


definition sample_throttle :: throttle_options where
  "sample_throttle = \<lparr>to_wait = 500, to_leading = True, to_trailing = True\<rparr>"


section \<open>The last call is not forgotten\<close>

text \<open>
  With \<open>trailing\<close> set, a call has run the function on its arguments at once, or the timer is armed and
  runs it on them when it fires, unless a later call comes first.
\<close>

theorem latest_call_runs:
  assumes "to_trailing opts" and "t' = throttled_call opts now args t"
  shows "case th_timer t' of
      None \<Rightarrow> th_runs t' = th_runs t @ [(now, args)]
    | Some due \<Rightarrow> th_runs t' = th_runs t \<and> th_runs (timer_fires later t') = th_runs t @ [(later, args)]"
  using assms by (auto simp: throttled_call_def timer_fires_def invoke_def Let_def)

text \<open>
  Without \<open>leading\<close> a steady stream of calls starves the function: as long as it has not run, every call
  restarts the timer, so calls less than \<open>wait\<close> apart postpone it for ever.
\<close>

lemma steady_calls_starve:
  assumes "\<not> to_leading opts" and "to_trailing opts" and "to_wait opts \<le> start" and "0 \<le> d"
  shows "let t = foldl (\<lambda>t i. throttled_call opts (start + int i * d) args t) throttle [0..<Suc n] in
    th_runs t = [] \<and> th_lastCallTime t = 0 \<and> th_timer t = Some (start + int n * d + to_wait opts)"
proof (induction n)
  case 0
  then show ?case using assms by (simp add: throttled_call_def throttle_def Let_def)
next
  case (Suc n)
  have "0 \<le> int (Suc n) * d" using assms(4) by simp
  then have "to_wait opts \<le> start + int (Suc n) * d" using assms(3) by linarith
  then show ?case using Suc assms(1,2) by (simp add: throttled_call_def Let_def)
qed

end
