(* ===== verification/Emitter.thy ===== *)
theory Emitter
  imports Throttle
begin

text \<open>
  The event emitter of the runtime (\<open>src/utils/event-emitter.ts\<close>), its iterators
  (\<open>src/utils/iterator.ts\<close>) and the helpers of \<open>src/utils/events.ts\<close>.

  A listener is known by its identity \<open>'l\<close>; the wrapper that \<open>once\<close> makes has a number of its own
  besides the listener it wraps. Listeners may use the emitter while they run: \<open>body l\<close> lists the
  operations listener \<open>l\<close> performs, nested emissions included. The calls still to be made form a
  stack, and one step makes one call or performs one operation. \<open>em_called\<close> records the listeners
  that were called. Event names are not the names of members of \<open>Object.prototype\<close>.
\<close>

datatype 'l listener_entry = Plain 'l | OnceWrapped nat 'l

record 'l emitter =
  em_events :: "(string, 'l listener_entry list) jsmap"
  em_anyListeners :: "'l list"
  em_maxListeners :: "nat option"
  em_wrappers :: nat
  em_warnings :: "string list"

definition new_emitter :: "nat option \<Rightarrow> 'l emitter" where
  "new_emitter maxListeners = \<lparr>em_events = [], em_anyListeners = [], em_maxListeners = maxListeners, em_wrappers = 0, em_warnings = []\<rparr>"

definition listeners :: "string \<Rightarrow> 'l emitter \<Rightarrow> 'l listener_entry list" where
  "listeners event em = (case jm_get (em_events em) event of None \<Rightarrow> [] | Some ls \<Rightarrow> ls)"

definition setListeners :: "string \<Rightarrow> 'l listener_entry list \<Rightarrow> 'l emitter \<Rightarrow> 'l emitter" where
  "setListeners event ls em =
     (if ls = [] then em\<lparr>em_events := jm_delete event (em_events em)\<rparr> else em\<lparr>em_events := jm_set event ls (em_events em)\<rparr>)"

definition listenerCount :: "string \<Rightarrow> 'l emitter \<Rightarrow> nat" where
  "listenerCount event em = length (listeners event em)"

definition warnMaxListeners :: "string \<Rightarrow> 'l emitter \<Rightarrow> 'l emitter" where
  "warnMaxListeners event em =
     (case em_maxListeners em of
        None \<Rightarrow> em
      | Some n \<Rightarrow> if listenerCount event em \<le> n then em else em\<lparr>em_warnings := em_warnings em @ [event]\<rparr>)"

definition add_entry :: "string \<Rightarrow> 'l listener_entry \<Rightarrow> 'l emitter \<Rightarrow> 'l emitter" where
  "add_entry event listener_entry em = warnMaxListeners event (setListeners event (listeners event em @ [listener_entry]) em)"

definition em_on :: "string \<Rightarrow> 'l \<Rightarrow> 'l emitter \<Rightarrow> 'l emitter" where
  "em_on event l em = add_entry event (Plain l) em"

fun matchesListener :: "'l listener_entry \<Rightarrow> 'l \<Rightarrow> bool" where
  "matchesListener (Plain l) target = (l = target)"
| "matchesListener (OnceWrapped _ l) target = (l = target)"

definition em_off :: "string \<Rightarrow> 'l \<Rightarrow> 'l emitter \<Rightarrow> 'l emitter" where
  "em_off event l em = setListeners event (filter (\<lambda>e. \<not> matchesListener e l) (listeners event em)) em"

text \<open>\<open>off\<close> of a wrapper removes that wrapper alone.\<close>

definition off_wrapper :: "string \<Rightarrow> 'l listener_entry \<Rightarrow> 'l emitter \<Rightarrow> 'l emitter" where
  "off_wrapper event w em = setListeners event (filter (\<lambda>e. e \<noteq> w) (listeners event em)) em"

definition em_once :: "string \<Rightarrow> 'l \<Rightarrow> 'l emitter \<Rightarrow> 'l emitter" where
  "em_once event l em = add_entry event (OnceWrapped (em_wrappers em) l) (em\<lparr>em_wrappers := Suc (em_wrappers em)\<rparr>)"

definition em_onAny :: "'l \<Rightarrow> 'l emitter \<Rightarrow> 'l emitter" where
  "em_onAny l em = em\<lparr>em_anyListeners := js_add l (em_anyListeners em)\<rparr>"

definition em_offAny :: "'l \<Rightarrow> 'l emitter \<Rightarrow> 'l emitter" where
  "em_offAny l em = em\<lparr>em_anyListeners := js_remove l (em_anyListeners em)\<rparr>"

definition em_removeAllListeners :: "string \<Rightarrow> 'l emitter \<Rightarrow> 'l emitter" where
  "em_removeAllListeners event em =
     (if event \<noteq> [] then em\<lparr>em_events := jm_delete event (em_events em)\<rparr> else em\<lparr>em_events := [], em_anyListeners := []\<rparr>)"

definition em_setMaxListeners :: "nat option \<Rightarrow> 'l emitter \<Rightarrow> 'l emitter" where
  "em_setMaxListeners n em = em\<lparr>em_maxListeners := n\<rparr>"

section \<open>Emission\<close>

datatype 'l command =
    DoOn string 'l
  | DoOff string 'l
  | DoOnce string 'l
  | DoOnAny 'l
  | DoOffAny 'l
  | DoRemoveAll string
  | DoEmit string

datatype 'l task = CallEntry string "'l listener_entry" | CallAny 'l | Perform "'l command"

text \<open>What \<open>emit\<close> is going to call: copies of both collections.\<close>

definition emit_calls :: "string \<Rightarrow> 'l emitter \<Rightarrow> 'l task list" where
  "emit_calls event em = map (CallEntry event) (listeners event em) @ map CallAny (em_anyListeners em)"

definition em_emit_result :: "string \<Rightarrow> 'l emitter \<Rightarrow> bool" where
  "em_emit_result event em = (listeners event em \<noteq> [] \<or> em_anyListeners em \<noteq> [])"

fun perform :: "'l command \<Rightarrow> 'l emitter \<Rightarrow> 'l task list \<times> 'l emitter" where
  "perform (DoOn event l) em = ([], em_on event l em)"
| "perform (DoOff event l) em = ([], em_off event l em)"
| "perform (DoOnce event l) em = ([], em_once event l em)"
| "perform (DoOnAny l) em = ([], em_onAny l em)"
| "perform (DoOffAny l) em = ([], em_offAny l em)"
| "perform (DoRemoveAll event) em = ([], em_removeAllListeners event em)"
| "perform (DoEmit event) em = (emit_calls event em, em)"

record 'l emission =
  es_tasks :: "'l task list"
  es_emitter :: "'l emitter"
  es_called :: "'l list"

fun run_task :: "('l \<Rightarrow> 'l command list) \<Rightarrow> 'l task \<Rightarrow> 'l emission \<Rightarrow> 'l emission" where
  "run_task body (CallEntry event (Plain l)) s = s\<lparr>es_tasks := map Perform (body l) @ es_tasks s, es_called := es_called s @ [l]\<rparr>"
| "run_task body (CallEntry event (OnceWrapped k l)) s =
     s\<lparr>es_tasks := map Perform (body l) @ es_tasks s, es_emitter := off_wrapper event (OnceWrapped k l) (es_emitter s),
       es_called := es_called s @ [l]\<rparr>"
| "run_task body (CallAny l) s = s\<lparr>es_tasks := map Perform (body l) @ es_tasks s, es_called := es_called s @ [l]\<rparr>"
| "run_task body (Perform c) s = (let (ts, em) = perform c (es_emitter s) in s\<lparr>es_tasks := ts @ es_tasks s, es_emitter := em\<rparr>)"

text \<open>The run of an emission; \<open>None\<close> when the fuel does not suffice, as for listeners that emit without end.\<close>

fun run_emission :: "nat \<Rightarrow> ('l \<Rightarrow> 'l command list) \<Rightarrow> 'l emission \<Rightarrow> 'l emission option" where
  "run_emission n body s =
     (case es_tasks s of
        [] \<Rightarrow> Some s
      | task # tasks \<Rightarrow>
          (case n of
             0 \<Rightarrow> None
           | Suc m \<Rightarrow> run_emission m body (run_task body task (s\<lparr>es_tasks := tasks\<rparr>))))"

declare run_emission.simps [simp del]

definition em_emit :: "nat \<Rightarrow> ('l \<Rightarrow> 'l command list) \<Rightarrow> string \<Rightarrow> 'l emitter \<Rightarrow> ('l list \<times> 'l emitter) option" where
  "em_emit n body event em =
     map_option (\<lambda>s. (es_called s, es_emitter s)) (run_emission n body \<lparr>es_tasks = emit_calls event em, es_emitter = em, es_called = []\<rparr>)"


section \<open>An emission calls the listeners registered when it began\<close>

fun unwrapped :: "'l listener_entry \<Rightarrow> 'l" where
  "unwrapped (Plain l) = l"
| "unwrapped (OnceWrapped _ l) = l"

fun called_by :: "'l task \<Rightarrow> 'l list" where
  "called_by (CallEntry _ e) = [unwrapped e]"
| "called_by (CallAny l) = [l]"
| "called_by (Perform _) = []"

definition task_cost :: "('l \<Rightarrow> 'l command list) \<Rightarrow> 'l task \<Rightarrow> nat" where
  "task_cost body task = Suc (sum_list (map (\<lambda>l. length (body l)) (called_by task)))"

definition silent_command :: "'l command \<Rightarrow> bool" where
  "silent_command c \<longleftrightarrow> (\<forall>event. c \<noteq> DoEmit event)"

text \<open>Listeners that do not emit themselves.\<close>

definition silent :: "('l \<Rightarrow> 'l command list) \<Rightarrow> bool" where
  "silent body \<longleftrightarrow> (\<forall>l. list_all silent_command (body l))"

definition silent_task :: "'l task \<Rightarrow> bool" where
  "silent_task task \<longleftrightarrow> (\<forall>c. task = Perform c \<longrightarrow> silent_command c)"

lemma silent_perform: "silent_command c \<Longrightarrow> fst (perform c em) = []"
  by (cases c) (simp_all add: silent_command_def)

lemma cost_calls:
  "task_cost body (CallEntry event e) = Suc (length (body (unwrapped e)))"
  "task_cost body (CallAny l) = Suc (length (body l))"
  by (simp_all add: task_cost_def)

lemma run_task_effect:
  assumes "silent body" and "silent_task task" and "s' = run_task body task s"
  shows "es_called s' = es_called s @ called_by task \<and>
    (\<exists>ts. es_tasks s' = ts @ es_tasks s \<and> list_all silent_task ts \<and> concat (map called_by ts) = [] \<and> Suc (sum_list (map (task_cost body) ts)) = task_cost body task)"
proof -
  have calls: "list_all silent_task (map Perform (body l))" "concat (map called_by (map Perform (body l))) = []"
    "sum_list (map (task_cost body) (map Perform (body l))) = length (body l)" for l
    using assms(1) by (auto simp: silent_def list_all_iff silent_task_def task_cost_def comp_def sum_list_triv)
  show ?thesis
  proof (cases task)
    case (CallEntry event e)
    then show ?thesis using assms(3) calls [of "unwrapped e"] by (cases e) (auto simp: cost_calls)
  next
    case (CallAny l)
    then show ?thesis using assms(3) calls [of l] by (auto simp: cost_calls)
  next
    case (Perform c)
    then have "fst (perform c (es_emitter s)) = []" using assms(2) by (intro silent_perform) (simp add: silent_task_def)
    then show ?thesis using Perform assms(3) by (auto simp: task_cost_def split_beta)
  qed
qed

lemma run_silent:
  assumes "silent body"
  shows "list_all silent_task (es_tasks s) \<Longrightarrow> sum_list (map (task_cost body) (es_tasks s)) \<le> n \<Longrightarrow>
    \<exists>s'. run_emission n body s = Some s' \<and> es_called s' = es_called s @ concat (map called_by (es_tasks s))"
proof (induction n arbitrary: s)
  case 0
  then show ?case by (cases "es_tasks s") (auto simp: run_emission.simps [of 0] task_cost_def)
next
  case (Suc n)
  show ?case
  proof (cases "es_tasks s")
    case Nil
    then show ?thesis by (simp add: run_emission.simps [of "Suc n"])
  next
    case (Cons task tasks)
    let ?s = "run_task body task (s\<lparr>es_tasks := tasks\<rparr>)"
    from run_task_effect [OF assms, where task = task and s = "s\<lparr>es_tasks := tasks\<rparr>", OF _ refl] Suc.prems Cons obtain ts where
      e: "es_called ?s = es_called s @ called_by task" "es_tasks ?s = ts @ tasks" "list_all silent_task ts" "concat (map called_by ts) = []"
        "Suc (sum_list (map (task_cost body) ts)) = task_cost body task" by auto
    then have "list_all silent_task (es_tasks ?s)" "sum_list (map (task_cost body) (es_tasks ?s)) \<le> n" using Suc.prems Cons by auto
    from Suc.IH [OF this] show ?thesis using e Cons by (simp add: run_emission.simps [of "Suc n"])
  qed
qed

definition emit_cost :: "('l \<Rightarrow> 'l command list) \<Rightarrow> string \<Rightarrow> 'l emitter \<Rightarrow> nat" where
  "emit_cost body event em = sum_list (map (task_cost body) (emit_calls event em))"

theorem emit_calls_snapshot:
  assumes "silent body" and "emit_cost body event em \<le> n"
  shows "\<exists>em'. em_emit n body event em = Some (map unwrapped (listeners event em) @ em_anyListeners em, em')"
proof -
  let ?s = "\<lparr>es_tasks = emit_calls event em, es_emitter = em, es_called = []\<rparr>"
  have "list_all silent_task (es_tasks ?s)" by (auto simp: emit_calls_def silent_task_def list_all_iff)
  from run_silent [OF assms(1), where s = ?s and n = n] this obtain s' where "run_emission n body ?s = Some s'" "es_called s' = concat (map called_by (emit_calls event em))"
    using assms by (auto simp: emit_cost_def)
  moreover have "concat (map called_by (emit_calls event em)) = map unwrapped (listeners event em) @ em_anyListeners em"
    by (simp add: emit_calls_def comp_def)
  ultimately show ?thesis by (auto simp: em_emit_def)
qed

text \<open>
  A listener registered with \<open>once\<close> can be called twice: when a listener before it emits the same event,
  the inner emission calls and removes it, and the outer one still holds it in its copy.
\<close>

lemma once_listener_called_twice:
  "map_option fst (em_emit 10 (\<lambda>l :: nat. if l = 0 then [DoEmit ''e''] else []) ''e'' (em_once ''e'' 1 (em_once ''e'' 0 (new_emitter None)))) = Some [0, 1, 1]"
  by code_simp

section \<open>Registration\<close>

lemma listeners_set: "listeners event (setListeners event' ls em) = (if event = event' then ls else listeners event em)"
  by (simp add: setListeners_def listeners_def)

lemma listeners_warn [simp]: "listeners event (warnMaxListeners event' em) = listeners event em"
  by (simp add: warnMaxListeners_def listeners_def split: option.splits)

text \<open>\<open>off\<close> undoes \<open>on\<close> and \<open>once\<close> of a listener that was not registered before.\<close>

lemma off_after_registration:
  assumes "\<forall>e \<in> set (listeners event em). unwrapped e \<noteq> l"
  shows "listeners event' (em_off event l (em_on event l em)) = listeners event' em"
    and "listeners event' (em_off event l (em_once event l em)) = listeners event' em"
proof -
  have m: "matchesListener e l = (unwrapped e = l)" for e by (cases e) auto
  have f: "filter (\<lambda>e. unwrapped e \<noteq> l) (listeners event em) = listeners event em" using assms by (simp add: filter_id_conv)
  have w: "listeners k (em\<lparr>em_wrappers := n\<rparr>) = listeners k em" for k n by (simp add: listeners_def)
  show "listeners event' (em_off event l (em_on event l em)) = listeners event' em"
    using f by (simp add: em_off_def em_on_def add_entry_def listeners_set m)
  show "listeners event' (em_off event l (em_once event l em)) = listeners event' em"
    using f by (simp add: em_off_def em_once_def add_entry_def listeners_set m w)
qed

section \<open>Waiting for an event\<close>

text \<open>
  A call of \<open>waitFor\<close> has a listener of its own. \<open>ew_timers\<close> are the armed timers with their delay,
  \<open>ew_results\<close> the settlements: the arguments of the event, or a timeout.
\<close>

record 'l event_waits =
  ew_emitter :: "'l emitter"
  ew_timers :: "('l \<times> string \<times> int) list"
  ew_results :: "('l \<times> bool) list"

definition createTimer :: "int option \<Rightarrow> string \<Rightarrow> 'l \<Rightarrow> 'l event_waits \<Rightarrow> 'l event_waits" where
  "createTimer timeout event l w =
     (case timeout of
        None \<Rightarrow> w
      | Some ms \<Rightarrow> if ms \<le> 0 then w else w\<lparr>ew_timers := ew_timers w @ [(l, event, ms)]\<rparr>)"

definition waitFor :: "string \<Rightarrow> int option \<Rightarrow> 'l \<Rightarrow> 'l event_waits \<Rightarrow> 'l event_waits" where
  "waitFor event timeout l w = (let w = createTimer timeout event l w in w\<lparr>ew_emitter := em_once event l (ew_emitter w)\<rparr>)"

text \<open>The listener is called.\<close>

definition wait_resolved :: "'l \<Rightarrow> 'l event_waits \<Rightarrow> 'l event_waits" where
  "wait_resolved l w = w\<lparr>ew_timers := filter (\<lambda>(l', _). l' \<noteq> l) (ew_timers w), ew_results := ew_results w @ [(l, True)]\<rparr>"

definition wait_timed_out :: "'l \<Rightarrow> 'l event_waits \<Rightarrow> 'l event_waits" where
  "wait_timed_out l w =
     (case map_of (ew_timers w) l of
        None \<Rightarrow> w
      | Some (event, _) \<Rightarrow>
          w\<lparr>ew_timers := filter (\<lambda>(l', _). l' \<noteq> l) (ew_timers w), ew_emitter := em_off event l (ew_emitter w), ew_results := ew_results w @ [(l, False)]\<rparr>)"

definition waitForAll :: "(string \<times> 'l) list \<Rightarrow> int \<Rightarrow> 'l event_waits \<Rightarrow> 'l event_waits" where
  "waitForAll events timeout w = foldl (\<lambda>w (event, l). waitFor event (Some timeout) l w) w events"

definition onceAll :: "(string \<times> 'l) list \<Rightarrow> 'l emitter \<Rightarrow> 'l emitter" where
  "onceAll events em = foldl (\<lambda>em (event, l). em_once event l em) em events"

text \<open>A wait that timed out leaves nothing behind: neither its listener nor its timer.\<close>

lemma timed_out_wait_is_gone:
  assumes "0 < ms" and "\<forall>e \<in> set (listeners event (ew_emitter w)). unwrapped e \<noteq> l" and "map_of (ew_timers w) l = None"
  shows "let w' = wait_timed_out l (waitFor event (Some ms) l w) in
    listeners event (ew_emitter w') = listeners event (ew_emitter w) \<and> ew_timers w' = ew_timers w \<and> ew_results w' = ew_results w @ [(l, False)]"
proof -
  have "filter (\<lambda>(l', _). l' \<noteq> l) (ew_timers w) = ew_timers w" using assms(3) by (force simp: map_of_eq_None_iff filter_id_conv)
  then show ?thesis using assms off_after_registration(2) [OF assms(2)]
    by (simp add: wait_timed_out_def waitFor_def createTimer_def map_add_def)
qed

section \<open>Iterators\<close>

text \<open>An iterator over the events of an emitter; a call of \<open>next\<close> has a listener of its own.\<close>

record 'l event_iterator =
  ei_emitter :: "'l emitter"
  ei_done :: bool
  ei_finished :: "'l list"

definition iterator_next :: "string \<Rightarrow> 'l \<Rightarrow> 'l event_iterator \<Rightarrow> 'l event_iterator" where
  "iterator_next event l i =
     (if ei_done i then i\<lparr>ei_finished := ei_finished i @ [l]\<rparr> else i\<lparr>ei_emitter := em_once event l (ei_emitter i)\<rparr>)"

definition iterator_return :: "'l event_iterator \<Rightarrow> 'l event_iterator" where
  "iterator_return i = i\<lparr>ei_done := True\<rparr>"

lemma returned_iterator_ends: "listeners event' (ei_emitter (iterator_next event l (iterator_return i))) = listeners event' (ei_emitter i) \<and>
    l \<in> set (ei_finished (iterator_next event l (iterator_return i)))"
  by (simp add: iterator_next_def iterator_return_def)

section \<open>Throttled events\<close>

text \<open>One throttled function listens to several events.\<close>

definition onAllThrottled :: "string list \<Rightarrow> 'l \<Rightarrow> 'l emitter \<Rightarrow> 'l emitter" where
  "onAllThrottled events l em = foldl (\<lambda>em event. em_on event l em) em events"

definition offAllThrottled :: "string list \<Rightarrow> 'l \<Rightarrow> 'l emitter \<Rightarrow> 'l emitter" where
  "offAllThrottled events l em = foldl (\<lambda>em event. em_off event l em) em events"

lemma listeners_off: "listeners event (em_off event' l em) = (if event = event' then filter (\<lambda>e. \<not> matchesListener e l) (listeners event em) else listeners event em)"
  by (simp add: em_off_def listeners_set)

lemma cleanup_removes_throttled:
  "e \<in> set (listeners event (offAllThrottled events l em)) \<Longrightarrow> event \<in> set events \<Longrightarrow> unwrapped e \<noteq> l"
proof (induction events arbitrary: em rule: rev_induct)
  case (snoc ev events)
  have "matchesListener e l = (unwrapped e = l)" by (cases e) auto
  then show ?case using snoc by (auto simp: offAllThrottled_def listeners_off split: if_splits)
qed simp

end
