(* ===== verification/Cli.thy ===== *)
theory Cli
  imports Prelude
begin

text \<open>
  The command line of the application tool (\<open>src/application/cli-arguments.ts\<close>): the words of a
  command and the command they stand for. Every error the parser throws is a value of \<open>cli_error\<close>; the
  usage text that ends each message is left out.
\<close>

datatype test_project = Unit | Integration | Browser

datatype native_action = ActAdd | ActSync | ActOpen | ActDevices | ActDoctor | ActRun | ActLogs | ActScreenshot

datatype native_command =
    NativeAdd
  | NativeSync
  | NativeOpen
  | NativeDevices bool
  | NativeDoctor bool "string option"
  | NativeRun bool "string option"
  | NativeLogs "string option"
  | NativeScreenshot "string option" "string option"

datatype cli_arguments =
    Build bool
  | Native native_command
  | Develop "string list"
  | Test "test_project option" "string list" bool

datatype cli_error =
    UnexpectedBuildArguments
  | ServerArgumentsMustFollow
  | UnknownCommand "string option"
  | UnknownTestProject string
  | OnlyOneTestProject
  | Usage
  | DuplicateNativeOption
  | ExpectedValue string
  | UnknownNativeOption string

section \<open>Words\<close>

definition js_space :: "char \<Rightarrow> bool" where
  "js_space c = (c \<in> {CHR 0x09, CHR 0x0A, CHR 0x0B, CHR 0x0C, CHR 0x0D, CHR '' '', CHR 0xA0})"

definition js_trim :: "string \<Rightarrow> string" where
  "js_trim s = rev (dropWhile js_space (rev (dropWhile js_space s)))"

definition dashed :: "string \<Rightarrow> bool" where
  "dashed s = (take 2 s = ''--'')"

fun project_word :: "test_project \<Rightarrow> string" where
  "project_word Unit = ''unit''"
| "project_word Integration = ''integration''"
| "project_word Browser = ''browser''"

definition read_project :: "string \<Rightarrow> test_project option" where
  "read_project s =
     (if s = ''unit'' then Some Unit else if s = ''integration'' then Some Integration else if s = ''browser'' then Some Browser else None)"

section \<open>Test commands\<close>

fun test_words :: "string list \<Rightarrow> test_project option \<times> bool \<Rightarrow> cli_error + (test_project option \<times> bool)" where
  "test_words [] st = Inr st"
| "test_words (argument # rest) (project, watch) =
     (if argument = ''--watch'' then test_words rest (project, True)
      else
        (case read_project argument of
           None \<Rightarrow> Inl (UnknownTestProject argument)
         | Some p \<Rightarrow> if project \<noteq> None then Inl OnlyOneTestProject else test_words rest (Some p, watch)))"

definition parseTestArguments :: "string list \<Rightarrow> cli_error + cli_arguments" where
  "parseTestArguments arguments =
     (let typeFerryArguments = takeWhile (\<lambda>a. a \<noteq> ''--'') arguments;
          testArguments = drop 1 (dropWhile (\<lambda>a. a \<noteq> ''--'') arguments) in
      rbind (test_words typeFerryArguments (None, False)) (\<lambda>(project, watch). Inr (Test project testArguments watch)))"

section \<open>Native commands\<close>

record native_options =
  no_json :: bool
  no_headless :: bool
  no_device :: "string option"
  no_output :: "string option"

definition read_action :: "string \<Rightarrow> native_action option" where
  "read_action s =
     (if s = ''add'' then Some ActAdd else if s = ''sync'' then Some ActSync else if s = ''open'' then Some ActOpen
      else if s = ''devices'' then Some ActDevices else if s = ''doctor'' then Some ActDoctor else if s = ''run'' then Some ActRun
      else if s = ''logs'' then Some ActLogs else if s = ''screenshot'' then Some ActScreenshot else None)"

definition option_value :: "string \<Rightarrow> string list \<Rightarrow> cli_error + string" where
  "option_value option rest =
     (case rest of
        [] \<Rightarrow> Inl (ExpectedValue option)
      | word # _ \<Rightarrow>
          (let value = js_trim word in
           if value = [] \<or> dashed value \<or> CHR 0x00 \<in> set value then Inl (ExpectedValue option) else Inr value))"

function native_words :: "native_action \<Rightarrow> string list \<Rightarrow> string list \<Rightarrow> native_options \<Rightarrow> cli_error + native_options" where
  "native_words action seen [] st = Inr st"
| "native_words action seen (option # rest) st =
     (if option \<in> set seen then Inl DuplicateNativeOption
      else if option = ''--headless'' \<and> action = ActRun then native_words action (option # seen) rest (st\<lparr>no_headless := True\<rparr>)
      else if option = ''--json'' \<and> action \<in> {ActDevices, ActDoctor} then native_words action (option # seen) rest (st\<lparr>no_json := True\<rparr>)
      else if (option = ''--device'' \<and> action \<noteq> ActDevices) \<or> (option = ''--output'' \<and> action = ActScreenshot)
      then
        (case option_value option rest of
           Inl err \<Rightarrow> Inl err
         | Inr value \<Rightarrow>
             native_words action (option # seen) (drop 1 rest)
               (if option = ''--device'' then st\<lparr>no_device := Some value\<rparr> else st\<lparr>no_output := Some value\<rparr>))
      else Inl (UnknownNativeOption option))"
  by pat_completeness auto
termination by (relation "measure (\<lambda>(_, _, ws, _). length ws)") auto

definition parseNativeArguments :: "string list \<Rightarrow> cli_error + native_command" where
  "parseNativeArguments arguments =
     (case arguments of
        action # target # options \<Rightarrow>
          if target \<noteq> ''ios'' then Inl Usage
          else
            (case read_action action of
               None \<Rightarrow> Inl Usage
             | Some act \<Rightarrow>
                 if act \<in> {ActAdd, ActSync, ActOpen}
                 then if options \<noteq> [] then Inl Usage
                      else Inr (case act of ActAdd \<Rightarrow> NativeAdd | ActSync \<Rightarrow> NativeSync | _ \<Rightarrow> NativeOpen)
                 else
                   rbind (native_words act [] options \<lparr>no_json = False, no_headless = False, no_device = None, no_output = None\<rparr>)
                     (\<lambda>st. Inr (case act of
                        ActRun \<Rightarrow> NativeRun (no_headless st) (no_device st)
                      | ActDevices \<Rightarrow> NativeDevices (no_json st)
                      | ActDoctor \<Rightarrow> NativeDoctor (no_json st) (no_device st)
                      | ActScreenshot \<Rightarrow> NativeScreenshot (no_device st) (no_output st)
                      | _ \<Rightarrow> NativeLogs (no_device st))))
      | _ \<Rightarrow> Inl Usage)"

section \<open>All commands\<close>

definition parseCliArguments :: "string list \<Rightarrow> cli_error + cli_arguments" where
  "parseCliArguments arguments =
     (case arguments of
        [] \<Rightarrow> Inl (UnknownCommand None)
      | command # rest \<Rightarrow>
          if command = ''native'' then map_sum id Native (parseNativeArguments rest)
          else if command = ''build''
          then if rest = [''--target'', ''ios''] then Inr (Build True) else if rest \<noteq> [] then Inl UnexpectedBuildArguments else Inr (Build False)
          else if command = ''develop''
          then
            (case rest of
               [] \<Rightarrow> Inr (Develop [])
             | word # args \<Rightarrow> if word \<noteq> ''--'' then Inl ServerArgumentsMustFollow else Inr (Develop args))
          else if command = ''test'' then parseTestArguments rest
          else Inl (UnknownCommand (Some command)))"

section \<open>Every command can be written and is read back\<close>

definition option_words :: "string \<Rightarrow> string option \<Rightarrow> string list" where
  "option_words name v = (case v of None \<Rightarrow> [] | Some s \<Rightarrow> [name, s])"

definition flag_words :: "string \<Rightarrow> bool \<Rightarrow> string list" where
  "flag_words name b = (if b then [name] else [])"

fun native_line :: "native_command \<Rightarrow> string list" where
  "native_line NativeAdd = [''add'', ''ios'']"
| "native_line NativeSync = [''sync'', ''ios'']"
| "native_line NativeOpen = [''open'', ''ios'']"
| "native_line (NativeDevices json) = [''devices'', ''ios''] @ flag_words ''--json'' json"
| "native_line (NativeDoctor json device) = [''doctor'', ''ios''] @ flag_words ''--json'' json @ option_words ''--device'' device"
| "native_line (NativeRun headless device) = [''run'', ''ios''] @ flag_words ''--headless'' headless @ option_words ''--device'' device"
| "native_line (NativeLogs device) = [''logs'', ''ios''] @ option_words ''--device'' device"
| "native_line (NativeScreenshot device output) = [''screenshot'', ''ios''] @ option_words ''--device'' device @ option_words ''--output'' output"

fun command_line :: "cli_arguments \<Rightarrow> string list" where
  "command_line (Build ios) = ''build'' # (if ios then [''--target'', ''ios''] else [])"
| "command_line (Native c) = ''native'' # native_line c"
| "command_line (Develop args) = ''develop'' # ''--'' # args"
| "command_line (Test project args watch) =
     ''test'' # (case project of None \<Rightarrow> [] | Some p \<Rightarrow> [project_word p]) @ flag_words ''--watch'' watch @ ''--'' # args"

text \<open>The values an option can have: trimmed, not empty, not an option and without a null byte.\<close>

definition option_text :: "string option \<Rightarrow> bool" where
  "option_text v = (case v of None \<Rightarrow> True | Some s \<Rightarrow> js_trim s = s \<and> s \<noteq> [] \<and> \<not> dashed s \<and> CHR 0x00 \<notin> set s)"

fun cli_wf :: "cli_arguments \<Rightarrow> bool" where
  "cli_wf (Native (NativeDoctor _ device)) = option_text device"
| "cli_wf (Native (NativeRun _ device)) = option_text device"
| "cli_wf (Native (NativeLogs device)) = option_text device"
| "cli_wf (Native (NativeScreenshot device output)) = (option_text device \<and> option_text output)"
| "cli_wf _ = True"

lemma option_value_text: "option_text (Some s) \<Longrightarrow> option_value name (s # rest) = Inr s"
  by (simp add: option_text_def option_value_def)

lemma native_read_back: "cli_wf (Native c) \<Longrightarrow> parseNativeArguments (native_line c) = Inr c"
  by (cases c)
    (auto simp: parseNativeArguments_def read_action_def flag_words_def option_words_def option_value_text split: option.splits)

lemma test_read_back: "parseTestArguments ((case project of None \<Rightarrow> [] | Some p \<Rightarrow> [project_word p]) @ flag_words ''--watch'' watch @ ''--'' # args) =
    Inr (Test project args watch)"
proof -
  have "project_word p \<noteq> ''--''" "project_word p \<noteq> ''--watch''" "read_project (project_word p) = Some p" for p
    by (cases p; simp add: read_project_def)+
  then show ?thesis by (auto simp: parseTestArguments_def flag_words_def split: option.splits)
qed

theorem command_read_back:
  assumes "cli_wf c"
  shows "parseCliArguments (command_line c) = Inr c"
  using assms native_read_back test_read_back by (cases c) (simp_all add: parseCliArguments_def)


section \<open>What the parser accepts is well formed\<close>

lemma dropWhile_fixed: "s = [] \<or> \<not> P (hd s) \<Longrightarrow> dropWhile P s = s"
  by (cases s) auto

lemma hd_dropWhile_end: "dropWhile P (rev s) \<noteq> [] \<Longrightarrow> hd (rev (dropWhile P (rev s))) = hd s"
  by (induction s rule: rev_induct) (auto simp: hd_append split: if_splits)

lemma js_trim_trim: "js_trim (js_trim s) = js_trim s"
proof -
  let ?a = "dropWhile js_space s" and ?b = "rev (dropWhile js_space (rev (dropWhile js_space s)))"
  have "?b = [] \<or> \<not> js_space (hd ?b)"
  proof (cases "dropWhile js_space (rev ?a) = []")
    case False
    then have "?a \<noteq> []" by (metis dropWhile.simps(1) rev.simps(1))
    then have "\<not> js_space (hd ?a)" by (rule hd_dropWhile)
    then show ?thesis by (simp only: hd_dropWhile_end [OF False]) simp
  qed simp
  then have "dropWhile js_space ?b = ?b" by (rule dropWhile_fixed)
  then show ?thesis by (simp add: js_trim_def dropWhile_idem)
qed

lemma option_value_wf: "option_value name rest = Inr v \<Longrightarrow> option_text (Some v)"
  by (auto simp: option_value_def option_text_def js_trim_trim Let_def split: list.splits if_splits)

lemma native_words_wf:
  "native_words action seen ws st = Inr st' \<Longrightarrow> option_text (no_device st) \<Longrightarrow> option_text (no_output st) \<Longrightarrow>
     option_text (no_device st') \<and> option_text (no_output st')"
proof (induction action seen ws st rule: native_words.induct)
  case (2 action seen option rest st)
  show ?case using 2 option_value_wf by (auto split: if_splits sum.splits)
qed simp

lemma parsed_native_wf: "parseNativeArguments ws = Inr c \<Longrightarrow> cli_wf (Native c)"
proof -
  assume "parseNativeArguments ws = Inr c"
  then obtain action options act where ws: "ws = action # ''ios'' # options" "read_action action = Some act"
    unfolding parseNativeArguments_def by (auto split: list.splits if_splits option.splits)
  show ?thesis using \<open>parseNativeArguments ws = Inr c\<close> ws
    by (cases act) (auto simp: parseNativeArguments_def rbind_eq_Inr option_text_def [of None] split: if_splits dest!: native_words_wf)
qed

text \<open>
  The command line has a normal form. Whatever words the parser accepts, the command it reads is well
  formed, and writing that command in the normal form and reading it again gives the same command.
\<close>

theorem command_line_normal_form:
  assumes "parseCliArguments ws = Inr c"
  shows "cli_wf c \<and> parseCliArguments (command_line c) = Inr c"
proof -
  have "cli_wf c" using assms parsed_native_wf
    by (auto simp: parseCliArguments_def parseTestArguments_def Let_def rbind_eq_Inr split: list.splits if_splits) (auto simp: map_sum_def split: sum.splits)
  then show ?thesis using command_read_back by blast
qed

theorem command_line_normal_form_witness:
  "cli_wf (Native (NativeRun True (Some ''My Phone''))) \<and>
   parseCliArguments (command_line (Native (NativeRun True (Some ''My Phone'')))) = Inr (Native (NativeRun True (Some ''My Phone'')))"
proof -
  have "parseCliArguments [''native'', ''run'', ''ios'', ''--device'', '' My Phone '', ''--headless''] = Inr (Native (NativeRun True (Some ''My Phone'')))"
    by code_simp
  then show ?thesis by (rule command_line_normal_form)
qed

end
