(* ===== verification/Decorators.thy ===== *)
theory Decorators
  imports ServerProps
begin

text \<open>
  Namespaces of methods declared with decorators (\<open>src/server/decorators\<close>): the metadata stores, the queue
  that method decorators write and \<open>@Namespace\<close> flushes, and \<open>registerNamespace\<close>, which ends in
  \<open>addMethod\<close>. A queued closure is the pair of a member's key and the decorator that made it; a class is
  named by its constructor, and its declaration lists members and decorators as they are written. The
  proxy \<open>server.m\<close> (\<open>create-method-proxy.ts\<close>) is the other way to the same \<open>addMethod\<close>.
\<close>

section \<open>Metadata\<close>

type_synonym middleware_fn = "client_node \<Rightarrow> jsval \<Rightarrow> jsval js"

record namespace_meta =
  nm_prefix :: string
  nm_protected :: bool
  nm_cached :: bool
  nm_maxAge :: int

record method_meta =
  mm_name :: string
  mm_schema :: "schema option"
  mm_middleware :: "middleware_fn list"
  mm_protected :: "bool option"
  mm_cached :: "bool option"
  mm_maxAge :: "int option"

datatype method_decorator =
    Method "string option"
  | Schema schema
  | Use "middleware_fn list"
  | Protected
  | Public
  | Cached "int option"
  | NoCache

datatype class_decorator =
    Namespace string
  | ProtectedClass
  | CachedClass "int option"

type_synonym class_id = nat

record decorator_store =
  ds_namespaces :: "(class_id, namespace_meta) jsmap"
  ds_methods :: "(class_id, (string, method_meta) jsmap) jsmap"
  ds_pending :: "(string \<times> method_decorator) list"

definition new_store :: decorator_store where
  "new_store = \<lparr>ds_namespaces = [], ds_methods = [], ds_pending = []\<rparr>"

definition DEFAULT_NAMESPACE_META :: namespace_meta where
  "DEFAULT_NAMESPACE_META = \<lparr>nm_prefix = [], nm_protected = False, nm_cached = False, nm_maxAge = 60000\<rparr>"

definition DEFAULT_MAX_AGE :: int where
  "DEFAULT_MAX_AGE = 60000"

definition getOrCreateNamespaceMeta :: "class_id \<Rightarrow> decorator_store \<Rightarrow> namespace_meta \<times> decorator_store" where
  "getOrCreateNamespaceMeta target s =
     (case map_of (ds_namespaces s) target of
        Some meta \<Rightarrow> (meta, s)
      | None \<Rightarrow> (DEFAULT_NAMESPACE_META, s\<lparr>ds_namespaces := jm_set target DEFAULT_NAMESPACE_META (ds_namespaces s)\<rparr>))"

definition getOrCreateMethodMap :: "class_id \<Rightarrow> decorator_store \<Rightarrow> (string, method_meta) jsmap \<times> decorator_store" where
  "getOrCreateMethodMap target s =
     (case map_of (ds_methods s) target of
        Some m \<Rightarrow> (m, s)
      | None \<Rightarrow> ([], s\<lparr>ds_methods := jm_set target [] (ds_methods s)\<rparr>))"

definition new_method_meta :: "string \<Rightarrow> method_meta" where
  "new_method_meta key =
     \<lparr>mm_name = key, mm_schema = None, mm_middleware = [], mm_protected = None, mm_cached = None, mm_maxAge = None\<rparr>"

definition getOrCreateMethodMeta :: "class_id \<Rightarrow> string \<Rightarrow> decorator_store \<Rightarrow> method_meta \<times> decorator_store" where
  "getOrCreateMethodMeta target key s =
     (let (m, s1) = getOrCreateMethodMap target s in
      case map_of m key of
        Some meta \<Rightarrow> (meta, s1)
      | None \<Rightarrow> (new_method_meta key, s1\<lparr>ds_methods := jm_set target (jm_set key (new_method_meta key) m) (ds_methods s1)\<rparr>))"

text \<open>The metadata are objects: what an updater assigns to them is written back under their key.\<close>

definition put_method_meta :: "class_id \<Rightarrow> string \<Rightarrow> method_meta \<Rightarrow> decorator_store \<Rightarrow> decorator_store" where
  "put_method_meta target key meta s =
     s\<lparr>ds_methods := jm_set target (jm_set key meta (fst (getOrCreateMethodMap target s))) (ds_methods s)\<rparr>"

definition put_namespace_meta :: "class_id \<Rightarrow> namespace_meta \<Rightarrow> decorator_store \<Rightarrow> decorator_store" where
  "put_namespace_meta target meta s = s\<lparr>ds_namespaces := jm_set target meta (ds_namespaces s)\<rparr>"

section \<open>Decorators\<close>

definition queueMethodUpdate :: "string \<times> method_decorator \<Rightarrow> decorator_store \<Rightarrow> decorator_store" where
  "queueMethodUpdate updater s = s\<lparr>ds_pending := ds_pending s @ [updater]\<rparr>"

text \<open>What the updater of each method decorator assigns.\<close>

definition update_Method :: "string option \<Rightarrow> string \<Rightarrow> method_meta \<Rightarrow> method_meta" where
  [simp]: "update_Method name key meta = meta\<lparr>mm_name := (case name of None \<Rightarrow> key | Some n \<Rightarrow> n)\<rparr>"

definition update_Schema :: "schema \<Rightarrow> method_meta \<Rightarrow> method_meta" where
  [simp]: "update_Schema schema meta = meta\<lparr>mm_schema := Some schema\<rparr>"

definition update_Use :: "middleware_fn list \<Rightarrow> method_meta \<Rightarrow> method_meta" where
  [simp]: "update_Use middleware meta = meta\<lparr>mm_middleware := mm_middleware meta @ middleware\<rparr>"

definition update_Protected :: "method_meta \<Rightarrow> method_meta" where
  [simp]: "update_Protected meta = meta\<lparr>mm_protected := Some True\<rparr>"

definition update_Public :: "method_meta \<Rightarrow> method_meta" where
  [simp]: "update_Public meta = meta\<lparr>mm_protected := Some False\<rparr>"

definition update_Cached :: "int option \<Rightarrow> method_meta \<Rightarrow> method_meta" where
  [simp]: "update_Cached maxAge meta =
     meta\<lparr>mm_cached := Some True, mm_maxAge := Some (case maxAge of None \<Rightarrow> DEFAULT_MAX_AGE | Some a \<Rightarrow> a)\<rparr>"

definition update_NoCache :: "method_meta \<Rightarrow> method_meta" where
  [simp]: "update_NoCache meta = meta\<lparr>mm_cached := Some False\<rparr>"

fun assign_meta :: "string \<Rightarrow> method_decorator \<Rightarrow> method_meta \<Rightarrow> method_meta" where
  "assign_meta key (Method name) meta = update_Method name key meta"
| "assign_meta key (Schema schema) meta = update_Schema schema meta"
| "assign_meta key (Use middleware) meta = update_Use middleware meta"
| "assign_meta key Protected meta = update_Protected meta"
| "assign_meta key Public meta = update_Public meta"
| "assign_meta key (Cached maxAge) meta = update_Cached maxAge meta"
| "assign_meta key NoCache meta = update_NoCache meta"

definition run_updater :: "class_id \<Rightarrow> string \<times> method_decorator \<Rightarrow> decorator_store \<Rightarrow> decorator_store" where
  "run_updater c updater s =
     (let (key, d) = updater; (meta, s1) = getOrCreateMethodMeta c key s in put_method_meta c key (assign_meta key d meta) s1)"

lemma run_updater_pending [simp]: "ds_pending (run_updater c u s) = ds_pending s"
  by (cases u) (simp add: run_updater_def getOrCreateMethodMeta_def getOrCreateMethodMap_def put_method_meta_def split: option.splits)

function flushPendingUpdates :: "class_id \<Rightarrow> decorator_store \<Rightarrow> decorator_store" where
  "flushPendingUpdates c s =
     (if ds_pending s = [] then s
      else flushPendingUpdates c (run_updater c (last (ds_pending s)) (s\<lparr>ds_pending := butlast (ds_pending s)\<rparr>)))"
  by pat_completeness auto

termination by (relation "measure (\<lambda>(_, s). length (ds_pending s))") auto

declare flushPendingUpdates.simps [simp del]

definition decorate_Namespace :: "string \<Rightarrow> class_id \<Rightarrow> decorator_store \<Rightarrow> decorator_store" where
  "decorate_Namespace prefix c s =
     (let (meta, s1) = getOrCreateNamespaceMeta c s in flushPendingUpdates c (put_namespace_meta c (meta\<lparr>nm_prefix := prefix\<rparr>) s1))"

definition decorate_Protected :: "class_id \<Rightarrow> decorator_store \<Rightarrow> decorator_store" where
  "decorate_Protected c s =
     (let (meta, s1) = getOrCreateNamespaceMeta c s in put_namespace_meta c (meta\<lparr>nm_protected := True\<rparr>) s1)"

definition decorate_Cached :: "int option \<Rightarrow> class_id \<Rightarrow> decorator_store \<Rightarrow> decorator_store" where
  "decorate_Cached maxAge c s =
     (let (meta, s1) = getOrCreateNamespaceMeta c s in
      put_namespace_meta c (meta\<lparr>nm_cached := True, nm_maxAge := (case maxAge of None \<Rightarrow> DEFAULT_MAX_AGE | Some a \<Rightarrow> a)\<rparr>) s1)"

fun apply_class_decorator :: "class_id \<Rightarrow> class_decorator \<Rightarrow> decorator_store \<Rightarrow> decorator_store" where
  "apply_class_decorator c (Namespace prefix) s = decorate_Namespace prefix c s"
| "apply_class_decorator c ProtectedClass s = decorate_Protected c s"
| "apply_class_decorator c (CachedClass maxAge) s = decorate_Cached maxAge c s"

text \<open>
  A class as it is written: its members in order, each with its decorators from top to bottom, and the
  decorators of the class from top to bottom. The language applies the decorators of the members first,
  member by member, then those of the class, each from bottom to top.
\<close>

record class_decl =
  cd_id :: class_id
  cd_name :: string
  cd_decorators :: "class_decorator list"
  cd_members :: "(string \<times> method_decorator list) list"
  cd_instance :: "string \<Rightarrow> (client_node \<Rightarrow> jsval \<Rightarrow> fn_outcome) option"

definition define_class :: "class_decl \<Rightarrow> decorator_store \<Rightarrow> decorator_store" where
  "define_class d s =
     (let s1 = foldl (\<lambda>s (key, ds). foldl (\<lambda>s d. queueMethodUpdate (key, d) s) s (rev ds)) s (cd_members d)
      in foldl (\<lambda>s cd. apply_class_decorator (cd_id d) cd s) s1 (rev (cd_decorators d)))"

section \<open>Registration\<close>

datatype register_error =
    MissingNamespace string
  | NoMethods string string
  | ServerNotInitialized
  | NotAFunction string string

definition buildFullName :: "namespace_meta \<Rightarrow> method_meta \<Rightarrow> string" where
  "buildFullName nsMeta meta = (if nm_prefix nsMeta \<noteq> [] then nm_prefix nsMeta @ ''.'' @ mm_name meta else mm_name meta)"

definition buildOptions :: "namespace_meta \<Rightarrow> method_meta \<Rightarrow> method_options" where
  "buildOptions nsMeta meta =
     (let isProtected = (case mm_protected meta of None \<Rightarrow> nm_protected nsMeta | Some b \<Rightarrow> b);
          isCached = (case mm_cached meta of None \<Rightarrow> nm_cached nsMeta | Some b \<Rightarrow> b);
          maxAge = (case mm_maxAge meta of Some a \<Rightarrow> Some a | None \<Rightarrow> if isCached then Some (nm_maxAge nsMeta) else None) in
      \<lparr>mo_cache = isCached, mo_maxAge = maxAge, mo_protected = Some isProtected, mo_middleware = mm_middleware meta,
       mo_schema = mm_schema meta, mo_sensitive = None\<rparr>)"

definition wrapMethod :: "(client_node \<Rightarrow> jsval \<Rightarrow> fn_outcome) \<Rightarrow> method_fn" where
  "wrapMethod boundFn = UserFn (\<lambda>this params. boundFn this params)"

fun register_all :: "class_decl \<Rightarrow> namespace_meta \<Rightarrow> (string, method_meta) jsmap \<Rightarrow> server \<Rightarrow> register_error option \<times> server" where
  "register_all d nsMeta [] sv = (None, sv)"
| "register_all d nsMeta ((propertyKey, meta) # rest) sv =
     (case cd_instance d propertyKey of
        None \<Rightarrow> (Some (NotAFunction propertyKey (cd_name d)), sv)
      | Some originalFn \<Rightarrow>
          register_all d nsMeta rest (addMethod (buildFullName nsMeta meta) (wrapMethod originalFn) (buildOptions nsMeta meta) sv))"

definition registerNamespace :: "class_decl \<Rightarrow> decorator_store \<Rightarrow> server option \<Rightarrow> register_error option \<times> server option" where
  "registerNamespace d s global =
     (case map_of (ds_namespaces s) (cd_id d) of
        None \<Rightarrow> (Some (MissingNamespace (cd_name d)), global)
      | Some nsMeta \<Rightarrow>
          (case map_of (ds_methods s) (cd_id d) of
             None \<Rightarrow> (Some (NoMethods (nm_prefix nsMeta) (cd_name d)), global)
           | Some methodsMap \<Rightarrow>
               if methodsMap = [] then (Some (NoMethods (nm_prefix nsMeta) (cd_name d)), global)
               else
                 (case global of
                    None \<Rightarrow> (Some ServerNotInitialized, None)
                  | Some sv \<Rightarrow> map_prod id Some (register_all d nsMeta methodsMap sv))))"

section \<open>The method proxy\<close>

text \<open>\<open>server.m.a.b = value\<close>: reading a property extends the path, assigning one registers the method.\<close>

datatype proxy_value = ProxyFunction method_fn | ProxyPair method_fn "method_options option"

definition proxy_path :: "string \<Rightarrow> string \<Rightarrow> string" where
  "proxy_path path prop = (if path \<noteq> [] then path @ ''.'' @ prop else prop)"

definition no_options :: method_options where
  "no_options = \<lparr>mo_cache = False, mo_maxAge = None, mo_protected = None, mo_middleware = [], mo_schema = None, mo_sensitive = None\<rparr>"

definition createMethodProxy :: "string list \<Rightarrow> string \<Rightarrow> proxy_value \<Rightarrow> server \<Rightarrow> server" where
  "createMethodProxy read prop value s =
     (let propertyPath = proxy_path (foldl proxy_path [] read) prop in
      case value of
        ProxyFunction fn \<Rightarrow> addMethod propertyPath fn no_options s
      | ProxyPair fn opts \<Rightarrow> addMethod propertyPath fn (case opts of None \<Rightarrow> no_options | Some p \<Rightarrow> p) s)"

section \<open>What the stores hold after a class was defined\<close>

lemma update_twice: "AList.update k v (AList.update k v' m) = AList.update k v m"
  by (induction m) auto

definition methods_of :: "class_id \<Rightarrow> decorator_store \<Rightarrow> (string, method_meta) jsmap" where
  "methods_of c s = (case map_of (ds_methods s) c of None \<Rightarrow> [] | Some m \<Rightarrow> m)"

definition namespace_of :: "class_id \<Rightarrow> decorator_store \<Rightarrow> namespace_meta" where
  "namespace_of c s = (case map_of (ds_namespaces s) c of None \<Rightarrow> DEFAULT_NAMESPACE_META | Some m \<Rightarrow> m)"

definition add_meta :: "(string, method_meta) jsmap \<Rightarrow> string \<times> method_decorator \<Rightarrow> (string, method_meta) jsmap" where
  "add_meta m u = (let (k, d) = u in jm_set k (assign_meta k d (case map_of m k of None \<Rightarrow> new_method_meta k | Some x \<Rightarrow> x)) m)"

lemma run_updater_eq: "run_updater c u s = s\<lparr>ds_methods := jm_set c (add_meta (methods_of c s) u) (ds_methods s)\<rparr>"
  by (cases u) (simp add: run_updater_def getOrCreateMethodMeta_def getOrCreateMethodMap_def put_method_meta_def add_meta_def
      methods_of_def update_twice split: option.splits)

lemma flush_eq: "flushPendingUpdates c s =
    (if ds_pending s = [] then s
     else s\<lparr>ds_pending := [], ds_methods := jm_set c (foldl add_meta (methods_of c s) (rev (ds_pending s))) (ds_methods s)\<rparr>)"
proof (induction "length (ds_pending s)" arbitrary: s)
  case 0
  then show ?case by (simp add: flushPendingUpdates.simps)
next
  case (Suc n)
  then obtain us u where p: "ds_pending s = us @ [u]" by (metis length_0_conv rev_exhaust nat.distinct(1))
  let ?s = "run_updater c u (s\<lparr>ds_pending := us\<rparr>)"
  have "flushPendingUpdates c s = flushPendingUpdates c ?s" using p by (subst flushPendingUpdates.simps) simp
  also have "\<dots> = (if us = [] then ?s else ?s\<lparr>ds_pending := [], ds_methods := jm_set c (foldl add_meta (methods_of c ?s) (rev us)) (ds_methods ?s)\<rparr>)"
    using Suc(1) [of ?s] Suc(2) p by simp
  finally show ?case by (simp add: p run_updater_eq update_twice) (simp add: methods_of_def)
qed

fun assign_class :: "class_decorator \<Rightarrow> namespace_meta \<Rightarrow> namespace_meta" where
  "assign_class (Namespace prefix) meta = meta\<lparr>nm_prefix := prefix\<rparr>"
| "assign_class ProtectedClass meta = meta\<lparr>nm_protected := True\<rparr>"
| "assign_class (CachedClass maxAge) meta = meta\<lparr>nm_cached := True, nm_maxAge := (case maxAge of None \<Rightarrow> DEFAULT_MAX_AGE | Some a \<Rightarrow> a)\<rparr>"

definition namespaced :: "class_decorator list \<Rightarrow> bool" where
  "namespaced cds \<longleftrightarrow> (\<exists>cd \<in> set cds. case cd of Namespace _ \<Rightarrow> True | _ \<Rightarrow> False)"

lemma apply_class_eq: "apply_class_decorator c cd s =
    (let s1 = s\<lparr>ds_namespaces := jm_set c (assign_class cd (namespace_of c s)) (ds_namespaces s)\<rparr> in
     if namespaced [cd] then flushPendingUpdates c s1 else s1)"
  by (cases cd) (simp_all add: decorate_Namespace_def decorate_Protected_def decorate_Cached_def getOrCreateNamespaceMeta_def put_namespace_meta_def namespace_of_def namespaced_def update_twice split: option.splits)

lemma class_decorators_eq: "foldr (apply_class_decorator c) cds s =
    (let s1 = (if namespaced cds then flushPendingUpdates c s else s) in
     if cds = [] then s else s1\<lparr>ds_namespaces := jm_set c (foldr assign_class cds (namespace_of c s)) (ds_namespaces s)\<rparr>)"
proof (induction cds)
  case (Cons cd cds)
  have n: "namespaced (cd # cds) \<longleftrightarrow> namespaced [cd] \<or> namespaced cds" by (auto simp: namespaced_def)
  show ?case unfolding foldr.simps o_apply Cons.IH apply_class_eq [of c cd] n
    by (simp add: Let_def flush_eq update_twice namespace_of_def) (simp add: methods_of_def namespaced_def)
qed simp

lemma queued_decorators: "foldl (\<lambda>s d. queueMethodUpdate (key, d) s) s ds = s\<lparr>ds_pending := ds_pending s @ map (Pair key) ds\<rparr>"
  by (induction ds arbitrary: s) (simp_all add: queueMethodUpdate_def)

lemma queued_members: "foldl (\<lambda>s (key, ds). foldl (\<lambda>s d. queueMethodUpdate (key, d) s) s (rev ds)) s members =
    s\<lparr>ds_pending := ds_pending s @ concat (map (\<lambda>(key, ds). map (Pair key) (rev ds)) members)\<rparr>"
  by (induction members arbitrary: s) (auto simp: queued_decorators)

definition meta_of :: "string \<Rightarrow> method_decorator list \<Rightarrow> method_meta" where
  "meta_of key ds = foldl (\<lambda>meta d. assign_meta key d meta) (new_method_meta key) ds"

definition decorated :: "class_decl \<Rightarrow> (string \<times> method_decorator list) list" where
  "decorated d = filter (\<lambda>(_, ds). ds \<noteq> []) (cd_members d)"

lemma add_metas: "map_of m k = Some x \<Longrightarrow> foldl add_meta m (map (Pair k) ds) = jm_set k (foldl (\<lambda>x d. assign_meta k d x) x ds) m"
proof (induction ds arbitrary: m x)
  case Nil
  then show ?case by (induction m) auto
qed (simp add: add_meta_def update_twice)

lemma add_metas_fresh: "map_of m k = None \<Longrightarrow> ds \<noteq> [] \<Longrightarrow> foldl add_meta m (map (Pair k) ds) = m @ [(k, meta_of k ds)]"
proof -
  assume m: "map_of m k = None" and "ds \<noteq> []"
  then obtain d rest where ds: "ds = d # rest" by (cases ds) auto
  have "foldl add_meta m (map (Pair k) ds) = jm_set k (meta_of k ds) m"
    by (simp add: ds add_meta_def m add_metas meta_of_def update_twice)
  then show ?thesis using m by (simp add: jm_set_fresh map_of_eq_None_iff)
qed

lemma fold_members:
  "distinct (map fst members) \<Longrightarrow> fst ` set m \<inter> fst ` set members = {} \<Longrightarrow>
   foldl add_meta m (concat (map (\<lambda>(key, ds). map (Pair key) ds) members)) =
     m @ map (\<lambda>(k, ds). (k, meta_of k ds)) (filter (\<lambda>(_, ds). ds \<noteq> []) members)"
proof (induction members arbitrary: m)
  case (Cons kd members)
  obtain k ds where kd: "kd = (k, ds)" by fastforce
  have fresh: "map_of m k = None" using Cons.prems by (auto simp: kd map_of_eq_None_iff)
  show ?case
  proof (cases "ds = []")
    case True
    then show ?thesis using Cons by (auto simp: kd)
  next
    case False
    have d: "distinct (map fst members)" "fst ` set (m @ [(k, meta_of k ds)]) \<inter> fst ` set members = {}" using Cons.prems by (auto simp: kd image_iff)
    show ?thesis using Cons.IH [OF d] add_metas_fresh [OF fresh False] False by (simp add: kd)
  qed
qed simp


definition class_meta :: "class_decl \<Rightarrow> namespace_meta" where
  "class_meta d = foldr assign_class (cd_decorators d) DEFAULT_NAMESPACE_META"

definition declared_metas :: "class_decl \<Rightarrow> (string, method_meta) jsmap" where
  "declared_metas d = map (\<lambda>(k, ds). (k, meta_of k ds)) (rev (decorated d))"

lemma rev_queue: "rev (concat (map (\<lambda>(key, ds). map (Pair key) (rev ds)) members)) = concat (map (\<lambda>(key, ds). map (Pair key) ds) (rev members))"
  by (induction members) (auto simp: rev_map [symmetric])

lemma queue_decorated: "concat (map (\<lambda>(key, ds). map (Pair key) (rev ds)) (cd_members d)) = [] \<longleftrightarrow> decorated d = []"
  by (auto simp: decorated_def filter_empty_conv)

lemma define_class_eq:
  assumes "ds_pending s = []" and "namespaced (cd_decorators d)" and "map_of (ds_namespaces s) (cd_id d) = None"
    and "map_of (ds_methods s) (cd_id d) = None" and "distinct (map fst (cd_members d))"
  shows "define_class d s = s\<lparr>ds_namespaces := jm_set (cd_id d) (class_meta d) (ds_namespaces s),
    ds_methods := (if decorated d = [] then ds_methods s else jm_set (cd_id d) (declared_metas d) (ds_methods s))\<rparr>"
proof -
  have c: "cd_decorators d \<noteq> []" using assms(2) by (auto simp: namespaced_def)
  have "foldl add_meta [] (concat (map (\<lambda>(key, ds). map (Pair key) ds) (rev (cd_members d)))) = declared_metas d"
    using assms(5) by (subst fold_members) (simp_all add: declared_metas_def decorated_def rev_map [symmetric] rev_filter)
  moreover have "define_class d s = foldr (apply_class_decorator (cd_id d)) (cd_decorators d)
      (s\<lparr>ds_pending := ds_pending s @ concat (map (\<lambda>(key, ds). map (Pair key) (rev ds)) (cd_members d))\<rparr>)"
    unfolding define_class_def queued_members by (simp add: foldl_conv_foldr)
  ultimately show ?thesis using assms(1-4) c unfolding class_decorators_eq flush_eq
    by (cases s) (simp add: methods_of_def namespace_of_def rev_queue queue_decorated class_meta_def del: concat_eq_Nil_conv rev_concat)
qed

section \<open>What registration adds to the server\<close>

lemma find_append: "find P (xs @ ys) = (case find P xs of None \<Rightarrow> find P ys | Some x \<Rightarrow> Some x)"
  by (induction xs) auto

lemma register_all_methods:
  "\<forall>k \<in> fst ` set ms. cd_instance d k \<noteq> None \<Longrightarrow>
   \<exists>sv'. register_all d nsMeta ms sv = (None, sv') \<and>
     (\<forall>name. map_of (sv_methods sv') name =
        (case find (\<lambda>(k, m). buildFullName nsMeta m = name) (rev ms) of
           Some (k, m) \<Rightarrow> Some (new_method name (wrapMethod (the (cd_instance d k))) (buildOptions nsMeta m))
         | None \<Rightarrow> map_of (sv_methods sv) name))"
proof (induction ms arbitrary: sv)
  case (Cons km ms)
  obtain k m where km: "km = (k, m)" by fastforce
  obtain f where f: "cd_instance d k = Some f" using Cons.prems km by auto
  show ?case using Cons.IH [of "addMethod (buildFullName nsMeta m) (wrapMethod f) (buildOptions nsMeta m) sv"] Cons.prems
    by (fastforce simp: km f addMethod_def find_append split: option.splits)
qed simp

lemma find_mapped: "find (\<lambda>(k, m). P m) (map (\<lambda>(k, ds). (k, g k ds)) xs) = map_option (\<lambda>(k, ds). (k, g k ds)) (find (\<lambda>(k, ds). P (g k ds)) xs)"
  by (induction xs) auto

definition settled_class :: "decorator_store \<Rightarrow> class_decl \<Rightarrow> bool" where
  "settled_class s d \<longleftrightarrow> map_of (ds_namespaces s) (cd_id d) = Some (class_meta d) \<and>
     map_of (ds_methods s) (cd_id d) = (if decorated d = [] then None else Some (declared_metas d))"

definition define_classes :: "class_decl list \<Rightarrow> decorator_store" where
  "define_classes program = foldl (\<lambda>s d. define_class d s) new_store program"

definition proper_program :: "class_decl list \<Rightarrow> bool" where
  "proper_program program \<longleftrightarrow> distinct (map cd_id program) \<and>
     (\<forall>d \<in> set program. namespaced (cd_decorators d) \<and> distinct (map fst (cd_members d)))"

lemma program_settled:
  "proper_program program \<Longrightarrow>
     ds_pending (define_classes program) = [] \<and> (\<forall>d \<in> set program. settled_class (define_classes program) d) \<and>
     (\<forall>c. c \<notin> cd_id ` set program \<longrightarrow> map_of (ds_namespaces (define_classes program)) c = None \<and> map_of (ds_methods (define_classes program)) c = None)"
proof (induction program rule: rev_induct)
  case Nil
  then show ?case by (simp add: define_classes_def new_store_def)
next
  case (snoc d program)
  then have p: "proper_program program" and d: "namespaced (cd_decorators d)" "distinct (map fst (cd_members d))"
    and fresh: "cd_id d \<notin> cd_id ` set program" by (auto simp: proper_program_def)
  note IH = snoc.IH [OF p]
  let ?s = "define_classes program"
  have eq: "define_classes (program @ [d]) = define_class d ?s" by (simp add: define_classes_def)
  have s: "define_class d ?s = ?s\<lparr>ds_namespaces := jm_set (cd_id d) (class_meta d) (ds_namespaces ?s),
      ds_methods := (if decorated d = [] then ds_methods ?s else jm_set (cd_id d) (declared_metas d) (ds_methods ?s))\<rparr>"
    using IH fresh d by (intro define_class_eq) blast+
  have old: "settled_class (define_class d ?s) e" if "e \<in> set program" for e
  proof -
    have "cd_id e \<noteq> cd_id d" using fresh that by (metis imageI)
    then show ?thesis using IH that by (simp add: s settled_class_def)
  qed
  have new: "settled_class (define_class d ?s) d" using IH fresh by (simp add: s settled_class_def)
  show ?case unfolding eq using IH old new by (auto simp: s)
qed

definition declared_name :: "class_decl \<Rightarrow> string \<times> method_decorator list \<Rightarrow> string" where
  "declared_name d member = (let (k, ds) = member in buildFullName (class_meta d) (meta_of k ds))"

definition declared_method :: "class_decl \<Rightarrow> string \<times> method_decorator list \<Rightarrow> server_method" where
  "declared_method d member =
     (let (k, ds) = member in
      new_method (declared_name d member) (wrapMethod (the (cd_instance d k))) (buildOptions (class_meta d) (meta_of k ds)))"

lemma namespace_registration:
  assumes "proper_program program" and "d \<in> set program" and "decorated d \<noteq> []"
    and "\<forall>(k, ds) \<in> set (decorated d). cd_instance d k \<noteq> None"
  shows "\<exists>sv'. registerNamespace d (define_classes program) (Some sv) = (None, Some sv') \<and>
    (\<forall>name. map_of (sv_methods sv') name =
       (case find (\<lambda>member. declared_name d member = name) (decorated d) of
          Some member \<Rightarrow> Some (declared_method d member)
        | None \<Rightarrow> map_of (sv_methods sv) name))"
proof -
  have s: "settled_class (define_classes program) d" using program_settled [OF assms(1)] assms(2) by blast
  have inst: "\<forall>k \<in> fst ` set (declared_metas d). cd_instance d k \<noteq> None"
    using assms(4) by (auto simp: declared_metas_def)
  from register_all_methods [OF inst, where nsMeta = "class_meta d" and sv = sv] obtain sv' where
    r: "register_all d (class_meta d) (declared_metas d) sv = (None, sv')" and
    m: "\<And>name. map_of (sv_methods sv') name =
        (case find (\<lambda>(k, m). buildFullName (class_meta d) m = name) (rev (declared_metas d)) of
           Some (k, m) \<Rightarrow> Some (new_method name (wrapMethod (the (cd_instance d k))) (buildOptions (class_meta d) m))
         | None \<Rightarrow> map_of (sv_methods sv) name)" by blast
  have look: "map_of (sv_methods sv') name =
      (case find (\<lambda>member. declared_name d member = name) (decorated d) of
         Some member \<Rightarrow> Some (declared_method d member) | None \<Rightarrow> map_of (sv_methods sv) name)" for name
  proof -
    have P: "(\<lambda>(k, ds). buildFullName (class_meta d) (meta_of k ds) = name) = (\<lambda>member. declared_name d member = name)"
      by (auto simp: declared_name_def)
    have hit: "declared_name d x = name" if "find (\<lambda>member. declared_name d member = name) (decorated d) = Some x" for x
      using that by (auto simp: find_Some_iff)
    show ?thesis unfolding m declared_metas_def rev_map rev_rev_ident find_mapped P
      using hit by (auto simp: declared_method_def split: option.splits)
  qed
  have "declared_metas d \<noteq> []" using assms(3) by (simp add: declared_metas_def)
  then show ?thesis using s r look assms(3) by (auto simp: registerNamespace_def settled_class_def)
qed

text \<open>
  A namespace is registered as it is declared, whatever other namespaces the program defines: every
  decorated member becomes the method that its own decorators and those of its class describe, under its
  own name, the first of several members with one name wins, and nothing else of the server's methods
  changes.
\<close>

theorem namespace_registered_as_declared:
  assumes "proper_program program" and "d \<in> set program" and "decorated d \<noteq> []"
    and "\<forall>(k, ds) \<in> set (decorated d). cd_instance d k \<noteq> None"
  shows "\<exists>sv'. registerNamespace d (define_classes program) (Some sv) = (None, Some sv') \<and>
    (\<forall>name. map_of (sv_methods sv') name =
       (case find (\<lambda>member. declared_name d member = name) (decorated d) of
          Some member \<Rightarrow> Some (declared_method d member)
        | None \<Rightarrow> map_of (sv_methods sv) name))"
  using assms by (rule namespace_registration)

definition board_class :: class_decl where
  "board_class = \<lparr>cd_id = 1, cd_name = ''BoardMethods'', cd_decorators = [Namespace ''boards'', ProtectedClass],
     cd_members = [(''get'', [Method None]), (''list'', [Method (Some ''all''), Public, Cached None]), (''helper'', [])],
     cd_instance = (\<lambda>_. Some (\<lambda>_ _. Returned JNull))\<rparr>"

definition user_class :: class_decl where
  "user_class = \<lparr>cd_id = 2, cd_name = ''UserMethods'', cd_decorators = [CachedClass (Some 500), Namespace ''users''],
     cd_members = [(''get'', [NoCache, Method None])], cd_instance = (\<lambda>_. Some (\<lambda>_ _. Returned JNull))\<rparr>"


lemma board_program: "proper_program [user_class, board_class]"
  by (simp add: proper_program_def namespaced_def user_class_def board_class_def)

theorem namespace_registered_as_declared_witness:
  "\<exists>sv'. registerNamespace board_class (define_classes [user_class, board_class]) (Some sample_server) = (None, Some sv') \<and>
    (\<forall>name. map_of (sv_methods sv') name =
       (case find (\<lambda>member. declared_name board_class member = name) (decorated board_class) of
          Some member \<Rightarrow> Some (declared_method board_class member)
        | None \<Rightarrow> map_of (sv_methods sample_server) name)) \<and>
    map_option sm_isProtected (map_of (sv_methods sv') ''boards.get'') = Some True \<and>
    map_option sm_isProtected (map_of (sv_methods sv') ''boards.all'') = Some False"
proof -
  have d: "decorated board_class = [(''get'', [Method None]), (''list'', [Method (Some ''all''), Public, Cached None])]"
    by (simp add: decorated_def board_class_def)
  have "decorated board_class \<noteq> []" "\<forall>(k, ds) \<in> set (decorated board_class). cd_instance board_class k \<noteq> None"
    unfolding d by (simp_all add: board_class_def)
  from namespace_registered_as_declared [OF board_program _ this, of sample_server] obtain sv' where
    r: "registerNamespace board_class (define_classes [user_class, board_class]) (Some sample_server) = (None, Some sv')"
      "\<And>name. map_of (sv_methods sv') name =
       (case find (\<lambda>member. declared_name board_class member = name) (decorated board_class) of
          Some member \<Rightarrow> Some (declared_method board_class member)
        | None \<Rightarrow> map_of (sv_methods sample_server) name)" by auto
  have "map_option sm_isProtected (map_of (sv_methods sv') ''boards.get'') = Some True"
    "map_option sm_isProtected (map_of (sv_methods sv') ''boards.all'') = Some False"
    unfolding r(2) d
    by (simp_all add: declared_name_def declared_method_def meta_of_def class_meta_def board_class_def new_method_meta_def
        DEFAULT_NAMESPACE_META_def buildFullName_def buildOptions_def new_method_def)
  then show ?thesis using r by blast
qed

section \<open>Protection\<close>

lemma meta_keeps_protection:
  "Public \<notin> set ds \<Longrightarrow> mm_protected meta \<noteq> Some False \<Longrightarrow> mm_protected (foldl (\<lambda>meta d. assign_meta k d meta) meta ds) \<noteq> Some False"
proof (induction ds arbitrary: meta)
  case (Cons d ds)
  have "mm_protected (assign_meta k d meta) \<noteq> Some False" using Cons.prems by (cases d) auto
  then show ?case using Cons by simp
qed simp

lemma class_protected: "ProtectedClass \<in> set cds \<Longrightarrow> nm_protected (foldr assign_class cds meta)"
proof (induction cds)
  case (Cons cd cds)
  then show ?case by (cases cd) auto
qed simp

lemma declared_protected:
  assumes "ProtectedClass \<in> set (cd_decorators d)" and "Public \<notin> set (snd member)"
  shows "sm_isProtected (declared_method d member)"
proof -
  have "mm_protected (meta_of (fst member) (snd member)) \<noteq> Some False"
    unfolding meta_of_def by (rule meta_keeps_protection [OF assms(2)]) (simp add: new_method_meta_def)
  then show ?thesis using class_protected [OF assms(1), of DEFAULT_NAMESPACE_META]
    by (auto simp: declared_method_def split_def new_method_def buildOptions_def class_meta_def Let_def split: option.splits)
qed

text \<open>
  C10: A protected namespace is closed to strangers. After its registration, a call of one of its methods
  from a connection that is not authenticated is refused, whatever other namespaces were defined, unless
  the method is marked \<open>@Public\<close>.
\<close>

theorem protected_namespace_refuses:
  assumes "proper_program program" and "d \<in> set program"
    and "\<forall>(k, ds) \<in> set (decorated d). cd_instance d k \<noteq> None"
    and "ProtectedClass \<in> set (cd_decorators d)" and "member \<in> set (decorated d)"
    and "\<forall>other \<in> set (decorated d). declared_name d other = declared_name d member \<longrightarrow> Public \<notin> set (snd other)"
    and "registerNamespace d (define_classes program) (Some sv) = (None, Some sv')" and "\<not> cn_authenticated (node_at sv' i)"
  shows "handleRpc h now granted i rid (JStr (declared_name d member)) params sv' =
    send_or_drop (sendResponse h i rid JUndef
      (Some (if cn_limiter (node_at sv' i) \<and> \<not> granted then ''Rate Limit Exceeded'' else ''Method Forbidden'')) None sv') sv'"
proof -
  have "decorated d \<noteq> []" using assms(5) by auto
  from namespace_registration [OF assms(1,2) this assms(3), of sv] assms(7)
  have m: "map_of (sv_methods sv') (declared_name d member) =
      (case find (\<lambda>x. declared_name d x = declared_name d member) (decorated d) of
         Some x \<Rightarrow> Some (declared_method d x) | None \<Rightarrow> map_of (sv_methods sv) (declared_name d member))" by auto
  have "find (\<lambda>x. declared_name d x = declared_name d member) (decorated d) \<noteq> None" using assms(5) unfolding find_None_iff by blast
  then obtain x where x: "find (\<lambda>x. declared_name d x = declared_name d member) (decorated d) = Some x" by blast
  then have "x \<in> set (decorated d)" "declared_name d x = declared_name d member" by (auto simp: find_Some_iff)
  then have "sm_isProtected (declared_method d x)" using assms(6) by (intro declared_protected [OF assms(4)]) blast
  then show ?thesis using m x assms(8) by (simp add: handleRpc_def method_of_def Let_def)
qed

definition sample_boards :: server where
  "sample_boards = the (snd (registerNamespace board_class (define_classes [user_class, board_class])
     (Some (sample_server\<lparr>sv_nodes := [new_client_node (Some 7) False], sv_open := [7]\<rparr>))))"

theorem protected_namespace_refuses_witness:
  "handleRpc plain_host 0 True 0 (jint 1) (JStr ''boards.get'') JNull sample_boards =
    send_or_drop (sendResponse plain_host 0 (jint 1) JUndef (Some ''Method Forbidden'') None sample_boards) sample_boards"
proof -
  let ?sv = "sample_server\<lparr>sv_nodes := [new_client_node (Some 7) False], sv_open := [7]\<rparr>"
  have d: "decorated board_class = [(''get'', [Method None]), (''list'', [Method (Some ''all''), Public, Cached None])]"
    by (simp add: decorated_def board_class_def)
  have n: "declared_name board_class (''get'', [Method None]) = ''boards.get''"
    "declared_name board_class (''list'', [Method (Some ''all''), Public, Cached None]) = ''boards.all''" by code_simp+
  have "fst (registerNamespace board_class (define_classes [user_class, board_class]) (Some ?sv)) = None"
    "snd (registerNamespace board_class (define_classes [user_class, board_class]) (Some ?sv)) \<noteq> None" by code_simp+
  then have r: "registerNamespace board_class (define_classes [user_class, board_class]) (Some ?sv) = (None, Some sample_boards)"
    unfolding sample_boards_def by (cases "registerNamespace board_class (define_classes [user_class, board_class]) (Some ?sv)") auto
  have i: "\<forall>(k, ds) \<in> set (decorated board_class). cd_instance board_class k \<noteq> None" "ProtectedClass \<in> set (cd_decorators board_class)"
    by (simp_all add: board_class_def)
  have o: "(''get'', [Method None]) \<in> set (decorated board_class)"
    "\<forall>other \<in> set (decorated board_class). declared_name board_class other = declared_name board_class (''get'', [Method None]) \<longrightarrow> Public \<notin> set (snd other)"
    unfolding d by (simp_all add: n)
  have c: "\<not> cn_authenticated (node_at sample_boards 0)" "\<not> cn_limiter (node_at sample_boards 0)" by code_simp+
  show ?thesis
    using protected_namespace_refuses [OF board_program _ i o r c(1), of plain_host 0 True "jint 1" JNull] c(2) by (simp add: n)
qed

text \<open>
  The guarantee rests on \<open>@Namespace\<close>. A class whose namespace decorator was forgotten leaves its updates
  in the queue, and the next namespace takes them for its own: here it makes a protected method public.
\<close>

definition stray_class :: class_decl where
  "stray_class = \<lparr>cd_id = 0, cd_name = ''StrayMethods'', cd_decorators = [],
     cd_members = [(''get'', [Method None, Public])], cd_instance = (\<lambda>_. Some (\<lambda>_ _. Returned JNull))\<rparr>"

lemma stray_decorators_open_namespace:
  "map_option (\<lambda>sv. map_option sm_isProtected (map_of (sv_methods sv) ''boards.get''))
     (snd (registerNamespace board_class (define_classes [stray_class, board_class]) (Some sample_server))) = Some (Some False)"
  by code_simp

text \<open>A member that has some other decorator but no \<open>@Method\<close> becomes a remote method all the same.\<close>

lemma undeclared_member_exposed:
  "map_of (sv_methods (the (snd (registerNamespace (board_class\<lparr>cd_members := [(''internal'', [NoCache])]\<rparr>)
      (define_classes [board_class\<lparr>cd_members := [(''internal'', [NoCache])]\<rparr>]) (Some sample_server))))) ''boards.internal'' \<noteq> None"
  by code_simp

end
