(* ===== verification/Cookies.thy ===== *)
theory Cookies
  imports ClientContext Sessions Cli
begin

text \<open>
  The refresh token's cookie (\<open>src/auth/server/cookie-utils.ts\<close>), device information
  (\<open>device-info.ts\<close>) and the access token helpers (\<open>jwt-utils.ts\<close>). A token may hold any character, so the
  text here is a list of code points, a lone surrogate being a code point of its own; the language's
  \<open>encodeURIComponent\<close> and \<open>decodeURIComponent\<close> are defined on it. The parser of user agents and the JWT
  package are parameters.
\<close>

section \<open>Percent encoding\<close>

type_synonym utext = "nat list"

abbreviation lit :: "string \<Rightarrow> utext" where
  "lit s \<equiv> map of_char s"

definition surrogate :: "nat \<Rightarrow> bool" where
  "surrogate c \<longleftrightarrow> 0xD800 \<le> c \<and> c < 0xE000"

definition scalar :: "nat \<Rightarrow> bool" where
  "scalar c \<longleftrightarrow> c < 0x110000 \<and> \<not> surrogate c"

definition unescaped :: "nat \<Rightarrow> bool" where
  "unescaped c \<longleftrightarrow> 48 \<le> c \<and> c \<le> 57 \<or> 65 \<le> c \<and> c \<le> 90 \<or> 97 \<le> c \<and> c \<le> 122 \<or>
     c \<in> {45, 95, 46, 33, 126, 42, 39, 40, 41}"

definition utf8 :: "nat \<Rightarrow> nat list" where
  "utf8 c =
     (if c < 0x80 then [c]
      else if c < 0x800 then [0xC0 + c div 64, 0x80 + c mod 64]
      else if c < 0x10000 then [0xE0 + c div 4096, 0x80 + c div 64 mod 64, 0x80 + c mod 64]
      else [0xF0 + c div 262144, 0x80 + c div 4096 mod 64, 0x80 + c div 64 mod 64, 0x80 + c mod 64])"

definition upper_hex :: "nat \<Rightarrow> nat" where
  "upper_hex d = (if d < 10 then 48 + d else 55 + d)"

definition percent_byte :: "nat \<Rightarrow> utext" where
  "percent_byte b = [37, upper_hex (b div 16), upper_hex (b mod 16)]"

text \<open>\<open>None\<close> is the \<open>URIError\<close> of a lone surrogate.\<close>

fun encodeURIComponent :: "utext \<Rightarrow> utext option" where
  "encodeURIComponent [] = Some []"
| "encodeURIComponent (c # cs) =
     (if surrogate c then None
      else map_option (\<lambda>rest. (if unescaped c then [c] else concat (map percent_byte (utf8 c))) @ rest) (encodeURIComponent cs))"

definition hex_value :: "nat \<Rightarrow> nat option" where
  "hex_value c =
     (if 48 \<le> c \<and> c \<le> 57 then Some (c - 48)
      else if 65 \<le> c \<and> c \<le> 70 then Some (c - 55)
      else if 97 \<le> c \<and> c \<le> 102 then Some (c - 87)
      else None)"

text \<open>One escape \<open>%XX\<close> at the head of a text.\<close>

fun read_percent :: "utext \<Rightarrow> (nat \<times> utext) option" where
  "read_percent (p # x # y # rest) =
     (if p \<noteq> 37 then None
      else (case (hex_value x, hex_value y) of (Some a, Some b) \<Rightarrow> Some (16 * a + b, rest) | _ \<Rightarrow> None))"
| "read_percent _ = None"

text \<open>\<open>n\<close> continuation bytes of a sequence that has read the bits \<open>acc\<close>.\<close>

fun read_continuation :: "nat \<Rightarrow> nat \<Rightarrow> utext \<Rightarrow> (nat \<times> utext) option" where
  "read_continuation 0 acc s = Some (acc, s)"
| "read_continuation (Suc n) acc s =
     (case read_percent s of
        Some (b, rest) \<Rightarrow> if 0x80 \<le> b \<and> b < 0xC0 then read_continuation n (acc * 64 + (b - 0x80)) rest else None
      | None \<Rightarrow> None)"

definition read_escape :: "utext \<Rightarrow> (nat \<times> utext) option" where
  "read_escape s =
     (case read_percent s of
        None \<Rightarrow> None
      | Some (b, rest) \<Rightarrow>
          (let check = (\<lambda>low r. case r of Some (c, rest) \<Rightarrow> if low \<le> c \<and> scalar c then Some (c, rest) else None | None \<Rightarrow> None) in
           if b < 0x80 then Some (b, rest)
           else if b < 0xC0 then None
           else if b < 0xE0 then check 0x80 (read_continuation 1 (b - 0xC0) rest)
           else if b < 0xF0 then check 0x800 (read_continuation 2 (b - 0xE0) rest)
           else if b < 0xF8 then check 0x10000 (read_continuation 3 (b - 0xF0) rest)
           else None))"

lemma read_percent_shorter: "read_percent s = Some (b, rest) \<Longrightarrow> length rest < length s"
  by (induction s rule: read_percent.induct) (auto split: if_splits option.splits)

lemma read_continuation_shorter: "read_continuation n acc s = Some (c, rest) \<Longrightarrow> length rest \<le> length s"
  by (induction n acc s rule: read_continuation.induct) (fastforce split: if_splits option.splits dest: read_percent_shorter)+

lemma read_escape_shorter: "read_escape s = Some (c, rest) \<Longrightarrow> length rest < length s"
  by (auto simp: read_escape_def Let_def split: option.splits if_splits dest!: read_percent_shorter read_continuation_shorter)

function decodeURIComponent :: "utext \<Rightarrow> utext option" where
  "decodeURIComponent [] = Some []"
| "decodeURIComponent (c # cs) =
     (if c \<noteq> 37 then map_option (Cons c) (decodeURIComponent cs)
      else (case read_escape (c # cs) of
              None \<Rightarrow> None
            | Some (d, rest) \<Rightarrow> map_option (Cons d) (decodeURIComponent rest)))"
  by pat_completeness auto
termination by (relation "measure length") (auto dest: read_escape_shorter)

section \<open>Cookies\<close>

record cookie_options =
  ck_name :: utext
  ck_maxAgeDays :: int
  ck_secure :: "bool option"
  ck_sameSite :: "string option"
  ck_path :: "utext option"

fun join_parts :: "utext list \<Rightarrow> utext" where
  "join_parts [] = []"
| "join_parts [p] = p"
| "join_parts (p # q # ps) = p @ lit ''; '' @ join_parts (q # ps)"

text \<open>\<open>production\<close>: the process runs with \<open>NODE_ENV\<close> set to production.\<close>

definition cookie_attributes :: "bool \<Rightarrow> string \<Rightarrow> cookie_options \<Rightarrow> utext list" where
  "cookie_attributes production maxAge options =
     (let secure = (case ck_secure options of None \<Rightarrow> production | Some b \<Rightarrow> b);
          sameSite = (case ck_sameSite options of None \<Rightarrow> ''Lax'' | Some s \<Rightarrow> s);
          path = (case ck_path options of None \<Rightarrow> lit ''/'' | Some p \<Rightarrow> p) in
      [lit ''HttpOnly'', lit ''Path='' @ path, lit (''Max-Age='' @ maxAge), lit (''SameSite='' @ sameSite)] @
      (if secure then [lit ''Secure''] else []))"

text \<open>The value of the \<open>Set-Cookie\<close> header.\<close>

definition setRefreshTokenCookie :: "host \<Rightarrow> bool \<Rightarrow> utext \<Rightarrow> cookie_options \<Rightarrow> utext option" where
  "setRefreshTokenCookie h production token options =
     (let maxAge = js_string h (jint (ck_maxAgeDays options * 24 * 60 * 60)) in
      map_option (\<lambda>encodedToken. join_parts ((ck_name options @ lit ''='' @ encodedToken) # cookie_attributes production maxAge options))
        (encodeURIComponent token))"

definition clearRefreshTokenCookie :: "bool \<Rightarrow> cookie_options \<Rightarrow> utext" where
  "clearRefreshTokenCookie production options = join_parts ((ck_name options @ lit ''='') # cookie_attributes production ''0'' options)"

definition regex_space :: "nat \<Rightarrow> bool" where
  "regex_space c \<longleftrightarrow> c \<in> {9, 10, 11, 12, 13, 32, 0xA0, 0x1680, 0x2028, 0x2029, 0x202F, 0x205F, 0x3000, 0xFEFF} \<or> 0x2000 \<le> c \<and> c \<le> 0x200A"

text \<open>The match of \<open>name=([^;]*)\<close> at the head of a text; spaces before it may be skipped after a semicolon.\<close>

definition match_pair :: "utext \<Rightarrow> utext \<Rightarrow> utext option" where
  "match_pair name s =
     (if take (length name + 1) s = name @ lit ''='' then Some (takeWhile (\<lambda>c. c \<noteq> 59) (drop (length name + 1) s)) else None)"

fun match_spaced :: "utext \<Rightarrow> utext \<Rightarrow> utext option" where
  "match_spaced name [] = match_pair name []"
| "match_spaced name (c # s) =
     (if regex_space c
      then (case match_spaced name s of Some v \<Rightarrow> Some v | None \<Rightarrow> match_pair name (c # s))
      else match_pair name (c # s))"

fun match_later :: "utext \<Rightarrow> utext \<Rightarrow> utext option" where
  "match_later name [] = None"
| "match_later name (c # s) =
     (if c = 59 then (case match_spaced name s of Some v \<Rightarrow> Some v | None \<Rightarrow> match_later name s) else match_later name s)"

definition match_cookie :: "utext \<Rightarrow> utext \<Rightarrow> utext option" where
  "match_cookie name header = (case match_pair name header of Some v \<Rightarrow> Some v | None \<Rightarrow> match_later name header)"

record cookie_request =
  cr_cookies :: "(utext \<times> utext) list option"
  cr_header :: "utext option"

definition getRefreshTokenFromRequest :: "cookie_request \<Rightarrow> utext \<Rightarrow> utext option" where
  "getRefreshTokenFromRequest req cookieName =
     (let parsed = (case cr_cookies req of None \<Rightarrow> None | Some cs \<Rightarrow> map_of cs cookieName);
          fallback =
            (case cr_header req of
               None \<Rightarrow> None
             | Some cookieHeader \<Rightarrow>
                 if cookieHeader = [] then None
                 else (case match_cookie cookieName cookieHeader of
                         None \<Rightarrow> None
                       | Some value \<Rightarrow> Some (case decodeURIComponent value of Some v \<Rightarrow> v | None \<Rightarrow> value)))
      in case parsed of Some v \<Rightarrow> if v \<noteq> [] then Some v else fallback | None \<Rightarrow> fallback)"

section \<open>Device information\<close>

record ua_result =
  ua_browserName :: "string option"
  ua_browserVersion :: "string option"
  ua_osName :: "string option"
  ua_osVersion :: "string option"
  ua_deviceType :: "string option"

record device_request =
  dr_userAgent :: "string option"
  dr_forwardedFor :: "string option"
  dr_remoteAddress :: "string option"
  dr_ip :: "string option"

record device_info =
  di_ip :: "string option"
  di_userAgent :: "string option"
  di_browser :: "string option"
  di_os :: "string option"
  di_deviceType :: "string option"

definition js_or :: "string option \<Rightarrow> string option \<Rightarrow> string option" where
  "js_or a b = (case a of Some v \<Rightarrow> if v \<noteq> [] then Some v else b | None \<Rightarrow> b)"

definition getIpFromRequest :: "device_request \<Rightarrow> string option" where
  "getIpFromRequest req = js_or (dr_forwardedFor req) (js_or (dr_remoteAddress req) (dr_ip req))"

definition mapDeviceType :: "string option \<Rightarrow> string" where
  "mapDeviceType type =
     (case js_or type None of
        None \<Rightarrow> ''desktop''
      | Some t \<Rightarrow> if t = ''mobile'' then ''mobile'' else if t = ''tablet'' then ''tablet'' else ''unknown'')"

definition versioned :: "string option \<Rightarrow> string option \<Rightarrow> string option" where
  "versioned name version =
     map_option (\<lambda>n. js_trim (n @ '' '' @ (case js_or version None of None \<Rightarrow> [] | Some v \<Rightarrow> v))) (js_or name None)"

definition parseDeviceInfo :: "(string \<Rightarrow> ua_result) \<Rightarrow> device_request option \<Rightarrow> device_info" where
  "parseDeviceInfo parser request =
     (let nothing = \<lparr>di_ip = None, di_userAgent = None, di_browser = None, di_os = None, di_deviceType = None\<rparr> in
      case request of
        None \<Rightarrow> nothing
      | Some req \<Rightarrow>
          (let ip = getIpFromRequest req in
           case js_or (dr_userAgent req) None of
             None \<Rightarrow> nothing\<lparr>di_ip := ip\<rparr>
           | Some uaString \<Rightarrow>
               (let result = parser uaString in
                \<lparr>di_ip = ip, di_userAgent = Some uaString,
                 di_browser = versioned (ua_browserName result) (ua_browserVersion result),
                 di_os = versioned (ua_osName result) (ua_osVersion result),
                 di_deviceType = Some (mapDeviceType (ua_deviceType result))\<rparr>)))"

section \<open>Access tokens\<close>

text \<open>The JWT package: verification against a secret, a list of algorithms and an age, and plain decoding.\<close>

record jwt_package =
  jwt_sign :: signer
  jwt_verify :: "string \<Rightarrow> string \<Rightarrow> string list \<Rightarrow> string \<Rightarrow> access_payload js"
  jwt_decode :: "string \<Rightarrow> access_payload option js"

definition ascii_lower :: "char \<Rightarrow> char" where
  "ascii_lower c = (let n = (of_char c :: nat) in if 65 \<le> n \<and> n \<le> 90 then char_of (n + 32) else c)"

text \<open>\<open>token.replace(/^Bearer\s+/i, '')\<close>\<close>

definition clean_token :: "string \<Rightarrow> string" where
  "clean_token token =
     (let rest = drop 6 token in
      if map ascii_lower (take 6 token) = ''bearer'' \<and> rest \<noteq> [] \<and> js_space (hd rest) then dropWhile js_space rest else token)"

definition verifyAccessToken :: "host \<Rightarrow> jwt_package \<Rightarrow> string \<Rightarrow> auth_config \<Rightarrow> access_payload option" where
  "verifyAccessToken h jwt token config =
     (case jwt_verify jwt (clean_token token) (ac_secret config) [case ac_algorithm config of None \<Rightarrow> ''HS256'' | Some a \<Rightarrow> a]
         (js_string h (jint (config_or (ac_accessTokenExpiryMinutes config) 15)) @ ''m'') of
        Inl _ \<Rightarrow> None
      | Inr payload \<Rightarrow> Some payload)"

definition decodeToken :: "jwt_package \<Rightarrow> string \<Rightarrow> access_payload option" where
  "decodeToken jwt token = (case jwt_decode jwt (clean_token token) of Inl _ \<Rightarrow> None | Inr payload \<Rightarrow> payload)"

text \<open>The scheme of an \<open>Authorization\<close> header, in any case and with any spaces, is ignored.\<close>

lemma bearer_ignored:
  assumes "map ascii_lower scheme = ''bearer''" and "spaces \<noteq> []" and "\<forall>c \<in> set spaces. js_space c" and "clean_token token = token"
    and "token = [] \<or> \<not> js_space (hd token)"
  shows "verifyAccessToken h jwt (scheme @ spaces @ token) config = verifyAccessToken h jwt token config"
proof -
  have l: "length scheme = 6" using arg_cong [OF assms(1), of length] by simp
  have "dropWhile js_space (spaces @ token) = dropWhile js_space token" using assms(3) by (simp add: dropWhile_append2)
  also have "\<dots> = token" using assms(5) by (rule dropWhile_fixed)
  finally have "clean_token (scheme @ spaces @ token) = token"
    using assms(1-3) l by (simp add: clean_token_def hd_in_set)
  then show ?thesis using assms(4) by (simp add: verifyAccessToken_def)
qed

text \<open>
  A pair of tokens that the session manager issues: its access token verifies to the payload it was made
  from, with or without the scheme, as long as the package verifies what it signed for that secret,
  algorithm and age.
\<close>

lemma issued_token_verifies:
  assumes "\<And>payload. jwt_verify jwt (jwt_sign jwt payload secret alg) secret [alg] age = Inr payload"
    and "\<And>payload. clean_token (jwt_sign jwt payload secret alg) = jwt_sign jwt payload secret alg"
    and "secret = ac_secret config" and "alg = (case ac_algorithm config of None \<Rightarrow> ''HS256'' | Some a \<Rightarrow> a)"
    and "age = js_string h (jint (config_or (ac_accessTokenExpiryMinutes config) 15)) @ ''m''"
  shows "\<exists>payload. verifyAccessToken h jwt (tp_accessToken (buildTokenPair (jwt_sign jwt) config now refreshToken userId sessionId)) config = Some payload \<and>
    ap_userId payload = userId \<and> ap_sessionId payload = sessionId \<and>
    ap_exp payload = tp_exp (buildTokenPair (jwt_sign jwt) config now refreshToken userId sessionId)"
  using assms by (simp add: verifyAccessToken_def buildTokenPair_def signAccessToken_def Let_def)

section \<open>Decoding inverts encoding\<close>

lemma hex_value_digit: "d < 16 \<Longrightarrow> hex_value (upper_hex d) = Some d"
  by (auto simp: hex_value_def upper_hex_def)

lemma read_percent_byte: "b < 256 \<Longrightarrow> read_percent (percent_byte b @ rest) = Some (b, rest)"
  by (simp add: percent_byte_def hex_value_digit)

lemma read_continuation_byte:
  "d < 64 \<Longrightarrow> read_continuation (Suc n) acc (percent_byte (128 + d) @ rest) = read_continuation n (acc * 64 + d) rest"
  by (simp add: read_percent_byte)

lemmas read_utf8 = utf8_def read_escape_def read_percent_byte read_continuation_byte numeral_2_eq_2 numeral_3_eq_3

lemma sixes: "(c div 4096 * 64 + c div 64 mod 64) * 64 + c mod 64 = (c :: nat)"
  "((c div 262144 * 64 + c div 4096 mod 64) * 64 + c div 64 mod 64) * 64 + c mod 64 = (c :: nat)"
proof -
  have q: "c div 4096 = c div 64 div 64" "c div 262144 = c div 64 div 64 div 64" by (simp_all add: div_mult2_eq [symmetric])
  show "(c div 4096 * 64 + c div 64 mod 64) * 64 + c mod 64 = c"
    "((c div 262144 * 64 + c div 4096 mod 64) * 64 + c div 64 mod 64) * 64 + c mod 64 = c"
    unfolding q by (simp_all only: div_mult_mod_eq)
qed

lemma sixes_flat: "4096 * (c div 4096) + c div 64 mod 64 * 64 + c mod 64 = (c :: nat)"
  "262144 * (c div 262144) + 4096 * (c div 4096 mod 64) + c div 64 mod 64 * 64 + c mod 64 = (c :: nat)"
  using sixes [of c] by simp_all

lemma read_escape_utf8:
  assumes "scalar c"
  shows "read_escape (concat (map percent_byte (utf8 c)) @ rest) = Some (c, rest)"
proof -
  have "c < 0x110000" using assms by (simp add: scalar_def)
  then consider "c < 0x80" | "0x80 \<le> c" "c < 0x800" | "0x800 \<le> c" "c < 0x10000" | "0x10000 \<le> c" "c < 0x110000"
    by linarith
  then show ?thesis
  proof cases
    case 1
    then show ?thesis by (simp add: read_utf8)
  next
    case 2
    have d: "c div 64 < 32" "c div 64 * 64 + c mod 64 = c" using 2 by (auto simp: less_mult_imp_div_less)
    show ?thesis using 2 assms by (simp add: read_utf8 d del: read_continuation.simps(2))
  next
    case 3
    have d: "c div 4096 < 16" using 3 by (simp add: less_mult_imp_div_less)
    show ?thesis using 3 assms by (simp add: read_utf8 d sixes_flat del: read_continuation.simps(2))
  next
    case 4
    have d: "c div 262144 < 8" using 4 by (simp add: less_mult_imp_div_less)
    show ?thesis using 4 assms by (simp add: read_utf8 d sixes_flat del: read_continuation.simps(2))
  qed
qed


lemma percent_head: "utf8 c \<noteq> [] \<and> concat (map percent_byte (utf8 c)) = 37 # tl (concat (map percent_byte (utf8 c)))"
  by (simp add: utf8_def percent_byte_def)

lemma upper_hex_unescaped: "d < 16 \<Longrightarrow> unescaped (upper_hex d)"
  by (auto simp: upper_hex_def unescaped_def)

lemma utf8_bytes: "scalar c \<Longrightarrow> b \<in> set (utf8 c) \<Longrightarrow> b < 256"
  by (auto simp: utf8_def scalar_def less_mult_imp_div_less split: if_splits)

lemma percent_unescaped: "scalar c \<Longrightarrow> x \<in> set (concat (map percent_byte (utf8 c))) \<Longrightarrow> unescaped x \<or> x = 37"
proof -
  assume c: "scalar c" and "x \<in> set (concat (map percent_byte (utf8 c)))"
  then obtain b where b: "b \<in> set (utf8 c)" "x \<in> set (percent_byte b)" by auto
  then have "b < 256" using utf8_bytes [OF c] by blast
  then show ?thesis using b(2) by (auto simp: percent_byte_def upper_hex_unescaped less_mult_imp_div_less)
qed

lemma uri_decode_encode:
  assumes "\<forall>c \<in> set t. scalar c"
  shows "\<exists>e. encodeURIComponent t = Some e \<and> decodeURIComponent e = Some t \<and> (\<forall>c \<in> set e. unescaped c \<or> c = 37)"
  using assms
proof (induction t)
  case (Cons c t)
  then obtain e where e: "encodeURIComponent t = Some e" "decodeURIComponent e = Some t" "\<forall>c \<in> set e. unescaped c \<or> c = 37" by auto
  have c: "scalar c" "\<not> surrogate c" using Cons.prems by (auto simp: scalar_def)
  show ?case
  proof (cases "unescaped c")
    case True
    then have "c \<noteq> 37" by (auto simp: unescaped_def)
    then show ?thesis using e c True by simp
  next
    case False
    let ?p = "concat (map percent_byte (utf8 c))"
    have "?p @ e = 37 # (tl ?p @ e)" using percent_head [of c] by (metis append_Cons)
    then have "decodeURIComponent (?p @ e) = (case read_escape (?p @ e) of None \<Rightarrow> None | Some (d, rest) \<Rightarrow> map_option (Cons d) (decodeURIComponent rest))"
      by (metis decodeURIComponent.simps(2))
    then have d: "decodeURIComponent (?p @ e) = Some (c # t)" by (simp add: read_escape_utf8 [OF c(1)] e)
    show ?thesis using e c False d percent_unescaped [OF c(1)] by auto
  qed
qed simp

section \<open>Finding the cookie in the header\<close>

definition cookie_pair :: "utext \<times> utext \<Rightarrow> utext" where
  "cookie_pair p = fst p @ 61 # snd p"

text \<open>A name as cookies have it: no separators, no equals sign, no space; a value without separator.\<close>

definition cookie_name :: "utext \<Rightarrow> bool" where
  "cookie_name n \<longleftrightarrow> (\<forall>c \<in> set n. c \<noteq> 59 \<and> c \<noteq> 61 \<and> \<not> regex_space c)"

definition cookie_ok :: "utext \<times> utext \<Rightarrow> bool" where
  "cookie_ok p \<longleftrightarrow> cookie_name (fst p) \<and> 59 \<notin> set (snd p)"

definition ends_value :: "utext \<Rightarrow> bool" where
  "ends_value r \<longleftrightarrow> r = [] \<or> hd r = 59"

lemma takeWhile_value: "59 \<notin> set v \<Longrightarrow> ends_value r \<Longrightarrow> takeWhile (\<lambda>c. c \<noteq> 59) (v @ r) = v"
  by (cases r) (auto simp: ends_value_def takeWhile_tail)

lemma match_pair_iff:
  assumes "cookie_name name" and "cookie_name n"
  shows "match_pair name (n @ 61 # r) = (if n = name then Some (takeWhile (\<lambda>c. c \<noteq> 59) r) else None)"
proof -
  have name: "61 \<notin> set name" "61 \<notin> set n" using assms by (auto simp: cookie_name_def)
  have "n = name" if "take (length name + 1) (n @ 61 # r) = name @ [61]"
  proof -
    have "n @ 61 # r = name @ 61 # drop (length name + 1) (n @ 61 # r)" using that append_take_drop_id [of "length name + 1" "n @ 61 # r"] by simp
    moreover have "takeWhile (\<lambda>c. c \<noteq> 61) (x @ 61 # y) = x" if "61 \<notin> set x" for x y :: utext
      using that by (induction x) auto
    ultimately show ?thesis using name by metis
  qed
  then show ?thesis by (auto simp: match_pair_def)
qed

lemma match_spaced_pair:
  assumes "cookie_name name" and "cookie_name n"
  shows "match_spaced name (32 # n @ 61 # r) = match_pair name (n @ 61 # r)"
proof -
  have sp: "\<not> regex_space 61" "regex_space 32" by (simp_all add: regex_space_def)
  have none: "match_pair name (32 # x) = None" for x
    using assms(1) sp(2) by (cases name) (auto simp: match_pair_def cookie_name_def)
  have "match_spaced name (n @ 61 # r) = match_pair name (n @ 61 # r)"
    using assms(2) sp(1) by (cases n) (auto simp: cookie_name_def)
  then show ?thesis by (simp add: sp none split: option.splits)
qed

lemma match_later_skip: "59 \<notin> set s \<Longrightarrow> match_later name (s @ r) = match_later name r"
  by (induction s) auto

definition further :: "(utext \<times> utext) list \<Rightarrow> utext" where
  "further ps = concat (map (\<lambda>p. 59 # 32 # cookie_pair p) ps)"

lemma join_parts_further: "join_parts (map cookie_pair (p # ps)) = cookie_pair p @ further ps"
  by (induction ps arbitrary: p) (auto simp: further_def)

lemma further_ends: "ends_value (further ps)"
  by (cases ps) (simp_all add: further_def ends_value_def)

lemma match_later_further: "cookie_name name \<Longrightarrow> \<forall>p \<in> set ps. cookie_ok p \<Longrightarrow> match_later name (further ps) = map_of ps name"
proof (induction ps)
  case Nil
  then show ?case by (simp add: further_def)
next
  case (Cons p ps)
  obtain n v where p: "p = (n, v)" by fastforce
  have ok: "cookie_name n" "59 \<notin> set v" "59 \<notin> set n" using Cons.prems(2) by (auto simp: p cookie_ok_def cookie_name_def)
  have f: "further (p # ps) = 59 # 32 # n @ 61 # v @ further ps" by (simp add: further_def cookie_pair_def p)
  have "match_later name (32 # n @ 61 # v @ further ps) = map_of ps name"
    using Cons ok match_later_skip [of "32 # n @ 61 # v" name "further ps"] by simp
  then show ?case
    using Cons.prems(1) ok takeWhile_value [OF ok(2) further_ends, of ps]
    unfolding f by (simp add: match_spaced_pair match_pair_iff p del: match_spaced.simps)
qed

lemma match_cookie_pairs:
  assumes "cookie_name name" and "\<forall>p \<in> set ps. cookie_ok p" and "ps \<noteq> []"
  shows "match_cookie name (join_parts (map cookie_pair ps)) = map_of ps name"
proof -
  obtain n v rest where ps: "ps = (n, v) # rest" using assms(3) by (cases ps) auto
  have ok: "cookie_name n" "59 \<notin> set v" "59 \<notin> set n" using assms(2) by (auto simp: ps cookie_ok_def cookie_name_def)
  have f: "join_parts (map cookie_pair ps) = n @ 61 # v @ further rest"
    unfolding ps join_parts_further by (simp add: cookie_pair_def)
  have "match_later name (n @ 61 # v @ further rest) = map_of rest name"
    using match_later_skip [of "n @ 61 # v" name "further rest"] match_later_further [OF assms(1), of rest] assms(2) ok by (simp add: ps)
  then show ?thesis using ok takeWhile_value [OF ok(2) further_ends, of rest]
    unfolding match_cookie_def f by (simp add: match_pair_iff [OF assms(1)] ps)
qed

lemma set_cookie_pair:
  assumes "encodeURIComponent token = Some e" and "cookie_ok (ck_name options, e)"
  shows "\<exists>header. setRefreshTokenCookie h production token options = Some header \<and> takeWhile (\<lambda>c. c \<noteq> 59) header = cookie_pair (ck_name options, e)"
proof -
  obtain a as where a: "cookie_attributes production m options = a m # as m" for m by (simp add: cookie_attributes_def Let_def)
  have "59 \<notin> set (cookie_pair (ck_name options, e))" using assms(2) by (auto simp: cookie_ok_def cookie_name_def cookie_pair_def)
  then have "takeWhile (\<lambda>c. c \<noteq> 59) (cookie_pair (ck_name options, e) @ 59 # x) = cookie_pair (ck_name options, e)" for x
    by (rule takeWhile_value) (simp add: ends_value_def)
  then have "takeWhile (\<lambda>c. c \<noteq> 59) (ck_name options @ 61 # e @ 59 # x) = ck_name options @ 61 # e" for x by (simp add: cookie_pair_def)
  then show ?thesis using assms(1) by (simp add: setRefreshTokenCookie_def a cookie_pair_def Let_def)
qed

text \<open>
  C18: The refresh token survives its cookie. Whatever characters the token has (lone surrogates apart), the
  pair at the head of the \<open>Set-Cookie\<close> header, sent back by the browser between any other cookies, none
  before it of the same name, is found in the request and decodes to the same token.
\<close>

theorem refresh_cookie_roundtrip:
  assumes "\<forall>c \<in> set token. scalar c" and "cookie_name (ck_name options)"
    and "\<forall>p \<in> set (before @ after). cookie_ok p" and "ck_name options \<notin> fst ` set before"
  shows "\<exists>header v. setRefreshTokenCookie h production token options = Some header \<and>
    takeWhile (\<lambda>c. c \<noteq> 59) header = cookie_pair (ck_name options, v) \<and>
    getRefreshTokenFromRequest \<lparr>cr_cookies = None, cr_header = Some (join_parts (map cookie_pair (before @ (ck_name options, v) # after)))\<rparr>
      (ck_name options) = Some token"
proof -
  obtain v where v: "encodeURIComponent token = Some v" "decodeURIComponent v = Some token" "\<forall>c \<in> set v. unescaped c \<or> c = 37"
    using uri_decode_encode [OF assms(1)] by blast
  then have ok: "cookie_ok (ck_name options, v)" using assms(2) by (auto simp: cookie_ok_def unescaped_def)
  obtain header where header: "setRefreshTokenCookie h production token options = Some header"
    "takeWhile (\<lambda>c. c \<noteq> 59) header = cookie_pair (ck_name options, v)" using set_cookie_pair [OF v(1) ok] by blast
  let ?ps = "before @ (ck_name options, v) # after"
  have "match_cookie (ck_name options) (join_parts (map cookie_pair ?ps)) = map_of ?ps (ck_name options)"
    using assms(2,3) ok by (intro match_cookie_pairs) auto
  also have "\<dots> = Some v" using assms(4) by (simp add: map_add_def map_of_eq_None_iff [THEN iffD2])
  finally have m: "match_cookie (ck_name options) (join_parts (map cookie_pair ?ps)) = Some v" .
  obtain p ps where "?ps = p # ps" by (cases before) auto
  then have "join_parts (map cookie_pair ?ps) \<noteq> []" using join_parts_further [of p ps] by (simp only:) (simp add: cookie_pair_def)
  then have "getRefreshTokenFromRequest \<lparr>cr_cookies = None, cr_header = Some (join_parts (map cookie_pair ?ps))\<rparr> (ck_name options) = Some token"
    using m v(2) by (simp add: getRefreshTokenFromRequest_def)
  then show ?thesis using header by blast
qed

theorem refresh_cookie_roundtrip_witness:
  "\<exists>header v. setRefreshTokenCookie plain_host True (0x1F600 # lit ''a;b=c'') \<lparr>ck_name = lit ''rt'', ck_maxAgeDays = 30, ck_secure = None, ck_sameSite = None, ck_path = None\<rparr> = Some header \<and>
    takeWhile (\<lambda>c. c \<noteq> 59) header = cookie_pair (lit ''rt'', v) \<and>
    getRefreshTokenFromRequest \<lparr>cr_cookies = None, cr_header = Some (join_parts (map cookie_pair ([(lit ''xrt'', lit ''1'')] @ (lit ''rt'', v) # [(lit ''rt'', lit ''2'')])))\<rparr>
      (lit ''rt'') = Some (0x1F600 # lit ''a;b=c'')"
  using refresh_cookie_roundtrip [of "0x1F600 # lit ''a;b=c''"
      "\<lparr>ck_name = lit ''rt'', ck_maxAgeDays = 30, ck_secure = None, ck_sameSite = None, ck_path = None\<rparr>"
      "[(lit ''xrt'', lit ''1'')]" "[(lit ''rt'', lit ''2'')]" plain_host True]
  by (simp add: scalar_def surrogate_def cookie_name_def cookie_ok_def regex_space_def)

end
