(* ===== verification/Handoff.thy ===== *)
theory Handoff
  imports JsValue "HOL-Library.Multiset"
begin

text \<open>
  The handoff of a login from a browser to a native application (\<open>src/auth/server/native-handoff.ts\<close>):
  short-lived codes, bound to a redirect URI and a PKCE challenge, that can be exchanged once. The store
  of grants belongs to the application: its two operations are parameters and \<open>grant_store\<close> states the
  contract its interface documents. The random code, the digests and the platform's URL parser are
  parameters too.
\<close>

record 'v grant =
  gr_codeHash :: string
  gr_challenge :: string
  gr_redirectUri :: string
  gr_expiresAt :: int
  gr_value :: 'v

record grant_consume =
  gc_codeHash :: string
  gc_challenge :: string
  gc_redirectUri :: string
  gc_now :: int

record ('v, 's) grant_operations =
  go_create :: "'v grant \<Rightarrow> 's \<Rightarrow> 's"
  go_consume :: "grant_consume \<Rightarrow> 's \<Rightarrow> 'v option \<times> 's"

record url_parts =
  ur_protocol :: string
  ur_username :: string
  ur_password :: string
  ur_search :: string
  ur_hash :: string

record platform =
  pf_url :: "string \<Rightarrow> url_parts option"
  pf_callback :: "string \<Rightarrow> string \<Rightarrow> string \<Rightarrow> string"
  pf_sha256_hex :: "string \<Rightarrow> string"
  pf_sha256_base64url :: "string \<Rightarrow> string"

datatype handoff_error =
    InvalidUrl string
  | RedirectNotReverseDomain
  | UnregisteredRedirect
  | InvalidChallenge
  | InvalidState
  | InvalidOrExpiredCode

definition GRANT_LIFETIME_MS :: int where
  "GRANT_LIFETIME_MS = 120000"

definition code_char :: "char \<Rightarrow> bool" where
  "code_char c \<longleftrightarrow> (let n = (of_char c :: nat) in
     65 \<le> n \<and> n \<le> 90 \<or> 97 \<le> n \<and> n \<le> 122 \<or> 48 \<le> n \<and> n \<le> 57 \<or> c = CHR ''_'' \<or> c = CHR ''-'')"

definition CODE_PATTERN :: "string \<Rightarrow> bool" where
  "CODE_PATTERN s \<longleftrightarrow> length s = 43 \<and> list_all code_char s"

definition VERIFIER_PATTERN :: "string \<Rightarrow> bool" where
  "VERIFIER_PATTERN s \<longleftrightarrow> 43 \<le> length s \<and> length s \<le> 128 \<and> list_all (\<lambda>c. code_char c \<or> c = CHR ''.'' \<or> c = CHR ''~'') s"

record handoff =
  ho_redirectUris :: "string list"

fun check_redirects :: "platform \<Rightarrow> string list \<Rightarrow> handoff_error option" where
  "check_redirects pf [] = None"
| "check_redirects pf (uri # rest) =
     (case pf_url pf uri of
        None \<Rightarrow> Some (InvalidUrl uri)
      | Some url \<Rightarrow>
          if CHR ''.'' \<notin> set (ur_protocol url) \<or> ur_username url \<noteq> [] \<or> ur_password url \<noteq> [] \<or> ur_search url \<noteq> [] \<or> ur_hash url \<noteq> []
          then Some RedirectNotReverseDomain
          else check_redirects pf rest)"

definition new_handoff :: "platform \<Rightarrow> string list \<Rightarrow> handoff_error + handoff" where
  "new_handoff pf redirectUris =
     (let uris = remdups redirectUris in
      case check_redirects pf uris of Some err \<Rightarrow> Inl err | None \<Rightarrow> Inr \<lparr>ho_redirectUris = uris\<rparr>)"

definition validateRedirect :: "handoff \<Rightarrow> string \<Rightarrow> handoff_error option" where
  "validateRedirect ho redirectUri = (if redirectUri \<in> set (ho_redirectUris ho) then None else Some UnregisteredRedirect)"

record 'v authorize_request =
  ar_value :: 'v
  ar_challenge :: string
  ar_redirectUri :: string
  ar_state :: string

record exchange_request =
  er_code :: string
  er_verifier :: string
  er_redirectUri :: string

definition new_grant :: "platform \<Rightarrow> 'v authorize_request \<Rightarrow> string \<Rightarrow> int \<Rightarrow> 'v grant" where
  "new_grant pf request code now =
     \<lparr>gr_codeHash = pf_sha256_hex pf code, gr_challenge = ar_challenge request, gr_redirectUri = ar_redirectUri request,
      gr_expiresAt = now + GRANT_LIFETIME_MS, gr_value = ar_value request\<rparr>"

text \<open>\<open>code\<close>: the text of 32 random bytes.\<close>

definition authorize :: "platform \<Rightarrow> ('v, 's) grant_operations \<Rightarrow> handoff \<Rightarrow> 'v authorize_request \<Rightarrow> string \<Rightarrow> int \<Rightarrow> 's \<Rightarrow> (handoff_error + string) \<times> 's" where
  "authorize pf ops ho request code now s =
     (case validateRedirect ho (ar_redirectUri request) of
        Some err \<Rightarrow> (Inl err, s)
      | None \<Rightarrow>
          if \<not> CODE_PATTERN (ar_challenge request) then (Inl InvalidChallenge, s)
          else if ar_state request = [] \<or> length (ar_state request) > 512 then (Inl InvalidState, s)
          else (Inr (pf_callback pf (ar_redirectUri request) code (ar_state request)), go_create ops (new_grant pf request code now) s))"

definition consume_request :: "platform \<Rightarrow> exchange_request \<Rightarrow> int \<Rightarrow> grant_consume" where
  "consume_request pf request now =
     \<lparr>gc_codeHash = pf_sha256_hex pf (er_code request), gc_challenge = pf_sha256_base64url pf (er_verifier request),
      gc_redirectUri = er_redirectUri request, gc_now = now\<rparr>"

definition exchange :: "platform \<Rightarrow> ('v, 's) grant_operations \<Rightarrow> handoff \<Rightarrow> exchange_request \<Rightarrow> int \<Rightarrow> 's \<Rightarrow> (handoff_error + 'v) \<times> 's" where
  "exchange pf ops ho request now s =
     (case validateRedirect ho (er_redirectUri request) of
        Some err \<Rightarrow> (Inl err, s)
      | None \<Rightarrow>
          if \<not> CODE_PATTERN (er_code request) \<or> \<not> VERIFIER_PATTERN (er_verifier request) then (Inl InvalidOrExpiredCode, s)
          else
            (case go_consume ops (consume_request pf request now) s of
               (None, s') \<Rightarrow> (Inl InvalidOrExpiredCode, s')
             | (Some value, s') \<Rightarrow> (Inr value, s')))"

section \<open>The contract of the store\<close>

definition grant_matches :: "grant_consume \<Rightarrow> 'v grant \<Rightarrow> bool" where
  "grant_matches r g \<longleftrightarrow> gr_codeHash g = gc_codeHash r \<and> gr_challenge g = gc_challenge r \<and> gr_redirectUri g = gc_redirectUri r \<and> gc_now r < gr_expiresAt g"

text \<open>
  \<open>grants\<close> are the grants a store holds. Creating adds one; consuming removes and returns one that matches
  every field and has not expired, and leaves the store as it is when there is none.
\<close>

definition grant_store :: "('v, 's) grant_operations \<Rightarrow> ('s \<Rightarrow> 'v grant multiset) \<Rightarrow> bool" where
  "grant_store ops grants \<longleftrightarrow>
     (\<forall>g s. grants (go_create ops g s) = add_mset g (grants s)) \<and>
     (\<forall>r s. case go_consume ops r s of
        (Some v, s') \<Rightarrow> \<exists>g. grant_matches r g \<and> gr_value g = v \<and> grants s = add_mset g (grants s')
      | (None, s') \<Rightarrow> (\<forall>g \<in># grants s. \<not> grant_matches r g) \<and> grants s' = grants s)"

section \<open>Codes are exchanged once\<close>

text \<open>
  A deployment: the store, the authorizations that were granted (the request, its code and the time) and
  the exchanges that succeeded (the request, the time and the value).
\<close>

type_synonym 'v issue_event = "'v authorize_request \<times> string \<times> int"
type_synonym 'v redeem_event = "exchange_request \<times> int \<times> 'v"

record ('v, 's) handoff_world =
  hw_store :: 's
  hw_issued :: "'v issue_event list"
  hw_redeemed :: "'v redeem_event list"

definition authorize_step :: "platform \<Rightarrow> ('v, 's) grant_operations \<Rightarrow> handoff \<Rightarrow> 'v authorize_request \<Rightarrow> string \<Rightarrow> int \<Rightarrow> ('v, 's) handoff_world \<Rightarrow> ('v, 's) handoff_world" where
  "authorize_step pf ops ho request code now w =
     (case authorize pf ops ho request code now (hw_store w) of
        (Inl _, s) \<Rightarrow> w\<lparr>hw_store := s\<rparr>
      | (Inr _, s) \<Rightarrow> w\<lparr>hw_store := s, hw_issued := hw_issued w @ [(request, code, now)]\<rparr>)"

definition exchange_step :: "platform \<Rightarrow> ('v, 's) grant_operations \<Rightarrow> handoff \<Rightarrow> exchange_request \<Rightarrow> int \<Rightarrow> ('v, 's) handoff_world \<Rightarrow> ('v, 's) handoff_world" where
  "exchange_step pf ops ho request now w =
     (case exchange pf ops ho request now (hw_store w) of
        (Inl _, s) \<Rightarrow> w\<lparr>hw_store := s\<rparr>
      | (Inr v, s) \<Rightarrow> w\<lparr>hw_store := s, hw_redeemed := hw_redeemed w @ [(request, now, v)]\<rparr>)"

text \<open>Any number of processes call the two operations in any order; the store may purge grants at any time.\<close>

inductive handoff_run :: "platform \<Rightarrow> ('v, 's) grant_operations \<Rightarrow> ('s \<Rightarrow> 'v grant multiset) \<Rightarrow> handoff \<Rightarrow> ('v, 's) handoff_world \<Rightarrow> bool"
  for pf ops grants ho where
  start: "grants s = {#} \<Longrightarrow> handoff_run pf ops grants ho \<lparr>hw_store = s, hw_issued = [], hw_redeemed = []\<rparr>"
| authorizes: "handoff_run pf ops grants ho w \<Longrightarrow> handoff_run pf ops grants ho (authorize_step pf ops ho request code now w)"
| exchanges: "handoff_run pf ops grants ho w \<Longrightarrow> handoff_run pf ops grants ho (exchange_step pf ops ho request now w)"
| purges: "handoff_run pf ops grants ho w \<Longrightarrow> grants s \<subseteq># grants (hw_store w) \<Longrightarrow> handoff_run pf ops grants ho (w\<lparr>hw_store := s\<rparr>)"

text \<open>An exchange redeems an authorization: the same code and redirect URI, the verifier of its challenge, in time, for its value.\<close>

definition redeems :: "platform \<Rightarrow> 'v redeem_event \<Rightarrow> 'v issue_event \<Rightarrow> bool" where
  "redeems pf e g \<longleftrightarrow>
     (let (r, now, v) = e; (request, code, t) = g in
      pf_sha256_hex pf (er_code r) = pf_sha256_hex pf code \<and> ar_challenge request = pf_sha256_base64url pf (er_verifier r) \<and>
      er_redirectUri r = ar_redirectUri request \<and> now < t + 120000 \<and> v = ar_value request)"

definition issued_grant :: "platform \<Rightarrow> 'v issue_event \<Rightarrow> 'v grant" where
  "issued_grant pf g = (let (request, code, t) = g in new_grant pf request code t)"

lemma matches_redeems:
  "grant_matches (consume_request pf r now) (issued_grant pf g) \<Longrightarrow> redeems pf (r, now, gr_value (issued_grant pf g)) g"
  by (auto simp: grant_matches_def consume_request_def issued_grant_def new_grant_def redeems_def GRANT_LIFETIME_MS_def split: prod.splits)

definition accounted :: "platform \<Rightarrow> ('s \<Rightarrow> 'v grant multiset) \<Rightarrow> ('v, 's) handoff_world \<Rightarrow> bool" where
  "accounted pf grants w \<longleftrightarrow>
     (\<exists>gs M. list_all2 (redeems pf) (hw_redeemed w) gs \<and> mset gs + M \<subseteq># mset (hw_issued w) \<and> grants (hw_store w) \<subseteq># image_mset (issued_grant pf) M)"

lemma authorize_store:
  assumes "grant_store ops grants" and "authorize pf ops ho request code now s = (r, s')"
  shows "grants s' = (case r of Inl _ \<Rightarrow> grants s | Inr _ \<Rightarrow> add_mset (new_grant pf request code now) (grants s))"
  using assms by (auto simp: authorize_def grant_store_def split: option.splits if_splits)

lemma consume_store:
  assumes "grant_store ops grants" and "go_consume ops r s = (v, s')"
  shows "case v of Some v \<Rightarrow> \<exists>g. grant_matches r g \<and> gr_value g = v \<and> grants s = add_mset g (grants s')
    | None \<Rightarrow> (\<forall>g \<in># grants s. \<not> grant_matches r g) \<and> grants s' = grants s"
proof -
  have "\<forall>r s. case go_consume ops r s of
      (Some v, s') \<Rightarrow> \<exists>g. grant_matches r g \<and> gr_value g = v \<and> grants s = add_mset g (grants s')
    | (None, s') \<Rightarrow> (\<forall>g \<in># grants s. \<not> grant_matches r g) \<and> grants s' = grants s"
    using assms(1) unfolding grant_store_def by (rule conjunct2)
  from this [THEN spec [of _ r], THEN spec [of _ s]] show ?thesis unfolding assms(2) by (cases v) simp_all
qed

lemma exchange_store:
  assumes "grant_store ops grants" and "exchange pf ops ho request now s = (r, s')"
  shows "case r of Inl _ \<Rightarrow> grants s' = grants s
    | Inr v \<Rightarrow> \<exists>g. grant_matches (consume_request pf request now) g \<and> gr_value g = v \<and> grants s = add_mset g (grants s')"
proof (cases "go_consume ops (consume_request pf request now) s")
  case (Pair v s2)
  from consume_store [OF assms(1) Pair] show ?thesis using assms(2) by (auto simp: exchange_def Pair split: option.splits if_splits)
qed

lemma accountedE:
  assumes "accounted pf grants w"
  obtains gs M where "list_all2 (redeems pf) (hw_redeemed w) gs" "mset gs + M \<subseteq># mset (hw_issued w)" "grants (hw_store w) \<subseteq># image_mset (issued_grant pf) M"
  using assms by (auto simp: accounted_def)

lemma accounted_authorize:
  assumes "accounted pf grants w" and "grant_store ops grants"
  shows "accounted pf grants (authorize_step pf ops ho request code now w)"
proof -
  obtain r s where a: "authorize pf ops ho request code now (hw_store w) = (r, s)" by fastforce
  obtain gs M where g: "list_all2 (redeems pf) (hw_redeemed w) gs" "mset gs + M \<subseteq># mset (hw_issued w)" "grants (hw_store w) \<subseteq># image_mset (issued_grant pf) M"
    using assms(1) by (rule accountedE)
  show ?thesis
  proof (cases r)
    case (Inl err)
    then show ?thesis using authorize_store [OF assms(2) a] g by (auto simp: accounted_def authorize_step_def a)
  next
    case (Inr u)
    have "grants s \<subseteq># image_mset (issued_grant pf) (add_mset (request, code, now) M)"
      using authorize_store [OF assms(2) a] g(3) Inr by (simp add: issued_grant_def)
    then show ?thesis using g Inr unfolding accounted_def authorize_step_def a
      by (intro exI [of _ gs] exI [of _ "add_mset (request, code, now) M"]) simp
  qed
qed

lemma accounted_exchange:
  assumes "accounted pf grants w" and "grant_store ops grants"
  shows "accounted pf grants (exchange_step pf ops ho request now w)"
proof -
  obtain r s where e: "exchange pf ops ho request now (hw_store w) = (r, s)" by fastforce
  obtain gs M where g: "list_all2 (redeems pf) (hw_redeemed w) gs" "mset gs + M \<subseteq># mset (hw_issued w)" "grants (hw_store w) \<subseteq># image_mset (issued_grant pf) M"
    using assms(1) by (rule accountedE)
  show ?thesis
  proof (cases r)
    case (Inl err)
    then show ?thesis using exchange_store [OF assms(2) e] g by (auto simp: accounted_def exchange_step_def e)
  next
    case (Inr v)
    then obtain x where x: "grant_matches (consume_request pf request now) x" "gr_value x = v" "grants (hw_store w) = add_mset x (grants s)"
      using exchange_store [OF assms(2) e] by auto
    have "x \<in># image_mset (issued_grant pf) M" using x(3) g(3) by (auto dest: mset_subset_eqD)
    then obtain i where i: "i \<in># M" "x = issued_grant pf i" by auto
    then have M: "M = add_mset i (M - {#i#})" by simp
    have "grants s \<subseteq># image_mset (issued_grant pf) (M - {#i#})" using g(3) x(3) i(2) by (subst (asm) M) simp
    moreover have "list_all2 (redeems pf) (hw_redeemed w @ [(request, now, v)]) (gs @ [i])"
      using g(1) matches_redeems [of pf request now i] x(1,2) i(2) by (intro list_all2_appendI) simp_all
    moreover have "mset (gs @ [i]) + (M - {#i#}) \<subseteq># mset (hw_issued w)" using g(2) by (subst (asm) M) simp
    ultimately show ?thesis using Inr unfolding accounted_def exchange_step_def e
      by (intro exI [of _ "gs @ [i]"] exI [of _ "M - {#i#}"]) simp
  qed
qed

lemma accounted_run: "handoff_run pf ops grants ho w \<Longrightarrow> grant_store ops grants \<Longrightarrow> accounted pf grants w"
proof (induction rule: handoff_run.induct)
  case (start s)
  then show ?case by (auto simp: accounted_def)
next
  case (purges w s)
  then show ?case by (auto simp: accounted_def intro: subset_mset.order_trans)
qed (simp_all add: accounted_authorize accounted_exchange)

text \<open>
  C23: A native authorization code is good for one exchange. In every history of authorizations, exchanges
  and purges over a store that keeps its contract, every successful exchange redeemed an authorization
  granted before: it presented its code and redirect URI and the verifier of its PKCE challenge within two
  minutes, and got its value; and no authorization was redeemed twice.
\<close>

theorem handoff_single_use:
  assumes "grant_store ops grants" and "handoff_run pf ops grants ho w"
  shows "\<exists>gs. mset gs \<subseteq># mset (hw_issued w) \<and> list_all2 (redeems pf) (hw_redeemed w) gs"
proof -
  obtain gs M where gs: "list_all2 (redeems pf) (hw_redeemed w) gs" "mset gs + M \<subseteq># mset (hw_issued w)"
    using accounted_run [OF assms(2,1)] by (rule accountedE)
  have "mset gs \<subseteq># mset (hw_issued w)" using gs(2) mset_subset_eq_add_left subset_mset.order_trans by blast
  then show ?thesis using gs(1) by blast
qed

text \<open>A store that keeps the contract: a list of grants.\<close>

definition list_store :: "('v, 'v grant list) grant_operations" where
  "list_store = \<lparr>go_create = Cons, go_consume = (\<lambda>r s. case find (grant_matches r) s of None \<Rightarrow> (None, s) | Some g \<Rightarrow> (Some (gr_value g), remove1 g s))\<rparr>"

lemma list_store_contract: "grant_store (list_store :: ('v, 'v grant list) grant_operations) mset"
proof -
  have "case go_consume list_store r s of
      (Some v, s') \<Rightarrow> \<exists>g. grant_matches r g \<and> gr_value g = v \<and> mset s = add_mset g (mset s')
    | (None, s') \<Rightarrow> (\<forall>g \<in># mset s. \<not> grant_matches r g) \<and> mset s' = mset s" for r :: grant_consume and s :: "'v grant list"
  proof (cases "find (grant_matches r) s")
    case None
    moreover from this have "\<forall>x \<in> set s. \<not> grant_matches r x" by (auto simp: find_None_iff)
    ultimately show ?thesis by (simp add: list_store_def)
  next
    case (Some g)
    then have "grant_matches r g" "g \<in> set s" by (auto simp: find_Some_iff)
    then show ?thesis by (auto simp: list_store_def Some)
  qed
  moreover have "mset (go_create list_store g s) = add_mset g (mset s)" for g :: "'v grant" and s by (simp add: list_store_def)
  ultimately show ?thesis unfolding grant_store_def by (intro conjI allI)
qed

definition sample_platform :: platform where
  "sample_platform = \<lparr>pf_url = (\<lambda>_. Some \<lparr>ur_protocol = ''com.app:'', ur_username = [], ur_password = [], ur_search = [], ur_hash = []\<rparr>),
     pf_callback = (\<lambda>uri code st. uri @ ''?code='' @ code @ ''&state='' @ st), pf_sha256_hex = id, pf_sha256_base64url = id\<rparr>"

definition sample_handoff_run :: "(nat, nat grant list) handoff_world" where
  "sample_handoff_run =
     (let ho = \<lparr>ho_redirectUris = [''com.app://cb'']\<rparr>; code = replicate 43 CHR ''a''; verifier = replicate 43 CHR ''b'';
          ex = exchange_step sample_platform list_store ho \<lparr>er_code = code, er_verifier = verifier, er_redirectUri = ''com.app://cb''\<rparr> in
      ex 7000 (ex 6000 (authorize_step sample_platform list_store ho \<lparr>ar_value = 5, ar_challenge = verifier, ar_redirectUri = ''com.app://cb'', ar_state = ''s''\<rparr> code 1000
        \<lparr>hw_store = [], hw_issued = [], hw_redeemed = []\<rparr>)))"

theorem handoff_single_use_witness:
  "length (hw_redeemed sample_handoff_run) = 1 \<and>
   (\<exists>gs. mset gs \<subseteq># mset (hw_issued sample_handoff_run) \<and> list_all2 (redeems sample_platform) (hw_redeemed sample_handoff_run) gs)"
proof -
  have "handoff_run sample_platform list_store mset \<lparr>ho_redirectUris = [''com.app://cb'']\<rparr> sample_handoff_run"
    unfolding sample_handoff_run_def Let_def by (intro handoff_run.exchanges handoff_run.authorizes handoff_run.start) simp
  moreover have "length (hw_redeemed sample_handoff_run) = 1" by code_simp
  ultimately show ?thesis using handoff_single_use [OF list_store_contract] by blast
qed

text \<open>An authorized application gets in: within its lifetime, the code and the right verifier are accepted.\<close>

theorem authorized_code_exchanges:
  assumes "grant_store ops grants" and "authorize pf ops ho request code now s = (Inr callback, s')"
    and "CODE_PATTERN code" and "VERIFIER_PATTERN verifier" and "ar_challenge request = pf_sha256_base64url pf verifier"
    and "later < now + GRANT_LIFETIME_MS"
  shows "\<exists>v s''. exchange pf ops ho \<lparr>er_code = code, er_verifier = verifier, er_redirectUri = ar_redirectUri request\<rparr> later s' = (Inr v, s'')"
proof -
  let ?r = "\<lparr>er_code = code, er_verifier = verifier, er_redirectUri = ar_redirectUri request\<rparr>"
  have "new_grant pf request code now \<in># grants s'" using authorize_store [OF assms(1,2)] by simp
  moreover have "grant_matches (consume_request pf ?r later) (new_grant pf request code now)"
    using assms(5,6) by (simp add: grant_matches_def consume_request_def new_grant_def)
  moreover obtain v s'' where c: "go_consume ops (consume_request pf ?r later) s' = (v, s'')" by fastforce
  moreover note consume_store [OF assms(1) c]
  ultimately obtain v' where "v = Some v'" by (cases v) auto
  moreover have "validateRedirect ho (ar_redirectUri request) = None" using assms(2) by (auto simp: authorize_def split: option.splits)
  ultimately show ?thesis using assms(3,4) c by (simp add: exchange_def)
qed

end
