(* ===== verification/Validator.thy ===== *)
theory Validator
  imports Ejson
begin

text \<open>
  The compiler of collection validators (\<open>src/mongodb/validator.ts\<close>): from the JSON Schema that Zod emits
  to the dialect of MongoDB. Zod itself is a parameter: the schema it generates is the input, and the
  override that the code hands to it is \<open>override_node\<close>.
\<close>

section \<open>Values of schemas\<close>

definition isJsonObject :: "jsval \<Rightarrow> bool" where
  "isJsonObject v \<longleftrightarrow> js_typeof v = ''object'' \<and> v \<noteq> JNull \<and> \<not> isArray v"

fun js_entries :: "jsval \<Rightarrow> jsobj" where
  "js_entries (JObj kvs) = kvs"
| "js_entries _ = []"

text \<open>\<open>isDeepStrictEqual\<close> of the platform, where the order of keys does not matter.\<close>

fun deep_strict_equal :: "jsval \<Rightarrow> jsval \<Rightarrow> bool" where
  "deep_strict_equal (JArr xs) v = (case v of JArr ys \<Rightarrow> list_all2 deep_strict_equal xs ys | _ \<Rightarrow> False)"
| "deep_strict_equal (JObj kvs) v =
     (case v of
        JObj kvs' \<Rightarrow> length kvs = length kvs' \<and>
          list_all (\<lambda>(k, x). case map_of kvs' k of None \<Rightarrow> False | Some y \<Rightarrow> deep_strict_equal x y) kvs
      | _ \<Rightarrow> False)"
| "deep_strict_equal u v = (u = v)"

fun weight :: "jsval \<Rightarrow> nat" where
  "weight (JArr xs) = Suc (sum_list (map (\<lambda>v. Suc (weight v)) xs))"
| "weight (JObj kvs) = Suc (sum_list (map (\<lambda>(k, v). Suc (weight v)) kvs))"
| "weight _ = 1"

definition weights :: "jsobj \<Rightarrow> nat" where
  "weights kvs = sum_list (map (\<lambda>(k, v). Suc (weight v)) kvs)"

lemma weights_simps [simp]: "weights [] = 0" "weights ((k, v) # kvs) = Suc (weight v) + weights kvs"
  by (simp_all add: weights_def)

lemma weight_obj: "weight (JObj kvs) = Suc (weights kvs)"
  by (simp add: weights_def)

section \<open>The compiler\<close>

definition BSON_NUMERIC_TYPES :: "jsval list" where
  "BSON_NUMERIC_TYPES = [JStr ''int'', JStr ''long'', JStr ''double'', JStr ''decimal'']"

definition BSON_SCHEMA_KEYS :: "string list" where
  "BSON_SCHEMA_KEYS =
     [''additionalProperties'', ''allOf'', ''anyOf'', ''bsonType'', ''description'', ''enum'', ''exclusiveMaximum'', ''exclusiveMinimum'',
      ''items'', ''maximum'', ''maxItems'', ''maxLength'', ''minimum'', ''minItems'', ''minLength'', ''multipleOf'', ''not'', ''oneOf'',
      ''pattern'', ''properties'', ''required'', ''type'', ''uniqueItems'']"

text \<open>The messages of the errors; a node is named by its path, whose texts the code joins with dots.\<close>

datatype schema_reason =
    NonObjectNode
  | UnconstrainedNode
  | TupleUnsupported
  | InvalidAdditionalProperties
  | FormatWithoutPattern jsval
  | UnsupportedKeyword string

datatype schema_error =
    UnsupportedSchema "string list" schema_reason
  | InvalidJsonType
  | UnsupportedZodSchema "string list"

type_synonym 'a compiled = "schema_error + 'a"

abbreviation throwUnsupported :: "string list \<Rightarrow> schema_reason \<Rightarrow> 'a compiled" where
  "throwUnsupported path reason \<equiv> Inl (UnsupportedSchema path reason)"

definition convertJsonType :: "jsval \<Rightarrow> jsval" where
  "convertJsonType v =
     (if v = JStr ''number'' \<or> v = JStr ''integer'' then JArr BSON_NUMERIC_TYPES
      else if v = JStr ''boolean'' then JStr ''bool'' else v)"

definition convertJsonTypes :: "jsval \<Rightarrow> jsval compiled" where
  "convertJsonTypes v =
     (case v of
        JArr ts \<Rightarrow> Inr (JArr (concat (map (\<lambda>t. case convertJsonType t of JArr xs \<Rightarrow> xs | x \<Rightarrow> [x]) ts)))
      | JStr _ \<Rightarrow> Inr (convertJsonType v)
      | _ \<Rightarrow> Inl InvalidJsonType)"

definition homogeneous :: "jsobj \<Rightarrow> jsval \<Rightarrow> nat \<Rightarrow> jsobj" where
  "homogeneous value additionalItems n =
     obj_delete ''additionalItems'' (obj_set ''minItems'' (jint (int n)) (obj_set ''items'' additionalItems value))"

lemma weights_update: "map_of kvs k = Some old \<Longrightarrow> weights (AList.update k v kvs) + weight old = weights kvs + weight v"
  by (induction kvs) auto

lemma weights_insert: "weights (obj_insert k v kvs) = Suc (weight v) + weights kvs"
  by (induction k v kvs rule: obj_insert.induct) (auto split: option.splits)

lemma weights_delete: "map_of kvs k = Some old \<Longrightarrow> weights (AList.delete k kvs) + Suc (weight old) \<le> weights kvs"
proof (induction kvs)
  case (Cons kv kvs)
  have "weights (AList.delete k kvs) \<le> weights kvs" by (induction kvs) (auto simp: weights_def)
  then show ?case using Cons by (cases kv) (auto split: if_splits)
qed simp

lemma weights_set:
  "weights (obj_set k v kvs) + (case map_of kvs k of Some old \<Rightarrow> weight old | None \<Rightarrow> 0) =
     weights kvs + (case map_of kvs k of Some old \<Rightarrow> weight v | None \<Rightarrow> Suc (weight v))"
proof (cases "map_of kvs k")
  case None
  then have "\<not> jm_has kvs k" by (simp add: jm_has_def)
  then show ?thesis using None by (simp add: obj_set_def weights_insert)
next
  case (Some old)
  then have "jm_has kvs k" by (simp add: jm_has_def)
  then show ?thesis using weights_update [OF Some, of v] Some by (simp add: obj_set_def)
qed

lemma weights_homogeneous:
  assumes "map_of node ''items'' = Some (JArr xs)" and "map_of node ''additionalItems'' = Some a"
  shows "weights (homogeneous node a n) \<le> weights node"
proof -
  let ?i = "obj_set ''items'' a node"
  let ?m = "obj_set ''minItems'' (jint (int n)) ?i"
  have i: "weights ?i + weight (JArr xs) = weights node + weight a" using weights_set [of "''items''" a node] assms(1) by simp
  have m: "weights ?m \<le> weights ?i + 2" using weights_set [of "''minItems''" "jint (int n)" ?i] by (simp split: option.splits)
  have "map_of ?m ''additionalItems'' = Some a" using assms(2) by simp
  then have d: "weights (homogeneous node a n) + Suc (weight a) \<le> weights ?m" unfolding homogeneous_def by (rule weights_delete)
  show ?thesis using i m d by simp
qed

definition tuple_items :: "jsobj \<Rightarrow> jsval list option" where
  "tuple_items node = (case obj_get node ''items'' of JArr xs \<Rightarrow> Some xs | _ \<Rightarrow> None)"

text \<open>
  \<open>convertSchema\<close> with the loops it contains: over the keywords of a node, over the named properties and
  over a list of schemas. \<open>homogeneous\<close> is the node that
  \<open>normalizeHomogeneousVariadicTuple\<close> returns for a tuple.
\<close>

definition finish_node :: "string list \<Rightarrow> jsobj compiled \<Rightarrow> jsval compiled" where
  "finish_node path r = rbind r (\<lambda>result. if result = [] then throwUnsupported path UnconstrainedNode else Inr (JObj result))"

lemma weight_entries: "js_entries v \<noteq> [] \<Longrightarrow> weights (js_entries v) < weight v"
  by (cases v) (simp_all add: weights_def)

lemma weight_child:
  assumes "js_entries v \<noteq> []" and "map_of (js_entries v) k = Some c"
  shows "weight c < weight v"
proof -
  have "weight c < weights kvs" if "map_of kvs k = Some c" for kvs using that by (induction kvs) (auto split: if_splits)
  then show ?thesis using weight_entries [OF assms(1)] assms(2) by (meson less_trans)
qed

lemma tuple_weights:
  assumes "js_entries v \<noteq> []" and "tuple_items (js_entries v) = Some xs" and "isJsonObject (obj_get (js_entries v) ''additionalItems'')"
  shows "weight (obj_get (js_entries v) ''additionalItems'') < weight v"
    "sum_list (map (\<lambda>v. Suc (weight v)) xs) < weight v"
    "weights (homogeneous (js_entries v) (obj_get (js_entries v) ''additionalItems'') n) < weight v"
proof -
  obtain a where a: "map_of (js_entries v) ''additionalItems'' = Some a" "obj_get (js_entries v) ''additionalItems'' = a"
    using assms(3) by (auto simp: obj_get_def isJsonObject_def split: option.splits)
  have i: "map_of (js_entries v) ''items'' = Some (JArr xs)" using assms(2) by (auto simp: tuple_items_def obj_get_def split: option.splits jsval.splits)
  show "weight (obj_get (js_entries v) ''additionalItems'') < weight v" using weight_child [OF assms(1) a(1)] a(2) by simp
  show "sum_list (map (\<lambda>v. Suc (weight v)) xs) < weight v" using weight_child [OF assms(1) i] by simp
  show "weights (homogeneous (js_entries v) (obj_get (js_entries v) ''additionalItems'') n) < weight v"
    using weights_homogeneous [OF i a(1), of n] weight_entries [OF assms(1)] a(2) by simp
qed

lemma weight_loop: "weights (js_entries v) < Suc (weight v + n)" "sum_list (map (\<lambda>v. Suc (weight v)) (case v of JArr xs \<Rightarrow> xs | _ \<Rightarrow> [])) < Suc (weight v + n)"
  by (cases v; simp add: weights_def)+

function convertSchema :: "jsval \<Rightarrow> string list \<Rightarrow> jsval compiled"
  and convert_keywords :: "jsobj \<Rightarrow> string list \<Rightarrow> jsobj \<Rightarrow> jsobj \<Rightarrow> jsobj compiled"
  and convert_properties :: "jsobj \<Rightarrow> string list \<Rightarrow> jsobj \<Rightarrow> jsobj compiled"
  and convert_list :: "jsval list \<Rightarrow> string list \<Rightarrow> nat \<Rightarrow> jsval list compiled" where
  "convertSchema node path =
     (if \<not> isJsonObject node then throwUnsupported path NonObjectNode
      else if js_entries node = [] then throwUnsupported path UnconstrainedNode
      else
        (case tuple_items (js_entries node) of
           Some items \<Rightarrow>
             (let additional = obj_get (js_entries node) ''additionalItems'' in
              if \<not> isJsonObject additional then throwUnsupported path TupleUnsupported
              else
                rbind (convertSchema additional (path @ [''additionalItems''])) (\<lambda>rest.
                rbind (convert_list items (path @ [''items'']) 0) (\<lambda>prefix.
                  if \<not> list_all (\<lambda>item. deep_strict_equal item rest) prefix then throwUnsupported path TupleUnsupported
                  else
                    finish_node path (convert_keywords (homogeneous (js_entries node) additional (length prefix)) path
                      (homogeneous (js_entries node) additional (length prefix)) []))))
         | None \<Rightarrow> finish_node path (convert_keywords (js_entries node) path (js_entries node) [])))"
| "convert_keywords node path [] result = Inr result"
| "convert_keywords node path ((key, child) # rest) result =
     (if key = ''$schema'' \<or> key = ''~standard'' then convert_keywords node path rest result
      else if key = ''type''
      then rbind (convertJsonTypes child) (\<lambda>t. convert_keywords node path rest (obj_set ''bsonType'' t result))
      else if key = ''properties'' \<and> isJsonObject child
      then rbind (convert_properties (js_entries child) (path @ [''properties'']) []) (\<lambda>ps. convert_keywords node path rest (obj_set ''properties'' (JObj ps) result))
      else if key = ''items''
      then if \<not> isJsonObject child then throwUnsupported (path @ [key]) TupleUnsupported
           else rbind (convertSchema child (path @ [key])) (\<lambda>c. convert_keywords node path rest (obj_set ''items'' c result))
      else if key \<in> {''allOf'', ''anyOf'', ''oneOf''} \<and> isArray child
      then rbind (convert_list (case child of JArr xs \<Rightarrow> xs | _ \<Rightarrow> []) (path @ [key]) 0) (\<lambda>cs. convert_keywords node path rest (obj_set key (JArr cs) result))
      else if key = ''not'' \<and> isJsonObject child
      then rbind (convertSchema child (path @ [key])) (\<lambda>c. convert_keywords node path rest (obj_set ''not'' c result))
      else if key = ''additionalProperties''
      then (case child of
              JBool b \<Rightarrow> convert_keywords node path rest (obj_set ''additionalProperties'' child result)
            | _ \<Rightarrow>
                if isJsonObject child
                then rbind (convertSchema child (path @ [key])) (\<lambda>c. convert_keywords node path rest (obj_set ''additionalProperties'' c result))
                else throwUnsupported (path @ [key]) InvalidAdditionalProperties)
      else if key = ''const'' then convert_keywords node path rest (obj_set ''enum'' (JArr [child]) result)
      else if key = ''readOnly'' then convert_keywords node path rest result
      else if key = ''format''
      then (case obj_get node ''pattern'' of
              JStr _ \<Rightarrow> convert_keywords node path rest result
            | _ \<Rightarrow> throwUnsupported (path @ [key]) (FormatWithoutPattern child))
      else if key \<notin> set BSON_SCHEMA_KEYS
      then throwUnsupported (path @ [key]) (UnsupportedKeyword key)
      else convert_keywords node path rest (obj_set key child result))"
| "convert_properties [] path result = Inr result"
| "convert_properties ((name, property) # rest) path result =
     rbind (convertSchema property (path @ [name])) (\<lambda>c. convert_properties rest path (obj_set name c result))"
| "convert_list [] path index = Inr []"
| "convert_list (item # rest) path index =
     rbind (convertSchema item (path @ [nat_digits index])) (\<lambda>c. rbind (convert_list rest path (Suc index)) (\<lambda>cs. Inr (c # cs)))"
  by pat_completeness auto

termination
  by (relation "measure (\<lambda>x. case x of
    Inl (Inl (v, _)) \<Rightarrow> weight v
  | Inl (Inr (_, _, rest, _)) \<Rightarrow> weights rest
  | Inr (Inl (rest, _, _)) \<Rightarrow> weights rest
  | Inr (Inr (xs, _, _)) \<Rightarrow> sum_list (map (\<lambda>v. Suc (weight v)) xs))")
    (simp_all add: tuple_weights weight_entries weight_loop trans_less_add1 less_add_Suc1 del: weight.simps)

declare convertSchema.simps [simp del] convert_keywords.simps(2) [simp del]

section \<open>Identifiers that the database generates\<close>

lemma weight_in_obj: "(k, v) \<in> set kvs \<Longrightarrow> weight v < weights kvs"
  by (induction kvs) auto

lemma weight_in_list: "v \<in> set xs \<Longrightarrow> weight v < weight (JArr xs)"
  by (induction xs) auto

function allowGeneratedObjectId :: "jsval \<Rightarrow> jsval" where
  "allowGeneratedObjectId schema =
     (case schema of
        JObj node \<Rightarrow>
          if obj_get node ''bsonType'' = JStr ''object''
          then
            (let properties = obj_get node ''properties'' in
             if \<not> isJsonObject properties \<or> jm_has (js_entries properties) ''_id'' then schema
             else JObj (obj_set ''properties'' (JObj (foldl (\<lambda>ps (k, v). obj_set k v ps) [(''_id'', JObj [(''bsonType'', JStr ''objectId'')])] (js_entries properties))) node))
          else
            JObj (map (\<lambda>(k, v). (k, case v of
                 JArr alternatives \<Rightarrow>
                   if k \<in> {''allOf'', ''anyOf'', ''oneOf''} then JArr (map (\<lambda>a. if isJsonObject a then allowGeneratedObjectId a else a) alternatives) else v
               | _ \<Rightarrow> v)) node)
      | _ \<Rightarrow> schema)"
  by pat_completeness auto

termination
proof (relation "measure weight", goal_cases)
  case (2 schema node kv k v alternatives a)
  then show ?case using weight_in_obj [of k "JArr alternatives" node] weight_in_list [of a alternatives] by (simp add: weight_obj del: weight.simps)
qed simp

declare allowGeneratedObjectId.simps [simp del]

section \<open>The compiler's entry points\<close>

datatype zod_kind = ObjectIdSchema | ZodDate | OtherZod

text \<open>The override that \<open>z.toJSONSchema\<close> calls on every node it generated.\<close>

definition override_node :: "zod_kind \<Rightarrow> jsobj \<Rightarrow> string list \<Rightarrow> jsobj compiled" where
  "override_node kind generated path =
     (case kind of
        ObjectIdSchema \<Rightarrow> Inr [(''bsonType'', JStr ''objectId'')]
      | ZodDate \<Rightarrow> Inr [(''bsonType'', JStr ''date'')]
      | OtherZod \<Rightarrow> if generated = [] then Inl (UnsupportedZodSchema path) else Inr generated)"

definition toMongoJsonSchema :: "((zod_kind \<Rightarrow> jsobj \<Rightarrow> string list \<Rightarrow> jsobj compiled) \<Rightarrow> 'z \<Rightarrow> jsval compiled) \<Rightarrow> 'z \<Rightarrow> jsval compiled" where
  "toMongoJsonSchema toJSONSchema schema =
     rbind (toJSONSchema override_node schema) (\<lambda>jsonSchema.
     rbind (convertSchema jsonSchema []) (\<lambda>converted.
       Inr (allowGeneratedObjectId (JObj (obj_delete ''$schema'' (js_entries converted))))))"

definition mongoValidator :: "((zod_kind \<Rightarrow> jsobj \<Rightarrow> string list \<Rightarrow> jsobj compiled) \<Rightarrow> 'z \<Rightarrow> jsval compiled) \<Rightarrow> 'z \<Rightarrow> jsval compiled" where
  "mongoValidator toJSONSchema schema = rbind (toMongoJsonSchema toJSONSchema schema) (\<lambda>s. Inr (JObj [(''$jsonSchema'', s)]))"

section \<open>What a schema accepts\<close>

text \<open>
  The meaning of a schema, for both dialects: the keywords that hold schemas are interpreted here, every
  other keyword by \<open>kw\<close>, which tells for a keyword and its argument which values satisfy it.
\<close>

type_synonym keyword_meaning = "string \<Rightarrow> jsval \<Rightarrow> jsval \<Rightarrow> bool"

definition property_names :: "jsobj \<Rightarrow> string set" where
  "property_names node = fst ` set (js_entries (obj_get node ''properties''))"

fun elements :: "jsval \<Rightarrow> jsval list" where
  "elements (JArr xs) = xs"
| "elements _ = []"

lemma entry_lighter: "(k, c) \<in> set (js_entries schema) \<Longrightarrow> weight c < weight schema"
  using weight_in_obj [of k c "js_entries schema"] weight_entries [of schema] by (cases "js_entries schema = []") auto

lemma nested_entry_lighter: "(k, c) \<in> set (js_entries schema) \<Longrightarrow> (p, s) \<in> set (js_entries c) \<Longrightarrow> weight s < weight schema"
  using entry_lighter less_trans by blast

lemma nested_element_lighter: "(k, c) \<in> set (js_entries schema) \<Longrightarrow> s \<in> set (elements c) \<Longrightarrow> weight s < weight schema"
  using entry_lighter [of k c schema] weight_in_list [of s "elements c"] by (cases c) (auto simp del: weight.simps)

function accepts :: "keyword_meaning \<Rightarrow> jsval \<Rightarrow> jsval \<Rightarrow> bool" where
  "accepts kw schema doc =
     list_all (\<lambda>(k, c).
       if k = ''properties'' \<and> isJsonObject c
       then list_all (\<lambda>(p, s). case map_of (js_entries doc) p of None \<Rightarrow> True | Some v \<Rightarrow> accepts kw s v) (js_entries c)
       else if k = ''items'' then list_all (\<lambda>x. accepts kw c x) (elements doc)
       else if k = ''allOf'' \<and> isArray c then list_all (\<lambda>s. accepts kw s doc) (elements c)
       else if k = ''anyOf'' \<and> isArray c then list_ex (\<lambda>s. accepts kw s doc) (elements c)
       else if k = ''oneOf'' \<and> isArray c then length (filter (\<lambda>s. accepts kw s doc) (elements c)) = 1
       else if k = ''not'' \<and> isJsonObject c then \<not> accepts kw c doc
       else if k = ''additionalProperties'' \<and> isJsonObject c
       then list_all (\<lambda>(p, v). p \<in> property_names (js_entries schema) \<or> accepts kw c v) (js_entries doc)
       else if k = ''additionalProperties'' \<and> c = JBool False
       then list_all (\<lambda>(p, v). p \<in> property_names (js_entries schema)) (js_entries doc)
       else if k = ''additionalProperties'' then True
       else kw k c doc) (js_entries schema)"
  by pat_completeness auto

termination
  by (relation "measure (\<lambda>(_, s, _). weight s)") (auto intro: entry_lighter nested_entry_lighter nested_element_lighter)

declare accepts.simps [simp del]

definition accepts_key :: "keyword_meaning \<Rightarrow> string set \<Rightarrow> string \<Rightarrow> jsval \<Rightarrow> jsval \<Rightarrow> bool" where
  "accepts_key kw names k c doc =
       (if k = ''properties'' \<and> isJsonObject c
       then \<forall>(p, s) \<in> set (js_entries c). \<forall>v. map_of (js_entries doc) p = Some v \<longrightarrow> accepts kw s v
       else if k = ''items'' then \<forall>x \<in> set (elements doc). accepts kw c x
       else if k = ''allOf'' \<and> isArray c then list_all (\<lambda>s. accepts kw s doc) (elements c)
       else if k = ''anyOf'' \<and> isArray c then list_ex (\<lambda>s. accepts kw s doc) (elements c)
       else if k = ''oneOf'' \<and> isArray c then length (filter (\<lambda>s. accepts kw s doc) (elements c)) = 1
       else if k = ''not'' \<and> isJsonObject c then \<not> accepts kw c doc
       else if k = ''additionalProperties'' \<and> isJsonObject c
       then \<forall>(p, v) \<in> set (js_entries doc). p \<in> names \<or> accepts kw c v
       else if k = ''additionalProperties'' \<and> c = JBool False
       then \<forall>(p, v) \<in> set (js_entries doc). p \<in> names
       else if k = ''additionalProperties'' then True
       else kw k c doc)"

lemma accepts_iff: "accepts kw schema doc \<longleftrightarrow> (\<forall>(k, c) \<in> set (js_entries schema). accepts_key kw (property_names (js_entries schema)) k c doc)"
  unfolding accepts.simps [of kw schema doc] list_all_iff
  by (rule ball_cong [OF refl]) (auto simp: accepts_key_def list_all_iff split: option.splits)

section \<open>Compiled schemas mean what their source means\<close>

fun nodes :: "jsval \<Rightarrow> jsobj list" where
  "nodes (JObj kvs) = kvs # concat (map (\<lambda>(k, v). nodes v) kvs)"
| "nodes (JArr xs) = concat (map nodes xs)"
| "nodes _ = []"

definition no_integer :: "jsval \<Rightarrow> bool" where
  "no_integer v \<longleftrightarrow> v \<noteq> JStr ''integer'' \<and> JStr ''integer'' \<notin> set (elements v)"

text \<open>
  The schemas the meaning is preserved for: no tuples, no integers (the database has no such type), no
  keyword that the compiler would overwrite, and patterns that imply the format they stand for.
\<close>

definition node_ok :: "keyword_meaning \<Rightarrow> jsobj \<Rightarrow> bool" where
  "node_ok kw node \<longleftrightarrow> distinct (map fst node) \<and> \<not> isArray (obj_get node ''items'') \<and>
     \<not> (jm_has node ''const'' \<and> jm_has node ''enum'') \<and> \<not> (jm_has node ''type'' \<and> jm_has node ''bsonType'') \<and>
     no_integer (obj_get node ''type'') \<and>
     (\<forall>f p doc. map_of node ''format'' = Some f \<longrightarrow> map_of node ''pattern'' = Some (JStr p) \<longrightarrow> kw ''pattern'' (JStr p) doc \<longrightarrow> kw ''format'' f doc)"

definition regular :: "keyword_meaning \<Rightarrow> jsval \<Rightarrow> bool" where
  "regular kw schema \<longleftrightarrow> (\<forall>node \<in> set (nodes schema). node_ok kw node)"

text \<open>
  What is known of the other keywords: a JSON type is the BSON types it is translated to, a constant is an
  enumeration of one value, and annotations accept everything.
\<close>

definition keyword_laws :: "keyword_meaning \<Rightarrow> bool" where
  "keyword_laws kw \<longleftrightarrow>
     (\<forall>t t' doc. convertJsonTypes t = Inr t' \<longrightarrow> no_integer t \<longrightarrow> kw ''type'' t doc = kw ''bsonType'' t' doc) \<and>
     (\<forall>c doc. kw ''const'' c doc = kw ''enum'' (JArr [c]) doc) \<and>
     (\<forall>k c doc. k \<in> {''$schema'', ''~standard'', ''readOnly''} \<longrightarrow> kw k c doc)"

definition skipped :: "string \<Rightarrow> bool" where
  "skipped k \<longleftrightarrow> k \<in> {''$schema'', ''~standard'', ''readOnly'', ''format''}"

definition target_key :: "string \<Rightarrow> string" where
  "target_key k = (if k = ''type'' then ''bsonType'' else if k = ''const'' then ''enum'' else k)"

definition accepts_node :: "keyword_meaning \<Rightarrow> string set \<Rightarrow> jsobj \<Rightarrow> jsval \<Rightarrow> bool" where
  "accepts_node kw names node doc \<longleftrightarrow> (\<forall>(k, c) \<in> set node. \<not> skipped k \<longrightarrow> accepts_key kw names k c doc)"

definition converts :: "keyword_meaning \<Rightarrow> jsobj \<Rightarrow> jsobj \<Rightarrow> jsobj \<Rightarrow> bool" where
  "converts kw rest result res \<longleftrightarrow>
     (\<forall>names doc. accepts_node kw names res doc \<longleftrightarrow> accepts_node kw names result doc \<and> accepts_node kw names rest doc) \<and>
     property_names res = (if jm_has rest ''properties'' then property_names rest else property_names result) \<and>
     (\<forall>k \<in> fst ` set res. k \<in> fst ` set result \<or> \<not> skipped k)"

lemma set_obj_insert: "set (obj_insert k v kvs) = insert (k, v) (set kvs)"
  by (induction k v kvs rule: obj_insert.induct) (auto split: option.splits)

lemma set_obj_set_fresh: "\<not> jm_has kvs k \<Longrightarrow> set (obj_set k v kvs) = insert (k, v) (set kvs)"
  by (simp add: obj_set_def set_obj_insert)

lemma converts_skip: "converts kw rest result res \<Longrightarrow> skipped k \<Longrightarrow> converts kw ((k, c) # rest) result res"
  by (auto simp: converts_def accepts_node_def skipped_def jm_has_def property_names_def obj_get_def)

lemma converts_keep:
  assumes "converts kw rest (obj_set k' c' result) res" and "\<not> skipped k" and "\<not> skipped k'" and "\<not> jm_has result k'"
    and "\<And>names doc. accepts_key kw names k' c' doc = accepts_key kw names k c doc"
    and "k' = ''properties'' \<longleftrightarrow> k = ''properties''" and "k = ''properties'' \<Longrightarrow> fst ` set (js_entries c') = fst ` set (js_entries c) \<and> \<not> jm_has rest k"
  shows "converts kw ((k, c) # rest) result res"
proof -
  have "accepts_node kw names (obj_set k' c' result) doc \<longleftrightarrow> accepts_node kw names result doc \<and> accepts_key kw names k c doc" for names doc
    using assms(3-5) by (auto simp: accepts_node_def set_obj_set_fresh)
  moreover have "accepts_node kw names ((k, c) # rest) doc \<longleftrightarrow> accepts_key kw names k c doc \<and> accepts_node kw names rest doc" for names doc
    using assms(2) by (auto simp: accepts_node_def)
  moreover have "property_names (obj_set k' c' result) = (if k = ''properties'' then fst ` set (js_entries c) else property_names result)"
    "property_names ((k, c) # rest) = (if k = ''properties'' then fst ` set (js_entries c) else property_names rest)"
    using assms(6,7) by (auto simp: property_names_def obj_get_def)
  moreover have "fst ` set (obj_set k' c' result) = insert k' (fst ` set result)" by simp
  ultimately show ?thesis using assms(1,2,3,6,7) by (auto simp: converts_def jm_has_def)
qed

lemma regular_child: "regular kw (JObj kvs) \<Longrightarrow> (k, c) \<in> set kvs \<Longrightarrow> regular kw c"
  by (force simp: regular_def)

lemma regular_entry: "regular kw v \<Longrightarrow> (k, c) \<in> set (js_entries v) \<Longrightarrow> regular kw c"
  by (cases v) (simp_all add: regular_child)

lemma regular_element: "regular kw v \<Longrightarrow> c \<in> set (elements v) \<Longrightarrow> regular kw c"
  by (cases v) (auto simp: regular_def)

lemma accepts_type:
  assumes "keyword_laws kw" and "convertJsonTypes c = Inr t" and "no_integer c"
  shows "accepts_key kw names ''bsonType'' t doc = accepts_key kw names ''type'' c doc"
  using assms by (simp add: accepts_key_def keyword_laws_def)

lemma accepts_const: "keyword_laws kw \<Longrightarrow> accepts_key kw names ''enum'' (JArr [c]) doc = accepts_key kw names ''const'' c doc"
  by (simp add: accepts_key_def keyword_laws_def)

definition same_meaning :: "keyword_meaning \<Rightarrow> jsval \<Rightarrow> jsval \<Rightarrow> bool" where
  "same_meaning kw c c' \<longleftrightarrow> (\<forall>doc. accepts kw c' doc = accepts kw c doc)"

lemma accepts_combinator:
  assumes "list_all2 (same_meaning kw) xs ys" and "k \<in> {''allOf'', ''anyOf'', ''oneOf''}"
  shows "accepts_key kw names k (JArr ys) doc = accepts_key kw names k (JArr xs) doc"
proof -
  let ?P = "\<lambda>s. accepts kw s doc"
  have "list_all ?P ys = list_all ?P xs \<and> list_ex ?P ys = list_ex ?P xs \<and> length (filter ?P ys) = length (filter ?P xs)"
    using assms(1) by (induction rule: list_all2_induct) (auto simp: same_meaning_def)
  then show ?thesis using assms(2) by (auto simp: accepts_key_def)
qed


definition property_accepts :: "keyword_meaning \<Rightarrow> jsobj \<Rightarrow> (string \<times> jsval) \<Rightarrow> bool" where
  "property_accepts kw fs ps \<longleftrightarrow> (\<forall>v. map_of fs (fst ps) = Some v \<longrightarrow> accepts kw (snd ps) v)"

definition converts_properties :: "keyword_meaning \<Rightarrow> jsobj \<Rightarrow> jsobj \<Rightarrow> jsobj \<Rightarrow> bool" where
  "converts_properties kw rest result res \<longleftrightarrow> fst ` set res = fst ` set result \<union> fst ` set rest \<and>
     (\<forall>fs. (\<forall>p \<in> set res. property_accepts kw fs p) \<longleftrightarrow> (\<forall>p \<in> set result. property_accepts kw fs p) \<and> (\<forall>p \<in> set rest. property_accepts kw fs p))"

lemma accepts_properties:
  assumes "converts_properties kw (js_entries c) [] ps" and "isJsonObject c"
  shows "accepts_key kw names ''properties'' (JObj ps) doc = accepts_key kw names ''properties'' c doc"
  using assms by (auto simp: converts_properties_def accepts_key_def property_accepts_def isJsonObject_def split_beta)

definition fresh_keys :: "jsobj \<Rightarrow> jsobj \<Rightarrow> bool" where
  "fresh_keys rest result \<longleftrightarrow> distinct (map target_key (filter (\<lambda>k. \<not> skipped k) (map fst rest)) @ map fst result)"

lemma fresh_skip: "fresh_keys ((k, c) # rest) result \<Longrightarrow> fresh_keys rest result"
  by (auto simp: fresh_keys_def split: if_splits)

lemma fresh_keep:
  assumes "fresh_keys ((k, c) # rest) result" and "\<not> skipped k" and "k' = target_key k"
  shows "fresh_keys rest (obj_set k' v result)" "\<not> jm_has result k'" "\<not> jm_has rest k"
proof -
  let ?ks = "map target_key (filter (\<lambda>k. \<not> skipped k) (map fst rest))"
  have d: "target_key k \<notin> set ?ks" "target_key k \<notin> set (map fst result)" "distinct (?ks @ map fst result)"
    using assms(1,2) by (auto simp: fresh_keys_def)
  show h: "\<not> jm_has result k'" using d(2) assms(3) by (simp add: jm_has_iff)
  show "\<not> jm_has rest k" using d(1) assms(2) by (auto simp: jm_has_iff)
  have "distinct (map fst (obj_set k' v result))" using d(3) jm_wf_obj_set [of result k' v] by (simp add: jm_wf_def)
  then show "fresh_keys rest (obj_set k' v result)" using d assms(3) unfolding fresh_keys_def distinct_append by auto
qed


lemma converted_is_object: "convertSchema v path = Inr c \<Longrightarrow> isJsonObject c"
  by (subst (asm) convertSchema.simps)
    (auto simp: rbind_eq_Inr finish_node_def isJsonObject_def Let_def split: if_splits option.splits)

lemma not_skipped: "\<not> skipped ''bsonType''" "\<not> skipped ''enum''" "\<not> skipped ''type''" "\<not> skipped ''const''" "\<not> skipped ''properties''"
  "\<not> skipped ''items''" "\<not> skipped ''not''" "\<not> skipped ''additionalProperties''" "k \<in> {''allOf'', ''anyOf'', ''oneOf''} \<Longrightarrow> \<not> skipped k"
  by (auto simp: skipped_def)

definition rest_ok :: "keyword_meaning \<Rightarrow> jsobj \<Rightarrow> bool" where
  "rest_ok kw rest \<longleftrightarrow> (\<forall>(k, c) \<in> set rest. regular kw c \<and> (k = ''type'' \<longrightarrow> no_integer c))"

lemma meaning_step:
  assumes kw: "keyword_laws kw"
    and IH: "\<And>result res. convert_keywords node path rest result = Inr res \<Longrightarrow> rest_ok kw rest \<Longrightarrow> fresh_keys rest result \<Longrightarrow> converts kw rest result res"
    and S: "\<And>path c'. convertSchema child path = Inr c' \<Longrightarrow> regular kw child \<Longrightarrow> same_meaning kw child c'"
    and Ps: "\<And>path ps. convert_properties (js_entries child) path [] = Inr ps \<Longrightarrow> regular kw child \<Longrightarrow> converts_properties kw (js_entries child) [] ps"
    and L: "\<And>path cs. convert_list (elements child) path 0 = Inr cs \<Longrightarrow> regular kw child \<Longrightarrow> list_all2 (same_meaning kw) (elements child) cs"
    and c: "convert_keywords node path ((key, child) # rest) result = Inr res" "rest_ok kw ((key, child) # rest)" "fresh_keys ((key, child) # rest) result"
  shows "converts kw ((key, child) # rest) result res"
proof -
  have ok: "rest_ok kw rest" "regular kw child" "key = ''type'' \<Longrightarrow> no_integer child" using c(2) by (auto simp: rest_ok_def)
  have skip: "skipped key \<Longrightarrow> convert_keywords node path rest result = Inr res \<Longrightarrow> ?thesis"
    using IH ok(1) fresh_skip [OF c(3)] converts_skip by blast
  have keep: "?thesis" if "convert_keywords node path rest (obj_set k' c' result) = Inr res" "\<not> skipped key" "k' = target_key key" "\<not> skipped k'"
    "\<And>names doc. accepts_key kw names k' c' doc = accepts_key kw names key child doc"
    "key = ''properties'' \<Longrightarrow> fst ` set (js_entries c') = fst ` set (js_entries child)" for k' c'
  proof (rule converts_keep [OF IH [OF that(1) ok(1)] that(2,4) _ that(5)])
    show "fresh_keys rest (obj_set k' c' result)" "\<not> jm_has result k'" using fresh_keep [OF c(3) that(2,3)] by blast+
    show "(k' = ''properties'') = (key = ''properties'')" using that(3) by (auto simp: target_key_def)
    show "fst ` set (js_entries c') = fst ` set (js_entries child) \<and> \<not> jm_has rest key" if "key = ''properties''"
      using that \<open>key = ''properties'' \<Longrightarrow> fst ` set (js_entries c') = fst ` set (js_entries child)\<close> fresh_keep(3) [OF c(3) \<open>\<not> skipped key\<close> \<open>k' = target_key key\<close>] by simp
  qed
  note step = c(1) [unfolded convert_keywords.simps(2)]
  consider "skipped key" | "key = ''type''" | "key = ''const''" | "key = ''properties''" "isJsonObject child" | "key = ''items''"
    | "key \<in> {''allOf'', ''anyOf'', ''oneOf''}" "isArray child" | "key = ''not''" "isJsonObject child" | "key = ''additionalProperties''"
    | (plain) "\<not> skipped key" "target_key key = key" "convert_keywords node path rest (obj_set key child result) = Inr res"
    using step by (auto simp: skipped_def target_key_def split: if_splits)
  then show ?thesis
  proof cases
    case 1
    then have "convert_keywords node path rest result = Inr res"
      using step unfolding skipped_def by (elim insertE emptyE) (simp_all split: jsval.splits)
    with 1 show ?thesis by (rule skip)
  next
    case 2
    then obtain t where t: "convertJsonTypes child = Inr t" "convert_keywords node path rest (obj_set ''bsonType'' t result) = Inr res"
      using step by (auto simp: rbind_eq_Inr)
    show ?thesis by (rule keep [OF t(2)]) (use 2 accepts_type [OF kw t(1) ok(3)] in \<open>simp_all add: not_skipped target_key_def\<close>)
  next
    case 3
    then have "convert_keywords node path rest (obj_set ''enum'' (JArr [child]) result) = Inr res" using step by simp
    then show ?thesis by (rule keep) (use 3 accepts_const [OF kw] in \<open>simp_all add: not_skipped target_key_def\<close>)
  next
    case 4
    then obtain ps where ps: "convert_properties (js_entries child) (path @ [''properties'']) [] = Inr ps"
      "convert_keywords node path rest (obj_set ''properties'' (JObj ps) result) = Inr res" using step by (auto simp: rbind_eq_Inr)
    note p = Ps [OF ps(1) ok(2)]
    show ?thesis by (rule keep [OF ps(2)])
      (use 4 p accepts_properties [OF p 4(2)] in \<open>simp_all add: not_skipped target_key_def converts_properties_def\<close>)
  next
    case 5
    then obtain c' where c': "convertSchema child (path @ [''items'']) = Inr c'" "convert_keywords node path rest (obj_set ''items'' c' result) = Inr res"
      using step by (auto simp: rbind_eq_Inr split: if_splits)
    show ?thesis by (rule keep [OF c'(2)]) (use 5 S [OF c'(1) ok(2)] in \<open>simp_all add: not_skipped target_key_def accepts_key_def same_meaning_def\<close>)
  next
    case 6
    then obtain xs where xs: "child = JArr xs" by (cases child) auto
    then obtain cs where cs: "convert_list xs (path @ [key]) 0 = Inr cs" "convert_keywords node path rest (obj_set key (JArr cs) result) = Inr res"
      using step 6 by (auto simp: rbind_eq_Inr)
    have "list_all2 (same_meaning kw) xs cs" using L [of "path @ [key]" cs] cs(1) ok(2) xs by simp
    from accepts_combinator [OF this 6(1)] show ?thesis
      by (intro keep [OF cs(2)]) (use 6(1) xs in \<open>auto simp: skipped_def target_key_def\<close>)
  next
    case 7
    then obtain c' where c': "convertSchema child (path @ [''not'']) = Inr c'" "convert_keywords node path rest (obj_set ''not'' c' result) = Inr res"
      using step by (auto simp: rbind_eq_Inr)
    show ?thesis by (rule keep [OF c'(2)])
      (use 7 S [OF c'(1) ok(2)] converted_is_object [OF c'(1)] in \<open>simp_all add: not_skipped target_key_def accepts_key_def same_meaning_def\<close>)
  next
    case 8
    show ?thesis
    proof (cases "\<exists>b. child = JBool b")
      case True
      then have "convert_keywords node path rest (obj_set ''additionalProperties'' child result) = Inr res" using step 8 by auto
      then show ?thesis by (rule keep) (use 8 in \<open>simp_all add: not_skipped target_key_def\<close>)
    next
      case False
      then obtain c' where c': "isJsonObject child" "convertSchema child (path @ [''additionalProperties'']) = Inr c'"
        "convert_keywords node path rest (obj_set ''additionalProperties'' c' result) = Inr res"
        using step 8 False by (cases child) (auto simp: rbind_eq_Inr split: if_splits)
      show ?thesis by (rule keep [OF c'(3)])
        (use 8 c'(1) S [OF c'(2) ok(2)] converted_is_object [OF c'(2)] in \<open>simp_all add: not_skipped target_key_def accepts_key_def same_meaning_def\<close>)
    qed
  next
    case plain
    show ?thesis by (rule keep [OF plain(3)]) (use plain in simp_all)
  qed
qed


lemma meaning_property:
  assumes "same_meaning kw property c" and "converts_properties kw rest (obj_set name c result) res" and "\<not> jm_has result name"
  shows "converts_properties kw ((name, property) # rest) result res"
proof -
  have "property_accepts kw fs (name, c) = property_accepts kw fs (name, property)" for fs
    using assms(1) by (simp add: property_accepts_def same_meaning_def)
  then show ?thesis using assms(2,3) by (auto simp: converts_properties_def set_obj_set_fresh)
qed

definition preserved :: "keyword_meaning \<Rightarrow> jsval \<Rightarrow> bool" where
  "preserved kw v \<longleftrightarrow> (\<forall>path c. convertSchema v path = Inr c \<longrightarrow> regular kw v \<longrightarrow> same_meaning kw v c)"

lemma list_meaning:
  "convert_list xs path i = Inr ys \<Longrightarrow> \<forall>x \<in> set xs. regular kw x \<and> preserved kw x \<Longrightarrow> list_all2 (same_meaning kw) xs ys"
  by (induction xs arbitrary: i ys) (auto simp: rbind_eq_Inr preserved_def)

lemma properties_meaning:
  "convert_properties ps path acc = Inr qs \<Longrightarrow> \<forall>(k, s) \<in> set ps. regular kw s \<and> preserved kw s \<Longrightarrow> distinct (map fst ps @ map fst acc) \<Longrightarrow>
     converts_properties kw ps acc qs"
proof (induction ps arbitrary: acc)
  case Nil
  then show ?case by (simp add: converts_properties_def)
next
  case (Cons nq ps)
  obtain name q where nq: "nq = (name, q)" by fastforce
  obtain c where c: "convertSchema q (path @ [name]) = Inr c" "convert_properties ps path (obj_set name c acc) = Inr qs"
    using Cons.prems(1) by (auto simp: nq rbind_eq_Inr)
  have d: "\<not> jm_has acc name" "name \<notin> fst ` set ps" using Cons.prems(3) by (auto simp: nq jm_has_iff)
  have "distinct (map fst (obj_set name c acc))" using Cons.prems(3) jm_wf_obj_set [of acc name c] by (simp add: jm_wf_def)
  then have "distinct (map fst ps @ map fst (obj_set name c acc))" using Cons.prems(3) d by (auto simp: nq)
  with Cons c have "converts_properties kw ps (obj_set name c acc) qs" by simp
  moreover have "same_meaning kw q c" using Cons.prems(2) c(1) by (auto simp: nq preserved_def)
  ultimately show ?case unfolding nq using meaning_property d(1) by blast
qed

lemma keywords_meaning:
  assumes "keyword_laws kw"
  shows "convert_keywords node path rest result = Inr res \<Longrightarrow> rest_ok kw rest \<Longrightarrow> fresh_keys rest result \<Longrightarrow>
    \<forall>(k, child) \<in> set rest. preserved kw child \<and> (\<forall>(p, s) \<in> set (js_entries child). preserved kw s) \<and> (\<forall>s \<in> set (elements child). preserved kw s) \<Longrightarrow>
    converts kw rest result res"
proof (induction rest arbitrary: result res)
  case Nil
  then show ?case by (simp add: converts_def accepts_node_def jm_has_def)
next
  case (Cons kc rest)
  obtain key child where kc: "kc = (key, child)" by fastforce
  have p: "preserved kw child" "\<forall>(p, s) \<in> set (js_entries child). preserved kw s" "\<forall>s \<in> set (elements child). preserved kw s"
    using Cons.prems(4) by (auto simp: kc)
  show ?case unfolding kc
  proof (rule meaning_step [OF assms _ _ _ _ Cons.prems(1-3) [unfolded kc]])
    show "same_meaning kw child c'" if "convertSchema child path = Inr c'" "regular kw child" for path c' using p(1) that by (simp add: preserved_def)
    show "list_all2 (same_meaning kw) (elements child) cs" if "convert_list (elements child) path 0 = Inr cs" "regular kw child" for path cs
      using list_meaning [OF that(1)] p(3) regular_element [OF that(2)] by blast
    show "converts_properties kw (js_entries child) [] ps" if "convert_properties (js_entries child) path [] = Inr ps" "regular kw child" for path ps
    proof (rule properties_meaning [OF that(1)])
      show "\<forall>(k, s) \<in> set (js_entries child). regular kw s \<and> preserved kw s" using p(2) regular_entry [OF that(2)] by blast
      show "distinct (map fst (js_entries child) @ map fst [])" using that(2) by (cases child) (auto simp: regular_def node_ok_def)
    qed
  qed (use Cons in \<open>auto simp: kc\<close>)
qed


lemma keyword_continues:
  assumes "convert_keywords node path ((key, child) # rest) result = Inr res"
  shows "(\<exists>result'. convert_keywords node path rest result' = Inr res) \<and> (key = ''format'' \<longrightarrow> (\<exists>p. obj_get node ''pattern'' = JStr p))"
proof -
  note step = assms [unfolded convert_keywords.simps(2)]
  consider "key = ''format''" | "key = ''$schema'' \<or> key = ''~standard'' \<or> key = ''readOnly''" | "key = ''type''" | "key = ''const''" | "key = ''properties''" "isJsonObject child" | "key = ''items''"
    | "key \<in> {''allOf'', ''anyOf'', ''oneOf''}" "isArray child" | "key = ''not''" "isJsonObject child" | "key = ''additionalProperties''"
    | (plain) "key \<noteq> ''format''" "convert_keywords node path rest (obj_set key child result) = Inr res"
    using step by (auto split: if_splits)
  then show ?thesis
  proof cases
    case 1
    then show ?thesis using step by (simp split: jsval.splits) blast
  next
    case 2
    then show ?thesis using step by (elim disjE) (simp_all, blast+)
  next
    case 7
    then show ?thesis using step by (elim insertE emptyE) (simp_all add: rbind_eq_Inr, blast+)
  next
    case 9
    then show ?thesis using step by (cases child) (auto simp: rbind_eq_Inr split: if_splits)
  next
    case plain
    then show ?thesis by blast
  qed (use step in \<open>auto simp: rbind_eq_Inr split: if_splits\<close>)
qed

lemma format_has_pattern:
  "convert_keywords node path rest result = Inr res \<Longrightarrow> ''format'' \<in> fst ` set rest \<Longrightarrow> \<exists>p. obj_get node ''pattern'' = JStr p"
proof (induction rest arbitrary: result)
  case (Cons kc rest)
  obtain k c where kc: "kc = (k, c)" by fastforce
  from keyword_continues [OF Cons.prems(1) [unfolded kc]] obtain result' where
    r: "convert_keywords node path rest result' = Inr res" "k = ''format'' \<longrightarrow> (\<exists>p. obj_get node ''pattern'' = JStr p)" by blast
  show ?case using Cons.IH [OF r(1)] r(2) Cons.prems(2) by (auto simp: kc)
qed simp

lemma node_fresh: "node_ok kw node \<Longrightarrow> fresh_keys node []"
proof -
  assume n: "node_ok kw node"
  have no: "\<not> (''const'' \<in> fst ` set node \<and> ''enum'' \<in> fst ` set node)" "\<not> (''type'' \<in> fst ` set node \<and> ''bsonType'' \<in> fst ` set node)"
    using n by (simp_all add: node_ok_def jm_has_iff)
  have "inj_on target_key (fst ` set node)"
  proof (rule inj_onI)
    fix x y
    assume "x \<in> fst ` set node" "y \<in> fst ` set node" "target_key x = target_key y"
    then show "x = y" using no unfolding target_key_def
      by (cases "x = ''type''"; cases "x = ''const''"; cases "y = ''type''"; cases "y = ''const''"; simp)
  qed
  then have "inj_on target_key (set (filter (\<lambda>k. \<not> skipped k) (map fst node)))" by (rule inj_on_subset) auto
  then show "fresh_keys node []" using n by (simp add: fresh_keys_def distinct_map node_ok_def)
qed

lemma accepts_skipping:
  assumes "keyword_laws kw" and "node_ok kw node" and "''format'' \<in> fst ` set node \<Longrightarrow> \<exists>p. obj_get node ''pattern'' = JStr p"
  shows "accepts kw (JObj node) doc \<longleftrightarrow> accepts_node kw (property_names node) node doc"
proof -
  have annotated: "accepts_key kw (property_names node) k c doc" if a: "accepts_node kw (property_names node) node doc" and k: "(k, c) \<in> set node" "skipped k" for k c
  proof (cases "k = ''format''")
    case True
    then obtain p where p: "obj_get node ''pattern'' = JStr p" using assms(3) k(1) by force
    then have "map_of node ''pattern'' = Some (JStr p)" by (auto simp: obj_get_def split: option.splits)
    moreover from this have "kw ''pattern'' (JStr p) doc"
      using a [unfolded accepts_node_def, THEN bspec, OF map_of_SomeD] by (simp add: skipped_def accepts_key_def)
    moreover have "map_of node ''format'' = Some c" using assms(2) k(1) True by (simp add: node_ok_def)
    ultimately have "kw ''format'' c doc" using assms(2) unfolding node_ok_def by blast
    then show ?thesis using True by (simp add: accepts_key_def)
  next
    case False
    then have k': "k \<in> {''$schema'', ''~standard'', ''readOnly''}" using k(2) by (simp add: skipped_def)
    then have "kw k c doc" using assms(1) unfolding keyword_laws_def by blast
    then show ?thesis using k' by (elim insertE emptyE) (simp_all add: accepts_key_def)
  qed
  have "accepts_key kw (property_names node) k c doc" if "accepts_node kw (property_names node) node doc" "(k, c) \<in> set node" for k c
    using that annotated by (cases "skipped k") (auto simp: accepts_node_def)
  then show ?thesis unfolding accepts_iff by (auto simp: accepts_node_def)
qed

lemma convert_preserved: "keyword_laws kw \<Longrightarrow> preserved kw v"
proof (induction v rule: measure_induct_rule [where f = weight])
  case (less v)
  show ?case unfolding preserved_def
  proof (intro allI impI)
    fix path c
    assume c: "convertSchema v path = Inr c" and r: "regular kw v"
    have "js_entries v \<noteq> []" using c unfolding convertSchema.simps [of v] by (simp split: if_splits)
    then obtain node where v: "v = JObj node" "node \<noteq> []" by (cases v) simp_all
    have n: "node_ok kw node" using r by (simp add: v regular_def)
    then have t: "tuple_items node = None" by (auto simp: node_ok_def tuple_items_def split: jsval.splits)
    obtain res where res: "convert_keywords node path node [] = Inr res" "c = JObj res"
      using c v(2) t by (auto simp: v(1) convertSchema.simps [of "JObj node"] isJsonObject_def finish_node_def rbind_eq_Inr split: if_splits)
    have ok: "rest_ok kw node" using n regular_child [OF r [unfolded v(1)]] by (auto simp: rest_ok_def node_ok_def obj_get_def)
    have light: "weight s < weight v" if "(k, child) \<in> set node" "s = child \<or> (\<exists>p. (p, s) \<in> set (js_entries child)) \<or> s \<in> set (elements child)" for k child s
      using that entry_lighter [of k child v] nested_entry_lighter [of k child v] nested_element_lighter [of k child v] by (auto simp: v)
    have "\<forall>(k, child) \<in> set node. preserved kw child \<and> (\<forall>(p, s) \<in> set (js_entries child). preserved kw s) \<and> (\<forall>s \<in> set (elements child). preserved kw s)"
      using less.IH [OF _ less.prems] light by blast
    from keywords_meaning [OF less.prems res(1) ok node_fresh [OF n] this] have "converts kw node [] res" .
    then have "accepts_node kw names res doc \<longleftrightarrow> accepts_node kw names [] doc \<and> accepts_node kw names node doc"
      "property_names res = (if jm_has node ''properties'' then property_names node else property_names [])"
      "\<forall>k \<in> fst ` set res. k \<in> fst ` set ([] :: jsobj) \<or> \<not> skipped k" for names doc unfolding converts_def by blast+
    moreover have "\<not> jm_has node ''properties'' \<Longrightarrow> property_names node = property_names []"
      by (simp add: property_names_def obj_get_def jm_has_def)
    ultimately have cv: "accepts_node kw names res doc \<longleftrightarrow> accepts_node kw names node doc" "property_names res = property_names node"
      "\<forall>(k, c) \<in> set res. \<not> skipped k" for names doc
      by (auto simp: accepts_node_def)
    have "accepts kw c doc \<longleftrightarrow> accepts_node kw (property_names res) res doc" for doc
      unfolding accepts_iff res(2) js_entries.simps accepts_node_def using cv(3) by blast
    then show "same_meaning kw v c"
      using accepts_skipping [OF less.prems n] format_has_pattern [OF res(1)] by (simp add: same_meaning_def v(1) cv)
  qed
qed



definition bson_name :: "jsval \<Rightarrow> string" where
  "bson_name doc = (case doc of JObj _ \<Rightarrow> ''object'' | JArr _ \<Rightarrow> ''array'' | JStr _ \<Rightarrow> ''string'' | JBool _ \<Rightarrow> ''bool''
     | JNum _ \<Rightarrow> ''double'' | JNull \<Rightarrow> ''null'' | JObjectId _ \<Rightarrow> ''objectId'' | _ \<Rightarrow> ''date'')"

definition sample_keywords :: keyword_meaning where
  "sample_keywords k c doc =
     (let bson = (\<lambda>t. JStr (bson_name doc) = t \<or> JStr (bson_name doc) \<in> set (elements t)) in
      if k = ''type'' then (case convertJsonTypes c of Inr t \<Rightarrow> bson t | Inl _ \<Rightarrow> True)
      else if k = ''bsonType'' then bson c
      else if k = ''enum'' then doc \<in> set (elements c)
      else if k = ''const'' then doc = c
      else if k = ''required'' then list_all (\<lambda>p. case p of JStr n \<Rightarrow> jm_has (js_entries doc) n | _ \<Rightarrow> True) (elements c)
      else True)"

definition sample_schema :: jsval where
  "sample_schema = JObj [(''$schema'', JStr ''draft-04''), (''type'', JStr ''object''),
     (''properties'', JObj [(''name'', JObj [(''type'', JStr ''string'')]), (''kind'', JObj [(''const'', JStr ''board'')]),
        (''tags'', JObj [(''type'', JStr ''array''), (''items'', JObj [(''anyOf'', JArr [JObj [(''type'', JStr ''number'')], JObj [(''type'', JStr ''null'')]])])])]),
     (''required'', JArr [JStr ''name'']), (''additionalProperties'', JBool False)]"

lemma sample_keyword_laws: "keyword_laws sample_keywords"
  by (auto simp: keyword_laws_def sample_keywords_def Let_def)


section \<open>Generated identifiers\<close>

lemma map_of_foldl_set: "map_of (foldl (\<lambda>ps (k, v). obj_set k v ps) acc kvs) p = (case map_of (rev kvs) p of Some v \<Rightarrow> Some v | None \<Rightarrow> map_of acc p)"
  by (induction kvs arbitrary: acc) (auto simp: map_add_def split: option.splits)

text \<open>A compiled object schema that declares no identifier accepts the one the database generates, and keeps its properties.\<close>

lemma generated_id_declared:
  assumes "obj_get node ''bsonType'' = JStr ''object''" and "obj_get node ''properties'' = JObj ps" and "\<not> jm_has ps ''_id''" and "distinct (map fst ps)"
  shows "\<exists>node' ps'. allowGeneratedObjectId (JObj node) = JObj node' \<and> obj_get node' ''properties'' = JObj ps' \<and>
    obj_get ps' ''_id'' = JObj [(''bsonType'', JStr ''objectId'')] \<and> (\<forall>p. p \<noteq> ''_id'' \<longrightarrow> obj_get ps' p = obj_get ps p) \<and>
    (\<forall>k. k \<noteq> ''properties'' \<longrightarrow> obj_get node' k = obj_get node k)"
proof -
  have "distinct (map fst (rev ps))" using assms(4) by (simp add: rev_map [symmetric])
  then have r: "map_of (rev ps) = map_of ps" using assms(4) by (simp add: map_of_inject_set)
  show ?thesis using assms(1-3)
    by (simp add: allowGeneratedObjectId.simps [of "JObj node"] isJsonObject_def Let_def)
      (auto simp: obj_get_def map_of_foldl_set r jm_has_def split: option.splits)
qed

end
