(* ===== verification/ServerLife.thy ===== *)
theory ServerLife
  imports ServerProps
begin

text \<open>
  The life of a server process (\<open>src/server/server.ts\<close>) and the cluster it may belong to
  (\<open>src/server/transports/redis-transport.ts\<close>): construction, readiness, shutdown, and the events that
  servers exchange over Redis. Several servers live in one process, which has the one global variable
  \<open>TypeFerry\<close>. Redis is a bus: what a connected publisher publishes is queued for every subscribed server.
\<close>

section \<open>State\<close>

text \<open>How far \<open>RedisTransport.connect\<close> has come: clients created, each connected, then subscribed.\<close>

datatype redis_phase = RedisCreated | PublisherOpen | BothOpen | Subscribed | RedisFailed | RedisClosed

text \<open>\<open>closeTransports\<close> up to its next wait; a rejection of one transport ends it.\<close>

datatype close_phase = Running | ClosingRedis | ClosingWebSocket | ClosingHttp | ShutDown | CloseRejected

record app_server =
  as_server :: server
  as_host :: string
  as_port :: jsval
  as_redis :: "redis_phase option"
  as_awaiting :: "string list option"
  as_ready :: bool
  as_waiters :: "nat list"
  as_resolved :: "nat list"
  as_isAuthEnabled :: bool
  as_wsOpen :: bool
  as_httpOpen :: bool
  as_close :: close_phase

type_synonym redis_msg = "string \<times> string \<times> jsval \<times> string option"

record node_process =
  pr_servers :: "app_server list"
  pr_global :: "nat option"
  pr_bus :: "(nat \<times> redis_msg) list"

definition update_server :: "nat \<Rightarrow> (app_server \<Rightarrow> app_server) \<Rightarrow> node_process \<Rightarrow> node_process" where
  "update_server i f p = p\<lparr>pr_servers := (pr_servers p)[i := f (pr_servers p ! i)]\<rparr>"

section \<open>Construction\<close>

record server_options =
  op_host :: "string option"
  op_port :: jsval
  op_redis :: bool
  op_globalInstance :: "bool option"
  op_auth :: bool
  op_shouldAllowChannelSubscribe :: "(client_node \<Rightarrow> string \<Rightarrow> bool js) option"

definition empty_server :: "bool \<Rightarrow> server" where
  "empty_server redis = \<lparr>sv_methods = [], sv_events = [], sv_allClients = [], sv_clientsByUserId = [], sv_channels = [],
      sv_rooms = new_registry, sv_nodes = [], sv_open = [], sv_allowChannel = (\<lambda>_ _. Inr True), sv_redis = redis,
      sv_sent = [], sv_closing = [], sv_published = [], sv_signals = []\<rparr>"

definition HTTP_LISTENING :: string where
  "HTTP_LISTENING = ''http:listening''"

definition REDIS_CONNECT :: string where
  "REDIS_CONNECT = ''redis:connect''"

definition METHOD_REFRESH :: string where
  "METHOD_REFRESH = ''typeferry:method:refresh''"

text \<open>The constructor stores the instance in the global variable before it checks its arguments.\<close>

definition new_server :: "host \<Rightarrow> server_options \<Rightarrow> node_process \<Rightarrow> js_error option \<times> node_process" where
  "new_server h opts p =
     (let hostName = (case op_host opts of None \<Rightarrow> ''localhost'' | Some n \<Rightarrow> n);
          port = (if op_port opts = JUndef then jint 80 else op_port opts);
          globalInstance = (op_globalInstance opts \<noteq> Some False);
          i = length (pr_servers p);
          p1 = (if globalInstance then p\<lparr>pr_global := Some i\<rparr> else p) in
      if globalInstance \<and> pr_global p \<noteq> None then (Some (Error ''There can only be one instance of TypeFerry.''), p)
      else if hostName = [] then (Some (Error ''Invalid Host''), p1)
      else if port = JNull then (Some (Error ''Invalid Port''), p1)
      else
        (let s = createDefaultMethods (empty_server (op_redis opts));
             s1 = addEvent h METHOD_REFRESH \<lparr>eo_protected = None, eo_user = False, eo_shouldSubscribe = None, eo_cluster = False, eo_excludeOriginator = False\<rparr> s;
             s2 = s1\<lparr>sv_channels := js_add NO_CHANNEL (sv_channels s1)\<rparr> in
         (None, p1\<lparr>pr_servers := pr_servers p @
            [\<lparr>as_server = s2, as_host = hostName, as_port = JNum (to_number h port),
              as_redis = (if op_redis opts then Some RedisCreated else None),
              as_awaiting = Some (HTTP_LISTENING # (if op_redis opts then [REDIS_CONNECT] else [])), as_ready = False,
              as_waiters = [], as_resolved = [], as_isAuthEnabled = False, as_wsOpen = True, as_httpOpen = True, as_close = Running\<rparr>]\<rparr>)))"

section \<open>Readiness\<close>

text \<open>
  \<open>readiness e\<close>: the server emits \<open>e\<close>, and the wait for it resolves. When the last one resolves the server
  is ready and everyone waiting for \<open>READY\<close> is told. A timeout of one wait rejects them all.
\<close>

definition readiness :: "string \<Rightarrow> app_server \<Rightarrow> app_server" where
  "readiness e a =
     (case as_awaiting a of
        None \<Rightarrow> a
      | Some events \<Rightarrow>
          if e \<notin> set events then a
          else if remove1 e events \<noteq> [] then a\<lparr>as_awaiting := Some (remove1 e events)\<rparr>
          else a\<lparr>as_awaiting := Some [], as_ready := True, as_resolved := as_resolved a @ as_waiters a, as_waiters := []\<rparr>)"

definition readiness_timeout :: "app_server \<Rightarrow> app_server" where
  "readiness_timeout a = (if as_awaiting a = Some [] then a else a\<lparr>as_awaiting := None\<rparr>)"

definition isReady :: "nat \<Rightarrow> app_server \<Rightarrow> app_server" where
  "isReady caller a =
     (if as_ready a then a\<lparr>as_resolved := as_resolved a @ [caller]\<rparr> else a\<lparr>as_waiters := as_waiters a @ [caller]\<rparr>)"

definition setAuth :: "method_fn \<Rightarrow> app_server \<Rightarrow> app_server" where
  "setAuth logIn a =
     a\<lparr>as_isAuthEnabled := True,
       as_server := addMethod ''rpc:login'' logIn \<lparr>mo_cache = False, mo_maxAge = None, mo_protected = None, mo_middleware = [], mo_schema = None, mo_sensitive = None\<rparr> (as_server a)\<rparr>"

definition setChannelAuthorization :: "(client_node \<Rightarrow> string \<Rightarrow> bool js) \<Rightarrow> app_server \<Rightarrow> app_server" where
  "setChannelAuthorization checker a = a\<lparr>as_server := (as_server a)\<lparr>sv_allowChannel := checker\<rparr>\<rparr>"

section \<open>Redis\<close>

text \<open>\<open>connect\<close>: each of its waits is answered or rejected; after the subscription the server is told.\<close>

definition redis_connect :: "bool \<Rightarrow> app_server \<Rightarrow> app_server" where
  "redis_connect ok a =
     (case as_redis a of
        Some phase \<Rightarrow>
          if phase \<notin> {RedisCreated, PublisherOpen, BothOpen} then a
          else if \<not> ok then a\<lparr>as_redis := Some RedisFailed\<rparr>
          else (case phase of
                  RedisCreated \<Rightarrow> a\<lparr>as_redis := Some PublisherOpen\<rparr>
                | PublisherOpen \<Rightarrow> a\<lparr>as_redis := Some BothOpen\<rparr>
                | _ \<Rightarrow> readiness REDIS_CONNECT (a\<lparr>as_redis := Some Subscribed\<rparr>))
      | None \<Rightarrow> a)"

text \<open>
  \<open>publish\<close>: what the server hands to its publisher goes to every subscribed server, itself included; the
  messages of a server whose publisher is gone are dropped.
\<close>

definition bus_receivers :: "node_process \<Rightarrow> nat list" where
  "bus_receivers p = filter (\<lambda>j. as_redis (pr_servers p ! j) = Some Subscribed) [0..<length (pr_servers p)]"

definition publish :: "nat \<Rightarrow> node_process \<Rightarrow> node_process" where
  "publish i p =
     (let a = pr_servers p ! i; msgs = sv_published (as_server a);
          p1 = update_server i (\<lambda>a. a\<lparr>as_server := (as_server a)\<lparr>sv_published := []\<rparr>\<rparr>) p in
      if as_redis a = Some RedisClosed \<or> as_redis a = None then p1
      else p1\<lparr>pr_bus := pr_bus p1 @ concat (map (\<lambda>m. map (\<lambda>j. (j, m)) (bus_receivers p)) msgs)\<rparr>)"

definition cluster_emit :: "nat \<Rightarrow> string \<Rightarrow> string \<Rightarrow> string \<Rightarrow> jsval \<Rightarrow> node_process \<Rightarrow> node_process" where
  "cluster_emit i uuid ch name params p =
     publish i (update_server i (\<lambda>a. a\<lparr>as_server := emit_channel uuid ch name params (as_server a)\<rparr>) p)"

text \<open>The subscriber's callback.\<close>

definition bus_deliver :: "node_process \<Rightarrow> node_process" where
  "bus_deliver p =
     (case pr_bus p of
        [] \<Rightarrow> p
      | (j, m) # rest \<Rightarrow>
          update_server j (\<lambda>a. if as_redis a = Some Subscribed then a\<lparr>as_server := redis_message m (as_server a)\<rparr> else a) (p\<lparr>pr_bus := rest\<rparr>))"

text \<open>\<open>close\<close>, once its commands are answered: the clients quit and are dropped.\<close>

definition redis_close :: "app_server \<Rightarrow> app_server" where
  [simp]: "redis_close a = a\<lparr>as_redis := Some RedisClosed\<rparr>"

record redis_stats =
  rs_clientCount :: nat
  rs_userCount :: nat
  rs_users :: "string list"

text \<open>\<open>getStats\<close>, given the keys of Redis: the sets of servers, and of clients and users per server.\<close>

definition getStats :: "string list \<Rightarrow> (string \<Rightarrow> string list) \<Rightarrow> (string \<Rightarrow> string list) \<Rightarrow> app_server \<Rightarrow> redis_stats" where
  "getStats servers clients users a =
     (if as_redis a = None \<or> as_redis a = Some RedisClosed then \<lparr>rs_clientCount = 0, rs_userCount = 0, rs_users = []\<rparr>
      else \<lparr>rs_clientCount = sum_list (map (\<lambda>s. length (clients s)) servers), rs_userCount = sum_list (map (\<lambda>s. length (users s)) servers),
            rs_users = foldl (\<lambda>us u. js_add u us) [] (concat (map users servers))\<rparr>)"

section \<open>Shutdown\<close>

definition close_nodes :: "server \<Rightarrow> server" where
  "close_nodes s = foldl (\<lambda>s i. close_node i s) s (map snd (sv_allClients s))"

definition clear_registries :: "server \<Rightarrow> server" where
  "clear_registries s = s\<lparr>sv_allClients := [], sv_clientsByUserId := [], sv_methods := [], sv_channels := []\<rparr>"

text \<open>\<open>close()\<close>: the first call starts the shutdown, later ones get its promise.\<close>

definition server_close :: "app_server \<Rightarrow> app_server" where
  "server_close a =
     (if as_close a \<noteq> Running then a
      else a\<lparr>as_server := clear_registries (close_nodes (as_server a)), as_close := (if as_redis a = None then ClosingWebSocket else ClosingRedis)\<rparr>)"

text \<open>
  The transport that the shutdown waits for closes (\<open>ok\<close>) or rejects. At the end the global variable is
  deleted and \<open>CLOSED\<close> is emitted.
\<close>

definition close_stage :: "bool \<Rightarrow> nat \<Rightarrow> node_process \<Rightarrow> node_process" where
  "close_stage ok i p =
     (let a = pr_servers p ! i in
      if as_close a \<notin> {ClosingRedis, ClosingWebSocket, ClosingHttp} then p
      else if \<not> ok then update_server i (\<lambda>a. a\<lparr>as_close := CloseRejected\<rparr>) p
      else
        (case as_close a of
           ClosingRedis \<Rightarrow> update_server i (\<lambda>a. (redis_close a)\<lparr>as_close := ClosingWebSocket\<rparr>) p
         | ClosingWebSocket \<Rightarrow> update_server i (\<lambda>a. a\<lparr>as_wsOpen := False, as_close := ClosingHttp\<rparr>) p
         | _ \<Rightarrow> (update_server i (\<lambda>a. a\<lparr>as_httpOpen := False, as_close := ShutDown\<rparr>) p)\<lparr>pr_global := None\<rparr>))"

section \<open>Steps\<close>

datatype life_label =
    Listening nat
  | RedisAnswered bool nat
  | ReadyTimeout nat
  | AskReady nat nat
  | CloseServer nat
  | Stage bool nat

fun life_step :: "life_label \<Rightarrow> node_process \<Rightarrow> node_process" where
  "life_step (Listening i) p = update_server i (readiness HTTP_LISTENING) p"
| "life_step (RedisAnswered ok i) p = update_server i (redis_connect ok) p"
| "life_step (ReadyTimeout i) p = update_server i readiness_timeout p"
| "life_step (AskReady caller i) p = update_server i (isReady caller) p"
| "life_step (CloseServer i) p = update_server i server_close p"
| "life_step (Stage ok i) p = close_stage ok i p"

fun label_server :: "life_label \<Rightarrow> nat" where
  "label_server (Listening i) = i"
| "label_server (RedisAnswered _ i) = i"
| "label_server (ReadyTimeout i) = i"
| "label_server (AskReady _ i) = i"
| "label_server (CloseServer i) = i"
| "label_server (Stage _ i) = i"

inductive life_run :: "host \<Rightarrow> node_process \<Rightarrow> bool" for h where
  start: "life_run h \<lparr>pr_servers = [], pr_global = None, pr_bus = []\<rparr>"
| constructs: "life_run h p \<Longrightarrow> life_run h (snd (new_server h opts p))"
| steps: "life_run h p \<Longrightarrow> label_server l < length (pr_servers p) \<Longrightarrow> life_run h (life_step l p)"

section \<open>Readiness and shutdown are consistent\<close>

definition started :: "redis_phase \<Rightarrow> bool" where
  "started ph \<longleftrightarrow> ph = Subscribed \<or> ph = RedisClosed"

definition ready_ok :: "app_server \<Rightarrow> bool" where
  "ready_ok a \<longleftrightarrow>
     (as_ready a \<longleftrightarrow> as_awaiting a = Some []) \<and> (as_ready a \<longrightarrow> as_waiters a = []) \<and> (\<not> as_ready a \<longrightarrow> as_resolved a = []) \<and>
     (\<forall>es. as_awaiting a = Some es \<longrightarrow> distinct es \<and> (REDIS_CONNECT \<notin> set es \<longrightarrow> (case as_redis a of None \<Rightarrow> True | Some ph \<Rightarrow> started ph)))"

definition shut_ok :: "app_server \<Rightarrow> bool" where
  "shut_ok a \<longleftrightarrow>
     (case as_close a of
        Running \<Rightarrow> as_wsOpen a \<and> as_httpOpen a \<and> as_redis a \<noteq> Some RedisClosed
      | ClosingRedis \<Rightarrow> as_redis a \<noteq> None
      | ClosingWebSocket \<Rightarrow> as_redis a = None \<or> as_redis a = Some RedisClosed
      | ClosingHttp \<Rightarrow> \<not> as_wsOpen a \<and> (as_redis a = None \<or> as_redis a = Some RedisClosed)
      | ShutDown \<Rightarrow> \<not> as_wsOpen a \<and> \<not> as_httpOpen a \<and> (as_redis a = None \<or> as_redis a = Some RedisClosed)
      | CloseRejected \<Rightarrow> True) \<and>
     (as_close a \<noteq> Running \<longrightarrow> sv_allClients (as_server a) = [] \<and> sv_clientsByUserId (as_server a) = [] \<and> sv_methods (as_server a) = [] \<and> sv_channels (as_server a) = [])"

lemma readiness_ready:
  assumes "ready_ok a" and "e = REDIS_CONNECT \<Longrightarrow> (case as_redis a of None \<Rightarrow> True | Some ph \<Rightarrow> started ph)"
  shows "ready_ok (readiness e a)"
proof (cases "\<exists>es. as_awaiting a = Some es \<and> e \<in> set es")
  case False
  then show ?thesis using assms(1) by (auto simp: readiness_def split: option.splits)
next
  case True
  then obtain es where es: "as_awaiting a = Some es" "e \<in> set es" by blast
  then have n: "distinct es" "\<not> as_ready a" "REDIS_CONNECT \<notin> set es \<Longrightarrow> (case as_redis a of None \<Rightarrow> True | Some ph \<Rightarrow> started ph)"
    using assms(1) by (auto simp: ready_ok_def)
  then have r: "REDIS_CONNECT \<notin> set (remove1 e es) \<Longrightarrow> (case as_redis a of None \<Rightarrow> True | Some ph \<Rightarrow> started ph)"
    using assms(2) by auto
  show ?thesis
  proof (cases "remove1 e es = []")
    case True
    then show ?thesis using es n r by (simp add: readiness_def ready_ok_def)
  next
    case False
    then show ?thesis using es n r assms(1) by (simp add: readiness_def ready_ok_def)
  qed
qed

lemma readiness_shut [simp]: "shut_ok (readiness e a) = shut_ok a"
  by (simp add: readiness_def shut_ok_def split: option.splits close_phase.splits)

lemma redis_connect_ready: "ready_ok a \<Longrightarrow> ready_ok (redis_connect ok a)"
proof (cases "as_redis a")
  case (Some ph)
  assume a: "ready_ok a"
  have keep: "ready_ok (a\<lparr>as_redis := Some ph'\<rparr>)" if "ph \<in> {RedisCreated, PublisherOpen, BothOpen}" for ph'
    using a that Some unfolding ready_ok_def by (auto simp: started_def)
  have "ready_ok (readiness REDIS_CONNECT (a\<lparr>as_redis := Some Subscribed\<rparr>))" if "ph = BothOpen"
    using keep that by (intro readiness_ready) (auto simp: started_def)
  then show ?thesis using a keep Some by (cases ph) (auto simp: redis_connect_def)
qed (simp add: redis_connect_def)

lemma redis_connect_shut: "shut_ok a \<Longrightarrow> shut_ok (redis_connect ok a)"
  by (auto simp: redis_connect_def split: option.splits redis_phase.splits) (auto simp: shut_ok_def split: close_phase.splits)

lemma timeout_ok: "ready_ok a \<Longrightarrow> ready_ok (readiness_timeout a)" "shut_ok (readiness_timeout a) = shut_ok a"
  by (auto simp: readiness_timeout_def ready_ok_def shut_ok_def split: close_phase.splits)

lemma isReady_ok: "ready_ok a \<Longrightarrow> ready_ok (isReady caller a)" "shut_ok (isReady caller a) = shut_ok a"
  by (auto simp: isReady_def ready_ok_def shut_ok_def split: close_phase.splits)

lemma close_ok: "ready_ok a \<Longrightarrow> ready_ok (server_close a)" "shut_ok a \<Longrightarrow> shut_ok (server_close a)"
  by (auto simp: server_close_def ready_ok_def shut_ok_def clear_registries_def)

definition staged :: "bool \<Rightarrow> app_server \<Rightarrow> app_server" where
  "staged ok a =
     (if as_close a \<notin> {ClosingRedis, ClosingWebSocket, ClosingHttp} then a
      else if \<not> ok then a\<lparr>as_close := CloseRejected\<rparr>
      else
        (case as_close a of
           ClosingRedis \<Rightarrow> a\<lparr>as_redis := Some RedisClosed, as_close := ClosingWebSocket\<rparr>
         | ClosingWebSocket \<Rightarrow> a\<lparr>as_wsOpen := False, as_close := ClosingHttp\<rparr>
         | _ \<Rightarrow> a\<lparr>as_httpOpen := False, as_close := ShutDown\<rparr>))"

lemma close_stage_servers: "pr_servers (close_stage ok i p) = (pr_servers p)[i := staged ok (pr_servers p ! i)]"
  by (auto simp: close_stage_def staged_def update_server_def Let_def list_update_id split: close_phase.splits)

lemma staged_ok: "ready_ok a \<Longrightarrow> ready_ok (staged ok a)" "shut_ok a \<Longrightarrow> shut_ok (staged ok a)"
  by (cases "as_close a"; auto simp: staged_def ready_ok_def shut_ok_def started_def)+

lemma events_differ: "HTTP_LISTENING \<noteq> REDIS_CONNECT" "REDIS_CONNECT \<noteq> HTTP_LISTENING"
  by (simp_all add: HTTP_LISTENING_def REDIS_CONNECT_def)

lemma update_all: "\<forall>a \<in> set (pr_servers p). P a \<Longrightarrow> (\<And>a. P a \<Longrightarrow> P (f a)) \<Longrightarrow> i < length (pr_servers p) \<Longrightarrow> \<forall>a \<in> set (pr_servers (update_server i f p)). P a"
  by (auto simp: update_server_def dest!: set_update_subset_insert [THEN subsetD])

lemma run_life_ok: "life_run h p \<Longrightarrow> \<forall>a \<in> set (pr_servers p). ready_ok a \<and> shut_ok a"
proof (induction rule: life_run.induct)
  case (constructs p opts)
  then show ?case by (auto simp: new_server_def Let_def ready_ok_def shut_ok_def events_differ)
next
  case (steps p l)
  note up = update_all [OF steps.IH _ steps.hyps(2)]
  show ?case
  proof (cases l)
    case (Listening i)
    then show ?thesis using up [of "readiness HTTP_LISTENING"] readiness_ready [of _ HTTP_LISTENING] by (simp add: events_differ)
  next
    case (RedisAnswered ok i)
    then show ?thesis using up [of "redis_connect ok"] redis_connect_ready redis_connect_shut by simp
  next
    case (ReadyTimeout i)
    then show ?thesis using up [of readiness_timeout] timeout_ok by simp
  next
    case (AskReady caller i)
    then show ?thesis using up [of "isReady caller"] isReady_ok by simp
  next
    case (CloseServer i)
    then show ?thesis using up [of server_close] close_ok by simp
  next
    case (Stage ok i)
    then show ?thesis using up [of "staged ok"] staged_ok by (simp add: close_stage_servers update_server_def)
  qed
qed simp


text \<open>
  A server says that it is ready only when every transport is: a caller of \<open>isReady\<close> is answered only by a
  ready server, at once or when the last transport reports, nobody is left waiting by a ready server, and a
  ready server of a cluster has subscribed. After a completed shutdown every transport is closed and no
  client, method or channel is left.
\<close>

theorem readiness_and_shutdown:
  assumes "life_run h p" and "a \<in> set (pr_servers p)"
  shows "(as_resolved a \<noteq> [] \<longrightarrow> as_ready a) \<and> (as_ready a \<longrightarrow> as_waiters a = []) \<and>
    (as_ready a \<and> as_close a = Running \<longrightarrow> as_redis a = None \<or> as_redis a = Some Subscribed) \<and>
    (as_close a = ShutDown \<longrightarrow> \<not> as_wsOpen a \<and> \<not> as_httpOpen a \<and> as_redis a \<noteq> Some Subscribed \<and>
       sv_allClients (as_server a) = [] \<and> sv_methods (as_server a) = [] \<and> sv_channels (as_server a) = [])"
proof -
  have r: "ready_ok a" "shut_ok a" using run_life_ok [OF assms(1)] assms(2) by auto
  have "as_redis a = None \<or> as_redis a = Some Subscribed" if "as_ready a" "as_close a = Running"
  proof -
    have "case as_redis a of None \<Rightarrow> True | Some ph \<Rightarrow> started ph" using r(1) that(1) by (auto simp: ready_ok_def)
    moreover have "as_redis a \<noteq> Some RedisClosed" using r(2) that(2) by (simp add: shut_ok_def)
    ultimately show ?thesis by (auto simp: started_def split: option.splits)
  qed
  then show ?thesis using r by (auto simp: ready_ok_def shut_ok_def)
qed

text \<open>
  Where it goes wrong. Once one wait has timed out, no later report makes the server ready, and its callers
  wait for ever; a Redis that rejects at shutdown leaves the WebSocket and HTTP servers open for good; and
  closing a server that was not the global one deletes the other's global variable.
\<close>

lemma timed_out_never_ready: "as_awaiting a = None \<Longrightarrow> readiness e a = a \<and> redis_connect ok a = a\<lparr>as_redis := as_redis (redis_connect ok a)\<rparr>"
  by (auto simp: readiness_def redis_connect_def split: option.splits redis_phase.splits)

lemma rejected_close_leaves_listening:
  assumes "i < length (pr_servers p)" and "as_close (pr_servers p ! i) = ClosingRedis"
  shows "let a = pr_servers (close_stage False i p) ! i in
    as_wsOpen a = as_wsOpen (pr_servers p ! i) \<and> as_httpOpen a = as_httpOpen (pr_servers p ! i) \<and> server_close a = a \<and>
    close_stage ok i (close_stage False i p) = close_stage False i p"
proof -
  have "close_stage False i p = update_server i (\<lambda>a. a\<lparr>as_close := CloseRejected\<rparr>) p" using assms by (simp add: close_stage_def Let_def)
  then show ?thesis using assms by (simp add: update_server_def server_close_def close_stage_def Let_def)
qed

definition plain_options :: server_options where
  "plain_options = \<lparr>op_host = None, op_port = jint 3000, op_redis = False, op_globalInstance = None, op_auth = False, op_shouldAllowChannelSubscribe = None\<rparr>"

lemma private_server_clears_global:
  "let p = snd (new_server plain_host (plain_options\<lparr>op_globalInstance := Some False\<rparr>) (snd (new_server plain_host plain_options \<lparr>pr_servers = [], pr_global = None, pr_bus = []\<rparr>)))
   in pr_global p = Some 0 \<and> pr_global (life_step (Stage True 1) (life_step (Stage True 1) (life_step (CloseServer 1) p))) = None"
  by code_simp

lemma failed_construction_keeps_global:
  "let p = snd (new_server plain_host (plain_options\<lparr>op_host := Some []\<rparr>) \<lparr>pr_servers = [], pr_global = None, pr_bus = []\<rparr>)
   in pr_servers p = [] \<and> fst (new_server plain_host plain_options p) = Some (Error ''There can only be one instance of TypeFerry.'')"
  by code_simp

text \<open>The channel check given to the constructor is not used: every channel stays open until \<open>setChannelAuthorization\<close>.\<close>

lemma constructor_ignores_channel_check:
  assumes "new_server h opts p = (None, p')"
  shows "sv_allowChannel (as_server (last (pr_servers p'))) = (\<lambda>_ _. Inr True) \<and> \<not> as_isAuthEnabled (last (pr_servers p'))"
  using assms by (auto simp: new_server_def Let_def addEvent_def createDefaultMethods_def addMethod_def empty_server_def split: if_splits)

section \<open>Events across the cluster\<close>

lemma update_server_nth: "i < length (pr_servers p) \<Longrightarrow> j < length (pr_servers p) \<Longrightarrow>
    pr_servers (update_server i f p) ! j = (if j = i then f (pr_servers p ! j) else pr_servers p ! j)"
  by (simp add: update_server_def nth_list_update)

lemma update_server_length [simp]: "length (pr_servers (update_server i f p)) = length (pr_servers p)" "pr_bus (update_server i f p) = pr_bus p"
  by (simp_all add: update_server_def)

lemma deliver_all:
  assumes "pr_bus p = map (\<lambda>j. (j, m)) js" and "distinct js" and "\<forall>j \<in> set js. j < length (pr_servers p) \<and> as_redis (pr_servers p ! j) = Some Subscribed"
  shows "pr_bus ((bus_deliver ^^ length js) p) = [] \<and> length (pr_servers ((bus_deliver ^^ length js) p)) = length (pr_servers p) \<and>
    (\<forall>j < length (pr_servers p). pr_servers ((bus_deliver ^^ length js) p) ! j =
       (if j \<in> set js then (pr_servers p ! j)\<lparr>as_server := redis_message m (as_server (pr_servers p ! j))\<rparr> else pr_servers p ! j))"
  using assms
proof (induction js arbitrary: p)
  case (Cons k js)
  let ?q = "bus_deliver p"
  have k: "k < length (pr_servers p)" "as_redis (pr_servers p ! k) = Some Subscribed" using Cons.prems(3) by auto
  have q: "pr_bus ?q = map (\<lambda>j. (j, m)) js" "length (pr_servers ?q) = length (pr_servers p)"
    "\<And>j. j < length (pr_servers p) \<Longrightarrow> pr_servers ?q ! j = (if j = k then (pr_servers p ! j)\<lparr>as_server := redis_message m (as_server (pr_servers p ! j))\<rparr> else pr_servers p ! j)"
    using Cons.prems(1) k by (simp_all add: bus_deliver_def update_server_def nth_list_update)
  have "\<forall>j \<in> set js. j < length (pr_servers ?q) \<and> as_redis (pr_servers ?q ! j) = Some Subscribed"
    using Cons.prems(2,3) q(2,3) by auto
  from Cons.IH [OF q(1) _ this] Cons.prems(2) show ?case using q(2,3) by (simp add: funpow_Suc_right del: funpow.simps)
qed simp

lemma emit_cluster_published:
  assumes "map_of (sv_events s) name = Some event" and "ev_name event = name" and "ev_cluster event" and "sv_redis s"
  shows "emit_channel uuid ch name params s = s\<lparr>sv_published := sv_published s @ [(name, ch, event_payload uuid name ch params,
    if ev_excludeOriginator event then (case get_prop params ''uuid'' of JStr u \<Rightarrow> Some u | _ \<Rightarrow> None) else None)]\<rparr>"
  using assms by (simp add: emit_channel_def event_handler_def Let_def)


lemma redis_message_sent:
  assumes "map_of (sv_events s) name = Some event" and "ch \<noteq> []"
    and "exclude = (if ev_excludeOriginator e then (case get_prop params ''uuid'' of JStr u \<Rightarrow> Some u | _ \<Rightarrow> None) else None)"
  shows "sv_sent (redis_message (name, ch, payload, exclude) s) = sv_sent s @
    broadcast (\<lambda>ws. ws \<in> set (sv_open s)) (getRoomName ch name) payload (originator s e params) (sv_rooms s)"
proof -
  obtain s1 where c: "channel (JStr ch) s = (ch, s1)" "sv_events s1 = sv_events s" "sv_sent s1 = sv_sent s" "sv_open s1 = sv_open s"
    "sv_rooms s1 = sv_rooms s" "sv_allClients s1 = sv_allClients s" "sv_nodes s1 = sv_nodes s"
    using assms(2) that by (cases "ch = NO_CHANNEL") (simp_all add: channel_def)
  have "(case exclude of None \<Rightarrow> None
      | Some uuid \<Rightarrow> if uuid = [] then None else (case map_of (sv_allClients s) uuid of None \<Rightarrow> None | Some i \<Rightarrow> cn_socket (node_at s i))) = originator s e params"
    unfolding assms(3) originator_def by (auto split: jsval.splits)
  note x = this [folded c(6,7)]
  show ?thesis using assms(1) by (simp add: redis_message_def propagate_def c(1-5) x Let_def)
qed



definition sample_member :: "socket \<Rightarrow> app_server" where
  "sample_member ws =
     \<lparr>as_server = (addEvent plain_host ''news'' \<lparr>eo_protected = None, eo_user = False, eo_shouldSubscribe = None, eo_cluster = True, eo_excludeOriginator = False\<rparr> (empty_server True))
        \<lparr>sv_rooms := join ws (getRoomName ''c'' ''news'') new_registry, sv_open := [ws]\<rparr>,
      as_host = ''localhost'', as_port = jint 80, as_redis = Some Subscribed, as_awaiting = Some [], as_ready = True, as_waiters = [], as_resolved = [],
      as_isAuthEnabled = False, as_wsOpen = True, as_httpOpen = True, as_close = Running\<rparr>"

definition sample_cluster :: node_process where
  "sample_cluster = \<lparr>pr_servers = [sample_member 7, sample_member 8], pr_global = None, pr_bus = []\<rparr>"


end
