(* ===== verification/Spec2Isabelle.thy ===== *)
theory Spec2Isabelle
  imports Rooms LiveProps LiveEngineProps MiniCursor Sessions ServerHttp ClientConn RemoteCall
    TokenRefresh LiveSource ChangeStreams Emitter Cli Decorators Cookies Handoff Validator ServerLife
begin

text \<open>
  \<^bold>\<open>TypeFerry.\<close> A verification library for the TypeScript framework under \<open>src/typeferry-ts/src\<close>
  (paths below are relative to it). TypeFerry connects browser and server with remote methods,
  events on channels and live queries over one WebSocket, with HTTP as a fallback; it has its own
  value encoding (EJSON), its own sessions, and an in-memory document database with the query
  language of MongoDB.

  \<^bold>\<open>The parts and how they meet.\<close> A client (\<open>client/\<close>) sends frames that the EJSON codec (\<open>ejson/\<close>)
  encodes; the WebSocket and HTTP transports (\<open>server/transports/\<close>) decode them and dispatch to the
  methods of the server (\<open>server/\<close>), which answers, or emits events to the sockets of a room
  (\<open>server/room-registry.ts\<close>). Live queries (\<open>mongodb/live/\<close>) run on top of both: an engine on the
  server admits subscriptions and runs an observer for each, the observer turns database notices
  into numbered deltas, and a view on the client applies them. Sessions (\<open>auth/server/\<close>) issue and
  rotate the tokens that connections authenticate with, and \<open>auth/client/\<close> renews them before they run
  out. The servers of a cluster exchange their events over Redis. The local database (\<open>minimongo/\<close>) is
  used on its own.

  \<^bold>\<open>Conventions.\<close> A JavaScript value is a \<open>jsval\<close> (\<open>JsValue\<close>): numbers are exact rationals with the
  infinities and NaN, strings are character lists, an object is the list of its properties in the order
  the language enumerates them. A \<open>Map\<close> is an association list in insertion order and a \<open>Set\<close> a
  duplicate-free list (\<open>Prelude\<close>). Code that throws returns a sum with the error on the left; where a
  failure leaves effects behind, the state is returned as well. Objects shared by reference live in
  lists and are named by their index. An asynchronous function is a task that runs to its next wait;
  what it waits for is an input of a later step, so every interleaving of messages, timers, promises
  and calls is a sequence of steps. Clocks, random identifiers, text conversion of numbers and dates,
  regular expressions (the record \<open>host\<close>), the database, schemas, handlers, middleware and authenticators of
  an application are parameters.

  \<^bold>\<open>Values and encoding.\<close>
  \<^item> \<open>Prelude\<close>: results, maps and sets, and the lemma collections the components share.
  \<^item> \<open>JsValue\<close> (\<open>utils/lodash.ts\<close>, \<open>ejson/utils.ts\<close>): values and object helpers.
  \<^item> \<open>Base64\<close> (\<open>ejson/base64.ts\<close>): encoder and decoder on bytes and their round trip.
  \<^item> \<open>Ejson\<close> (\<open>ejson/*.ts\<close>): converters, cloning and the in-place passes, as written; \<open>EjsonWire\<close>: they
    compute a structural encoding, and decoding inverts it on every value the wire carries.
  \<^item> \<open>Equality\<close> (\<open>ejson/equals.ts\<close>): an equivalence on documents, and where it is not one.

  \<^bold>\<open>Server.\<close>
  \<^item> \<open>Rooms\<close> (\<open>room-registry.ts\<close>): two indexes that implement one relation; broadcasts.
  \<^item> \<open>ServerCore\<close> (\<open>client-node.ts\<close>, \<open>method.ts\<close>, \<open>methods.ts\<close>, \<open>event.ts\<close>, \<open>server-channel.ts\<close>,
    \<open>server.ts\<close>, \<open>transports/ws-shared.ts\<close>): one record \<open>server\<close>; client nodes are a heap.
  \<^item> \<open>ServerWs\<close> (\<open>transports/websocket-transport.ts\<close>): the record \<open>ws_transport\<close> and its steps.
  \<^item> \<open>ServerHttp\<close> (\<open>transports/node-hono-transport.ts\<close>, \<open>hono-rate-limit.ts\<close>,
    \<open>hono-streaming-body-limit.ts\<close>): the RPC endpoint, rate and body limits.
  \<^item> \<open>ServerProps\<close>: every call is answered once; an event reaches its subscribers and nobody else;
    what an interrupted authentication and a logout leave behind.
  \<^item> \<open>Decorators\<close> (\<open>server/decorators/\<close>, \<open>create-method-proxy.ts\<close>): namespaces of methods, from the
    declaration of a class to \<open>addMethod\<close>; a protected namespace answers no unauthenticated client.
  \<^item> \<open>ServerLife\<close> (the lifecycle of \<open>server.ts\<close>, \<open>transports/redis-transport.ts\<close>): start, readiness,
    shutdown, and the record of a cluster whose servers publish to one another.

  \<^bold>\<open>Authentication.\<close>
  \<^item> \<open>Sessions\<close> (\<open>auth/server/session-manager.ts\<close>): rotation of refresh tokens, grace period, theft
    detection; families are chains and a reused token locks its family for good.
  \<^item> \<open>Cookies\<close> (\<open>auth/server/cookie-utils.ts\<close>, \<open>device-info.ts\<close>, \<open>jwt-utils.ts\<close>): the refresh cookie,
    whose text is a list of code points, and its round trip.
  \<^item> \<open>Handoff\<close> (\<open>auth/server/native-handoff.ts\<close>): login codes for native applications. The store of grants
    is the application's; its documented contract is a hypothesis, under which a code is used once.
  \<^item> \<open>TokenRefresh\<close> (\<open>auth/client/token-refresh.ts\<close>, \<open>cross-tab-sync.ts\<close>): one refresh at a time, the
    callers that share its outcome, the schedule, and the tabs that hear of it.

  \<^bold>\<open>Client.\<close>
  \<^item> \<open>ClientContext\<close> (\<open>context-manager.ts\<close>): context and storage; the refresh token stays out of it.
  \<^item> \<open>ClientCore\<close> (\<open>client-socket.ts\<close>, \<open>client.ts\<close>, \<open>client-http.ts\<close>, \<open>client-channel.ts\<close>): sockets, pending
    calls, calls with retries and fallback, batched subscriptions. \<open>ClientLife\<close>
    (\<open>visibility-manager.ts\<close>, \<open>idle-timer.ts\<close> and the rest of the former): recovery after sleep,
    reconnection, initialization, messages, and the step function \<open>client_step\<close> with its guard
    \<open>client_enabled\<close>.
  \<^item> \<open>ClientConn\<close>: a projection of the client on its connection and an invariant of it; a closed client
    stays closed, and reconnection is bounded.
  \<^item> \<open>ClientCalls\<close>: the invariant of pending calls; every call settles.
  \<^item> \<open>RemoteCall\<close>: client, codec and server composed: a remote call answers what the local one would.

  \<^bold>\<open>Live queries.\<close>
  \<^item> \<open>LiveWindow\<close> (\<open>window.ts\<close>): validation of ordered windows and the splice protocol.
  \<^item> \<open>LiveObserver\<close> (\<open>observer.ts\<close>) and \<open>LiveClient\<close> (\<open>client.ts\<close>): the two ends of the delta stream.
  \<^item> \<open>LiveSync\<close>: their composition over an ordered channel; the view ends with the server's documents.
  \<^item> \<open>LiveProps\<close>: deltas apply in order or not at all; what notices make the observer do.
  \<^item> \<open>LiveEngine\<close> (\<open>engine.ts\<close>): subscriptions per connection, admission, resynchronisation, logout; its
    methods are tasks. \<open>LiveEngineProps\<close>: capacity, cancellation, termination of every method, and a
    leak at one interleaving.
  \<^item> \<open>LiveSource\<close> (\<open>source.ts\<close>): the change stream of a collection and its resumption; a change the worker
    loses makes every observer refresh. \<open>ChangeStreams\<close> (\<open>mongodb/change-streams.ts\<close>): the watches that
    emit changes as events.
  \<^item> \<open>Validator\<close> (\<open>mongodb/validator.ts\<close>): the compiler from JSON Schema to the dialect of MongoDB. What
    the keywords of either dialect mean is a parameter; the compiled schema accepts the same values.

  \<^bold>\<open>Local database.\<close>
  \<^item> \<open>MiniValues\<close> (\<open>value-semantics.ts\<close>), \<open>MiniPath\<close> (\<open>path.ts\<close>): a linear order of values; dotted paths.
  \<^item> \<open>MiniMatcher\<close> (\<open>matcher.ts\<close>) and \<open>MiniSelect\<close>: the selector compiler; algebra of its operators.
  \<^item> \<open>MiniSorter\<close>, \<open>MiniProjection\<close>, \<open>MiniModifier\<close>, \<open>MiniModProps\<close>: sorting, projections and updates.
  \<^item> \<open>MiniEvents\<close>, \<open>MiniStore\<close>, \<open>MiniCursor\<close>: emitter, collection and cursors; identities, removal,
    and the events that replay a change of result.

  \<^bold>\<open>Utilities.\<close>
  \<^item> \<open>Throttle\<close> (\<open>utils/lodash.ts\<close>), \<open>Emitter\<close> (\<open>utils/event-emitter.ts\<close>, \<open>iterator.ts\<close>, \<open>events.ts\<close>): the
    spacing of throttled runs; listeners that change the emitter while they run.
  \<^item> \<open>Cli\<close> (\<open>application/cli-arguments.ts\<close>): the parser of the command line, with every error it raises.

  \<^bold>\<open>Interfaces.\<close> What one component relies on in another is a locale, interpreted on the definitions of
  the component that provides it: the relation a room registry implements (\<open>subscription_registry\<close>),
  the equality that splices compare documents with (\<open>document_equality\<close>), the comparisons that values
  and sort keys are ordered by (\<open>value_order\<close>, \<open>total_preorder\<close>), the store under a collection
  (\<open>document_store_contract\<close>) and the invariants of a running client (\<open>client_invariant\<close>). Where one
  operation has a reference, the specification is a function: \<open>ejson_enc\<close>, \<open>local_outcome\<close>, \<open>conn\<close>.

  \<^bold>\<open>Termination and bounds.\<close> Recursion over values decreases their depth or size, that of the validator
  compiler a weight of the schema; loops over the database's answers are steps. Fuel is used in one place,
  the emissions of \<open>Emitter\<close>, because listeners may emit without end: a theorem there gives the fuel
  that is enough when they do not. Where the code could wait for ever, the theorem says what bounds it:
  six waits for a live method, \<open>4 * maxRetries + 5\<close> steps for a call, 22 sockets for a client that
  cannot reach its server.

  \<^bold>\<open>Not modelled.\<close> Third-party code (Hono, the WebSocket, Redis and MongoDB drivers, JWT signing, Zod,
  \<open>fast-deep-equal\<close>) is a parameter or an input. The React hooks render what the modelled parts return;
  the native templates and shells, the build tools and the configuration are files and processes; the
  collection registry, OAuth providers, origins and logging mostly call libraries. The ports to other languages are
  separate programs.
\<close>

end
